(* ===== verification/Prelude.thy ===== *)
theory Prelude
  imports Main "HOL-Library.Word" "HOL-Library.Signed_Division" "HOL-Library.AList"
    "HOL-Library.Multiset"
begin

text \<open>
  The shared vocabulary of the development: bytes and byte strings, the error values of the Go code,
  slice expressions with their bounds checks, the integer conversions of Go, the flat contents of an
  open file with \<^verbatim>\<open>ReadAt\<close> and \<^verbatim>\<open>WriteAt\<close>, splitting a buffer into records of equal length, and
  the generic lemmas on them that the component theories use.
\<close>

named_theorems go_int \<open>ranges and identities of the Go integer conversions\<close>
named_theorems file_simps \<open>lengths and contents of files after reads and writes\<close>

section \<open>Bytes, errors, results\<close>

type_synonym byte = "8 word"
type_synonym bytes = "byte list"
type_synonym path = string

text \<open>
  How a Go call can end badly: an \<^verbatim>\<open>error\<close> value handed to the caller (\<^verbatim>\<open>ShortReadError\<close> and
  \<^verbatim>\<open>io.EOF\<close> are told apart, since callers test for them), a run-time panic, or \<^verbatim>\<open>log.Fatal\<close>, which
  ends the process.
\<close>

datatype go_err =
    Err string
  | ShortReadError
  | EOFError
  | NotExist path
  | Panic string
  | Fatal string

type_synonym 'a result = "go_err + 'a"

definition res_bind :: "'a result \<Rightarrow> ('a \<Rightarrow> 'b result) \<Rightarrow> 'b result" where
  "res_bind r f = (case r of Inl e \<Rightarrow> Inl e | Inr x \<Rightarrow> f x)"

fun is_ok :: "'a result \<Rightarrow> bool" where
  "is_ok (Inl _) = False"
| "is_ok (Inr _) = True"

section \<open>Slices\<close>

text \<open>\<open>go_slice a b xs\<close> is \<^verbatim>\<open>xs[a:b]\<close>: a run-time panic when the bounds are out of range.\<close>

definition go_slice :: "int \<Rightarrow> int \<Rightarrow> 'a list \<Rightarrow> 'a list result" where
  "go_slice a b xs = (if 0 \<le> a \<and> a \<le> b \<and> b \<le> int (length xs)
     then Inr (take (nat (b - a)) (drop (nat a) xs)) else Inl (Panic ''slice bounds out of range''))"

text \<open>\<open>copy_at p xs ds\<close> is the destination after \<^verbatim>\<open>copy(xs[p:], ds)\<close>, for \<open>p \<le> length xs\<close>.\<close>

definition copy_at :: "nat \<Rightarrow> 'a list \<Rightarrow> 'a list \<Rightarrow> 'a list" where
  "copy_at p xs ds = (let n = min (length xs - p) (length ds)
     in take p xs @ take n ds @ drop (p + n) xs)"

section \<open>Integer conversions\<close>

text \<open>Conversion of an integer to a signed type of \<open>8\<close>, \<open>16\<close>, \<open>32\<close> or \<open>64\<close> bits keeps the low bits.\<close>

definition to_int8 :: "int \<Rightarrow> int" where "to_int8 x = signed_take_bit 7 x"
definition to_int16 :: "int \<Rightarrow> int" where "to_int16 x = signed_take_bit 15 x"
definition to_int32 :: "int \<Rightarrow> int" where "to_int32 x = signed_take_bit 31 x"
definition to_int64 :: "int \<Rightarrow> int" where "to_int64 x = signed_take_bit 63 x"

section \<open>File contents\<close>

text \<open>
  The contents of a regular file and the positioned write of \<^verbatim>\<open>pwrite\<close>: bytes between the old end and
  the offset read as zero afterwards, and a write of no bytes leaves the file as it is.
\<close>

definition write_at :: "bytes \<Rightarrow> nat \<Rightarrow> bytes \<Rightarrow> bytes" where
  "write_at f off d = (if d = [] then f
     else take off (f @ replicate (off - length f) 0) @ d @ drop (off + length d) f)"

definition read_at :: "bytes \<Rightarrow> nat \<Rightarrow> nat \<Rightarrow> bytes" where
  "read_at f off n = take n (drop off f)"

section \<open>Records of equal length\<close>

text \<open>\<open>chunks n k xs\<close> are the first \<open>k\<close> records of \<open>n\<close> bytes of the buffer \<open>xs\<close>.\<close>

primrec chunks :: "nat \<Rightarrow> nat \<Rightarrow> 'a list \<Rightarrow> 'a list list" where
  "chunks n 0 xs = []"
| "chunks n (Suc k) xs = take n xs # chunks n k (drop n xs)"

section \<open>Lemmas: results and slices\<close>

lemma res_bind_simps [simp]: "res_bind (Inl e) f = Inl e" "res_bind (Inr x) f = f x"
  by (simp_all add: res_bind_def)

lemma res_bind_Inr: "res_bind r f = Inr y \<longleftrightarrow> (\<exists>x. r = Inr x \<and> f x = Inr y)"
  by (cases r) auto

lemma go_slice_ok [simp]:
  "0 \<le> a \<Longrightarrow> a \<le> b \<Longrightarrow> b \<le> int (length xs) \<Longrightarrow> go_slice a b xs = Inr (take (nat (b - a)) (drop (nat a) xs))"
  by (simp add: go_slice_def)

lemma go_slice_nat: "a \<le> b \<Longrightarrow> b \<le> length xs \<Longrightarrow> go_slice (int a) (int b) xs = Inr (take (b - a) (drop a xs))"
  by (simp add: nat_diff_distrib)

lemma length_copy_at: "p \<le> length xs \<Longrightarrow> length (copy_at p xs ds) = length xs"
  by (simp add: copy_at_def Let_def)

lemma copy_at_fits: "p + length ds \<le> length xs \<Longrightarrow>
    copy_at p xs ds = take p xs @ ds @ drop (p + length ds) xs"
  by (auto simp: copy_at_def Let_def min_def)

section \<open>Lemmas: integer conversions\<close>

lemma to_int_id [go_int]:
  "-(2 ^ 7) \<le> x \<Longrightarrow> x < 2 ^ 7 \<Longrightarrow> to_int8 x = x"
  "-(2 ^ 15) \<le> y \<Longrightarrow> y < 2 ^ 15 \<Longrightarrow> to_int16 y = y"
  "-(2 ^ 31) \<le> z \<Longrightarrow> z < 2 ^ 31 \<Longrightarrow> to_int32 z = z"
  "-(2 ^ 63) \<le> w \<Longrightarrow> w < 2 ^ 63 \<Longrightarrow> to_int64 w = w"
  by (simp_all add: to_int8_def to_int16_def to_int32_def to_int64_def
      signed_take_bit_int_eq_self)

lemma to_int16_range [go_int]: "-(2 ^ 15) \<le> to_int16 x" "to_int16 x < 2 ^ 15"
  unfolding to_int16_def
  using signed_take_bit_int_greater_eq_minus_exp [of 15 x] signed_take_bit_int_less_exp [of 15 x]
  by simp_all

text \<open>Go's truncating division and remainder agree with the flooring ones on non-negative operands.\<close>

lemma smod_nonneg: "0 \<le> (a::int) \<Longrightarrow> 0 < b \<Longrightarrow> a smod b = a mod b"
  by (auto simp: smod_int_alt_def sgn_if)

lemma sdiv_nonneg: "0 \<le> (a::int) \<Longrightarrow> 0 < b \<Longrightarrow> a sdiv b = a div b"
  by (auto simp: signed_divide_int_def sgn_if)

lemma int_div_less: "0 < k \<Longrightarrow> (m::int) < n * k \<Longrightarrow> m div k < n"
proof (rule ccontr)
  assume k: "0 < k" "m < n * k" and "\<not> m div k < n"
  then have "n * k \<le> m div k * k" by (simp add: mult_right_mono)
  also have "\<dots> \<le> m" using k(1) minus_div_mult_eq_mod [of m k] pos_mod_sign [of k m] by linarith
  finally show False using k by simp
qed

lemma int_le_div: "0 < k \<Longrightarrow> n * k \<le> (m::int) \<Longrightarrow> n \<le> m div k"
  using zdiv_mono1 [of "n * k" m k] by simp

section \<open>Lemmas: files\<close>

lemma length_write_at:
  "length (write_at f off d) = (if d = [] then length f else max (length f) (off + length d))"
  by (auto simp: write_at_def max_def)

lemma write_at_Nil [simp]: "write_at f off [] = f"
  by (simp add: write_at_def)

lemma write_at_inside: "off + length d \<le> length f \<Longrightarrow>
    write_at f off d = take off f @ d @ drop (off + length d) f"
  by (auto simp: write_at_def)

lemma length_write_at_inside [file_simps]:
  "off + length d \<le> length f \<Longrightarrow> length (write_at f off d) = length f"
  by (auto simp: write_at_def)

lemma write_at_append: "write_at f (length f) d = f @ d"
  by (simp add: write_at_def)

lemma nth_write_at_inside:
  assumes "off + length d \<le> length f" "i < length f"
  shows "write_at f off d ! i = (if off \<le> i \<and> i < off + length d then d ! (i - off) else f ! i)"
  using assms by (auto simp: write_at_inside nth_append)

lemma read_write_same: "off + length d \<le> length f \<Longrightarrow> read_at (write_at f off d) off (length d) = d"
  by (simp add: read_at_def write_at_inside)

lemma read_at_nth: "off + n \<le> length f \<Longrightarrow> i < n \<Longrightarrow> read_at f off n ! i = f ! (off + i)"
  by (simp add: read_at_def)

lemma length_read_at [file_simps]: "length (read_at f off n) = min n (length f - off)"
  by (simp add: read_at_def)

lemma nth_write_at [file_simps]:
  assumes "off \<le> length f" "i < length f \<or> i < off + length d"
  shows "write_at f off d ! i = (if off \<le> i \<and> i < off + length d then d ! (i - off) else f ! i)"
  using assms by (auto simp: write_at_def nth_append)

lemma length_write_at_le: "off \<le> length f \<Longrightarrow> length (write_at f off d) = max (length f) (off + length d)"
  by (auto simp: length_write_at)

text \<open>Reading back what was written, and reading anything the write does not touch.\<close>

lemma read_write_hit: "off \<le> length f \<Longrightarrow> read_at (write_at f off d) off (length d) = d"
  by (auto simp: read_at_def write_at_def)

lemma read_write_miss:
  assumes "off \<le> length f" "r + n \<le> length f" "{off..<off + length d} \<inter> {r..<r + n} = {}"
  shows "read_at (write_at f off d) r n = read_at f r n"
proof (rule nth_equalityI)
  show "length (read_at (write_at f off d) r n) = length (read_at f r n)"
    using assms by (auto simp: length_read_at length_write_at_le)
next
  fix i
  assume "i < length (read_at (write_at f off d) r n)"
  then have i: "i < n" by (simp add: length_read_at)
  then have "r + i \<in> {r..<r + n}" by simp
  with assms(3) have "r + i \<notin> {off..<off + length d}" by blast
  with assms i show "read_at (write_at f off d) r n ! i = read_at f r n ! i"
    by (subst (1 2) read_at_nth) (auto simp: length_write_at_le nth_write_at)
qed

lemma write_at_same: "read_at f off (length d) = d \<Longrightarrow> off + length d \<le> length f \<Longrightarrow> write_at f off d = f"
  by (metis append_take_drop_id drop_drop read_at_def write_at_inside add.commute)

text \<open>Two files of equal length are equal when they agree at every position.\<close>

lemma write_at_twice:
  assumes "off + length d \<le> length f"
  shows "write_at (write_at f off d) off d = write_at f off d"
  using assms by (simp add: write_at_same read_write_same length_write_at)

lemma write_at_commute:
  assumes "a + length d \<le> length f" "b + length e \<le> length f"
    and "a + length d \<le> b \<or> b + length e \<le> a"
  shows "write_at (write_at f a d) b e = write_at (write_at f b e) a d"
  using assms by (intro nth_equalityI) (auto simp: file_simps)

lemma write_at_nested:
  assumes "p + length d \<le> length buf" "off + length buf \<le> length f"
  shows "write_at (write_at f off buf) (off + p) d = write_at f off (copy_at p buf d)"
  using assms
  by (intro nth_equalityI)
    (auto simp: file_simps length_copy_at copy_at_fits nth_append)

lemma write_at_over:
  assumes "off + length buf \<le> length f" "length buf = length d"
  shows "write_at (write_at f off buf) off d = write_at f off d"
  using assms by (intro nth_equalityI) (auto simp: file_simps)

section \<open>Lemmas: records\<close>

lemma length_chunks [simp]: "length (chunks n k xs) = k"
  by (induction k arbitrary: xs) auto

lemma concat_chunks: "length xs = n * k \<Longrightarrow> concat (chunks n k xs) = xs"
  by (induction k arbitrary: xs) (auto simp: algebra_simps)

lemma chunks_concat: "\<forall>r \<in> set rs. length r = n \<Longrightarrow> chunks n (length rs) (concat rs @ ys) = rs"
  by (induction rs) auto

lemma length_concat_equal: "\<forall>x \<in> set xs. length x = n \<Longrightarrow> length (concat xs) = n * length xs"
  by (induction xs) auto

text \<open>The room a record, or a field of it, has in a buffer of records.\<close>

lemma row_room: "i < k \<Longrightarrow> k * n \<le> m \<Longrightarrow> i * n + n \<le> (m::nat)"
proof -
  assume "i < k" "k * n \<le> m"
  moreover from this have "(i + 1) * n \<le> k * n" by (intro mult_right_mono) auto
  ultimately show ?thesis by (simp add: algebra_simps)
qed

lemma div_less_room: "i < m div n \<Longrightarrow> i * n + n \<le> (m::nat)"
  by (rule row_room [of _ "m div n"]) simp_all

lemma chunks_nth: "i < k \<Longrightarrow> chunks n k xs ! i = take n (drop (i * n) xs)"
  by (induction k arbitrary: i xs) (auto simp: nth_Cons' algebra_simps split: nat.splits)

lemma chunks_add: "chunks n (j + k) xs = chunks n j xs @ chunks n k (drop (n * j) xs)"
  by (induction j arbitrary: xs) (auto simp: algebra_simps)

lemma chunks_take: "n * k \<le> m \<Longrightarrow> chunks n k (take m xs) = chunks n k xs"
proof (induction k arbitrary: m xs)
  case (Suc k)
  then have "n * k \<le> m - n" "n \<le> m" by auto
  with Suc.IH [of "m - n" "drop n xs"] show ?case
    by (simp add: min_def drop_take)
qed simp

end
