(* ===== verification/Bytes.thy ===== *)
theory Bytes
  imports Prelude
begin

text \<open>
  The byte representation of values (\<^verbatim>\<open>utils/io/serializer.go\<close> and the \<^verbatim>\<open>To...\<close> readers of
  \<^verbatim>\<open>utils/io/byteconversions.go\<close>). The code copies the memory of a value, so on the little-endian
  machines it runs on an integer is its bytes from the lowest to the highest. Floating point values are
  carried as their bit patterns: nothing in the storage code computes with them.
\<close>

section \<open>Little-endian integers\<close>

primrec le_bytes :: "nat \<Rightarrow> int \<Rightarrow> bytes" where
  "le_bytes 0 x = []"
| "le_bytes (Suc n) x = word_of_int x # le_bytes n (x div 256)"

primrec le_uint :: "bytes \<Rightarrow> int" where
  "le_uint [] = 0"
| "le_uint (b # bs) = uint b + 256 * le_uint bs"

section \<open>Strings as bytes\<close>

definition str_bytes :: "string \<Rightarrow> bytes" where
  "str_bytes s = map of_char s"

definition bytes_str :: "bytes \<Rightarrow> string" where
  "bytes_str bs = map (\<lambda>b. char_of (unat b)) bs"

section \<open>Reading values: \<^verbatim>\<open>utils/io/byteconversions.go\<close>\<close>

text \<open>
  Each reader dereferences a pointer to the first byte of the slice: an empty slice panics on
  \<^verbatim>\<open>&b[0]\<close>. Callers pass at least as many bytes as the type has, and then the value is these bytes;
  for a shorter slice the code would read the memory behind it, and the model reads zeros there.
\<close>

definition ToUint8 :: "bytes \<Rightarrow> int" where "ToUint8 b = le_uint (take 1 b)"
definition ToInt8 :: "bytes \<Rightarrow> int" where "ToInt8 b = to_int8 (le_uint (take 1 b))"
definition ToInt16 :: "bytes \<Rightarrow> int" where "ToInt16 b = to_int16 (le_uint (take 2 b))"
definition ToInt32 :: "bytes \<Rightarrow> int" where "ToInt32 b = to_int32 (le_uint (take 4 b))"
definition ToUInt32 :: "bytes \<Rightarrow> int" where "ToUInt32 b = le_uint (take 4 b)"
definition ToInt64 :: "bytes \<Rightarrow> int" where "ToInt64 b = to_int64 (le_uint (take 8 b))"
definition ToFloat32 :: "bytes \<Rightarrow> 32 word" where "ToFloat32 b = word_of_int (le_uint (take 4 b))"
definition ToFloat64 :: "bytes \<Rightarrow> 64 word" where "ToFloat64 b = word_of_int (le_uint (take 8 b))"

section \<open>Writing values: \<^verbatim>\<open>utils/io/serializer.go\<close>\<close>

text \<open>The values \<^verbatim>\<open>Serialize\<close> is called with, by their \<^verbatim>\<open>reflect.Kind\<close>.\<close>

datatype datum =
    Bool bool
  | Int8 int | Int16 int | Int32 int | Int64 int
  | Uint8 int | Uint16 int | Uint32 int | Uint64 int
  | Float32 "32 word" | Float64 "64 word"
  | Str string
  | ByteSlice bytes
  | Struct "datum list"
  | Slice "datum list"
  | GoMap "(string \<times> datum) list"
  | Reference \<comment> \<open>a channel, function, interface, pointer or unsafe pointer\<close>

text \<open>\<^verbatim>\<open>DataToByteSlice\<close>: the memory of a value of a primitive type.\<close>

fun DataToByteSlice :: "datum \<Rightarrow> bytes" where
  "DataToByteSlice (Bool b) = [if b then 1 else 0]"
| "DataToByteSlice (Int8 x) = le_bytes 1 x"
| "DataToByteSlice (Uint8 x) = le_bytes 1 x"
| "DataToByteSlice (Int16 x) = le_bytes 2 x"
| "DataToByteSlice (Uint16 x) = le_bytes 2 x"
| "DataToByteSlice (Int32 x) = le_bytes 4 x"
| "DataToByteSlice (Uint32 x) = le_bytes 4 x"
| "DataToByteSlice (Int64 x) = le_bytes 8 x"
| "DataToByteSlice (Uint64 x) = le_bytes 8 x"
| "DataToByteSlice (Float32 w) = le_bytes 4 (uint w)"
| "DataToByteSlice (Float64 w) = le_bytes 8 (uint w)"
| "DataToByteSlice _ = []"

text \<open>
  \<^verbatim>\<open>Serialize(buffer, datum)\<close> with both results: the buffer (\<^verbatim>\<open>nil\<close> is the empty buffer) and the error.
  The entries of a map come in the order the runtime visits them, each as the length of its key as
  an \<^verbatim>\<open>int16\<close>, the key, and the value.
\<close>

fun Serialize :: "bytes \<Rightarrow> datum \<Rightarrow> bytes \<times> go_err option"
  and Serialize_elems :: "bytes \<Rightarrow> datum list \<Rightarrow> bytes \<times> go_err option"
  and Serialize_entries :: "bytes \<Rightarrow> (string \<times> datum) list \<Rightarrow> bytes \<times> go_err option" where
  "Serialize buffer (ByteSlice b) = (buffer @ b, None)"
| "Serialize buffer Reference = (buffer, Some (Err ''Serialize: Type is not serializable''))"
| "Serialize buffer (Str s) = (buffer @ str_bytes s, None)"
| "Serialize buffer (Struct ds) = Serialize_elems buffer ds"
| "Serialize buffer (Slice ds) = Serialize_elems buffer ds"
| "Serialize buffer (GoMap es) = Serialize_entries buffer es"
| "Serialize buffer d = (buffer @ DataToByteSlice d, None)"
| "Serialize_elems buffer [] = (buffer, None)"
| "Serialize_elems buffer (d # ds) =
     (case Serialize buffer d of
        (_, Some e) \<Rightarrow> ([], Some e)
      | (b, None) \<Rightarrow> Serialize_elems b ds)"
| "Serialize_entries buffer [] = (buffer, None)"
| "Serialize_entries buffer ((k, d) # es) =
     (case Serialize (buffer @ le_bytes 2 (int (length k)) @ str_bytes k) d of
        (_, Some e) \<Rightarrow> ([], Some e)
      | (b, None) \<Rightarrow> Serialize_entries b es)"

text \<open>The values with no reference inside, and what they serialize to.\<close>

fun serializable :: "datum \<Rightarrow> bool" where
  "serializable Reference = False"
| "serializable (Struct ds) = list_all serializable ds"
| "serializable (Slice ds) = list_all serializable ds"
| "serializable (GoMap es) = list_all (\<lambda>(_, d). serializable d) es"
| "serializable _ = True"

fun encoding :: "datum \<Rightarrow> bytes" where
  "encoding (ByteSlice b) = b"
| "encoding (Str s) = str_bytes s"
| "encoding (Struct ds) = concat (map encoding ds)"
| "encoding (Slice ds) = concat (map encoding ds)"
| "encoding (GoMap es) = concat (map (\<lambda>(k, d). le_bytes 2 (int (length k)) @ str_bytes k @ encoding d) es)"
| "encoding d = DataToByteSlice d"

section \<open>Lemmas\<close>

lemma length_le_bytes [simp]: "length (le_bytes n x) = n"
  by (induction n arbitrary: x) auto

lemma le_bytes_Nil [simp]: "le_bytes n x = [] \<longleftrightarrow> n = 0"
  using length_le_bytes [of n x] by (metis length_0_conv)

lemma le_uint_le_bytes: "le_uint (le_bytes n x) = x mod 256 ^ n"
proof (induction n arbitrary: x)
  case (Suc n)
  have "uint (word_of_int x :: byte) = x mod 256"
    by (simp add: uint_word_of_int)
  with Suc show ?case
    by (simp add: zmod_zmult2_eq)
qed simp

lemma le_uint_bounds: "0 \<le> le_uint bs \<and> le_uint bs < 256 ^ length bs"
proof (induction bs)
  case (Cons b bs)
  moreover have "0 \<le> uint b" "uint b < 256"
    using uint_lt2p [of b] by simp_all
  ultimately show ?case by simp
qed simp

lemma le_bytes_le_uint: "le_bytes (length bs) (le_uint bs) = bs"
proof (induction bs)
  case (Cons b bs)
  have "0 \<le> uint b" "uint b < 256"
    using uint_lt2p [of b] by simp_all
  then have "(uint b + 256 * le_uint bs) div 256 = le_uint bs" by simp
  moreover have "word_of_int (uint b + 256 * le_uint bs) = b"
  proof -
    have "word_of_int (uint b + 256 * le_uint bs) = b + of_int 256 * of_int (le_uint bs)"
      by (simp only: of_int_add of_int_mult word_of_int_uint)
    also have "of_int 256 = (0 :: byte)" by simp
    finally show ?thesis by simp
  qed
  ultimately show ?case using Cons by simp
qed simp

lemma conv_mod [go_int]:
  "to_int8 (x mod 256) = to_int8 x"
  "to_int16 (x mod 65536) = to_int16 x"
  "to_int32 (x mod 4294967296) = to_int32 x"
  "to_int64 (x mod 18446744073709551616) = to_int64 x"
proof -
  have "x mod 256 = take_bit 8 x" "x mod 65536 = take_bit 16 x"
    "x mod 4294967296 = take_bit 32 x" "x mod 18446744073709551616 = take_bit 64 x"
    by (simp_all add: take_bit_eq_mod)
  then show "to_int8 (x mod 256) = to_int8 x" "to_int16 (x mod 65536) = to_int16 x"
    "to_int32 (x mod 4294967296) = to_int32 x"
    "to_int64 (x mod 18446744073709551616) = to_int64 x"
    by (simp_all add: to_int8_def to_int16_def to_int32_def to_int64_def
        signed_take_bit_take_bit)
qed

text \<open>A value written and read back is the value converted to the type's width.\<close>

lemma read_le_bytes [simp]:
  "ToInt8 (le_bytes (Suc 0) x @ ys) = to_int8 x"
  "ToInt16 (le_bytes 2 x @ ys) = to_int16 x"
  "ToInt32 (le_bytes 4 x @ ys) = to_int32 x"
  "ToInt64 (le_bytes 8 x @ ys) = to_int64 x"
  by (simp_all add: ToInt8_def ToInt16_def ToInt32_def ToInt64_def le_uint_le_bytes go_int del: le_bytes.simps)

lemma read_le_bytes' [simp]:
  "ToInt8 (le_bytes (Suc 0) x) = to_int8 x"
  "ToInt16 (le_bytes 2 x) = to_int16 x"
  "ToInt32 (le_bytes 4 x) = to_int32 x"
  "ToInt64 (le_bytes 8 x) = to_int64 x"
  using read_le_bytes [where ys = "[]"] by (simp_all del: le_bytes.simps)

lemma ToInt64_take [simp]: "8 \<le> n \<Longrightarrow> ToInt64 (take n bs) = ToInt64 bs"
  by (simp add: ToInt64_def min_def)

lemma ToInt64_range [go_int]: "-(2 ^ 63) \<le> ToInt64 bs" "ToInt64 bs < 2 ^ 63"
  unfolding ToInt64_def to_int64_def
  using signed_take_bit_int_greater_eq_minus_exp [of 63] signed_take_bit_int_less_exp [of 63]
  by simp_all

lemma length_str_bytes [simp]: "length (str_bytes s) = length s"
  by (simp add: str_bytes_def)

lemma bytes_str_inverse [simp]: "bytes_str (str_bytes s) = s"
proof -
  have "char_of (unat (of_char c :: byte)) = c" for c
  proof -
    have "(of_char c :: byte) = of_nat (of_char c)"
      by (simp only: of_nat_of_char)
    then have "unat (of_char c :: byte) = of_char c mod 2 ^ 8"
      by (simp only: unat_of_nat) simp
    then show ?thesis by simp
  qed
  then show ?thesis by (simp add: bytes_str_def str_bytes_def comp_def)
qed

lemma Serialize_encoding:
  "serializable d \<Longrightarrow> Serialize buf d = (buf @ encoding d, None)"
  "list_all serializable ds \<Longrightarrow> Serialize_elems buf ds = (buf @ concat (map encoding ds), None)"
  "list_all (\<lambda>(_, d). serializable d) es \<Longrightarrow>
     Serialize_entries buf es = (buf @ encoding (GoMap es), None)"
  by (induction buf d and buf ds and buf es rule: Serialize_Serialize_elems_Serialize_entries.induct)
    auto

lemma Serialize_error:
  "\<not> serializable d \<Longrightarrow> snd (Serialize buf d) \<noteq> None"
  "\<not> list_all serializable ds \<Longrightarrow> snd (Serialize_elems buf ds) \<noteq> None"
  "\<not> list_all (\<lambda>(_, d). serializable d) es \<Longrightarrow> snd (Serialize_entries buf es) \<noteq> None"
  by (induction buf d and buf ds and buf es rule: Serialize_Serialize_elems_Serialize_entries.induct)
    (auto simp: Serialize_encoding split: prod.splits option.splits)

end
