(* ===== verification/BufFile.thy ===== *)
theory BufFile
  imports Bytes
begin

text \<open>
  Positioned writes to a primary data file (\<^verbatim>\<open>executor/buffile/buffile.go\<close>, and the \<^verbatim>\<open>os.File\<close> it
  stands in for). \<^verbatim>\<open>writePrimary\<close> works on an interface with \<^verbatim>\<open>WriteAt\<close> and \<^verbatim>\<open>Close\<close>; the locale
  \<open>write_at_closer\<close> is that interface with the law its client needs, and it is interpreted twice, on the
  plain file and on the block-buffered file. The buffered file therefore refines the plain one.
\<close>

section \<open>The plain file\<close>

text \<open>\<open>ReadAt f n off\<close>: the bytes read and the error; fewer than \<open>n\<close> bytes come with \<^verbatim>\<open>io.EOF\<close>.\<close>

definition ReadAt :: "bytes \<Rightarrow> nat \<Rightarrow> int \<Rightarrow> bytes \<times> go_err option" where
  "ReadAt f n off = (if off < 0 then ([], Some (Err ''negative offset''))
     else let d = read_at f (nat off) n in (d, if length d < n then Some EOFError else None))"

definition WriteAt :: "bytes \<Rightarrow> bytes \<Rightarrow> int \<Rightarrow> bytes \<times> nat \<times> go_err option" where
  "WriteAt f d off = (if off < 0 then (f, 0, Some (Err ''negative offset''))
     else (write_at f (nat off) d, length d, None))"

section \<open>\<^verbatim>\<open>BufferedFile\<close>\<close>

text \<open>
  \<open>fp\<close> is the file as it is on disk; \<open>buffer\<close> is \<^verbatim>\<open>nil\<close> (\<open>None\<close>) until the first write.
\<close>

record BufferedFile =
  fp :: bytes
  blockSize :: int
  buffer :: "bytes option"
  bufferOffset :: int

definition defaultBlockSize :: int where
  "defaultBlockSize = 32 * 1024"

definition New :: "bytes \<Rightarrow> BufferedFile" where
  "New contents = \<lparr>fp = contents, blockSize = defaultBlockSize, buffer = None, bufferOffset = 0\<rparr>"

definition buffer_len :: "BufferedFile \<Rightarrow> nat" where
  "buffer_len f = (case buffer f of None \<Rightarrow> 0 | Some b \<Rightarrow> length b)"

definition readBuffer :: "BufferedFile \<Rightarrow> int \<Rightarrow> nat \<Rightarrow> BufferedFile \<times> go_err option" where
  "readBuffer f offset sz =
     (let readOffset = offset - offset smod blockSize f;
          readSize = offset smod blockSize f + int sz;
          readSize = readSize + blockSize f;
          readSize = readSize - readSize smod blockSize f;
          buf = (if int (buffer_len f) < readSize then replicate (nat readSize) 0
                 else (case buffer f of None \<Rightarrow> [] | Some b \<Rightarrow> b));
          f = (if int (buffer_len f) < readSize then f\<lparr>buffer := Some buf\<rparr> else f)
      in case ReadAt (fp f) (length buf) readOffset of
           (d, None) \<Rightarrow> (f\<lparr>buffer := Some d, bufferOffset := readOffset\<rparr>, None)
         | (d, Some EOFError) \<Rightarrow> (f\<lparr>buffer := Some d, bufferOffset := readOffset\<rparr>, None)
         | (d, Some e) \<Rightarrow> (f, Some e))"

definition writeBuffer :: "BufferedFile \<Rightarrow> BufferedFile \<times> go_err option" where
  "writeBuffer f = (case buffer f of None \<Rightarrow> (f, None)
     | Some b \<Rightarrow> (case WriteAt (fp f) b (bufferOffset f) of (c, _, e) \<Rightarrow> (f\<lparr>fp := c\<rparr>, e)))"

definition ensureBuffer :: "BufferedFile \<Rightarrow> bytes \<Rightarrow> int \<Rightarrow> BufferedFile \<times> go_err option" where
  "ensureBuffer f data offset =
     (case buffer f of None \<Rightarrow> readBuffer f offset (length data)
      | Some b \<Rightarrow>
          let bufferLower = bufferOffset f;
              bufferUpper = bufferOffset f + int (length b)
          in if offset < bufferLower \<or> offset + int (length data) > bufferUpper
             then (case writeBuffer f of (f, Some e) \<Rightarrow> (f, Some e)
                   | (f, None) \<Rightarrow> readBuffer f offset (length data))
             else (f, None))"

definition BufWriteAt :: "BufferedFile \<Rightarrow> bytes \<Rightarrow> int \<Rightarrow> BufferedFile \<times> nat \<times> go_err option" where
  "BufWriteAt f data offset =
     (case ensureBuffer f data offset of
        (f, Some e) \<Rightarrow> (f, 0, Some e)
      | (f, None) \<Rightarrow>
          let writePos = offset - bufferOffset f;
              b = (case buffer f of None \<Rightarrow> [] | Some b \<Rightarrow> b)
          in if writePos < 0 \<or> int (length b) < writePos
             then (f, 0, Some (Panic ''slice bounds out of range''))
             else (f\<lparr>buffer := Some (copy_at (nat writePos) b data)\<rparr>,
                   min (length b - nat writePos) (length data), None))"

definition BufClose :: "BufferedFile \<Rightarrow> bytes" where
  "BufClose f = fp (fst (writeBuffer f))"

text \<open>What the buffered file stands for: the file with the buffer written over its block.\<close>

definition contents :: "BufferedFile \<Rightarrow> bytes" where
  "contents f = (case buffer f of None \<Rightarrow> fp f | Some b \<Rightarrow> write_at (fp f) (nat (bufferOffset f)) b)"

definition bf_inv :: "BufferedFile \<Rightarrow> bool" where
  "bf_inv f \<longleftrightarrow> 0 < blockSize f \<and> 0 \<le> bufferOffset f \<and>
     (case buffer f of None \<Rightarrow> True | Some b \<Rightarrow> nat (bufferOffset f) + length b \<le> length (fp f))"

section \<open>Writing a batch through \<^verbatim>\<open>WriteAt\<close>\<close>

text \<open>A write of the batch lies inside a file of \<open>n\<close> bytes.\<close>

definition inside :: "nat \<Rightarrow> int \<times> bytes \<Rightarrow> bool" where
  "inside n w \<longleftrightarrow> 0 \<le> fst w \<and> nat (fst w) + length (snd w) \<le> n"

text \<open>The loop that writes a batch and stops at the first error, over any \<^verbatim>\<open>WriteAt\<close>.\<close>

fun write_loop :: "('s \<Rightarrow> bytes \<Rightarrow> int \<Rightarrow> 's \<times> nat \<times> go_err option) \<Rightarrow> 's \<Rightarrow> (int \<times> bytes) list
    \<Rightarrow> 's \<times> go_err option" where
  "write_loop wr s [] = (s, None)"
| "write_loop wr s ((off, d) # ws) =
     (case wr s d off of (s, _, Some e) \<Rightarrow> (s, Some e) | (s, _, None) \<Rightarrow> write_loop wr s ws)"

definition write_all :: "bytes \<Rightarrow> (int \<times> bytes) list \<Rightarrow> bytes" where
  "write_all f ws = fold (\<lambda>(off, d) f. write_at f (nat off) d) ws f"

lemma write_all_simps [simp]:
  "write_all f [] = f"
  "write_all f ((off, d) # ws) = write_all (write_at f (nat off) d) ws"
  by (simp_all add: write_all_def)

lemma write_all_append: "write_all f (ws @ vs) = write_all (write_all f ws) vs"
  by (simp add: write_all_def)

lemma length_write_all [file_simps]: "list_all (inside (length f)) ws \<Longrightarrow> length (write_all f ws) = length f"
  by (induction ws arbitrary: f) (auto simp: inside_def file_simps)

text \<open>
  A byte of the result of a batch is the same whatever the file held before, or was not written at all. So a file in which some of the
  batch has arrived and some has not is repaired by writing the batch again.
\<close>

lemma write_all_cover:
  assumes "list_all (inside (length f)) ws" "length g = length f" "i < length f"
  shows "write_all f ws ! i = write_all g ws ! i \<or> write_all f ws ! i = f ! i \<and> write_all g ws ! i = g ! i"
  using assms
proof (induction ws arbitrary: f g)
  case (Cons w ws)
  obtain off d where w: "w = (off, d)" by fastforce
  let ?f = "write_at f (nat off) d" and ?g = "write_at g (nat off) d"
  have fit: "nat off + length d \<le> length f" using Cons.prems w by (simp add: inside_def)
  have len: "length ?f = length f" "length ?g = length f" using fit Cons.prems(2) by (simp_all add: length_write_at_inside)
  have "write_all ?f ws ! i = write_all ?g ws ! i \<or> write_all ?f ws ! i = ?f ! i \<and> write_all ?g ws ! i = ?g ! i"
    using Cons.IH [of ?f ?g] Cons.prems len by simp
  moreover have "?f ! i = ?g ! i \<or> ?f ! i = f ! i \<and> ?g ! i = g ! i"
    using fit Cons.prems nth_write_at_inside [of "nat off" d f i] nth_write_at_inside [of "nat off" d g i] by auto
  ultimately show ?case unfolding w write_all_simps by metis
qed simp

lemma write_all_mix:
  assumes "list_all (inside (length f)) ws" "length g = length f"
    and "\<forall>i < length f. g ! i = f ! i \<or> g ! i = write_all f ws ! i"
  shows "write_all g ws = write_all f ws"
proof (rule nth_equalityI)
  show "length (write_all g ws) = length (write_all f ws)" using assms by (simp add: length_write_all)
next
  fix i
  assume "i < length (write_all g ws)"
  then have i: "i < length f" using assms by (simp add: length_write_all)
  with assms(3) write_all_cover [OF assms(1,2) i] show "write_all g ws ! i = write_all f ws ! i" by metis
qed

locale write_at_closer =
  fixes wr :: "'s \<Rightarrow> bytes \<Rightarrow> int \<Rightarrow> 's \<times> nat \<times> go_err option"
    and cl :: "'s \<Rightarrow> bytes"
    and content :: "'s \<Rightarrow> bytes"
    and inv :: "'s \<Rightarrow> bool"
  assumes wr_inside: "inv s \<Longrightarrow> inside (length (content s)) (off, d) \<Longrightarrow>
      \<exists>s'. wr s d off = (s', length d, None) \<and> inv s' \<and> content s' = write_at (content s) (nat off) d"
    and cl_content: "inv s \<Longrightarrow> cl s = content s"
begin

lemma loop_writes_all:
  assumes "inv s" "list_all (inside (length (content s))) ws"
  shows "\<exists>s'. write_loop wr s ws = (s', None) \<and> inv s' \<and> content s' = write_all (content s) ws"
  using assms
proof (induction ws arbitrary: s)
  case (Cons w ws)
  obtain off d where w: "w = (off, d)" by (cases w)
  from Cons.prems w obtain s1 where s1: "wr s d off = (s1, length d, None)" "inv s1"
    "content s1 = write_at (content s) (nat off) d"
    using wr_inside [of s off d] by auto
  from Cons.prems w have "length (content s1) = length (content s)"
    unfolding s1(3) by (simp add: inside_def file_simps)
  with Cons.IH [of s1] Cons.prems s1 w show ?case by auto
qed simp

lemma loop_close:
  assumes "inv s" "list_all (inside (length (content s))) ws"
  shows "cl (fst (write_loop wr s ws)) = write_all (content s) ws"
  using loop_writes_all [OF assms] cl_content by auto

end

section \<open>The two implementations\<close>

interpretation plain: write_at_closer WriteAt id id "\<lambda>_. True"
  by unfold_locales (auto simp: WriteAt_def inside_def)

lemma writeBuffer_contents:
  assumes "bf_inv f"
  shows "\<exists>g. writeBuffer f = (g, None) \<and> fp g = contents f \<and> blockSize g = blockSize f
    \<and> buffer g = buffer f \<and> bufferOffset g = bufferOffset f"
  using assms
  by (cases "buffer f") (auto simp: writeBuffer_def bf_inv_def WriteAt_def contents_def)

lemma length_contents [file_simps]: "bf_inv f \<Longrightarrow> length (contents f) = length (fp f)"
  by (auto simp: contents_def bf_inv_def file_simps split: option.splits)

text \<open>
  The block read around a write that lies inside the file holds the whole write: it starts at a block
  boundary at or before the offset, and reaches at least one byte past the end of the data, or the
  end of the file.
\<close>

lemma readBuffer_block:
  assumes "0 < blockSize f" "0 \<le> offset" "nat offset + sz \<le> length (fp f)"
  shows "\<exists>g b. readBuffer f offset sz = (g, None) \<and> fp g = fp f \<and> blockSize g = blockSize f \<and>
     buffer g = Some b \<and> 0 \<le> bufferOffset g \<and> bufferOffset g \<le> offset \<and>
     b = read_at (fp f) (nat (bufferOffset g)) (length b) \<and>
     nat offset + sz \<le> nat (bufferOffset g) + length b \<and>
     nat (bufferOffset g) + length b \<le> length (fp f)"
proof -
  define bs where "bs = blockSize f"
  define ro where "ro = offset - offset mod bs"
  define rs where "rs = offset mod bs + int sz + bs - (offset mod bs + int sz + bs) mod bs"
  define len where "len = (if int (buffer_len f) < rs then nat rs else buffer_len f)"
  have bs: "0 < bs" using assms bs_def by simp
  have "0 \<le> offset mod bs" "offset mod bs < bs" using bs by simp_all
  moreover have "offset mod bs \<le> offset" using assms by (simp add: zmod_le_nonneg_dividend)
  ultimately have ro: "0 \<le> ro" "ro \<le> offset" "offset - ro < bs" by (auto simp: ro_def)
  have rs: "offset - ro + int sz < rs"
  proof -
    have "(offset mod bs + int sz + bs) mod bs < bs" using bs by simp
    then show ?thesis by (simp add: rs_def ro_def)
  qed
  then have len: "offset - ro + int sz < int len"
    by (auto simp: len_def)
  let ?b = "read_at (fp f) (nat ro) len"
  have "length ?b \<le> len" by (simp add: file_simps)
  have rb: "readBuffer f offset sz = (f\<lparr>buffer := Some ?b, bufferOffset := ro\<rparr>, None)"
  proof -
    have sm: "offset smod bs = offset mod bs" "(offset mod bs + int sz + bs) smod bs
        = (offset mod bs + int sz + bs) mod bs"
      using bs assms(2) by (simp_all add: smod_nonneg)
    show ?thesis
      unfolding readBuffer_def Let_def bs_def [symmetric] sm
      using ro bs by (auto simp: ReadAt_def Let_def len_def rs_def ro_def buffer_len_def
          split: option.splits)
  qed
  have 1: "length ?b = min len (length (fp f) - nat ro)" by (simp add: file_simps)
  have "?b = read_at (fp f) (nat ro) (length ?b)" by (simp add: read_at_def min_def)
  moreover have "nat offset + sz \<le> nat ro + length ?b"
    using 1 len ro assms by linarith
  moreover have "nat ro + length ?b \<le> length (fp f)"
    using 1 ro assms by linarith
  ultimately show ?thesis
    using rb ro by (intro exI [of _ "f\<lparr>buffer := Some ?b, bufferOffset := ro\<rparr>"] exI [of _ ?b]) auto
qed

lemma ensureBuffer_covers:
  assumes "bf_inv f" "inside (length (contents f)) (offset, data)"
  shows "\<exists>g b. ensureBuffer f data offset = (g, None) \<and> bf_inv g \<and> contents g = contents f \<and>
     buffer g = Some b \<and> bufferOffset g \<le> offset \<and>
     nat offset + length data \<le> nat (bufferOffset g) + length b"
proof -
  have off: "0 \<le> offset" "nat offset + length data \<le> length (fp f)"
    using assms by (auto simp: inside_def file_simps)
  have reread: "\<exists>g b. readBuffer h offset (length data) = (g, None) \<and> bf_inv g \<and>
      contents g = contents f \<and> buffer g = Some b \<and> bufferOffset g \<le> offset \<and>
      nat offset + length data \<le> nat (bufferOffset g) + length b"
    if h: "fp h = contents f" "0 < blockSize h" for h
  proof -
    have "nat offset + length data \<le> length (fp h)"
      using h off assms(1) by (simp add: file_simps)
    from readBuffer_block [OF h(2) off(1) this] obtain g b where
      g: "readBuffer h offset (length data) = (g, None)" "fp g = fp h" "blockSize g = blockSize h"
        "buffer g = Some b" "0 \<le> bufferOffset g" "bufferOffset g \<le> offset"
        "b = read_at (fp h) (nat (bufferOffset g)) (length b)"
        "nat offset + length data \<le> nat (bufferOffset g) + length b"
        "nat (bufferOffset g) + length b \<le> length (fp h)" by blast
    then have "contents g = contents f" "bf_inv g"
      using h by (auto simp: contents_def bf_inv_def write_at_same)
    with g show ?thesis by blast
  qed
  show ?thesis
  proof (cases "buffer f")
    case None
    with assms(1) have "fp f = contents f" "0 < blockSize f"
      by (simp_all add: contents_def bf_inv_def)
    from reread [OF this] None show ?thesis by (simp add: ensureBuffer_def)
  next
    case (Some b)
    show ?thesis
    proof (cases "offset < bufferOffset f \<or> offset + int (length data) > bufferOffset f + int (length b)")
      case True
      from writeBuffer_contents [OF assms(1)] obtain h where
        h: "writeBuffer f = (h, None)" "fp h = contents f" "blockSize h = blockSize f" by blast
      with assms(1) have "0 < blockSize h" by (simp add: bf_inv_def)
      from reread [OF h(2) this] True Some h(1) show ?thesis
        by (simp add: ensureBuffer_def Let_def)
    next
      case False
      with assms Some show ?thesis
        by (auto simp: ensureBuffer_def Let_def bf_inv_def)
    qed
  qed
qed

lemma BufWriteAt_inside:
  assumes "bf_inv f" "inside (length (contents f)) (offset, data)"
  shows "\<exists>g. BufWriteAt f data offset = (g, length data, None) \<and> bf_inv g \<and>
     contents g = write_at (contents f) (nat offset) data"
proof -
  from ensureBuffer_covers [OF assms] obtain h b where
    h: "ensureBuffer f data offset = (h, None)" "bf_inv h" "contents h = contents f"
      "buffer h = Some b" "bufferOffset h \<le> offset"
      "nat offset + length data \<le> nat (bufferOffset h) + length b" by blast
  define p where "p = nat (offset - bufferOffset h)"
  have off: "0 \<le> offset" "0 \<le> bufferOffset h" "nat (bufferOffset h) + length b \<le> length (fp h)"
    using assms(2) h by (auto simp: inside_def bf_inv_def)
  have p: "nat offset = nat (bufferOffset h) + p" "p + length data \<le> length b" "int p = offset - bufferOffset h"
    using off h by (auto simp: p_def)
  let ?g = "h\<lparr>buffer := Some (copy_at p b data)\<rparr>"
  have "BufWriteAt f data offset = (?g, length data, None)"
    using h p off by (auto simp: BufWriteAt_def Let_def p_def)
  moreover have "bf_inv ?g"
    using h(2,4) p by (auto simp: bf_inv_def length_copy_at)
  moreover have "contents ?g = write_at (contents f) (nat offset) data"
    using write_at_nested [OF p(2) off(3)] h p by (simp add: contents_def)
  ultimately show ?thesis by blast
qed

lemma BufClose_contents: "bf_inv f \<Longrightarrow> BufClose f = contents f"
  using writeBuffer_contents [of f] by (auto simp: BufClose_def)

interpretation buffered: write_at_closer BufWriteAt BufClose contents bf_inv
  by unfold_locales (simp_all add: BufWriteAt_inside BufClose_contents)

lemma New_inv [simp]: "bf_inv (New f)" "contents (New f) = f"
  by (simp_all add: New_def bf_inv_def contents_def defaultBlockSize_def)

section \<open>Properties\<close>

text \<open>
  C12: the block-buffered file refines the plain file. Writing any batch whose writes lie inside the file
  through \<^verbatim>\<open>buffile.New\<close>, \<^verbatim>\<open>WriteAt\<close> and \<^verbatim>\<open>Close\<close> reports no error and leaves on disk exactly the
  bytes that the same \<^verbatim>\<open>WriteAt\<close> calls on the plain file leave, whatever the order, overlap and
  distance of the writes.
\<close>

theorem buffered_refines_plain:
  assumes "list_all (inside (length f)) ws"
  shows "snd (write_loop BufWriteAt (New f) ws) = None \<and>
    BufClose (fst (write_loop BufWriteAt (New f) ws)) = fst (write_loop WriteAt f ws)"
  using assms buffered.loop_writes_all [of "New f" ws] buffered.loop_close [of "New f" ws]
    plain.loop_writes_all [of f ws] by auto

theorem buffered_refines_plain_witness:
  "list_all (inside 4) [(2, [7, 8]), (0, [9])] \<and>
   BufClose (fst (write_loop BufWriteAt (New [1, 2, 3, 4]) [(2, [7, 8]), (0, [9])])) = [9, 2, 7, 8]"
proof -
  have h: "list_all (inside (length [1, 2, 3, 4 :: byte])) [(2, [7, 8]), (0, [9])]"
    by (simp add: inside_def)
  show ?thesis
    using buffered_refines_plain [OF h] h by (simp add: inside_def WriteAt_def write_at_def)
qed

end
