(* ===== verification/GoStrings.thy ===== *)
theory GoStrings
  imports Prelude
begin

text \<open>
  The string and path functions of the Go standard library that the store uses: \<^verbatim>\<open>strings.Split\<close>,
  \<^verbatim>\<open>Contains\<close>, \<^verbatim>\<open>ToLower\<close>, \<^verbatim>\<open>EqualFold\<close>, \<^verbatim>\<open>strconv.Itoa\<close>, \<^verbatim>\<open>Atoi\<close> and \<^verbatim>\<open>ParseInt\<close>, and
  \<^verbatim>\<open>filepath.Clean\<close>, \<^verbatim>\<open>Join\<close>, \<^verbatim>\<open>Base\<close>, \<^verbatim>\<open>Dir\<close>, \<^verbatim>\<open>Ext\<close> and \<^verbatim>\<open>Rel\<close> on slash-separated paths. Strings are byte
  strings, and letters are ASCII, as they are in the keys and paths of the store.
\<close>

section \<open>Splitting and joining\<close>

definition has_prefix :: "string \<Rightarrow> string \<Rightarrow> bool" where
  "has_prefix s p \<longleftrightarrow> take (length p) s = p"

fun Contains :: "string \<Rightarrow> string \<Rightarrow> bool" where
  "Contains [] sub = (sub = [])"
| "Contains (c # cs) sub = (has_prefix (c # cs) sub \<or> Contains cs sub)"

text \<open>\<open>split_from sep acc s\<close>: \<open>acc\<close> is the piece under construction, reversed; \<open>sep\<close> is not empty.\<close>

function split_from :: "string \<Rightarrow> string \<Rightarrow> string \<Rightarrow> string list" where
  "split_from sep acc [] = [rev acc]"
| "split_from sep acc (c # cs) =
     (if has_prefix (c # cs) sep then rev acc # split_from sep [] (drop (length sep - 1) cs)
      else split_from sep (c # acc) cs)"
  by pat_completeness auto
termination
  by (relation "measure (\<lambda>(sep, acc, s). length s)") auto

definition Split :: "string \<Rightarrow> string \<Rightarrow> string list" where
  "Split s sep = split_from sep [] s"

fun join_with :: "string \<Rightarrow> string list \<Rightarrow> string" where
  "join_with sep [] = []"
| "join_with sep [x] = x"
| "join_with sep (x # y # ys) = x @ sep @ join_with sep (y # ys)"

section \<open>Letters and digits\<close>

definition lower_char :: "char \<Rightarrow> char" where
  "lower_char c = (let n = of_char c :: nat in if 65 \<le> n \<and> n \<le> 90 then char_of (n + 32) else c)"

definition upper_char :: "char \<Rightarrow> char" where
  "upper_char c = (let n = of_char c :: nat in if 97 \<le> n \<and> n \<le> 122 then char_of (n - 32) else c)"

definition ToLower :: "string \<Rightarrow> string" where "ToLower s = map lower_char s"

definition EqualFold :: "string \<Rightarrow> string \<Rightarrow> bool" where
  "EqualFold s t \<longleftrightarrow> ToLower s = ToLower t"

definition digit :: "nat \<Rightarrow> char" where "digit d = char_of (48 + d)"

fun nat_str :: "nat \<Rightarrow> string" where
  "nat_str n = (if n < 10 then [digit n] else nat_str (n div 10) @ [digit (n mod 10)])"

declare nat_str.simps [simp del]

definition Itoa :: "int \<Rightarrow> string" where
  "Itoa i = (if i < 0 then CHR ''-'' # nat_str (nat (- i)) else nat_str (nat i))"

definition digit_val :: "char \<Rightarrow> nat option" where
  "digit_val c = (let n = of_char c in if 48 \<le> n \<and> n \<le> 57 then Some (n - 48) else None)"

fun digits_val :: "nat \<Rightarrow> string \<Rightarrow> nat option" where
  "digits_val acc [] = Some acc"
| "digits_val acc (c # cs) = (case digit_val c of None \<Rightarrow> None | Some d \<Rightarrow> digits_val (10 * acc + d) cs)"

text \<open>
  \<^verbatim>\<open>strconv.ParseInt(s, 10, bits)\<close>: an optional sign and at least one digit, nothing else; a value
  outside the signed range of \<open>bits\<close> is an error.
\<close>

definition ParseInt :: "string \<Rightarrow> nat \<Rightarrow> int option" where
  "ParseInt s bits =
     (let (neg, ds) = (case s of [] \<Rightarrow> (False, []) | c # cs \<Rightarrow>
             if c = CHR ''-'' then (True, cs) else if c = CHR ''+'' then (False, cs) else (False, s))
      in if ds = [] then None
         else case digits_val 0 ds of None \<Rightarrow> None
         | Some n \<Rightarrow> if neg then (if n \<le> 2 ^ (bits - 1) then Some (- int n) else None)
                    else if n < 2 ^ (bits - 1) then Some (int n) else None)"

section \<open>Paths\<close>

definition rooted :: "path \<Rightarrow> bool" where
  "rooted p \<longleftrightarrow> has_prefix p ''/''"

text \<open>The elements of a path after the lexical processing of \<^verbatim>\<open>Clean\<close>; \<open>acc\<close> is the result so far, reversed.\<close>

fun clean_elems :: "bool \<Rightarrow> string list \<Rightarrow> string list \<Rightarrow> string list" where
  "clean_elems rt acc [] = rev acc"
| "clean_elems rt acc (e # es) =
     (if e = [] \<or> e = ''.'' then clean_elems rt acc es
      else if e = ''..'' then
        (case acc of
           [] \<Rightarrow> clean_elems rt (if rt then [] else [''..'']) es
         | a # as \<Rightarrow> if a = ''..'' then clean_elems rt (''..'' # acc) es else clean_elems rt as es)
      else clean_elems rt (e # acc) es)"

definition path_elems :: "path \<Rightarrow> string list" where
  "path_elems p = clean_elems (rooted p) [] (Split p ''/'')"

definition Clean :: "path \<Rightarrow> path" where
  "Clean p = (let s = (if rooted p then ''/'' else '''') @ join_with ''/'' (path_elems p)
     in if s = '''' then ''.'' else s)"

definition Join :: "path \<Rightarrow> path \<Rightarrow> path" where
  "Join a b = (if a = '''' then (if b = '''' then '''' else Clean b)
     else if b = '''' then Clean a else Clean (a @ ''/'' @ b))"

definition Base :: "path \<Rightarrow> string" where
  "Base p = (if p = '''' then ''.''
     else case rev (filter (\<lambda>e. e \<noteq> '''') (Split p ''/'')) of [] \<Rightarrow> ''/'' | e # _ \<Rightarrow> e)"

text \<open>\<^verbatim>\<open>path.Dir\<close>: all but the part after the last slash, cleaned.\<close>

definition Dir :: "path \<Rightarrow> path" where
  "Dir p = Clean (join_with ''/'' (butlast (Split p ''/'')) @ (if length (Split p ''/'') > 1 then ''/'' else ''''))"

definition Ext :: "path \<Rightarrow> string" where
  "Ext p = (let ps = Split (last (Split p ''/'')) ''.'' in if length ps > 1 then ''.'' @ last ps else '''')"

text \<open>\<^verbatim>\<open>filepath.Rel(base, target)\<close> when both are absolute or both relative; \<open>None\<close> is the error.\<close>

fun common_prefix :: "'a list \<Rightarrow> 'a list \<Rightarrow> nat" where
  "common_prefix (x # xs) (y # ys) = (if x = y then Suc (common_prefix xs ys) else 0)"
| "common_prefix _ _ = 0"

definition Rel :: "path \<Rightarrow> path \<Rightarrow> path option" where
  "Rel base targ =
     (let b = path_elems base; t = path_elems targ; n = common_prefix b t
      in if rooted base \<noteq> rooted targ then None
         else if ''..'' \<in> set (drop n b) then None
         else let es = map (\<lambda>_. ''..'') (drop n b) @ drop n t
              in Some (if es = [] then ''.'' else join_with ''/'' es))"

section \<open>Lemmas: splitting and joining\<close>

lemma has_prefix_single [simp]:
  "has_prefix (c # cs) [d] \<longleftrightarrow> c = d" "\<not> has_prefix [] [d]"
  by (auto simp: has_prefix_def)

lemma split_from_char: "d \<notin> set x \<Longrightarrow> split_from [d] acc x = [rev acc @ x]"
  by (induction x arbitrary: acc) auto

lemma split_from_cons: "d \<notin> set x \<Longrightarrow> split_from [d] acc (x @ d # ys) = (rev acc @ x) # split_from [d] [] ys"
  by (induction x arbitrary: acc) auto

lemma Split_single [simp]: "d \<notin> set x \<Longrightarrow> Split x [d] = [x]"
  by (simp add: Split_def split_from_char)

lemma Split_cons [simp]: "d \<notin> set x \<Longrightarrow> Split (x @ d # ys) [d] = x # Split ys [d]"
  by (simp add: Split_def split_from_cons)

text \<open>Splitting undoes joining, for pieces without the separator.\<close>

lemma Split_join: "xs \<noteq> [] \<Longrightarrow> list_all (\<lambda>x. d \<notin> set x) xs \<Longrightarrow> Split (join_with [d] xs) [d] = xs"
  by (induction "[d]" xs rule: join_with.induct) auto

lemma Split_nonempty [simp]: "Split s sep \<noteq> []"
proof -
  have "split_from sep acc s \<noteq> []" for acc
    by (induction sep acc s rule: split_from.induct) auto
  then show ?thesis by (simp add: Split_def)
qed

text \<open>Joining undoes splitting.\<close>

lemma join_cons: "xs \<noteq> [] \<Longrightarrow> join_with sep (x # xs) = x @ sep @ join_with sep xs"
  by (cases xs) auto

lemma join_split_from: "join_with [d] (split_from [d] acc s) = rev acc @ s"
proof (induction s arbitrary: acc)
  case (Cons c cs)
  have "split_from [d] a x \<noteq> []" for a x
    by (induction "[d]" a x rule: split_from.induct) auto
  with Cons show ?case by (simp add: join_cons)
qed simp

lemma join_Split [simp]: "join_with [d] (Split s [d]) = s"
  by (simp add: Split_def join_split_from)

lemma split_from_pieces: "d \<notin> set acc \<Longrightarrow> x \<in> set (split_from [d] acc s) \<Longrightarrow> d \<notin> set x"
proof (induction s arbitrary: acc)
  case (Cons c cs)
  show ?case
  proof (cases "c = d")
    case True
    with Cons.prems Cons.IH [of "[]"] show ?thesis by auto
  next
    case False
    with Cons.prems Cons.IH [of "c # acc"] show ?thesis by auto
  qed
qed auto

lemma Split_pieces: "x \<in> set (Split s [d]) \<Longrightarrow> d \<notin> set x"
  using split_from_pieces [of d "[]"] by (simp add: Split_def)

text \<open>Looking for a name behind characters that its first one is not among.\<close>

lemma has_prefix_hd: "sub \<noteq> [] \<Longrightarrow> c \<noteq> hd sub \<Longrightarrow> \<not> has_prefix (c # cs) sub"
  by (cases sub) (auto simp: has_prefix_def)

lemma Contains_skip: "sub \<noteq> [] \<Longrightarrow> hd sub \<notin> set ds \<Longrightarrow> Contains (ds @ s) sub = Contains s sub"
proof (induction ds)
  case (Cons d ds)
  then have "\<not> has_prefix (d # ds @ s) sub" by (intro has_prefix_hd) auto
  with Cons show ?case by simp
qed simp

lemma hd_split_from: "sep \<noteq> [] \<Longrightarrow> hd sep \<notin> set ds \<Longrightarrow> hd (split_from sep acc (ds @ sep @ r)) = rev acc @ ds"
proof (induction ds arbitrary: acc)
  case Nil
  then obtain c cs where "sep = c # cs" by (cases sep) auto
  then show ?case by (simp add: has_prefix_def)
next
  case (Cons d ds)
  then have "\<not> has_prefix (d # ds @ sep @ r) sep" by (intro has_prefix_hd) auto
  with Cons show ?case by simp
qed

lemma hd_Split: "sep \<noteq> [] \<Longrightarrow> hd sep \<notin> set ds \<Longrightarrow> hd (Split (ds @ sep @ r) sep) = ds"
  by (simp add: Split_def hd_split_from)

lemma hd_Split_end: "sep \<noteq> [] \<Longrightarrow> hd sep \<notin> set ds \<Longrightarrow> hd (Split (ds @ sep) sep) = ds"
  using hd_Split [of sep ds "[]"] by simp

section \<open>Lemmas: numbers\<close>

lemma digit_val_digit: "d < 10 \<Longrightarrow> digit_val (digit d) = Some d"
  by (simp add: digit_val_def digit_def Let_def)

lemma digits_val_append:
  "digits_val acc (xs @ ys) = (case digits_val acc xs of None \<Rightarrow> None | Some a \<Rightarrow> digits_val a ys)"
  by (induction acc xs rule: digits_val.induct) (auto split: option.splits)

lemma digits_val_nat_str: "digits_val 0 (nat_str n) = Some n"
proof (induction n rule: nat_str.induct)
  case (1 n)
  then show ?case
    by (subst nat_str.simps) (auto simp: digits_val_append digit_val_digit)
qed

lemma nat_str_digits: "c \<in> set (nat_str n) \<Longrightarrow> digit_val c \<noteq> None"
proof (induction n rule: nat_str.induct)
  case (1 n)
  then show ?case
    by (subst (asm) (2) nat_str.simps) (auto simp: digit_val_digit split: if_splits)
qed

lemma nat_str_nonempty [simp]: "nat_str n \<noteq> []"
  by (subst nat_str.simps) simp

lemma not_digit: "digit_val c = None \<Longrightarrow> c \<notin> set (nat_str n)"
  using nat_str_digits by blast

lemma ParseInt_Itoa:
  assumes "0 \<le> n" "n < 2 ^ (bits - 1)"
  shows "ParseInt (Itoa n) bits = Some n"
proof -
  obtain c cs where c: "nat_str (nat n) = c # cs" by (cases "nat_str (nat n)") auto
  have "c \<noteq> CHR ''-''" "c \<noteq> CHR ''+''"
    using nat_str_digits [of c "nat n"] c by (auto simp: digit_val_def Let_def)
  moreover have "digits_val 0 (c # cs) = Some (nat n)" using digits_val_nat_str [of "nat n"] c by simp
  moreover have "nat n < 2 ^ (bits - 1)" using assms by (simp add: nat_less_iff)
  ultimately show ?thesis using assms(1) by (simp add: ParseInt_def Itoa_def c del: digits_val.simps)
qed

section \<open>Lemmas: clean paths\<close>

text \<open>Path elements that \<^verbatim>\<open>Clean\<close> leaves alone.\<close>

definition plain_elem :: "string \<Rightarrow> bool" where
  "plain_elem e \<longleftrightarrow> e \<noteq> '''' \<and> e \<noteq> ''.'' \<and> e \<noteq> ''..'' \<and> CHR ''/'' \<notin> set e"

definition abs_path :: "string list \<Rightarrow> path" where
  "abs_path es = ''/'' @ join_with ''/'' es"

lemma clean_elems_plain: "list_all plain_elem es \<Longrightarrow> clean_elems a acc es = rev acc @ es"
  by (induction es arbitrary: acc) (auto simp: plain_elem_def)

lemma Split_plain: "es \<noteq> [] \<Longrightarrow> list_all plain_elem es \<Longrightarrow> Split (join_with ''/'' es) ''/'' = es"
  by (rule Split_join) (auto simp: plain_elem_def list_all_iff)

lemma path_elems_abs:
  assumes "list_all plain_elem es"
  shows "path_elems (abs_path es) = es"
proof -
  have "Split (abs_path es) ''/'' = [] # Split (join_with ''/'' es) ''/''"
    using Split_cons [of "CHR ''/''" "[]"] by (simp add: abs_path_def)
  moreover have "clean_elems True [] (Split (join_with ''/'' es) ''/'') = es"
    using assms by (cases "es = []") (simp_all add: Split_plain clean_elems_plain)
  moreover have "rooted (abs_path es)" by (simp add: rooted_def abs_path_def)
  ultimately show ?thesis by (simp add: path_elems_def)
qed

lemma rooted_abs [simp]: "rooted (abs_path es)"
  by (simp add: rooted_def abs_path_def)

lemma Clean_abs: "list_all plain_elem es \<Longrightarrow> Clean (abs_path es) = abs_path es"
  by (simp add: Clean_def path_elems_abs Let_def) (simp add: abs_path_def)

lemma join_append: "xs \<noteq> [] \<Longrightarrow> ys \<noteq> [] \<Longrightarrow> join_with sep (xs @ ys) = join_with sep xs @ sep @ join_with sep ys"
proof (induction xs)
  case (Cons x xs)
  then show ?case by (cases "xs = []") (auto simp: join_cons)
qed simp

lemma Join_abs:
  assumes "list_all plain_elem rs" "rs \<noteq> []" "list_all plain_elem es" "es \<noteq> []"
  shows "Join (abs_path rs) (join_with ''/'' es) = abs_path (rs @ es)"
proof -
  have "join_with ''/'' es \<noteq> ''''"
    using assms by (cases es; cases "tl es") (auto simp: plain_elem_def)
  then have "Join (abs_path rs) (join_with ''/'' es) = Clean (abs_path (rs @ es))"
    using assms by (simp add: Join_def abs_path_def join_append)
  with assms show ?thesis by (simp add: Clean_abs)
qed

lemma abs_path_inj: "list_all plain_elem es \<Longrightarrow> list_all plain_elem fs \<Longrightarrow> abs_path es = abs_path fs \<Longrightarrow> es = fs"
  by (metis path_elems_abs)

end
