(* ===== verification/Primary.thy ===== *)
theory Primary
  imports BufFile GoStrings
begin

text \<open>
  Writing committed data into the primary year files: \<^verbatim>\<open>WriteBufferToFile\<close> and
  \<^verbatim>\<open>WriteBufferToFileIndirect\<close> of \<^verbatim>\<open>executor/writer.go\<close>, the record sort of \<^verbatim>\<open>executor/timsort.go\<close>, and
  \<^verbatim>\<open>writePrimary\<close>, \<^verbatim>\<open>offsetIndexBuffer\<close> and \<^verbatim>\<open>CachedFP\<close> of \<^verbatim>\<open>executor/wal.go\<close>.

  A file of fixed-length records holds its records in their slots. A file of variable-length data holds in
  each slot the triple index, offset, length of a region behind the slots, which holds all records of
  that interval, sorted by their tick and compressed unless the configuration says otherwise.
\<close>

section \<open>Open files\<close>

record file_ptr =
  fdata :: bytes
  fpos :: nat

text \<open>A seek to a negative position fails and leaves the position; the second component is the error.\<close>

definition Seek :: "int \<Rightarrow> file_ptr \<Rightarrow> file_ptr \<times> go_err option" where
  "Seek p f = (if p < 0 then (f, Some (Err ''negative position'')) else (f\<lparr>fpos := nat p\<rparr>, None))"

definition SeekEnd :: "file_ptr \<Rightarrow> file_ptr" where
  "SeekEnd f = f\<lparr>fpos := length (fdata f)\<rparr>"

text \<open>
  \<open>Read n f\<close> fills a zeroed buffer of \<open>n\<close> bytes: the buffer, the number of bytes read and the error, which is
  \<^verbatim>\<open>io.EOF\<close> when nothing was read into a buffer that is not empty.
\<close>

definition Read :: "nat \<Rightarrow> file_ptr \<Rightarrow> bytes \<times> nat \<times> go_err option \<times> file_ptr" where
  "Read n f = (let d = read_at (fdata f) (fpos f) n
     in (d @ replicate (n - length d) 0, length d, if d = [] \<and> 0 < n then Some EOFError else None,
         f\<lparr>fpos := fpos f + length d\<rparr>))"

definition Write :: "bytes \<Rightarrow> file_ptr \<Rightarrow> file_ptr" where
  "Write d f = f\<lparr>fdata := write_at (fdata f) (fpos f) d, fpos := fpos f + length d\<rparr>"

section \<open>\<^verbatim>\<open>offsetIndexBuffer\<close>\<close>

text \<open>Offset, index and payload of a write, as they stand in the log. The buffers have at least sixteen bytes.\<close>

definition Offset :: "bytes \<Rightarrow> int" where "Offset b = ToInt64 (take 8 b)"
definition Index :: "bytes \<Rightarrow> int" where "Index b = ToInt64 (take 8 (drop 8 b))"
definition IndexAndPayload :: "bytes \<Rightarrow> bytes" where "IndexAndPayload b = drop 8 b"
definition Payload :: "bytes \<Rightarrow> bytes" where "Payload b = drop 16 b"

section \<open>Fixed-length records\<close>

definition WriteBufferToFile ::
    "('s \<Rightarrow> bytes \<Rightarrow> int \<Rightarrow> 's \<times> nat \<times> go_err option) \<Rightarrow> 's \<Rightarrow> bytes \<Rightarrow> 's \<times> go_err option" where
  "WriteBufferToFile wr s b =
     (let offset = Offset b; data = IndexAndPayload b
      in case wr s data offset of (s', _, err) \<Rightarrow> (s', err))"

section \<open>Variable-length data\<close>

text \<open>
  \<^verbatim>\<open>tsortbuf\<close>: the records of \<open>recLen\<close> bytes, sorted by the unsigned number in their last four bytes;
  equal keys keep their order. Bytes after the last whole record stay where they are.
\<close>

definition ticks_of :: "nat \<Rightarrow> bytes \<Rightarrow> int" where
  "ticks_of recLen r = le_uint (drop (recLen - 4) r)"

definition TimSortBufferUINT32 :: "bytes \<Rightarrow> nat \<Rightarrow> bytes" where
  "TimSortBufferUINT32 buf recLen =
     (let k = length buf div recLen
      in concat (sort_key (ticks_of recLen) (chunks recLen k buf)) @ drop (recLen * k) buf)"

text \<open>
  The compression of variable-length data, \<open>None\<close> when \<^verbatim>\<open>DisableVariableCompression\<close> is set. The code
  calls the third-party package \<^verbatim>\<open>snappy\<close>.
\<close>

record codec =
  Encode :: "bytes \<Rightarrow> bytes"
  Decode :: "bytes \<Rightarrow> bytes result"

definition codec_ok :: "codec option \<Rightarrow> bool" where
  "codec_ok cd \<longleftrightarrow> (case cd of None \<Rightarrow> True | Some c \<Rightarrow> \<forall>d. Decode c (Encode c d) = Inr d)"

definition encode :: "codec option \<Rightarrow> bytes \<Rightarrow> bytes" where
  "encode cd d = (case cd of None \<Rightarrow> d | Some c \<Rightarrow> Encode c d)"

definition decode :: "codec option \<Rightarrow> bytes \<Rightarrow> bytes result" where
  "decode cd d = (case cd of None \<Rightarrow> Inr d | Some c \<Rightarrow> Decode c d)"

record IndirectRecordInfo =
  riIndex :: int
  riOffset :: int
  riLen :: int

definition rec_info :: "bytes \<Rightarrow> IndirectRecordInfo" where
  "rec_info b = \<lparr>riIndex = ToInt64 b, riOffset = ToInt64 (drop 8 b), riLen = ToInt64 (drop 16 b)\<rparr>"

definition info_bytes :: "int \<Rightarrow> int \<Rightarrow> int \<Rightarrow> bytes" where
  "info_bytes i off len = le_bytes 8 i @ le_bytes 8 off @ le_bytes 8 len"

text \<open>The data already written for the bucket, put before the new data.\<close>

definition prepend_old :: "codec option \<Rightarrow> file_ptr \<Rightarrow> IndirectRecordInfo \<Rightarrow> bytes \<Rightarrow> (bytes \<times> file_ptr) result" where
  "prepend_old cd fl cur data =
     (if riIndex cur \<noteq> 0 then
        (case Seek (riOffset cur) fl of
           (_, Some e) \<Rightarrow> Inl e
         | (fl, None) \<Rightarrow>
             if riLen cur < 0 then Inl (Panic ''makeslice: len out of range'')
             else (case Read (nat (riLen cur)) fl of
                (oldData, _, Some e, _) \<Rightarrow> Inl e
              | (oldData, _, None, fl) \<Rightarrow>
                  (case decode cd oldData of Inl e \<Rightarrow> Inl e
                   | Inr oldData \<Rightarrow> Inr (oldData @ data, fl))))
      else Inr (data, fl))"

text \<open>
  The result holds the file, the buffer and the error. The records are sorted where they stand, so for
  the first data of a bucket, which is the payload itself, the caller's buffer is sorted with them. The C
  routine behind the sort has no defined behaviour for a record length under four (and divides by it).
\<close>

definition WriteBufferToFileIndirect ::
    "codec option \<Rightarrow> file_ptr \<Rightarrow> bytes \<Rightarrow> int \<Rightarrow> file_ptr \<times> bytes \<times> go_err option" where
  "WriteBufferToFileIndirect cd fl b varRecLen =
     (let primaryOffset = Offset b;
          index = Index b;
          (fl, _) = Seek primaryOffset fl
      in case Read 24 fl of
        (_, _, Some e, fl) \<Rightarrow> (fl, b, Some e)
      | (idBuf, _, None, fl) \<Rightarrow>
          let currentRecInfo = rec_info idBuf
          in case prepend_old cd fl currentRecInfo (Payload b) of
               Inl e \<Rightarrow> (fl, b, Some e)
             | Inr (dataToBeWritten, fl) \<Rightarrow>
                 let endOfCurrentBucketData = riOffset currentRecInfo + riLen currentRecInfo;
                     endOfFileOffset = int (length (fdata fl));
                     fl = SeekEnd fl;
                     (endOfFileOffset, fl) =
                       (if endOfCurrentBucketData = endOfFileOffset
                        then (riOffset currentRecInfo, fst (Seek (riOffset currentRecInfo) fl))
                        else (endOfFileOffset, fl))
                 in if dataToBeWritten = [] then (fl, b, Some (Panic ''index out of range''))
                    else if 0 \<le> varRecLen \<and> varRecLen < 4 \<and> varRecLen \<le> int (length dataToBeWritten)
                      then (fl, b, Some (Panic ''tsortbuf''))
                    else
                      let srt = TimSortBufferUINT32 dataToBeWritten (nat varRecLen);
                          b = (if riIndex currentRecInfo = 0 then take 16 b @ srt else b);
                          out = encode cd srt;
                          fl = Write out fl;
                          dataLen = int (length out);
                          (fl, _) = Seek primaryOffset fl
                      in (Write (info_bytes index endOfFileOffset dataLen) fl, b, None))"

section \<open>\<^verbatim>\<open>writePrimary\<close>\<close>

text \<open>The primary files by their full path.\<close>

type_synonym disk = "path \<rightharpoonup> bytes"

abbreviation (input) FIXED :: int where "FIXED \<equiv> 0"
abbreviation (input) VARIABLE :: int where "VARIABLE \<equiv> 1"

definition batchThreshold :: nat where "batchThreshold = 100"

text \<open>The loop over the writes of a file; the buffers it leaves stand in the second component.\<close>

fun for_writes :: "('s \<Rightarrow> bytes \<Rightarrow> 's \<times> bytes \<times> go_err option) \<Rightarrow> 's \<Rightarrow> bytes list
    \<Rightarrow> 's \<times> bytes list \<times> go_err option" where
  "for_writes f s [] = (s, [], None)"
| "for_writes f s (b # bs) =
     (case f s b of
        (s, b, Some e) \<Rightarrow> (s, b # bs, Some e)
      | (s, b, None) \<Rightarrow> (case for_writes f s bs of (s, bs, err) \<Rightarrow> (s, b # bs, err)))"

definition writePrimary :: "codec option \<Rightarrow> path \<Rightarrow> disk \<Rightarrow> path \<Rightarrow> bytes list \<Rightarrow> int \<Rightarrow> int
    \<Rightarrow> disk \<times> bytes list \<times> go_err option" where
  "writePrimary cd root dsk keyPath writes recordType varRecLen =
     (let fullPath = Join root keyPath
      in case dsk fullPath of
        None \<Rightarrow> (dsk, writes, Some (NotExist fullPath))
      | Some c0 \<Rightarrow>
          if recordType = FIXED \<and> batchThreshold \<le> length writes then
            (case for_writes (\<lambda>s b. case WriteBufferToFile BufWriteAt s b of (s, err) \<Rightarrow> (s, b, err)) (New c0) writes of
               (bf, writes, err) \<Rightarrow> (dsk(fullPath \<mapsto> BufClose bf), writes, err))
          else if recordType = FIXED then
            (case for_writes (\<lambda>s b. case WriteBufferToFile WriteAt s b of (s, err) \<Rightarrow> (s, b, err)) c0 writes of
               (c, writes, err) \<Rightarrow> (dsk(fullPath \<mapsto> c), writes, err))
          else if recordType = VARIABLE then
            (case for_writes (\<lambda>fl b. WriteBufferToFileIndirect cd fl b varRecLen)
                    \<lparr>fdata = c0, fpos = 0\<rparr> writes of
               (fl, writes, err) \<Rightarrow> (dsk(fullPath \<mapsto> fdata fl), writes, err))
          else (dsk, writes, None))"

section \<open>\<^verbatim>\<open>CachedFP\<close>\<close>

text \<open>
  The open file by its name (empty at first) and its position; opening another file closes it. A file
  that is not there cannot be opened.
\<close>

record CachedFP =
  cfName :: path
  cfPos :: nat

definition NewCachedFP :: CachedFP where
  "NewCachedFP = \<lparr>cfName = '''', cfPos = 0\<rparr>"

definition GetFP :: "disk \<Rightarrow> CachedFP \<Rightarrow> path \<Rightarrow> CachedFP result" where
  "GetFP dsk cfp fileName =
     (if fileName = cfName cfp then Inr cfp
      else case dsk fileName of
        None \<Rightarrow> Inl (NotExist fileName)
      | Some _ \<Rightarrow> Inr \<lparr>cfName = fileName, cfPos = 0\<rparr>)"

section \<open>Lemmas: fixed-length records\<close>

definition fixed_write :: "bytes \<Rightarrow> int \<times> bytes" where
  "fixed_write b = (Offset b, IndexAndPayload b)"

lemma for_writes_fixed:
  "for_writes (\<lambda>s b. case WriteBufferToFile wr s b of (s, err) \<Rightarrow> (s, b, err)) s bs =
     (case write_loop wr s (map fixed_write bs) of (s, err) \<Rightarrow> (s, bs, err))"
  by (induction bs arbitrary: s)
    (auto simp: WriteBufferToFile_def fixed_write_def Let_def split: prod.splits option.splits)

lemma writePrimary_FIXED:
  assumes "dsk (Join root key) = Some f" "list_all (inside (length f)) (map fixed_write bs)"
  shows "writePrimary cd root dsk key bs FIXED vrl = (dsk(Join root key \<mapsto> write_all f (map fixed_write bs)), bs, None)"
proof -
  obtain s where s: "write_loop WriteAt f (map fixed_write bs) = (s, None)"
      "s = write_all f (map fixed_write bs)"
    using plain.loop_writes_all [of f "map fixed_write bs"] assms(2) by auto
  obtain t where t: "write_loop BufWriteAt (New f) (map fixed_write bs) = (t, None)"
    using buffered.loop_writes_all [of "New f" "map fixed_write bs"] assms(2) by auto
  have "BufClose t = write_all f (map fixed_write bs)"
    using buffered.loop_close [of "New f" "map fixed_write bs"] assms(2) t by simp
  with s t assms(1) show ?thesis
    by (simp add: writePrimary_def Let_def for_writes_fixed)
qed

section \<open>Lemmas: variable-length data\<close>

text \<open>The triple in a slot, and the data the slot stands for.\<close>

definition slot :: "bytes \<Rightarrow> nat \<Rightarrow> IndirectRecordInfo" where
  "slot f p = rec_info (read_at f p 24)"

definition bucket :: "codec option \<Rightarrow> bytes \<Rightarrow> nat \<Rightarrow> bytes result" where
  "bucket cd f p = (if riIndex (slot f p) = 0 then Inr []
     else decode cd (read_at f (nat (riOffset (slot f p))) (nat (riLen (slot f p)))))"

definition region :: "bytes \<Rightarrow> nat \<Rightarrow> nat set" where
  "region f p = {nat (riOffset (slot f p))..<nat (riOffset (slot f p)) + nat (riLen (slot f p))}"

text \<open>
  A well-formed file of variable-length data with slots at the offsets \<open>S\<close> and data behind \<open>D\<close>: the slots do
  not overlap, an empty slot is zero, and a filled one points to a region of its own behind the slots
  that can be decoded.
\<close>

definition slot_ok :: "codec option \<Rightarrow> bytes \<Rightarrow> nat \<Rightarrow> nat \<Rightarrow> bool" where
  "slot_ok cd f D p \<longleftrightarrow> p + 24 \<le> D \<and>
     (if riIndex (slot f p) = 0 then riOffset (slot f p) = 0 \<and> riLen (slot f p) = 0
      else int D \<le> riOffset (slot f p) \<and> 0 \<le> riLen (slot f p) \<and>
        riOffset (slot f p) + riLen (slot f p) \<le> int (length f) \<and>
        (\<exists>d. bucket cd f p = Inr d))"

definition var_ok :: "codec option \<Rightarrow> bytes \<Rightarrow> nat \<Rightarrow> nat set \<Rightarrow> bool" where
  "var_ok cd f D S \<longleftrightarrow> 0 < D \<and> D \<le> length f \<and> (\<forall>p \<in> S. slot_ok cd f D p) \<and>
     (\<forall>p \<in> S. \<forall>q \<in> S. p \<noteq> q \<longrightarrow> {p..<p + 24} \<inter> {q..<q + 24} = {} \<and> region f p \<inter> region f q = {})"

lemma length_info_bytes [simp]: "length (info_bytes i off len) = 24"
  by (simp add: info_bytes_def)

lemma rec_info_bytes:
  "rec_info (info_bytes i off len) = \<lparr>riIndex = to_int64 i, riOffset = to_int64 off, riLen = to_int64 len\<rparr>"
  by (simp add: rec_info_def info_bytes_def)

lemma decode_encode: "codec_ok cd \<Longrightarrow> decode cd (encode cd d) = Inr d"
  by (auto simp: codec_ok_def decode_def encode_def split: option.splits)

lemma length_TimSort [simp]: "length (TimSortBufferUINT32 buf n) = length buf"
proof -
  have "length (concat (chunks n k buf)) = n * k" if "n * k \<le> length buf" for k
    using that concat_chunks [of "take (n * k) buf" n k] chunks_take [of n k "n * k" buf]
    by (simp add: min_def)
  moreover have "n * (length buf div n) \<le> length buf" by simp
  moreover have "length (concat (sort_key h xs)) = length (concat xs)" for h :: "bytes \<Rightarrow> int" and xs
    by (simp add: length_concat flip: sum_mset_sum_list)
  ultimately show ?thesis by (simp add: TimSortBufferUINT32_def Let_def)
qed

lemma chunks_length: "length xs = n * k \<Longrightarrow> r \<in> set (chunks n k xs) \<Longrightarrow> length r = n"
proof (induction k arbitrary: xs)
  case (Suc k)
  then show ?case using Suc.IH [of "drop n xs"] by (auto simp: algebra_simps)
qed simp

lemma TimSort_chunks:
  assumes "0 < n" "length buf = n * k"
  shows "chunks n k (TimSortBufferUINT32 buf n) = sort_key (ticks_of n) (chunks n k buf)"
proof -
  have "length buf div n = k" using assms by simp
  then show ?thesis
    using assms chunks_concat [of "sort_key (ticks_of n) (chunks n k buf)" n "[]"] chunks_length [of buf n k]
    by (simp add: TimSortBufferUINT32_def)
qed

text \<open>Where the data goes: over the bucket's own region if that ends the file, else behind the end.\<close>

definition data_start :: "bytes \<Rightarrow> nat \<Rightarrow> nat" where
  "data_start f p = (if riOffset (slot f p) + riLen (slot f p) = int (length f)
     then nat (riOffset (slot f p)) else length f)"

lemma data_start_le: "slot_ok cd f D p \<Longrightarrow> D \<le> length f \<Longrightarrow> 0 < D \<Longrightarrow> D \<le> data_start f p \<and> data_start f p \<le> length f"
  by (auto simp: data_start_def slot_ok_def split: if_splits)

lemma prepend_old_ok:
  assumes "slot_ok cd f D p" "fdata fl = f" "bucket cd f p = Inr old"
  shows "\<exists>k. prepend_old cd fl (slot f p) d = Inr (old @ d, \<lparr>fdata = f, fpos = k\<rparr>)"
proof (cases "riIndex (slot f p) = 0")
  case True
  with assms show ?thesis by (cases fl) (simp add: prepend_old_def bucket_def)
next
  case False
  let ?o = "nat (riOffset (slot f p))" and ?n = "nat (riLen (slot f p))"
  from assms False have fits: "0 \<le> riOffset (slot f p)" "0 \<le> riLen (slot f p)" "?o + ?n \<le> length f"
    by (auto simp: slot_ok_def)
  then have "Read ?n (fl\<lparr>fpos := ?o\<rparr>) = (read_at f ?o ?n, ?n, None, fl\<lparr>fpos := ?o + ?n\<rparr>)"
    using assms(2) by (auto simp: Read_def Let_def read_at_def)
  with fits False assms show ?thesis
    by (cases fl) (auto simp: prepend_old_def Seek_def bucket_def)
qed

lemma indirect_write_eq:
  fixes cd f p b vrl old
  defines "out \<equiv> encode cd (TimSortBufferUINT32 (old @ Payload b) (nat vrl))"
  assumes ok: "slot_ok cd f D p" "D \<le> length f" "0 < D"
    and b: "Offset b = int p" "Payload b \<noteq> []" and old: "bucket cd f p = Inr old" and vrl: "4 \<le> vrl"
  shows "\<exists>b'. WriteBufferToFileIndirect cd \<lparr>fdata = f, fpos = k\<rparr> b vrl =
    (\<lparr>fdata = write_at (write_at f (data_start f p) out) p
        (info_bytes (Index b) (int (data_start f p)) (int (length out))), fpos = p + 24\<rparr>, b', None)"
proof -
  have p24: "p + 24 \<le> length f" using ok by (simp add: slot_ok_def)
  then have rd: "Read 24 \<lparr>fdata = f, fpos = p\<rparr> = (read_at f p 24, 24, None, \<lparr>fdata = f, fpos = p + 24\<rparr>)"
    by (auto simp: Read_def Let_def read_at_def)
  obtain k' where pre: "prepend_old cd \<lparr>fdata = f, fpos = p + 24\<rparr> (slot f p) (Payload b)
      = Inr (old @ Payload b, \<lparr>fdata = f, fpos = k'\<rparr>)"
    using prepend_old_ok [OF ok(1) _ old, of "\<lparr>fdata = f, fpos = p + 24\<rparr>"] by auto
  have pos: "0 \<le> riOffset (slot f p)" if "riOffset (slot f p) + riLen (slot f p) = int (length f)"
    using ok that by (auto simp: slot_ok_def split: if_splits)
  show ?thesis
    using b pos vrl
    by (auto simp: WriteBufferToFileIndirect_def Let_def Seek_def rd pre slot_def [symmetric]
        SeekEnd_def Write_def data_start_def out_def [symmetric])
qed

lemma region_bounds: "slot_ok cd f D q \<Longrightarrow> x \<in> region f q \<Longrightarrow> D \<le> x \<and> x < length f"
  by (auto simp: slot_ok_def region_def split: if_splits)

lemma region_missed:
  assumes "var_ok cd f D S" "p \<in> S" "q \<in> S" "q \<noteq> p"
  shows "{data_start f p..<data_start f p + n} \<inter> region f q = {}"
proof -
  have q: "slot_ok cd f D q" and p: "slot_ok cd f D p" and disj: "region f p \<inter> region f q = {}"
    using assms by (auto simp: var_ok_def)
  have "x \<notin> region f q" if x: "data_start f p \<le> x" for x
  proof (cases "riOffset (slot f p) + riLen (slot f p) = int (length f)")
    case True
    with p x have "x < length f \<Longrightarrow> x \<in> region f p"
      by (auto simp: data_start_def region_def slot_ok_def split: if_splits)
    then show ?thesis using region_bounds [OF q] disj by blast
  next
    case False
    then show ?thesis using x region_bounds [OF q] by (fastforce simp: data_start_def)
  qed
  then show ?thesis by auto
qed

text \<open>One write to the bucket at \<open>p\<close>: what every slot and every region reads afterwards.\<close>

lemma indirect_frame:
  fixes f p out i
  defines "g \<equiv> write_at (write_at f (data_start f p) out) p (info_bytes i (int (data_start f p)) (int (length out)))"
  assumes ok: "var_ok cd f D S" "p \<in> S"
  shows "length g = max (length f) (data_start f p + length out)"
    and "slot g p = \<lparr>riIndex = to_int64 i, riOffset = to_int64 (int (data_start f p)), riLen = to_int64 (int (length out))\<rparr>"
    and "read_at g (data_start f p) (length out) = out"
    and "q \<in> S \<Longrightarrow> q \<noteq> p \<Longrightarrow> slot g q = slot f q"
    and "q \<in> S \<Longrightarrow> q \<noteq> p \<Longrightarrow> riIndex (slot f q) \<noteq> 0 \<Longrightarrow>
      read_at g (nat (riOffset (slot f q))) (nat (riLen (slot f q))) =
      read_at f (nat (riOffset (slot f q))) (nat (riLen (slot f q)))"
proof -
  let ?st = "data_start f p" and ?f1 = "write_at f (data_start f p) out"
  have p: "slot_ok cd f D p" "p + 24 \<le> D" "D \<le> length f" "0 < D"
    using ok by (auto simp: var_ok_def slot_ok_def)
  then have st: "D \<le> ?st" "?st \<le> length f" using data_start_le by blast+
  have l1: "length ?f1 = max (length f) (?st + length out)" using st by (simp add: length_write_at_le)
  then have p1: "p + 24 \<le> length ?f1" using p by simp
  show lg: "length g = max (length f) (?st + length out)"
    using p1 l1 by (simp add: g_def length_write_at_inside)
  show "slot g p = \<lparr>riIndex = to_int64 i, riOffset = to_int64 (int ?st), riLen = to_int64 (int (length out))\<rparr>"
    using read_write_hit [of p ?f1 "info_bytes i (int ?st) (int (length out))"] p1
    by (simp add: slot_def g_def rec_info_bytes)
  have miss: "read_at g r n = read_at ?f1 r n" if "r + n \<le> length ?f1" "p + 24 \<le> r \<or> r + n \<le> p" for r n
    unfolding g_def using that p1 by (intro read_write_miss) auto
  show "read_at g ?st (length out) = out"
    using miss [of ?st "length out"] read_write_hit [of ?st f out] st p l1 by simp
  {
    assume q: "q \<in> S" "q \<noteq> p"
    then have q': "q + 24 \<le> D" "{p..<p + 24} \<inter> {q..<q + 24} = {}" using ok by (auto simp: var_ok_def slot_ok_def)
    have "p + 24 \<le> q \<or> q + 24 \<le> p"
    proof (rule ccontr)
      assume "\<not> ?thesis"
      then have "max p q \<in> {p..<p + 24} \<inter> {q..<q + 24}" by auto
      with q'(2) show False by simp
    qed
    then have "read_at g q 24 = read_at ?f1 q 24" using q' p l1 by (intro miss) auto
    also have "\<dots> = read_at f q 24" using st q' p by (intro read_write_miss) auto
    finally show "slot g q = slot f q" by (simp add: slot_def)
  }
  {
    assume q: "q \<in> S" "q \<noteq> p" "riIndex (slot f q) \<noteq> 0"
    let ?o = "nat (riOffset (slot f q))" and ?n = "nat (riLen (slot f q))"
    have "slot_ok cd f D q" using ok q by (simp add: var_ok_def)
    with q(3) have q': "D \<le> ?o" "?o + ?n \<le> length f" unfolding slot_ok_def by auto
    have "read_at g ?o ?n = read_at ?f1 ?o ?n" using q' p l1 by (intro miss) auto
    also have "\<dots> = read_at f ?o ?n"
      using region_missed [OF ok(1,2) q(1,2), of "length out"] st q'
      by (intro read_write_miss) (auto simp: region_def)
    finally show "read_at g ?o ?n = read_at f ?o ?n" .
  }
qed

lemma indirect_bucket_other:
  fixes f p out i
  defines "g \<equiv> write_at (write_at f (data_start f p) out) p (info_bytes i (int (data_start f p)) (int (length out)))"
  assumes "var_ok cd f D S" "p \<in> S" "q \<in> S" "q \<noteq> p"
  shows "bucket cd g q = bucket cd f q"
  using indirect_frame(4,5) [where out = out and i = i and q = q, OF assms(2,3)] assms(4,5)
  by (auto simp: bucket_def g_def [symmetric])

lemma indirect_keeps_ok:
  fixes f p out i
  defines "g \<equiv> write_at (write_at f (data_start f p) out) p (info_bytes i (int (data_start f p)) (int (length out)))"
  assumes ok: "var_ok cd f D S" "p \<in> S"
    and i: "to_int64 i \<noteq> 0" and sz: "int (length f + length out) < 2 ^ 63" and dec: "decode cd out = Inr d"
  shows "var_ok cd g D S \<and> bucket cd g p = Inr d"
proof -
  note fr = indirect_frame [where out = out and i = i, OF ok, folded g_def]
  have D: "0 < D" "D \<le> length f" "slot_ok cd f D p" "p + 24 \<le> D" using ok by (auto simp: var_ok_def slot_ok_def)
  then have st: "D \<le> data_start f p" "data_start f p \<le> length f" using data_start_le by blast+
  have sp: "riIndex (slot g p) \<noteq> 0" "riOffset (slot g p) = int (data_start f p)" "riLen (slot g p) = int (length out)"
    using fr(2) i sz st by (simp_all add: go_int)
  have bp: "bucket cd g p = Inr d" using sp fr(3) dec by (simp add: bucket_def)
  have so: "slot_ok cd g D q" if "q \<in> S" for q
  proof (cases "q = p")
    case True
    then show ?thesis using sp bp fr(1) st D by (auto simp: slot_ok_def)
  next
    case False
    have "slot_ok cd f D q" using ok that by (simp add: var_ok_def)
    moreover have "length f \<le> length g" using fr(1) by simp
    moreover have "bucket cd g q = bucket cd f q"
      unfolding g_def using indirect_bucket_other [OF ok that False] .
    ultimately show ?thesis using fr(4) [OF that False] by (auto simp: slot_ok_def)
  qed
  have reg: "region g q = region f q" if "q \<in> S" "q \<noteq> p" for q
    using fr(4) [OF that] by (simp add: region_def)
  have regp: "region g p = {data_start f p..<data_start f p + length out}"
    using sp by (simp add: region_def)
  have "region g q \<inter> region g r = {}" if "q \<in> S" "r \<in> S" "q \<noteq> r" for q r
  proof (cases "q = p \<or> r = p")
    case True
    then show ?thesis
      using that region_missed [where n = "length out", OF ok that(1)] region_missed [where n = "length out", OF ok that(2)] reg regp
      by blast
  next
    case False
    then show ?thesis using that reg ok by (auto simp: var_ok_def)
  qed
  moreover have "D \<le> length g" using fr(1) D by simp
  ultimately show ?thesis using so bp D(1) ok by (auto simp: var_ok_def)
qed

text \<open>The whole effect of an indirect write on a well-formed file.\<close>

lemma indirect_refines:
  assumes "codec_ok cd" "var_ok cd f D S" "p \<in> S"
    and "Offset b = int p" "Index b \<noteq> 0" "Payload b \<noteq> []" "bucket cd f p = Inr old" "4 \<le> vrl"
    and "int (length f + length (encode cd (TimSortBufferUINT32 (old @ Payload b) (nat vrl)))) < 2 ^ 63"
  shows "\<exists>g b'. WriteBufferToFileIndirect cd \<lparr>fdata = f, fpos = k\<rparr> b vrl = (g, b', None) \<and>
    var_ok cd (fdata g) D S \<and>
    (\<forall>q \<in> S. bucket cd (fdata g) q =
       (if q = p then Inr (TimSortBufferUINT32 (old @ Payload b) (nat vrl)) else bucket cd f q))"
proof -
  let ?srt = "TimSortBufferUINT32 (old @ Payload b) (nat vrl)"
  let ?out = "encode cd ?srt"
  let ?g = "write_at (write_at f (data_start f p) ?out) p
     (info_bytes (Index b) (int (data_start f p)) (int (length ?out)))"
  have D: "slot_ok cd f D p" "D \<le> length f" "0 < D" using assms by (auto simp: var_ok_def)
  have "to_int64 (Index b) \<noteq> 0"
    using assms(5) ToInt64_range [of "take 8 (drop 8 b)"] by (simp add: Index_def go_int)
  from indirect_keeps_ok [OF assms(2,3) this assms(9) decode_encode [OF assms(1)]]
    indirect_bucket_other [OF assms(2,3), of _ ?out "Index b"]
    indirect_write_eq [OF D assms(4,6,7,8), of k]
  show ?thesis by auto
qed

section \<open>Properties\<close>

text \<open>
  C11: an indirect write appends to its bucket and touches nothing else. On a well-formed file of
  variable-length data, and with a codec that decodes what it encodes, a write of a payload to the slot at \<open>p\<close>
  succeeds, keeps the file well formed, makes the bucket of \<open>p\<close> the tick-sorted records it held
  together with the payload, and leaves the data of every other slot as it was, whether the data went
  behind the end of the file or over the bucket's own region at the end of it.
\<close>

theorem indirect_write_refines:
  assumes "codec_ok cd" "var_ok cd f D S" "p \<in> S"
    and "Offset b = int p" "Index b \<noteq> 0" "Payload b \<noteq> []" "bucket cd f p = Inr old" "4 \<le> vrl"
    and "int (length f + length (encode cd (TimSortBufferUINT32 (old @ Payload b) (nat vrl)))) < 2 ^ 63"
  shows "\<exists>g b'. WriteBufferToFileIndirect cd \<lparr>fdata = f, fpos = k\<rparr> b vrl = (g, b', None) \<and>
    var_ok cd (fdata g) D S \<and>
    (\<forall>q \<in> S. bucket cd (fdata g) q =
       (if q = p then Inr (TimSortBufferUINT32 (old @ Payload b) (nat vrl)) else bucket cd f q))"
  using indirect_refines [OF assms] .

theorem indirect_write_refines_witness:
  "\<exists>g b'. WriteBufferToFileIndirect None \<lparr>fdata = replicate 24 0, fpos = 0\<rparr>
      (le_bytes 8 0 @ le_bytes 8 1 @ [7, 0, 0, 0, 3, 0, 0, 0]) 4 = (g, b', None) \<and>
    var_ok None (fdata g) 24 {0} \<and> bucket None (fdata g) 0 = Inr [3, 0, 0, 0, 7, 0, 0, 0]"
proof -
  let ?f = "replicate 24 (0::byte)" and ?b = "le_bytes 8 0 @ le_bytes 8 1 @ [7, 0, 0, 0, 3, 0, 0, 0] :: bytes"
  have "slot ?f 0 = \<lparr>riIndex = 0, riOffset = 0, riLen = 0\<rparr>" by code_simp
  then have ok: "var_ok None ?f 24 {0}" "bucket None ?f 0 = Inr []"
    by (simp_all add: var_ok_def slot_ok_def bucket_def)
  have b: "Offset ?b = int 0" "Index ?b \<noteq> 0" "Payload ?b = [7, 0, 0, 0, 3, 0, 0, 0]"
    by code_simp+
  have srt: "TimSortBufferUINT32 ([] @ Payload ?b) (nat 4) = [3, 0, 0, 0, 7, 0, 0, 0]"
    by code_simp
  have sz: "int (length ?f + length (encode None (TimSortBufferUINT32 ([] @ Payload ?b) (nat 4)))) < 2 ^ 63"
    unfolding srt by (simp add: encode_def)
  have "codec_ok None" by (simp add: codec_ok_def)
  from indirect_write_refines [OF this ok(1) _ b(1,2) _ ok(2) _ sz, of 0] b(3) srt
  show ?thesis by auto
qed



end
