(* ===== verification/Md5.thy ===== *)
theory Md5
  imports Bytes
begin

text \<open>
  MD5 as the standard library's \<^verbatim>\<open>crypto/md5\<close> computes it; the write-ahead log appends it to every
  transaction group. The log's proofs only use that the sum has sixteen bytes.
\<close>

unbundle bit_operations_syntax

definition md5_shift :: "nat \<Rightarrow> nat" where
  "md5_shift i = [[7, 12, 17, 22], [5, 9, 14, 20], [4, 11, 16, 23], [6, 10, 15, 21]] ! (i div 16) ! (i mod 4)"

definition md5_K :: "int list" where
  "md5_K =
    [0xd76aa478, 0xe8c7b756, 0x242070db, 0xc1bdceee, 0xf57c0faf, 0x4787c62a, 0xa8304613, 0xfd469501,
     0x698098d8, 0x8b44f7af, 0xffff5bb1, 0x895cd7be, 0x6b901122, 0xfd987193, 0xa679438e, 0x49b40821,
     0xf61e2562, 0xc040b340, 0x265e5a51, 0xe9b6c7aa, 0xd62f105d, 0x02441453, 0xd8a1e681, 0xe7d3fbc8,
     0x21e1cde6, 0xc33707d6, 0xf4d50d87, 0x455a14ed, 0xa9e3e905, 0xfcefa3f8, 0x676f02d9, 0x8d2a4c8a,
     0xfffa3942, 0x8771f681, 0x6d9d6122, 0xfde5380c, 0xa4beea44, 0x4bdecfa9, 0xf6bb4b60, 0xbebfbc70,
     0x289b7ec6, 0xeaa127fa, 0xd4ef3085, 0x04881d05, 0xd9d4d039, 0xe6db99e5, 0x1fa27cf8, 0xc4ac5665,
     0xf4292244, 0x432aff97, 0xab9423a7, 0xfc93a039, 0x655b59c3, 0x8f0ccc92, 0xffeff47d, 0x85845dd1,
     0x6fa87e4f, 0xfe2ce6e0, 0xa3014314, 0x4e0811a1, 0xf7537e82, 0xbd3af235, 0x2ad7d2bb, 0xeb86d391]"

type_synonym md5_state = "32 word \<times> 32 word \<times> 32 word \<times> 32 word"

definition md5_step :: "32 word list \<Rightarrow> nat \<Rightarrow> md5_state \<Rightarrow> md5_state" where
  "md5_step m i st = (case st of (a, b, c, d) \<Rightarrow>
     let (f, g) =
        (if i < 16 then ((b AND c) OR (NOT b AND d), i)
         else if i < 32 then ((d AND b) OR (NOT d AND c), (5 * i + 1) mod 16)
         else if i < 48 then (b XOR c XOR d, (3 * i + 5) mod 16)
         else (c XOR (b OR NOT d), 7 * i mod 16));
       f = f + a + word_of_int (md5_K ! i) + m ! g
     in (d, b + word_rotl (md5_shift i) f, b, c))"

definition md5_block :: "bytes \<Rightarrow> md5_state \<Rightarrow> md5_state" where
  "md5_block blk st =
     (let m = map (\<lambda>w. word_of_int (le_uint w)) (chunks 4 16 blk)
      in case (st, fold (md5_step m) [0..<64] st) of
           ((a, b, c, d), (a', b', c', d')) \<Rightarrow> (a + a', b + b', c + c', d + d'))"

definition md5_pad :: "bytes \<Rightarrow> bytes" where
  "md5_pad m = m @ 0x80 # replicate ((119 - length m mod 64) mod 64) 0 @ le_bytes 8 (8 * int (length m))"

definition md5 :: "bytes \<Rightarrow> bytes" where
  "md5 m = (let p = md5_pad m
     in case fold md5_block (chunks 64 (length p div 64) p)
          (0x67452301, 0xefcdab89, 0x98badcfe, 0x10325476) of
        (a, b, c, d) \<Rightarrow> le_bytes 4 (uint a) @ le_bytes 4 (uint b) @ le_bytes 4 (uint c) @ le_bytes 4 (uint d))"

lemma length_md5 [simp]: "length (md5 m) = 16"
  by (simp add: md5_def Let_def split: prod.splits)

end
