(* ===== verification/WalFile.thy ===== *)
theory WalFile
  imports Primary Md5
begin

text \<open>
  The write-ahead log file: its messages (\<^verbatim>\<open>executor/messages.go\<close>), the structure \<^verbatim>\<open>WALFileType\<close> with its
  status header and its message readers and writers (\<^verbatim>\<open>executor/wal.go\<close>).

  A log is a sequence of messages, each a message id and a body of its own length: a status message at the
  start, which is overwritten in place, transaction-info messages, and transaction groups with their
  length and an MD5 checksum. The field \<open>FilePtr\<close> holds the contents and the position of the open file;
  \<open>fdOpen\<close> is false for a descriptor that is closed or was never opened, on which every call fails.
\<close>

section \<open>\<^verbatim>\<open>executor/messages.go\<close>\<close>

text \<open>The enumerations are eight-bit integers, and a byte read from a file can be any of them.\<close>

definition TGDATA :: int where [simp]: "TGDATA = 0"
definition TXNINFO :: int where [simp]: "TXNINFO = 1"
definition STATUS :: int where [simp]: "STATUS = 2"

definition WAL :: int where [simp]: "WAL = 0"
definition CHECKPOINT :: int where [simp]: "CHECKPOINT = 1"

definition PREPARING :: int where [simp]: "PREPARING = 0"
definition COMMITINTENDED :: int where [simp]: "COMMITINTENDED = 1"
definition COMMITCOMPLETE :: int where [simp]: "COMMITCOMPLETE = 2"

definition OPEN :: int where [simp]: "OPEN = 1"
definition CLOSED :: int where [simp]: "CLOSED = 2"

definition NOTREPLAYED :: int where [simp]: "NOTREPLAYED = 1"
definition REPLAYED :: int where [simp]: "REPLAYED = 2"
definition REPLAYINPROCESS :: int where [simp]: "REPLAYINPROCESS = 3"

section \<open>\<^verbatim>\<open>WALFileType\<close>\<close>

record WALFileType =
  FileStatus :: int
  ReplayState :: int
  OwningInstanceID :: int
  RootPath :: path
  FilePath :: path
  lastCommittedTGID :: int
  FilePtr :: file_ptr
  fdOpen :: bool

text \<open>
  What the log code reads of the running process: \<^verbatim>\<open>ThisInstance.InstanceID\<close>, \<^verbatim>\<open>ThisInstance.WALBypass\<close> and
  the configured compression.
\<close>

record InstanceMetadata =
  InstanceID :: int
  WALBypass :: bool
  compression :: "codec option"

text \<open>The calls on \<^verbatim>\<open>wf.FilePtr\<close>; on a closed descriptor they fail, and the callers drop the error.\<close>

definition fd_write :: "bytes \<Rightarrow> WALFileType \<Rightarrow> WALFileType" where
  "fd_write d w = (if fdOpen w then w\<lparr>FilePtr := Write d (FilePtr w)\<rparr> else w)"

definition fd_seek :: "nat \<Rightarrow> WALFileType \<Rightarrow> WALFileType" where
  "fd_seek p w = (if fdOpen w then w\<lparr>FilePtr := (FilePtr w)\<lparr>fpos := p\<rparr>\<rparr> else w)"

definition fd_seek_end :: "WALFileType \<Rightarrow> WALFileType" where
  "fd_seek_end w = (if fdOpen w then w\<lparr>FilePtr := SeekEnd (FilePtr w)\<rparr> else w)"

definition fd_read :: "nat \<Rightarrow> WALFileType \<Rightarrow> bytes \<times> nat \<times> go_err option \<times> WALFileType" where
  "fd_read n w = (if fdOpen w
     then case Read n (FilePtr w) of (b, m, err, fl) \<Rightarrow> (b, m, err, w\<lparr>FilePtr := fl\<rparr>)
     else (replicate n 0, 0, Some (Err ''file already closed''), w))"

definition fd_truncate :: "WALFileType \<Rightarrow> WALFileType" where
  "fd_truncate w = (if fdOpen w then w\<lparr>FilePtr := (FilePtr w)\<lparr>fdata := []\<rparr>\<rparr> else w)"

text \<open>
  \<^verbatim>\<open>wf.read\<close>, which is always called with target \<^verbatim>\<open>-1\<close>, the current position: the buffer and the error. The
  first seek is fatal on a closed descriptor.
\<close>

definition read_wal :: "nat \<Rightarrow> WALFileType \<Rightarrow> bytes \<times> go_err option \<times> WALFileType" where
  "read_wal numToRead w =
     (if \<not> fdOpen w then (replicate numToRead 0, Some (Fatal ''Unable to seek in WALFile''), w)
      else case fd_read numToRead w of
        (buf, n, err, w) \<Rightarrow>
          if n \<noteq> numToRead then (buf, Some ShortReadError, w)
          else if err \<noteq> None then (buf, Some (Fatal ''Unable to read WALFile''), w)
          else (buf, None, w))"

definition FullPathToWALKey :: "WALFileType \<Rightarrow> path \<Rightarrow> path" where
  "FullPathToWALKey w fullPath = (case Rel (RootPath w) fullPath of Some p \<Rightarrow> p | None \<Rightarrow> [])"

definition WALKeyToFullPath :: "WALFileType \<Rightarrow> path \<Rightarrow> path" where
  "WALKeyToFullPath w keyPath = Join (RootPath w) keyPath"

section \<open>Writing messages\<close>

definition initMessage :: "int \<Rightarrow> bytes" where
  "initMessage mid = fst (Serialize [] (Int8 mid))"

definition write_wal :: "bytes \<Rightarrow> WALFileType \<Rightarrow> WALFileType" where
  "write_wal d w = fd_write d w"

definition writeMessageID :: "int \<Rightarrow> WALFileType \<Rightarrow> WALFileType" where
  "writeMessageID mid w = write_wal (initMessage mid) w"

definition WriteTransactionInfo :: "int \<Rightarrow> int \<Rightarrow> int \<Rightarrow> WALFileType \<Rightarrow> WALFileType" where
  "WriteTransactionInfo tid did txnStatus w =
     (let buf = initMessage TXNINFO;
          buf = fst (Serialize buf (Int64 tid));
          buf = fst (Serialize buf (Int8 did));
          buf = fst (Serialize buf (Int8 txnStatus))
      in write_wal buf w)"

definition WriteStatus :: "InstanceMetadata \<Rightarrow> int \<Rightarrow> int \<Rightarrow> WALFileType \<Rightarrow> WALFileType" where
  "WriteStatus inst fileStatus replayState w =
     (let w = w\<lparr>FileStatus := fileStatus, ReplayState := replayState, OwningInstanceID := InstanceID inst\<rparr>;
          buf = initMessage STATUS;
          buf = fst (Serialize buf (Int8 (FileStatus w)));
          buf = fst (Serialize buf (Int8 (ReplayState w)));
          buf = fst (Serialize buf (Int64 (OwningInstanceID w)))
      in fd_seek_end (fd_write buf (fd_seek 0 w)))"

section \<open>Reading messages\<close>

text \<open>The readers replace an error of \<^verbatim>\<open>wf.read\<close> by a \<^verbatim>\<open>ShortReadError\<close>; one that ended the process stays.\<close>

fun as_short_read :: "go_err \<Rightarrow> go_err" where
  "as_short_read (Fatal m) = Fatal m"
| "as_short_read _ = ShortReadError"

definition readMessageID :: "WALFileType \<Rightarrow> int result \<times> WALFileType" where
  "readMessageID w =
     (case read_wal 1 w of
        (_, Some e, w) \<Rightarrow> (Inl (as_short_read e), w)
      | (buf, None, w) \<Rightarrow>
          let mid = ToInt8 buf
          in if mid = TGDATA \<or> mid = TXNINFO \<or> mid = STATUS then (Inr mid, w)
             else (Inl (Err ''WALFileType.ReadMessageID Incorrect MID read''), w))"

definition readTransactionInfo :: "WALFileType \<Rightarrow> (int \<times> int \<times> int) result \<times> WALFileType" where
  "readTransactionInfo w =
     (case read_wal 10 w of
        (_, Some e, w) \<Rightarrow> (Inl (as_short_read e), w)
      | (buf, None, w) \<Rightarrow>
          let tgid = ToInt64 buf;
              destination = ToInt8 (drop 8 buf);
              txnStatus = ToInt8 (drop 9 buf)
          in if destination \<noteq> CHECKPOINT \<and> destination \<noteq> WAL
             then (Inl (Err ''WALFileType.readTransactionInfo Invalid destination ID''), w)
             else if txnStatus \<noteq> PREPARING \<and> txnStatus \<noteq> COMMITINTENDED \<and> txnStatus \<noteq> COMMITCOMPLETE
             then (Inl (Err ''WALFileType.readTransactionInfo Invalid Txn Status''), w)
             else (Inr (tgid, destination, txnStatus), w))"

text \<open>\<^verbatim>\<open>ReadStatus\<close> reads the body of a status message; the values are returned beside the error.\<close>

definition ReadStatus :: "WALFileType \<Rightarrow> (int \<times> int \<times> int) \<times> go_err option \<times> WALFileType" where
  "ReadStatus w =
     (case read_wal 10 w of
        (buf, err, w) \<Rightarrow> ((ToInt8 buf, ToInt8 (drop 1 buf), ToInt64 (drop 2 buf)), err, w))"

text \<open>\<^verbatim>\<open>readStatus\<close> reads the header of the file and moves to its end.\<close>

definition readStatus :: "WALFileType \<Rightarrow> (int \<times> int \<times> int) result \<times> WALFileType" where
  "readStatus w =
     (case ReadStatus (fd_seek 1 w) of
        (_, Some _, w) \<Rightarrow> (Inl (Fatal ''Unable to ReadStatus()''), w)
      | (st, None, w) \<Rightarrow> (Inr st, fd_seek_end w))"

definition sanityCheckValue :: "WALFileType \<Rightarrow> int \<Rightarrow> bool" where
  "sanityCheckValue w v \<longleftrightarrow> v < 1000 * int (length (fdata (FilePtr w)))"

text \<open>
  A transaction group behind its message id: the length, the data, the checksum of both. A negative
  length passes the check of its size and panics when the buffer is made. The id of the group is read from the
  first eight bytes of the data (through a slice of seven), so shorter data panics.
\<close>

definition readTGData :: "WALFileType \<Rightarrow> (int \<times> bytes) result \<times> WALFileType" where
  "readTGData w =
     (case read_wal 8 w of
        (_, Some e, w) \<Rightarrow> (Inl (as_short_read e), w)
      | (TGLen_Serialized, None, w) \<Rightarrow>
          let TGLen = ToInt64 TGLen_Serialized
          in if \<not> sanityCheckValue w TGLen then (Inl (Err ''Insane TG Length''), w)
             else if TGLen < 0 then (Inl (Panic ''makeslice: len out of range''), w)
             else (case fd_read (nat TGLen) w of
               (TG_Serialized, n, err, w) \<Rightarrow>
                 if int n \<noteq> TGLen \<or> err \<noteq> None then (Inl ShortReadError, w)
                 else if TGLen < 7 then (Inl (Panic ''slice bounds out of range''), w)
                 else
                   let TGID = ToInt64 TG_Serialized;
                       cksum = md5 (TGLen_Serialized @ TG_Serialized)
                   in case fd_read 16 w of
                        (checkBuf, n, err, w) \<Rightarrow>
                          if n \<noteq> 16 \<or> err \<noteq> None then (Inl ShortReadError, w)
                          else if cksum \<noteq> checkBuf then (Inl (Err ''Checksum''), w)
                          else (Inr (TGID, TG_Serialized), w)))"

section \<open>Status of the file\<close>

definition IsOpen :: "WALFileType \<Rightarrow> bool" where
  "IsOpen w \<longleftrightarrow> fdOpen w \<and> FileStatus w = OPEN"

definition syncStatusRead :: "WALFileType \<Rightarrow> go_err option \<times> WALFileType" where
  "syncStatusRead w =
     (if \<not> fdOpen w then (Some (Fatal ''File stat failed''), w)
      else case readStatus w of
        (Inl e, w) \<Rightarrow> (Some e, w)
      | (Inr (fs, rs, own), w) \<Rightarrow>
          (None, w\<lparr>FileStatus := fs, ReplayState := rs, OwningInstanceID := own\<rparr>))"

definition callerOwnsFile :: "InstanceMetadata \<Rightarrow> WALFileType \<Rightarrow> bool" where
  "callerOwnsFile inst w \<longleftrightarrow> InstanceID inst = OwningInstanceID w"

definition isActive :: "InstanceMetadata \<Rightarrow> WALFileType \<Rightarrow> bool" where
  "isActive inst w \<longleftrightarrow> IsOpen w \<and> callerOwnsFile inst w \<and> ReplayState w = NOTREPLAYED"

definition NeedsReplay :: "WALFileType \<Rightarrow> bool result \<times> WALFileType" where
  "NeedsReplay w =
     (case syncStatusRead w of
        (Some e, w) \<Rightarrow> (Inl e, w)
      | (None, w) \<Rightarrow> (Inr (ReplayState w = NOTREPLAYED \<or> ReplayState w = REPLAYINPROCESS), w))"

definition CanWrite :: "InstanceMetadata \<Rightarrow> WALFileType \<Rightarrow> bool result \<times> WALFileType" where
  "CanWrite inst w =
     (case syncStatusRead w of
        (Some e, w) \<Rightarrow> (Inl e, w)
      | (None, w) \<Rightarrow> (Inr (isActive inst w), w))"

definition CanDeleteSafely :: "InstanceMetadata \<Rightarrow> WALFileType \<Rightarrow> bool result \<times> WALFileType" where
  "CanDeleteSafely inst w =
     (case syncStatusRead w of
        (Some e, w) \<Rightarrow> (Inl e, w)
      | (None, w) \<Rightarrow>
          if isActive inst w then (Inr False, w)
          else (case NeedsReplay w of
             (Inl e, w) \<Rightarrow> (Inl e, w)
           | (Inr need, w) \<Rightarrow> (Inr (\<not> need), w)))"

section \<open>Opening, closing and removing log files\<close>

text \<open>The log files of the root directory, by their full path.\<close>

type_synonym wal_dir = "path \<rightharpoonup> bytes"

definition Open :: "wal_dir \<Rightarrow> WALFileType \<Rightarrow> WALFileType \<times> wal_dir" where
  "Open d w =
     (let c0 = (case d (FilePath w) of Some c \<Rightarrow> c | None \<Rightarrow> [])
      in (w\<lparr>FilePtr := \<lparr>fdata = c0, fpos = 0\<rparr>, fdOpen := True\<rparr>, d(FilePath w \<mapsto> c0)))"

definition createFile :: "path \<Rightarrow> int \<Rightarrow> wal_dir \<Rightarrow> WALFileType \<Rightarrow> WALFileType \<times> wal_dir" where
  "createFile rootDir nowNano d w =
     Open d (w\<lparr>RootPath := rootDir, FilePath := Join rootDir ''WALFile'' @ ''.'' @ Itoa nowNano @ ''.walfile''\<rparr>)"

definition takeOverFile :: "InstanceMetadata \<Rightarrow> path \<Rightarrow> path \<Rightarrow> wal_dir \<Rightarrow> WALFileType
    \<Rightarrow> WALFileType \<times> wal_dir \<times> go_err option" where
  "takeOverFile inst rootDir existingPath d w =
     (case Open d (w\<lparr>RootPath := rootDir, FilePath := existingPath\<rparr>) of
        (w, d) \<Rightarrow> (w, d, if callerOwnsFile inst w
           then Some (Err ''TakeOver: File file is owned by calling process'') else None))"

definition new_wal :: WALFileType where
  "new_wal = \<lparr>FileStatus = 0, ReplayState = 0, OwningInstanceID = 0, RootPath = [], FilePath = [],
     lastCommittedTGID = 0, FilePtr = \<lparr>fdata = [], fpos = 0\<rparr>, fdOpen = False\<rparr>"

text \<open>
  \<^verbatim>\<open>NewWALFile\<close> creates a log file (the time is read from the clock) or, given a path, takes over an existing
  one; the directory shows what the open file holds.
\<close>

definition NewWALFile :: "InstanceMetadata \<Rightarrow> path \<Rightarrow> path \<Rightarrow> int \<Rightarrow> wal_dir \<Rightarrow> (WALFileType \<times> wal_dir) result" where
  "NewWALFile inst rootDir existingFilePath nowNano d =
     (if existingFilePath = [] then
        (case createFile rootDir nowNano d new_wal of
           (w, d) \<Rightarrow> let w = WriteStatus inst OPEN NOTREPLAYED w in Inr (w, d(FilePath w \<mapsto> fdata (FilePtr w))))
      else
        (case takeOverFile inst rootDir existingFilePath d new_wal of
           (w, d, Some _) \<Rightarrow> Inl (Fatal ''Can not take over existing WALFile'')
         | (w, d, None) \<Rightarrow>
             (case readStatus w of
                (Inl e, w) \<Rightarrow> Inl e
              | (Inr (fileStatus, replayState, _), w) \<Rightarrow>
                  let w = WriteStatus inst fileStatus replayState w
                  in Inr (w, d(FilePath w \<mapsto> fdata (FilePtr w))))))"

definition Close :: "InstanceMetadata \<Rightarrow> int \<Rightarrow> WALFileType \<Rightarrow> WALFileType" where
  "Close inst replayStatus w = (WriteStatus inst CLOSED replayStatus w)\<lparr>fdOpen := False\<rparr>"

definition Delete :: "InstanceMetadata \<Rightarrow> WALFileType \<Rightarrow> wal_dir \<Rightarrow> WALFileType \<times> wal_dir \<times> go_err option" where
  "Delete inst w d =
     (if \<not> IsOpen w then (w, d, Some (Err ''WAL File is open''))
      else if isActive inst w then (w, d, Some (Err ''WAL File is active''))
      else case NeedsReplay w of
        (Inl e, w) \<Rightarrow> (w, d, Some e)
      | (Inr True, w) \<Rightarrow> (w, d, Some (Err ''WAL File needs replay''))
      | (Inr False, w) \<Rightarrow>
          if d (FilePath w) = None then (Close inst REPLAYED w, d, Some (Fatal ''Can not remove WALFile''))
          else (Close inst REPLAYED w, d(FilePath w := None), None))"

end
