(* ===== verification/Flush.thy ===== *)
theory Flush
  imports WalFile
begin

text \<open>
  The write cache and its way to disk: the transaction pipe (\<^verbatim>\<open>executor/cache.go\<close>), \<^verbatim>\<open>flushToWAL\<close>,
  \<^verbatim>\<open>createCheckpoint\<close>, \<^verbatim>\<open>SyncWAL\<close> and \<^verbatim>\<open>RequestFlush\<close> (\<^verbatim>\<open>executor/wal.go\<close>), and the records handed to the triggers
  (\<^verbatim>\<open>executor/written.go\<close>).

  The storage has two views of the primary files: what processes read and write through the operating
  system, and what is on the physical medium; \<^verbatim>\<open>io.Syncfs\<close> makes the second equal to the first. The clock is an
  argument of the operations that read it, and the order in which Go visits the keys of a map is the argument
  \<open>order\<close>, which may be any permutation.
\<close>

section \<open>\<^verbatim>\<open>executor/cache.go\<close>\<close>

record WriteCommand =
  RecordType :: int
  WALKeyPath :: path
  VarRecLen :: int
  wcOffset :: int
  wcIndex :: int
  Data :: bytes

definition WriteChannelCommandDepth :: nat where
  "WriteChannelCommandDepth = 1000000"

text \<open>The pipe: the id of the current group, the queued commands, and the queued flush requests by requester.\<close>

record TransactionPipe =
  tgID :: int
  writeChannel :: "WriteCommand list"
  flushChannel :: "nat list"

definition NewTGID :: "int \<Rightarrow> TransactionPipe \<Rightarrow> TransactionPipe" where
  "NewTGID now tgc = tgc\<lparr>tgID := to_int64 (tgID tgc + to_int64 (now - tgID tgc))\<rparr>"

definition TGID :: "TransactionPipe \<Rightarrow> int" where
  "TGID tgc = tgID tgc"

definition NewTransactionPipe :: "int \<Rightarrow> TransactionPipe" where
  "NewTransactionPipe now = NewTGID now \<lparr>tgID = 0, writeChannel = [], flushChannel = []\<rparr>"

section \<open>State\<close>

record storage =
  primary :: disk
  synced :: disk

definition Syncfs :: "storage \<Rightarrow> storage" where
  "Syncfs s = s\<lparr>synced := primary s\<rparr>"

text \<open>
  The log file, the pipe (\<^verbatim>\<open>ThisInstance.TXNPipe\<close>, which may be \<^verbatim>\<open>nil\<close>), the storage, the records collected for the
  triggers (the map \<^verbatim>\<open>m\<close>), and the batches sent to them (the channel \<^verbatim>\<open>c\<close>).
\<close>

record cache_state =
  wal :: WALFileType
  pipe :: "TransactionPipe option"
  store :: storage
  written :: "(path \<times> bytes list) list"
  sent :: "(path \<times> bytes list) list"

section \<open>\<^verbatim>\<open>executor/written.go\<close>\<close>

text \<open>Go's \<^verbatim>\<open>m[k] = append(m[k], v)\<close>, on maps as association lists.\<close>

definition append_value :: "'k \<Rightarrow> 'v \<Rightarrow> ('k \<times> 'v list) list \<Rightarrow> ('k \<times> 'v list) list" where
  "append_value k v m = AList.update k ((case map_of m k of Some vs \<Rightarrow> vs | None \<Rightarrow> []) @ [v]) m"

definition appendRecord :: "path \<Rightarrow> bytes \<Rightarrow> (path \<times> bytes list) list \<Rightarrow> (path \<times> bytes list) list" where
  "appendRecord keyPath record m = append_value keyPath record m"

definition dispatchRecords :: "(path list \<Rightarrow> path list) \<Rightarrow> cache_state \<Rightarrow> cache_state" where
  "dispatchRecords order st = st\<lparr>
     sent := sent st @ map (\<lambda>k. (k, the (map_of (written st) k))) (order (map fst (written st))),
     written := []\<rparr>"

text \<open>
  \<^verbatim>\<open>run\<close>: every batch of the channel goes to the triggers whose matcher accepts its key. The result is the calls
  of \<^verbatim>\<open>fire\<close> in the order they are started.
\<close>

definition run :: "('t \<Rightarrow> path \<Rightarrow> bool) \<Rightarrow> 't list \<Rightarrow> (path \<times> bytes list) list \<Rightarrow> ('t \<times> path \<times> bytes list) list" where
  "run matches triggerMatchers c =
     concat (map (\<lambda>(key, records). map (\<lambda>t. (t, key, records)) (filter (\<lambda>t. matches t key) triggerMatchers)) c)"

section \<open>\<^verbatim>\<open>flushToWAL\<close>\<close>

text \<open>
  The loop over the queued commands. Each is serialized behind the others, and its part from the offset on is kept
  as a write to its file; type and record length of a file are those of its first command.
\<close>

record group_state =
  TG_Serialized :: bytes
  writesPerFile :: "(path \<times> bytes list) list"
  fileRecordTypes :: "(path \<times> int) list"
  varRecLens :: "(path \<times> int) list"

definition set_new :: "'k \<Rightarrow> 'v \<Rightarrow> ('k \<times> 'v) list \<Rightarrow> ('k \<times> 'v) list" where
  "set_new k v m = (if map_of m k = None then AList.update k v m else m)"

definition serialize_command :: "WriteCommand \<Rightarrow> group_state \<Rightarrow> group_state" where
  "serialize_command command g =
     (let TG = TG_Serialized g;
          TG = fst (Serialize TG (Int8 (RecordType command)));
          TG = fst (Serialize TG (Int16 (int (length (WALKeyPath command)))));
          TG = fst (Serialize TG (Str (WALKeyPath command)));
          TG = fst (Serialize TG (Int32 (int (length (Data command)))));
          TG = fst (Serialize TG (Int32 (VarRecLen command)));
          oStart = length TG;
          bufferSize = 8 + 8 + length (Data command);
          TG = fst (Serialize TG (Int64 (wcOffset command)));
          TG = fst (Serialize TG (Int64 (wcIndex command)));
          TG = TG @ Data command;
          keyPath = WALKeyPath command
      in \<lparr>TG_Serialized = TG,
          writesPerFile = append_value keyPath (take bufferSize (drop oStart TG)) (writesPerFile g),
          fileRecordTypes = set_new keyPath (RecordType command) (fileRecordTypes g),
          varRecLens = set_new keyPath (VarRecLen command) (varRecLens g)\<rparr>)"

definition serialize_group :: "int \<Rightarrow> WriteCommand list \<Rightarrow> group_state" where
  "serialize_group tgid commands =
     (let TG = fst (Serialize [] (Int64 tgid));
          TG = fst (Serialize TG (Int64 (int (length commands))))
      in fold serialize_command commands
           \<lparr>TG_Serialized = TG, writesPerFile = [], fileRecordTypes = [], varRecLens = []\<rparr>)"

text \<open>The group in the log: message id, length, data, checksum.\<close>

definition log_group :: "bytes \<Rightarrow> WALFileType \<Rightarrow> WALFileType" where
  "log_group TG w =
     (let TGLen_Serialized = fst (Serialize [] (Int64 (int (length TG))));
          w = fd_write (initMessage TGDATA) w;
          w = fd_write TGLen_Serialized w;
          w = fd_write TG w
      in fd_write (md5 (TGLen_Serialized @ TG)) w)"

text \<open>The loop over the files of the group, in the order of the map's keys.\<close>

fun flush_files :: "InstanceMetadata \<Rightarrow> path \<Rightarrow> group_state \<Rightarrow> path list \<Rightarrow> disk \<Rightarrow> (path \<times> bytes list) list
    \<Rightarrow> disk \<times> (path \<times> bytes list) list \<times> go_err option" where
  "flush_files inst root g [] dsk m = (dsk, m, None)"
| "flush_files inst root g (keyPath # keys) dsk m =
     (let writes = the (map_of (writesPerFile g) keyPath);
          recordType = the (map_of (fileRecordTypes g) keyPath);
          varRecLen = the (map_of (varRecLens g) keyPath)
      in case writePrimary (compression inst) root dsk keyPath writes recordType varRecLen of
           (dsk, _, Some e) \<Rightarrow> (dsk, m, Some e)
         | (dsk, writes, None) \<Rightarrow>
             flush_files inst root g keys dsk (fold (\<lambda>b. appendRecord keyPath (IndexAndPayload b)) writes m))"

text \<open>The log part of a flush, left out when the log is bypassed.\<close>

definition flush_log :: "InstanceMetadata \<Rightarrow> int \<Rightarrow> bytes \<Rightarrow> TransactionPipe \<Rightarrow> WALFileType \<Rightarrow> WALFileType \<times> TransactionPipe" where
  "flush_log inst now TG tgc w =
     (if WALBypass inst then (w, tgc)
      else
        let w = log_group TG w;
            w = WriteTransactionInfo (TGID tgc) WAL COMMITCOMPLETE w;
            w = w\<lparr>lastCommittedTGID := TGID tgc\<rparr>
        in (w, NewTGID now tgc))"

definition flush_commands :: "InstanceMetadata \<Rightarrow> (path list \<Rightarrow> path list) \<Rightarrow> int \<Rightarrow> TransactionPipe \<Rightarrow> cache_state
    \<Rightarrow> cache_state \<times> go_err option" where
  "flush_commands inst order now tgc st =
     (let g = serialize_group (TGID tgc) (writeChannel tgc);
          tgc = tgc\<lparr>writeChannel := []\<rparr>;
          (w, tgc) = flush_log inst now (TG_Serialized g) tgc (wal st)
      in case flush_files inst (RootPath w) g (order (map fst (writesPerFile g))) (primary (store st)) (written st) of
           (dsk, m, err) \<Rightarrow>
             (st\<lparr>wal := w, pipe := Some tgc, store := (store st)\<lparr>primary := dsk\<rparr>, written := m\<rparr>, err))"

definition flush_pipe :: "InstanceMetadata \<Rightarrow> (path list \<Rightarrow> path list) \<Rightarrow> int \<Rightarrow> cache_state \<Rightarrow> cache_state \<times> go_err option" where
  "flush_pipe inst order now st =
     (case pipe st of
        None \<Rightarrow> (st, None)
      | Some tgc \<Rightarrow>
          if writeChannel tgc = [] then (st\<lparr>pipe := Some (NewTGID now tgc)\<rparr>, None)
          else if WALBypass inst then flush_commands inst order now tgc st
          else (case CanWrite inst (wal st) of
             (Inl e, w) \<Rightarrow> (st\<lparr>wal := w\<rparr>, Some e)
           | (Inr False, w) \<Rightarrow> (st\<lparr>wal := w\<rparr>, Some (Panic ''Failed attempt to write to WAL''))
           | (Inr True, w) \<Rightarrow>
               flush_commands inst order now tgc (st\<lparr>wal := WriteTransactionInfo (TGID tgc) WAL PREPARING w\<rparr>)))"

definition flushToWAL :: "InstanceMetadata \<Rightarrow> (path list \<Rightarrow> path list) \<Rightarrow> int \<Rightarrow> cache_state \<Rightarrow> cache_state \<times> go_err option" where
  "flushToWAL inst order now st =
     (case flush_pipe inst order now st of (st, err) \<Rightarrow> (dispatchRecords order st, err))"

section \<open>\<^verbatim>\<open>createCheckpoint\<close>\<close>

definition createCheckpoint :: "InstanceMetadata \<Rightarrow> WALFileType \<Rightarrow> storage \<Rightarrow> WALFileType \<times> storage" where
  "createCheckpoint inst w s =
     (if lastCommittedTGID w = 0 then (w, s)
      else if WALBypass inst then (w\<lparr>lastCommittedTGID := 0\<rparr>, Syncfs s)
      else
        let tgid = lastCommittedTGID w;
            w = WriteTransactionInfo tgid CHECKPOINT PREPARING w;
            s = Syncfs s;
            w = WriteTransactionInfo tgid CHECKPOINT COMMITCOMPLETE w
        in (w\<lparr>lastCommittedTGID := 0\<rparr>, s))"

section \<open>\<^verbatim>\<open>SyncWAL\<close> and \<^verbatim>\<open>RequestFlush\<close>\<close>

text \<open>
  The background writer is a loop over the events of its tickers and of the flush channel; \<open>haveWALWriter\<close>,
  \<open>primaryFlushCounter\<close> and the requesters already answered are its own state. An error of a flush ends the process. A
  queue of four fifths of the channel's capacity triggers a flush. The shutdown flag is looked at before every event.
\<close>

datatype sync_event = TickWAL | FlushRequest | TickCheck | TickPrimary

record sync_state =
  cache :: cache_state
  haveWALWriter :: bool
  primaryFlushCounter :: int
  answered :: "nat list"

definition fatal_flush :: "InstanceMetadata \<Rightarrow> (path list \<Rightarrow> path list) \<Rightarrow> int \<Rightarrow> sync_state \<Rightarrow> sync_state result" where
  "fatal_flush inst order now s =
     (case flushToWAL inst order now (cache s) of
        (st, Some e) \<Rightarrow> Inl (Fatal ''flushToWAL'')
      | (st, None) \<Rightarrow> Inr (s\<lparr>cache := st\<rparr>))"

definition rotate_wal :: "InstanceMetadata \<Rightarrow> WALFileType \<Rightarrow> WALFileType" where
  "rotate_wal inst w = WriteStatus inst OPEN NOTREPLAYED (fd_truncate w)"

definition sync_event_step :: "InstanceMetadata \<Rightarrow> (path list \<Rightarrow> path list) \<Rightarrow> int \<Rightarrow> int \<Rightarrow> sync_event \<Rightarrow> sync_state
    \<Rightarrow> sync_state result" where
  "sync_event_step inst order walRotateInterval now ev s =
     (case ev of
        TickWAL \<Rightarrow> fatal_flush inst order now s
      | FlushRequest \<Rightarrow>
          (case pipe (cache s) of
             Some tgc \<Rightarrow>
               (case flushChannel tgc of
                  [] \<Rightarrow> Inr s
                | f # fs \<Rightarrow>
                    res_bind (fatal_flush inst order now (s\<lparr>cache := (cache s)\<lparr>pipe := Some (tgc\<lparr>flushChannel := fs\<rparr>)\<rparr>\<rparr>))
                      (\<lambda>s. Inr (s\<lparr>answered := answered s @ [f]\<rparr>)))
           | None \<Rightarrow> Inl (Panic ''nil pointer dereference''))
      | TickCheck \<Rightarrow>
          (case pipe (cache s) of
             Some tgc \<Rightarrow>
               if 4 * WriteChannelCommandDepth \<le> 5 * length (writeChannel tgc) then fatal_flush inst order now s else Inr s
           | None \<Rightarrow> Inl (Panic ''nil pointer dereference''))
      | TickPrimary \<Rightarrow>
          (case createCheckpoint inst (wal (cache s)) (store (cache s)) of
             (w, str) \<Rightarrow>
               let n = primaryFlushCounter s + 1;
                   s = s\<lparr>cache := (cache s)\<lparr>wal := w, store := str\<rparr>, primaryFlushCounter := n\<rparr>
               in if walRotateInterval = 0 then Inl (Panic ''integer divide by zero'')
                  else if n smod walRotateInterval = 0
                  then Inr (s\<lparr>cache := (cache s)\<lparr>wal := rotate_wal inst w\<rparr>, primaryFlushCounter := 0\<rparr>)
                  else Inr s))"

definition sync_shutdown :: "InstanceMetadata \<Rightarrow> (path list \<Rightarrow> path list) \<Rightarrow> int \<Rightarrow> sync_state \<Rightarrow> sync_state" where
  "sync_shutdown inst order now s =
     (let st = fst (flushToWAL inst order now (cache s));
          (w, str) = createCheckpoint inst (wal st) (store st)
      in s\<lparr>haveWALWriter := False, cache := st\<lparr>wal := w, store := str\<rparr>\<rparr>)"

text \<open>
  \<^verbatim>\<open>RequestFlush\<close> by the requester \<open>f\<close>: a flush by the caller when there is no writer, nothing when a request is already
  queued, else a request, on which the caller waits until it is answered.
\<close>

definition RequestFlush :: "InstanceMetadata \<Rightarrow> (path list \<Rightarrow> path list) \<Rightarrow> int \<Rightarrow> nat \<Rightarrow> sync_state \<Rightarrow> sync_state" where
  "RequestFlush inst order now f s =
     (if \<not> haveWALWriter s then s\<lparr>cache := fst (flushToWAL inst order now (cache s))\<rparr>
      else case pipe (cache s) of
        None \<Rightarrow> s
      | Some tgc \<Rightarrow>
          if flushChannel tgc \<noteq> [] then s
          else s\<lparr>cache := (cache s)\<lparr>pipe := Some (tgc\<lparr>flushChannel := [f]\<rparr>)\<rparr>\<rparr>)"

end
