(* ===== verification/Replay.thy ===== *)
theory Replay
  imports Flush
begin

text \<open>
  Recovery from a log file: \<^verbatim>\<open>Replay\<close>, \<^verbatim>\<open>replayTGData\<close>, \<^verbatim>\<open>cleanupOldWALFiles\<close> and \<^verbatim>\<open>StartupCacheAndWAL\<close>
  (\<^verbatim>\<open>executor/wal.go\<close>). A first pass reads the messages to the end of the file and keeps the transaction groups
  that no complete checkpoint covers; then their commands are written to the primary files, by ascending group id.
\<close>

section \<open>The first pass\<close>

text \<open>
  The local variables of \<^verbatim>\<open>Replay\<close>: the maps from a group id to the status of the log and of the primary files, to the offset
  of the group's data, and to the data (\<open>None\<close> for \<^verbatim>\<open>nil\<close>).
\<close>

record scan_state =
  scanned :: WALFileType
  txnStateWAL :: "(int \<times> int) list"
  txnStatePrimary :: "(int \<times> int) list"
  offsetTGDataInWAL :: "(int \<times> int) list"
  TGData :: "(int \<times> bytes option) list"

text \<open>\<^verbatim>\<open>fullRead\<close>: a short read ends the loop, any other error the process.\<close>

fun fullRead :: "go_err option \<Rightarrow> bool result" where
  "fullRead None = Inr True"
| "fullRead (Some ShortReadError) = Inr False"
| "fullRead (Some (Panic m)) = Inl (Panic m)"
| "fullRead (Some e) = Inl (Fatal ''Uncorrectable IO error in WAL Replay'')"

definition err_of :: "'a result \<Rightarrow> go_err option" where
  "err_of r = (case r of Inl e \<Rightarrow> Some e | Inr _ \<Rightarrow> None)"

definition scan_tgdata :: "scan_state \<Rightarrow> (scan_state \<times> bool) result" where
  "scan_tgdata s =
     (let offset = int (fpos (FilePtr (scanned s)))
      in case readTGData (scanned s) of
           (r, w) \<Rightarrow>
             let (tgid, tg) = (case r of Inl _ \<Rightarrow> (0, None) | Inr (i, d) \<Rightarrow> (i, Some d));
                 s = s\<lparr>scanned := w, TGData := AList.update tgid tg (TGData s)\<rparr>
             in res_bind (fullRead (err_of r)) (\<lambda>continueRead.
                  if \<not> continueRead then Inr (s, False)
                  else if map_of (offsetTGDataInWAL s) tgid \<noteq> None then Inl (Fatal ''Duplicate TG Data in WAL'')
                  else Inr (s\<lparr>offsetTGDataInWAL := AList.update tgid offset (offsetTGDataInWAL s)\<rparr>, True)))"

definition scan_txninfo :: "scan_state \<Rightarrow> (scan_state \<times> bool) result" where
  "scan_txninfo s =
     (case readTransactionInfo (scanned s) of
        (r, w) \<Rightarrow>
          res_bind (fullRead (err_of r)) (\<lambda>continueRead.
            let s = s\<lparr>scanned := w\<rparr>
            in case r of
                 Inl _ \<Rightarrow> Inr (s, False)
               | Inr (tgid, destination, txnStatus) \<Rightarrow>
                   if destination = WAL
                   then Inr (s\<lparr>txnStateWAL := AList.update tgid txnStatus (txnStateWAL s)\<rparr>, True)
                   else if map_of (TGData s) tgid \<noteq> None \<and> txnStatus = COMMITCOMPLETE
                   then Inr (s\<lparr>TGData := filter (\<lambda>(i, _). \<not> i \<le> tgid) (TGData s)\<rparr>, True)
                   else Inr (s\<lparr>txnStatePrimary := AList.update tgid txnStatus (txnStatePrimary s)\<rparr>, True)))"

definition scan_message :: "scan_state \<Rightarrow> (scan_state \<times> bool) result" where
  "scan_message s =
     (case readMessageID (scanned s) of
        (r, w) \<Rightarrow>
          res_bind (fullRead (err_of r)) (\<lambda>continueRead.
            let s = s\<lparr>scanned := w\<rparr>
            in case r of
                 Inl _ \<Rightarrow> Inr (s, False)
               | Inr mid \<Rightarrow>
                   if mid = TGDATA then scan_tgdata s
                   else if mid = TXNINFO then scan_txninfo s
                   else if mid = STATUS then
                     (case ReadStatus w of
                        (_, err, w) \<Rightarrow>
                          res_bind (fullRead err) (\<lambda>continueRead. Inr (s\<lparr>scanned := w\<rparr>, continueRead)))
                   else Inr (s, True)))"

text \<open>Each round that goes on has read at least the message id, so the loop ends.\<close>

definition bytes_left :: "scan_state \<Rightarrow> nat" where
  "bytes_left s = length (fdata (FilePtr (scanned s))) - fpos (FilePtr (scanned s))"

section \<open>Termination of the loop\<close>

lemma Read_moves:
  "Read n f = (b, m, err, f') \<Longrightarrow> fdata f' = fdata f \<and> fpos f' = fpos f + m \<and>
     m \<le> length (fdata f) - fpos f \<and> length b = n"
  by (auto simp: Read_def Let_def read_at_def)

definition moved :: "nat \<Rightarrow> WALFileType \<Rightarrow> WALFileType \<Rightarrow> bool" where
  "moved n w w' \<longleftrightarrow> fdata (FilePtr w') = fdata (FilePtr w) \<and> fpos (FilePtr w) + n \<le> fpos (FilePtr w') \<and>
     (fpos (FilePtr w) \<le> length (fdata (FilePtr w)) \<longrightarrow> fpos (FilePtr w') \<le> length (fdata (FilePtr w)))"

lemma moved_trans: "moved n w w' \<Longrightarrow> moved k w' w'' \<Longrightarrow> moved (n + k) w w''"
  by (auto simp: moved_def)

lemma moved_refl: "moved 0 w w"
  by (simp add: moved_def)

lemma moved_0: "moved n w w' \<Longrightarrow> moved 0 w w'"
  by (auto simp: moved_def)

lemma fd_read_moved: "fd_read n w = (b, m, err, w') \<Longrightarrow> moved m w w'"
  using Read_moves [of n "FilePtr w"]
  by (auto simp: fd_read_def moved_def split: if_splits prod.splits)

lemma read_wal_moved:
  "read_wal n w = (b, err, w') \<Longrightarrow> moved 0 w w'"
  "read_wal n w = (b, None, w') \<Longrightarrow> moved n w w'"
  by (auto simp: read_wal_def moved_refl split: if_splits prod.splits
      dest!: fd_read_moved intro: moved_0)

lemma readTGData_moved: "readTGData w = (r, w') \<Longrightarrow> moved 0 w w'"
proof -
  have step: "moved 0 w w2" if "moved a w w1" "moved b w1 w2" for a b w w1 w2
    using moved_0 [OF moved_trans [OF that]] .
  show "readTGData w = (r, w') \<Longrightarrow> moved 0 w w'"
    by (auto simp: readTGData_def Let_def split: prod.splits option.splits if_splits
        dest!: read_wal_moved fd_read_moved intro: step moved_0 dest: step)
qed

lemma readTransactionInfo_moved: "readTransactionInfo w = (r, w') \<Longrightarrow> moved 0 w w'"
  by (auto simp: readTransactionInfo_def Let_def split: prod.splits option.splits if_splits dest!: read_wal_moved(1))

lemma readMessageID_moved:
  "readMessageID w = (Inr m, w') \<Longrightarrow> moved 1 w w'"
  by (auto simp: readMessageID_def Let_def split: prod.splits option.splits if_splits dest!: read_wal_moved(2))

lemma readMessageID_bytes: "readMessageID w = (Inr m, w') \<Longrightarrow> fpos (FilePtr w) < length (fdata (FilePtr w))"
  by (auto simp: readMessageID_def read_wal_def fd_read_def Read_def Let_def read_at_def
      split: prod.splits option.splits if_splits)

lemma scan_tgdata_moved: "scan_tgdata s = Inr (s', c) \<Longrightarrow> moved 0 (scanned s) (scanned s')"
  by (auto simp: scan_tgdata_def Let_def res_bind_Inr split: prod.splits if_splits dest!: readTGData_moved)

lemma scan_txninfo_moved: "scan_txninfo s = Inr (s', c) \<Longrightarrow> moved 0 (scanned s) (scanned s')"
  by (auto simp: scan_txninfo_def Let_def res_bind_Inr split: prod.splits sum.splits if_splits
      dest!: readTransactionInfo_moved)

lemma fullRead_ShortRead: "fullRead e = Inr b \<Longrightarrow> b = (e = None)"
  by (cases e rule: fullRead.cases) auto

lemma scan_message_moved:
  assumes "scan_message s = Inr (s', True)"
  shows "moved 1 (scanned s) (scanned s') \<and> fpos (FilePtr (scanned s)) < length (fdata (FilePtr (scanned s)))"
proof -
  obtain r w where r: "readMessageID (scanned s) = (r, w)" by fastforce
  with assms obtain mid where mid: "r = Inr mid"
    by (cases r) (auto simp: scan_message_def err_of_def res_bind_Inr)
  have w: "moved 1 (scanned s) w" using r mid readMessageID_moved by blast
  have "moved 0 w (scanned s')"
    using assms r mid
    by (auto simp: scan_message_def err_of_def res_bind_Inr moved_refl Let_def split: if_splits prod.splits
        dest!: scan_tgdata_moved scan_txninfo_moved)
      (auto simp: ReadStatus_def split: prod.splits dest!: read_wal_moved(1))
  then show ?thesis using moved_trans [OF w] readMessageID_bytes r mid by auto
qed

function replay_scan :: "scan_state \<Rightarrow> scan_state result" where
  "replay_scan s =
     (case scan_message s of
        Inl e \<Rightarrow> Inl e
      | Inr (s', continueRead) \<Rightarrow> if continueRead then replay_scan s' else Inr s')"
  by pat_completeness auto

termination
proof (relation "measure bytes_left")
  fix s r s' c
  assume "scan_message s = Inr r" "(s', c) = r" c
  then show "(s', s) \<in> measure bytes_left"
    using scan_message_moved [of s s'] by (auto simp: bytes_left_def moved_def)
qed simp

declare replay_scan.simps [simp del]

section \<open>Writing a group: \<^verbatim>\<open>replayTGData\<close>\<close>

text \<open>The head of a command in the serialized group: type, key path, data length, record length, and the cursor behind it.\<close>

record command_head =
  chRecordType :: int
  chKeyPath :: path
  chDataLen :: int
  chVarRecLen :: int
  chCursor :: int

definition parse_head :: "bytes \<Rightarrow> int \<Rightarrow> command_head result" where
  "parse_head TG cursor =
     res_bind (go_slice cursor (cursor + 1) TG) (\<lambda>b.
       let recordType = ToInt8 b; cursor = cursor + 1
       in res_bind (go_slice cursor (cursor + 2) TG) (\<lambda>b.
            let FPLen = ToInt16 b; cursor = cursor + 2
            in res_bind (go_slice cursor (cursor + FPLen) TG) (\<lambda>b.
                 let keyPath = bytes_str b; cursor = cursor + FPLen
                 in res_bind (go_slice cursor (cursor + 4) TG) (\<lambda>b.
                      let dataLen = ToInt32 b; cursor = cursor + 4
                      in res_bind (go_slice cursor (cursor + 4) TG) (\<lambda>b.
                           let varRecLen = ToInt32 b; cursor = cursor + 4
                           in Inr \<lparr>chRecordType = recordType, chKeyPath = keyPath, chDataLen = dataLen,
                                   chVarRecLen = varRecLen, chCursor = cursor\<rparr>)))))"

text \<open>
  The write of one command; a data length that leaves less than the index of a fixed record or the head of a
  variable one (which only a negative number in the log does) panics in the methods of \<^verbatim>\<open>offsetIndexBuffer\<close>.
\<close>

definition replay_write :: "codec option \<Rightarrow> bytes \<Rightarrow> command_head \<Rightarrow> CachedFP \<Rightarrow> disk \<Rightarrow> disk \<times> CachedFP result" where
  "replay_write cd TG h cfp dsk =
     (case dsk (cfName cfp) of
        None \<Rightarrow> (dsk, Inl (NotExist (cfName cfp)))
      | Some c0 \<Rightarrow>
          if chRecordType h = FIXED then
            (case go_slice (chCursor h) (chCursor h + 8 + 8 + chDataLen h) TG of
               Inl e \<Rightarrow> (dsk, Inl e)
             | Inr b \<Rightarrow>
                 if length b < 8 then (dsk, Inl (Panic ''slice bounds out of range''))
                 else (case WriteBufferToFile WriteAt c0 b of
                    (c, Some e) \<Rightarrow> (dsk(cfName cfp \<mapsto> c), Inl e)
                  | (c, None) \<Rightarrow> (dsk(cfName cfp \<mapsto> c), Inr cfp)))
          else if chRecordType h = VARIABLE then
            (case go_slice (chCursor h) (chCursor h + 8 + 8 + chDataLen h) TG of
               Inl e \<Rightarrow> (dsk, Inl e)
             | Inr b \<Rightarrow>
                 if length b < 16 then (dsk, Inl (Panic ''slice bounds out of range''))
                 else (case WriteBufferToFileIndirect cd \<lparr>fdata = c0, fpos = cfPos cfp\<rparr> b (chVarRecLen h) of
                    (fl, _, Some e) \<Rightarrow> (dsk(cfName cfp \<mapsto> fdata fl), Inl e)
                  | (fl, _, None) \<Rightarrow> (dsk(cfName cfp \<mapsto> fdata fl), Inr (cfp\<lparr>cfPos := fpos fl\<rparr>))))
          else (dsk, Inl (Err ''Error: Record Type is incorrect from WALFile, invalid/outdated WAL file?'')))"

text \<open>The loop over the commands of a group.\<close>

fun replay_commands :: "nat \<Rightarrow> codec option \<Rightarrow> path \<Rightarrow> bytes \<Rightarrow> int \<Rightarrow> CachedFP \<Rightarrow> disk \<Rightarrow> disk \<times> go_err option" where
  "replay_commands 0 cd root TG cursor cfp dsk = (dsk, None)"
| "replay_commands (Suc n) cd root TG cursor cfp dsk =
     (case parse_head TG cursor of
        Inl e \<Rightarrow> (dsk, Some e)
      | Inr h \<Rightarrow>
          (case GetFP dsk cfp (Join root (chKeyPath h)) of
             Inl e \<Rightarrow> (dsk, Some e)
           | Inr cfp \<Rightarrow>
               (case replay_write cd TG h cfp dsk of
                  (dsk, Inl e) \<Rightarrow> (dsk, Some e)
                | (dsk, Inr cfp) \<Rightarrow>
                    replay_commands n cd root TG (chCursor h + 8 + 8 + chDataLen h) cfp dsk)))"

definition replayTGData :: "InstanceMetadata \<Rightarrow> bytes \<Rightarrow> WALFileType \<Rightarrow> storage \<Rightarrow> WALFileType \<times> storage \<times> go_err option" where
  "replayTGData inst TG w s =
     (case go_slice 0 8 TG of
        Inl e \<Rightarrow> (w, s, Some e)
      | Inr idb \<Rightarrow>
          (case go_slice 8 16 TG of
             Inl e \<Rightarrow> (w, s, Some e)
           | Inr cntb \<Rightarrow>
               let WTCount = ToInt64 cntb
               in if WTCount = 0 then (w, s, None)
                  else (case replay_commands (nat WTCount) (compression inst) (RootPath w) TG 16 NewCachedFP (primary s) of
                     (dsk, Some e) \<Rightarrow> (w, s\<lparr>primary := dsk\<rparr>, Some e)
                   | (dsk, None) \<Rightarrow>
                       (case createCheckpoint inst (w\<lparr>lastCommittedTGID := ToInt64 idb\<rparr>) (s\<lparr>primary := dsk\<rparr>) of
                          (w, s) \<Rightarrow> (w, s, None)))))"

section \<open>\<^verbatim>\<open>Replay\<close>\<close>

text \<open>The second pass over the sorted ids.\<close>

fun replay_groups :: "InstanceMetadata \<Rightarrow> bool \<Rightarrow> (int \<times> bytes option) list \<Rightarrow> int list \<Rightarrow> WALFileType \<Rightarrow> storage
    \<Rightarrow> WALFileType \<times> storage \<times> go_err option" where
  "replay_groups inst writeData tgs [] w s = (w, s, None)"
| "replay_groups inst writeData tgs (tgid # ids) w s =
     (case the (map_of tgs tgid) of
        None \<Rightarrow> replay_groups inst writeData tgs ids w s
      | Some TG \<Rightarrow>
          if writeData then
            (case replayTGData inst TG w s of
               (w, s, Some e) \<Rightarrow> (w, s, Some e)
             | (w, s, None) \<Rightarrow> replay_groups inst writeData tgs ids w s)
          else replay_groups inst writeData tgs ids w s)"

definition init_scan :: "WALFileType \<Rightarrow> scan_state" where
  "init_scan w = \<lparr>scanned = w, txnStateWAL = [], txnStatePrimary = [], offsetTGDataInWAL = [], TGData = []\<rparr>"

definition Replay :: "InstanceMetadata \<Rightarrow> bool \<Rightarrow> WALFileType \<Rightarrow> storage \<Rightarrow> WALFileType \<times> storage \<times> go_err option" where
  "Replay inst writeData w s =
     (case NeedsReplay w of
        (Inl e, w) \<Rightarrow> (w, s, Some e)
      | (Inr False, w) \<Rightarrow> (w, s, Some (Err ''WALFileType.NeedsReplay No Replay Needed''))
      | (Inr True, w) \<Rightarrow>
          let w = (if writeData then WriteStatus inst OPEN REPLAYINPROCESS w else w);
              w = fd_seek 0 w
          in case replay_scan (init_scan w) of
               Inl e \<Rightarrow> (w, s, Some e)
             | Inr sc \<Rightarrow>
                 (case replay_groups inst writeData (TGData sc) (sort (map fst (TGData sc))) (scanned sc) s of
                    (w, s, Some e) \<Rightarrow> (w, s, Some e)
                  | (w, s, None) \<Rightarrow> ((if writeData then WriteStatus inst OPEN REPLAYED w else w), s, None)))"

section \<open>Startup\<close>

text \<open>
  \<^verbatim>\<open>cleanupOldWALFiles\<close> goes through the entries of the root directory (name and whether it is a directory) and
  replays and removes the log files of earlier processes; every failure but the last one ends the process. The
  directory is kept up to date with the open log file, so that it shows what a later start would find.
\<close>

definition cleanup_file :: "InstanceMetadata \<Rightarrow> path \<Rightarrow> path \<Rightarrow> wal_dir \<Rightarrow> storage \<Rightarrow> wal_dir \<times> storage \<times> go_err option" where
  "cleanup_file inst rootDir filename d s =
     (let filePath = Join rootDir filename
      in case d filePath of
           None \<Rightarrow> (d, s, Some (Panic ''nil pointer dereference''))
         | Some c0 \<Rightarrow>
             if length c0 < 11 then (d(filePath := None), s, None)
             else (case NewWALFile inst rootDir filePath 0 d of
                Inl e \<Rightarrow> (d, s, Some e)
              | Inr (w, d) \<Rightarrow>
                  (case Replay inst True w s of
                     (w, s, Some e) \<Rightarrow> (d(filePath \<mapsto> fdata (FilePtr w)), s, Some (Fatal ''Unable to replay''))
                   | (w, s, None) \<Rightarrow>
                       (case CanDeleteSafely inst w of
                          (Inr True, w) \<Rightarrow> (case Delete inst w d of (w, d, _) \<Rightarrow> (d, s, None))
                        | (_, w) \<Rightarrow> (d(filePath \<mapsto> fdata (FilePtr w)), s, Some (Fatal ''Unable to delete after replay''))))))"

fun cleanup_files :: "InstanceMetadata \<Rightarrow> path \<Rightarrow> path \<Rightarrow> (string \<times> bool) list \<Rightarrow> wal_dir \<Rightarrow> storage
    \<Rightarrow> wal_dir \<times> storage \<times> go_err option" where
  "cleanup_files inst rootDir myFileBase [] d s = (d, s, None)"
| "cleanup_files inst rootDir myFileBase ((filename, isDir) # files) d s =
     (if \<not> isDir \<and> Ext filename = ''.walfile'' \<and> filename \<noteq> myFileBase then
        (case cleanup_file inst rootDir filename d s of
           (d, s, Some e) \<Rightarrow> (d, s, Some e)
         | (d, s, None) \<Rightarrow> cleanup_files inst rootDir myFileBase files d s)
      else cleanup_files inst rootDir myFileBase files d s)"

definition cleanupOldWALFiles :: "InstanceMetadata \<Rightarrow> path \<Rightarrow> (string \<times> bool) list \<Rightarrow> WALFileType \<Rightarrow> wal_dir \<Rightarrow> storage
    \<Rightarrow> wal_dir \<times> storage \<times> go_err option" where
  "cleanupOldWALFiles inst rootDir files w d s =
     cleanup_files inst (Clean rootDir) (Base (FilePath w)) files d s"

definition StartupCacheAndWAL :: "InstanceMetadata \<Rightarrow> path \<Rightarrow> (string \<times> bool) list \<Rightarrow> int \<Rightarrow> int \<Rightarrow> wal_dir \<Rightarrow> storage
    \<Rightarrow> (TransactionPipe \<times> WALFileType \<times> wal_dir \<times> storage) result" where
  "StartupCacheAndWAL inst rootDir files t0 t1 d s =
     (case NewWALFile inst rootDir [] t0 d of
        Inl e \<Rightarrow> Inl e
      | Inr (w, d) \<Rightarrow>
          (case cleanupOldWALFiles inst rootDir files w d s of
             (d, s, Some e) \<Rightarrow> Inl e
           | (d, s, None) \<Rightarrow> Inr (NewTransactionPipe t1, w, d, s)))"

end
