(* ===== verification/LogFormat.thy ===== *)
theory LogFormat
  imports Replay "HOL-Library.Sublist"
begin

text \<open>
  The log as a sequence of messages. Each message has one byte representation; the writers append it, and the first pass
  of \<^verbatim>\<open>Replay\<close> reads a log written this way back, message by message, up to a torn tail.
\<close>

section \<open>Messages and their bytes\<close>

datatype message =
    MStatus int int int \<comment> \<open>file status, replay state, owner\<close>
  | MTxn int int int \<comment> \<open>group id, destination, status\<close>
  | MGroup bytes \<comment> \<open>serialized group\<close>

fun msg_bytes :: "message \<Rightarrow> bytes" where
  "msg_bytes (MStatus a b c) = le_bytes 1 STATUS @ le_bytes 1 a @ le_bytes 1 b @ le_bytes 8 c"
| "msg_bytes (MTxn t d x) = le_bytes 1 TXNINFO @ le_bytes 8 t @ le_bytes 1 d @ le_bytes 1 x"
| "msg_bytes (MGroup TG) = le_bytes 1 TGDATA @ le_bytes 8 (int (length TG)) @ TG @ md5 (le_bytes 8 (int (length TG)) @ TG)"

definition log_bytes :: "message list \<Rightarrow> bytes" where
  "log_bytes ms = concat (map msg_bytes ms)"

fun msg_ok :: "message \<Rightarrow> bool" where
  "msg_ok (MStatus a b c) = True"
| "msg_ok (MTxn t d x) = (t = to_int64 t \<and> d \<in> {WAL, CHECKPOINT} \<and> x \<in> {PREPARING, COMMITINTENDED, COMMITCOMPLETE})"
| "msg_ok (MGroup TG) = (8 \<le> length TG \<and> int (length TG) < 2 ^ 63)"

text \<open>The groups a message sequence leaves to be replayed: a complete checkpoint of a known group removes it and all before it.\<close>

fun pend_step :: "message \<Rightarrow> (int \<times> bytes option) list \<Rightarrow> (int \<times> bytes option) list" where
  "pend_step (MGroup TG) p = AList.update (ToInt64 TG) (Some TG) p"
| "pend_step (MTxn t d x) p =
     (if d = CHECKPOINT \<and> x = COMMITCOMPLETE \<and> map_of p t \<noteq> None then filter (\<lambda>(i, _). \<not> i \<le> t) p else p)"
| "pend_step (MStatus a b c) p = p"

definition pending :: "message list \<Rightarrow> (int \<times> bytes option) list" where
  "pending ms = fold pend_step ms []"

fun group_id :: "message \<Rightarrow> int list" where
  "group_id (MGroup TG) = [ToInt64 TG]"
| "group_id _ = []"

definition group_ids :: "message list \<Rightarrow> int list" where
  "group_ids ms = concat (map group_id ms)"

section \<open>Lemmas: writing messages\<close>

lemma log_bytes_simps [simp]: "log_bytes [] = []" "log_bytes (m # ms) = msg_bytes m @ log_bytes ms"
  "log_bytes (ms @ ns) = log_bytes ms @ log_bytes ns"
  by (simp_all add: log_bytes_def)

lemma length_msg_bytes [simp]:
  "length (msg_bytes (MStatus a b c)) = 11" "length (msg_bytes (MTxn t d x)) = 11"
  "length (msg_bytes (MGroup TG)) = 25 + length TG"
  by (simp_all del: le_bytes.simps)

text \<open>The log \<open>ms\<close> is in the file, and the next write goes behind it.\<close>

definition log_in :: "WALFileType \<Rightarrow> message list \<Rightarrow> bool" where
  "log_in w ms \<longleftrightarrow> fdOpen w \<and> fdata (FilePtr w) = log_bytes ms \<and> fpos (FilePtr w) = length (log_bytes ms)"

lemma fd_write_append:
  "fdOpen w \<Longrightarrow> fpos (FilePtr w) = length (fdata (FilePtr w)) \<Longrightarrow>
   fd_write d w = w\<lparr>FilePtr := \<lparr>fdata = fdata (FilePtr w) @ d, fpos = length (fdata (FilePtr w)) + length d\<rparr>\<rparr>"
  by (cases "FilePtr w") (simp add: fd_write_def Write_def write_at_append)

lemma initMessage_eq: "initMessage m = le_bytes 1 m"
  by (simp add: initMessage_def)

definition append_msg :: "message \<Rightarrow> WALFileType \<Rightarrow> WALFileType" where
  "append_msg m w = w\<lparr>FilePtr := \<lparr>fdata = fdata (FilePtr w) @ msg_bytes m,
     fpos = length (fdata (FilePtr w)) + length (msg_bytes m)\<rparr>\<rparr>"

lemma append_msg_sel [simp]:
  "fdata (FilePtr (append_msg m w)) = fdata (FilePtr w) @ msg_bytes m"
  "fpos (FilePtr (append_msg m w)) = length (fdata (FilePtr w)) + length (msg_bytes m)"
  "fdOpen (append_msg m w) = fdOpen w" "RootPath (append_msg m w) = RootPath w"
  "FilePath (append_msg m w) = FilePath w" "lastCommittedTGID (append_msg m w) = lastCommittedTGID w"
  "FileStatus (append_msg m w) = FileStatus w" "ReplayState (append_msg m w) = ReplayState w"
  "OwningInstanceID (append_msg m w) = OwningInstanceID w"
  by (simp_all add: append_msg_def)

lemma log_in_append: "log_in w ms \<Longrightarrow> log_in (append_msg m w) (ms @ [m])"
  by (simp add: log_in_def)

lemma WriteTransactionInfo_append:
  "log_in w ms \<Longrightarrow> WriteTransactionInfo t d x w = append_msg (MTxn t d x) w"
  by (simp add: log_in_def WriteTransactionInfo_def write_wal_def fd_write_append initMessage_eq append_msg_def
      del: le_bytes.simps)

lemma log_group_append: "log_in w ms \<Longrightarrow> log_group TG w = append_msg (MGroup TG) w"
  by (simp add: log_in_def log_group_def Let_def fd_write_append initMessage_eq append_msg_def ac_simps del: le_bytes.simps)

lemma WriteStatus_replaces:
  assumes "log_in w (MStatus a b c # ms)"
  shows "log_in (WriteStatus inst x y w) (MStatus x y (InstanceID inst) # ms)"
proof -
  let ?new = "msg_bytes (MStatus x y (InstanceID inst))"
  have "write_at (msg_bytes (MStatus a b c) @ log_bytes ms) 0 ?new = ?new @ log_bytes ms"
    using length_msg_bytes(1) by (simp add: write_at_inside del: msg_bytes.simps)
  with assms show ?thesis
    by (simp add: log_in_def WriteStatus_def Let_def fd_seek_def fd_write_def Write_def fd_seek_end_def SeekEnd_def
        initMessage_eq del: le_bytes.simps)
qed

lemma WriteStatus_sel [simp]:
  "RootPath (WriteStatus inst x y w) = RootPath w" "FilePath (WriteStatus inst x y w) = FilePath w"
  "lastCommittedTGID (WriteStatus inst x y w) = lastCommittedTGID w" "fdOpen (WriteStatus inst x y w) = fdOpen w"
  "FileStatus (WriteStatus inst x y w) = x" "ReplayState (WriteStatus inst x y w) = y"
  "OwningInstanceID (WriteStatus inst x y w) = InstanceID inst"
  by (simp_all add: WriteStatus_def Let_def fd_seek_def fd_write_def fd_seek_end_def)

text \<open>A status message at the start of the file is what \<^verbatim>\<open>readStatus\<close> reads, and the position is at the end afterwards.\<close>

lemma readStatus_log:
  assumes "fdOpen w" "fdata (FilePtr w) = msg_bytes (MStatus a b c) @ rest"
  shows "readStatus w = (Inr (to_int8 a, to_int8 b, to_int64 c),
    w\<lparr>FilePtr := \<lparr>fdata = fdata (FilePtr w), fpos = length (fdata (FilePtr w))\<rparr>\<rparr>)"
proof -
  have "read_at (fdata (FilePtr w)) 1 10 = le_bytes 1 a @ le_bytes 1 b @ le_bytes 8 c"
    using assms(2) by (simp add: read_at_def del: le_bytes.simps)
  then have "Read 10 \<lparr>fdata = fdata (FilePtr w), fpos = 1\<rparr> = (le_bytes 1 a @ le_bytes 1 b @ le_bytes 8 c, 10, None,
      \<lparr>fdata = fdata (FilePtr w), fpos = 11\<rparr>)"
    by (simp add: Read_def del: le_bytes.simps)
  then show ?thesis using assms(1)
    by (cases "FilePtr w") (simp add: readStatus_def ReadStatus_def read_wal_def fd_read_def
        fd_seek_def fd_seek_end_def SeekEnd_def del: le_bytes.simps)
qed

lemma syncStatusRead_log:
  assumes "fdOpen w" "fdata (FilePtr w) = msg_bytes (MStatus a b c) @ rest"
  shows "syncStatusRead w = (None, w\<lparr>FilePtr := \<lparr>fdata = fdata (FilePtr w), fpos = length (fdata (FilePtr w))\<rparr>,
    FileStatus := to_int8 a, ReplayState := to_int8 b, OwningInstanceID := to_int64 c\<rparr>)"
  using assms(1) readStatus_log [OF assms] by (simp add: syncStatusRead_def)

section \<open>Lemmas: reading messages\<close>

text \<open>What is left to read from the current position of the file.\<close>

definition rest_at :: "WALFileType \<Rightarrow> bytes \<Rightarrow> bool" where
  "rest_at w rest \<longleftrightarrow> fdOpen w \<and> fpos (FilePtr w) \<le> length (fdata (FilePtr w)) \<and>
     drop (fpos (FilePtr w)) (fdata (FilePtr w)) = rest"

definition skip :: "nat \<Rightarrow> WALFileType \<Rightarrow> WALFileType" where
  "skip n w = w\<lparr>FilePtr := (FilePtr w)\<lparr>fpos := fpos (FilePtr w) + n\<rparr>\<rparr>"

lemma skip_sel [simp]:
  "fdata (FilePtr (skip n w)) = fdata (FilePtr w)" "fpos (FilePtr (skip n w)) = fpos (FilePtr w) + n"
  "RootPath (skip n w) = RootPath w" "fdOpen (skip n w) = fdOpen w"
  by (simp_all add: skip_def)

lemma skip_skip [simp]: "skip n (skip m w) = skip (m + n) w" "skip 0 w = w"
  by (simp_all add: skip_def)

lemma rest_at_iff: "rest_at w rest \<longleftrightarrow> fdOpen w \<and> (\<exists>pre. fdata (FilePtr w) = pre @ rest \<and> fpos (FilePtr w) = length pre)"
  unfolding rest_at_def
  by (auto intro!: exI [where x = "take (fpos (FilePtr w)) (fdata (FilePtr w))"])

lemma rest_at_skip [simp]: "rest_at w (xs @ rest) \<Longrightarrow> rest_at (skip (length xs) w) rest"
  unfolding rest_at_iff by (auto intro: exI [where x = "_ @ xs"])

lemma fd_read_full:
  "rest_at w (xs @ rest) \<Longrightarrow> fd_read (length xs) w = (xs, length xs, None, skip (length xs) w)"
  by (auto simp: rest_at_def fd_read_def Read_def read_at_def skip_def)

lemma fd_read_short:
  assumes "rest_at w rest" "length rest < n"
  shows "\<exists>b err. fd_read n w = (b, length rest, err, skip (length rest) w)"
  using assms by (auto simp: rest_at_def fd_read_def Read_def read_at_def skip_def Let_def)

lemma read_wal_full:
  "rest_at w (xs @ rest) \<Longrightarrow> read_wal (length xs) w = (xs, None, skip (length xs) w)"
  using fd_read_full [of w xs rest] by (simp add: read_wal_def rest_at_def)

lemma read_wal_short:
  assumes "rest_at w rest" "length rest < n"
  shows "\<exists>b. read_wal n w = (b, Some ShortReadError, skip (length rest) w)"
  using fd_read_short [OF assms] assms by (auto simp: read_wal_def rest_at_def)

lemma readMessageID_full:
  "rest_at w (le_bytes 1 m @ rest) \<Longrightarrow> m \<in> {TGDATA, TXNINFO, STATUS} \<Longrightarrow> readMessageID w = (Inr m, skip 1 w)"
  using read_wal_full [of w "le_bytes 1 m" rest] by (auto simp: readMessageID_def go_int simp del: le_bytes.simps)

lemma readMessageID_end: "rest_at w [] \<Longrightarrow> readMessageID w = (Inl ShortReadError, w)"
  using read_wal_short [of w "[]" 1] by (auto simp: readMessageID_def)

lemma readTransactionInfo_full:
  assumes "rest_at w (le_bytes 8 t @ le_bytes 1 d @ le_bytes 1 x @ rest)" "msg_ok (MTxn t d x)"
  shows "readTransactionInfo w = (Inr (t, d, x), skip 10 w)"
  using read_wal_full [of w "le_bytes 8 t @ le_bytes 1 d @ le_bytes 1 x" rest] assms
  by (auto simp: readTransactionInfo_def go_int simp del: le_bytes.simps)

lemma readTransactionInfo_short:
  "rest_at w rest \<Longrightarrow> length rest < 10 \<Longrightarrow> readTransactionInfo w = (Inl ShortReadError, skip (length rest) w)"
  using read_wal_short [of w rest 10] by (auto simp: readTransactionInfo_def)

lemma ReadStatus_full:
  "rest_at w (xs @ rest) \<Longrightarrow> length xs = 10 \<Longrightarrow> \<exists>v. ReadStatus w = (v, None, skip 10 w)"
  using read_wal_full [of w xs rest] by (auto simp: ReadStatus_def)

lemma ReadStatus_short:
  "rest_at w rest \<Longrightarrow> length rest < 10 \<Longrightarrow> \<exists>v. ReadStatus w = (v, Some ShortReadError, skip (length rest) w)"
  using read_wal_short [of w rest 10] by (auto simp: ReadStatus_def)

lemma rest_at_length: "rest_at w rest \<Longrightarrow> length rest \<le> length (fdata (FilePtr w))"
  by (auto simp: rest_at_def)

lemma readTGData_full:
  fixes TG :: bytes
  defines "len \<equiv> le_bytes 8 (int (length TG))"
  assumes w: "rest_at w (len @ TG @ md5 (len @ TG) @ rest)" and ok: "msg_ok (MGroup TG)"
  shows "readTGData w = (Inr (ToInt64 TG, TG), skip (24 + length TG) w)"
proof -
  have l: "ToInt64 len = int (length TG)" using ok by (simp add: len_def go_int)
  have "sanityCheckValue (skip 8 w) (int (length TG))"
    using rest_at_length [OF w] ok by (simp add: sanityCheckValue_def len_def)
  moreover have r1: "read_wal 8 w = (len, None, skip 8 w)"
    using read_wal_full [OF w] by (simp add: len_def)
  moreover have w1: "rest_at (skip 8 w) (TG @ md5 (len @ TG) @ rest)"
    using rest_at_skip [OF w] by (simp add: len_def)
  moreover have "fd_read (length TG) (skip 8 w) = (TG, length TG, None, skip (8 + length TG) w)"
    using fd_read_full [OF w1] by simp
  moreover have "rest_at (skip (8 + length TG) w) (md5 (len @ TG) @ rest)"
    using rest_at_skip [OF w1] by simp
  from fd_read_full [OF this]
  have "fd_read 16 (skip (8 + length TG) w) = (md5 (len @ TG), 16, None, skip (24 + length TG) w)"
    by (simp add: ac_simps)
  ultimately show ?thesis
    using l ok by (simp add: readTGData_def)
qed

lemma prefix_split: "prefix xs (ys @ zs) \<Longrightarrow> length ys \<le> length xs \<Longrightarrow> \<exists>us. xs = ys @ us \<and> prefix us zs"
  by (metis append_eq_append_conv_if append_take_drop_id prefix_def same_prefix_prefix prefix_length_prefix prefixI)

text \<open>
  A torn group: the file ends inside it. The size check passes when the length is under a thousand times
  the size of the file as it is.
\<close>

lemma readTGData_torn:
  fixes TG :: bytes
  defines "len \<equiv> le_bytes 8 (int (length TG))"
  assumes w: "rest_at w torn" and torn: "strict_prefix torn (len @ TG @ md5 (len @ TG))" and ok: "msg_ok (MGroup TG)"
    and sane: "8 \<le> length torn \<Longrightarrow> int (length TG) < 1000 * int (length (fdata (FilePtr w)))"
  shows "readTGData w = (Inl ShortReadError, skip (length torn) w)"
proof (cases "length torn < 8")
  case True
  then show ?thesis using read_wal_short [OF w True] by (auto simp: readTGData_def)
next
  case False
  have l: "ToInt64 len = int (length TG)" using ok by (simp add: len_def go_int)
  have lt: "length torn < 24 + length TG"
    using prefix_length_less [OF torn] by (simp add: len_def)
  obtain us where us: "torn = len @ us" "prefix us (TG @ md5 (len @ TG))"
    using prefix_split [of torn len] torn False by (auto simp: len_def strict_prefix_def)
  have w1: "rest_at (skip 8 w) us" using rest_at_skip [of w len us] w us by (simp add: len_def)
  have r1: "read_wal 8 w = (len, None, skip 8 w)"
    using read_wal_full [of w len us] w us by (simp add: len_def)
  have sane': "sanityCheckValue (skip 8 w) (int (length TG))"
    using sane False by (simp add: sanityCheckValue_def)
  show ?thesis
  proof (cases "length us < length TG")
    case True
    then obtain b err where "fd_read (length TG) (skip 8 w) = (b, length us, err, skip (8 + length us) w)"
      using fd_read_short [OF w1 True] by auto
    with True r1 sane' l us show ?thesis by (simp add: readTGData_def len_def)
  next
    case False
    then obtain vs where vs: "us = TG @ vs" using prefix_split [OF us(2)] by auto
    have r2: "fd_read (length TG) (skip 8 w) = (TG, length TG, None, skip (8 + length TG) w)"
      using fd_read_full [of "skip 8 w" TG vs] w1 vs by simp
    have w2: "rest_at (skip (8 + length TG) w) vs"
      using rest_at_skip [of "skip 8 w" TG vs] w1 vs by simp
    have "length vs < 16" using lt us vs by (simp add: len_def)
    then obtain b err where "fd_read 16 (skip (8 + length TG) w) = (b, length vs, err, skip (8 + length TG + length vs) w)"
      using fd_read_short [OF w2, of 16] by auto
    with \<open>length vs < 16\<close> r1 r2 sane' l us vs ok show ?thesis
      by (simp add: readTGData_def len_def ac_simps)
  qed
qed

section \<open>Lemmas: the first pass\<close>

lemma scan_group_full:
  assumes w: "rest_at (scanned s) (msg_bytes (MGroup TG) @ rest)" and ok: "msg_ok (MGroup TG)"
    and new: "map_of (offsetTGDataInWAL s) (ToInt64 TG) = None"
  shows "\<exists>off. scan_message s = Inr (s\<lparr>scanned := skip (25 + length TG) (scanned s),
    TGData := AList.update (ToInt64 TG) (Some TG) (TGData s),
    offsetTGDataInWAL := AList.update (ToInt64 TG) off (offsetTGDataInWAL s)\<rparr>, True)"
proof -
  let ?len = "le_bytes 8 (int (length TG))"
  have w0: "rest_at (scanned s) (le_bytes 1 TGDATA @ ?len @ TG @ md5 (?len @ TG) @ rest)"
    using w by (simp del: le_bytes.simps)
  have w1: "rest_at (skip 1 (scanned s)) (?len @ TG @ md5 (?len @ TG) @ rest)"
    using rest_at_skip [OF w0] by (simp del: le_bytes.simps)
  have "readMessageID (scanned s) = (Inr TGDATA, skip 1 (scanned s))"
    using readMessageID_full [OF w0] by simp
  with readTGData_full [OF w1 ok] new show ?thesis
    by (auto simp: scan_message_def scan_tgdata_def err_of_def)
qed

lemma scan_message_full:
  assumes w: "rest_at (scanned s) (msg_bytes m @ rest)" and ok: "msg_ok m"
    and new: "\<forall>i \<in> set (group_id m). map_of (offsetTGDataInWAL s) i = None"
  shows "\<exists>s'. scan_message s = Inr (s', True) \<and> scanned s' = skip (length (msg_bytes m)) (scanned s) \<and>
    TGData s' = pend_step m (TGData s) \<and>
    dom (map_of (offsetTGDataInWAL s')) = set (group_id m) \<union> dom (map_of (offsetTGDataInWAL s))"
proof (cases m)
  case (MGroup TG)
  then obtain off where "scan_message s = Inr (s\<lparr>scanned := skip (25 + length TG) (scanned s),
      TGData := AList.update (ToInt64 TG) (Some TG) (TGData s),
      offsetTGDataInWAL := AList.update (ToInt64 TG) off (offsetTGDataInWAL s)\<rparr>, True)"
    using scan_group_full [of s TG rest] w ok new by auto
  with MGroup show ?thesis by (auto simp: update_conv' simp del: msg_bytes.simps)
next
  case (MTxn t d x)
  then have w0: "rest_at (scanned s) (le_bytes 1 TXNINFO @ le_bytes 8 t @ le_bytes 1 d @ le_bytes 1 x @ rest)"
    using w by (simp del: le_bytes.simps)
  have w1: "rest_at (skip 1 (scanned s)) (le_bytes 8 t @ le_bytes 1 d @ le_bytes 1 x @ rest)"
    using rest_at_skip [OF w0] by (simp del: le_bytes.simps)
  have "readMessageID (scanned s) = (Inr TXNINFO, skip 1 (scanned s))"
    using readMessageID_full [OF w0] by simp
  with readTransactionInfo_full [OF w1] ok MTxn show ?thesis
    by (auto simp: scan_message_def scan_txninfo_def err_of_def simp del: msg_bytes.simps)
next
  case (MStatus a b c)
  then have w0: "rest_at (scanned s) (le_bytes 1 STATUS @ (le_bytes 1 a @ le_bytes 1 b @ le_bytes 8 c) @ rest)"
    using w by (simp del: le_bytes.simps)
  have w1: "rest_at (skip 1 (scanned s)) ((le_bytes 1 a @ le_bytes 1 b @ le_bytes 8 c) @ rest)"
    using rest_at_skip [OF w0] by (simp del: le_bytes.simps)
  have "readMessageID (scanned s) = (Inr STATUS, skip 1 (scanned s))"
    using readMessageID_full [OF w0] by simp
  moreover obtain v where "ReadStatus (skip 1 (scanned s)) = (v, None, skip 10 (skip 1 (scanned s)))"
    using ReadStatus_full [OF w1] by auto
  ultimately show ?thesis using MStatus
    by (auto simp: scan_message_def err_of_def simp del: msg_bytes.simps)
qed

text \<open>The file ends at a message boundary or inside a message.\<close>

definition torn_sane :: "nat \<Rightarrow> bytes \<Rightarrow> message \<Rightarrow> bool" where
  "torn_sane sz torn m \<longleftrightarrow>
     (case m of MGroup TG \<Rightarrow> 9 \<le> length torn \<longrightarrow> length TG < 1000 * sz | _ \<Rightarrow> True)"

lemma scan_message_torn:
  assumes w: "rest_at (scanned s) torn" and ok: "msg_ok m" and torn: "strict_prefix torn (msg_bytes m)"
    and sane: "torn_sane (length (fdata (FilePtr (scanned s)))) torn m"
  shows "\<exists>s'. scan_message s = Inr (s', False) \<and> scanned s' = skip (length torn) (scanned s) \<and>
    TGData s' \<in> {TGData s, AList.update 0 None (TGData s)}"
proof (cases "torn = []")
  case True
  then show ?thesis using readMessageID_end w by (auto simp: scan_message_def err_of_def)
next
  case False
  then obtain mid body where m: "msg_bytes m = le_bytes 1 mid @ body" "mid \<in> {TGDATA, TXNINFO, STATUS}"
    by (cases m) (auto simp del: le_bytes.simps)
  obtain us where us: "torn = le_bytes 1 mid @ us" "strict_prefix us body"
    using prefix_split [of torn "le_bytes 1 mid" body] False torn m(1)
    by (auto simp: strict_prefix_def Suc_le_eq simp del: le_bytes.simps)
  have w1: "rest_at (skip 1 (scanned s)) us"
    using rest_at_skip [of "scanned s" "le_bytes 1 mid" us] w us by (simp del: le_bytes.simps)
  have id: "readMessageID (scanned s) = (Inr mid, skip 1 (scanned s))"
    using readMessageID_full [of "scanned s" mid us] w us m by simp
  have l: "length torn = 1 + length us" "length us < length body"
    using us prefix_length_less [OF us(2)] by (simp_all del: le_bytes.simps)
  show ?thesis
  proof (cases m)
    case (MGroup TG)
    have "le_bytes 1 mid = le_bytes 1 TGDATA" and body:
      "body = le_bytes 8 (int (length TG)) @ TG @ md5 (le_bytes 8 (int (length TG)) @ TG)"
      using m(1) MGroup by (simp_all add: append_eq_append_conv del: le_bytes.simps)
    then have mid: "mid = TGDATA" using m(2) by auto
    have "int (length TG) < 1000 * int (length (fdata (FilePtr (skip 1 (scanned s)))))" if "8 \<le> length us"
      using sane MGroup l that by (simp add: torn_sane_def)
    then have "readTGData (skip 1 (scanned s)) = (Inl ShortReadError, skip (length us) (skip 1 (scanned s)))"
      using readTGData_torn [OF w1, of TG] us(2) ok MGroup by (simp add: body)
    then show ?thesis using id mid l by (simp add: scan_message_def scan_tgdata_def err_of_def)
  next
    case (MTxn t d x)
    have "le_bytes 1 mid = le_bytes 1 TXNINFO" and body: "length body = 10"
      using m(1) MTxn by (auto simp: append_eq_append_conv simp del: le_bytes.simps)
    then have mid: "mid = TXNINFO" using m(2) by auto
    have "readTransactionInfo (skip 1 (scanned s)) = (Inl ShortReadError, skip (length us) (skip 1 (scanned s)))"
      using readTransactionInfo_short [OF w1] l body by simp
    then show ?thesis using id mid l by (simp add: scan_message_def scan_txninfo_def err_of_def)
  next
    case (MStatus a b c)
    have "le_bytes 1 mid = le_bytes 1 STATUS" and body: "length body = 10"
      using m(1) MStatus by (auto simp: append_eq_append_conv simp del: le_bytes.simps)
    then have mid: "mid = STATUS" using m(2) by auto
    obtain v where "ReadStatus (skip 1 (scanned s)) = (v, Some ShortReadError, skip (length us) (skip 1 (scanned s)))"
      using ReadStatus_short [OF w1] l body by auto
    then show ?thesis using id mid l by (simp add: scan_message_def err_of_def)
  qed
qed

text \<open>The whole pass over a log with a torn tail.\<close>

lemma replay_scan_log:
  assumes "rest_at (scanned s) (log_bytes ms @ torn)" "list_all msg_ok ms"
    and "distinct (group_ids ms)" "\<forall>i \<in> set (group_ids ms). map_of (offsetTGDataInWAL s) i = None"
    and "msg_ok m" "strict_prefix torn (msg_bytes m)" "torn_sane (length (fdata (FilePtr (scanned s)))) torn m"
  shows "\<exists>s'. replay_scan s = Inr s' \<and> scanned s' = skip (length (log_bytes ms @ torn)) (scanned s) \<and>
    TGData s' \<in> {fold pend_step ms (TGData s), AList.update 0 None (fold pend_step ms (TGData s))}"
  using assms
proof (induction ms arbitrary: s)
  case Nil
  then show ?case using scan_message_torn [of s torn m]
    by (subst replay_scan.simps) (auto simp del: msg_bytes.simps)
next
  case (Cons k ms)
  have k: "rest_at (scanned s) (msg_bytes k @ log_bytes ms @ torn)"
    using Cons.prems(1) by (simp del: msg_bytes.simps)
  obtain s1 where s1: "scan_message s = Inr (s1, True)" "scanned s1 = skip (length (msg_bytes k)) (scanned s)"
    "TGData s1 = pend_step k (TGData s)"
    "dom (map_of (offsetTGDataInWAL s1)) = set (group_id k) \<union> dom (map_of (offsetTGDataInWAL s))"
    using scan_message_full [OF k] Cons.prems by (auto simp: group_ids_def simp del: msg_bytes.simps)
  have "\<forall>i \<in> set (group_ids ms). map_of (offsetTGDataInWAL s1) i = None"
    using Cons.prems(3,4) s1(4) by (auto simp: group_ids_def)
  moreover have "rest_at (scanned s1) (log_bytes ms @ torn)" using rest_at_skip [OF k] s1(2) by simp
  ultimately obtain s' where "replay_scan s1 = Inr s'"
      "scanned s' = skip (length (log_bytes ms @ torn)) (scanned s1)"
      "TGData s' \<in> {fold pend_step ms (TGData s1), AList.update 0 None (fold pend_step ms (TGData s1))}"
    using Cons.IH [of s1] Cons.prems s1 by (auto simp: group_ids_def simp del: msg_bytes.simps)
  then show ?case
    using s1 by (subst replay_scan.simps) (auto simp: ac_simps simp del: msg_bytes.simps)
qed

end
