(* ===== verification/TxnGroups.thy ===== *)
theory TxnGroups
  imports LogFormat
begin

text \<open>
  The contract of a transaction group: what its commands do to the primary files. \<open>apply_group\<close> runs, for every file,
  the commands for that file in their order. Both ways the code has to write a group implement it:
  \<^verbatim>\<open>flushToWAL\<close>, which collects the writes per file and visits the files in the order of a Go map, and \<^verbatim>\<open>replayTGData\<close>,
  which parses the serialized group and writes command by command.
\<close>

section \<open>The bytes of a group\<close>

definition cmd_buffer :: "WriteCommand \<Rightarrow> bytes" where
  "cmd_buffer c = le_bytes 8 (wcOffset c) @ le_bytes 8 (wcIndex c) @ Data c"

definition cmd_bytes :: "WriteCommand \<Rightarrow> bytes" where
  "cmd_bytes c = le_bytes 1 (RecordType c) @ le_bytes 2 (int (length (WALKeyPath c))) @ str_bytes (WALKeyPath c) @
     le_bytes 4 (int (length (Data c))) @ le_bytes 4 (VarRecLen c) @ cmd_buffer c"

definition group_bytes :: "int \<Rightarrow> WriteCommand list \<Rightarrow> bytes" where
  "group_bytes t cs = le_bytes 8 t @ le_bytes 8 (int (length cs)) @ concat (map cmd_bytes cs)"

text \<open>Commands whose fields fit their types, as the writers make them.\<close>

definition cmd_wf :: "WriteCommand \<Rightarrow> bool" where
  "cmd_wf c \<longleftrightarrow> RecordType c \<in> {FIXED, VARIABLE} \<and> length (WALKeyPath c) < 2 ^ 15 \<and> length (Data c) < 2 ^ 31 \<and>
     - (2 ^ 31) \<le> VarRecLen c \<and> VarRecLen c < 2 ^ 31 \<and> 0 \<le> wcOffset c \<and> wcOffset c < 2 ^ 63 \<and>
     - (2 ^ 63) \<le> wcIndex c \<and> wcIndex c < 2 ^ 63"

section \<open>What a group does\<close>

definition write_cmd :: "codec option \<Rightarrow> WriteCommand \<Rightarrow> bytes \<Rightarrow> bytes result" where
  "write_cmd cd c f =
     (if RecordType c = FIXED then
        (case WriteBufferToFile WriteAt f (cmd_buffer c) of (g, None) \<Rightarrow> Inr g | (_, Some e) \<Rightarrow> Inl e)
      else
        (case WriteBufferToFileIndirect cd \<lparr>fdata = f, fpos = 0\<rparr> (cmd_buffer c) (VarRecLen c) of
           (fl, _, None) \<Rightarrow> Inr (fdata fl) | (_, _, Some e) \<Rightarrow> Inl e))"

fun run_file :: "codec option \<Rightarrow> WriteCommand list \<Rightarrow> bytes \<Rightarrow> bytes result" where
  "run_file cd [] f = Inr f"
| "run_file cd (c # cs) f = (case write_cmd cd c f of Inl e \<Rightarrow> Inl e | Inr g \<Rightarrow> run_file cd cs g)"

definition cmd_path :: "path \<Rightarrow> WriteCommand \<Rightarrow> path" where
  "cmd_path root c = Join root (WALKeyPath c)"

definition cmds_at :: "path \<Rightarrow> path \<Rightarrow> WriteCommand list \<Rightarrow> WriteCommand list" where
  "cmds_at root p cs = filter (\<lambda>c. cmd_path root c = p) cs"

definition apply_group :: "codec option \<Rightarrow> path \<Rightarrow> WriteCommand list \<Rightarrow> disk \<Rightarrow> disk" where
  "apply_group cd root cs dsk = (\<lambda>p. case dsk p of
      None \<Rightarrow> None
    | Some f \<Rightarrow> (case run_file cd (cmds_at root p cs) f of Inr g \<Rightarrow> Some g | Inl _ \<Rightarrow> Some f))"

text \<open>Every command has its file, and no write fails.\<close>

definition group_runs :: "codec option \<Rightarrow> path \<Rightarrow> WriteCommand list \<Rightarrow> disk \<Rightarrow> bool" where
  "group_runs cd root cs dsk \<longleftrightarrow> (\<forall>c \<in> set cs. case dsk (cmd_path root c) of
      None \<Rightarrow> False
    | Some f \<Rightarrow> is_ok (run_file cd (cmds_at root (cmd_path root c) cs) f))"

section \<open>Lemmas: serialization\<close>

lemma length_cmd_bytes: "length (cmd_bytes c) = 27 + length (WALKeyPath c) + length (Data c)"
  by (simp add: cmd_bytes_def cmd_buffer_def del: le_bytes.simps)

lemma serialize_command_eq:
  "serialize_command c g = \<lparr>TG_Serialized = TG_Serialized g @ cmd_bytes c,
     writesPerFile = append_value (WALKeyPath c) (cmd_buffer c) (writesPerFile g),
     fileRecordTypes = set_new (WALKeyPath c) (RecordType c) (fileRecordTypes g),
     varRecLens = set_new (WALKeyPath c) (VarRecLen c) (varRecLens g)\<rparr>"
  by (simp add: serialize_command_def Let_def cmd_bytes_def cmd_buffer_def del: le_bytes.simps)

lemma fold_serialize_TG:
  "TG_Serialized (fold serialize_command cs g) = TG_Serialized g @ concat (map cmd_bytes cs)"
  by (induction cs arbitrary: g) (simp_all add: serialize_command_eq)

lemma serialize_group_TG: "TG_Serialized (serialize_group t cs) = group_bytes t cs"
  by (simp add: serialize_group_def Let_def fold_serialize_TG group_bytes_def del: le_bytes.simps)

definition keyed :: "path \<Rightarrow> WriteCommand list \<Rightarrow> WriteCommand list" where
  "keyed k cs = filter (\<lambda>c. WALKeyPath c = k) cs"

lemma fold_serialize_writes:
  "map_of (writesPerFile (fold serialize_command cs g)) k =
     (case map_of (writesPerFile g) k of
        Some bs \<Rightarrow> Some (bs @ map cmd_buffer (keyed k cs))
      | None \<Rightarrow> if keyed k cs = [] then None else Some (map cmd_buffer (keyed k cs)))"
  by (induction cs arbitrary: g)
    (auto simp: serialize_command_eq keyed_def append_value_def update_conv' split: option.splits)

lemma fold_serialize_types:
  "map_of (fileRecordTypes (fold serialize_command cs g)) k =
     (case map_of (fileRecordTypes g) k of
        Some t \<Rightarrow> Some t
      | None \<Rightarrow> if keyed k cs = [] then None else Some (RecordType (hd (keyed k cs))))"
  "map_of (varRecLens (fold serialize_command cs g)) k =
     (case map_of (varRecLens g) k of
        Some t \<Rightarrow> Some t
      | None \<Rightarrow> if keyed k cs = [] then None else Some (VarRecLen (hd (keyed k cs))))"
  by (induction cs arbitrary: g)
    (auto simp: serialize_command_eq keyed_def set_new_def update_conv' split: option.splits)

lemma fold_serialize_distinct:
  "distinct (map fst (writesPerFile g)) \<Longrightarrow> distinct (map fst (writesPerFile (fold serialize_command cs g)))"
  by (induction cs arbitrary: g) (auto simp: serialize_command_eq append_value_def distinct_update)

lemma serialize_group_maps:
  assumes "keyed k cs \<noteq> []"
  shows "map_of (writesPerFile (serialize_group t cs)) k = Some (map cmd_buffer (keyed k cs))"
    and "map_of (fileRecordTypes (serialize_group t cs)) k = Some (RecordType (hd (keyed k cs)))"
    and "map_of (varRecLens (serialize_group t cs)) k = Some (VarRecLen (hd (keyed k cs)))"
  using assms
  by (simp_all add: serialize_group_def fold_serialize_writes fold_serialize_types)

lemma serialize_group_keys:
  "distinct (map fst (writesPerFile (serialize_group t cs)))"
  "set (map fst (writesPerFile (serialize_group t cs))) = WALKeyPath ` set cs"
proof -
  show "distinct (map fst (writesPerFile (serialize_group t cs)))"
    by (simp add: serialize_group_def fold_serialize_distinct)
  have "k \<in> fst ` set (writesPerFile (serialize_group t cs)) \<longleftrightarrow> keyed k cs \<noteq> []" for k
    using map_of_eq_None_iff [of "writesPerFile (serialize_group t cs)" k]
    by (auto simp: serialize_group_def fold_serialize_writes)
  then have "k \<in> fst ` set (writesPerFile (serialize_group t cs)) \<longleftrightarrow> k \<in> WALKeyPath ` set cs" for k
    by (auto simp: keyed_def filter_empty_conv)
  then show "set (map fst (writesPerFile (serialize_group t cs))) = WALKeyPath ` set cs"
    unfolding set_map by blast
qed

section \<open>Lemmas: running commands\<close>

lemma Offset_buffer [simp]: "Offset (cmd_buffer c) = to_int64 (wcOffset c)" "Index (cmd_buffer c) = to_int64 (wcIndex c)"
  "Payload (cmd_buffer c) = Data c"
  by (simp_all add: Offset_def Index_def Payload_def cmd_buffer_def del: le_bytes.simps)

lemma Offset_wf: "cmd_wf c \<Longrightarrow> Offset (cmd_buffer c) = wcOffset c" "cmd_wf c \<Longrightarrow> 0 \<le> wcOffset c"
  by (simp_all add: cmd_wf_def go_int)

text \<open>An indirect write does not depend on where the file stands, since it seeks to its offset.\<close>

lemma indirect_pos:
  "0 \<le> Offset b \<Longrightarrow> WriteBufferToFileIndirect cd fl b v =
     WriteBufferToFileIndirect cd \<lparr>fdata = fdata fl, fpos = 0\<rparr> b v"
  by (cases fl) (simp add: WriteBufferToFileIndirect_def Seek_def)

lemma run_file_append: "run_file cd (cs @ ds) f = res_bind (run_file cd cs f) (run_file cd ds)"
  by (induction cs arbitrary: f) (auto split: sum.splits)

lemma cmds_at_Cons: "cmds_at root p (c # cs) = (if cmd_path root c = p then [c] else []) @ cmds_at root p cs"
  by (simp add: cmds_at_def)

text \<open>The first command of a group that runs: its file, its write, and the rest of the group behind it.\<close>

lemma group_runs_Cons:
  assumes "group_runs cd root (c # cs) dsk"
  obtains f g where "dsk (cmd_path root c) = Some f" "write_cmd cd c f = Inr g"
    "group_runs cd root cs (dsk(cmd_path root c \<mapsto> g))"
    "apply_group cd root (c # cs) dsk = apply_group cd root cs (dsk(cmd_path root c \<mapsto> g))"
proof -
  let ?p = "cmd_path root c"
  from assms obtain f where f: "dsk ?p = Some f" "is_ok (run_file cd (cmds_at root ?p (c # cs)) f)"
    by (auto simp: group_runs_def split: option.splits)
  then obtain g where g: "write_cmd cd c f = Inr g" "is_ok (run_file cd (cmds_at root ?p cs) g)"
    by (auto simp: cmds_at_Cons split: sum.splits)
  have "group_runs cd root cs (dsk(?p \<mapsto> g))"
    unfolding group_runs_def
  proof
    fix d
    assume "d \<in> set cs"
    then have "case dsk (cmd_path root d) of None \<Rightarrow> False
      | Some f \<Rightarrow> is_ok (run_file cd (cmds_at root (cmd_path root d) (c # cs)) f)"
      using assms by (simp add: group_runs_def)
    then show "case (dsk(?p \<mapsto> g)) (cmd_path root d) of None \<Rightarrow> False
      | Some f \<Rightarrow> is_ok (run_file cd (cmds_at root (cmd_path root d) cs) f)"
      using g by (auto simp: cmds_at_Cons split: option.splits if_splits)
  qed
  moreover have "apply_group cd root (c # cs) dsk = apply_group cd root cs (dsk(?p \<mapsto> g))"
    using f g by (auto simp: apply_group_def cmds_at_Cons fun_eq_iff split: option.splits sum.splits)
  ultimately show ?thesis using that f g by blast
qed

section \<open>Lemmas: replaying a group\<close>

lemma go_slice_mid: "xs = pre @ x @ post \<Longrightarrow> a = int (length pre) \<Longrightarrow> b = a + int (length x) \<Longrightarrow> go_slice a b xs = Inr x"
  by simp

lemma parse_head_command:
  assumes "TG = pre @ cmd_bytes c @ post" "cmd_wf c"
  shows "parse_head TG (int (length pre)) = Inr \<lparr>chRecordType = RecordType c, chKeyPath = WALKeyPath c,
    chDataLen = int (length (Data c)), chVarRecLen = VarRecLen c, chCursor = int (length pre) + 11 + int (length (WALKeyPath c))\<rparr>"
proof -
  let ?b1 = "le_bytes 1 (RecordType c)" and ?b2 = "le_bytes 2 (int (length (WALKeyPath c)))"
    and ?b3 = "str_bytes (WALKeyPath c)" and ?b4 = "le_bytes 4 (int (length (Data c)))" and ?b5 = "le_bytes 4 (VarRecLen c)"
  let ?p = "int (length pre)" and ?k = "int (length (WALKeyPath c))"
  have TG: "TG = pre @ ?b1 @ ?b2 @ ?b3 @ ?b4 @ ?b5 @ cmd_buffer c @ post"
    using assms(1) by (simp add: cmd_bytes_def del: le_bytes.simps)
  have s1: "go_slice ?p (?p + 1) TG = Inr ?b1"
    by (rule go_slice_mid [OF TG]) (simp_all del: le_bytes.simps)
  have s2: "go_slice (?p + 1) (?p + 1 + 2) TG = Inr ?b2"
    by (rule go_slice_mid [of _ "pre @ ?b1"]) (simp_all add: TG del: le_bytes.simps)
  have s3: "go_slice (?p + 1 + 2) (?p + 1 + 2 + ?k) TG = Inr ?b3"
    by (rule go_slice_mid [of _ "pre @ ?b1 @ ?b2"]) (simp_all add: TG del: le_bytes.simps)
  have s4: "go_slice (?p + 1 + 2 + ?k) (?p + 1 + 2 + ?k + 4) TG = Inr ?b4"
    by (rule go_slice_mid [of _ "pre @ ?b1 @ ?b2 @ ?b3"]) (simp_all add: TG del: le_bytes.simps)
  have s5: "go_slice (?p + 1 + 2 + ?k + 4) (?p + 1 + 2 + ?k + 4 + 4) TG = Inr ?b5"
    by (rule go_slice_mid [of _ "pre @ ?b1 @ ?b2 @ ?b3 @ ?b4"]) (simp_all add: TG del: le_bytes.simps)
  have c: "ToInt8 ?b1 = RecordType c" "ToInt16 ?b2 = ?k" "ToInt32 ?b4 = int (length (Data c))" "ToInt32 ?b5 = VarRecLen c"
    using assms(2) by (auto simp: cmd_wf_def go_int simp del: le_bytes.simps)
  show ?thesis
    unfolding parse_head_def Let_def s1 res_bind_simps s2 c s3 s4 s5 by simp
qed

lemma GetFP_exists:
  "dsk p = Some f \<Longrightarrow> \<exists>cfp'. GetFP dsk cfp p = Inr cfp' \<and> cfName cfp' = p"
  by (auto simp: GetFP_def)

lemma replay_write_command:
  assumes TG: "TG = pre @ cmd_bytes c @ post" and c: "cmd_wf c"
    and f: "dsk (cfName cfp) = Some f" "write_cmd cd c f = Inr g" and h: "parse_head TG (int (length pre)) = Inr h"
  shows "\<exists>cfp'. replay_write cd TG h cfp dsk = (dsk(cfName cfp \<mapsto> g), Inr cfp')"
proof -
  have h': "h = \<lparr>chRecordType = RecordType c, chKeyPath = WALKeyPath c, chDataLen = int (length (Data c)),
      chVarRecLen = VarRecLen c, chCursor = int (length pre) + 11 + int (length (WALKeyPath c))\<rparr>"
    using h parse_head_command [OF TG c] by simp
  let ?pre = "pre @ le_bytes 1 (RecordType c) @ le_bytes 2 (int (length (WALKeyPath c))) @ str_bytes (WALKeyPath c) @
     le_bytes 4 (int (length (Data c))) @ le_bytes 4 (VarRecLen c)"
  have sl: "go_slice (chCursor h) (chCursor h + 8 + 8 + chDataLen h) TG = Inr (cmd_buffer c)"
    by (rule go_slice_mid [of _ ?pre _ post]) (simp_all add: TG h' cmd_bytes_def cmd_buffer_def del: le_bytes.simps)
  have l: "\<not> length (cmd_buffer c) < 8" "\<not> length (cmd_buffer c) < 16"
    by (simp_all add: cmd_buffer_def)
  have pos: "WriteBufferToFileIndirect cd \<lparr>fdata = f, fpos = cfPos cfp\<rparr> (cmd_buffer c) (VarRecLen c) =
     WriteBufferToFileIndirect cd \<lparr>fdata = f, fpos = 0\<rparr> (cmd_buffer c) (VarRecLen c)"
    using indirect_pos [of "cmd_buffer c" cd "\<lparr>fdata = f, fpos = cfPos cfp\<rparr>"] Offset_wf [OF c] by simp
  show ?thesis
    unfolding replay_write_def f(1) option.case sl sum.case
    using f(2) l c pos
    by (auto simp: h' write_cmd_def cmd_wf_def split: prod.splits option.splits)
qed

lemma replay_commands_group:
  assumes "TG = pre @ concat (map cmd_bytes cs) @ post" "list_all cmd_wf cs" "group_runs cd root cs dsk"
  shows "replay_commands (length cs) cd root TG (int (length pre)) cfp dsk = (apply_group cd root cs dsk, None)"
  using assms
proof (induction cs arbitrary: pre cfp dsk)
  case Nil
  have "apply_group cd root [] dsk = dsk" by (auto simp: apply_group_def cmds_at_def fun_eq_iff split: option.splits)
  then show ?case by simp
next
  case (Cons c cs)
  let ?p = "cmd_path root c"
  from Cons.prems(3) obtain f g where g: "dsk ?p = Some f" "write_cmd cd c f = Inr g"
      "group_runs cd root cs (dsk(?p \<mapsto> g))" "apply_group cd root (c # cs) dsk = apply_group cd root cs (dsk(?p \<mapsto> g))"
    by (rule group_runs_Cons)
  have c: "cmd_wf c" and TG: "TG = pre @ cmd_bytes c @ (concat (map cmd_bytes cs) @ post)" using Cons.prems by simp_all
  define h where "h = \<lparr>chRecordType = RecordType c, chKeyPath = WALKeyPath c, chDataLen = int (length (Data c)),
      chVarRecLen = VarRecLen c, chCursor = int (length pre) + 11 + int (length (WALKeyPath c))\<rparr>"
  have h: "parse_head TG (int (length pre)) = Inr h" using parse_head_command [OF TG c] by (simp add: h_def)
  obtain cfp1 where fp: "GetFP dsk cfp ?p = Inr cfp1" "cfName cfp1 = ?p" using GetFP_exists [of dsk ?p f cfp] g(1) by auto
  obtain cfp2 where wr: "replay_write cd TG h cfp1 dsk = (dsk(?p \<mapsto> g), Inr cfp2)"
    using replay_write_command [OF TG c _ g(2) h, of dsk cfp1] g(1) fp(2) by auto
  have cur: "chCursor h + 8 + 8 + chDataLen h = int (length (pre @ cmd_bytes c))"
    by (simp add: h_def length_cmd_bytes)
  have key: "Join root (chKeyPath h) = ?p" by (simp add: h_def cmd_path_def)
  have "replay_commands (length cs) cd root TG (int (length (pre @ cmd_bytes c))) cfp2 (dsk(?p \<mapsto> g)) =
      (apply_group cd root cs (dsk(?p \<mapsto> g)), None)"
    by (rule Cons.IH) (use Cons.prems(2) TG in simp, use Cons.prems(2) in simp, rule g(3))
  then show ?case using h fp wr g(4) key by (simp only: length_Cons replay_commands.simps sum.case prod.case cur)
qed

section \<open>Lemmas: flushing a group\<close>

lemma write_cmd_fixed:
  assumes "RecordType c = FIXED" "inside (length f) (fixed_write (cmd_buffer c))"
  shows "write_cmd cd c f = Inr (write_all f [fixed_write (cmd_buffer c)])"
  using plain.loop_writes_all [of f "[fixed_write (cmd_buffer c)]"] assms
  by (auto simp: write_cmd_def WriteBufferToFile_def fixed_write_def Let_def split: prod.splits option.splits)

lemma run_file_fixed:
  assumes "list_all (\<lambda>c. RecordType c = FIXED \<and> inside (length f) (fixed_write (cmd_buffer c))) cs"
  shows "run_file cd cs f = Inr (write_all f (map fixed_write (map cmd_buffer cs)))"
  using assms
proof (induction cs arbitrary: f)
  case (Cons c cs)
  let ?g = "write_all f [fixed_write (cmd_buffer c)]"
  have len: "length ?g = length f" using Cons.prems by (intro length_write_all) simp
  have "run_file cd cs ?g = Inr (write_all ?g (map fixed_write (map cmd_buffer cs)))"
    by (rule Cons.IH, unfold len) (use Cons.prems in simp)
  moreover have "write_cmd cd c f = Inr ?g" using Cons.prems by (intro write_cmd_fixed) simp_all
  ultimately show ?case by (simp add: write_all_def)
qed simp

lemma for_writes_indirect:
  assumes "list_all (\<lambda>c. RecordType c = VARIABLE \<and> VarRecLen c = v \<and> cmd_wf c) cs"
  shows "case for_writes (\<lambda>fl b. WriteBufferToFileIndirect cd fl b v) fl (map cmd_buffer cs) of
      (fl', ws, None) \<Rightarrow> run_file cd cs (fdata fl) = Inr (fdata fl')
    | (fl', ws, Some e) \<Rightarrow> run_file cd cs (fdata fl) = Inl e"
  using assms
proof (induction cs arbitrary: fl)
  case (Cons c cs)
  obtain fl1 b err where w: "WriteBufferToFileIndirect cd fl (cmd_buffer c) v = (fl1, b, err)"
    by (metis prod_cases3)
  then have "WriteBufferToFileIndirect cd \<lparr>fdata = fdata fl, fpos = 0\<rparr> (cmd_buffer c) v = (fl1, b, err)"
    using Cons.prems indirect_pos [of "cmd_buffer c" cd fl v] Offset_wf [of c] by simp
  then have "write_cmd cd c (fdata fl) = (case err of None \<Rightarrow> Inr (fdata fl1) | Some e \<Rightarrow> Inl e)"
    using Cons.prems by (auto simp: write_cmd_def split: option.splits)
  with Cons.IH [of fl1] Cons.prems w show ?case
    by (cases err) (auto split: prod.splits option.splits)
qed simp

text \<open>One file of the group, written by \<^verbatim>\<open>writePrimary\<close>.\<close>

definition file_cmds_ok :: "WriteCommand list \<Rightarrow> bytes \<Rightarrow> bool" where
  "file_cmds_ok cs f \<longleftrightarrow> list_all cmd_wf cs \<and>
     (\<forall>c \<in> set cs. \<forall>d \<in> set cs. RecordType c = RecordType d \<and> VarRecLen c = VarRecLen d) \<and>
     (\<forall>c \<in> set cs. RecordType c = FIXED \<longrightarrow> inside (length f) (fixed_write (cmd_buffer c)))"

lemma writePrimary_runs:
  fixes cd
  assumes ok: "file_cmds_ok cs f" "cs \<noteq> []" and f: "dsk (Join root k) = Some f"
  defines "res \<equiv> writePrimary cd root dsk k (map cmd_buffer cs) (RecordType (hd cs)) (VarRecLen (hd cs))"
  shows "case run_file cd cs f of
      Inr g \<Rightarrow> (\<exists>ws. res = (dsk(Join root k \<mapsto> g), ws, None))
    | Inl e \<Rightarrow> (\<exists>d ws. res = (d, ws, Some e))"
proof (cases "RecordType (hd cs) = FIXED")
  case True
  have fx: "list_all (\<lambda>c. RecordType c = FIXED \<and> inside (length f) (fixed_write (cmd_buffer c))) cs"
    unfolding list_all_iff
  proof
    fix c
    assume c: "c \<in> set cs"
    then have "RecordType c = RecordType (hd cs)" "RecordType c = FIXED \<Longrightarrow> inside (length f) (fixed_write (cmd_buffer c))"
      using ok(1) hd_in_set [OF ok(2)] unfolding file_cmds_ok_def by blast+
    then show "RecordType c = FIXED \<and> inside (length f) (fixed_write (cmd_buffer c))" using True by simp
  qed
  then have "list_all (inside (length f)) (map fixed_write (map cmd_buffer cs))"
    by (simp add: list_all_iff)
  from writePrimary_FIXED [of dsk root k f _ cd "VarRecLen (hd cs)", OF f this] run_file_fixed [OF fx, of cd] True
  show ?thesis by (simp add: res_def)
next
  case False
  then have v: "RecordType (hd cs) = VARIABLE"
    using ok(1) hd_in_set [OF ok(2)] unfolding file_cmds_ok_def list_all_iff cmd_wf_def by blast
  have "list_all (\<lambda>c. RecordType c = VARIABLE \<and> VarRecLen c = VarRecLen (hd cs) \<and> cmd_wf c) cs"
    unfolding list_all_iff
  proof
    fix c
    assume c: "c \<in> set cs"
    then have "RecordType c = RecordType (hd cs) \<and> VarRecLen c = VarRecLen (hd cs)" "cmd_wf c"
      using ok(1) hd_in_set [OF ok(2)] unfolding file_cmds_ok_def list_all_iff by blast+
    then show "RecordType c = VARIABLE \<and> VarRecLen c = VarRecLen (hd cs) \<and> cmd_wf c" using v by simp
  qed
  from for_writes_indirect [OF this, of cd "\<lparr>fdata = f, fpos = 0\<rparr>"] v f
  show ?thesis
    by (auto simp: res_def writePrimary_def split: prod.splits option.splits)
qed

text \<open>The loop over the files: each file of the list gets its commands, the others stay.\<close>

lemma flush_files_runs:
  assumes "distinct keys" "inj_on (Join root) (set keys)"
    and "\<forall>k \<in> set keys. keyed k cs \<noteq> [] \<and> (\<exists>f. dsk (Join root k) = Some f \<and> file_cmds_ok (keyed k cs) f)"
    and "flush_files inst root (serialize_group t cs) keys dsk m = (dsk', m', None)"
  shows "(\<forall>k \<in> set keys. \<exists>f g. dsk (Join root k) = Some f \<and> run_file (compression inst) (keyed k cs) f = Inr g \<and>
      dsk' (Join root k) = Some g) \<and> (\<forall>p. p \<notin> Join root ` set keys \<longrightarrow> dsk' p = dsk p)"
  using assms
proof (induction keys arbitrary: dsk m)
  case (Cons k keys)
  let ?cd = "compression inst" and ?p = "Join root k"
  obtain f where f: "dsk ?p = Some f" "file_cmds_ok (keyed k cs) f" "keyed k cs \<noteq> []" using Cons.prems(3) by auto
  let ?res = "writePrimary ?cd root dsk k (map cmd_buffer (keyed k cs)) (RecordType (hd (keyed k cs))) (VarRecLen (hd (keyed k cs)))"
  note wp = writePrimary_runs [OF f(2,3), of dsk root k ?cd, OF f(1)]
  obtain g ws where g: "run_file ?cd (keyed k cs) f = Inr g" "?res = (dsk(?p \<mapsto> g), ws, None)"
    using wp Cons.prems(4) by (auto simp: serialize_group_maps [OF f(3)] split: sum.splits)
  have other: "Join root j \<noteq> ?p" if "j \<in> set keys" for j
    using Cons.prems(1,2) that by (auto simp: inj_on_def)
  have "\<exists>m1. flush_files inst root (serialize_group t cs) keys (dsk(?p \<mapsto> g)) m1 = (dsk', m', None)"
    using Cons.prems(4) g(2) by (auto simp: serialize_group_maps [OF f(3)])
  then obtain m1 where m1: "flush_files inst root (serialize_group t cs) keys (dsk(?p \<mapsto> g)) m1 = (dsk', m', None)" by blast
  have IH: "(\<forall>j \<in> set keys. \<exists>f g'. (dsk(?p \<mapsto> g)) (Join root j) = Some f \<and> run_file ?cd (keyed j cs) f = Inr g' \<and>
      dsk' (Join root j) = Some g') \<and> (\<forall>p. p \<notin> Join root ` set keys \<longrightarrow> dsk' p = (dsk(?p \<mapsto> g)) p)"
    using Cons.prems other by (intro Cons.IH [OF _ _ _ m1]) (auto simp: inj_on_def)
  have "?p \<notin> Join root ` set keys" using other by (metis imageE)
  with IH have "dsk' ?p = Some g" by auto
  with IH f g other show ?case by auto
qed simp

end
