(* ===== verification/Live.thy ===== *)
theory Live
  imports TxnGroups
begin

text \<open>
  The running server as a state machine: writers queue commands, the background writer flushes, checkpoints and rotates
  the log. The invariant says what the log holds at every moment: the groups it leaves to be replayed lead
  from the files on the physical medium to the files the processes see.
\<close>

section \<open>Admissible commands\<close>

text \<open>
  Keys and roots as the server makes them: a key is a relative path of plain elements, the root an absolute one. Then
  different keys are different files.
\<close>

definition plain_key :: "path \<Rightarrow> bool" where
  "plain_key k \<longleftrightarrow> list_all plain_elem (Split k ''/'')"

definition plain_root :: "path \<Rightarrow> bool" where
  "plain_root r \<longleftrightarrow> path_elems r \<noteq> [] \<and> list_all plain_elem (path_elems r) \<and> r = abs_path (path_elems r)"

lemma Join_plain:
  assumes "plain_root r" "plain_key k"
  shows "Join r k = abs_path (path_elems r @ Split k ''/'')"
proof -
  have "Join (abs_path (path_elems r)) (join_with ''/'' (Split k ''/'')) = abs_path (path_elems r @ Split k ''/'')"
    using assms by (intro Join_abs) (auto simp: plain_root_def plain_key_def)
  then show ?thesis using assms by (simp add: plain_root_def)
qed

lemma Join_inj:
  assumes "plain_root r" "plain_key k" "plain_key j" "Join r k = Join r j"
  shows "k = j"
proof -
  have "list_all plain_elem (path_elems r @ Split k ''/'')" "list_all plain_elem (path_elems r @ Split j ''/'')"
    using assms by (auto simp: plain_root_def plain_key_def)
  then have "path_elems r @ Split k ''/'' = path_elems r @ Split j ''/''"
    using assms by (intro abs_path_inj) (simp_all add: Join_plain)
  then have "join_with ''/'' (Split k ''/'') = join_with ''/'' (Split j ''/'')" by simp
  then show ?thesis by simp
qed

text \<open>
  A command the writers queue: well formed, of the record type and length \<open>ft\<close> gives its file, for a file that exists, and
  inside it when the records are of fixed length (year files are created at their full size).
\<close>

definition cmd_ok :: "(path \<Rightarrow> int \<times> int) \<Rightarrow> path \<Rightarrow> disk \<Rightarrow> WriteCommand \<Rightarrow> bool" where
  "cmd_ok ft root dsk c \<longleftrightarrow> cmd_wf c \<and> plain_key (WALKeyPath c) \<and> (RecordType c, VarRecLen c) = ft (WALKeyPath c) \<and>
     (case dsk (cmd_path root c) of None \<Rightarrow> False
      | Some f \<Rightarrow> RecordType c = FIXED \<longrightarrow> inside (length f) (fixed_write (cmd_buffer c)))"

lemma cmd_okD: "cmd_ok ft root dsk c \<Longrightarrow> plain_key (WALKeyPath c)" "cmd_ok ft root dsk c \<Longrightarrow> cmd_wf c"
  by (simp_all add: cmd_ok_def)

lemma cmds_at_keyed:
  assumes "plain_root root" "list_all (cmd_ok ft root dsk) cs" "plain_key k"
  shows "cmds_at root (Join root k) cs = keyed k cs"
  unfolding cmds_at_def keyed_def
  using assms Join_inj [OF assms(1)] by (intro filter_cong) (auto simp: cmd_path_def list_all_iff dest: cmd_okD)

lemma keyed_file_ok:
  assumes "list_all (cmd_ok ft root dsk) cs" "k \<in> WALKeyPath ` set cs"
  shows "\<exists>f. dsk (Join root k) = Some f \<and> file_cmds_ok (keyed k cs) f" "keyed k cs \<noteq> []"
proof -
  have c: "cmd_ok ft root dsk c" if "c \<in> set (keyed k cs)" for c
    using assms(1) that by (simp add: list_all_iff keyed_def)
  show ne: "keyed k cs \<noteq> []" using assms(2) by (auto simp: keyed_def filter_empty_conv)
  have key: "WALKeyPath c = k" if "c \<in> set (keyed k cs)" for c using that by (simp add: keyed_def)
  obtain f where f: "dsk (Join root k) = Some f"
    using c [OF hd_in_set [OF ne]] key [OF hd_in_set [OF ne]]
    by (auto simp: cmd_ok_def cmd_path_def split: option.splits)
  have "file_cmds_ok (keyed k cs) f"
    unfolding file_cmds_ok_def list_all_iff
  proof (intro conjI ballI impI)
    fix c assume "c \<in> set (keyed k cs)"
    with c show "cmd_wf c" by (simp add: cmd_ok_def)
  next
    fix c d assume cd: "c \<in> set (keyed k cs)" "d \<in> set (keyed k cs)"
    have "(RecordType c, VarRecLen c) = (RecordType d, VarRecLen d)"
      using c [OF cd(1)] c [OF cd(2)] key [OF cd(1)] key [OF cd(2)] unfolding cmd_ok_def by metis
    then show "RecordType c = RecordType d" "VarRecLen c = VarRecLen d" by simp_all
  next
    fix c assume "c \<in> set (keyed k cs)" "RecordType c = FIXED"
    with c [of c] key [of c] f show "inside (length f) (fixed_write (cmd_buffer c))"
      by (simp add: cmd_ok_def cmd_path_def)
  qed
  with f show "\<exists>f. dsk (Join root k) = Some f \<and> file_cmds_ok (keyed k cs) f" by blast
qed

text \<open>A flush of admissible commands, in any order of the files, does what the group says.\<close>

definition is_order :: "(path list \<Rightarrow> path list) \<Rightarrow> bool" where
  "is_order order \<longleftrightarrow> (\<forall>ks. mset (order ks) = mset ks)"

lemma group_keys:
  fixes t cs order
  defines "keys \<equiv> order (map fst (writesPerFile (serialize_group t cs)))"
  assumes root: "plain_root root" and ok: "list_all (cmd_ok ft root dsk) cs" and ord: "is_order order"
  shows "distinct keys" "set keys = WALKeyPath ` set cs" "\<And>k. k \<in> set keys \<Longrightarrow> plain_key k" "inj_on (Join root) (set keys)"
    "\<forall>k \<in> set keys. keyed k cs \<noteq> [] \<and> (\<exists>f. dsk (Join root k) = Some f \<and> file_cmds_ok (keyed k cs) f)"
proof -
  have mk: "mset keys = mset (map fst (writesPerFile (serialize_group t cs)))" using ord by (simp add: is_order_def keys_def)
  show "distinct keys" and keys: "set keys = WALKeyPath ` set cs"
    using mset_eq_imp_distinct_iff [OF mk] mset_eq_setD [OF mk] serialize_group_keys [of t cs] by simp_all
  show pk: "plain_key k" if "k \<in> set keys" for k
  proof -
    from that obtain c where c: "c \<in> set cs" "k = WALKeyPath c" using keys by auto
    from ok c(1) have "cmd_ok ft root dsk c" by (simp add: list_all_iff)
    then show ?thesis unfolding c(2) by (rule cmd_okD)
  qed
  show "inj_on (Join root) (set keys)"
    using Join_inj [OF root] pk by (auto simp: inj_on_def)
  show "\<forall>k \<in> set keys. keyed k cs \<noteq> [] \<and> (\<exists>f. dsk (Join root k) = Some f \<and> file_cmds_ok (keyed k cs) f)"
    unfolding keys
  proof
    fix k assume k: "k \<in> WALKeyPath ` set cs"
    show "keyed k cs \<noteq> [] \<and> (\<exists>f. dsk (Join root k) = Some f \<and> file_cmds_ok (keyed k cs) f)"
      using keyed_file_ok(1) [OF ok k] keyed_file_ok(2) [OF ok k] by (rule conjI [rotated])
  qed
qed

lemma flush_files_group:
  fixes t cs
  defines "g \<equiv> serialize_group t cs"
  assumes root: "plain_root root" and ok: "list_all (cmd_ok ft root dsk) cs" and ord: "is_order order"
    and fl: "flush_files inst root g (order (map fst (writesPerFile g))) dsk m = (dsk', m', None)"
  shows "dsk' = apply_group (compression inst) root cs dsk \<and> group_runs (compression inst) root cs dsk"
proof -
  let ?keys = "order (map fst (writesPerFile g))" and ?cd = "compression inst"
  note gk = group_keys [OF root ok ord, where t = t, folded g_def]
  have keys: "distinct ?keys" "set ?keys = WALKeyPath ` set cs" and inj: "inj_on (Join root) (set ?keys)"
    and files: "\<forall>k \<in> set ?keys. keyed k cs \<noteq> [] \<and> (\<exists>f. dsk (Join root k) = Some f \<and> file_cmds_ok (keyed k cs) f)"
    by (fact gk)+
  have pk: "plain_key k" if "k \<in> WALKeyPath ` set cs" for k using gk(3) that unfolding gk(2) by blast
  have "flush_files inst root (serialize_group t cs) ?keys dsk m = (dsk', m', None)" using fl by (simp add: g_def)
  from flush_files_runs [OF keys(1) inj files this]
  have res: "\<And>k. k \<in> WALKeyPath ` set cs \<Longrightarrow> \<exists>f h. dsk (Join root k) = Some f \<and> run_file ?cd (keyed k cs) f = Inr h \<and>
      dsk' (Join root k) = Some h"
    and rest: "\<And>p. p \<notin> Join root ` WALKeyPath ` set cs \<Longrightarrow> dsk' p = dsk p"
    unfolding keys(2) by blast+
  have "dsk' p = apply_group ?cd root cs dsk p" for p
  proof (cases "p \<in> Join root ` WALKeyPath ` set cs")
    case True
    then obtain k where k: "p = Join root k" "k \<in> WALKeyPath ` set cs" by blast
    then show ?thesis using res [OF k(2)] cmds_at_keyed [OF root ok pk [OF k(2)]] by (auto simp: apply_group_def)
  next
    case False
    then have "cmds_at root p cs = []" by (auto simp: cmds_at_def filter_empty_conv cmd_path_def)
    then show ?thesis using rest [OF False] by (auto simp: apply_group_def split: option.splits)
  qed
  moreover have "group_runs ?cd root cs dsk"
    unfolding group_runs_def
  proof
    fix c assume "c \<in> set cs"
    then have k: "WALKeyPath c \<in> WALKeyPath ` set cs" by simp
    then show "case dsk (cmd_path root c) of None \<Rightarrow> False
      | Some f \<Rightarrow> is_ok (run_file ?cd (cmds_at root (cmd_path root c) cs) f)"
      using res [OF k] cmds_at_keyed [OF root ok pk [OF k]] by (auto simp: cmd_path_def)
  qed
  ultimately show ?thesis by auto
qed

text \<open>Applying a group keeps commands admissible: files do not go away, and those of fixed-length records keep their length.\<close>

lemma apply_group_length:
  assumes root: "plain_root root" and ok: "list_all (cmd_ok ft root dsk) cs" "cmd_ok ft root dsk c" and c: "RecordType c = FIXED"
    and f: "dsk (cmd_path root c) = Some f" "apply_group cd root cs dsk (cmd_path root c) = Some g"
  shows "length g = length f"
proof -
  let ?p = "cmd_path root c" and ?ks = "keyed (WALKeyPath c) cs"
  have at: "cmds_at root ?p cs = ?ks"
    using cmds_at_keyed [OF root ok(1) cmd_okD(1) [OF ok(2)]] by (simp add: cmd_path_def)
  have "list_all (\<lambda>k. RecordType k = FIXED \<and> inside (length f) (fixed_write (cmd_buffer k))) ?ks"
    unfolding list_all_iff
  proof
    fix k assume "k \<in> set ?ks"
    then have k: "cmd_ok ft root dsk k" "WALKeyPath k = WALKeyPath c" using ok(1) by (simp_all add: list_all_iff keyed_def)
    then have "(RecordType k, VarRecLen k) = (RecordType c, VarRecLen c)" using ok(2) unfolding cmd_ok_def by metis
    then have "RecordType k = FIXED" using c by simp
    with k f(1) show "RecordType k = FIXED \<and> inside (length f) (fixed_write (cmd_buffer k))"
      by (simp add: cmd_ok_def cmd_path_def)
  qed
  then have l: "list_all (inside (length f)) (map fixed_write (map cmd_buffer ?ks))"
    and r: "run_file cd ?ks f = Inr (write_all f (map fixed_write (map cmd_buffer ?ks)))"
    using run_file_fixed [of f ?ks cd] by (simp_all add: list_all_iff)
  have "g = write_all f (map fixed_write (map cmd_buffer ?ks))" using f at r by (simp add: apply_group_def)
  then show ?thesis using length_write_all [OF l] by simp
qed

lemma apply_group_exists: "(apply_group cd root cs dsk p = None) = (dsk p = None)"
  by (auto simp: apply_group_def split: option.splits sum.splits)

lemma cmd_ok_stable:
  assumes "plain_root root" "list_all (cmd_ok ft root dsk) cs" "cmd_ok ft root dsk c"
  shows "cmd_ok ft root (apply_group cd root cs dsk) c"
proof -
  obtain f where f: "dsk (cmd_path root c) = Some f" using assms(3) by (auto simp: cmd_ok_def split: option.splits)
  then obtain g where g: "apply_group cd root cs dsk (cmd_path root c) = Some g"
    using apply_group_exists [of cd root cs dsk "cmd_path root c"] by auto
  show ?thesis using assms(3) apply_group_length [OF assms _ f g] f g by (auto simp: cmd_ok_def)
qed

lemma cmds_ok_stable:
  assumes "plain_root root" "list_all (cmd_ok ft root dsk) cs" "list_all (cmd_ok ft root dsk) ds"
  shows "list_all (cmd_ok ft root (apply_group cd root cs dsk)) ds"
  using assms cmd_ok_stable by (simp add: list_all_iff)

section \<open>The invariant\<close>

text \<open>Groups applied one after the other lead from one disk to another.\<close>

fun groups_run :: "codec option \<Rightarrow> path \<Rightarrow> WriteCommand list list \<Rightarrow> disk \<Rightarrow> disk \<Rightarrow> bool" where
  "groups_run cd root [] d d' = (d' = d)"
| "groups_run cd root (cs # gs) d d' = (group_runs cd root cs d \<and> groups_run cd root gs (apply_group cd root cs d) d')"

lemma groups_run_snoc:
  "groups_run cd root gs d d1 \<Longrightarrow> group_runs cd root cs d1 \<Longrightarrow> groups_run cd root (gs @ [cs]) d (apply_group cd root cs d1)"
  by (induction gs arbitrary: d) auto

definition group_data :: "(int \<times> WriteCommand list) list \<Rightarrow> (int \<times> bytes option) list" where
  "group_data gs = map (\<lambda>(i, cs). (i, Some (group_bytes i cs))) gs"

text \<open>The log with messages \<open>ms\<close> behind the header \<open>hd\<close>, which leaves the groups \<open>gs\<close> to be replayed.\<close>

definition log_holds :: "message list \<Rightarrow> (int \<times> WriteCommand list) list \<Rightarrow> int \<Rightarrow> bool" where
  "log_holds ms gs bound \<longleftrightarrow> list_all msg_ok ms \<and> distinct (group_ids ms) \<and>
     (\<forall>i \<in> set (group_ids ms). 0 < i \<and> i < bound) \<and>
     pending ms = group_data gs \<and> sorted_wrt (<) (map fst gs) \<and> set (map fst gs) \<subseteq> set (group_ids ms) \<and>
     (\<forall>(i, cs) \<in> set gs. list_all cmd_wf cs \<and> cs \<noteq> [] \<and> int (length cs) < 2 ^ 63)"

definition live_inv :: "InstanceMetadata \<Rightarrow> (path \<Rightarrow> int \<times> int) \<Rightarrow> path \<Rightarrow> cache_state \<Rightarrow> message list
    \<Rightarrow> (int \<times> WriteCommand list) list \<Rightarrow> bool" where
  "live_inv inst ft root st ms gs \<longleftrightarrow>
     log_in (wal st) (MStatus OPEN NOTREPLAYED (InstanceID inst) # ms) \<and> RootPath (wal st) = root \<and>
     lastCommittedTGID (wal st) = (if gs = [] then 0 else fst (last gs)) \<and>
     groups_run (compression inst) root (map snd gs) (synced (store st)) (primary (store st)) \<and>
     (\<forall>cs \<in> set (map snd gs). list_all (cmd_ok ft root (primary (store st))) cs) \<and>
     (case pipe st of None \<Rightarrow> False
      | Some tgc \<Rightarrow> log_holds ms gs (tgID tgc) \<and> 0 < tgID tgc \<and> tgID tgc < 2 ^ 63 \<and>
          length (writeChannel tgc) \<le> WriteChannelCommandDepth \<and>
          list_all (cmd_ok ft root (primary (store st))) (writeChannel tgc))"

section \<open>Preservation\<close>

lemma ToInt64_group [simp]: "0 < i \<Longrightarrow> i < 2 ^ 63 \<Longrightarrow> ToInt64 (group_bytes i cs) = i"
  by (simp add: group_bytes_def go_int)

lemma length_group_bytes: "length (group_bytes i cs) = 16 + sum_list (map (\<lambda>c. length (cmd_bytes c)) cs)"
  by (simp add: group_bytes_def length_concat comp_def)

lemma group_msg_ok:
  assumes "list_all cmd_wf cs" "length cs \<le> WriteChannelCommandDepth"
  shows "msg_ok (MGroup (group_bytes i cs))"
proof -
  have "length (cmd_bytes c) \<le> 2 ^ 32" if "c \<in> set cs" for c
    using assms(1) that by (auto simp: list_all_iff length_cmd_bytes cmd_wf_def)
  then have "sum_list (map (\<lambda>c. length (cmd_bytes c)) cs) \<le> sum_list (map (\<lambda>_. 2 ^ 32) cs)"
    by (intro sum_list_mono) auto
  also have "\<dots> = length cs * 2 ^ 32" by (simp add: sum_list_triv)
  also have "\<dots> \<le> 1000000 * 2 ^ 32" using assms(2) by (simp add: WriteChannelCommandDepth_def)
  finally show ?thesis by (simp add: length_group_bytes)
qed

lemma pending_append: "pending (ms @ ns) = fold pend_step ns (pending ms)"
  by (simp add: pending_def)

lemma group_ids_append [simp]: "group_ids (ms @ ns) = group_ids ms @ group_ids ns"
  by (simp add: group_ids_def)

lemma group_ids_simps [simp]:
  "group_ids (MTxn t d x # ms) = group_ids ms" "group_ids (MStatus a b c # ms) = group_ids ms"
  "group_ids (MGroup TG # ms) = ToInt64 TG # group_ids ms" "group_ids [] = []"
  by (simp_all add: group_ids_def)

lemma update_new: "k \<notin> fst ` set xs \<Longrightarrow> AList.update k v xs = xs @ [(k, v)]"
  by (induction xs) auto

lemma fst_group_data [simp]: "map fst (group_data gs) = map fst gs" "fst ` set (group_data gs) = fst ` set gs"
  by (force simp: group_data_def)+

lemma group_data_snoc:
  "i \<notin> fst ` set gs \<Longrightarrow> AList.update i (Some (group_bytes i cs)) (group_data gs) = group_data (gs @ [(i, cs)])"
  by (simp add: update_new) (simp add: group_data_def)

text \<open>A committed group goes to the end of the log and of the groups it leaves to be replayed.\<close>

lemma log_holds_commit:
  assumes h: "log_holds ms gs i" and i: "0 < i" "i < 2 ^ 63" "i < j"
    and cs: "list_all cmd_wf cs" "cs \<noteq> []" "length cs \<le> WriteChannelCommandDepth"
  shows "log_holds (ms @ [MTxn i WAL PREPARING, MGroup (group_bytes i cs), MTxn i WAL COMMITCOMPLETE]) (gs @ [(i, cs)]) j"
proof -
  have ids: "\<forall>k \<in> fst ` set gs. k < i" using h by (auto simp: log_holds_def)
  have "i = to_int64 i" using i by (simp add: go_int)
  moreover have "fold pend_step [MTxn i WAL PREPARING, MGroup (group_bytes i cs), MTxn i WAL COMMITCOMPLETE] (group_data gs)
      = group_data (gs @ [(i, cs)])"
    using i ids group_data_snoc [of i gs cs] by auto
  moreover have "sorted_wrt (<) (map fst (gs @ [(i, cs)]))"
    using h ids by (auto simp: log_holds_def sorted_wrt_append)
  moreover have "int (length cs) < 2 ^ 63" using cs(3) by (simp add: WriteChannelCommandDepth_def)
  ultimately show ?thesis
    using h i cs group_msg_ok [OF cs(1,3)] unfolding log_holds_def pending_append
    by (auto simp del: msg_ok.simps(3) fold.simps)
qed

text \<open>A complete checkpoint of the last group leaves nothing to be replayed.\<close>

lemma log_holds_checkpoint:
  assumes h: "log_holds ms gs b" "gs \<noteq> []" and t: "t = fst (last gs)" and b: "b \<le> 2 ^ 63"
  shows "log_holds (ms @ [MTxn t CHECKPOINT PREPARING, MTxn t CHECKPOINT COMMITCOMPLETE]) [] b"
proof -
  have tin: "t \<in> fst ` set gs" using t h(2) by (simp add: image_iff) (use last_in_set in blast)
  then have "t \<in> set (group_ids ms)" using h(1) by (auto simp: log_holds_def)
  then have "0 < t" "t < b" using h(1) unfolding log_holds_def by blast+
  then have "t = to_int64 t" using b by (simp add: go_int)
  moreover have le: "i \<le> t" if "i \<in> fst ` set gs" for i
  proof -
    have gs: "map fst gs = map fst (butlast gs) @ [t]"
      using arg_cong [OF append_butlast_last_id [OF h(2)], of "map fst", symmetric] unfolding t by simp
    then have "\<forall>k \<in> set (map fst (butlast gs)). k < t"
      using h(1) by (auto simp: log_holds_def sorted_wrt_append)
    moreover have "i \<in> set (map fst (butlast gs) @ [t])" using that unfolding gs [symmetric] by simp
    ultimately show ?thesis by auto
  qed
  moreover have "map_of (group_data gs) t \<noteq> None" using tin by (simp add: map_of_eq_None_iff)
  moreover have "filter (\<lambda>(i, _). \<not> i \<le> t) (group_data gs) = []"
    using le by (fastforce simp: filter_empty_conv group_data_def image_iff)
  ultimately show ?thesis using h(1)
    unfolding log_holds_def pending_append by (auto simp: group_data_def)
qed

lemma NewTGID_sel [simp]:
  "0 \<le> tgID tgc \<Longrightarrow> tgID tgc < 2 ^ 63 \<Longrightarrow> 0 \<le> now \<Longrightarrow> now < 2 ^ 63 \<Longrightarrow> tgID (NewTGID now tgc) = now"
  "writeChannel (NewTGID now tgc) = writeChannel tgc" "flushChannel (NewTGID now tgc) = flushChannel tgc"
  by (simp_all add: NewTGID_def go_int)

lemma dispatchRecords_sel [simp]:
  "wal (dispatchRecords order st) = wal st" "pipe (dispatchRecords order st) = pipe st"
  "store (dispatchRecords order st) = store st"
  by (simp_all add: dispatchRecords_def)

lemma CanWrite_log:
  assumes "log_in w (MStatus OPEN NOTREPLAYED (InstanceID inst) # ms)" "InstanceID inst = to_int64 (InstanceID inst)"
  obtains w' where "CanWrite inst w = (Inr True, w')" "log_in w' (MStatus OPEN NOTREPLAYED (InstanceID inst) # ms)"
    "RootPath w' = RootPath w" "lastCommittedTGID w' = lastCommittedTGID w"
proof -
  have d: "fdOpen w" "fdata (FilePtr w) = msg_bytes (MStatus OPEN NOTREPLAYED (InstanceID inst)) @ log_bytes ms"
    using assms(1) by (simp_all add: log_in_def)
  define w' where "w' = w\<lparr>FilePtr := \<lparr>fdata = fdata (FilePtr w), fpos = length (fdata (FilePtr w))\<rparr>,
    FileStatus := OPEN, ReplayState := NOTREPLAYED, OwningInstanceID := InstanceID inst\<rparr>"
  have "syncStatusRead w = (None, w')"
    using syncStatusRead_log [OF d] assms(2) by (simp add: w'_def go_int)
  moreover have "isActive inst w'"
    using d by (simp add: w'_def isActive_def IsOpen_def callerOwnsFile_def)
  moreover have "log_in w' (MStatus OPEN NOTREPLAYED (InstanceID inst) # ms)"
    using assms(1) by (simp add: w'_def log_in_def del: msg_bytes.simps)
  ultimately show ?thesis by (intro that [of w']) (simp_all add: CanWrite_def w'_def)
qed

lemma flush_commands_inv:
  assumes inv: "live_inv inst ft root st ms gs" and root: "plain_root root" and ord: "is_order order"
    and byp: "\<not> WALBypass inst" and tgc: "pipe st = Some tgc" "writeChannel tgc \<noteq> []"
    and now: "tgID tgc < now" "now < 2 ^ 63"
    and w: "log_in w (MStatus OPEN NOTREPLAYED (InstanceID inst) # ms)" "RootPath w = root"
    and fl: "flush_commands inst order now tgc (st\<lparr>wal := WriteTransactionInfo (TGID tgc) WAL PREPARING w\<rparr>) = (st', None)"
  shows "\<exists>ms' gs'. live_inv inst ft root st' ms' gs' \<and> map snd gs' = map snd gs @ [writeChannel tgc]"
proof -
  let ?cs = "writeChannel tgc" and ?i = "tgID tgc" and ?hd = "MStatus OPEN NOTREPLAYED (InstanceID inst)"
  let ?ms = "ms @ [MTxn ?i WAL PREPARING, MGroup (group_bytes ?i ?cs), MTxn ?i WAL COMMITCOMPLETE]"
  have h: "log_holds ms gs ?i" and i: "0 < ?i" "?i < 2 ^ 63" and depth: "length ?cs \<le> WriteChannelCommandDepth"
    and ok: "list_all (cmd_ok ft root (primary (store st))) ?cs"
    and gr: "groups_run (compression inst) root (map snd gs) (synced (store st)) (primary (store st))"
    and old: "\<forall>cs \<in> set (map snd gs). list_all (cmd_ok ft root (primary (store st))) cs"
    using inv tgc(1) by (simp_all add: live_inv_def)
  have wf: "list_all cmd_wf ?cs" using ok cmd_okD(2) by (metis list.pred_mono_strong)
  define w1 where "w1 = WriteTransactionInfo ?i WAL PREPARING w"
  define w2 where "w2 = WriteTransactionInfo ?i WAL COMMITCOMPLETE (log_group (group_bytes ?i ?cs) w1)"
  have l1: "log_in w1 (?hd # ms @ [MTxn ?i WAL PREPARING])" and r1: "RootPath w1 = root"
    using WriteTransactionInfo_append [OF w(1)] log_in_append [OF w(1)] w(2) by (simp_all add: w1_def)
  have lg: "log_group (group_bytes ?i ?cs) w1 = append_msg (MGroup (group_bytes ?i ?cs)) w1"
    by (rule log_group_append [OF l1])
  have l2: "log_in w2 (?hd # ?ms)" and r2: "RootPath w2 = root"
    using WriteTransactionInfo_append [OF log_in_append [OF l1]] log_in_append [OF log_in_append [OF l1]] r1
    by (simp_all add: w2_def lg)
  define g where "g = serialize_group ?i ?cs"
  obtain dsk m where ff: "flush_files inst root g (order (map fst (writesPerFile g))) (primary (store st)) (written st) = (dsk, m, None)"
    and st': "st' = st\<lparr>wal := w2\<lparr>lastCommittedTGID := ?i\<rparr>, pipe := Some (NewTGID now (tgc\<lparr>writeChannel := []\<rparr>)),
        store := (store st)\<lparr>primary := dsk\<rparr>, written := m\<rparr>"
    using fl byp r2
    by (auto simp: flush_commands_def flush_log_def TGID_def Let_def serialize_group_TG w1_def w2_def g_def
        split: prod.splits)
  have ap: "dsk = apply_group (compression inst) root ?cs (primary (store st))"
      "group_runs (compression inst) root ?cs (primary (store st))"
    using flush_files_group [OF root ok ord ff [unfolded g_def]] by auto
  have "log_holds ?ms (gs @ [(?i, ?cs)]) now"
    using log_holds_commit [OF h i now(1) wf tgc(2) depth] .
  moreover have "groups_run (compression inst) root (map snd (gs @ [(?i, ?cs)])) (synced (store st)) dsk"
    using groups_run_snoc [OF gr ap(2)] ap(1) by simp
  moreover have "log_in (w2\<lparr>lastCommittedTGID := ?i\<rparr>) (?hd # ?ms)" using l2 by (simp add: log_in_def)
  moreover have "\<forall>cs \<in> set (map snd (gs @ [(?i, ?cs)])). list_all (cmd_ok ft root dsk) cs"
    using old ok cmds_ok_stable [OF root ok] unfolding ap(1) by auto
  ultimately have "live_inv inst ft root st' ?ms (gs @ [(?i, ?cs)])"
    using i now r2 by (simp add: live_inv_def st' NewTGID_def go_int)
  then show ?thesis by (intro exI [of _ ?ms] exI [of _ "gs @ [(?i, ?cs)]"]) simp
qed

text \<open>A flush commits the queued commands as one more group, or nothing when there are none.\<close>

lemma flush_inv:
  assumes inv: "live_inv inst ft root st ms gs" and root: "plain_root root" and ord: "is_order order"
    and inst: "\<not> WALBypass inst" "InstanceID inst = to_int64 (InstanceID inst)"
    and tgc: "pipe st = Some tgc" and now: "tgID tgc < now" "now < 2 ^ 63"
    and fl: "flushToWAL inst order now st = (st', None)"
  shows "\<exists>ms' gs'. live_inv inst ft root st' ms' gs' \<and>
    map snd gs' = map snd gs @ (if writeChannel tgc = [] then [] else [writeChannel tgc])"
proof -
  obtain st1 where st1: "flush_pipe inst order now st = (st1, None)" "st' = dispatchRecords order st1"
    using fl by (auto simp: flushToWAL_def split: prod.splits)
  have disp: "live_inv inst ft root st' ms' gs' = live_inv inst ft root st1 ms' gs'" for ms' gs'
    by (simp only: live_inv_def st1(2) dispatchRecords_sel)
  show ?thesis
  proof (cases "writeChannel tgc = []")
    case True
    have "st1 = st\<lparr>pipe := Some (NewTGID now tgc)\<rparr>" using st1(1) tgc True by (simp add: flush_pipe_def)
    moreover have "log_holds ms gs now" if "log_holds ms gs (tgID tgc)"
      using that now unfolding log_holds_def by force
    ultimately have "live_inv inst ft root st1 ms gs"
      using inv tgc now by (auto simp: live_inv_def)
    then show ?thesis using True disp by auto
  next
    case False
    have l: "log_in (wal st) (MStatus OPEN NOTREPLAYED (InstanceID inst) # ms)" "RootPath (wal st) = root"
      using inv by (simp_all add: live_inv_def)
    obtain w where w: "CanWrite inst (wal st) = (Inr True, w)" "log_in w (MStatus OPEN NOTREPLAYED (InstanceID inst) # ms)"
        "RootPath w = RootPath (wal st)"
      using CanWrite_log [OF l(1) inst(2)] by metis
    then have "flush_commands inst order now tgc (st\<lparr>wal := WriteTransactionInfo (TGID tgc) WAL PREPARING w\<rparr>) = (st1, None)"
      using st1(1) tgc False inst(1) by (simp add: flush_pipe_def)
    from flush_commands_inv [OF inv root ord inst(1) tgc False now w(2) _ this] w(3) l(2) False disp
    show ?thesis by auto
  qed
qed

lemma checkpoint_inv:
  assumes inv: "live_inv inst ft root st ms gs" and byp: "\<not> WALBypass inst"
    and cp: "createCheckpoint inst (wal st) (store st) = (w, s)"
  shows "\<exists>ms'. live_inv inst ft root (st\<lparr>wal := w, store := s\<rparr>) ms' [] \<and> primary s = primary (store st)"
proof (cases "gs = []")
  case True
  then have "w = wal st" "s = store st" using inv cp by (auto simp: live_inv_def createCheckpoint_def)
  then show ?thesis using inv True by (intro exI [of _ ms]) (simp add: live_inv_def)
next
  case False
  let ?t = "lastCommittedTGID (wal st)" and ?hd = "MStatus OPEN NOTREPLAYED (InstanceID inst)"
  let ?ms = "ms @ [MTxn ?t CHECKPOINT PREPARING, MTxn ?t CHECKPOINT COMMITCOMPLETE]"
  obtain tgc where tgc: "pipe st = Some tgc" "log_holds ms gs (tgID tgc)" "tgID tgc < 2 ^ 63"
    using inv by (auto simp: live_inv_def split: option.splits)
  have l: "log_in (wal st) (?hd # ms)" and t: "?t = fst (last gs)"
    using inv False by (simp_all add: live_inv_def)
  have ho: "log_holds ?ms [] (tgID tgc)"
    using log_holds_checkpoint [OF tgc(2) False t] tgc(3) by simp
  have "?t \<in> fst ` set gs" using t False last_in_set by fastforce
  then have "?t \<in> set (group_ids ms)" using tgc(2) by (auto simp: log_holds_def)
  then have t0: "?t \<noteq> 0" using tgc(2) by (auto simp: log_holds_def)
  define w1 where "w1 = append_msg (MTxn ?t CHECKPOINT PREPARING) (wal st)"
  define w2 where "w2 = append_msg (MTxn ?t CHECKPOINT COMMITCOMPLETE) w1"
  have l1: "log_in w1 (?hd # ms @ [MTxn ?t CHECKPOINT PREPARING])" using log_in_append [OF l] by (simp add: w1_def)
  have l2: "log_in w2 (?hd # ?ms)" using log_in_append [OF l1] by (simp add: w2_def)
  have ws: "w = w2\<lparr>lastCommittedTGID := 0\<rparr>" "s = Syncfs (store st)"
    using cp t0 byp WriteTransactionInfo_append [OF l] WriteTransactionInfo_append [OF l1]
    by (simp_all add: createCheckpoint_def Let_def w1_def w2_def)
  have "log_in w (?hd # ?ms)" "RootPath w = RootPath (wal st)"
    using l2 by (simp_all add: ws log_in_def w2_def w1_def)
  then show ?thesis
    using inv tgc ho by (intro exI [of _ ?ms]) (simp add: live_inv_def ws Syncfs_def)
qed

lemma rotate_inv:
  assumes inv: "live_inv inst ft root st ms []"
  shows "live_inv inst ft root (st\<lparr>wal := rotate_wal inst (wal st)\<rparr>) [] []"
proof -
  let ?new = "msg_bytes (MStatus OPEN NOTREPLAYED (InstanceID inst))"
  have "write_at [] 0 ?new = ?new" by (simp add: write_at_def)
  then have "log_in (rotate_wal inst (wal st)) [MStatus OPEN NOTREPLAYED (InstanceID inst)]"
    using inv by (simp add: live_inv_def log_in_def rotate_wal_def WriteStatus_def Let_def fd_truncate_def fd_seek_def fd_write_def
        Write_def fd_seek_end_def SeekEnd_def initMessage_eq del: le_bytes.simps)
  moreover have "RootPath (fd_truncate w) = RootPath w" "lastCommittedTGID (fd_truncate w) = lastCommittedTGID w" for w
    by (simp_all add: fd_truncate_def)
  moreover have "log_holds [] [] b" for b by (simp add: log_holds_def pending_def group_data_def)
  ultimately show ?thesis
    using inv by (auto simp: live_inv_def rotate_wal_def split: option.splits)
qed

section \<open>The state machine\<close>

text \<open>
  The steps of the running server: a writer queues an admissible command while the channel has room, a client asks the
  background writer for a flush, or the background writer handles one of its events. The clock runs.
\<close>

inductive live_step :: "InstanceMetadata \<Rightarrow> (path \<Rightarrow> int \<times> int) \<Rightarrow> path \<Rightarrow> int \<Rightarrow> sync_state \<Rightarrow> sync_state \<Rightarrow> bool"
  for inst ft root walRotateInterval where
  queue: "pipe (cache s) = Some tgc \<Longrightarrow> length (writeChannel tgc) < WriteChannelCommandDepth \<Longrightarrow>
    cmd_ok ft root (primary (store (cache s))) c \<Longrightarrow>
    live_step inst ft root walRotateInterval s
      (s\<lparr>cache := (cache s)\<lparr>pipe := Some (tgc\<lparr>writeChannel := writeChannel tgc @ [c]\<rparr>)\<rparr>\<rparr>)"
| request: "haveWALWriter s \<Longrightarrow>
    live_step inst ft root walRotateInterval s (RequestFlush inst order now f s)"
| event: "pipe (cache s) = Some tgc \<Longrightarrow> tgID tgc < now \<Longrightarrow> now < 2 ^ 63 \<Longrightarrow> is_order order \<Longrightarrow>
    sync_event_step inst order walRotateInterval now ev s = Inr s' \<Longrightarrow>
    live_step inst ft root walRotateInterval s s'"

text \<open>The pending groups of a state, if it satisfies the invariant.\<close>

definition live_ok :: "InstanceMetadata \<Rightarrow> (path \<Rightarrow> int \<times> int) \<Rightarrow> path \<Rightarrow> sync_state \<Rightarrow> bool" where
  "live_ok inst ft root s \<longleftrightarrow> (\<exists>ms gs. live_inv inst ft root (cache s) ms gs)"

lemma fatal_flush_ok:
  assumes "live_ok inst ft root s" "plain_root root" "is_order order" "\<not> WALBypass inst" "InstanceID inst = to_int64 (InstanceID inst)"
    and "pipe (cache s) = Some tgc" "tgID tgc < now" "now < 2 ^ 63" "fatal_flush inst order now s = Inr s'"
  shows "live_ok inst ft root s'"
proof -
  obtain st where st: "flushToWAL inst order now (cache s) = (st, None)" "s' = s\<lparr>cache := st\<rparr>"
    using assms(9) by (auto simp: fatal_flush_def split: prod.splits option.splits)
  from assms(1) obtain ms gs where "live_inv inst ft root (cache s) ms gs" by (auto simp: live_ok_def)
  from flush_inv [OF this assms(2-8) st(1)] show ?thesis by (auto simp: live_ok_def st(2))
qed

lemma live_inv_flushChannel:
  "pipe st = Some tgc \<Longrightarrow> live_inv inst ft root (st\<lparr>pipe := Some (tgc\<lparr>flushChannel := fs\<rparr>)\<rparr>) ms gs = live_inv inst ft root st ms gs"
  by (simp add: live_inv_def)

text \<open>After a checkpoint, with or without a rotation of the log, there is nothing left to be replayed.\<close>

lemma tick_primary_clean:
  assumes ok: "live_ok inst ft root s" and byp: "\<not> WALBypass inst"
    and ev: "sync_event_step inst order rot now TickPrimary s = Inr s'"
  shows "\<exists>ms. live_inv inst ft root (cache s') ms [] \<and> primary (store (cache s')) = primary (store (cache s))"
proof -
  obtain ms gs where inv: "live_inv inst ft root (cache s) ms gs" using ok by (auto simp: live_ok_def)
  obtain w str where cp: "createCheckpoint inst (wal (cache s)) (store (cache s)) = (w, str)" by fastforce
  obtain ms' where inv': "live_inv inst ft root ((cache s)\<lparr>wal := w, store := str\<rparr>) ms' []"
      "primary str = primary (store (cache s))"
    using checkpoint_inv [OF inv byp cp] by blast
  have rot: "live_inv inst ft root ((cache s)\<lparr>wal := rotate_wal inst w, store := str\<rparr>) [] []"
    using rotate_inv [OF inv'(1)] by (cases "cache s") simp
  have "cache s' = (cache s)\<lparr>wal := rotate_wal inst w, store := str\<rparr> \<or> cache s' = (cache s)\<lparr>wal := w, store := str\<rparr>"
    using ev cp by (cases "cache s") (auto simp: sync_event_step_def Let_def split: if_splits)
  then show ?thesis
  proof
    assume s': "cache s' = (cache s)\<lparr>wal := rotate_wal inst w, store := str\<rparr>"
    show ?thesis unfolding s' using rot inv'(2) by (intro exI [of _ "[]"]) simp
  next
    assume s': "cache s' = (cache s)\<lparr>wal := w, store := str\<rparr>"
    show ?thesis unfolding s' using inv' by (intro exI [of _ ms']) simp
  qed
qed

lemma sync_event_ok:
  assumes ok: "live_ok inst ft root s" and side: "plain_root root" "is_order order" "\<not> WALBypass inst"
      "InstanceID inst = to_int64 (InstanceID inst)"
    and tgc: "pipe (cache s) = Some tgc" "tgID tgc < now" "now < 2 ^ 63"
    and ev: "sync_event_step inst order rot now ev s = Inr s'"
  shows "live_ok inst ft root s'"
proof (cases ev)
  case TickWAL
  then show ?thesis using ev fatal_flush_ok [OF ok side tgc] by (simp add: sync_event_step_def)
next
  case TickCheck
  then show ?thesis using ev ok fatal_flush_ok [OF ok side tgc] tgc(1)
    by (auto simp: sync_event_step_def split: if_splits)
next
  case FlushRequest
  show ?thesis
  proof (cases "flushChannel tgc")
    case Nil
    then show ?thesis using FlushRequest ev ok tgc(1) by (simp add: sync_event_step_def)
  next
    case (Cons f fs)
    let ?s = "s\<lparr>cache := (cache s)\<lparr>pipe := Some (tgc\<lparr>flushChannel := fs\<rparr>)\<rparr>\<rparr>"
    have "live_ok inst ft root ?s" using ok live_inv_flushChannel [OF tgc(1)] by (simp add: live_ok_def)
    moreover obtain s1 where s1: "fatal_flush inst order now ?s = Inr s1" "s' = s1\<lparr>answered := answered s1 @ [f]\<rparr>"
      using FlushRequest ev tgc(1) Cons by (auto simp: sync_event_step_def res_bind_Inr)
    ultimately have "live_ok inst ft root s1"
      using fatal_flush_ok [of inst ft root ?s order "tgc\<lparr>flushChannel := fs\<rparr>" now s1] side tgc by simp
    then show ?thesis by (simp add: s1(2) live_ok_def)
  qed
next
  case TickPrimary
  then show ?thesis using tick_primary_clean [of inst ft root s order rot now s'] ok side(3) ev by (auto simp: live_ok_def)
qed

text \<open>Every step keeps the invariant.\<close>

lemma live_step_ok:
  assumes "live_step inst ft root rot s s'" "live_ok inst ft root s" "plain_root root" "\<not> WALBypass inst"
    "InstanceID inst = to_int64 (InstanceID inst)"
  shows "live_ok inst ft root s'"
  using assms
proof (induction rule: live_step.induct)
  case (queue s tgc c)
  then show ?case by (auto simp: live_ok_def live_inv_def)
next
  case (request s order now f)
  then obtain ms gs where inv: "live_inv inst ft root (cache s) ms gs" by (auto simp: live_ok_def)
  show ?case
  proof (cases "pipe (cache s)")
    case None
    then show ?thesis using request by (simp add: RequestFlush_def)
  next
    case (Some tgc)
    then have "live_inv inst ft root ((cache s)\<lparr>pipe := Some (tgc\<lparr>flushChannel := [f]\<rparr>)\<rparr>) ms gs"
      using inv live_inv_flushChannel by blast
    then show ?thesis using request Some by (auto simp: RequestFlush_def live_ok_def)
  qed
next
  case (event s tgc now order ev s')
  then show ?case using sync_event_ok by blast
qed

end
