(* ===== verification/Recovery.thy ===== *)
theory Recovery
  imports Live
begin

text \<open>
  Crash recovery: the startup of a new process on the log and the primary files an earlier process left behind. After a
  crash the files hold what was last synchronized, and the log may end inside a message.
\<close>

section \<open>Replaying the groups of a log\<close>

text \<open>The header of the file and the position at its end.\<close>

definition at_end :: "WALFileType \<Rightarrow> message \<Rightarrow> bool" where
  "at_end w h \<longleftrightarrow> fdOpen w \<and> fpos (FilePtr w) = length (fdata (FilePtr w)) \<and> (\<exists>rest. fdata (FilePtr w) = msg_bytes h @ rest)"

lemma at_end_append: "at_end w h \<Longrightarrow> at_end (append_msg m w) h"
  by (auto simp: at_end_def simp del: msg_bytes.simps)

lemma WriteTransactionInfo_end: "at_end w h \<Longrightarrow> WriteTransactionInfo t d x w = append_msg (MTxn t d x) w"
  by (simp add: at_end_def WriteTransactionInfo_def write_wal_def fd_write_append initMessage_eq append_msg_def
      del: le_bytes.simps)

lemma createCheckpoint_end:
  assumes "at_end w h" "createCheckpoint inst w s = (w', s')"
  shows "at_end w' h \<and> RootPath w' = RootPath w \<and> FilePath w' = FilePath w \<and> primary s' = primary s \<and>
    (lastCommittedTGID w \<noteq> 0 \<longrightarrow> synced s' = primary s)"
proof -
  have "at_end (w\<lparr>lastCommittedTGID := i\<rparr>) h = at_end w h" for w i by (simp add: at_end_def)
  then show ?thesis
    using assms(2) at_end_append [OF assms(1)] at_end_append [OF at_end_append [OF assms(1)]] assms(1)
    by (auto simp: createCheckpoint_def Let_def Syncfs_def WriteTransactionInfo_end [of _ h] split: if_splits)
qed

lemma replayTGData_group:
  assumes w: "at_end w h" and cs: "list_all cmd_wf cs" "cs \<noteq> []" "int (length cs) < 2 ^ 63"
    and i: "0 < i" "i < 2 ^ 63" and run: "group_runs (compression inst) (RootPath w) cs (primary s)"
  obtains w' s' where "replayTGData inst (group_bytes i cs) w s = (w', s', None)" "at_end w' h" "RootPath w' = RootPath w"
    "FilePath w' = FilePath w"
    "primary s' = apply_group (compression inst) (RootPath w) cs (primary s)" "synced s' = primary s'"
proof -
  let ?TG = "group_bytes i cs" and ?pre = "le_bytes 8 i @ le_bytes 8 (int (length cs))"
  let ?d = "apply_group (compression inst) (RootPath w) cs (primary s)"
  have TG: "?TG = ?pre @ concat (map cmd_bytes cs) @ []" by (simp add: group_bytes_def)
  have sl: "go_slice 0 8 ?TG = Inr (le_bytes 8 i)" "go_slice 8 16 ?TG = Inr (le_bytes 8 (int (length cs)))"
    by (simp_all add: group_bytes_def)
  have n: "to_int64 (int (length cs)) = int (length cs)" "to_int64 i = i"
    using cs(3) i by (simp_all add: go_int)
  have rc: "replay_commands (length cs) (compression inst) (RootPath w) ?TG 16 NewCachedFP (primary s) = (?d, None)"
    using replay_commands_group [OF TG cs(1) run, of NewCachedFP] by simp
  have ae: "at_end (w\<lparr>lastCommittedTGID := i\<rparr>) h" using w by (simp add: at_end_def)
  obtain w' s' where cp: "createCheckpoint inst (w\<lparr>lastCommittedTGID := i\<rparr>) (s\<lparr>primary := ?d\<rparr>) = (w', s')" by fastforce
  have "replayTGData inst ?TG w s = (w', s', None)"
    using cs(2) rc cp by (simp add: replayTGData_def sl n Let_def)
  then show ?thesis
    using createCheckpoint_end [OF ae cp] i(1) by (intro that [of w' s']) simp_all
qed

lemma replay_groups_run:
  assumes "at_end w h" "RootPath w = root"
    and "\<forall>(i, cs) \<in> set gs. map_of tgs i = Some (Some (group_bytes i cs)) \<and> 0 < i \<and> i < 2 ^ 63 \<and>
      list_all cmd_wf cs \<and> cs \<noteq> [] \<and> int (length cs) < 2 ^ 63"
    and "groups_run (compression inst) root (map snd gs) (primary s) d"
  shows "\<exists>w' s'. replay_groups inst True tgs (map fst gs) w s = (w', s', None) \<and> at_end w' h \<and> FilePath w' = FilePath w \<and>
    primary s' = d \<and> (gs \<noteq> [] \<longrightarrow> synced s' = d)"
  using assms
proof (induction gs arbitrary: w s)
  case (Cons g gs)
  obtain i cs where g: "g = (i, cs)" by fastforce
  with Cons.prems(3) have i: "map_of tgs i = Some (Some (group_bytes i cs))" "0 < i" "i < 2 ^ 63"
    "list_all cmd_wf cs" "cs \<noteq> []" "int (length cs) < 2 ^ 63" by auto
  have run: "group_runs (compression inst) (RootPath w) cs (primary s)"
    "groups_run (compression inst) root (map snd gs) (apply_group (compression inst) root cs (primary s)) d"
    using Cons.prems(2,4) g by simp_all
  obtain w1 s1 where r: "replayTGData inst (group_bytes i cs) w s = (w1, s1, None)" "at_end w1 h" "RootPath w1 = RootPath w"
      "FilePath w1 = FilePath w"
      "primary s1 = apply_group (compression inst) (RootPath w) cs (primary s)" "synced s1 = primary s1"
    using replayTGData_group [OF Cons.prems(1) i(4,5,6,2,3) run(1)] .
  have "\<exists>w' s'. replay_groups inst True tgs (map fst gs) w1 s1 = (w', s', None) \<and> at_end w' h \<and> FilePath w' = FilePath w1 \<and>
      primary s' = d \<and> (gs \<noteq> [] \<longrightarrow> synced s' = d)"
    using Cons.prems(2,3) r run(2) by (intro Cons.IH) auto
  then show ?case using r g i run(2) Cons.prems(2) by (cases "gs = []") auto
qed simp

section \<open>\<^verbatim>\<open>Replay\<close>\<close>

lemma WriteStatus_header:
  assumes "fdOpen w" "fdata (FilePtr w) = msg_bytes (MStatus a b c) @ rest"
  shows "fdata (FilePtr (WriteStatus inst x y w)) = msg_bytes (MStatus x y (InstanceID inst)) @ rest"
    and "fpos (FilePtr (WriteStatus inst x y w)) = length (msg_bytes (MStatus x y (InstanceID inst)) @ rest)"
proof -
  let ?new = "msg_bytes (MStatus x y (InstanceID inst))"
  have "write_at (msg_bytes (MStatus a b c) @ rest) 0 ?new = ?new @ rest"
    using length_msg_bytes(1) by (simp add: write_at_inside del: msg_bytes.simps)
  with assms show "fdata (FilePtr (WriteStatus inst x y w)) = ?new @ rest"
    "fpos (FilePtr (WriteStatus inst x y w)) = length (?new @ rest)"
    by (simp_all add: WriteStatus_def Let_def fd_seek_def fd_write_def Write_def fd_seek_end_def SeekEnd_def
        initMessage_eq del: le_bytes.simps)
qed

lemma WriteStatus_at_end: "at_end w (MStatus a b c) \<Longrightarrow> at_end (WriteStatus inst x y w) (MStatus x y (InstanceID inst))"
  using WriteStatus_header [of w a b c] by (auto simp: at_end_def simp del: msg_bytes.simps)

lemma NeedsReplay_log:
  assumes "fdOpen w" "fdata (FilePtr w) = msg_bytes (MStatus a b c) @ rest" "a \<in> {OPEN, CLOSED}" "b \<in> {NOTREPLAYED, REPLAYED, REPLAYINPROCESS}"
  obtains w' where "NeedsReplay w = (Inr (b \<noteq> REPLAYED), w')" "fdOpen w'" "fdata (FilePtr w') = fdata (FilePtr w)"
    "fpos (FilePtr w') = length (fdata (FilePtr w))" "RootPath w' = RootPath w" "FilePath w' = FilePath w" "FileStatus w' = a" "ReplayState w' = b"
proof -
  have "to_int8 a = a" "to_int8 b = b" using assms(3,4) by (auto simp: go_int)
  with that show ?thesis
    using assms(1,4) syncStatusRead_log [OF assms(1,2)] by (auto simp: NeedsReplay_def)
qed

lemma sort_ids:
  assumes "sorted_wrt (<) (map fst gs)" "\<forall>i \<in> fst ` set gs. (0::int) < i"
  shows "sort (map fst (group_data gs)) = map fst gs"
    and "sort (map fst (AList.update 0 None (group_data gs))) = 0 # map fst gs"
proof -
  have s: "sorted (map fst gs)" using assms(1) by (simp add: strict_sorted_imp_sorted)
  then show "sort (map fst (group_data gs)) = map fst gs" by (simp add: sorted_sort_id)
  have "0 \<notin> fst ` set (group_data gs)" using assms(2) by (metis fst_group_data(2) less_irrefl)
  then have "map fst (AList.update 0 None (group_data gs)) = map fst gs @ [0]" by (simp add: update_new)
  moreover have "sort (map fst gs @ [0]) = 0 # map fst gs"
  proof (rule properties_for_sort)
    show "sorted (0 # map fst gs)" using s assms(2) by (auto simp: less_imp_le)
  qed simp
  ultimately show "sort (map fst (AList.update 0 None (group_data gs))) = 0 # map fst gs" by simp
qed

lemma map_of_group_data:
  assumes "sorted_wrt (<) (map fst gs)" "(i, cs) \<in> set gs"
  shows "map_of (group_data gs) i = Some (Some (group_bytes i cs))"
proof (rule map_of_is_SomeI)
  show "distinct (map fst (group_data gs))" using assms(1) by (simp add: strict_sorted_iff)
  show "(i, Some (group_bytes i cs)) \<in> set (group_data gs)" using assms(2) by (force simp: group_data_def)
qed

lemma log_holds_ids:
  assumes "log_holds ms gs b" "i \<in> fst ` set gs"
  shows "0 < i" "i < b"
proof -
  have "i \<in> set (group_ids ms)" using assms by (auto simp: log_holds_def)
  then show "0 < i" "i < b" using assms(1) unfolding log_holds_def by blast+
qed

text \<open>What \<^verbatim>\<open>Replay\<close> does to a log with groups to replay, with a torn tail, on files that the groups can be applied to.\<close>

lemma Replay_log:
  assumes w: "fdOpen w" "fdata (FilePtr w) = msg_bytes (MStatus OPEN NOTREPLAYED own) @ log_bytes ms @ torn" "RootPath w = root"
    and ho: "log_holds ms gs b" "b \<le> 2 ^ 63"
    and torn: "msg_ok m" "strict_prefix torn (msg_bytes m)" "torn_sane (11 + length (log_bytes ms) + length torn) torn m"
    and run: "groups_run (compression inst) root (map snd gs) (primary s) d"
  obtains w' s' where "Replay inst True w s = (w', s', None)" "at_end w' (MStatus OPEN REPLAYED (InstanceID inst))"
    "FilePath w' = FilePath w" "FileStatus w' = OPEN" "ReplayState w' = REPLAYED" "primary s' = d" "gs \<noteq> [] \<longrightarrow> synced s' = d"
proof -
  let ?h = "MStatus OPEN REPLAYINPROCESS (InstanceID inst)" and ?rest = "log_bytes ms @ torn"
  obtain w1 where w1: "NeedsReplay w = (Inr True, w1)" "fdOpen w1" "fdata (FilePtr w1) = fdata (FilePtr w)"
      "RootPath w1 = RootPath w" "FilePath w1 = FilePath w"
    by (rule NeedsReplay_log [OF w(1,2)]) auto
  define w2 where "w2 = fd_seek 0 (WriteStatus inst OPEN REPLAYINPROCESS w1)"
  have d2: "fdata (FilePtr w2) = msg_bytes ?h @ ?rest"
    using WriteStatus_header(1) [OF w1(2), of OPEN NOTREPLAYED own ?rest inst OPEN REPLAYINPROCESS] w(2) w1(2,3)
    by (simp add: w2_def fd_seek_def del: msg_bytes.simps)
  have o2: "fdOpen w2" "RootPath w2 = root" "FilePath w2 = FilePath w" "fpos (FilePtr w2) = 0"
    using w1 w(3) by (simp_all add: w2_def fd_seek_def)
  have ms: "list_all msg_ok (?h # ms)" "distinct (group_ids (?h # ms))" using ho(1) by (simp_all add: log_holds_def)
  have "rest_at w2 (log_bytes (?h # ms) @ torn)" using d2 o2 by (simp add: rest_at_def del: msg_bytes.simps)
  moreover have "torn_sane (length (fdata (FilePtr w2))) torn m" using torn(3) d2 by (simp add: ac_simps del: msg_bytes.simps)
  ultimately obtain sc where sc: "replay_scan (init_scan w2) = Inr sc"
      "scanned sc = skip (length (log_bytes (?h # ms) @ torn)) w2"
      "TGData sc \<in> {fold pend_step (?h # ms) [], AList.update 0 None (fold pend_step (?h # ms) [])}"
    using replay_scan_log [of "init_scan w2" "?h # ms" torn m] ms torn
    by (auto simp: init_scan_def simp del: msg_bytes.simps log_bytes_simps)
  have tg: "TGData sc \<in> {group_data gs, AList.update 0 None (group_data gs)}"
    using sc(3) ho(1) by (simp add: log_holds_def pending_def)
  have srt: "sorted_wrt (<) (map fst gs)" using ho(1) unfolding log_holds_def by blast
  have pos: "\<forall>i \<in> fst ` set gs. 0 < i \<and> i < 2 ^ 63"
    using log_holds_ids [OF ho(1)] ho(2) by (meson less_le_trans)
  have ae: "at_end (scanned sc) ?h" using sc(2) d2 o2 by (auto simp: at_end_def simp del: msg_bytes.simps)
  have cmds: "\<forall>(i, cs) \<in> set gs. map_of (TGData sc) i = Some (Some (group_bytes i cs)) \<and> 0 < i \<and> i < 2 ^ 63 \<and>
      list_all cmd_wf cs \<and> cs \<noteq> [] \<and> int (length cs) < 2 ^ 63"
  proof clarify
    fix i cs assume ics: "(i, cs) \<in> set gs"
    then have i: "0 < i" "i < 2 ^ 63" using pos by force+
    have "map_of (TGData sc) i = Some (Some (group_bytes i cs))"
      using tg map_of_group_data [OF srt ics] i by (auto simp: update_conv')
    moreover have "list_all cmd_wf cs \<and> cs \<noteq> [] \<and> int (length cs) < 2 ^ 63"
      using ho(1) ics unfolding log_holds_def by blast
    ultimately show "map_of (TGData sc) i = Some (Some (group_bytes i cs)) \<and> 0 < i \<and> i < 2 ^ 63 \<and>
      list_all cmd_wf cs \<and> cs \<noteq> [] \<and> int (length cs) < 2 ^ 63" using i by blast
  qed
  have "RootPath (scanned sc) = root" "FilePath (scanned sc) = FilePath w" using sc(2) o2 by (simp_all add: skip_def)
  with replay_groups_run [OF ae _ cmds run]
  obtain w' s' where r: "replay_groups inst True (TGData sc) (map fst gs) (scanned sc) s = (w', s', None)" "at_end w' ?h"
      "FilePath w' = FilePath w" "primary s' = d" "gs \<noteq> [] \<longrightarrow> synced s' = d" by auto
  have "replay_groups inst True (TGData sc) (sort (map fst (TGData sc))) (scanned sc) s = (w', s', None)"
    using tg r(1) sort_ids [OF srt] pos by (auto simp: update_conv')
  then have "Replay inst True w s = (WriteStatus inst OPEN REPLAYED w', s', None)"
    using w1(1) sc(1) by (simp add: Replay_def Let_def w2_def)
  then show ?thesis using that [of "WriteStatus inst OPEN REPLAYED w'" s'] r WriteStatus_at_end [OF r(2)] by simp
qed

section \<open>Startup\<close>

lemma Join_nonempty: "plain_root root \<Longrightarrow> plain_key k \<Longrightarrow> Join root k \<noteq> []"
  by (simp add: Join_plain abs_path_def)

lemma NewWALFile_takes_over:
  assumes "p \<noteq> []" "d p = Some (msg_bytes (MStatus a b own) @ rest)" "InstanceID inst \<noteq> 0" "to_int8 a = a" "to_int8 b = b"
  obtains w where "NewWALFile inst root p t d = Inr (w, d(p \<mapsto> fdata (FilePtr w)))" "fdOpen w"
    "fdata (FilePtr w) = msg_bytes (MStatus a b (InstanceID inst)) @ rest" "RootPath w = root" "FilePath w = p"
proof -
  define c0 where "c0 = msg_bytes (MStatus a b own) @ rest"
  define w0 where "w0 = new_wal\<lparr>RootPath := root, FilePath := p, FilePtr := \<lparr>fdata = c0, fpos = 0\<rparr>, fdOpen := True\<rparr>"
  have to: "takeOverFile inst root p d new_wal = (w0, d(p \<mapsto> c0), None)"
    using assms by (simp add: takeOverFile_def Open_def Let_def callerOwnsFile_def w0_def new_wal_def c0_def del: msg_bytes.simps)
  have w0: "fdOpen w0" "fdata (FilePtr w0) = msg_bytes (MStatus a b own) @ rest" "RootPath w0 = root" "FilePath w0 = p"
    by (simp_all add: w0_def c0_def del: msg_bytes.simps)
  define w1 where "w1 = w0\<lparr>FilePtr := \<lparr>fdata = fdata (FilePtr w0), fpos = length (fdata (FilePtr w0))\<rparr>\<rparr>"
  have rs: "readStatus w0 = (Inr (a, b, to_int64 own), w1)"
    using readStatus_log [OF w0(1,2)] assms(4,5) by (simp add: w1_def)
  let ?w = "WriteStatus inst a b w1"
  have w1: "fdOpen w1" "fdata (FilePtr w1) = msg_bytes (MStatus a b own) @ rest"
    using w0 by (simp_all add: w1_def del: msg_bytes.simps)
  show ?thesis
  proof (rule that)
    show "NewWALFile inst root p t d = Inr (?w, d(p \<mapsto> fdata (FilePtr ?w)))"
      using assms(1) to rs w0(4) by (simp add: NewWALFile_def Let_def w1_def)
    show "fdata (FilePtr ?w) = msg_bytes (MStatus a b (InstanceID inst)) @ rest"
      using WriteStatus_header(1) [OF w1] .
  qed (use w0 in \<open>simp_all add: w1_def\<close>)
qed

lemma CanDeleteSafely_replayed:
  assumes "at_end w (MStatus OPEN REPLAYED own)"
  obtains w' where "CanDeleteSafely inst w = (Inr True, w')" "at_end w' (MStatus OPEN REPLAYED own)"
    "FilePath w' = FilePath w" "FileStatus w' = OPEN" "ReplayState w' = REPLAYED"
proof -
  obtain rest where w: "fdOpen w" "fdata (FilePtr w) = msg_bytes (MStatus OPEN REPLAYED own) @ rest"
    using assms by (auto simp: at_end_def)
  define w1 where "w1 = w\<lparr>FilePtr := \<lparr>fdata = fdata (FilePtr w), fpos = length (fdata (FilePtr w))\<rparr>,
    FileStatus := OPEN, ReplayState := REPLAYED, OwningInstanceID := to_int64 own\<rparr>"
  have s1: "syncStatusRead w = (None, w1)" using syncStatusRead_log [OF w] by (simp add: w1_def go_int)
  have w1: "fdOpen w1" "fdata (FilePtr w1) = msg_bytes (MStatus OPEN REPLAYED own) @ rest" "FilePath w1 = FilePath w"
    using w by (simp_all add: w1_def del: msg_bytes.simps)
  obtain w2 where w2: "NeedsReplay w1 = (Inr (REPLAYED \<noteq> REPLAYED), w2)" "fdOpen w2" "fdata (FilePtr w2) = fdata (FilePtr w1)"
      "fpos (FilePtr w2) = length (fdata (FilePtr w1))" "FilePath w2 = FilePath w1" "FileStatus w2 = OPEN" "ReplayState w2 = REPLAYED"
    by (rule NeedsReplay_log [OF w1(1,2)]) auto
  have "\<not> isActive inst w1" by (simp add: isActive_def w1_def)
  then have "CanDeleteSafely inst w = (Inr True, w2)" using s1 w2(1) by (simp add: CanDeleteSafely_def)
  then show ?thesis using w1 w2 by (intro that) (auto simp: at_end_def simp del: msg_bytes.simps)
qed

lemma Delete_replayed:
  assumes w: "at_end w (MStatus OPEN REPLAYED own)" "FileStatus w = OPEN" "ReplayState w = REPLAYED" and d: "d (FilePath w) = Some c"
  shows "\<exists>w'. Delete inst w d = (w', d(FilePath w := None), None)"
proof -
  obtain rest where r: "fdOpen w" "fdata (FilePtr w) = msg_bytes (MStatus OPEN REPLAYED own) @ rest"
    using w by (auto simp: at_end_def)
  obtain w2 where w2: "NeedsReplay w = (Inr (REPLAYED \<noteq> REPLAYED), w2)" "FilePath w2 = FilePath w"
    by (rule NeedsReplay_log [OF r]) auto
  then show ?thesis using w r d by (simp add: Delete_def IsOpen_def isActive_def)
qed

lemma cleanup_file_log:
  assumes p: "Join root fn \<noteq> []" "d (Join root fn) = Some (msg_bytes (MStatus OPEN NOTREPLAYED own) @ log_bytes ms @ torn)"
    and inst: "InstanceID inst \<noteq> 0" and ho: "log_holds ms gs b" "b \<le> 2 ^ 63"
    and torn: "msg_ok m" "strict_prefix torn (msg_bytes m)" "torn_sane (11 + length (log_bytes ms) + length torn) torn m"
    and run: "groups_run (compression inst) root (map snd gs) (primary s) dsk"
  shows "\<exists>s'. cleanup_file inst root fn d s = (d(Join root fn := None), s', None) \<and> primary s' = dsk \<and>
    (gs \<noteq> [] \<longrightarrow> synced s' = dsk)"
proof -
  let ?p = "Join root fn"
  obtain w where w: "NewWALFile inst root ?p 0 d = Inr (w, d(?p \<mapsto> fdata (FilePtr w)))" "fdOpen w"
    "fdata (FilePtr w) = msg_bytes (MStatus OPEN NOTREPLAYED (InstanceID inst)) @ log_bytes ms @ torn" "RootPath w = root" "FilePath w = ?p"
    by (rule NewWALFile_takes_over [where p = ?p and d = d and own = own and rest = "log_bytes ms @ torn" and inst = inst
          and root = root and t = 0 and a = OPEN and b = NOTREPLAYED]) (use p inst in \<open>auto simp: go_int\<close>)
  obtain w1 s1 where r: "Replay inst True w s = (w1, s1, None)" "at_end w1 (MStatus OPEN REPLAYED (InstanceID inst))"
    "FilePath w1 = FilePath w" "primary s1 = dsk" "gs \<noteq> [] \<longrightarrow> synced s1 = dsk"
    using Replay_log [OF w(2,3,4) ho torn run] by metis
  obtain w2 where c: "CanDeleteSafely inst w1 = (Inr True, w2)" "at_end w2 (MStatus OPEN REPLAYED (InstanceID inst))"
    "FilePath w2 = FilePath w1" "FileStatus w2 = OPEN" "ReplayState w2 = REPLAYED"
    using CanDeleteSafely_replayed [OF r(2)] .
  obtain w3 where "Delete inst w2 (d(?p \<mapsto> fdata (FilePtr w))) = (w3, d(?p := None), None)"
    using Delete_replayed [OF c(2,4,5), of "d(?p \<mapsto> fdata (FilePtr w))" _ inst] c(3) r(3) w(5) by auto
  moreover have "\<not> length (msg_bytes (MStatus OPEN NOTREPLAYED own) @ log_bytes ms @ torn) < 11"
    by (simp del: msg_bytes.simps)
  ultimately show ?thesis
    using p(2) w(1) r c(1) unfolding cleanup_file_def Let_def by (simp del: msg_bytes.simps)
qed

section \<open>The start of a process\<close>

text \<open>A process that has just created its log and its pipe, on files that are all on the medium; the background writer runs.\<close>

definition start_state :: "InstanceMetadata \<Rightarrow> path \<Rightarrow> int \<Rightarrow> int \<Rightarrow> disk \<Rightarrow> sync_state" where
  "start_state inst root t0 t1 dsk =
     (let w = (case NewWALFile inst root [] t0 Map.empty of Inr (w, _) \<Rightarrow> w | Inl _ \<Rightarrow> new_wal)
      in \<lparr>cache = \<lparr>wal = w, pipe = Some (NewTransactionPipe t1), store = \<lparr>primary = dsk, synced = dsk\<rparr>,
            written = [], sent = []\<rparr>,
          haveWALWriter = True, primaryFlushCounter = 0, answered = []\<rparr>)"

lemma start_ok:
  assumes "0 < t1" "t1 < 2 ^ 63"
  shows "live_ok inst ft root (start_state inst root t0 t1 dsk)"
proof -
  let ?new = "msg_bytes (MStatus OPEN NOTREPLAYED (InstanceID inst))"
  define p where "p = Join root ''WALFile'' @ ''.'' @ Itoa t0 @ ''.walfile''"
  define w0 where "w0 = new_wal\<lparr>RootPath := root, FilePath := p, FilePtr := \<lparr>fdata = [], fpos = 0\<rparr>, fdOpen := True\<rparr>"
  have nw: "NewWALFile inst root [] t0 Map.empty = Inr (WriteStatus inst OPEN NOTREPLAYED w0,
      [p \<mapsto> fdata (FilePtr (WriteStatus inst OPEN NOTREPLAYED w0))])"
    by (simp add: NewWALFile_def createFile_def Open_def Let_def w0_def p_def)
  have "write_at [] 0 ?new = ?new" by (simp add: write_at_def)
  then have "log_in (WriteStatus inst OPEN NOTREPLAYED w0) [MStatus OPEN NOTREPLAYED (InstanceID inst)]"
    by (simp add: w0_def log_in_def WriteStatus_def Let_def fd_seek_def fd_write_def Write_def fd_seek_end_def SeekEnd_def
        initMessage_eq del: le_bytes.simps)
  moreover have "log_holds [] [] b" for b by (simp add: log_holds_def pending_def group_data_def)
  moreover have "tgID (NewTransactionPipe t1) = t1" "writeChannel (NewTransactionPipe t1) = []"
    using assms by (simp_all add: NewTransactionPipe_def)
  ultimately have "live_inv inst ft root (cache (start_state inst root t0 t1 dsk)) [] []"
    using assms by (simp add: live_inv_def start_state_def nw) (simp add: w0_def new_wal_def)
  then show ?thesis by (auto simp: live_ok_def)
qed

lemma reachable_ok:
  assumes "(live_step inst ft root rot)\<^sup>*\<^sup>* (start_state inst root t0 t1 dsk) s"
    and "plain_root root" "\<not> WALBypass inst" "InstanceID inst = to_int64 (InstanceID inst)" "0 < t1" "t1 < 2 ^ 63"
  shows "live_ok inst ft root s"
  using assms(1)
proof (induction rule: rtranclp_induct)
  case base
  show ?case using start_ok assms(5,6) .
next
  case (step y z)
  then show ?case using live_step_ok assms(2-4) by blast
qed

text \<open>The next start on the log of a state of the invariant, on files its groups can be applied to.\<close>

lemma live_recovers:
  assumes inv: "live_inv inst ft root st ms gs" and p: "plain_root root" "plain_key fn"
    and d: "d (Join root fn) = Some (fdata (FilePtr (wal st)) @ torn)"
    and torn: "msg_ok m" "strict_prefix torn (msg_bytes m)" "torn_sane (length (fdata (FilePtr (wal st))) + length torn) torn m"
    and inst2: "InstanceID inst2 \<noteq> 0"
    and run: "groups_run (compression inst2) root (map snd gs) (primary crashed) dsk"
  shows "\<exists>recovered. cleanup_file inst2 root fn d crashed = (d(Join root fn := None), recovered, None) \<and>
    primary recovered = dsk"
proof -
  obtain tgc where "pipe st = Some tgc" using inv by (auto simp: live_inv_def split: option.splits)
  with inv have ho: "log_holds ms gs (tgID tgc)" "tgID tgc \<le> 2 ^ 63" by (simp_all add: live_inv_def)
  have data: "fdata (FilePtr (wal st)) = msg_bytes (MStatus OPEN NOTREPLAYED (InstanceID inst)) @ log_bytes ms"
    using inv by (simp add: live_inv_def log_in_def)
  have "d (Join root fn) = Some (msg_bytes (MStatus OPEN NOTREPLAYED (InstanceID inst)) @ log_bytes ms @ torn)"
    using d data by (simp del: msg_bytes.simps)
  moreover have "torn_sane (11 + length (log_bytes ms) + length torn) torn m"
    using torn(3) data by (simp del: msg_bytes.simps)
  ultimately show ?thesis
    using cleanup_file_log [OF Join_nonempty [OF p] _ inst2 ho torn(1,2) _ run] by blast
qed

section \<open>Fixed-length records\<close>

text \<open>What a list of groups writes to one file of fixed-length records.\<close>

definition fixed_writes :: "path \<Rightarrow> WriteCommand list list \<Rightarrow> path \<Rightarrow> (int \<times> bytes) list" where
  "fixed_writes root gs p = concat (map (\<lambda>cs. map fixed_write (map cmd_buffer (cmds_at root p cs))) gs)"

definition all_fixed :: "path \<Rightarrow> WriteCommand list \<Rightarrow> disk \<Rightarrow> bool" where
  "all_fixed root cs dsk \<longleftrightarrow> (\<forall>c \<in> set cs. RecordType c = FIXED \<and>
     (case dsk (cmd_path root c) of None \<Rightarrow> False | Some f \<Rightarrow> inside (length f) (fixed_write (cmd_buffer c))))"

lemma fixed_group:
  assumes "all_fixed root cs dsk"
  shows "group_runs cd root cs dsk"
    and "apply_group cd root cs dsk = (\<lambda>p. map_option (\<lambda>f. write_all f (fixed_writes root [cs] p)) (dsk p))"
    and "dsk p = Some f \<Longrightarrow> list_all (inside (length f)) (fixed_writes root [cs] p)"
proof -
  have fx: "list_all (\<lambda>c. RecordType c = FIXED \<and> inside (length f) (fixed_write (cmd_buffer c))) (cmds_at root p cs)"
    if "dsk p = Some f" for p f
    unfolding list_all_iff
  proof
    fix c assume c: "c \<in> set (cmds_at root p cs)"
    then have "c \<in> set cs" "cmd_path root c = p" by (simp_all add: cmds_at_def)
    then show "RecordType c = FIXED \<and> inside (length f) (fixed_write (cmd_buffer c))"
      using assms that unfolding all_fixed_def by fastforce
  qed
  show "group_runs cd root cs dsk"
    unfolding group_runs_def
  proof
    fix c assume "c \<in> set cs"
    then obtain f where f: "dsk (cmd_path root c) = Some f" using assms by (fastforce simp: all_fixed_def split: option.splits)
    then show "case dsk (cmd_path root c) of None \<Rightarrow> False | Some f \<Rightarrow> is_ok (run_file cd (cmds_at root (cmd_path root c) cs) f)"
      using run_file_fixed [OF fx [OF f], of cd] by simp
  qed
  show "apply_group cd root cs dsk = (\<lambda>p. map_option (\<lambda>f. write_all f (fixed_writes root [cs] p)) (dsk p))"
    using run_file_fixed [OF fx] by (auto simp: apply_group_def fixed_writes_def fun_eq_iff split: option.splits)
  show "dsk p = Some f \<Longrightarrow> list_all (inside (length f)) (fixed_writes root [cs] p)"
    using fx [of p f] by (simp add: fixed_writes_def list_all_iff)
qed

lemma fixed_writes_Cons: "fixed_writes root (cs # gs) p = fixed_writes root [cs] p @ fixed_writes root gs p"
  by (simp add: fixed_writes_def)

lemma all_fixed_stable:
  assumes "all_fixed root cs dsk" "all_fixed root ds dsk"
  shows "all_fixed root ds (apply_group cd root cs dsk)"
  unfolding all_fixed_def
proof
  fix c assume "c \<in> set ds"
  then obtain f where f: "RecordType c = FIXED" "dsk (cmd_path root c) = Some f" "inside (length f) (fixed_write (cmd_buffer c))"
    using assms(2) by (fastforce simp: all_fixed_def split: option.splits)
  then show "RecordType c = FIXED \<and> (case apply_group cd root cs dsk (cmd_path root c) of None \<Rightarrow> False
      | Some f \<Rightarrow> inside (length f) (fixed_write (cmd_buffer c)))"
    using length_write_all [OF fixed_group(3) [OF assms(1) f(2)]] by (simp add: fixed_group(2) [OF assms(1)])
qed

lemma fixed_groups_run:
  assumes "\<forall>cs \<in> set gs. all_fixed root cs dsk"
  shows "groups_run cd root gs dsk (\<lambda>p. map_option (\<lambda>f. write_all f (fixed_writes root gs p)) (dsk p))"
    and "dsk p = Some f \<Longrightarrow> list_all (inside (length f)) (fixed_writes root gs p)"
proof -
  show "groups_run cd root gs dsk (\<lambda>p. map_option (\<lambda>f. write_all f (fixed_writes root gs p)) (dsk p))"
    using assms
  proof (induction gs arbitrary: dsk)
    case Nil
    then show ?case by (simp add: fixed_writes_def option.map_ident)
  next
    case (Cons cs gs)
    let ?d = "apply_group cd root cs dsk"
    have "\<forall>ds \<in> set gs. all_fixed root ds ?d" using Cons.prems all_fixed_stable by simp
    from Cons.IH [OF this] have "groups_run cd root gs ?d (\<lambda>p. map_option (\<lambda>f. write_all f (fixed_writes root (cs # gs) p)) (dsk p))"
      using Cons.prems by (simp add: fixed_group(2) option.map_comp comp_def fixed_writes_Cons [of root cs gs] write_all_append)
    then show ?case using fixed_group(1) Cons.prems by simp
  qed
  show "dsk p = Some f \<Longrightarrow> list_all (inside (length f)) (fixed_writes root gs p)"
    using assms fixed_group(3) by (fastforce simp: fixed_writes_def list_all_iff)
qed

lemma groups_run_fun: "groups_run cd root gs d e \<Longrightarrow> groups_run cd root gs d e' \<Longrightarrow> e = e'"
  by (induction gs arbitrary: d) auto

text \<open>Files in which each byte is the old or the new one.\<close>

definition mixed :: "disk \<Rightarrow> disk \<Rightarrow> disk \<Rightarrow> bool" where
  "mixed d old new \<longleftrightarrow> (\<forall>p. case (d p, old p, new p) of
      (None, None, None) \<Rightarrow> True
    | (Some g, Some f, Some h) \<Rightarrow> length g = length f \<and> length h = length f \<and> (\<forall>i < length f. g ! i = f ! i \<or> g ! i = h ! i)
    | _ \<Rightarrow> False)"

lemma mixedD:
  assumes "mixed d old new"
  shows "old p = None \<Longrightarrow> d p = None"
    and "old p = Some f \<Longrightarrow> \<exists>g h. d p = Some g \<and> new p = Some h \<and> length g = length f \<and> length h = length f \<and>
      (\<forall>i < length f. g ! i = f ! i \<or> g ! i = h ! i)"
    and "new p = Some h \<Longrightarrow> \<exists>f g. d p = Some g \<and> old p = Some f \<and> length g = length h \<and> length f = length h"
proof -
  have m: "case (d p, old p, new p) of
      (None, None, None) \<Rightarrow> True
    | (Some g, Some f, Some h) \<Rightarrow> length g = length f \<and> length h = length f \<and> (\<forall>i < length f. g ! i = f ! i \<or> g ! i = h ! i)
    | _ \<Rightarrow> False" using assms unfolding mixed_def by (rule spec)
  show "old p = None \<Longrightarrow> d p = None" using m by (cases "d p"; cases "new p") simp_all
  show "old p = Some f \<Longrightarrow> \<exists>g h. d p = Some g \<and> new p = Some h \<and> length g = length f \<and> length h = length f \<and>
      (\<forall>i < length f. g ! i = f ! i \<or> g ! i = h ! i)" using m by (cases "d p"; cases "new p") simp_all
  show "new p = Some h \<Longrightarrow> \<exists>f g. d p = Some g \<and> old p = Some f \<and> length g = length h \<and> length f = length h"
    using m by (cases "d p"; cases "old p") simp_all
qed

lemma cmd_ok_fixed:
  assumes "list_all (cmd_ok ft root new) cs" "\<forall>k. fst (ft k) = FIXED" "mixed d old new"
  shows "all_fixed root cs d" "all_fixed root cs old"
proof -
  have "RecordType c = FIXED \<and> (\<exists>f. new (cmd_path root c) = Some f \<and> inside (length f) (fixed_write (cmd_buffer c)))"
    if "c \<in> set cs" for c
  proof -
    have ok: "cmd_ok ft root new c" using assms(1) that by (simp add: list_all_iff)
    then have "RecordType c = FIXED" using assms(2) unfolding cmd_ok_def by (metis fst_conv)
    then show ?thesis using ok by (auto simp: cmd_ok_def split: option.splits)
  qed
  then have "RecordType c = FIXED \<and> (\<exists>f g. d (cmd_path root c) = Some g \<and> old (cmd_path root c) = Some f \<and>
      inside (length f) (fixed_write (cmd_buffer c)) \<and> inside (length g) (fixed_write (cmd_buffer c)))"
    if "c \<in> set cs" for c
    using that mixedD(3) [OF assms(3)] by metis
  then show "all_fixed root cs d" "all_fixed root cs old" unfolding all_fixed_def by fastforce+
qed

lemma mixed_run:
  assumes "groups_run cd root gs old new" "\<forall>cs \<in> set gs. list_all (cmd_ok ft root new) cs" "\<forall>k. fst (ft k) = FIXED" "mixed d old new"
  shows "groups_run cd' root gs d new"
proof -
  have fx: "\<forall>cs \<in> set gs. all_fixed root cs d" "\<forall>cs \<in> set gs. all_fixed root cs old"
    using cmd_ok_fixed [OF _ assms(3,4)] assms(2) by blast+
  have new: "new = (\<lambda>p. map_option (\<lambda>f. write_all f (fixed_writes root gs p)) (old p))"
    using groups_run_fun [OF assms(1) fixed_groups_run(1) [OF fx(2)]] .
  have "map_option (\<lambda>f. write_all f (fixed_writes root gs p)) (d p) = new p" for p
  proof (cases "old p")
    case None
    then have "d p = None" using mixedD(1) [OF assms(4)] by blast
    with None show ?thesis by (simp add: new)
  next
    case (Some f)
    then obtain g where g: "d p = Some g" "length g = length f"
      "\<forall>i < length f. g ! i = f ! i \<or> g ! i = write_all f (fixed_writes root gs p) ! i"
      using mixedD(2) [OF assms(4) Some] unfolding new by auto
    from write_all_mix [OF fixed_groups_run(2) [OF fx(2) Some] g(2,3)] Some g(1) show ?thesis by (simp add: new)
  qed
  then show ?thesis using fixed_groups_run(1) [OF fx(1), of cd'] by simp
qed

lemma tick_primary_returns: "rot \<noteq> 0 \<Longrightarrow> \<exists>s'. sync_event_step inst order rot now TickPrimary s = Inr s'"
  by (auto simp: sync_event_step_def Let_def split: prod.splits)

section \<open>Properties\<close>


definition exinst :: InstanceMetadata where
  "exinst = \<lparr>InstanceID = 7, WALBypass = False, compression = None\<rparr>"

definition excmd :: WriteCommand where
  "excmd = \<lparr>RecordType = 0, WALKeyPath = ''A'', VarRecLen = 0, wcOffset = 0, wcIndex = 1, Data = [1, 2]\<rparr>"

definition exdisk :: disk where
  "exdisk = [''/r/A'' \<mapsto> replicate 12 0]"

definition exqueued :: sync_state where
  "exqueued = (let s = start_state exinst ''/r'' 5 6 exdisk
     in s\<lparr>cache := (cache s)\<lparr>pipe := Some ((the (pipe (cache s)))\<lparr>writeChannel := [excmd]\<rparr>)\<rparr>\<rparr>)"

definition exflushed :: sync_state where
  "exflushed = (case sync_event_step exinst id 5 9 TickWAL exqueued of Inr s \<Rightarrow> s | Inl _ \<Rightarrow> exqueued)"

lemma exflush: "case sync_event_step exinst id 5 9 TickWAL exqueued of
    Inl _ \<Rightarrow> False
  | Inr s \<Rightarrow> (primary (store (cache s)) p, synced (store (cache s)) p) =
      (if p = ''/r/A'' then (Some [1, 0, 0, 0, 0, 0, 0, 0, 1, 2, 0, 0], Some [0, 0, 0, 0, 0, 0, 0, 0, 0, 0, 0, 0]) else (None, None))"
  by code_simp simp

text \<open>A run with one command and one flush.\<close>

lemma exqueue: "live_step exinst (\<lambda>_. (0, 0)) ''/r'' 5 (start_state exinst ''/r'' 5 6 exdisk) exqueued"
proof -
  define st where "st = start_state exinst ''/r'' 5 6 exdisk"
  have pipe: "pipe (cache st) = Some \<lparr>tgID = 6, writeChannel = [], flushChannel = []\<rparr>" unfolding st_def by code_simp
  have "cmd_wf excmd" by (simp add: cmd_wf_def excmd_def)
  moreover have "plain_key (WALKeyPath excmd)" "cmd_path ''/r'' excmd = ''/r/A''" "inside 12 (fixed_write (cmd_buffer excmd))"
    by code_simp+
  ultimately have "cmd_ok (\<lambda>_. (0, 0)) ''/r'' exdisk excmd" by (simp add: cmd_ok_def exdisk_def) (simp add: excmd_def)
  then have ok: "cmd_ok (\<lambda>_. (0, 0)) ''/r'' (primary (store (cache st))) excmd"
    by (simp add: st_def start_state_def)
  show ?thesis
    using live_step.queue [of st _ "\<lambda>_. (0, 0)" "''/r''" excmd exinst 5, OF pipe _ ok] pipe
    by (simp add: exqueued_def st_def Let_def WriteChannelCommandDepth_def)
qed

lemma exrun: "(live_step exinst (\<lambda>_. (0, 0)) ''/r'' 5)\<^sup>*\<^sup>* (start_state exinst ''/r'' 5 6 exdisk) exflushed"
proof -
  have "pipe (cache exqueued) = Some \<lparr>tgID = 6, writeChannel = [excmd], flushChannel = []\<rparr>" by code_simp
  then have "live_step exinst (\<lambda>_. (0, 0)) ''/r'' 5 exqueued s'" if "sync_event_step exinst id 5 9 TickWAL exqueued = Inr s'" for s'
    by (rule live_step.event [where now = 9 and order = id and ev = TickWAL]) (simp_all add: is_order_def that)
  moreover have "sync_event_step exinst id 5 9 TickWAL exqueued = Inr exflushed"
    using exflush by (cases "sync_event_step exinst id 5 9 TickWAL exqueued") (simp_all add: exflushed_def)
  ultimately show ?thesis using exqueue by (meson converse_rtranclp_into_rtranclp r_into_rtranclp)
qed

lemma exroot: "plain_root ''/r''" "plain_key ''w''" "InstanceID exinst = to_int64 (InstanceID exinst)"
    "\<not> WALBypass exinst" "InstanceID exinst \<noteq> 0"
  by code_simp+

lemma exmixed: "mixed (primary (store (cache exflushed))) (synced (store (cache exflushed))) (primary (store (cache exflushed)))"
proof -
  have "primary (store (cache exflushed)) p = (if p = ''/r/A'' then Some [1, 0, 0, 0, 0, 0, 0, 0, 1, 2, 0, 0] else None)"
      "synced (store (cache exflushed)) p = (if p = ''/r/A'' then Some [0, 0, 0, 0, 0, 0, 0, 0, 0, 0, 0, 0] else None)" for p
    using exflush [of p] by (cases "sync_event_step exinst id 5 9 TickWAL exqueued"; cases "p = ''/r/A''"; simp add: exflushed_def)+
  then show ?thesis by (simp add: mixed_def)
qed

lemma extorn: "msg_ok (MStatus 1 1 1)" "strict_prefix [] (msg_bytes (MStatus 1 1 1))" "torn_sane n [] (MStatus 1 1 1)"
  by (simp_all add: torn_sane_def)


text \<open>
  C2: crash recovery of files of fixed-length records, from any mixture. When all files have fixed-length records, the crash may leave
  the primary files in any state in which each byte is the last synchronized one or the one the process had in memory, as the
  operating system wrote some pages and not others; replay leaves the files the process had in memory. In particular
  replaying groups that are already on the medium changes nothing.
\<close>

theorem crash_recovery_mixed:
  assumes "(live_step inst ft root rot)\<^sup>*\<^sup>* (start_state inst root t0 t1 dsk) s" "\<forall>k. fst (ft k) = FIXED"
    and "plain_root root" "\<not> WALBypass inst" "InstanceID inst = to_int64 (InstanceID inst)" "0 < t1" "t1 < 2 ^ 63"
    and "plain_key fn" "d (Join root fn) = Some (fdata (FilePtr (wal (cache s))) @ torn)"
    and "msg_ok m" "strict_prefix torn (msg_bytes m)"
    and "torn_sane (length (fdata (FilePtr (wal (cache s)))) + length torn) torn m"
    and "InstanceID inst2 \<noteq> 0"
    and "mixed (primary crashed) (synced (store (cache s))) (primary (store (cache s)))"
  shows "\<exists>recovered. cleanup_file inst2 root fn d crashed = (d(Join root fn := None), recovered, None) \<and>
    primary recovered = primary (store (cache s))"
proof -
  obtain ms gs where inv: "live_inv inst ft root (cache s) ms gs"
    using reachable_ok [OF assms(1,3-7)] by (auto simp: live_ok_def)
  have "groups_run (compression inst2) root (map snd gs) (primary crashed) (primary (store (cache s)))"
  proof (rule mixed_run [OF _ _ assms(2,14)])
    show "groups_run (compression inst) root (map snd gs) (synced (store (cache s))) (primary (store (cache s)))"
      "\<forall>cs \<in> set (map snd gs). list_all (cmd_ok ft root (primary (store (cache s)))) cs"
      using inv by (simp_all add: live_inv_def)
  qed
  then show ?thesis using live_recovers [where d = d, OF inv assms(3,8-13)] by blast
qed

theorem crash_recovery_mixed_witness:
  "\<exists>recovered. cleanup_file exinst ''/r'' ''w'' [Join ''/r'' ''w'' \<mapsto> fdata (FilePtr (wal (cache exflushed)))] (store (cache exflushed)) =
      ([Join ''/r'' ''w'' \<mapsto> fdata (FilePtr (wal (cache exflushed)))](Join ''/r'' ''w'' := None), recovered, None) \<and>
    primary recovered = primary (store (cache exflushed))"
  by (rule crash_recovery_mixed [OF exrun _ exroot(1,4,3) _ _ exroot(2) _ extorn exroot(5)])
    (simp_all add: exmixed)

text \<open>
  C9: a checkpoint ends the need to replay. After the checkpoint event of the background writer, with or without rotation of the log,
  the next start finds a log that changes nothing: whatever the primary files hold then, they are left as they are, and the log is removed.
\<close>

theorem checkpoint_stops_replay:
  assumes "(live_step inst ft root rot)\<^sup>*\<^sup>* (start_state inst root t0 t1 dsk) s"
    and "sync_event_step inst order rot now TickPrimary s = Inr s'"
    and "plain_root root" "\<not> WALBypass inst" "InstanceID inst = to_int64 (InstanceID inst)" "0 < t1" "t1 < 2 ^ 63"
    and "plain_key fn" "d (Join root fn) = Some (fdata (FilePtr (wal (cache s'))))" "InstanceID inst2 \<noteq> 0"
  shows "synced (store (cache s')) = primary (store (cache s)) \<and>
    (\<exists>recovered. cleanup_file inst2 root fn d found = (d(Join root fn := None), recovered, None) \<and>
      primary recovered = primary found)"
proof -
  obtain ms where inv: "live_inv inst ft root (cache s') ms []" "primary (store (cache s')) = primary (store (cache s))"
    using tick_primary_clean [OF reachable_ok [OF assms(1,3-7)] assms(4,2)] by blast
  have "groups_run (compression inst2) root (map snd []) (primary found) (primary found)" by simp
  from live_recovers [where d = d and torn = "[]" and fn = fn, OF inv(1) assms(3,8) _ extorn assms(10) this] assms(9) inv
  show ?thesis by (simp add: live_inv_def)
qed

theorem checkpoint_stops_replay_witness:
  "synced (store (cache (projr (sync_event_step exinst id 5 10 TickPrimary exflushed)))) = primary (store (cache exflushed))"
proof -
  obtain s' where s': "sync_event_step exinst id 5 10 TickPrimary exflushed = Inr s'"
    using tick_primary_returns [of 5 exinst id 10 exflushed] by auto
  from checkpoint_stops_replay [OF exrun s' exroot(1,4,3) _ _ exroot(2), of "[Join ''/r'' ''w'' \<mapsto> fdata (FilePtr (wal (cache s')))]" exinst]
  show ?thesis using s' exroot(5) by simp
qed

end
