(* ===== verification/Faults.thy ===== *)
theory Faults
  imports Recovery
begin

text \<open>
  Where recovery falls short: states a crash can leave behind in which the next start does not come up, or comes up with
  variable-length data written twice.
\<close>

section \<open>Lemmas\<close>

text \<open>Reading over complete messages brings the first pass to what follows them.\<close>

lemma replay_scan_over:
  assumes "rest_at (scanned s) (log_bytes ms @ rest)" "list_all msg_ok ms" "distinct (group_ids ms)"
    and "\<forall>i \<in> set (group_ids ms). map_of (offsetTGDataInWAL s) i = None"
  shows "\<exists>s'. replay_scan s = replay_scan s' \<and> rest_at (scanned s') rest \<and>
    fdata (FilePtr (scanned s')) = fdata (FilePtr (scanned s))"
  using assms
proof (induction ms arbitrary: s)
  case (Cons k ms)
  have k: "rest_at (scanned s) (msg_bytes k @ log_bytes ms @ rest)"
    using Cons.prems(1) by (simp del: msg_bytes.simps)
  obtain s1 where s1: "scan_message s = Inr (s1, True)" "scanned s1 = skip (length (msg_bytes k)) (scanned s)"
    "dom (map_of (offsetTGDataInWAL s1)) = set (group_id k) \<union> dom (map_of (offsetTGDataInWAL s))"
    using scan_message_full [OF k] Cons.prems by (auto simp: group_ids_def simp del: msg_bytes.simps)
  have "\<forall>i \<in> set (group_ids ms). map_of (offsetTGDataInWAL s1) i = None"
    using Cons.prems(3,4) s1(3) by (auto simp: group_ids_def)
  moreover have "rest_at (scanned s1) (log_bytes ms @ rest)" using rest_at_skip [OF k] s1(2) by simp
  moreover have "distinct (group_ids ms)" using Cons.prems(3) by (simp add: group_ids_def)
  ultimately obtain s' where "replay_scan s1 = replay_scan s'" "rest_at (scanned s') rest"
      "fdata (FilePtr (scanned s')) = fdata (FilePtr (scanned s1))"
    using Cons.IH [of s1] Cons.prems(2) by auto
  then show ?case using s1 by (subst replay_scan.simps) auto
qed auto

text \<open>A group of which only the length has arrived, with a length the size check refuses.\<close>

lemma scan_insane_length:
  assumes w: "rest_at (scanned s) (le_bytes 1 TGDATA @ le_bytes 8 (int n))"
    and n: "1000 * length (fdata (FilePtr (scanned s))) \<le> n" "int n < 2 ^ 63"
  shows "replay_scan s = Inl (Fatal ''Uncorrectable IO error in WAL Replay'')"
proof -
  have id: "readMessageID (scanned s) = (Inr TGDATA, skip 1 (scanned s))"
    using readMessageID_full [OF w] by simp
  have w1: "rest_at (skip 1 (scanned s)) (le_bytes 8 (int n) @ [])"
    using rest_at_skip [OF w] by (simp del: le_bytes.simps)
  have "read_wal 8 (skip 1 (scanned s)) = (le_bytes 8 (int n), None, skip 8 (skip 1 (scanned s)))"
    using read_wal_full [OF w1] by simp
  moreover have "\<not> sanityCheckValue (skip 8 (skip 1 (scanned s))) (int n)"
    using n(1) by (simp add: sanityCheckValue_def)
  moreover have "to_int64 (int n) = int n" using n(2) by (simp add: go_int)
  ultimately have "readTGData (skip 1 (scanned s)) = (Inl (Err ''Insane TG Length''), skip 8 (skip 1 (scanned s)))"
    by (simp add: readTGData_def)
  then show ?thesis
    using id by (subst replay_scan.simps) (simp add: scan_message_def scan_tgdata_def err_of_def)
qed

lemma Replay_insane_length:
  assumes w: "fdOpen w" "fdata (FilePtr w) = msg_bytes (MStatus OPEN NOTREPLAYED own) @ log_bytes ms @ le_bytes 1 TGDATA @ le_bytes 8 (int n)"
    and ms: "list_all msg_ok ms" "distinct (group_ids ms)"
    and n: "1000 * (20 + length (log_bytes ms)) \<le> n" "int n < 2 ^ 63"
  shows "\<exists>w'. Replay inst True w s = (w', s, Some (Fatal ''Uncorrectable IO error in WAL Replay''))"
proof -
  let ?h = "MStatus OPEN REPLAYINPROCESS (InstanceID inst)" and ?rest = "le_bytes 1 TGDATA @ le_bytes 8 (int n)"
  obtain w1 where w1: "NeedsReplay w = (Inr True, w1)" "fdOpen w1" "fdata (FilePtr w1) = fdata (FilePtr w)"
    by (rule NeedsReplay_log [OF w(1,2)]) auto
  define w2 where "w2 = fd_seek 0 (WriteStatus inst OPEN REPLAYINPROCESS w1)"
  have d2: "fdata (FilePtr w2) = msg_bytes ?h @ log_bytes ms @ ?rest"
    using WriteStatus_header(1) [OF w1(2), of OPEN NOTREPLAYED own "log_bytes ms @ ?rest" inst OPEN REPLAYINPROCESS] w(2) w1(2,3)
    by (simp add: w2_def fd_seek_def del: msg_bytes.simps le_bytes.simps)
  have "fdOpen w2" "fpos (FilePtr w2) = 0" using w1 by (simp_all add: w2_def fd_seek_def)
  then have at: "rest_at (scanned (init_scan w2)) (log_bytes (?h # ms) @ ?rest)"
    using d2 by (simp add: rest_at_def init_scan_def del: msg_bytes.simps le_bytes.simps)
  have "list_all msg_ok (?h # ms)" "distinct (group_ids (?h # ms))"
    "\<forall>i \<in> set (group_ids (?h # ms)). map_of (offsetTGDataInWAL (init_scan w2)) i = None"
    using ms by (simp_all add: init_scan_def)
  from replay_scan_over [OF at this] obtain s' where s': "replay_scan (init_scan w2) = replay_scan s'" "rest_at (scanned s') ?rest"
      "fdata (FilePtr (scanned s')) = fdata (FilePtr w2)"
    by (auto simp: init_scan_def)
  have "length (fdata (FilePtr (scanned s'))) = 20 + length (log_bytes ms)"
    using s'(3) d2 by (simp del: msg_bytes.simps le_bytes.simps)
  then have "replay_scan (init_scan w2) = Inl (Fatal ''Uncorrectable IO error in WAL Replay'')"
    using scan_insane_length [OF s'(2)] s'(1) n by simp
  then show ?thesis using w1(1) by (simp add: Replay_def Let_def w2_def)
qed

text \<open>Two writes of one variable-length command.\<close>

lemma indirect_twice:
  fixes c f cd p
  defines "n \<equiv> nat (VarRecLen c)"
  assumes cd: "codec_ok cd" "var_ok cd f D S" "p \<in> S" and c: "cmd_wf c" "RecordType c = VARIABLE" "wcOffset c = int p"
      "wcIndex c \<noteq> 0" "Data c \<noteq> []" "4 \<le> VarRecLen c"
    and old: "bucket cd f p = Inr old"
    and g: "write_cmd cd c f = Inr g"
    and sz: "int (length f + length (encode cd (TimSortBufferUINT32 (old @ Data c) n))) < 2 ^ 63"
      "int (length g + length (encode cd (TimSortBufferUINT32 (TimSortBufferUINT32 (old @ Data c) n @ Data c) n))) < 2 ^ 63"
  shows "\<exists>h. write_cmd cd c g = Inr h \<and>
    bucket cd h p = Inr (TimSortBufferUINT32 (TimSortBufferUINT32 (old @ Data c) n @ Data c) n)"
proof -
  have b: "Offset (cmd_buffer c) = int p" "Index (cmd_buffer c) \<noteq> 0" "Payload (cmd_buffer c) = Data c"
    using c by (simp_all add: cmd_wf_def go_int)
  have one: "\<exists>h. write_cmd cd c e = Inr h \<and> var_ok cd h D S \<and> bucket cd h p = Inr (TimSortBufferUINT32 (x @ Data c) n)"
    if "var_ok cd e D S" "bucket cd e p = Inr x" "int (length e + length (encode cd (TimSortBufferUINT32 (x @ Data c) n))) < 2 ^ 63" for e x
  proof -
    from indirect_refines [OF cd(1) that(1) cd(3) b(1,2) _ that(2) c(6), of 0] that(3) c(5) cd(3)
    obtain h b' where "WriteBufferToFileIndirect cd \<lparr>fdata = e, fpos = 0\<rparr> (cmd_buffer c) (VarRecLen c) = (h, b', None)"
        "var_ok cd (fdata h) D S" "bucket cd (fdata h) p = Inr (TimSortBufferUINT32 (x @ Data c) n)"
      by (auto simp: n_def b(3))
    then show ?thesis using c(2) by (intro exI [of _ "fdata h"]) (simp add: write_cmd_def)
  qed
  from one [OF cd(2) old sz(1)] g have "var_ok cd g D S" "bucket cd g p = Inr (TimSortBufferUINT32 (old @ Data c) n)" by auto
  from one [OF this sz(2)] show ?thesis by blast
qed

section \<open>Properties\<close>

text \<open>
  C33: a log that is marked as replayed stops the server from starting. When a process replays a log and ends before it has
  removed the file (the file is marked replayed first), every later start finds a log that needs no replay, for which \<^verbatim>\<open>Replay\<close>
  returns an error, and \<^verbatim>\<open>cleanupOldWALFiles\<close> ends the process on it, with the files untouched.
\<close>

theorem replayed_log_blocks_startup:
  assumes "Join root fn \<noteq> []" "d (Join root fn) = Some (msg_bytes (MStatus a REPLAYED own) @ rest)" "a \<in> {OPEN, CLOSED}"
    and "InstanceID inst \<noteq> 0"
  shows "\<exists>d'. cleanup_file inst root fn d s = (d', s, Some (Fatal ''Unable to replay''))"
proof -
  let ?p = "Join root fn"
  have i8: "to_int8 a = a" "to_int8 REPLAYED = REPLAYED" using assms(3) by (auto simp: go_int)
  obtain w where w: "NewWALFile inst root ?p 0 d = Inr (w, d(?p \<mapsto> fdata (FilePtr w)))" "fdOpen w"
    "fdata (FilePtr w) = msg_bytes (MStatus a REPLAYED (InstanceID inst)) @ rest"
    by (rule NewWALFile_takes_over [where p = ?p and d = d and own = own and rest = rest and inst = inst
          and root = root and t = 0 and a = a and b = REPLAYED]) (use assms i8 in auto)
  obtain w1 where "NeedsReplay w = (Inr (REPLAYED \<noteq> REPLAYED), w1)"
    by (rule NeedsReplay_log [OF w(2,3) assms(3)]) auto
  then have "Replay inst True w s = (w1, s, Some (Err ''WALFileType.NeedsReplay No Replay Needed''))"
    by (simp add: Replay_def)
  then show ?thesis
    using assms(2) w(1) by (simp add: cleanup_file_def Let_def del: msg_bytes.simps)
qed

theorem replayed_log_blocks_startup_witness:
  "\<exists>d'. cleanup_file exinst ''/r'' ''w'' [Join ''/r'' ''w'' \<mapsto> msg_bytes (MStatus 1 2 3) @ []] (store (cache exqueued)) =
    (d', store (cache exqueued), Some (Fatal ''Unable to replay''))"
  by (rule replayed_log_blocks_startup [where a = 1 and own = 3])
    (simp_all add: exroot(5) Join_nonempty [OF exroot(1,2)] del: msg_bytes.simps)

text \<open>
  A large group of which only the head reached the log stops the server from starting. The size check of \<^verbatim>\<open>readTGData\<close>
  compares the length of a group with the size of the file as it is; when the process dies between writing the length and writing the data
  (two writes), a length of at least a thousand times the bytes before it is taken for a damaged file and not for a torn tail,
  and the process ends instead of ignoring the group, which was never committed.
\<close>

theorem torn_length_blocks_startup:
  assumes "Join root fn \<noteq> []"
    and "d (Join root fn) = Some (msg_bytes (MStatus OPEN NOTREPLAYED own) @ log_bytes ms @ take 9 (msg_bytes (MGroup TG)))"
    and "list_all msg_ok ms" "distinct (group_ids ms)" "msg_ok (MGroup TG)" "1000 * (20 + length (log_bytes ms)) \<le> length TG"
    and "InstanceID inst \<noteq> 0"
  shows "\<exists>d'. cleanup_file inst root fn d s = (d', s, Some (Fatal ''Unable to replay''))"
proof -
  let ?p = "Join root fn" and ?rest = "le_bytes 1 TGDATA @ le_bytes 8 (int (length TG))"
  have t: "take 9 (msg_bytes (MGroup TG)) = ?rest" by (simp del: le_bytes.simps)
  obtain w where w: "NewWALFile inst root ?p 0 d = Inr (w, d(?p \<mapsto> fdata (FilePtr w)))" "fdOpen w"
    "fdata (FilePtr w) = msg_bytes (MStatus OPEN NOTREPLAYED (InstanceID inst)) @ log_bytes ms @ ?rest"
    by (rule NewWALFile_takes_over [where p = ?p and d = d and own = own and rest = "log_bytes ms @ ?rest" and inst = inst
          and root = root and t = 0 and a = OPEN and b = NOTREPLAYED]) (use assms t in \<open>auto simp: go_int\<close>)
  have "int (length TG) < 2 ^ 63" using assms(5) by simp
  with Replay_insane_length [OF w(2,3) assms(3,4,6)] obtain w1
    where "Replay inst True w s = (w1, s, Some (Fatal ''Uncorrectable IO error in WAL Replay''))" by blast
  then show ?thesis
    using assms(2) w(1) by (simp add: cleanup_file_def Let_def del: msg_bytes.simps)
qed

theorem torn_length_blocks_startup_witness:
  "\<exists>d'. cleanup_file exinst ''/r'' ''w''
      [Join ''/r'' ''w'' \<mapsto> msg_bytes (MStatus OPEN NOTREPLAYED 3) @ log_bytes [MTxn 6 WAL PREPARING] @ take 9 (msg_bytes (MGroup (replicate 31000 0)))]
      (store (cache exqueued)) = (d', store (cache exqueued), Some (Fatal ''Unable to replay''))"
  by (rule torn_length_blocks_startup [where own = 3 and ms = "[MTxn 6 WAL PREPARING]" and TG = "replicate 31000 0"])
    (simp_all add: exroot(5) Join_nonempty [OF exroot(1,2)] go_int del: msg_bytes.simps)

text \<open>
  C32: replay writes variable-length data twice. When the process ends after a flush but the operating system does not, the primary files
  have the group already, and the log still leaves it to be replayed. For a file of variable-length data replay then appends the
  records of the group to their bucket a second time.
\<close>

theorem replay_duplicates_variable:
  fixes c cd
  defines "n \<equiv> nat (VarRecLen c)"
  assumes "codec_ok cd" "var_ok cd f D S" "p \<in> S" "cmd_wf c" "RecordType c = VARIABLE" "wcOffset c = int p"
      "wcIndex c \<noteq> 0" "Data c \<noteq> []" "4 \<le> VarRecLen c"
    and "bucket cd f p = Inr old" "write_cmd cd c f = Inr g"
    and "int (length f + length (encode cd (TimSortBufferUINT32 (old @ Data c) n))) < 2 ^ 63"
    and "int (length g + length (encode cd (TimSortBufferUINT32 (TimSortBufferUINT32 (old @ Data c) n @ Data c) n))) < 2 ^ 63"
    and "at_end w h" "cmd_path (RootPath w) c = q" "compression inst = cd" "dsk q = Some f" "0 < i" "i < 2 ^ 63"
    and "primary s = apply_group cd (RootPath w) [c] dsk"
  shows "\<exists>w' s' e. replayTGData inst (group_bytes i [c]) w s = (w', s', None) \<and> primary s' q = Some e \<and>
    bucket cd e p = Inr (TimSortBufferUINT32 (TimSortBufferUINT32 (old @ Data c) n @ Data c) n)"
proof -
  obtain e where e: "write_cmd cd c g = Inr e" "bucket cd e p = Inr (TimSortBufferUINT32 (TimSortBufferUINT32 (old @ Data c) n @ Data c) n)"
    using indirect_twice [OF assms(2-12)] assms(13,14) by (auto simp: n_def)
  have at: "cmds_at (RootPath w) q [c] = [c]" using assms(16) by (simp add: cmds_at_def)
  have s: "primary s q = Some g" using assms(12,18,21) at by (simp add: apply_group_def)
  have "group_runs (compression inst) (RootPath w) [c] (primary s)"
    using s e(1) at assms(16,17) by (simp add: group_runs_def)
  moreover have "list_all cmd_wf [c]" "[c] \<noteq> []" "int (length [c]) < 2 ^ 63" using assms(5) by simp_all
  ultimately obtain w' s' where r: "replayTGData inst (group_bytes i [c]) w s = (w', s', None)"
      "primary s' = apply_group (compression inst) (RootPath w) [c] (primary s)"
    using replayTGData_group [OF assms(15), of "[c]" i inst s] assms(19,20) by metis
  have "primary s' q = Some e" using r(2) s e(1) at assms(17) by (simp add: apply_group_def)
  with r(1) e(2) show ?thesis by blast
qed

definition exvar :: WriteCommand where
  "exvar = \<lparr>RecordType = VARIABLE, WALKeyPath = ''A'', VarRecLen = 4, wcOffset = 0, wcIndex = 1, Data = [5, 0, 0, 0]\<rparr>"

definition exvarfile :: bytes where
  "exvarfile = le_bytes 8 1 @ le_bytes 8 24 @ le_bytes 8 4 @ [5, 0, 0, 0]"

definition exwal :: WALFileType where
  "exwal = append_msg (MStatus 1 1 7) (new_wal\<lparr>RootPath := ''/r'', fdOpen := True\<rparr>)"

theorem replay_duplicates_variable_witness:
  "\<exists>w' s' e. replayTGData exinst (group_bytes 6 [exvar]) exwal
      \<lparr>primary = apply_group None (RootPath exwal) [exvar] [''/r/A'' \<mapsto> replicate 24 0], synced = Map.empty\<rparr> = (w', s', None) \<and>
    primary s' ''/r/A'' = Some e \<and> bucket None e 0 = Inr [5, 0, 0, 0, 5, 0, 0, 0]"
proof -
  have sl: "slot (replicate 24 0) 0 = \<lparr>riIndex = 0, riOffset = 0, riLen = 0\<rparr>" by code_simp
  then have ok: "var_ok None (replicate 24 0) 24 {0}" "bucket None (replicate 24 0) 0 = Inr []"
    by (simp_all add: var_ok_def slot_ok_def bucket_def)
  have wf: "cmd_wf exvar" by (simp add: cmd_wf_def exvar_def)
  have wr: "write_cmd None exvar (replicate 24 0) = Inr exvarfile" by code_simp
  have srt: "TimSortBufferUINT32 ([] @ Data exvar) (nat (VarRecLen exvar)) = [5, 0, 0, 0]"
    "TimSortBufferUINT32 ([5, 0, 0, 0] @ Data exvar) (nat (VarRecLen exvar)) = [5, 0, 0, 0, 5, 0, 0, 0]" by code_simp+
  have "at_end exwal (MStatus 1 1 7)" by (simp add: exwal_def at_end_def new_wal_def)
  moreover have "cmd_path (RootPath exwal) exvar = ''/r/A''" by code_simp
  moreover have "length exvarfile = 28" by code_simp
  ultimately show ?thesis
    using replay_duplicates_variable [OF _ ok(1) _ wf _ _ _ _ _ ok(2) wr, of exwal "MStatus 1 1 7" "''/r/A''" exinst
        "[''/r/A'' \<mapsto> replicate 24 0]" 6 "\<lparr>primary = apply_group None (RootPath exwal) [exvar] [''/r/A'' \<mapsto> replicate 24 0], synced = Map.empty\<rparr>"]
    unfolding srt
    by (simp add: codec_ok_def encode_def exinst_def) (simp add: exvar_def)
qed

end
