(* ===== verification/Progress.thy ===== *)
theory Progress
  imports Recovery
begin

text \<open>
  Progress of the background writer: a request for a flush is not lost, and the event that handles it succeeds for queues of fixed-length
  records, empties the queue and answers the requester.
\<close>

section \<open>Requests stay\<close>

lemma flushToWAL_pipe:
  assumes "pipe st = Some tgc" "flushToWAL inst order now st = (st', None)"
  shows "\<exists>tgc'. pipe st' = Some tgc' \<and> flushChannel tgc' = flushChannel tgc"
  using assms
  by (auto simp: flushToWAL_def flush_pipe_def flush_commands_def flush_log_def Let_def split: prod.splits if_splits sum.splits bool.splits)

lemma fatal_flush_pipe:
  assumes "pipe (cache s) = Some tgc" "fatal_flush inst order now s = Inr s'"
  shows "answered s' = answered s \<and> (\<exists>tgc'. pipe (cache s') = Some tgc' \<and> flushChannel tgc' = flushChannel tgc)"
  using assms flushToWAL_pipe [OF assms(1)] by (auto simp: fatal_flush_def split: prod.splits option.splits)

text \<open>A requester is answered or its request is in the channel.\<close>

definition waits_or_answered :: "nat \<Rightarrow> sync_state \<Rightarrow> bool" where
  "waits_or_answered f s \<longleftrightarrow> f \<in> set (answered s) \<or> (\<exists>tgc. pipe (cache s) = Some tgc \<and> flushChannel tgc = [f])"

lemma event_keeps_request:
  assumes "waits_or_answered f s" "pipe (cache s) = Some tgc" "sync_event_step inst order rot now ev s = Inr s'"
  shows "waits_or_answered f s'"
proof (cases ev)
  case FlushRequest
  show ?thesis
  proof (cases "flushChannel tgc")
    case Nil
    then show ?thesis using assms FlushRequest by (simp add: sync_event_step_def)
  next
    case (Cons r fs)
    let ?s = "s\<lparr>cache := (cache s)\<lparr>pipe := Some (tgc\<lparr>flushChannel := fs\<rparr>)\<rparr>\<rparr>"
    obtain s1 where s1: "fatal_flush inst order now ?s = Inr s1" "s' = s1\<lparr>answered := answered s1 @ [r]\<rparr>"
      using FlushRequest assms(2,3) Cons by (auto simp: sync_event_step_def res_bind_Inr)
    then have "answered s' = answered s @ [r]" using fatal_flush_pipe [of ?s _ inst order now s1] by simp
    then show ?thesis using assms(1,2) Cons by (auto simp: waits_or_answered_def)
  qed
next
  case TickPrimary
  then show ?thesis using assms(1,3) by (auto simp: sync_event_step_def waits_or_answered_def Let_def split: prod.splits if_splits)
qed (use assms fatal_flush_pipe [OF assms(2), of inst order now s'] in \<open>auto simp: sync_event_step_def waits_or_answered_def split: if_splits\<close>)

lemma step_keeps_request: "live_step inst ft root rot s s' \<Longrightarrow> waits_or_answered f s \<Longrightarrow> waits_or_answered f s'"
proof (induction rule: live_step.induct)
  case (event s tgc now order ev s')
  then show ?case using event_keeps_request by blast
qed (auto simp: waits_or_answered_def RequestFlush_def split: option.splits)

lemma steps_keep_request: "(live_step inst ft root rot)\<^sup>*\<^sup>* s s' \<Longrightarrow> waits_or_answered f s \<Longrightarrow> waits_or_answered f s'"
  by (induction rule: rtranclp_induct) (auto intro: step_keeps_request)

section \<open>Flushes of fixed-length records succeed\<close>

lemma flush_files_fixed:
  assumes "distinct keys" "inj_on (Join root) (set keys)"
    and "\<forall>k \<in> set keys. keyed k cs \<noteq> [] \<and> (\<exists>f. dsk (Join root k) = Some f \<and> file_cmds_ok (keyed k cs) f)"
    and "\<forall>c \<in> set cs. RecordType c = FIXED"
  shows "\<exists>dsk' m'. flush_files inst root (serialize_group t cs) keys dsk m = (dsk', m', None)"
  using assms(1-3)
proof (induction keys arbitrary: dsk m)
  case (Cons k keys)
  let ?cd = "compression inst" and ?p = "Join root k"
  obtain f where f: "dsk ?p = Some f" "file_cmds_ok (keyed k cs) f" "keyed k cs \<noteq> []" using Cons.prems(3) by auto
  let ?res = "writePrimary ?cd root dsk k (map cmd_buffer (keyed k cs)) (RecordType (hd (keyed k cs))) (VarRecLen (hd (keyed k cs)))"
  have fx: "list_all (\<lambda>c. RecordType c = FIXED \<and> inside (length f) (fixed_write (cmd_buffer c))) (keyed k cs)"
    using f(2) assms(4) by (auto simp: list_all_iff file_cmds_ok_def keyed_def)
  obtain g ws where g: "?res = (dsk(?p \<mapsto> g), ws, None)"
    using writePrimary_runs [OF f(2,3), of dsk root k ?cd, OF f(1)] run_file_fixed [OF fx, of ?cd] by auto
  have "\<forall>j \<in> set keys. keyed j cs \<noteq> [] \<and> (\<exists>f. (dsk(?p \<mapsto> g)) (Join root j) = Some f \<and> file_cmds_ok (keyed j cs) f)"
    using Cons.prems by (auto simp: inj_on_def)
  moreover have "distinct keys" "inj_on (Join root) (set keys)" using Cons.prems(1,2) by auto
  ultimately obtain dsk' m' where "flush_files inst root (serialize_group t cs) keys (dsk(?p \<mapsto> g))
      (fold (\<lambda>b. appendRecord k (IndexAndPayload b)) ws m) = (dsk', m', None)"
    using Cons.IH by blast
  then show ?case using g by (simp add: serialize_group_maps [OF f(3)])
qed simp

lemma RootPath_log [simp]: "RootPath (WriteTransactionInfo t d x w) = RootPath w" "RootPath (log_group TG w) = RootPath w"
  by (simp_all add: WriteTransactionInfo_def write_wal_def log_group_def fd_write_def fd_seek_end_def Let_def)

lemma flushToWAL_fixed:
  assumes inv: "live_inv inst ft root st ms gs" and root: "plain_root root" and ord: "is_order order"
    and inst: "\<not> WALBypass inst" "InstanceID inst = to_int64 (InstanceID inst)"
    and tgc: "pipe st = Some tgc" and fx: "\<forall>c \<in> set (writeChannel tgc). RecordType c = FIXED"
  shows "\<exists>st' tgc'. flushToWAL inst order now st = (st', None) \<and> pipe st' = Some tgc' \<and> writeChannel tgc' = [] \<and>
    primary (store st') = apply_group (compression inst) root (writeChannel tgc) (primary (store st))"
proof (cases "writeChannel tgc = []")
  case True
  have "apply_group (compression inst) root [] d = d" for d by (rule ext) (simp add: apply_group_def cmds_at_def split: option.split)
  then show ?thesis using tgc True by (simp add: flushToWAL_def flush_pipe_def)
next
  case False
  have l: "log_in (wal st) (MStatus OPEN NOTREPLAYED (InstanceID inst) # ms)" "RootPath (wal st) = root"
    and ok: "list_all (cmd_ok ft root (primary (store st))) (writeChannel tgc)"
    using inv tgc by (simp_all add: live_inv_def)
  obtain w where w: "CanWrite inst (wal st) = (Inr True, w)" "log_in w (MStatus OPEN NOTREPLAYED (InstanceID inst) # ms)" "RootPath w = root"
    using CanWrite_log [OF l(1) inst(2)] l(2) by metis
  let ?g = "serialize_group (tgID tgc) (writeChannel tgc)"
  note k = group_keys [OF root ok ord, where t = "tgID tgc"]
  obtain dsk m where ff: "flush_files inst root ?g (order (map fst (writesPerFile ?g))) (primary (store st)) (written st) = (dsk, m, None)"
    using flush_files_fixed [OF k(1,4,5) fx] by blast
  show ?thesis using tgc False w(1,3) inst(1) ff flush_files_group [OF root ok ord ff]
    by (auto simp: flushToWAL_def flush_pipe_def flush_commands_def flush_log_def TGID_def Let_def)
qed

text \<open>
  C10: A request for a flush that finds the channel empty is handled. Whatever steps the running server takes after it, the requester has been
  answered or its request is still the one in the channel; and from there the event that handles it succeeds when the queue holds fixed-length
  records: it answers the requester, leaves the queue empty and the files with all queued commands applied.
\<close>

theorem flush_request_handled:
  assumes "(live_step inst ft root rot)\<^sup>*\<^sup>* (start_state inst root t0 t1 dsk) s"
    and "plain_root root" "\<not> WALBypass inst" "InstanceID inst = to_int64 (InstanceID inst)" "0 < t1" "t1 < 2 ^ 63"
    and "haveWALWriter s" "pipe (cache s) = Some tgc" "flushChannel tgc = []"
    and "(live_step inst ft root rot)\<^sup>*\<^sup>* (RequestFlush inst order now f s) s2"
    and "is_order order'" "\<forall>tgc. pipe (cache s2) = Some tgc \<longrightarrow> (\<forall>c \<in> set (writeChannel tgc). RecordType c = FIXED)"
  shows "f \<in> set (answered s2) \<or> (\<exists>tgc2 s3 tgc3. pipe (cache s2) = Some tgc2 \<and> flushChannel tgc2 = [f] \<and>
    sync_event_step inst order' rot now' FlushRequest s2 = Inr s3 \<and> f \<in> set (answered s3) \<and>
    pipe (cache s3) = Some tgc3 \<and> writeChannel tgc3 = [] \<and>
    primary (store (cache s3)) = apply_group (compression inst) root (writeChannel tgc2) (primary (store (cache s2))))"
proof (cases "f \<in> set (answered s2)")
  case False
  have "waits_or_answered f (RequestFlush inst order now f s)" using assms(7-9) by (simp add: waits_or_answered_def RequestFlush_def)
  then have "waits_or_answered f s2" by (rule steps_keep_request [OF assms(10)])
  then obtain tgc2 where tgc2: "pipe (cache s2) = Some tgc2" "flushChannel tgc2 = [f]" using False by (auto simp: waits_or_answered_def)
  have "live_step inst ft root rot s (RequestFlush inst order now f s)" by (rule live_step.request [OF assms(7)])
  then have "(live_step inst ft root rot)\<^sup>*\<^sup>* (start_state inst root t0 t1 dsk) s2" using assms(1,10) by simp
  from reachable_ok [OF this assms(2-6)] obtain ms gs where inv: "live_inv inst ft root (cache s2) ms gs" by (auto simp: live_ok_def)
  let ?st = "(cache s2)\<lparr>pipe := Some (tgc2\<lparr>flushChannel := []\<rparr>)\<rparr>"
  have "live_inv inst ft root ?st ms gs" using inv live_inv_flushChannel [OF tgc2(1)] by blast
  from flushToWAL_fixed [OF this assms(2,11,3,4), of "tgc2\<lparr>flushChannel := []\<rparr>" now'] assms(12) tgc2(1)
  obtain st' tgc' where "flushToWAL inst order' now' ?st = (st', None)" "pipe st' = Some tgc'" "writeChannel tgc' = []"
    "primary (store st') = apply_group (compression inst) root (writeChannel tgc2) (primary (store (cache s2)))" by auto
  then show ?thesis using tgc2 by (auto simp: sync_event_step_def fatal_flush_def)
qed simp

text \<open>The queue holds one command; requester 3 asks for a flush.\<close>

theorem flush_request_handled_witness:
  "\<exists>s3. sync_event_step exinst id 5 9 FlushRequest (RequestFlush exinst id 8 3 exqueued) = Inr s3 \<and> 3 \<in> set (answered s3) \<and>
     primary (store (cache s3)) = apply_group None ''/r'' [excmd] (primary (store (cache (RequestFlush exinst id 8 3 exqueued))))"
proof -
  have p: "haveWALWriter exqueued" "pipe (cache exqueued) = Some \<lparr>tgID = 6, writeChannel = [excmd], flushChannel = []\<rparr>" by code_simp+
  have p2: "pipe (cache (RequestFlush exinst id 8 3 exqueued)) = Some \<lparr>tgID = 6, writeChannel = [excmd], flushChannel = [3]\<rparr>"
    "answered (RequestFlush exinst id 8 3 exqueued) = []" by code_simp+
  have "RecordType excmd = FIXED" "compression exinst = None" by code_simp+
  moreover have "is_order id" by (simp add: is_order_def)
  moreover have run: "(live_step exinst (\<lambda>_. (0, 0)) ''/r'' 5)\<^sup>*\<^sup>* (start_state exinst ''/r'' 5 6 exdisk) exqueued"
    using exqueue by (rule r_into_rtranclp)
  ultimately show ?thesis
    using flush_request_handled [OF run exroot(1,4,3) _ _ p _ rtranclp.rtrancl_refl,
      where order = id and now = 8 and f = 3 and order' = id and now' = 9] p2 by simp blast
qed

end
