(* ===== verification/Datatypes.thy ===== *)
theory Datatypes
  imports Bytes GoStrings
begin

text \<open>
  The element types of columns and records (\<^verbatim>\<open>utils/io/datatypes.go\<close>), slices of primitive values as columns, and the
  reinterpretation of memory between bytes and values (\<^verbatim>\<open>utils/io/byteconversions.go\<close>).

  A Go slice of a primitive type is a column: the kind of its elements and the bytes of each element. Values of a kind
  are read from these bytes with the readers of theory \<open>Bytes\<close>; reinterpreting a slice is then concatenating
  or cutting the bytes.
\<close>

section \<open>Record types\<close>

abbreviation (input) NOTYPE :: int where "NOTYPE \<equiv> 2"

definition EnumRecordTypeByName :: "string \<Rightarrow> int" where
  "EnumRecordTypeByName name =
     (let name = ToLower name
      in if name = ''fixed'' then 0 else if name = ''variable'' then 1 else 2)"

section \<open>Element types\<close>

text \<open>The enumeration is a byte in the file; \<open>OTHER\<close> are the bytes it does not define.\<close>

datatype EnumElementType =
    FLOAT32 | INT32 | FLOAT64 | INT64 | EPOCH | BYTE | BOOL | NONE | STRING | INT16
  | UINT8 | UINT16 | UINT32 | UINT64 | OTHER byte

definition element_types :: "EnumElementType list" where
  "element_types = [FLOAT32, INT32, FLOAT64, INT64, EPOCH, BYTE, BOOL, NONE, STRING, INT16, UINT8, UINT16, UINT32, UINT64]"

fun element_code :: "EnumElementType \<Rightarrow> byte" where
  "element_code FLOAT32 = 0" | "element_code INT32 = 1" | "element_code FLOAT64 = 2" | "element_code INT64 = 3"
| "element_code EPOCH = 4" | "element_code BYTE = 5" | "element_code BOOL = 6" | "element_code NONE = 7"
| "element_code STRING = 8" | "element_code INT16 = 9" | "element_code UINT8 = 10" | "element_code UINT16 = 11"
| "element_code UINT32 = 12" | "element_code UINT64 = 13" | "element_code (OTHER b) = b"

definition element_of_code :: "byte \<Rightarrow> EnumElementType" where
  "element_of_code b = (if unat b < length element_types then element_types ! unat b else OTHER b)"

text \<open>The kinds of \<^verbatim>\<open>reflect\<close> that columns have; \<open>KOther\<close> stands for structs, functions, interfaces and pointers.\<close>

datatype kind =
    KInvalid | KBool | KInt8 | KInt16 | KInt32 | KInt64 | KUint8 | KUint16 | KUint32 | KUint64
  | KFloat32 | KFloat64 | KString | KOther

text \<open>The columns of \<^verbatim>\<open>attributeMap\<close>: kind, name and size; an unknown byte has the zero entry.\<close>

fun element_kind :: "EnumElementType \<Rightarrow> kind" where
  "element_kind FLOAT32 = KFloat32" | "element_kind INT32 = KInt32" | "element_kind FLOAT64 = KFloat64"
| "element_kind INT64 = KInt64" | "element_kind EPOCH = KInt64" | "element_kind BYTE = KInt8"
| "element_kind BOOL = KBool" | "element_kind NONE = KInvalid" | "element_kind STRING = KString"
| "element_kind INT16 = KInt16" | "element_kind UINT8 = KUint8" | "element_kind UINT16 = KUint16"
| "element_kind UINT32 = KUint32" | "element_kind UINT64 = KUint64" | "element_kind (OTHER _) = KInvalid"

fun element_name :: "EnumElementType \<Rightarrow> string" where
  "element_name FLOAT32 = ''float32''" | "element_name INT32 = ''int32''" | "element_name FLOAT64 = ''float64''"
| "element_name INT64 = ''int64''" | "element_name EPOCH = ''epoch''" | "element_name BYTE = ''byte''"
| "element_name BOOL = ''bool''" | "element_name NONE = ''none''" | "element_name STRING = ''string''"
| "element_name INT16 = ''int16''" | "element_name UINT8 = ''uint8''" | "element_name UINT16 = ''uint16''"
| "element_name UINT32 = ''uint32''" | "element_name UINT64 = ''uint64''" | "element_name (OTHER _) = []"

fun Size :: "EnumElementType \<Rightarrow> nat" where
  "Size FLOAT32 = 4" | "Size INT32 = 4" | "Size FLOAT64 = 8" | "Size INT64 = 8" | "Size EPOCH = 8" | "Size BYTE = 1"
| "Size BOOL = 1" | "Size NONE = 0" | "Size STRING = 0" | "Size INT16 = 2" | "Size UINT8 = 1" | "Size UINT16 = 2"
| "Size UINT32 = 4" | "Size UINT64 = 8" | "Size (OTHER _) = 0"

text \<open>The type whose name is given, in any case; the names are distinct, so the order of the map does not matter.\<close>

definition EnumElementTypeFromName :: "string \<Rightarrow> EnumElementType" where
  "EnumElementTypeFromName name =
     (case find (\<lambda>e. EqualFold name (element_name e)) element_types of Some e \<Rightarrow> e | None \<Rightarrow> NONE)"

text \<open>The first type of the enumeration with the kind of the value or of the slice's elements.\<close>

definition GetElementType :: "kind \<Rightarrow> EnumElementType" where
  "GetElementType k =
     (if k = KOther then NONE
      else case find (\<lambda>e. element_kind e = k) element_types of Some e \<Rightarrow> e | None \<Rightarrow> NONE)"

definition SliceInBytesAt :: "EnumElementType \<Rightarrow> bytes \<Rightarrow> int \<Rightarrow> bytes result" where
  "SliceInBytesAt e bs index = go_slice (index * int (Size e)) (index * int (Size e) + int (Size e)) bs"

section \<open>Columns\<close>

record column =
  ckind :: kind
  celems :: "bytes list"

fun kind_size :: "kind \<Rightarrow> nat" where
  "kind_size KBool = 1" | "kind_size KInt8 = 1" | "kind_size KUint8 = 1"
| "kind_size KInt16 = 2" | "kind_size KUint16 = 2"
| "kind_size KInt32 = 4" | "kind_size KUint32 = 4" | "kind_size KFloat32 = 4"
| "kind_size KInt64 = 8" | "kind_size KUint64 = 8" | "kind_size KFloat64 = 8"
| "kind_size KString = 16" | "kind_size KInvalid = 0" | "kind_size KOther = 0"

definition col_ok :: "column \<Rightarrow> bool" where
  "col_ok c \<longleftrightarrow> (\<forall>x \<in> set (celems c). length x = kind_size (ckind c))"

text \<open>\<^verbatim>\<open>SwapSliceByte\<close>: the bytes seen as a slice of a kind; an incomplete element at the end is left out.\<close>

definition SwapSliceByte :: "bytes \<Rightarrow> kind \<Rightarrow> column" where
  "SwapSliceByte buffer k = \<lparr>ckind = k, celems = chunks (kind_size k) (length buffer div kind_size k) buffer\<rparr>"

text \<open>\<^verbatim>\<open>SwapSliceData\<close>: the memory of a slice seen as a slice of another kind.\<close>

definition SwapSliceData :: "column \<Rightarrow> kind \<Rightarrow> column" where
  "SwapSliceData c k =
     \<lparr>ckind = k,
      celems = chunks (kind_size k) ((length (celems c) * kind_size (ckind c)) div kind_size k) (concat (celems c))\<rparr>"

definition CastToByteSlice :: "column \<Rightarrow> bytes" where
  "CastToByteSlice c = take (length (celems c) * kind_size (ckind c)) (concat (celems c))"

text \<open>\<^verbatim>\<open>CopySliceByte\<close> takes the address of the first byte of the buffer, which an empty buffer does not have.\<close>

definition CopySliceByte :: "bytes \<Rightarrow> kind \<Rightarrow> column result" where
  "CopySliceByte buffer k =
     (if buffer = [] then Inl (Panic ''index out of range'')
      else Inr \<lparr>ckind = k, celems = chunks (kind_size k) (length buffer div kind_size k) buffer\<rparr>)"

definition ByteSliceAt :: "EnumElementType \<Rightarrow> column \<Rightarrow> int \<Rightarrow> bytes result" where
  "ByteSliceAt e c index = SliceInBytesAt e (concat (celems (SwapSliceData c KUint8))) index"

text \<open>
  \<^verbatim>\<open>ConvertByteSliceInto\<close>: a byte or bool column becomes a slice of eight-bit integers. There is no column for \<open>NONE\<close>
  and for unknown types; for \<open>STRING\<close> the sixteen bytes of an element are taken as a string header.
\<close>

definition ConvertByteSliceInto :: "EnumElementType \<Rightarrow> bytes \<Rightarrow> column option" where
  "ConvertByteSliceInto e data = (case e of
      FLOAT32 \<Rightarrow> Some (SwapSliceByte data KFloat32)
    | INT32 \<Rightarrow> Some (SwapSliceByte data KInt32)
    | FLOAT64 \<Rightarrow> Some (SwapSliceByte data KFloat64)
    | INT64 \<Rightarrow> Some (SwapSliceByte data KInt64)
    | EPOCH \<Rightarrow> Some (SwapSliceByte data KInt64)
    | BYTE \<Rightarrow> Some (SwapSliceByte data KInt8)
    | BOOL \<Rightarrow> Some (SwapSliceByte data KInt8)
    | INT16 \<Rightarrow> Some (SwapSliceByte data KInt16)
    | STRING \<Rightarrow> Some (SwapSliceByte data KString)
    | UINT8 \<Rightarrow> Some (SwapSliceByte data KUint8)
    | UINT16 \<Rightarrow> Some (SwapSliceByte data KUint16)
    | UINT32 \<Rightarrow> Some (SwapSliceByte data KUint32)
    | UINT64 \<Rightarrow> Some (SwapSliceByte data KUint64)
    | _ \<Rightarrow> None)"

text \<open>
  \<^verbatim>\<open>SliceOf\<close> hands the type of an element, not of a slice, to \<^verbatim>\<open>reflect.MakeSlice\<close>, which panics for every type that is
  not a slice type.
\<close>

definition SliceOf :: "EnumElementType \<Rightarrow> int \<Rightarrow> column result" where
  "SliceOf e n = Inl (Panic ''reflect.MakeSlice of non-slice type'')"

section \<open>Columns of a row buffer\<close>

text \<open>
  The routines \<^verbatim>\<open>get...Column\<close> copy the bytes at one offset of every row, through the C functions \<^verbatim>\<open>wordCopy...\<close>, which do not check
  bounds; callers pass a buffer of \<open>nrecs\<close> rows, and an empty one has no first byte to point to.
\<close>

definition word_copy :: "kind \<Rightarrow> nat \<Rightarrow> nat \<Rightarrow> nat \<Rightarrow> bytes \<Rightarrow> column result" where
  "word_copy k offset reclen nrecs data =
     (if nrecs = 0 then Inr \<lparr>ckind = k, celems = []\<rparr>
      else if data = [] then Inl (Panic ''index out of range'')
      else Inr \<lparr>ckind = k, celems = map (\<lambda>i. take (kind_size k) (drop (i * reclen + offset) data)) [0..<nrecs]\<rparr>)"

definition getFloat32Column :: "nat \<Rightarrow> nat \<Rightarrow> nat \<Rightarrow> bytes \<Rightarrow> column result" where
  "getFloat32Column offset reclen nrecs data = word_copy KFloat32 offset reclen nrecs data"

definition getFloat64Column :: "nat \<Rightarrow> nat \<Rightarrow> nat \<Rightarrow> bytes \<Rightarrow> column result" where
  "getFloat64Column offset reclen nrecs data = word_copy KFloat64 offset reclen nrecs data"

definition getInt8Column :: "nat \<Rightarrow> nat \<Rightarrow> nat \<Rightarrow> bytes \<Rightarrow> column result" where
  "getInt8Column offset reclen nrecs data = word_copy KInt8 offset reclen nrecs data"

definition getInt16Column :: "nat \<Rightarrow> nat \<Rightarrow> nat \<Rightarrow> bytes \<Rightarrow> column result" where
  "getInt16Column offset reclen nrecs data = word_copy KInt16 offset reclen nrecs data"

definition getInt32Column :: "nat \<Rightarrow> nat \<Rightarrow> nat \<Rightarrow> bytes \<Rightarrow> column result" where
  "getInt32Column offset reclen nrecs data = word_copy KInt32 offset reclen nrecs data"

definition getInt64Column :: "nat \<Rightarrow> nat \<Rightarrow> nat \<Rightarrow> bytes \<Rightarrow> column result" where
  "getInt64Column offset reclen nrecs data = word_copy KInt64 offset reclen nrecs data"

definition getUInt8Column :: "nat \<Rightarrow> nat \<Rightarrow> nat \<Rightarrow> bytes \<Rightarrow> column result" where
  "getUInt8Column offset reclen nrecs data = word_copy KUint8 offset reclen nrecs data"

definition getUInt16Column :: "nat \<Rightarrow> nat \<Rightarrow> nat \<Rightarrow> bytes \<Rightarrow> column result" where
  "getUInt16Column offset reclen nrecs data = word_copy KUint16 offset reclen nrecs data"

definition getUInt32Column :: "nat \<Rightarrow> nat \<Rightarrow> nat \<Rightarrow> bytes \<Rightarrow> column result" where
  "getUInt32Column offset reclen nrecs data = word_copy KUint32 offset reclen nrecs data"

definition getUInt64Column :: "nat \<Rightarrow> nat \<Rightarrow> nat \<Rightarrow> bytes \<Rightarrow> column result" where
  "getUInt64Column offset reclen nrecs data = word_copy KUint64 offset reclen nrecs data"

text \<open>\<^verbatim>\<open>getByteColumn\<close> indexes the buffer in Go; the result is a \<^verbatim>\<open>[]byte\<close>.\<close>

definition getByteColumn :: "nat \<Rightarrow> nat \<Rightarrow> nat \<Rightarrow> bytes \<Rightarrow> column result" where
  "getByteColumn offset reclen nrecs data =
     (if \<exists>i \<in> set [0..<nrecs]. length data \<le> i * reclen + offset then Inl (Panic ''index out of range'')
      else Inr \<lparr>ckind = KUint8, celems = map (\<lambda>i. [data ! (i * reclen + offset)]) [0..<nrecs]\<rparr>)"

section \<open>Conversions\<close>

text \<open>
  Go's numeric conversions on the bytes of the values. Between integers the value is reduced to the width of the target;
  conversions from or to a floating point kind are the parameter \<open>fconv\<close>, since floating point values are carried as bit
  patterns.
\<close>

definition signed_kind :: "kind \<Rightarrow> bool" where
  "signed_kind k \<longleftrightarrow> k \<in> {KInt8, KInt16, KInt32, KInt64}"

definition int_kind :: "kind \<Rightarrow> bool" where
  "int_kind k \<longleftrightarrow> signed_kind k \<or> k \<in> {KUint8, KUint16, KUint32, KUint64}"

definition float_kind :: "kind \<Rightarrow> bool" where
  "float_kind k \<longleftrightarrow> k = KFloat32 \<or> k = KFloat64"

definition elem_int :: "kind \<Rightarrow> bytes \<Rightarrow> int" where
  "elem_int k b = (if signed_kind k then signed_take_bit (8 * kind_size k - 1) (le_uint b) else le_uint b)"

type_synonym float_conv = "kind \<Rightarrow> kind \<Rightarrow> bytes \<Rightarrow> bytes"

definition convert_elem :: "float_conv \<Rightarrow> kind \<Rightarrow> kind \<Rightarrow> bytes \<Rightarrow> bytes" where
  "convert_elem fconv from to b =
     (if from = to then b
      else if int_kind from \<and> int_kind to then le_bytes (kind_size to) (elem_int from b)
      else fconv from to b)"

fun datum_kind :: "datum \<Rightarrow> kind" where
  "datum_kind (Bool _) = KBool"
| "datum_kind (Int8 _) = KInt8" | "datum_kind (Int16 _) = KInt16" | "datum_kind (Int32 _) = KInt32"
| "datum_kind (Int64 _) = KInt64" | "datum_kind (Uint8 _) = KUint8" | "datum_kind (Uint16 _) = KUint16"
| "datum_kind (Uint32 _) = KUint32" | "datum_kind (Uint64 _) = KUint64"
| "datum_kind (Float32 _) = KFloat32" | "datum_kind (Float64 _) = KFloat64" | "datum_kind (Str _) = KString"
| "datum_kind _ = KOther"

definition convert_list :: "float_conv \<Rightarrow> (kind \<Rightarrow> bool) \<Rightarrow> kind \<Rightarrow> datum list \<Rightarrow> column result" where
  "convert_list fconv ok to input =
     (if list_all (\<lambda>d. ok (datum_kind d)) input
      then Inr \<lparr>ckind = to, celems = map (\<lambda>d. convert_elem fconv (datum_kind d) to (DataToByteSlice d)) input\<rparr>
      else Inl (Err ''non coercible type''))"

text \<open>No slice and no error for the types that the switch does not name.\<close>

definition CreateSliceFromSliceOfInterface :: "float_conv \<Rightarrow> datum list \<Rightarrow> EnumElementType \<Rightarrow> column option result" where
  "CreateSliceFromSliceOfInterface fconv input typ = (case typ of
      FLOAT32 \<Rightarrow> res_bind (convert_list fconv float_kind KFloat32 input) (\<lambda>c. Inr (Some c))
    | INT32 \<Rightarrow> res_bind (convert_list fconv int_kind KInt32 input) (\<lambda>c. Inr (Some c))
    | FLOAT64 \<Rightarrow> res_bind (convert_list fconv float_kind KFloat64 input) (\<lambda>c. Inr (Some c))
    | INT64 \<Rightarrow> res_bind (convert_list fconv int_kind KInt64 input) (\<lambda>c. Inr (Some c))
    | EPOCH \<Rightarrow> res_bind (convert_list fconv int_kind KInt64 input) (\<lambda>c. Inr (Some c))
    | BYTE \<Rightarrow> res_bind (convert_list fconv int_kind KUint8 input) (\<lambda>c. Inr (Some c))
    | _ \<Rightarrow> Inr None)"

section \<open>Candle attributes\<close>

type_synonym CandleAttributes = byte

definition cat_None :: CandleAttributes where "cat_None = 0"
definition ISCANDLE :: CandleAttributes where "ISCANDLE = 2"
definition OHLC :: CandleAttributes where "OHLC = 4"
definition OHLCV :: CandleAttributes where "OHLCV = 8"
definition HASFLOAT32 :: CandleAttributes where "HASFLOAT32 = 16"
definition HASFLOAT64 :: CandleAttributes where "HASFLOAT64 = 32"

unbundle bit_operations_syntax

definition AddOption :: "CandleAttributes \<Rightarrow> CandleAttributes \<Rightarrow> CandleAttributes" where
  "AddOption cat option = cat OR option"

definition DelOption :: "CandleAttributes \<Rightarrow> CandleAttributes \<Rightarrow> CandleAttributes" where
  "DelOption cat option = cat AND NOT option"

definition IsSet :: "CandleAttributes \<Rightarrow> CandleAttributes list \<Rightarrow> bool" where
  "IsSet cat checkOption = list_all (\<lambda>co. cat AND co = co) checkOption"

definition AnyOptionSet :: "CandleAttributes \<Rightarrow> CandleAttributes list \<Rightarrow> bool" where
  "AnyOptionSet cat checkOption = list_ex (\<lambda>co. cat AND co = co) checkOption"

datatype DirectionEnum = FIRST | LAST

section \<open>Lemmas\<close>

lemma element_of_code: "e \<in> set element_types \<Longrightarrow> element_of_code (element_code e) = e"
  by (auto simp: element_types_def element_of_code_def)

text \<open>The names are the lower case ones, so a name is found in any spelling of its letters.\<close>

lemma lower_names: "e \<in> set element_types \<Longrightarrow> ToLower (element_name e) = element_name e"
proof -
  have "list_all (\<lambda>e. ToLower (element_name e) = element_name e) element_types" by code_simp
  then show "e \<in> set element_types \<Longrightarrow> ToLower (element_name e) = element_name e"
    by (simp add: list_all_iff)
qed

lemma element_names_distinct: "distinct (map element_name element_types)"
  by code_simp

lemma element_types_cover: "(\<forall>b. e \<noteq> OTHER b) \<longleftrightarrow> e \<in> set element_types"
  by (cases e) (auto simp: element_types_def)

lemma EnumElementTypeFromName_name:
  assumes "e \<in> set element_types" "EqualFold n (element_name e)"
  shows "EnumElementTypeFromName n = e"
proof -
  have "find (\<lambda>x. EqualFold n (element_name x)) element_types = Some e"
  proof -
    have eq: "EqualFold n (element_name x) \<longleftrightarrow> x = e" if "x \<in> set element_types" for x
    proof
      assume "EqualFold n (element_name x)"
      with assms that have "element_name x = element_name e" by (simp add: EqualFold_def lower_names)
      with element_names_distinct assms(1) that show "x = e" by (auto simp: distinct_map dest: inj_onD)
    qed (use assms in simp)
    then have "find (\<lambda>x. EqualFold n (element_name x)) element_types = find (\<lambda>x. x = e) element_types"
      by (intro find_cong) auto
    then show ?thesis using assms(1) by (auto simp: element_types_def)
  qed
  then show ?thesis by (simp add: EnumElementTypeFromName_def)
qed

lemma kind_size_Size: "e \<noteq> STRING \<Longrightarrow> kind_size (element_kind e) = Size e"
  by (cases e) auto

text \<open>A column and its bytes.\<close>

lemma length_col_bytes: "col_ok c \<Longrightarrow> length (concat (celems c)) = kind_size (ckind c) * length (celems c)"
  unfolding col_ok_def by (rule length_concat_equal)

lemma CastToByteSlice_ok: "col_ok c \<Longrightarrow> CastToByteSlice c = concat (celems c)"
  by (simp add: CastToByteSlice_def length_col_bytes mult.commute)

lemma SwapSliceByte_Cast:
  assumes "col_ok c" "0 < kind_size (ckind c)"
  shows "SwapSliceByte (CastToByteSlice c) (ckind c) = c"
proof -
  let ?n = "kind_size (ckind c)"
  have "chunks ?n (length (celems c)) (concat (celems c) @ []) = celems c"
    using assms(1) unfolding col_ok_def by (rule chunks_concat)
  then show ?thesis using assms(2)
    by (simp add: SwapSliceByte_def CastToByteSlice_ok assms(1) length_col_bytes)
qed

lemma col_ok_Swap: "0 < kind_size k \<Longrightarrow> col_ok (SwapSliceByte bs k)"
proof -
  have "length (take n (drop (i * n) bs)) = n" if "i < length bs div n" for i n
    using div_less_room [OF that] by simp
  then show ?thesis
    by (auto simp: col_ok_def SwapSliceByte_def in_set_conv_nth chunks_nth)
qed

lemma Cast_SwapSliceByte:
  assumes "kind_size k dvd length bs" "0 < kind_size k"
  shows "CastToByteSlice (SwapSliceByte bs k) = bs"
  using assms by (simp add: CastToByteSlice_ok col_ok_Swap) (simp add: SwapSliceByte_def concat_chunks)

lemma col_ok_word_copy:
  assumes "word_copy k offset reclen nrecs data = Inr c" "nrecs * reclen \<le> length data" "offset + kind_size k \<le> reclen"
  shows "col_ok c \<and> length (celems c) = nrecs \<and> ckind c = k"
proof -
  have "length (take (kind_size k) (drop (i * reclen + offset) data)) = kind_size k" if "i < nrecs" for i
    using row_room [OF that assms(2)] assms(3) by simp
  with assms(1) show ?thesis by (auto simp: word_copy_def col_ok_def split: if_splits)
qed

text \<open>The converted list has an element for each value; a value of another kind ends the conversion with an error.\<close>

lemma length_convert_list:
  "convert_list fconv ok k ds = Inr c \<Longrightarrow> length (celems c) = length ds \<and> ckind c = k"
  by (auto simp: convert_list_def split: if_splits)

end
