(* ===== verification/GoTime.thy ===== *)
theory GoTime
  imports Prelude
begin

text \<open>
  The part of Go's \<^verbatim>\<open>time\<close> package that the time index of the store rests on: instants, locations, the
  proleptic Gregorian calendar with its year and day of the year, \<^verbatim>\<open>time.Date\<close>, \<^verbatim>\<open>AddDate\<close>,
  \<^verbatim>\<open>Add\<close> and \<^verbatim>\<open>Sub\<close>. An instant is its nanoseconds since the Unix epoch. A location is the zone
  lookup of a Unix second: the offset east of UTC in force and the seconds from which and up to
  which it is in force.
\<close>

type_synonym instant = int
type_synonym location = "int \<Rightarrow> int \<times> int \<times> int"

abbreviation Second :: int where "Second \<equiv> 1000000000"
abbreviation Minute :: int where "Minute \<equiv> 60 * Second"
abbreviation Hour :: int where "Hour \<equiv> 60 * Minute"
abbreviation Day :: int where "Day \<equiv> 24 * Hour"

definition UTC :: location where
  "UTC = (\<lambda>_. (0, -(2 ^ 63), 2 ^ 63 - 1))"

definition zone_offset :: "location \<Rightarrow> int \<Rightarrow> int" where
  "zone_offset loc s = fst (loc s)"

section \<open>The calendar\<close>

text \<open>Days from 1 January of year 1 to 1 January of year \<open>y\<close>; 1970 begins at day 719162.\<close>

definition days_before_year :: "int \<Rightarrow> int" where
  "days_before_year y = 365 * (y - 1) + (y - 1) div 4 - (y - 1) div 100 + (y - 1) div 400"

definition leap :: "int \<Rightarrow> bool" where
  "leap y \<longleftrightarrow> y mod 4 = 0 \<and> (y mod 100 \<noteq> 0 \<or> y mod 400 = 0)"

text \<open>
  Year and day of the year (from 0) of a day counted from 1 January of year 1, by the cycles of 400, 100, 4
  and 1 years that \<^verbatim>\<open>absDate\<close> takes off one after the other. The last day of a cycle does not start a
  new one, which the code writes as \<^verbatim>\<open>n -= n >> 2\<close>.
\<close>

definition year_yday :: "int \<Rightarrow> int \<times> int" where
  "year_yday d =
     (let n400 = d div 146097; d = d - 146097 * n400;
          n100 = d div 36524; n100 = n100 - n100 div 4; d = d - 36524 * n100;
          n4 = d div 1461; d = d - 1461 * n4;
          n1 = d div 365; n1 = n1 - n1 div 4; d = d - 365 * n1
      in (1 + 400 * n400 + 100 * n100 + 4 * n4 + n1, d))"

section \<open>Instants\<close>

definition Unix :: "instant \<Rightarrow> int" where
  "Unix t = t div Second"

definition unix_time :: "int \<Rightarrow> int \<Rightarrow> instant" where
  "unix_time s ns = s * Second + ns"

text \<open>Days since 1 January of year 1, on the wall clock of the location.\<close>

definition local_day :: "location \<Rightarrow> instant \<Rightarrow> int" where
  "local_day loc t = (Unix t + zone_offset loc (Unix t)) div 86400 + 719162"

definition Year :: "location \<Rightarrow> instant \<Rightarrow> int" where
  "Year loc t = fst (year_yday (local_day loc t))"

definition YearDay :: "location \<Rightarrow> instant \<Rightarrow> int" where
  "YearDay loc t = snd (year_yday (local_day loc t)) + 1"

text \<open>
  The Unix second of a wall-clock second: \<^verbatim>\<open>time.Date\<close> looks the zone up at the wall-clock second
  and corrects itself once when the result lies in another zone interval.
\<close>

definition wall_to_unix :: "location \<Rightarrow> int \<Rightarrow> int" where
  "wall_to_unix loc w =
     (case loc w of (offset, start, end) \<Rightarrow>
        if offset = 0 then w
        else if w - offset < start then w - zone_offset loc (start - 1)
        else if w - offset \<ge> end then w - zone_offset loc end
        else w - offset)"

text \<open>Midnight on 1 January of year \<open>y\<close>, plus a number of days: \<^verbatim>\<open>time.Date(y, time.January, 1 + n, ...)\<close>.\<close>

definition date_day :: "location \<Rightarrow> int \<Rightarrow> int \<Rightarrow> instant" where
  "date_day loc y n = wall_to_unix loc ((days_before_year y - 719162 + n) * 86400) * Second"

definition year_start :: "location \<Rightarrow> int \<Rightarrow> instant" where
  "year_start loc y = date_day loc y 0"

text \<open>\<^verbatim>\<open>Time.Sub\<close>: a \<^verbatim>\<open>Duration\<close> is an \<^verbatim>\<open>int64\<close> and the difference saturates.\<close>

definition go_sub :: "instant \<Rightarrow> instant \<Rightarrow> int" where
  "go_sub t u = max (-(2 ^ 63)) (min (2 ^ 63 - 1) (t - u))"

section \<open>Months and weeks\<close>

definition month_lengths :: "bool \<Rightarrow> int list" where
  "month_lengths lp = [31, if lp then 29 else 28, 31, 30, 31, 30, 31, 31, 30, 31, 30, 31]"

text \<open>Month (from 1) and day of the month (from 1) of a day of the year (from 0).\<close>

fun month_day_from :: "int \<Rightarrow> int list \<Rightarrow> int \<Rightarrow> int \<times> int" where
  "month_day_from m [] d = (m, d + 1)"
| "month_day_from m (len # lens) d = (if d < len then (m, d + 1) else month_day_from (m + 1) lens (d - len))"

definition days_before_month :: "bool \<Rightarrow> int \<Rightarrow> int" where
  "days_before_month lp m = sum_list (take (nat (m - 1)) (month_lengths lp))"

text \<open>\<^verbatim>\<open>Time.Date\<close>, and \<^verbatim>\<open>time.Date\<close> at midnight for a month from 1 to 12.\<close>

definition civil :: "location \<Rightarrow> instant \<Rightarrow> int \<times> int \<times> int" where
  "civil loc t = (let (y, yday) = year_yday (local_day loc t) in (y, month_day_from 1 (month_lengths (leap y)) yday))"

definition Month :: "location \<Rightarrow> instant \<Rightarrow> int" where
  "Month loc t = fst (snd (civil loc t))"

definition midnight :: "location \<Rightarrow> int \<Rightarrow> int \<Rightarrow> int \<Rightarrow> instant" where
  "midnight loc y m d = date_day loc y (days_before_month (leap y) m + d - 1)"

text \<open>Day 0, 1 January of year 1, is a Monday; the ISO week of a day is that of the Thursday of its week.\<close>

definition ISOWeek :: "location \<Rightarrow> instant \<Rightarrow> int \<times> int" where
  "ISOWeek loc t = (let d = local_day loc t; (y, yday) = year_yday (d - d mod 7 + 3) in (y, yday div 7 + 1))"

text \<open>\<^verbatim>\<open>Time.Truncate\<close>: down to a multiple of the duration since the zero time, 1 January of year 1 in UTC.\<close>

definition go_truncate :: "instant \<Rightarrow> int \<Rightarrow> instant" where
  "go_truncate t d = (if d \<le> 0 then t else t - (t + 719162 * Day) mod d)"

section \<open>Lemmas\<close>

lemma leap_count: "(C \<Longrightarrow> B) \<Longrightarrow> (B \<Longrightarrow> A) \<Longrightarrow>
    365 + (if A then 1 else 0) - (if B then 1 else 0) + (if C then 1 else 0)
    = (if A \<and> (\<not> B \<or> C) then 366 else (365 :: int))"
  by (cases A; cases B; cases C) simp_all

lemma days_in_year: "days_before_year (y + 1) - days_before_year y = (if leap y then 366 else 365)"
proof -
  have d: "y div n = (y - 1) div n + (if y mod n = 0 then 1 else 0)" if "0 < n" for n :: int
  proof (cases "y mod n = 0")
    case True
    then obtain k where "y = n * k" by auto
    moreover have "(n * k - 1) div n = k - 1"
      using that by (intro int_div_pos_eq [where r = "n - 1"]) (auto simp: algebra_simps)
    ultimately show ?thesis using that by simp
  next
    case False
    have "y = n * (y div n) + y mod n" by simp
    moreover have "0 < y mod n" "y mod n < n"
      using False that pos_mod_sign [of n y] pos_mod_bound [of n y] by linarith+
    ultimately have "(y - 1) div n = y div n"
      by (intro int_div_pos_eq [where r = "y mod n - 1"]) auto
    with False show ?thesis by simp
  qed
  have m: "y mod 400 = 0 \<Longrightarrow> y mod 100 = 0" "y mod 100 = 0 \<Longrightarrow> y mod 4 = 0"
    using dvd_trans [of 100 400 y] dvd_trans [of 4 100 y] by (simp_all add: mod_eq_0_iff_dvd)
  define p q z where "p n = y div n" and "q n = (y - 1) div n"
    and "z n = (if y mod n = 0 then 1 else 0 :: int)" for n :: int
  have pq: "p n = q n + z n" if "0 < n" for n
    using d [OF that] by (simp add: p_def q_def z_def)
  have "days_before_year (y + 1) - days_before_year y = 365 + z 4 - z 100 + z 400"
    unfolding days_before_year_def add_diff_cancel_right' p_def [symmetric] q_def [symmetric]
    using pq [of 4] pq [of 100] pq [of 400] by simp
  also have "\<dots> = (if leap y then 366 else 365)"
    unfolding z_def leap_def by (rule leap_count [OF m])
  finally show ?thesis .
qed

text \<open>The day number of the first day of a year given by its cycles.\<close>

lemma days_before_cycles:
  assumes "0 \<le> b" "b \<le> 3" "0 \<le> c" "c \<le> 24" "0 \<le> e" "e \<le> 3"
  shows "days_before_year (1 + 400 * a + 100 * b + 4 * c + e) = 146097 * a + 36524 * b + 1461 * c + 365 * e"
proof -
  have "(400 * a + 100 * b + 4 * c + e) div 4 = 100 * a + 25 * b + c"
    using assms by (intro int_div_pos_eq [where r = e]) auto
  moreover have "(400 * a + 100 * b + 4 * c + e) div 100 = 4 * a + b"
    using assms by (intro int_div_pos_eq [where r = "4 * c + e"]) auto
  moreover have "(400 * a + 100 * b + 4 * c + e) div 400 = a"
    using assms by (intro int_div_pos_eq [where r = "100 * b + 4 * c + e"]) auto
  ultimately show ?thesis by (simp add: days_before_year_def add.assoc)
qed

lemma cycle_split:
  fixes d k m :: int
  assumes "0 \<le> d" "d \<le> 4 * k" "0 < k"
  defines "n \<equiv> d div k - d div k div 4"
  shows "0 \<le> n" "n \<le> 3" "0 \<le> d - k * n" "d - k * n < k \<or> (n = 3 \<and> d = 4 * k)"
proof -
  have dk: "d = k * (d div k) + d mod k" "0 \<le> d mod k" "d mod k < k"
    using assms(3) by simp_all
  have q: "0 \<le> d div k" using assms(1,3) by (simp add: pos_imp_zdiv_nonneg_iff)
  have "d div k \<le> (4 * k) div k" using assms(2,3) by (intro zdiv_mono1) auto
  then have q4: "d div k \<le> 4" using assms(3) by simp
  have m: "k * (d div k) \<le> d" "d < k * (d div k) + k"
    using dk by linarith+
  have "0 \<le> n \<and> n \<le> 3 \<and> 0 \<le> d - k * n \<and> (d - k * n < k \<or> n = 3 \<and> d = 4 * k)"
  proof (cases "d div k = 4")
    case True
    with m assms(2,3) show ?thesis by (simp add: n_def)
  next
    case False
    with q q4 have "n = d div k" "d div k \<le> 3" by (auto simp: n_def)
    with q m show ?thesis by simp
  qed
  then show "0 \<le> n" "n \<le> 3" "0 \<le> d - k * n" "d - k * n < k \<or> (n = 3 \<and> d = 4 * k)"
    by simp_all
qed

lemma year_yday_correct:
  assumes "year_yday d = (y, r)"
  shows "d = days_before_year y + r" "0 \<le> r" "r < (if leap y then 366 else 365)"
proof -
  define a where "a = d div 146097"
  define d1 where "d1 = d - 146097 * a"
  define b where "b = d1 div 36524 - d1 div 36524 div 4"
  define d2 where "d2 = d1 - 36524 * b"
  define c where "c = d2 div 1461"
  define d3 where "d3 = d2 - 1461 * c"
  define e where "e = d3 div 365 - d3 div 365 div 4"
  have y: "y = 1 + 400 * a + 100 * b + 4 * c + e" "r = d3 - 365 * e"
  proof -
    have "year_yday d = (1 + 400 * a + 100 * b + 4 * c + e, d3 - 365 * e)"
      by (simp only: year_yday_def Let_def a_def d1_def b_def d2_def c_def d3_def e_def)
    with assms show "y = 1 + 400 * a + 100 * b + 4 * c + e" "r = d3 - 365 * e"
      by (simp_all only: prod.inject)
  qed
  have "d1 = d mod 146097" by (simp only: d1_def a_def minus_mult_div_eq_mod)
  then have "0 \<le> d1" "d1 < 146097" by (simp_all only: pos_mod_sign pos_mod_bound zero_less_numeral)
  then have d1: "0 \<le> d1" "d1 \<le> 4 * 36524" by linarith+
  note b = cycle_split [OF d1, folded b_def d2_def, simplified]
  have "d3 = d2 mod 1461" by (simp only: d3_def c_def minus_mult_div_eq_mod)
  then have "0 \<le> d3" "d3 < 1461" by (simp_all only: pos_mod_sign pos_mod_bound zero_less_numeral)
  then have d3: "0 \<le> d3" "d3 \<le> 4 * 365" by linarith+
  note e = cycle_split [OF d3, folded e_def, simplified]
  have d2: "0 \<le> d2" "d2 \<le> 36524"
    using b by (auto simp: d2_def)
  have c: "0 \<le> c" "c \<le> 24" "d2 = 1461 * c + d3"
    using zdiv_mono1 [OF d2(2), of 1461] d2(1)
    by (simp_all only: c_def d3_def pos_imp_zdiv_nonneg_iff zero_less_numeral) simp_all
  show "d = days_before_year y + r"
    unfolding y using days_before_cycles [of b c e a] b c e by (simp add: d2_def d1_def)
  show "0 \<le> r" using e y by simp
  show "r < (if leap y then 366 else 365)"
  proof (cases "d3 - 365 * e < 365")
    case True
    then show ?thesis using y by simp
  next
    case False
    with e have "e = 3" "d3 = 1460" by auto
    moreover have "leap y"
    proof (cases "c = 24")
      case True
      with c b \<open>d3 = 1460\<close> have "b = 3" by auto
      with True y \<open>e = 3\<close> have "y = 400 * (a + 1)" by simp
      then show ?thesis by (simp add: leap_def)
    next
      case False
      with y \<open>e = 3\<close> have y': "y = 4 * (c + 1) + 100 * (4 * a + b)" by simp
      have "y mod 100 = (4 * (c + 1)) mod 100" by (simp only: y' mod_mult_self2)
      also have "\<dots> = 4 * (c + 1)" using False c by (intro mod_pos_pos_trivial) auto
      finally have "y mod 100 = 4 * (c + 1)" .
      moreover have "y mod 4 = 0"
      proof -
        have "y = 4 * (c + 1 + 25 * (4 * a + b))" using y' by simp
        then show ?thesis by (simp only: mod_mult_self1_is_0)
      qed
      ultimately show ?thesis using c by (simp add: leap_def)
    qed
    ultimately show ?thesis using y by simp
  qed
qed

lemma days_before_year_mono: "y \<le> z \<Longrightarrow> days_before_year y \<le> days_before_year z"
proof (induction z rule: int_ge_induct)
  case (step z)
  then show ?case using days_in_year [of z] by (simp split: if_splits)
qed simp

text \<open>A day between two New Year's days has the year of the first of them.\<close>

lemma year_yday_unique:
  assumes "days_before_year y \<le> d" "d < days_before_year (y + 1)"
  shows "year_yday d = (y, d - days_before_year y)"
proof -
  obtain z r where zr: "year_yday d = (z, r)" by fastforce
  note c = year_yday_correct [OF this]
  have up: "d < days_before_year (z + 1)" using c days_in_year [of z] by (simp split: if_splits)
  have "\<not> z < y" using days_before_year_mono [of "z + 1" y] up assms by auto
  moreover have "\<not> y < z" using days_before_year_mono [of "y + 1" z] c assms by auto
  ultimately have "z = y" by simp
  with c zr show ?thesis by simp
qed

subsection \<open>In UTC\<close>

definition year_days :: "int \<Rightarrow> int" where
  "year_days y = (if leap y then 366 else 365)"

lemma days_before_next: "days_before_year (y + 1) = days_before_year y + year_days y"
  using days_in_year [of y] by (simp add: year_days_def)

lemma year_days_bounds: "365 \<le> year_days y" "year_days y \<le> 366"
  by (simp_all add: year_days_def)

lemma zone_offset_UTC [simp]: "zone_offset UTC s = 0"
  by (simp add: zone_offset_def UTC_def)

lemma date_day_UTC: "date_day UTC y n = (days_before_year y - 719162 + n) * Day"
  by (simp add: date_day_def wall_to_unix_def UTC_def)

lemma date_day_add_UTC: "date_day UTC y n = year_start UTC y + n * Day"
  by (simp add: year_start_def date_day_UTC algebra_simps)

lemma year_start_next: "year_start UTC (y + 1) = year_start UTC y + year_days y * Day"
  unfolding year_start_def date_day_UTC days_before_next by (simp add: algebra_simps)

lemma local_day_UTC: "local_day UTC t = t div Day + 719162"
proof -
  have "t div Second div 86400 = t div (Second * 86400)"
    by (rule zdiv_zmult2_eq [symmetric]) simp
  then show ?thesis by (simp add: local_day_def Unix_def)
qed

lemma day_of_UTC:
  assumes "0 \<le> ns" "ns < year_days y * Day"
  shows "local_day UTC (year_start UTC y + ns) = days_before_year y + ns div Day"
    and "0 \<le> ns div Day" "ns div Day < year_days y"
proof -
  have "(year_start UTC y + ns) div Day = days_before_year y - 719162 + ns div Day"
    unfolding year_start_def date_day_UTC add_0_right
    using div_mult_self3 [of Day "days_before_year y - 719162" ns] by simp
  then show "local_day UTC (year_start UTC y + ns) = days_before_year y + ns div Day"
    by (simp add: local_day_UTC)
  show "0 \<le> ns div Day" using assms by (simp add: pos_imp_zdiv_nonneg_iff)
  show "ns div Day < year_days y"
    using assms by (intro int_div_less) auto
qed

lemma year_in_UTC:
  assumes "0 \<le> ns" "ns < year_days y * Day"
  shows "Year UTC (year_start UTC y + ns) = y"
    and "YearDay UTC (year_start UTC y + ns) = ns div Day + 1"
proof -
  note d = day_of_UTC [OF assms]
  have "year_yday (local_day UTC (year_start UTC y + ns)) = (y, ns div Day)"
    unfolding d(1) using year_yday_unique [of y "days_before_year y + ns div Day"] d(2,3)
    by (simp add: days_before_next)
  then show "Year UTC (year_start UTC y + ns) = y"
    "YearDay UTC (year_start UTC y + ns) = ns div Day + 1"
    by (simp_all add: Year_def YearDay_def)
qed

text \<open>Every instant lies in its year.\<close>

lemma in_year_UTC:
  obtains ns where "t = year_start UTC (Year UTC t) + ns" "0 \<le> ns"
    "ns < year_days (Year UTC t) * Day"
proof -
  obtain y r where yr: "year_yday (local_day UTC t) = (y, r)" by fastforce
  note c = year_yday_correct [OF this]
  have y: "Year UTC t = y" using yr by (simp add: Year_def)
  have td: "t div Day = days_before_year y - 719162 + r"
    using c(1) by (simp add: local_day_UTC)
  let ?ns = "r * Day + t mod Day"
  have "t = year_start UTC y + ?ns"
  proof -
    have "t = Day * (t div Day) + t mod Day" by (simp only: mult_div_mod_eq)
    also have "Day * (t div Day) = year_start UTC y + r * Day"
      unfolding td year_start_def date_day_UTC by (simp add: algebra_simps)
    finally show ?thesis by (simp only: add.assoc)
  qed
  moreover have "0 \<le> ?ns" using c(2) by simp
  moreover have "?ns < year_days y * Day"
  proof -
    have "t mod Day < Day" by simp
    moreover have "(r + 1) * Day \<le> year_days y * Day"
      using c(3) by (intro mult_right_mono) (auto simp: year_days_def)
    ultimately show ?thesis by (simp add: algebra_simps)
  qed
  ultimately show ?thesis using that y by blast
qed

end
