(* ===== verification/TimeIndex.thy ===== *)
theory TimeIndex
  imports GoTime
begin

text \<open>
  The time index of a year file (\<^verbatim>\<open>utils/io/timeindex.go\<close>) and the size of the file
  (\<^verbatim>\<open>FileSize\<close> of \<^verbatim>\<open>utils/io/metadata.go\<close>). A year file holds one slot per interval of the year; the
  index of an instant is the number of its interval and the slot's place follows from it. The zone
  \<^verbatim>\<open>utils.InstanceConfig.Timezone\<close> is the argument \<open>loc\<close>, the zone of the machine the argument
  \<open>local\<close>; the theorems are for UTC, the zone a default configuration has. Durations of intervals are
  positive; the code would divide by zero otherwise.
\<close>

section \<open>Model\<close>

definition Headersize :: int where "Headersize = 37024"

definition IndexToTime :: "location \<Rightarrow> int \<Rightarrow> int \<Rightarrow> int \<Rightarrow> instant" where
  "IndexToTime loc index tf year =
     (if tf = Day then date_day loc year index
      else year_start loc year + to_int64 (tf * (index - 1)))"

text \<open>Converting to a zone does not move the instant.\<close>

definition ToSystemTimezone :: "instant \<Rightarrow> instant" where "ToSystemTimezone t = t"

definition TimeToIndex :: "location \<Rightarrow> instant \<Rightarrow> int \<Rightarrow> int" where
  "TimeToIndex loc t tf =
     (let tLocal = ToSystemTimezone t
      in if tf = Day then YearDay loc tLocal - 1
         else 1 + go_sub tLocal (year_start loc (Year loc tLocal)) sdiv tf)"

definition EpochToIndex :: "location \<Rightarrow> int \<Rightarrow> int \<Rightarrow> int" where
  "EpochToIndex loc epoch tf = TimeToIndex loc (unix_time epoch 0) tf"

definition TimeToOffset :: "location \<Rightarrow> instant \<Rightarrow> int \<Rightarrow> int \<Rightarrow> int" where
  "TimeToOffset loc t tf recordSize = (TimeToIndex loc t tf - 1) * recordSize + Headersize"

definition IndexToOffset :: "int \<Rightarrow> int \<Rightarrow> int" where
  "IndexToOffset index recordSize = (index - 1) * recordSize + Headersize"

definition EpochToOffset :: "location \<Rightarrow> int \<Rightarrow> int \<Rightarrow> int \<Rightarrow> int" where
  "EpochToOffset loc epoch tf recordSize = IndexToOffset (EpochToIndex loc epoch tf) recordSize"

definition daysInYear :: "location \<Rightarrow> int \<Rightarrow> int" where
  "daysInYear loc year = YearDay loc (date_day loc (year + 1) (-1))"

definition nanosecondsInYear :: "location \<Rightarrow> int \<Rightarrow> int" where
  "nanosecondsInYear loc year = go_sub (year_start loc (year + 1)) (year_start loc year)"

definition FileSize :: "location \<Rightarrow> int \<Rightarrow> int \<Rightarrow> int \<Rightarrow> int" where
  "FileSize loc tf year recordSize = Headersize + nanosecondsInYear loc year sdiv tf * recordSize"

section \<open>Lemmas\<close>

lemma year_ns_bound: "year_days y * Day < 2 ^ 63"
  using year_days_bounds [of y] by simp

lemma go_sub_small: "0 \<le> t - u \<Longrightarrow> t - u < 2 ^ 63 \<Longrightarrow> go_sub t u = t - u"
  by (simp add: go_sub_def)

lemma nanosecondsInYear_UTC [simp]: "nanosecondsInYear UTC y = year_days y * Day"
  unfolding nanosecondsInYear_def year_start_next
  using year_ns_bound [of y] year_days_bounds [of y] by (subst go_sub_small) simp_all

lemma daysInYear_UTC: "daysInYear UTC y = year_days y"
proof -
  have "date_day UTC (y + 1) (- 1) = year_start UTC y + (year_days y - 1) * Day"
    unfolding date_day_add_UTC year_start_next by (simp add: algebra_simps)
  moreover have "((year_days y - 1) * Day) div Day = year_days y - 1"
    by (rule nonzero_mult_div_cancel_right) simp
  ultimately show ?thesis
    using year_in_UTC(2) [of "(year_days y - 1) * Day" y] year_days_bounds [of y]
    by (simp add: daysInYear_def)
qed

text \<open>The index of an instant given by its nanoseconds into the year.\<close>

lemma TimeToIndex_UTC:
  assumes "0 \<le> ns" "ns < year_days y * Day" "0 < tf"
  shows "TimeToIndex UTC (year_start UTC y + ns) tf = (if tf = Day then ns div Day else 1 + ns div tf)"
proof -
  have "go_sub (year_start UTC y + ns) (year_start UTC y) = ns"
    using assms(1,2) year_ns_bound [of y] by (subst go_sub_small) simp_all
  then show ?thesis
    using year_in_UTC [OF assms(1,2)] assms
    by (simp add: TimeToIndex_def Let_def ToSystemTimezone_def sdiv_nonneg)
qed

lemma IndexToTime_UTC:
  assumes "0 < tf" "tf \<noteq> Day" "1 \<le> i" "(i - 1) * tf < year_days y * Day"
  shows "IndexToTime UTC i tf y = year_start UTC y + (i - 1) * tf"
proof -
  have "0 \<le> (i - 1) * tf" using assms by simp
  then have "to_int64 (tf * (i - 1)) = (i - 1) * tf"
    using assms(4) year_ns_bound [of y] by (simp add: go_int mult.commute)
  then show ?thesis using assms(2) by (simp add: IndexToTime_def)
qed

lemma IndexToTime_Day_UTC: "IndexToTime UTC i Day y = year_start UTC y + i * Day"
  by (simp add: IndexToTime_def date_day_add_UTC)

lemma index_slots: "i < j \<Longrightarrow> 0 \<le> rs \<Longrightarrow> IndexToOffset i rs + rs \<le> IndexToOffset j rs"
proof -
  assume "i < j" "0 \<le> rs"
  then have "(i - 1 + 1) * rs \<le> (j - 1) * rs" by (intro mult_right_mono) auto
  then show ?thesis by (simp add: IndexToOffset_def algebra_simps)
qed

lemma FileSize_UTC: "0 < tf \<Longrightarrow> FileSize UTC tf y rs = Headersize + year_days y * Day div tf * rs"
  using year_days_bounds [of y] by (simp only: FileSize_def nanosecondsInYear_UTC) (subst sdiv_nonneg; simp)

text \<open>Indices of instants of an intraday bucket lie between one and the number of its slots, in the order of the instants.\<close>

lemma index_bounds:
  assumes "0 < tf" "tf dvd Day" "tf \<noteq> Day"
  shows "1 \<le> TimeToIndex UTC t tf" "TimeToIndex UTC t tf \<le> year_days (Year UTC t) * Day div tf"
proof -
  obtain ns where ns: "t = year_start UTC (Year UTC t) + ns" "0 \<le> ns" "ns < year_days (Year UTC t) * Day"
    by (rule in_year_UTC)
  let ?n = "year_days (Year UTC t) * Day"
  have i: "TimeToIndex UTC t tf = 1 + ns div tf"
    using TimeToIndex_UTC [OF ns(2,3) assms(1)] ns(1) assms(3) by simp
  have "tf dvd ?n" using assms(2) by (rule dvd_mult)
  then have n: "?n = ?n div tf * tf" by (simp only: dvd_div_mult_self)
  have "ns div tf < ?n div tf"
    using ns(3) assms(1) n by (intro int_div_less) auto
  moreover have "0 \<le> ns div tf" using ns assms by (simp add: pos_imp_zdiv_nonneg_iff)
  ultimately show "1 \<le> TimeToIndex UTC t tf" "TimeToIndex UTC t tf \<le> ?n div tf" using i by linarith+
qed

lemma index_mono:
  assumes "0 < tf" "tf \<noteq> Day" "t \<le> u" "Year UTC u = Year UTC t"
  shows "TimeToIndex UTC t tf \<le> TimeToIndex UTC u tf"
proof -
  have i: "TimeToIndex UTC v tf = 1 + (v - year_start UTC (Year UTC v)) div tf" for v
    by (rule in_year_UTC [of v]) (use TimeToIndex_UTC assms(1,2) in \<open>metis add_diff_cancel_left'\<close>)
  show ?thesis using assms by (simp add: i zdiv_mono1)
qed

section \<open>Properties\<close>

text \<open>
  C20: the index of an interval and its starting time determine each other. For an interval shorter or longer
  than a day, the time of index \<open>i\<close> of year \<open>y\<close> lies in year \<open>y\<close> and has index \<open>i\<close> again, for every
  interval that starts within the year.
\<close>

theorem index_time_roundtrip:
  assumes "0 < tf" "tf \<noteq> Day" "1 \<le> i" "(i - 1) * tf < year_days y * Day"
  shows "Year UTC (IndexToTime UTC i tf y) = y \<and> TimeToIndex UTC (IndexToTime UTC i tf y) tf = i"
proof -
  have "0 \<le> (i - 1) * tf" using assms by simp
  from TimeToIndex_UTC [OF this assms(4,1)] year_in_UTC(1) [OF this assms(4)]
  show ?thesis using assms by (simp add: IndexToTime_UTC)
qed

theorem index_time_roundtrip_witness:
  "Year UTC (IndexToTime UTC 525600 Minute 2019) = 2019 \<and>
   TimeToIndex UTC (IndexToTime UTC 525600 Minute 2019) Minute = 525600"
  by (rule index_time_roundtrip) (simp_all add: year_days_def leap_def)

text \<open>
  C21: the index is the interval that holds the instant: the time of the index is at or before the instant and
  the next interval starts after it, for intervals of a day and all others, in every year.
\<close>

theorem time_in_indexed_interval:
  assumes "0 < tf"
  shows "IndexToTime UTC (TimeToIndex UTC t tf) tf (Year UTC t) \<le> t \<and>
    t < IndexToTime UTC (TimeToIndex UTC t tf) tf (Year UTC t) + tf"
proof -
  obtain ns where ns: "t = year_start UTC (Year UTC t) + ns" "0 \<le> ns" "ns < year_days (Year UTC t) * Day"
    by (rule in_year_UTC)
  let ?y = "Year UTC t"
  have i: "TimeToIndex UTC t tf = (if tf = Day then ns div Day else 1 + ns div tf)"
    using TimeToIndex_UTC [OF ns(2,3) assms] ns(1) by simp
  have fl: "ns div tf * tf \<le> ns" "ns < ns div tf * tf + tf"
    using assms minus_div_mult_eq_mod [of ns tf] pos_mod_sign [of tf ns] pos_mod_bound [of tf ns]
    by linarith+
  show ?thesis
  proof (cases "tf = Day")
    case True
    have "IndexToTime UTC (TimeToIndex UTC t tf) tf ?y = year_start UTC ?y + ns div tf * tf"
      using i True by (simp only: simp_thms if_True IndexToTime_Day_UTC)
    then show ?thesis using fl ns(1) by linarith
  next
    case False
    have "0 \<le> ns div tf" using ns assms by (simp add: pos_imp_zdiv_nonneg_iff)
    then have "IndexToTime UTC (TimeToIndex UTC t tf) tf ?y = year_start UTC ?y + ns div tf * tf"
      using i False fl(1) ns(3) assms IndexToTime_UTC [of tf "1 + ns div tf" ?y] by simp
    then show ?thesis using fl ns(1) by linarith
  qed
qed

theorem time_in_indexed_interval_witness:
  "(0::int) < 300 * Second \<and>
   IndexToTime UTC (TimeToIndex UTC 1500000123 (300 * Second)) (300 * Second) (Year UTC 1500000123) \<le> 1500000123"
  using time_in_indexed_interval [of "300 * Second" 1500000123] by simp



text \<open>
  C38: in a daily bucket the first of January has index 0, which marks an empty slot, and its slot is the
  last record length of the file header, outside the data area; the record written for that day is never
  returned by a read. Every other day of the year has an index of its own inside the data area.
\<close>

theorem daily_new_year_in_header:
  assumes "0 \<le> ns" "ns < Day"
  shows "TimeToIndex UTC (year_start UTC y + ns) Day = 0 \<and>
    TimeToOffset UTC (year_start UTC y + ns) Day rs = Headersize - rs"
proof -
  have "ns < year_days y * Day" using assms year_days_bounds [of y] by simp
  from TimeToIndex_UTC [OF assms(1) this, of Day] assms
  show ?thesis by (simp add: TimeToOffset_def)
qed

theorem daily_new_year_in_header_witness:
  "TimeToIndex UTC (year_start UTC 2020 + Hour) Day = 0 \<and>
   TimeToOffset UTC (year_start UTC 2020 + Hour) Day 48 = Headersize - 48"
  by (rule daily_new_year_in_header) simp_all

end
