(* ===== verification/Metadata.thy ===== *)
theory Metadata
  imports Datatypes TimeIndex Primary
begin

text \<open>
  The description of a year file and its header: \<^verbatim>\<open>utils/io/metadata.go\<close> and \<^verbatim>\<open>utils/io/datashape.go\<close>. A
  \<^verbatim>\<open>TimeBucketInfo\<close> is created in memory for a new file, or with nothing but path and year for a file the catalog
  found, and is then completed from the header of the file on first use. The header is the memory of a
  \<^verbatim>\<open>Header\<close> struct, 37024 bytes.
\<close>

section \<open>Data shapes\<close>

record DataShape =
  dsName :: string
  dsType :: EnumElementType

text \<open>\<^verbatim>\<open>NewDataShapeVector\<close> indexes the types by the position of the name.\<close>

definition NewDataShapeVector :: "string list \<Rightarrow> EnumElementType list \<Rightarrow> DataShape list result" where
  "NewDataShapeVector names etypes =
     (if length etypes < length names then Inl (Panic ''index out of range'')
      else Inr (map (\<lambda>(n, t). \<lparr>dsName = n, dsType = t\<rparr>) (zip names etypes)))"

definition shape_len :: "DataShape \<Rightarrow> nat" where
  "shape_len ds = Size (dsType ds)"

fun element_String :: "EnumElementType \<Rightarrow> string" where
  "element_String FLOAT32 = ''FLOAT32''" | "element_String INT32 = ''INT32''" | "element_String FLOAT64 = ''FLOAT64''"
| "element_String INT64 = ''INT64''" | "element_String EPOCH = ''EPOCH''" | "element_String BYTE = ''BYTE''"
| "element_String BOOL = ''BOOL''" | "element_String NONE = ''NONE''" | "element_String STRING = ''STRING''"
| "element_String INT16 = ''INT16''" | "element_String UINT8 = ''UINT8''" | "element_String UINT16 = ''UINT16''"
| "element_String UINT32 = ''UINT32''" | "element_String UINT64 = ''UINT64''"
| "element_String (OTHER b) = ''EnumElementType('' @ Itoa (uint b) @ '')''"

definition shape_String :: "DataShape \<Rightarrow> string" where
  "shape_String ds = dsName ds @ '':'' @ element_String (dsType ds)"

definition shape_Equal :: "DataShape \<Rightarrow> DataShape \<Rightarrow> bool" where
  "shape_Equal ds shape \<longleftrightarrow> dsName ds = dsName shape \<and> dsType ds = dsType shape"

text \<open>The input form of shapes: groups \<^verbatim>\<open>name,name/type\<close> separated by colons.\<close>

definition parse_shape_group :: "string \<Rightarrow> DataShape list result" where
  "parse_shape_group grp =
     (case Split grp ''/'' of
        [names, elementType] \<Rightarrow>
          let eType = EnumElementTypeFromName elementType
          in if eType = NONE then Inl (Err ''Data type is not a supported type'')
             else Inr (map (\<lambda>name. \<lparr>dsName = name, dsType = eType\<rparr>) (Split names '',''))
      | _ \<Rightarrow> Inl (Err ''Data shape is not described by a list of column names followed by type.''))"

fun parse_shape_groups :: "string list \<Rightarrow> DataShape list \<Rightarrow> DataShape list result" where
  "parse_shape_groups [] dsa = Inr dsa"
| "parse_shape_groups (grp # grps) dsa =
     (case parse_shape_group grp of Inl e \<Rightarrow> Inl e | Inr ds \<Rightarrow> parse_shape_groups grps (dsa @ ds))"

definition DataShapesFromInputString :: "string \<Rightarrow> DataShape list result" where
  "DataShapesFromInputString inputStr = parse_shape_groups (Split inputStr '':'') []"

section \<open>The description of a year file\<close>

definition FileinfoVersion :: int where "FileinfoVersion = 2"

record TimeBucketInfo =
  tbYear :: int
  tbPath :: path
  IsRead :: bool
  version :: int
  description :: string
  timeframe :: int
  nElements :: int
  recordType :: int
  recordLength :: int
  variableRecordLength :: int
  elementNames :: "string list"
  elementTypes :: "EnumElementType list"
  once_done :: bool

text \<open>The struct before anything is set.\<close>

definition zero_info :: TimeBucketInfo where
  "zero_info = \<lparr>tbYear = 0, tbPath = [], IsRead = False, version = 0, description = [], timeframe = 0, nElements = 0,
     recordType = 0, recordLength = 0, variableRecordLength = 0, elementNames = [], elementTypes = [], once_done = False\<rparr>"

text \<open>Rounding up to the word size of the machine.\<close>

definition AlignedSize :: "int \<Rightarrow> int" where
  "AlignedSize unalignedSize =
     (let remainder = unalignedSize smod 8
      in if remainder = 0 then unalignedSize else unalignedSize + 8 - remainder)"

definition CreateShapesForTimeBucketInfo :: "DataShape list \<Rightarrow> EnumElementType list \<times> string list" where
  "CreateShapesForTimeBucketInfo dsv =
     (let kept = filter (\<lambda>shape. dsName shape \<noteq> ''Epoch'') dsv in (map dsType kept, map dsName kept))"

definition sum_sizes :: "EnumElementType list \<Rightarrow> int" where
  "sum_sizes ts = sum_list (map (\<lambda>t. int (Size t)) ts)"

text \<open>
  \<^verbatim>\<open>NewTimeBucketInfo\<close>. The length of fixed records asks for the element types, which uses up the \<^verbatim>\<open>sync.Once\<close> of the
  struct; the file is not read since the struct is already marked as read.
\<close>

definition NewTimeBucketInfo :: "int \<Rightarrow> path \<Rightarrow> string \<Rightarrow> int \<Rightarrow> DataShape list \<Rightarrow> int \<Rightarrow> TimeBucketInfo" where
  "NewTimeBucketInfo tf path descr year dsv rectype =
     (let (types, names) = CreateShapesForTimeBucketInfo dsv;
          f = zero_info\<lparr>version := FileinfoVersion, tbPath := Join path (Itoa year @ ''.bin''), IsRead := True,
                timeframe := tf, description := descr, tbYear := year, nElements := to_int32 (int (length types)),
                elementTypes := types, elementNames := names, recordType := rectype\<rparr>
      in if rectype = FIXED
         then f\<lparr>recordLength := to_int32 (to_int32 (AlignedSize (sum_sizes types)) + 8), once_done := True\<rparr>
         else if rectype = VARIABLE then f\<lparr>recordLength := 24, variableRecordLength := 0\<rparr>
         else f)"

section \<open>The header\<close>

record Header =
  hVersion :: int
  hDescription :: bytes
  hYear :: int
  hTimeframe :: int
  hRecordType :: int
  hNElements :: int
  hRecordLength :: int
  hReserved1 :: int
  hElementNames :: "bytes list"
  hElementTypes :: bytes
  hReserved2 :: bytes

definition header_size :: nat where "header_size = 37024"

text \<open>The memory of the struct, and the struct that a buffer of this size is the memory of.\<close>

definition header_bytes :: "Header \<Rightarrow> bytes" where
  "header_bytes h = le_bytes 8 (hVersion h) @ hDescription h @ le_bytes 8 (hYear h) @ le_bytes 8 (hTimeframe h)
     @ le_bytes 8 (hRecordType h) @ le_bytes 8 (hNElements h) @ le_bytes 8 (hRecordLength h) @ le_bytes 8 (hReserved1 h)
     @ concat (hElementNames h) @ hElementTypes h @ hReserved2 h"

definition header_of :: "bytes \<Rightarrow> Header" where
  "header_of b = \<lparr>hVersion = ToInt64 b, hDescription = read_at b 8 256, hYear = ToInt64 (drop 264 b),
     hTimeframe = ToInt64 (drop 272 b), hRecordType = ToInt64 (drop 280 b), hNElements = ToInt64 (drop 288 b),
     hRecordLength = ToInt64 (drop 296 b), hReserved1 = ToInt64 (drop 304 b),
     hElementNames = chunks 32 1024 (drop 312 b), hElementTypes = read_at b 33080 1024, hReserved2 = read_at b 34104 2920\<rparr>"

text \<open>\<^verbatim>\<open>bytes.Trim\<close> with the zero byte, and \<^verbatim>\<open>strings.Title\<close>: the first letter of every word in upper case.\<close>

definition trim_zeros :: "bytes \<Rightarrow> bytes" where
  "trim_zeros b = rev (dropWhile (\<lambda>x. x = 0) (rev (dropWhile (\<lambda>x. x = 0) b)))"

definition is_separator :: "char \<Rightarrow> bool" where
  "is_separator c = (let n = of_char c :: nat
     in \<not> (48 \<le> n \<and> n \<le> 57 \<or> 65 \<le> n \<and> n \<le> 90 \<or> 97 \<le> n \<and> n \<le> 122 \<or> n = 95))"

fun title_from :: "char \<Rightarrow> string \<Rightarrow> string" where
  "title_from prev [] = []"
| "title_from prev (c # cs) = (if is_separator prev then upper_char c else c) # title_from c cs"

definition Title :: "string \<Rightarrow> string" where
  "Title s = title_from (CHR '' '') s"

text \<open>\<^verbatim>\<open>load\<close>: the arrays of the header have 1024 places.\<close>

definition load :: "Header \<Rightarrow> path \<Rightarrow> TimeBucketInfo \<Rightarrow> TimeBucketInfo result" where
  "load hp path f =
     (let n = to_int32 (hNElements hp)
      in if 1024 < n then Inl (Panic ''index out of range'')
         else Inr (f\<lparr>version := hVersion hp, description := bytes_str (trim_zeros (hDescription hp)),
                tbYear := to_int16 (hYear hp), tbPath := Clean path, IsRead := True, timeframe := hTimeframe hp,
                nElements := n, recordLength := to_int32 (hRecordLength hp), recordType := to_int8 (hRecordType hp),
                elementNames := map (\<lambda>b. Title (bytes_str (trim_zeros b))) (take (nat n) (hElementNames hp)),
                elementTypes := map element_of_code (take (nat n) (hElementTypes hp))\<rparr>))"

definition NewTimeBucketInfoFromHeader :: "Header \<Rightarrow> path \<Rightarrow> TimeBucketInfo result" where
  "NewTimeBucketInfoFromHeader hp path = load hp path zero_info"

text \<open>
  \<^verbatim>\<open>readHeader\<close>: the fixed part, the names in use, past the unused names to the types in use, and for variable records
  to the end. Each read fills a part of the zeroed buffer that is the header; a short read ends the reading, with the
  error of the read, which for a read of some bytes is none.
\<close>

definition readHeader :: "disk \<Rightarrow> path \<Rightarrow> TimeBucketInfo \<Rightarrow> TimeBucketInfo \<times> go_err option" where
  "readHeader fs path f =
    (case fs path of None \<Rightarrow> (f, Some (NotExist path)) | Some content \<Rightarrow>
     let (d1, n, err, ptr) = Read 312 \<lparr>fdata = content, fpos = 0\<rparr>;
         buffer = copy_at 0 (replicate header_size 0) d1
     in if err \<noteq> None \<or> n \<noteq> 312 then (f, err) else
     let nel = hNElements (header_of buffer); secondReadSize = to_int64 (nel * 32)
     in if \<not> (0 \<le> secondReadSize \<and> 312 + secondReadSize \<le> int header_size)
        then (f, Some (Panic ''slice bounds out of range'')) else
     let (d2, n, err, ptr) = Read (nat secondReadSize) ptr; buffer = copy_at 312 buffer d2
     in if err \<noteq> None \<or> int n \<noteq> secondReadSize then (f, err) else
     let (ptr, _) = Seek (int (fpos ptr) + (1024 * 32 - secondReadSize)) ptr; start = 312 + 1024 * 32
     in if \<not> (0 \<le> nel \<and> start + nel \<le> int header_size)
        then (f, Some (Panic ''slice bounds out of range'')) else
     let (d3, n, err, ptr) = Read (nat nel) ptr; buffer = copy_at (nat start) buffer d3
     in if err \<noteq> None \<or> int n \<noteq> nel then (f, err) else
     let start = start + nel; rest = nat (int header_size - start);
         (d4, n, err, ptr) = (if to_int8 (hRecordType (header_of buffer)) = VARIABLE then Read rest ptr
                              else (read_at buffer (nat start) rest, rest, None, ptr));
         buffer = copy_at (nat start) buffer d4
     in if err \<noteq> None \<or> n \<noteq> rest then (f, err)
        else (case load (header_of buffer) path f of Inl e \<Rightarrow> (f, Some e) | Inr f' \<Rightarrow> (f', None)))"

text \<open>\<^verbatim>\<open>initFromFile\<close> ends the process on an error, and \<^verbatim>\<open>once.Do\<close> lets it run once for a struct.\<close>

definition initFromFile :: "disk \<Rightarrow> TimeBucketInfo \<Rightarrow> TimeBucketInfo result" where
  "initFromFile fs f =
     (if IsRead f then Inr f
      else case readHeader fs (tbPath f) f of
          (f', Some (Panic s)) \<Rightarrow> Inl (Panic s)
        | (f', Some e) \<Rightarrow> Inl (Fatal ''failed to read header'')
        | (f', None) \<Rightarrow> Inr (f'\<lparr>IsRead := True\<rparr>))"

definition once_do :: "disk \<Rightarrow> TimeBucketInfo \<Rightarrow> TimeBucketInfo result" where
  "once_do fs f = (if once_done f then Inr f else res_bind (initFromFile fs f) (\<lambda>f. Inr (f\<lparr>once_done := True\<rparr>)))"

section \<open>Getters\<close>

text \<open>Each getter first completes the struct from the file, and returns the value and the struct.\<close>

definition getter :: "(TimeBucketInfo \<Rightarrow> 'a) \<Rightarrow> disk \<Rightarrow> TimeBucketInfo \<Rightarrow> ('a \<times> TimeBucketInfo) result" where
  "getter g fs f = res_bind (once_do fs f) (\<lambda>f. Inr (g f, f))"

definition GetVersion where "GetVersion = getter version"
definition GetDescription where "GetDescription = getter description"
definition GetTimeframe where "GetTimeframe = getter timeframe"
definition GetNelements where "GetNelements = getter nElements"
definition GetRecordLength where "GetRecordLength = getter recordLength"
definition GetRecordType where "GetRecordType = getter recordType"
definition GetElementNames where "GetElementNames = getter elementNames"
definition GetElementTypes where "GetElementTypes = getter elementTypes"

definition GetIntervals :: "disk \<Rightarrow> TimeBucketInfo \<Rightarrow> (int \<times> TimeBucketInfo) result" where
  "GetIntervals fs f = res_bind (once_do fs f) (\<lambda>f.
     if timeframe f = 0 then Inl (Panic ''integer divide by zero'') else Inr (Day sdiv timeframe f, f))"

definition getFieldRecordLength :: "disk \<Rightarrow> TimeBucketInfo \<Rightarrow> (int \<times> TimeBucketInfo) result" where
  "getFieldRecordLength fs f = res_bind (GetElementTypes fs f) (\<lambda>(types, f). Inr (sum_sizes types, f))"

definition GetVariableRecordLength :: "disk \<Rightarrow> TimeBucketInfo \<Rightarrow> (int \<times> TimeBucketInfo) result" where
  "GetVariableRecordLength fs f = res_bind (once_do fs f) (\<lambda>f.
     if recordType f = VARIABLE \<and> variableRecordLength f = 0
     then res_bind (getFieldRecordLength fs f) (\<lambda>(n, f).
            let n = to_int32 (to_int32 n + 4) in Inr (n, f\<lparr>variableRecordLength := n\<rparr>))
     else Inr (variableRecordLength f, f))"

definition GetDataShapes :: "disk \<Rightarrow> TimeBucketInfo \<Rightarrow> (DataShape list \<times> TimeBucketInfo) result" where
  "GetDataShapes fs f = res_bind (GetElementNames fs f) (\<lambda>(names, f). res_bind (GetElementTypes fs f) (\<lambda>(types, f).
     res_bind (NewDataShapeVector names types) (\<lambda>dsv. Inr (dsv, f))))"

definition GetDataShapesWithEpoch :: "disk \<Rightarrow> TimeBucketInfo \<Rightarrow> (DataShape list \<times> TimeBucketInfo) result" where
  "GetDataShapesWithEpoch fs f = res_bind (GetDataShapes fs f) (\<lambda>(dsv, f).
     Inr (\<lparr>dsName = ''Epoch'', dsType = INT64\<rparr> # dsv, f))"

text \<open>The copy has a \<^verbatim>\<open>sync.Once\<close> of its own.\<close>

definition GetDeepCopy :: "disk \<Rightarrow> TimeBucketInfo \<Rightarrow> (TimeBucketInfo \<times> TimeBucketInfo) result" where
  "GetDeepCopy fs f = res_bind (once_do fs f) (\<lambda>f. Inr (f\<lparr>once_done := False\<rparr>, f))"

definition SetElementTypes :: "EnumElementType list \<Rightarrow> TimeBucketInfo \<Rightarrow> TimeBucketInfo result" where
  "SetElementTypes newTypes f =
     (if length newTypes \<noteq> length (elementTypes f) then Inl (Err ''Element count not equal'')
      else Inr (f\<lparr>elementTypes := newTypes\<rparr>))"

section \<open>Writing the header\<close>

text \<open>Copying into a byte array of a zeroed header.\<close>

definition fill :: "nat \<Rightarrow> string \<Rightarrow> bytes" where
  "fill n s = copy_at 0 (replicate n 0) (str_bytes s)"

definition zero_pad :: "nat \<Rightarrow> 'a \<Rightarrow> 'a list \<Rightarrow> 'a list" where
  "zero_pad n z xs = xs @ replicate (n - length xs) z"

text \<open>\<^verbatim>\<open>Header.Load\<close>, on the zeroed header that its only caller has; a version of another kind is only warned about.\<close>

definition Load :: "disk \<Rightarrow> TimeBucketInfo \<Rightarrow> (Header \<times> TimeBucketInfo) result" where
  "Load fs f = res_bind (once_do fs f) (\<lambda>f.
     let n = nElements f
     in if int (length (elementNames f)) < n \<or> int (length (elementTypes f)) < n \<or> 1024 < n
        then Inl (Panic ''index out of range'')
        else Inr (\<lparr>hVersion = version f, hDescription = fill 256 (description f), hYear = tbYear f,
               hTimeframe = timeframe f, hRecordType = recordType f, hNElements = n, hRecordLength = recordLength f,
               hReserved1 = 0,
               hElementNames = zero_pad 1024 (replicate 32 0) (map (fill 32) (take (nat n) (elementNames f))),
               hElementTypes = zero_pad 1024 0 (map element_code (take (nat n) (elementTypes f))),
               hReserved2 = replicate 2920 0\<rparr>, f))"

definition WriteHeader :: "disk \<Rightarrow> file_ptr \<Rightarrow> TimeBucketInfo \<Rightarrow> (file_ptr \<times> TimeBucketInfo) result" where
  "WriteHeader fs file f = res_bind (Load fs f) (\<lambda>(header, f). Inr (Write (header_bytes header) file, f))"

section \<open>Lemmas\<close>

lemma copy_at_zeros: "length d \<le> k \<Longrightarrow> copy_at (length xs) (xs @ replicate k z) d = xs @ d @ replicate (k - length d) z"
  by (subst copy_at_fits) simp_all

lemma fill_eq: "length s \<le> n \<Longrightarrow> fill n s = str_bytes s @ replicate (n - length s) 0"
  using copy_at_zeros [of "str_bytes s" n "[]" 0] by (simp add: fill_def)

lemma length_fill [simp]: "length (fill n s) = n"
  by (simp add: fill_def length_copy_at)

lemma dropWhile_none: "x \<notin> set xs \<Longrightarrow> dropWhile (\<lambda>y. y = x) xs = xs"
  by (cases xs) auto

lemma trim_fill: "length s \<le> n \<Longrightarrow> 0 \<notin> set (str_bytes s) \<Longrightarrow> bytes_str (trim_zeros (fill n s)) = s"
proof -
  assume s: "length s \<le> n" "0 \<notin> set (str_bytes s)"
  have z: "dropWhile (\<lambda>y. y = 0) (replicate k 0 @ xs) = dropWhile (\<lambda>y. y = 0) xs" for k and xs :: bytes
    by (induction k) auto
  have "trim_zeros (fill n s) = str_bytes s"
  proof (cases "s = []")
    case True
    then show ?thesis using z [of _ "[]"] by (simp add: trim_zeros_def fill_eq str_bytes_def)
  next
    case False
    then have "str_bytes s \<noteq> []" by (simp add: str_bytes_def)
    then have "dropWhile (\<lambda>x. x = 0) (str_bytes s @ replicate (n - length s) 0) = str_bytes s @ replicate (n - length s) 0"
      using s(2) by (cases "str_bytes s") auto
    then show ?thesis
      using s dropWhile_none [of 0 "rev (str_bytes s)"] by (simp add: trim_zeros_def fill_eq z)
  qed
  then show ?thesis by simp
qed

text \<open>The headers that are the memory of a struct.\<close>

definition header_ok :: "Header \<Rightarrow> bool" where
  "header_ok h \<longleftrightarrow> length (hDescription h) = 256 \<and> length (hElementNames h) = 1024
     \<and> (\<forall>x \<in> set (hElementNames h). length x = 32) \<and> length (hElementTypes h) = 1024 \<and> length (hReserved2 h) = 2920
     \<and> to_int64 (hVersion h) = hVersion h \<and> to_int64 (hYear h) = hYear h \<and> to_int64 (hTimeframe h) = hTimeframe h
     \<and> to_int64 (hRecordType h) = hRecordType h \<and> to_int64 (hNElements h) = hNElements h
     \<and> to_int64 (hRecordLength h) = hRecordLength h \<and> to_int64 (hReserved1 h) = hReserved1 h"

lemma length_header_bytes: "header_ok h \<Longrightarrow> length (header_bytes h) = header_size"
  by (simp add: header_ok_def header_bytes_def length_concat_equal [where n = 32] header_size_def del: le_bytes.simps)

lemma header_of_bytes:
  assumes "header_ok h"
  shows "header_of (header_bytes h @ rest) = h"
proof -
  have l: "length (concat (hElementNames h)) = 32768"
    using assms length_concat_equal [of "hElementNames h" 32] by (simp add: header_ok_def)
  have "chunks 32 1024 (concat (hElementNames h) @ xs) = hElementNames h" for xs
    using assms chunks_concat [of "hElementNames h" 32 xs] by (simp add: header_ok_def)
  with l assms show ?thesis
    by (cases h) (simp add: header_of_def header_bytes_def header_ok_def read_at_def del: le_bytes.simps)
qed

text \<open>The descriptions that fit the header: the widths of the fields, the arrays, and names that loading does not change.\<close>

definition name_ok :: "string \<Rightarrow> bool" where
  "name_ok s \<longleftrightarrow> length s \<le> 32 \<and> 0 \<notin> set (str_bytes s) \<and> Title s = s"

definition info_ok :: "TimeBucketInfo \<Rightarrow> bool" where
  "info_ok f \<longleftrightarrow> to_int64 (version f) = version f \<and> to_int16 (tbYear f) = tbYear f \<and> to_int64 (timeframe f) = timeframe f
     \<and> to_int8 (recordType f) = recordType f \<and> to_int32 (recordLength f) = recordLength f
     \<and> nElements f = int (length (elementNames f)) \<and> length (elementTypes f) = length (elementNames f)
     \<and> length (elementNames f) \<le> 1024
     \<and> length (description f) \<le> 256 \<and> 0 \<notin> set (str_bytes (description f))
     \<and> list_all name_ok (elementNames f) \<and> set (elementTypes f) \<subseteq> set element_types"

text \<open>The header of such a description: the names and types in use, each followed by zeros.\<close>

definition head_part :: "TimeBucketInfo \<Rightarrow> bytes" where
  "head_part f = le_bytes 8 (version f) @ fill 256 (description f) @ le_bytes 8 (tbYear f) @ le_bytes 8 (timeframe f)
     @ le_bytes 8 (recordType f) @ le_bytes 8 (nElements f) @ le_bytes 8 (recordLength f) @ le_bytes 8 0"

definition loaded :: "TimeBucketInfo \<Rightarrow> Header" where
  "loaded f = \<lparr>hVersion = version f, hDescription = fill 256 (description f), hYear = tbYear f,
     hTimeframe = timeframe f, hRecordType = recordType f, hNElements = nElements f, hRecordLength = recordLength f,
     hReserved1 = 0, hElementNames = zero_pad 1024 (replicate 32 0) (map (fill 32) (elementNames f)),
     hElementTypes = zero_pad 1024 0 (map element_code (elementTypes f)), hReserved2 = replicate 2920 0\<rparr>"

lemma Load_loaded: "info_ok f \<Longrightarrow> once_do fs f = Inr f' \<Longrightarrow> IsRead f \<Longrightarrow> Load fs f = Inr (loaded f, f')"
  by (auto simp: Load_def info_ok_def loaded_def Let_def once_do_def initFromFile_def split: if_splits)

lemma widths:
  "to_int16 x = x \<Longrightarrow> to_int64 x = x" "to_int8 x = x \<Longrightarrow> to_int64 x = x" "to_int32 x = x \<Longrightarrow> to_int64 x = x"
  "n \<le> 1024 \<Longrightarrow> to_int64 (int n) = int n" "n \<le> 1024 \<Longrightarrow> to_int32 (int n) = int n"
  "n \<le> 1024 \<Longrightarrow> to_int64 (int n * 32) = int n * 32"
  by (simp_all add: to_int8_def to_int16_def to_int32_def to_int64_def signed_take_bit_int_eq_self_iff)

lemma loaded_ok: "info_ok f \<Longrightarrow> header_ok (loaded f)"
  by (auto simp: header_ok_def loaded_def info_ok_def zero_pad_def widths) (simp add: to_int64_def)

lemma concat_replicate_replicate: "concat (replicate k (replicate n z)) = replicate (k * n) z"
  by (induction k) (simp_all add: replicate_add)

lemma loaded_bytes:
  assumes "info_ok f"
  defines "n \<equiv> length (elementNames f)"
  shows "header_bytes (loaded f) = head_part f @ concat (map (fill 32) (elementNames f)) @ replicate (32768 - 32 * n) 0
     @ map element_code (elementTypes f) @ replicate (3944 - n) 0"
proof -
  have "(1024 - n) * 32 = 32768 - 32 * n" "1024 - n + 2920 = 3944 - n"
    using assms by (auto simp: info_ok_def)
  then show ?thesis using assms
    by (simp add: header_bytes_def loaded_def head_part_def zero_pad_def concat_replicate_replicate info_ok_def
        replicate_add [symmetric] del: le_bytes.simps)
qed

lemma Read_part: "Read (length d) \<lparr>fdata = xs @ d @ ys, fpos = length xs\<rparr>
    = (d, length d, None, \<lparr>fdata = xs @ d @ ys, fpos = length xs + length d\<rparr>)"
  by (simp add: Read_def read_at_def Let_def)

lemma length_head_part [simp]: "length (head_part f) = 312"
  by (simp add: head_part_def del: le_bytes.simps)

lemma head_fields:
  assumes "info_ok f"
  shows "hNElements (header_of (head_part f @ ys)) = nElements f" "hRecordType (header_of (head_part f @ ys)) = recordType f"
  using assms by (simp_all add: header_of_def head_part_def info_ok_def widths del: le_bytes.simps)

lemma load_loaded:
  assumes "info_ok f"
  shows "load (loaded f) path g = Inr (g\<lparr>version := version f, description := description f, tbYear := tbYear f,
      tbPath := Clean path, IsRead := True, timeframe := timeframe f, nElements := nElements f,
      recordLength := recordLength f, recordType := recordType f, elementNames := elementNames f,
      elementTypes := elementTypes f\<rparr>)"
proof -
  have "map (\<lambda>b. Title (bytes_str (trim_zeros b))) (map (fill 32) (elementNames f)) = elementNames f"
    using assms by (auto simp: info_ok_def name_ok_def list_all_iff trim_fill intro!: map_idI)
  moreover have "map element_of_code (map element_code (elementTypes f)) = elementTypes f"
    using assms by (auto simp: info_ok_def element_of_code intro!: map_idI)
  ultimately show ?thesis using assms
    by (simp add: load_def loaded_def zero_pad_def info_ok_def Let_def trim_fill widths del: map_map)
qed

lemma readHeader_loaded:
  assumes ok: "info_ok f" and disk_file: "fs path = Some (header_bytes (loaded f) @ rest)"
  shows "readHeader fs path g = (g\<lparr>version := version f, description := description f, tbYear := tbYear f,
      tbPath := Clean path, IsRead := True, timeframe := timeframe f, nElements := nElements f,
      recordLength := recordLength f, recordType := recordType f, elementNames := elementNames f,
      elementTypes := elementTypes f\<rparr>, None)"
proof -
  define n where "n = length (elementNames f)"
  define A N Z T W where "A = head_part f" and "N = concat (map (fill 32) (elementNames f))"
    and "Z = replicate (32768 - 32 * n) (0::byte)" and "T = map element_code (elementTypes f)"
    and "W = replicate (3944 - n) (0::byte)"
  have n: "n \<le> 1024" "nElements f = int n" "length T = n"
    using ok by (auto simp: info_ok_def n_def T_def)
  have lens: "length A = 312" "length N = 32 * n" "length Z = 32768 - 32 * n" "length W = 3944 - n"
    by (auto simp: A_def N_def Z_def W_def n_def length_concat_equal [where n = 32])
  have hb: "header_bytes (loaded f) = A @ N @ Z @ T @ W"
    unfolding A_def N_def Z_def T_def W_def n_def using ok by (rule loaded_bytes)
  define content where "content = header_bytes (loaded f) @ rest"
  have r1: "Read 312 \<lparr>fdata = content, fpos = 0\<rparr> = (A, 312, None, \<lparr>fdata = content, fpos = 312\<rparr>)"
    using Read_part [of A "[]" "N @ Z @ T @ W @ rest"] by (simp add: content_def hb lens)
  have r2: "Read (32 * n) \<lparr>fdata = content, fpos = 312\<rparr> = (N, 32 * n, None, \<lparr>fdata = content, fpos = 312 + 32 * n\<rparr>)"
    using Read_part [of N A "Z @ T @ W @ rest"] by (simp add: content_def hb lens)
  have r3: "Read n \<lparr>fdata = content, fpos = 33080\<rparr> = (T, n, None, \<lparr>fdata = content, fpos = 33080 + n\<rparr>)"
    using Read_part [of T "A @ N @ Z" "W @ rest"] n by (simp add: content_def hb lens)
  have r4: "Read (3944 - n) \<lparr>fdata = content, fpos = 33080 + n\<rparr> = (W, 3944 - n, None, \<lparr>fdata = content, fpos = 37024\<rparr>)"
    using Read_part [of W "A @ N @ Z @ T" "rest"] n by (simp add: content_def hb lens)
  have b1: "copy_at 0 (replicate header_size 0) A = A @ replicate 36712 0"
    using copy_at_zeros [of A header_size "[]" 0] by (simp add: header_size_def lens)
  have b2: "copy_at 312 (A @ replicate 36712 0) N = A @ N @ Z @ replicate 3944 0"
    using copy_at_zeros [of N 36712 A 0] n by (simp add: lens Z_def replicate_add [symmetric])
  have b3: "copy_at 33080 (A @ N @ Z @ replicate 3944 0) T = A @ N @ Z @ T @ W"
    using copy_at_zeros [of T 3944 "A @ N @ Z" 0] n by (simp add: lens W_def)
  have b4: "copy_at (33080 + n) (A @ N @ Z @ T @ W) W = A @ N @ Z @ T @ W"
    using n copy_at_fits [of "33080 + n" W "A @ N @ Z @ T @ W"] by (simp add: lens)
  have w: "read_at (A @ N @ Z @ T @ W) (33080 + n) (3944 - n) = W"
    using n by (simp add: read_at_def lens)
  have f: "hNElements (header_of (A @ ys)) = int n" "hRecordType (header_of (A @ ys)) = recordType f" for ys
    using head_fields [OF ok] n by (simp_all add: A_def)
  have h: "header_of (A @ N @ Z @ T @ W) = loaded f"
    using header_of_bytes [OF loaded_ok [OF ok], of "[]"] by (simp add: hb)
  have arith: "nat (int n * 32) = 32 * n" "to_int64 (int n * 32) = int n * 32"
      "nat (33080 + int n) = 33080 + n" "nat (3944 - int n) = 3944 - n" "int (32 * n) = int n * 32"
      "312 + int n * 32 \<le> int header_size" "33080 + int n \<le> int header_size"
    using n(1) by (simp_all add: widths header_size_def)
  have s: "Seek 33080 \<lparr>fdata = content, fpos = 312 + 32 * n\<rparr> = (\<lparr>fdata = content, fpos = 33080\<rparr>, None)"
    by (simp add: Seek_def)
  show ?thesis
    unfolding readHeader_def disk_file content_def [symmetric] option.case
    by (simp add: Let_def r1 b1 f arith r2 b2 s r3 b3)
      (simp add: header_size_def arith r4 b4 w h load_loaded [OF ok])
qed

lemma AlignedSize_bounds:
  assumes "0 \<le> s"
  shows "8 dvd AlignedSize s \<and> s \<le> AlignedSize s \<and> AlignedSize s < s + 8"
proof -
  have m: "s smod 8 = s mod 8" using assms by (rule smod_nonneg) simp
  show ?thesis
  proof (cases "s mod 8 = 0")
    case True
    then show ?thesis by (auto simp: AlignedSize_def m Let_def)
  next
    case False
    have "s + 8 - s mod 8 = 8 * (s div 8 + 1)" by (simp add: minus_mod_eq_mult_div algebra_simps)
    then have "8 dvd (s + 8 - s mod 8)" by (metis dvd_triv_left)
    moreover have "0 < s mod 8" "s mod 8 < 8" using False pos_mod_bound [of 8 s] pos_mod_sign [of 8 s] by linarith+
    ultimately show ?thesis using False by (auto simp: AlignedSize_def m Let_def)
  qed
qed

section \<open>Properties\<close>

text \<open>
  C23: The header of a year file describes the file: when the header of a description that fits it is written to the start of
  a new file, then every description of this path that is still to be read is completed from the file to the same version,
  description, year, timeframe, record type, record length and columns, whatever follows the header in the file.
\<close>

theorem header_roundtrip:
  assumes "info_ok f" "IsRead f"
    and "WriteHeader fs \<lparr>fdata = [], fpos = 0\<rparr> f = Inr (file', f')"
    and "fs' (tbPath g) = Some (fdata file' @ rest)" "\<not> IsRead g" "\<not> once_done g"
  shows "once_do fs' g = Inr (g\<lparr>version := version f, description := description f, tbYear := tbYear f,
      tbPath := Clean (tbPath g), timeframe := timeframe f, nElements := nElements f,
      recordLength := recordLength f, recordType := recordType f, elementNames := elementNames f,
      elementTypes := elementTypes f, IsRead := True, once_done := True\<rparr>)"
proof -
  obtain f0 where "once_do fs f = Inr f0" using assms(2) by (cases "once_done f") (auto simp: once_do_def initFromFile_def)
  then have "fdata file' = header_bytes (loaded f)"
    using assms(1-3) Load_loaded [of f fs] by (auto simp: WriteHeader_def Write_def write_at_def)
  with assms(4) have "readHeader fs' (tbPath g) g = (g\<lparr>version := version f, description := description f, tbYear := tbYear f,
      tbPath := Clean (tbPath g), IsRead := True, timeframe := timeframe f, nElements := nElements f,
      recordLength := recordLength f, recordType := recordType f, elementNames := elementNames f,
      elementTypes := elementTypes f\<rparr>, None)"
    by (intro readHeader_loaded [OF assms(1)]) simp
  then show ?thesis using assms(5,6) by (simp add: once_do_def initFromFile_def)
qed

text \<open>A new file of minute bars with two columns.\<close>

definition sample_info :: TimeBucketInfo where
  "sample_info = NewTimeBucketInfo Minute ''/db/AAPL/1Min/OHLCV'' ''bars'' 2019
     [\<lparr>dsName = ''Epoch'', dsType = INT64\<rparr>, \<lparr>dsName = ''Open'', dsType = FLOAT32\<rparr>, \<lparr>dsName = ''Volume'', dsType = INT32\<rparr>] 0"

lemma sample_path: "Join ''/db/AAPL/1Min/OHLCV'' (Itoa 2019 @ ''.bin'') = ''/db/AAPL/1Min/OHLCV/2019.bin''"
  by code_simp

lemma sample_clean: "Clean ''/db/AAPL/1Min/OHLCV/2019.bin'' = ''/db/AAPL/1Min/OHLCV/2019.bin''"
  by code_simp

lemma sample_info_eq:
  "sample_info = \<lparr>tbYear = 2019, tbPath = ''/db/AAPL/1Min/OHLCV/2019.bin'', IsRead = True, version = 2,
     description = ''bars'', timeframe = Minute, nElements = 2, recordType = 0, recordLength = 16, variableRecordLength = 0,
     elementNames = [''Open'', ''Volume''], elementTypes = [FLOAT32, INT32], once_done = True\<rparr>"
  by (simp add: sample_info_def NewTimeBucketInfo_def CreateShapesForTimeBucketInfo_def Let_def zero_info_def
      FileinfoVersion_def sum_sizes_def AlignedSize_def to_int32_def sample_path [simplified])

lemma sample_names_ok: "name_ok ''Open''" "name_ok ''Volume''"
  by (simp_all add: name_ok_def str_bytes_def Title_def upper_char_def is_separator_def Let_def)

lemma sample_info_ok: "info_ok sample_info" "IsRead sample_info"
  by (simp_all add: sample_info_eq info_ok_def go_int str_bytes_def sample_names_ok element_types_def)

theorem header_roundtrip_witness:
  "\<exists>file' f'. WriteHeader (\<lambda>_. None) \<lparr>fdata = [], fpos = 0\<rparr> sample_info = Inr (file', f')
     \<and> recordLength sample_info = 16
     \<and> (let p = ''/db/AAPL/1Min/OHLCV/2019.bin'';
            g = zero_info\<lparr>tbPath := p, tbYear := 2019\<rparr>
        in once_do (\<lambda>q. if q = p then Some (fdata file' @ [1, 2, 3]) else None) g
           = Inr (sample_info\<lparr>once_done := True\<rparr>))"
proof -
  let ?p = "''/db/AAPL/1Min/OHLCV/2019.bin''"
  have once: "once_do (\<lambda>_. None) sample_info = Inr sample_info"
    by (simp add: once_do_def sample_info_eq)
  define file' where "file' = Write (header_bytes (loaded sample_info)) \<lparr>fdata = [], fpos = 0\<rparr>"
  have w: "WriteHeader (\<lambda>_. None) \<lparr>fdata = [], fpos = 0\<rparr> sample_info = Inr (file', sample_info)"
    using Load_loaded [OF sample_info_ok(1) once sample_info_ok(2)] by (simp add: WriteHeader_def file'_def)
  have "once_do (\<lambda>q. if q = ?p then Some (fdata file' @ [1, 2, 3]) else None) (zero_info\<lparr>tbPath := ?p, tbYear := 2019\<rparr>)
      = Inr ((zero_info\<lparr>tbPath := ?p, tbYear := 2019\<rparr>)\<lparr>version := version sample_info,
      description := description sample_info, tbYear := tbYear sample_info,
      tbPath := Clean (tbPath (zero_info\<lparr>tbPath := ?p, tbYear := 2019\<rparr>)), timeframe := timeframe sample_info,
      nElements := nElements sample_info, recordLength := recordLength sample_info, recordType := recordType sample_info,
      elementNames := elementNames sample_info, elementTypes := elementTypes sample_info, IsRead := True, once_done := True\<rparr>)"
    by (rule header_roundtrip [OF sample_info_ok w, where rest = "[1, 2, 3]"]) (simp_all add: zero_info_def)
  also have "\<dots> = Inr (sample_info\<lparr>once_done := True\<rparr>)"
    by (simp add: sample_info_eq zero_info_def sample_clean)
  finally have "once_do (\<lambda>q. if q = ?p then Some (fdata file' @ [1, 2, 3]) else None) (zero_info\<lparr>tbPath := ?p, tbYear := 2019\<rparr>)
      = Inr (sample_info\<lparr>once_done := True\<rparr>)" .
  moreover have "recordLength sample_info = 16" by (simp add: sample_info_eq)
  ultimately show ?thesis using w by (auto simp: Let_def)
qed

text \<open>
  A year file that ends inside the first 312 bytes of its header is accepted: reading it returns no error, the description
  is marked as read with none of its fields filled in, and the first division by its timeframe of zero panics.
\<close>

theorem truncated_header_accepted:
  assumes "fs (tbPath g) = Some content" "0 < length content" "length content < 312"
    and "\<not> IsRead g" "\<not> once_done g" "timeframe g = 0"
  shows "once_do fs g = Inr (g\<lparr>IsRead := True, once_done := True\<rparr>)
    \<and> GetIntervals fs g = Inl (Panic ''integer divide by zero'')"
proof -
  have "readHeader fs (tbPath g) g = (g, None)"
    using assms(1-3) by (simp add: readHeader_def Read_def read_at_def Let_def)
  then have "once_do fs g = Inr (g\<lparr>IsRead := True, once_done := True\<rparr>)"
    using assms(4,5) by (simp add: once_do_def initFromFile_def)
  with assms(6) show ?thesis by (simp add: GetIntervals_def)
qed

theorem truncated_header_accepted_witness:
  "once_do (\<lambda>_. Some [2, 0, 0]) (zero_info\<lparr>tbPath := ''/db/A/1Min/OHLCV/2019.bin''\<rparr>)
     = Inr (zero_info\<lparr>tbPath := ''/db/A/1Min/OHLCV/2019.bin'', IsRead := True, once_done := True\<rparr>)"
  using truncated_header_accepted [of "\<lambda>_. Some [2, 0, 0]" "zero_info\<lparr>tbPath := ''/db/A/1Min/OHLCV/2019.bin''\<rparr>" "[2, 0, 0]"]
  by (simp add: zero_info_def)

text \<open>
  The length of a fixed record is eight bytes for the epoch and the columns' bytes rounded up to the word size, so
  every record of the file starts at a multiple of eight bytes and holds its columns; the length of the columns is bounded
  so that it does not leave the 32 bits of the field.
\<close>

theorem record_length_aligned:
  fixes tf :: int and path :: path and descr :: string and year :: int and dsv :: "DataShape list"
  assumes "sum_sizes (fst (CreateShapesForTimeBucketInfo dsv)) < 2 ^ 31 - 16"
  defines "r \<equiv> recordLength (NewTimeBucketInfo tf path descr year dsv 0)"
    and "s \<equiv> sum_sizes (fst (CreateShapesForTimeBucketInfo dsv))"
  shows "8 dvd r \<and> 8 + s \<le> r \<and> r < 16 + s"
proof -
  have s0: "0 \<le> s" unfolding s_def sum_sizes_def by (rule sum_list_nonneg) auto
  then have a: "8 dvd AlignedSize s \<and> s \<le> AlignedSize s \<and> AlignedSize s < s + 8" by (rule AlignedSize_bounds)
  with s0 assms(1) have "to_int32 (to_int32 (AlignedSize s) + 8) = AlignedSize s + 8"
    by (simp add: go_int s_def)
  then have "r = AlignedSize s + 8"
    by (simp add: r_def s_def NewTimeBucketInfo_def split_beta Let_def)
  with a show ?thesis by simp
qed

theorem record_length_aligned_witness:
  "recordLength (NewTimeBucketInfo Minute ''/db/A/1Min/TICK'' [] 2019 [\<lparr>dsName = ''Flag'', dsType = BYTE\<rparr>] 0) < 17"
  using record_length_aligned [of "[\<lparr>dsName = ''Flag'', dsType = BYTE\<rparr>]" Minute "''/db/A/1Min/TICK''" "[]" 2019]
  by (simp add: CreateShapesForTimeBucketInfo_def sum_sizes_def Let_def)

text \<open>The input form of a group of columns of one type.\<close>

definition print_shapes :: "string list \<times> EnumElementType \<Rightarrow> string" where
  "print_shapes g = join_with '','' (fst g) @ ''/'' @ element_name (snd g)"

definition shape_group_ok :: "string list \<times> EnumElementType \<Rightarrow> bool" where
  "shape_group_ok g \<longleftrightarrow> fst g \<noteq> [] \<and> snd g \<in> set element_types \<and> snd g \<noteq> NONE
     \<and> list_all (\<lambda>n. CHR '','' \<notin> set n \<and> CHR ''/'' \<notin> set n \<and> CHR '':'' \<notin> set n) (fst g)"

lemma element_name_plain: "e \<in> set element_types \<Longrightarrow> CHR ''/'' \<notin> set (element_name e) \<and> CHR '':'' \<notin> set (element_name e)"
  by (auto simp: element_types_def)

lemma set_join: "set (join_with sep xs) \<subseteq> \<Union> (set ` set xs) \<union> set sep"
  by (induction sep xs rule: join_with.induct) auto

lemma parse_print_shapes:
  assumes "shape_group_ok g"
  shows "parse_shape_group (print_shapes g) = Inr (map (\<lambda>n. \<lparr>dsName = n, dsType = snd g\<rparr>) (fst g))"
proof -
  have "CHR ''/'' \<notin> set (join_with '','' (fst g))"
    using set_join [of "'',''" "fst g"] assms by (auto simp: shape_group_ok_def list_all_iff)
  then have "Split (join_with ''/'' [join_with '','' (fst g), element_name (snd g)]) ''/''
      = [join_with '','' (fst g), element_name (snd g)]"
    using assms element_name_plain [of "snd g"] by (intro Split_join) (auto simp: shape_group_ok_def)
  then have "Split (print_shapes g) ''/'' = [join_with '','' (fst g), element_name (snd g)]"
    by (simp add: print_shapes_def)
  moreover have "Split (join_with '','' (fst g)) '','' = fst g"
    using assms by (intro Split_join) (auto simp: shape_group_ok_def list_all_iff)
  moreover have "EnumElementTypeFromName (element_name (snd g)) = snd g"
    using assms by (intro EnumElementTypeFromName_name) (auto simp: shape_group_ok_def EqualFold_def)
  ultimately show ?thesis using assms by (simp add: parse_shape_group_def shape_group_ok_def Let_def)
qed

text \<open>
  The shapes of a bucket are read back from their input form: for groups of named columns, each with its type, joined
  by colons, the parser returns one shape per name, in order, with the type of its group.
\<close>

theorem shapes_input_roundtrip:
  assumes "gs \<noteq> []" "list_all shape_group_ok gs"
  shows "DataShapesFromInputString (join_with '':'' (map print_shapes gs))
    = Inr (concat (map (\<lambda>(names, t). map (\<lambda>n. \<lparr>dsName = n, dsType = t\<rparr>) names) gs))"
proof -
  have "CHR '':'' \<notin> set (print_shapes g)" if "g \<in> set gs" for g
    using set_join [of "'',''" "fst g"] assms(2) that element_name_plain [of "snd g"]
    by (auto simp: shape_group_ok_def list_all_iff print_shapes_def)
  then have "Split (join_with '':'' (map print_shapes gs)) '':'' = map print_shapes gs"
    using assms(1) by (intro Split_join) (auto simp: list_all_iff)
  moreover have "parse_shape_groups (map print_shapes gs) dsa
      = Inr (dsa @ concat (map (\<lambda>(names, t). map (\<lambda>n. \<lparr>dsName = n, dsType = t\<rparr>) names) gs))" for dsa
    using assms(2) by (induction gs arbitrary: dsa) (auto simp: parse_print_shapes split: prod.splits)
  ultimately show ?thesis by (simp add: DataShapesFromInputString_def)
qed

theorem shapes_input_roundtrip_witness:
  "DataShapesFromInputString ''Open,High/float32:Volume/int64''
     = Inr [\<lparr>dsName = ''Open'', dsType = FLOAT32\<rparr>, \<lparr>dsName = ''High'', dsType = FLOAT32\<rparr>, \<lparr>dsName = ''Volume'', dsType = INT64\<rparr>]"
  using shapes_input_roundtrip [of "[([''Open'', ''High''], FLOAT32), ([''Volume''], INT64)]"]
  by (simp add: shape_group_ok_def element_types_def print_shapes_def)

end
