(* ===== verification/Generics.thy ===== *)
theory Generics
  imports Metadata
begin

text \<open>
  Generic containers of \<^verbatim>\<open>utils/io/generics.go\<close>: the ordered set \<^verbatim>\<open>AnySet\<close>, which the comparison of data shapes uses,
  shortening a slice, and the comparison operators. An \<^verbatim>\<open>AnySet\<close> keeps its elements twice, in order and as the keys of a
  map; the \<^verbatim>\<open>nil\<close> set that an empty input gives is \<open>None\<close>.
\<close>

section \<open>\<^verbatim>\<open>AnySet\<close>\<close>

record 'a AnySet =
  orderedElems :: "'a list"
  mappedElems :: "'a set"

definition NewAnySet :: "'a list \<Rightarrow> 'a AnySet option" where
  "NewAnySet elems = (if elems = [] then None else Some \<lparr>orderedElems = elems, mappedElems = set elems\<rparr>)"

definition AnySet_Add :: "'a \<Rightarrow> 'a AnySet \<Rightarrow> 'a AnySet" where
  "AnySet_Add elem s =
     (if elem \<in> mappedElems s then s
      else \<lparr>orderedElems = orderedElems s @ [elem], mappedElems = insert elem (mappedElems s)\<rparr>)"

definition AnySet_Del :: "'a \<Rightarrow> 'a AnySet \<Rightarrow> 'a AnySet" where
  "AnySet_Del elem s =
     (if elem \<in> mappedElems s
      then (let m = mappedElems s - {elem}
            in \<lparr>orderedElems = filter (\<lambda>x. x \<in> m) (orderedElems s), mappedElems = m\<rparr>)
      else s)"

text \<open>What \<^verbatim>\<open>Intersect\<close> returns as an \<^verbatim>\<open>interface{}\<close>: nothing for the \<^verbatim>\<open>nil\<close> set, an error value for an empty input, or a slice.\<close>

datatype 'a set_answer = NilAnswer | ErrorAnswer string | Elements "'a list"

definition Intersect :: "'a AnySet option \<Rightarrow> 'a list \<Rightarrow> 'a set_answer" where
  "Intersect s input = (case s of
      None \<Rightarrow> NilAnswer
    | Some as \<Rightarrow> if input = [] then ErrorAnswer ''Empty input to intersect''
        else Elements (filter (\<lambda>x. x \<in> mappedElems as) input))"

text \<open>The length of the answer, which \<^verbatim>\<open>reflect\<close> has for slices only.\<close>

definition answer_elems :: "'a set_answer \<Rightarrow> 'a list result" where
  "answer_elems a = (case a of Elements xs \<Rightarrow> Inr xs | _ \<Rightarrow> Inl (Panic ''reflect: call of reflect.Value.Len''))"

definition Subtract :: "'a AnySet option \<Rightarrow> 'a list \<Rightarrow> 'a list result" where
  "Subtract s input =
     (if input = []
      then (case s of None \<Rightarrow> Inl (Panic ''invalid memory address or nil pointer dereference'') | Some as \<Rightarrow> Inr (orderedElems as))
      else res_bind (answer_elems (Intersect s input)) (\<lambda>intersection.
        case s of None \<Rightarrow> Inl (Panic ''invalid memory address or nil pointer dereference'')
        | Some as \<Rightarrow> Inr (filter (\<lambda>x. x \<notin> set intersection) (orderedElems as))))"

definition AnySet_Contains :: "'a AnySet option \<Rightarrow> 'a list \<Rightarrow> bool result" where
  "AnySet_Contains s input =
     (if input = [] then Inr False
      else res_bind (answer_elems (Intersect s input)) (\<lambda>intersection. Inr (length intersection = length input)))"

section \<open>Shortening a slice\<close>

text \<open>\<^verbatim>\<open>DownSizeSlice\<close>: a column of invalid kind is a \<^verbatim>\<open>nil\<close> interface, which is not a slice.\<close>

definition DownSizeSlice :: "column \<Rightarrow> int \<Rightarrow> DirectionEnum \<Rightarrow> column result" where
  "DownSizeSlice col newLen direction =
     (if ckind col = KInvalid then Inl (Err ''Unable to resize non-slice type'')
      else let oldLen = int (length (celems col))
      in if oldLen \<le> newLen then Inr col
         else let ibase = (if direction = LAST then oldLen - newLen else 0)
         in Inr (col\<lparr>celems := map (\<lambda>i. celems col ! nat (int i + ibase)) [0..<nat newLen]\<rparr>))"

section \<open>Comparison operators\<close>

datatype ComparisonOperatorEnum = NOOP | EQ | NEQ | LT | LTE | GT | GTE

definition StringToComparisonOperatorEnum :: "string \<Rightarrow> ComparisonOperatorEnum" where
  "StringToComparisonOperatorEnum opstr =
     (if opstr = ''='' then EQ else if opstr = ''<>'' \<or> opstr = ''!='' then NEQ else if opstr = ''<'' then LT
      else if opstr = ''<='' then LTE else if opstr = ''>'' then GT else if opstr = ''>='' then GTE else NOOP)"

fun operator_String :: "ComparisonOperatorEnum \<Rightarrow> string" where
  "operator_String EQ = ''=''" | "operator_String NEQ = ''!=''" | "operator_String LT = ''<''"
| "operator_String LTE = ''<=''" | "operator_String GT = ''>''" | "operator_String GTE = ''>=''"
| "operator_String NOOP = ''NONE''"

section \<open>The set interface\<close>

text \<open>What a client of a set relies on, over the list of its elements in order.\<close>

locale ordered_set =
  fixes elems :: "'s \<Rightarrow> 'a list" and invar :: "'s \<Rightarrow> bool" and add :: "'a \<Rightarrow> 's \<Rightarrow> 's" and del :: "'a \<Rightarrow> 's \<Rightarrow> 's"
    and minus_list :: "'s \<Rightarrow> 'a list \<Rightarrow> 'a list result" and contains :: "'s \<Rightarrow> 'a list \<Rightarrow> bool result"
  assumes elems_add: "invar s \<Longrightarrow> elems (add x s) = (if x \<in> set (elems s) then elems s else elems s @ [x])"
    and elems_del: "invar s \<Longrightarrow> elems (del x s) = filter (\<lambda>y. y \<noteq> x) (elems s)"
    and invar_add: "invar s \<Longrightarrow> invar (add x s)"
    and invar_del: "invar s \<Longrightarrow> invar (del x s)"
    and elems_minus: "invar s \<Longrightarrow> minus_list s xs = Inr (filter (\<lambda>y. y \<notin> set xs) (elems s))"
    and contains_iff: "invar s \<Longrightarrow> contains s xs = Inr (xs \<noteq> [] \<and> set xs \<subseteq> set (elems s))"
begin

lemma del_add: "invar s \<Longrightarrow> x \<notin> set (elems s) \<Longrightarrow> elems (del x (add x s)) = elems s"
  by (simp add: elems_add elems_del invar_add) (auto intro!: filter_True)

lemma minus_contained: "invar s \<Longrightarrow> minus_list s xs = Inr [] \<longleftrightarrow> set (elems s) \<subseteq> set xs"
  by (auto simp: elems_minus filter_empty_conv)

end

definition AnySet_ok :: "'a AnySet \<Rightarrow> bool" where
  "AnySet_ok s \<longleftrightarrow> mappedElems s = set (orderedElems s)"

lemma length_filter_all: "length (filter P xs) = length xs \<longleftrightarrow> (\<forall>x \<in> set xs. P x)"
proof
  assume "length (filter P xs) = length xs"
  then have "filter P xs = xs" by (metis filter_True length_filter_less less_irrefl)
  then show "\<forall>x \<in> set xs. P x" by (metis filter_id_conv)
qed simp

interpretation any_set: ordered_set orderedElems AnySet_ok AnySet_Add AnySet_Del
  "\<lambda>s. Subtract (Some s)" "\<lambda>s. AnySet_Contains (Some s)"
proof (unfold_locales, goal_cases)
  case (2 s x)
  then show ?case by (auto simp: AnySet_ok_def AnySet_Del_def Let_def intro!: filter_cong filter_True [symmetric])
next
  case (5 s xs)
  then show ?case by (auto simp: AnySet_ok_def Subtract_def Intersect_def answer_elems_def intro!: filter_cong)
next
  case (6 s xs)
  then show ?case
    by (auto simp: AnySet_ok_def AnySet_Contains_def Intersect_def answer_elems_def length_filter_all)
qed (auto simp: AnySet_ok_def AnySet_Add_def AnySet_Del_def Let_def)

lemma NewAnySet_ok: "NewAnySet xs = Some s \<Longrightarrow> AnySet_ok s \<and> orderedElems s = xs"
  by (auto simp: NewAnySet_def AnySet_ok_def split: if_splits)

lemma NewAnySet_Cons: "xs \<noteq> [] \<Longrightarrow> \<exists>s. NewAnySet xs = Some s \<and> AnySet_ok s \<and> orderedElems s = xs"
  by (auto simp: NewAnySet_def AnySet_ok_def)

text \<open>The elements kept are the first or the last ones.\<close>

lemma map_nth_take: "n \<le> length xs \<Longrightarrow> map (\<lambda>i. xs ! i) [0..<n] = take n xs"
  by (rule nth_equalityI) auto

lemma DownSizeSlice_first:
  assumes "ckind col \<noteq> KInvalid"
  shows "DownSizeSlice col (int n) FIRST = Inr (col\<lparr>celems := take n (celems col)\<rparr>)"
  using assms by (auto simp: DownSizeSlice_def Let_def map_nth_take)

lemma DownSizeSlice_last:
  assumes "ckind col \<noteq> KInvalid"
  shows "DownSizeSlice col (int n) LAST = Inr (col\<lparr>celems := drop (length (celems col) - n) (celems col)\<rparr>)"
proof (cases "length (celems col) \<le> n")
  case False
  have "map (\<lambda>i. celems col ! nat (int i + (int (length (celems col)) - int n))) [0..<n]
      = drop (length (celems col) - n) (celems col)"
    using False by (intro nth_equalityI) (auto simp: nat_add_distrib of_nat_diff [symmetric] add.commute simp del: of_nat_diff)
  with False assms show ?thesis by (simp add: DownSizeSlice_def Let_def)
qed (use assms in \<open>simp add: DownSizeSlice_def Let_def\<close>)

end
