(* ===== verification/Timeframe.thy ===== *)
theory Timeframe
  imports GoTime GoStrings
begin

text \<open>
  Timeframes and candle windows: \<^verbatim>\<open>utils/timeframe.go\<close>. A timeframe is a name such as \<^verbatim>\<open>5Min\<close> with its duration; a
  candle window has a multiple and a suffix and is cut on calendar boundaries for days, weeks, months and years. Times
  are instants that are read in one location.
\<close>

section \<open>Timeframes\<close>

abbreviation (input) Week :: int where "Week \<equiv> 7 * Day"
abbreviation (input) YearDur :: int where "YearDur \<equiv> 365 * Day"

record Timeframe =
  tfString :: string
  tfDuration :: int

definition timeframeDefs :: "(string \<times> int) list" where
  "timeframeDefs = [(''S'', Second), (''Sec'', Second), (''T'', Minute), (''Min'', Minute), (''H'', Hour), (''D'', Day),
     (''W'', Week), (''Y'', YearDur)]"

definition Timeframes :: "(string \<times> int) list" where
  "Timeframes = [(''1Sec'', Second), (''10Sec'', 10 * Second), (''30Sec'', 30 * Second), (''1Min'', Minute),
     (''5Min'', 5 * Minute), (''15Min'', 15 * Minute), (''30Min'', 30 * Minute), (''1H'', Hour), (''4H'', 4 * Hour),
     (''2H'', 2 * Hour), (''1D'', Day)]"

definition PeriodsPerDay :: "Timeframe \<Rightarrow> int result" where
  "PeriodsPerDay tf = (if tfDuration tf = 0 then Inl (Panic ''integer divide by zero'') else Inr (Day sdiv tfDuration tf))"

text \<open>The first unit whose name occurs in the string decides; what stands before it is the number of units.\<close>

fun timeframe_from :: "(string \<times> int) list \<Rightarrow> string \<Rightarrow> Timeframe option" where
  "timeframe_from [] tf = None"
| "timeframe_from ((name, dur) # defs) tf =
     (if Contains tf name
      then (case ParseInt (hd (Split tf name)) 32 of
          None \<Rightarrow> None
        | Some t \<Rightarrow> if t \<le> 0 then None else Some \<lparr>tfString = tf, tfDuration = to_int64 (dur * t)\<rparr>)
      else timeframe_from defs tf)"

definition TimeframeFromString :: "string \<Rightarrow> Timeframe option" where
  "TimeframeFromString tf = timeframe_from timeframeDefs tf"

fun timeframe_of_duration :: "(string \<times> int) list \<Rightarrow> string \<Rightarrow> int \<Rightarrow> int \<Rightarrow> Timeframe option" where
  "timeframe_of_duration [] lowerStr lowerDur tf = None"
| "timeframe_of_duration ((name, dur) # defs) lowerStr lowerDur tf =
     (if dur = tf then Some \<lparr>tfString = Itoa 1 @ name, tfDuration = tf\<rparr>
      else if tf < dur then Some \<lparr>tfString = Itoa (tf sdiv lowerDur) @ lowerStr, tfDuration = tf\<rparr>
      else timeframe_of_duration defs name dur tf)"

definition TimeframeFromDuration :: "int \<Rightarrow> Timeframe option" where
  "TimeframeFromDuration tf =
     (if tf < Second then None else timeframe_of_duration timeframeDefs ''Sec'' Second tf)"

datatype timeframe_arg = TfString string | TfInt64 int | TfOther

definition NewTimeframe :: "timeframe_arg \<Rightarrow> Timeframe option" where
  "NewTimeframe arg = (case arg of
      TfString v \<Rightarrow> TimeframeFromString v | TfInt64 v \<Rightarrow> TimeframeFromDuration v | TfOther \<Rightarrow> None)"

section \<open>Candle windows\<close>

record CandleDuration =
  cdString :: string
  cdDuration :: int
  cdSuffix :: string
  cdMultiplier :: int

definition suffixDefs :: "string \<Rightarrow> int" where
  "suffixDefs s = (case map_of [(''S'', Second), (''Sec'', Second), (''T'', Minute), (''Min'', Minute), (''H'', Hour),
     (''D'', Day), (''W'', Week), (''Y'', YearDur)] s of Some d \<Rightarrow> d | None \<Rightarrow> 0)"

text \<open>
  The leftmost match of \<^verbatim>\<open>([0-9]+)(Sec|Min|H|D|W|M|Y)\<close>: at each position the longest run of digits, which is the only one
  that a suffix can follow, and the first suffix of the list that follows it.
\<close>

definition is_digit :: "char \<Rightarrow> bool" where "is_digit c \<longleftrightarrow> digit_val c \<noteq> None"

definition match_here :: "string \<Rightarrow> (string \<times> string) option" where
  "match_here s =
     (let ds = takeWhile is_digit s; r = dropWhile is_digit s
      in if ds = [] then None
         else map_option (Pair ds) (find (has_prefix r) [''Sec'', ''Min'', ''H'', ''D'', ''W'', ''M'', ''Y'']))"

fun find_candle :: "string \<Rightarrow> (string \<times> string) option" where
  "find_candle [] = None"
| "find_candle (c # cs) = (case match_here (c # cs) of Some g \<Rightarrow> Some g | None \<Rightarrow> find_candle cs)"

text \<open>\<^verbatim>\<open>strconv.Atoi\<close> of a run of digits: out of range the largest value, with an error that is ignored.\<close>

definition digits_int :: "string \<Rightarrow> int" where
  "digits_int ds = (case digits_val 0 ds of Some n \<Rightarrow> min (int n) (2 ^ 63 - 1) | None \<Rightarrow> 0)"

definition CandleDurationFromString :: "string \<Rightarrow> CandleDuration option" where
  "CandleDurationFromString tf = (case find_candle tf of
      None \<Rightarrow> None
    | Some (prefix, suf) \<Rightarrow>
        Some \<lparr>cdString = tf, cdDuration = to_int64 (digits_int prefix * suffixDefs suf), cdSuffix = suf,
          cdMultiplier = digits_int prefix\<rparr>)"

definition month_within :: "location \<Rightarrow> int \<Rightarrow> instant \<Rightarrow> instant \<Rightarrow> bool" where
  "month_within loc mlt ts start =
     (if Year loc ts = Year loc start
      then (if Month loc ts = Month loc start then True
            else if Month loc ts < Month loc start then False
            else Month loc ts - Month loc start < mlt)
      else if Year loc ts > Year loc start then Month loc ts - (12 - Month loc start) < mlt
      else False)"

definition IsWithin :: "location \<Rightarrow> CandleDuration \<Rightarrow> instant \<Rightarrow> instant \<Rightarrow> bool" where
  "IsWithin loc cd ts start =
     (if cdSuffix cd = ''D'' then civil loc ts = civil loc start
      else if cdSuffix cd = ''W'' then ISOWeek loc ts = ISOWeek loc start
      else if cdSuffix cd = ''M'' then month_within loc (cdMultiplier cd) ts start
      else if cdSuffix cd = ''Y'' then Year loc ts - Year loc start \<le> cdMultiplier cd
      else go_truncate ts (cdDuration cd) = start)"

definition Truncate :: "location \<Rightarrow> CandleDuration \<Rightarrow> instant \<Rightarrow> instant" where
  "Truncate loc cd ts =
     (let (yy, mm, dd) = civil loc ts
      in if cdSuffix cd = ''D'' then midnight loc yy mm dd
         else if cdSuffix cd = ''M'' then midnight loc yy mm 1
         else go_truncate ts (cdDuration cd))"

definition Ceil :: "location \<Rightarrow> CandleDuration \<Rightarrow> instant \<Rightarrow> instant" where
  "Ceil loc cd ts =
     (if cdSuffix cd = ''D'' then (let (yy, mm, dd) = civil loc (ts + Day) in midnight loc yy mm dd)
      else if cdSuffix cd = ''M''
      then (let year = Year loc ts; month = Month loc ts
            in if month = 12 then midnight loc (year + 1) 1 1 else midnight loc year (month + 1) 1)
      else go_truncate (ts + cdDuration cd) (cdDuration cd))"

definition QueryableTimeframe :: "CandleDuration \<Rightarrow> string" where
  "QueryableTimeframe cd =
     (if cdSuffix cd \<noteq> ''M''
      then (case find (\<lambda>(_, d). cdDuration cd smod d = 0) (rev Timeframes) of Some (s, _) \<Rightarrow> s | None \<Rightarrow> ''1D'')
      else ''1D'')"

definition QueryableNrecords :: "CandleDuration \<Rightarrow> string \<Rightarrow> int \<Rightarrow> int result" where
  "QueryableNrecords cd tf nrecords =
     (if cdString cd = tf then Inr nrecords
      else if cdSuffix cd = ''M'' then Inr (to_int64 (31 * nrecords))
      else case TimeframeFromString tf of
          None \<Rightarrow> Inl (Panic ''invalid memory address or nil pointer dereference'')
        | Some t \<Rightarrow> if tfDuration t = 0 then Inl (Panic ''integer divide by zero'')
            else Inr (to_int64 (nrecords * (cdDuration cd sdiv tfDuration t))))"

definition Duration :: "CandleDuration \<Rightarrow> int" where
  "Duration cd = cdDuration cd"

section \<open>Lemmas\<close>

text \<open>The letters of the units are not digits, so a unit is found behind its number.\<close>

lemma unit_letters:
  "0 < n \<Longrightarrow> c \<in> {CHR ''S'', CHR ''T'', CHR ''M'', CHR ''H'', CHR ''D'', CHR ''W'', CHR ''Y''} \<Longrightarrow> c \<notin> set (Itoa n)"
proof -
  assume "0 < n" "c \<in> {CHR ''S'', CHR ''T'', CHR ''M'', CHR ''H'', CHR ''D'', CHR ''W'', CHR ''Y''}"
  moreover from this(2) have "digit_val c = None" by (auto simp: digit_val_def Let_def)
  ultimately show ?thesis by (simp add: Itoa_def not_digit)
qed

lemma timeframe_parse:
  assumes "0 < n" "n < 2 ^ 31" "(name, dur) \<in> set timeframeDefs"
  shows "TimeframeFromString (Itoa n @ name) = Some \<lparr>tfString = Itoa n @ name, tfDuration = to_int64 (dur * n)\<rparr>"
proof -
  have P: "ParseInt (Itoa n) 32 = Some n" using assms ParseInt_Itoa [of n 32] by simp
  have S: "hd (Split (Itoa n @ ''Sec'') ''S'') = Itoa n"
    using hd_Split [of "''S''" "Itoa n" "''ec''"] unit_letters [OF assms(1)] by simp
  have pre: "has_prefix ''Sec'' ''S''" by (simp add: has_prefix_def)
  from assms(3) have "(name, dur) \<in> {(''S'', Second), (''Sec'', Second), (''T'', Minute), (''Min'', Minute), (''H'', Hour),
      (''D'', Day), (''W'', Week), (''Y'', YearDur)}"
    by (simp only: timeframeDefs_def list.set)
  then show ?thesis
    unfolding insert_iff
    by (elim disjE; use assms(1) in \<open>simp add: TimeframeFromString_def timeframeDefs_def Contains_skip
        unit_letters [OF assms(1)] P S pre has_prefix_def hd_Split_end\<close>)
qed

text \<open>Durations below the next unit are named by the unit.\<close>

lemma duration_ranges:
  "TimeframeFromDuration Second = Some \<lparr>tfString = Itoa 1 @ ''S'', tfDuration = Second\<rparr>"
  "Second < x \<Longrightarrow> x < Minute \<Longrightarrow> TimeframeFromDuration x = Some \<lparr>tfString = Itoa (x sdiv Second) @ ''Sec'', tfDuration = x\<rparr>"
  "TimeframeFromDuration Minute = Some \<lparr>tfString = Itoa 1 @ ''T'', tfDuration = Minute\<rparr>"
  "Minute < x \<Longrightarrow> x < Hour \<Longrightarrow> TimeframeFromDuration x = Some \<lparr>tfString = Itoa (x sdiv Minute) @ ''Min'', tfDuration = x\<rparr>"
  "TimeframeFromDuration Hour = Some \<lparr>tfString = Itoa 1 @ ''H'', tfDuration = Hour\<rparr>"
  "Hour < x \<Longrightarrow> x < Day \<Longrightarrow> TimeframeFromDuration x = Some \<lparr>tfString = Itoa (x sdiv Hour) @ ''H'', tfDuration = x\<rparr>"
  "TimeframeFromDuration Day = Some \<lparr>tfString = Itoa 1 @ ''D'', tfDuration = Day\<rparr>"
  "Day < x \<Longrightarrow> x < Week \<Longrightarrow> TimeframeFromDuration x = Some \<lparr>tfString = Itoa (x sdiv Day) @ ''D'', tfDuration = x\<rparr>"
  "TimeframeFromDuration Week = Some \<lparr>tfString = Itoa 1 @ ''W'', tfDuration = Week\<rparr>"
  "Week < x \<Longrightarrow> x < YearDur \<Longrightarrow> TimeframeFromDuration x = Some \<lparr>tfString = Itoa (x sdiv Week) @ ''W'', tfDuration = x\<rparr>"
  by (simp_all add: TimeframeFromDuration_def timeframeDefs_def)

lemma unit_name:
  assumes "(u, v) \<in> {(Second, Minute), (Minute, Hour), (Hour, Day), (Day, Week), (Week, YearDur)}" "0 < n" "n * u < v"
  shows "\<exists>name. (name, u) \<in> set timeframeDefs \<and> TimeframeFromDuration (n * u) = Some \<lparr>tfString = Itoa n @ name, tfDuration = n * u\<rparr>"
proof (cases "n = 1")
  case True
  from assms(1) show ?thesis unfolding insert_iff empty_iff True mult_1
    by (elim disjE FalseE; simp only: prod.inject duration_ranges; force simp: timeframeDefs_def)
next
  case False
  then have n: "1 < n" using assms(2) by simp
  have "0 < u" using assms(1) by auto
  then have "u < n * u" "n * u sdiv u = n" using n by (simp_all add: sdiv_nonneg)
  with assms(1,3) show ?thesis unfolding insert_iff empty_iff
    by (elim disjE FalseE; simp only: prod.inject duration_ranges; force simp: timeframeDefs_def)
qed

lemma month_day_inverse:
  assumes "list_all (\<lambda>l. 0 < l) lens" "0 \<le> d" "d < sum_list lens"
  shows "\<exists>k < length lens. month_day_from m lens d = (m + int k, d - sum_list (take k lens) + 1)
     \<and> 1 \<le> d - sum_list (take k lens) + 1 \<and> d - sum_list (take k lens) < lens ! k"
  using assms
proof (induction m lens d rule: month_day_from.induct)
  case (2 m len lens d)
  show ?case
  proof (cases "d < len")
    case True
    with 2 show ?thesis by (intro exI [of _ 0]) auto
  next
    case False
    with 2 obtain k where "k < length lens" "month_day_from (m + 1) lens (d - len) = (m + 1 + int k, d - len - sum_list (take k lens) + 1)"
      "1 \<le> d - len - sum_list (take k lens) + 1" "d - len - sum_list (take k lens) < lens ! k" by auto
    with False show ?thesis by (intro exI [of _ "Suc k"]) (auto simp: algebra_simps)
  qed
qed simp

lemma month_lengths_pos: "list_all (\<lambda>l. 0 < l) (month_lengths lp)" "sum_list (month_lengths lp) = (if lp then 366 else 365)"
  by (simp_all add: month_lengths_def)

text \<open>The civil date of an instant counts its day, in every zone.\<close>

lemma civil_correct:
  assumes "civil loc t = (y, m, d)"
  shows "local_day loc t = days_before_year y + days_before_month (leap y) m + d - 1" "1 \<le> m" "m \<le> 12"
proof -
  obtain yday where yd: "year_yday (local_day loc t) = (y, yday)" and md: "month_day_from 1 (month_lengths (leap y)) yday = (m, d)"
    using assms by (auto simp: civil_def split: prod.splits)
  note c = year_yday_correct [OF yd]
  obtain k where "k < 12" "month_day_from 1 (month_lengths (leap y)) yday = (1 + int k, yday - sum_list (take k (month_lengths (leap y))) + 1)"
    using month_day_inverse [OF month_lengths_pos(1), of yday "leap y" 1] c month_lengths_pos(2) [of "leap y"]
    by (auto simp: month_lengths_def)
  with md c(1) show "local_day loc t = days_before_year y + days_before_month (leap y) m + d - 1" "1 \<le> m" "m \<le> 12"
    by (auto simp: days_before_month_def)
qed

text \<open>Midnight of the civil date of an instant is the start of its day.\<close>

lemma midnight_civil:
  assumes "civil UTC t = (y, m, d)"
  shows "midnight UTC y m d = t - t mod Day"
proof -
  have "midnight UTC y m d = (local_day UTC t - 719162) * Day"
    using civil_correct(1) [OF assms] by (simp add: midnight_def date_day_UTC)
  also have "\<dots> = t div Day * Day" by (simp add: local_day_UTC)
  also have "\<dots> = t - t mod Day" by (rule minus_mod_eq_div_mult [symmetric])
  finally show ?thesis .
qed

lemma civil_same_day: "civil UTC t = civil UTC s \<longleftrightarrow> t div Day = s div Day"
proof
  assume "civil UTC t = civil UTC s"
  then have "t - t mod Day = s - s mod Day" using midnight_civil [of t] midnight_civil [of s] by (metis prod_cases3)
  then show "t div Day = s div Day" by (simp add: minus_mod_eq_div_mult)
qed (simp add: civil_def local_day_UTC)

lemma floor_window: "0 < d \<Longrightarrow> t - t mod d = s - s mod d \<longleftrightarrow> s - s mod d \<le> t \<and> t < s - s mod d + (d :: int)"
proof -
  assume d: "0 < d"
  have t: "0 \<le> t mod d" "t mod d < d" using d by simp_all
  have "s - s mod d \<le> t \<and> t < s - s mod d + d \<Longrightarrow> t div d = s div d"
    using d by (intro int_div_pos_eq [where r = "t - s div d * d"]) (auto simp: minus_mod_eq_div_mult mult.commute)
  moreover have "t div d * d \<le> t" "t < t div d * d + d"
    using t minus_mod_eq_div_mult [of t d] by linarith+
  ultimately show ?thesis by (auto simp: minus_mod_eq_div_mult)
qed

lemma mod_shift: "0 < d \<Longrightarrow> t + d - (t + d + z) mod d = t - (t + z) mod d + (d :: int)"
  by (metis (no_types, opaque_lifting) add.commute add.left_commute add_diff_eq mod_add_self1)

text \<open>
  The windows of candles of seconds, minutes, hours and days in UTC: truncating goes to the start of the window, and an instant is within the
  window that starts there exactly when it is truncated to the same start.
\<close>

definition window_length :: "CandleDuration \<Rightarrow> int" where
  "window_length cd = (if cdSuffix cd = ''D'' then Day else cdDuration cd)"

definition plain_candle :: "CandleDuration \<Rightarrow> bool" where
  "plain_candle cd \<longleftrightarrow> cdSuffix cd \<in> {''Sec'', ''Min'', ''H'', ''D''} \<and> 0 < cdDuration cd"

lemma Truncate_floor: "plain_candle cd \<Longrightarrow> Truncate UTC cd t = t - (t + 719162 * Day) mod window_length cd"
proof (cases "cdSuffix cd = ''D''")
  case True
  have "(t + 719162 * Day) mod Day = t mod Day" by (rule mod_mult_self1)
  then show ?thesis using midnight_civil [of t] True by (auto simp: Truncate_def window_length_def split: prod.splits)
next
  case False
  assume "plain_candle cd"
  then show ?thesis using False by (auto simp: plain_candle_def Truncate_def go_truncate_def window_length_def split: prod.splits)
qed

lemma Truncate_idem: "plain_candle cd \<Longrightarrow> Truncate UTC cd (Truncate UTC cd t) = Truncate UTC cd t"
proof -
  assume p: "plain_candle cd"
  let ?z = "719162 * Day" and ?w = "window_length cd"
  have "(t - (t + ?z) mod ?w + ?z) mod ?w = ((t + ?z) - (t + ?z) mod ?w) mod ?w" by (simp add: algebra_simps)
  also have "\<dots> = 0" by (simp add: minus_mod_eq_div_mult)
  finally show ?thesis by (simp add: Truncate_floor [OF p])
qed

lemma IsWithin_Truncate: "plain_candle cd \<Longrightarrow> IsWithin UTC cd t (Truncate UTC cd s) \<longleftrightarrow> Truncate UTC cd t = Truncate UTC cd s"
proof (cases "cdSuffix cd = ''D''")
  case True
  assume p: "plain_candle cd"
  have f: "Truncate UTC cd x = x - x mod Day" for x
    using midnight_civil [of x] True by (auto simp: Truncate_def split: prod.splits)
  have "(s - s mod Day) div Day = s div Day" by (simp add: minus_mod_eq_div_mult)
  then show ?thesis by (simp add: IsWithin_def True f civil_same_day minus_mod_eq_div_mult)
next
  case False
  assume "plain_candle cd"
  then show ?thesis using False by (auto simp: plain_candle_def IsWithin_def Truncate_def split: prod.splits)
qed

lemma Ceil_floor: "plain_candle cd \<Longrightarrow> Ceil UTC cd t = Truncate UTC cd t + window_length cd"
proof (cases "cdSuffix cd = ''D''")
  case True
  assume p: "plain_candle cd"
  have "Truncate UTC cd t = t - t mod Day" using midnight_civil [of t] True by (auto simp: Truncate_def split: prod.splits)
  moreover have "Ceil UTC cd t = t - t mod Day + Day" using midnight_civil [of "t + Day"] by (auto simp: Ceil_def True split: prod.splits)
  ultimately show ?thesis using True by (simp add: window_length_def)
next
  case False
  assume p: "plain_candle cd"
  then show ?thesis using False mod_shift [of "cdDuration cd" t "719162 * Day"]
    by (auto simp: plain_candle_def Truncate_floor [OF p] Ceil_def go_truncate_def window_length_def)
qed

section \<open>Properties\<close>

text \<open>
  A duration that is a whole number of seconds, minutes, hours, days or weeks below the next unit has a timeframe, and
  the name it is given is parsed back to the same timeframe.
\<close>

theorem timeframe_roundtrip:
  assumes "(u, v) \<in> {(Second, Minute), (Minute, Hour), (Hour, Day), (Day, Week), (Week, YearDur)}" "0 < n" "n * u < v"
  shows "\<exists>tf. TimeframeFromDuration (n * u) = Some tf \<and> tfDuration tf = n * u \<and> TimeframeFromString (tfString tf) = Some tf"
proof -
  obtain name where "(name, u) \<in> set timeframeDefs"
    and d: "TimeframeFromDuration (n * u) = Some \<lparr>tfString = Itoa n @ name, tfDuration = n * u\<rparr>"
    using unit_name [OF assms] by blast
  moreover have "n < 2 ^ 31" "to_int64 (u * n) = n * u"
    using assms by (auto simp: go_int)
  ultimately have "TimeframeFromString (Itoa n @ name) = Some \<lparr>tfString = Itoa n @ name, tfDuration = n * u\<rparr>"
    using timeframe_parse [OF assms(2), of name u] by simp
  with d show ?thesis by simp
qed

theorem timeframe_roundtrip_witness:
  "\<exists>tf. TimeframeFromDuration (5 * Minute) = Some tf \<and> tfDuration tf = 5 * Minute \<and> TimeframeFromString (tfString tf) = Some tf"
  using timeframe_roundtrip [of Minute Hour 5] by simp

text \<open>
  C29: The window of a candle of seconds, minutes or hours, and of one of days, in UTC: \<^verbatim>\<open>Truncate\<close> and \<^verbatim>\<open>Ceil\<close> are the
  ends of a window that holds the instant, and \<^verbatim>\<open>IsWithin\<close> holds exactly for the instants of this window. The window is as
  long as the candle's duration; for days it is one day, whatever the multiple.
\<close>

theorem candle_window:
  assumes "cdSuffix cd \<in> {''Sec'', ''Min'', ''H'', ''D''}" "0 < cdDuration cd"
  defines "w \<equiv> (if cdSuffix cd = ''D'' then Day else cdDuration cd)"
  shows "Truncate UTC cd ts \<le> ts \<and> ts < Ceil UTC cd ts \<and> Ceil UTC cd ts = Truncate UTC cd ts + w
    \<and> (IsWithin UTC cd t (Truncate UTC cd ts) \<longleftrightarrow> Truncate UTC cd ts \<le> t \<and> t < Ceil UTC cd ts)"
proof -
  let ?z = "719162 * Day"
  have p: "plain_candle cd" "window_length cd = w" "0 < w" using assms by (auto simp: plain_candle_def window_length_def)
  have T: "Truncate UTC cd x = x - (x + ?z) mod w" for x using Truncate_floor [OF p(1)] p(2) by simp
  have "IsWithin UTC cd t (Truncate UTC cd ts) \<longleftrightarrow> t - (t + ?z) mod w = ts - (ts + ?z) mod w"
    using IsWithin_Truncate [OF p(1)] by (simp only: T)
  then show ?thesis using floor_window [OF p(3), of "t + ?z" "ts + ?z"] Ceil_floor [OF p(1)] p(2) pos_mod_bound [OF p(3), of "ts + ?z"]
      pos_mod_sign [OF p(3), of "ts + ?z"]
    by (auto simp: T)
qed


theorem candle_window_witness:
  "Ceil UTC \<lparr>cdString = ''5Min'', cdDuration = 5 * Minute, cdSuffix = ''Min'', cdMultiplier = 5\<rparr> (7 * Minute)
     = Truncate UTC \<lparr>cdString = ''5Min'', cdDuration = 5 * Minute, cdSuffix = ''Min'', cdMultiplier = 5\<rparr> (7 * Minute) + 5 * Minute"
  using candle_window [of "\<lparr>cdString = ''5Min'', cdDuration = 5 * Minute, cdSuffix = ''Min'', cdMultiplier = 5\<rparr>" "7 * Minute" 0]
  by simp

text \<open>
  The window of a month candle does not end: with a start in January, every instant of a later year before December is
  in the window, however many years and months have passed and whatever the multiple.
\<close>

theorem month_window_open:
  assumes "cdSuffix cd = ''M''" "1 \<le> cdMultiplier cd"
    and "Month loc start = 1" "Year loc start < Year loc ts" "Month loc ts < 12"
  shows "IsWithin loc cd ts start"
  using assms by (simp add: IsWithin_def month_within_def)

text \<open>15 March 2021, against a month candle of January 2019.\<close>

theorem month_window_open_witness:
  "IsWithin UTC \<lparr>cdString = ''1M'', cdDuration = 0, cdSuffix = ''M'', cdMultiplier = 1\<rparr> (1615766400 * Second) (1546300800 * Second)"
proof (rule month_window_open)
  show "Month UTC (1546300800 * Second) = 1" by code_simp
  show "Year UTC (1546300800 * Second) < Year UTC (1615766400 * Second)" by code_simp
  show "Month UTC (1615766400 * Second) < 12" by code_simp
qed simp_all

end
