(* ===== verification/Keys.thy ===== *)
theory Keys
  imports Timeframe
begin

text \<open>
  Keys of time buckets: \<^verbatim>\<open>utils/io/keytypes.go\<close>. A key is the text \<^verbatim>\<open>AAPL/1Min/OHLCV:Symbol/Timeframe/AttributeGroup\<close>,
  the items and, behind the colon, the categories they belong to; every accessor splits the text anew.
\<close>

section \<open>Model\<close>

record TimeBucketKey =
  Key :: string

definition DefaultTimeBucketSchema :: string where
  "DefaultTimeBucketSchema = ''Symbol/Timeframe/AttributeGroup''"

definition NewTimeBucketKey :: "string \<Rightarrow> string list \<Rightarrow> TimeBucketKey" where
  "NewTimeBucketKey itemKey categoryKey_opt =
     (let categoryKey = (case categoryKey_opt of
            c # _ \<Rightarrow> if c \<noteq> '''' then c else DefaultTimeBucketSchema
          | [] \<Rightarrow> DefaultTimeBucketSchema)
      in \<lparr>Key = itemKey @ '':'' @ categoryKey\<rparr>)"

definition NewTimeBucketKeyFromString :: "string \<Rightarrow> TimeBucketKey" where
  "NewTimeBucketKeyFromString itemCategoryString =
     (let splitKey = Split itemCategoryString '':''
      in if length splitKey < 2 then NewTimeBucketKey (splitKey ! 0) []
         else NewTimeBucketKey (splitKey ! 0) [splitKey ! 1])"

definition key_String :: "TimeBucketKey \<Rightarrow> string" where
  "key_String mk = Key mk"

definition go_nth :: "'a list \<Rightarrow> nat \<Rightarrow> 'a result" where
  "go_nth xs i = (if i < length xs then Inr (xs ! i) else Inl (Panic ''index out of range''))"

definition GetCatKey :: "TimeBucketKey \<Rightarrow> string result" where
  "GetCatKey mk = go_nth (Split (Key mk) '':'') 1"

definition GetItemKey :: "TimeBucketKey \<Rightarrow> string result" where
  "GetItemKey mk = go_nth (Split (Key mk) '':'') 0"

definition GetCategories :: "TimeBucketKey \<Rightarrow> string list result" where
  "GetCategories mk = res_bind (GetCatKey mk) (\<lambda>k. Inr (Split k ''/''))"

definition GetItems :: "TimeBucketKey \<Rightarrow> string list result" where
  "GetItems mk = res_bind (GetItemKey mk) (\<lambda>k. Inr (Split k ''/''))"

text \<open>The position of the first category of a name.\<close>

fun index_of :: "'a \<Rightarrow> 'a list \<Rightarrow> nat option" where
  "index_of x [] = None"
| "index_of x (y # ys) = (if y = x then Some 0 else map_option Suc (index_of x ys))"

definition GetItemInCategory :: "TimeBucketKey \<Rightarrow> string \<Rightarrow> string result" where
  "GetItemInCategory mk catName = res_bind (GetCategories mk) (\<lambda>cats.
     case index_of catName cats of
       None \<Rightarrow> Inr ''''
     | Some i \<Rightarrow> res_bind (GetItems mk) (\<lambda>items. go_nth items i))"

definition GetMultiItemInCategory :: "TimeBucketKey \<Rightarrow> string \<Rightarrow> string list result" where
  "GetMultiItemInCategory mk catName = res_bind (GetCategories mk) (\<lambda>cats.
     case index_of catName cats of
       None \<Rightarrow> Inr []
     | Some i \<Rightarrow> res_bind (GetItems mk) (\<lambda>items. res_bind (go_nth items i) (\<lambda>presplit. Inr (Split presplit '',''))))"

text \<open>Every category of the name is set; the items are written back with a slash behind each but the third.\<close>

fun set_items :: "string list \<Rightarrow> nat \<Rightarrow> string \<Rightarrow> string \<Rightarrow> string list \<Rightarrow> string list result" where
  "set_items [] i catName itemName items = Inr items"
| "set_items (cat # cats) i catName itemName items =
     (if cat = catName
      then (if i < length items then set_items cats (Suc i) catName itemName (items[i := itemName])
            else Inl (Panic ''index out of range''))
      else set_items cats (Suc i) catName itemName items)"

fun render_items :: "nat \<Rightarrow> string list \<Rightarrow> string" where
  "render_items i [] = ''''"
| "render_items i (item # items) = item @ (if i \<noteq> 2 then ''/'' else '''') @ render_items (Suc i) items"

definition SetItemInCategory :: "string \<Rightarrow> string \<Rightarrow> TimeBucketKey \<Rightarrow> TimeBucketKey result" where
  "SetItemInCategory catName itemName mk =
     res_bind (GetCategories mk) (\<lambda>cats. res_bind (GetItems mk) (\<lambda>items.
       res_bind (set_items cats 0 catName itemName items) (\<lambda>items.
         res_bind (GetCatKey mk) (\<lambda>catKey. Inr (mk\<lparr>Key := render_items 0 items @ '':'' @ catKey\<rparr>)))))"

definition GetTimeFrame :: "TimeBucketKey \<Rightarrow> Timeframe result" where
  "GetTimeFrame mk = res_bind (GetItemInCategory mk ''Timeframe'') (\<lambda>tfs.
     if tfs = '''' then Inl (Err ''Error: Unable to get timeframe from key'')
     else case TimeframeFromString tfs of
         None \<Rightarrow> Inl (Err ''Error: Unable to get timeframe from key'')
       | Some tf \<Rightarrow> Inr tf)"

definition GetPathToYearFiles :: "TimeBucketKey \<Rightarrow> path \<Rightarrow> path result" where
  "GetPathToYearFiles mk rootDir = res_bind (GetItemKey mk) (\<lambda>itemKey. Inr (Join rootDir itemKey))"

section \<open>Keys as lists of items and categories\<close>

text \<open>The items and the categories of keys that the accessors take apart again.\<close>

definition part_ok :: "string \<Rightarrow> bool" where
  "part_ok s \<longleftrightarrow> CHR ''/'' \<notin> set s \<and> CHR '':'' \<notin> set s"

definition key_of :: "string list \<Rightarrow> string list \<Rightarrow> TimeBucketKey" where
  "key_of items cats = \<lparr>Key = join_with ''/'' items @ '':'' @ join_with ''/'' cats\<rparr>"

definition parts_ok :: "string list \<Rightarrow> bool" where
  "parts_ok xs \<longleftrightarrow> xs \<noteq> [] \<and> list_all part_ok xs"

lemma join_no_colon: "list_all part_ok xs \<Longrightarrow> CHR '':'' \<notin> set (join_with ''/'' xs)"
  by (induction "''/''" xs rule: join_with.induct) (auto simp: part_ok_def)

lemma Split_parts: "parts_ok xs \<Longrightarrow> Split (join_with ''/'' xs) ''/'' = xs"
  by (rule Split_join) (auto simp: parts_ok_def part_ok_def list_all_iff)

lemma Split_colon: "CHR '':'' \<notin> set a \<Longrightarrow> CHR '':'' \<notin> set b \<Longrightarrow> Split (a @ '':'' @ b) '':'' = [a, b]"
  by simp

lemma accessors:
  assumes "parts_ok items" "parts_ok cats"
  shows "GetItems (key_of items cats) = Inr items" "GetCategories (key_of items cats) = Inr cats"
    "GetCatKey (key_of items cats) = Inr (join_with ''/'' cats)"
    "GetItemKey (key_of items cats) = Inr (join_with ''/'' items)"
proof -
  have "Split (Key (key_of items cats)) '':'' = [join_with ''/'' items, join_with ''/'' cats]"
    unfolding key_of_def using assms by (simp add: Split_colon [simplified] join_no_colon parts_ok_def)
  then show "GetCatKey (key_of items cats) = Inr (join_with ''/'' cats)"
    "GetItemKey (key_of items cats) = Inr (join_with ''/'' items)"
    by (simp_all add: GetCatKey_def GetItemKey_def go_nth_def)
  then show "GetItems (key_of items cats) = Inr items" "GetCategories (key_of items cats) = Inr cats"
    using assms by (simp_all add: GetItems_def GetCategories_def Split_parts)
qed

lemma index_of_nth: "distinct xs \<Longrightarrow> i < length xs \<Longrightarrow> index_of (xs ! i) xs = Some i"
  by (induction xs arbitrary: i) (auto simp: nth_Cons' split: if_splits)

lemma set_items_nth:
  assumes "distinct cats" "k + length cats = length items" "i < length cats"
  shows "set_items cats k (cats ! i) v items = Inr (items[k + i := v])"
  using assms
proof (induction cats arbitrary: k items i)
  case (Cons c cats)
  have skip: "c \<notin> set cats \<Longrightarrow> set_items cats j c v xs = Inr xs" for j xs
    by (induction cats arbitrary: j xs) auto
  show ?case
  proof (cases i)
    case 0
    with Cons.prems skip show ?thesis by simp
  next
    case (Suc j)
    with Cons.prems have "cats ! j \<noteq> c" by auto
    with Cons.prems Suc Cons.IH [of "Suc k" items j] show ?thesis by simp
  qed
qed simp

lemma render_three: "length items = 3 \<Longrightarrow> render_items 0 items = join_with ''/'' items"
  by (auto simp: numeral_3_eq_3 length_Suc_conv)

section \<open>The interface\<close>

text \<open>What the callers of keys rely on: setting an item replaces this item, keeps the others and the categories.\<close>

locale item_access =
  fixes invar :: "'k \<Rightarrow> bool" and cats :: "'k \<Rightarrow> string list"
    and get :: "'k \<Rightarrow> string \<Rightarrow> string result" and put :: "string \<Rightarrow> string \<Rightarrow> 'k \<Rightarrow> 'k result" and item_ok :: "string \<Rightarrow> bool"
  assumes put_total: "invar k \<Longrightarrow> c \<in> set (cats k) \<Longrightarrow> item_ok v \<Longrightarrow> \<exists>k'. put c v k = Inr k'"
    and put_invar: "invar k \<Longrightarrow> c \<in> set (cats k) \<Longrightarrow> item_ok v \<Longrightarrow> put c v k = Inr k' \<Longrightarrow> invar k' \<and> cats k' = cats k"
    and get_put: "invar k \<Longrightarrow> c \<in> set (cats k) \<Longrightarrow> item_ok v \<Longrightarrow> put c v k = Inr k' \<Longrightarrow> get k' c = Inr v"
    and get_other: "invar k \<Longrightarrow> c \<in> set (cats k) \<Longrightarrow> item_ok v \<Longrightarrow> put c v k = Inr k' \<Longrightarrow> d \<in> set (cats k) \<Longrightarrow> d \<noteq> c \<Longrightarrow>
      get k' d = get k d"
begin

text \<open>A sequence of settings; the last one of a category is the item that is read back.\<close>

primrec put_all :: "(string \<times> string) list \<Rightarrow> 'k \<Rightarrow> 'k result" where
  "put_all [] k = Inr k"
| "put_all (cv # cvs) k = res_bind (put (fst cv) (snd cv) k) (put_all cvs)"

lemma put_all_get:
  assumes "invar k" "list_all (\<lambda>(c, v). c \<in> set (cats k) \<and> item_ok v) cvs" "d \<in> set (cats k)"
  shows "\<exists>k'. put_all cvs k = Inr k' \<and> invar k' \<and> cats k' = cats k
    \<and> get k' d = (case map_of (rev cvs) d of Some v \<Rightarrow> Inr v | None \<Rightarrow> get k d)"
  using assms
proof (induction cvs arbitrary: k)
  case (Cons cv cvs)
  obtain c v where cv: "cv = (c, v)" by fastforce
  with Cons.prems obtain k1 where k1: "put c v k = Inr k1" using put_total by fastforce
  have i1: "invar k1" "cats k1 = cats k" using put_invar [of k c v k1] Cons.prems cv k1 by auto
  have g: "get k1 d = (if d = c then Inr v else get k d)"
    using get_put [of k c v k1] get_other [of k c v k1 d] Cons.prems cv k1 by auto
  from Cons.IH [of k1] Cons.prems cv i1 obtain k' where "put_all cvs k1 = Inr k'" "invar k'" "cats k' = cats k1"
    "get k' d = (case map_of (rev cvs) d of Some v \<Rightarrow> Inr v | None \<Rightarrow> get k1 d)" by auto
  with i1 k1 g cv show ?case by (auto simp: map_add_def split: option.splits)
qed simp

end

text \<open>Keys of three items in three different categories.\<close>

definition key3 :: "TimeBucketKey \<Rightarrow> bool" where
  "key3 k \<longleftrightarrow> (case (GetItems k, GetCategories k) of
      (Inr items, Inr cats) \<Rightarrow> length items = 3 \<and> length cats = 3 \<and> distinct cats \<and> k = key_of items cats
        \<and> parts_ok items \<and> parts_ok cats
    | _ \<Rightarrow> False)"

definition cats_of :: "TimeBucketKey \<Rightarrow> string list" where
  "cats_of k = (case GetCategories k of Inr cats \<Rightarrow> cats | Inl _ \<Rightarrow> [])"

lemma key3_parts:
  "key3 k \<longleftrightarrow> (\<exists>items cats. k = key_of items cats \<and> length items = 3 \<and> length cats = 3 \<and> distinct cats
     \<and> parts_ok items \<and> parts_ok cats)"
  by (auto simp: key3_def accessors split: sum.splits)

lemma SetItem_key_of:
  assumes "length items = 3" "length cats = 3" "distinct cats" "parts_ok items" "parts_ok cats" "part_ok v" "i < 3"
  shows "SetItemInCategory (cats ! i) v (key_of items cats) = Inr (key_of (items[i := v]) cats) \<and> parts_ok (items[i := v])"
proof -
  have "parts_ok (items[i := v])"
    using assms(4,6) set_update_subset_insert [of items i v] by (auto simp: parts_ok_def list_all_iff)
  moreover have "set_items cats 0 (cats ! i) v items = Inr (items[i := v])"
    using set_items_nth [of cats 0 items i v] assms by simp
  ultimately show ?thesis
    using assms by (simp add: SetItemInCategory_def accessors render_three) (simp add: key_of_def)
qed

lemma GetItem_key_of:
  assumes "length items = 3" "length cats = 3" "distinct cats" "parts_ok items" "parts_ok cats" "i < 3"
  shows "GetItemInCategory (key_of items cats) (cats ! i) = Inr (items ! i)"
  using assms by (simp add: GetItemInCategory_def accessors index_of_nth go_nth_def)

interpretation key_items: item_access key3 cats_of GetItemInCategory SetItemInCategory part_ok
proof (unfold_locales, goal_cases)
  case (1 k c v)
  then show ?case by (auto simp: key3_parts cats_of_def accessors in_set_conv_nth SetItem_key_of)
next
  case (2 k c v k')
  then show ?case by (fastforce simp: key3_parts cats_of_def accessors in_set_conv_nth SetItem_key_of)
next
  case (3 k c v k')
  then show ?case by (auto simp: key3_parts cats_of_def accessors in_set_conv_nth SetItem_key_of GetItem_key_of)
next
  case (4 k c v k' d)
  then obtain items cats where k: "k = key_of items cats" "length items = 3" "length cats = 3" "distinct cats"
      "parts_ok items" "parts_ok cats"
    by (auto simp: key3_parts)
  with 4 obtain i j where ij: "c = cats ! i" "d = cats ! j" "i < 3" "j < 3"
    by (auto simp: cats_of_def accessors in_set_conv_nth)
  with 4 k have "i \<noteq> j" "k' = key_of (items[i := v]) cats" by (auto simp: SetItem_key_of)
  with 4 k ij SetItem_key_of [of items cats v i] show ?case by (auto simp: GetItem_key_of)
qed

section \<open>Properties\<close>

text \<open>
  Setting items of a key of three categories, one after the other, gives a key of the same categories in which every
  category has the item it was last set to, and the item of the original key if it was not set.
\<close>

theorem key_items_replaced:
  assumes "key3 k" "list_all (\<lambda>(c, v). c \<in> set (cats_of k) \<and> part_ok v) cvs" "d \<in> set (cats_of k)"
  shows "\<exists>k'. foldl (\<lambda>r (c, v). res_bind r (SetItemInCategory c v)) (Inr k) cvs = Inr k' \<and> key3 k' \<and> cats_of k' = cats_of k
    \<and> GetItemInCategory k' d = (case map_of (rev cvs) d of Some v \<Rightarrow> Inr v | None \<Rightarrow> GetItemInCategory k d)"
proof -
  have err: "foldl (\<lambda>r (c, v). res_bind r (SetItemInCategory c v)) (Inl e) xs = Inl e" for e xs
    by (induction xs) auto
  have "foldl (\<lambda>r (c, v). res_bind r (SetItemInCategory c v)) (Inr x) cvs = key_items.put_all cvs x" for x
  proof (induction cvs arbitrary: x)
    case (Cons cv cvs)
    then show ?case by (cases "SetItemInCategory (fst cv) (snd cv) x") (auto simp: err [unfolded split_beta] split_beta)
  qed simp
  with key_items.put_all_get [OF assms] show ?thesis by simp
qed

lemma default_key:
  assumes "length items = 3" "parts_ok items"
  shows "NewTimeBucketKey (join_with ''/'' items) [] = key_of items [''Symbol'', ''Timeframe'', ''AttributeGroup'']"
    "key3 (NewTimeBucketKey (join_with ''/'' items) [])"
proof -
  show eq: "NewTimeBucketKey (join_with ''/'' items) [] = key_of items [''Symbol'', ''Timeframe'', ''AttributeGroup'']"
    by (simp add: NewTimeBucketKey_def key_of_def DefaultTimeBucketSchema_def)
  have "parts_ok [''Symbol'', ''Timeframe'', ''AttributeGroup'']" by (simp add: parts_ok_def part_ok_def)
  with assms show "key3 (NewTimeBucketKey (join_with ''/'' items) [])" unfolding eq key3_parts
    by (intro exI [of _ items] exI [of _ "[''Symbol'', ''Timeframe'', ''AttributeGroup'']"]) simp
qed

theorem key_items_replaced_witness:
  "\<exists>k'. foldl (\<lambda>r (c, v). res_bind r (SetItemInCategory c v)) (Inr (NewTimeBucketKey ''AAPL/1Min/OHLCV'' []))
       [(''Timeframe'', ''5Min''), (''Symbol'', ''TSLA'')] = Inr k' \<and> GetItemInCategory k' ''Timeframe'' = Inr ''5Min''"
proof -
  let ?items = "[''AAPL'', ''1Min'', ''OHLCV'']" and ?cats = "[''Symbol'', ''Timeframe'', ''AttributeGroup'']"
  have ok: "parts_ok ?items" "parts_ok ?cats" by (simp_all add: parts_ok_def part_ok_def)
  have k: "key3 (NewTimeBucketKey ''AAPL/1Min/OHLCV'' [])" "NewTimeBucketKey ''AAPL/1Min/OHLCV'' [] = key_of ?items ?cats"
    using default_key [of ?items] ok by simp_all
  have "cats_of (NewTimeBucketKey ''AAPL/1Min/OHLCV'' []) = ?cats" unfolding k(2) cats_of_def by (simp add: accessors ok)
  with key_items_replaced [OF k(1), of "[(''Timeframe'', ''5Min''), (''Symbol'', ''TSLA'')]" "''Timeframe''"]
  show ?thesis by (auto simp: part_ok_def)
qed

text \<open>
  The items are written back as if there were always three: in a key of four items, setting any of them runs the third
  and the fourth item together and leaves an empty item at the end.
\<close>

theorem four_items_merge:
  assumes "parts_ok [a, b, c, d]" "parts_ok [w, x, y, z]" "distinct [w, x, y, z]" "part_ok v"
  shows "\<exists>k'. SetItemInCategory w v (key_of [a, b, c, d] [w, x, y, z]) = Inr k' \<and> GetItems k' = Inr [v, b, c @ d, []]"
proof -
  have s: "SetItemInCategory w v (key_of [a, b, c, d] [w, x, y, z]) = Inr (key_of [v, b, c @ d, []] [w, x, y, z])"
    using assms set_items_nth [of "[w, x, y, z]" 0 "[a, b, c, d]" 0 v]
    by (simp add: SetItemInCategory_def accessors) (simp add: key_of_def)
  have "parts_ok [v, b, c @ d, []]" using assms by (simp add: parts_ok_def part_ok_def)
  then show ?thesis using s assms(2) by (simp add: accessors)
qed

theorem four_items_merge_witness:
  "\<exists>k'. SetItemInCategory ''Symbol'' ''TSLA'' (key_of [''AAPL'', ''NY'', ''1Min'', ''OHLCV''] [''Symbol'', ''City'', ''Timeframe'', ''AttributeGroup''])
     = Inr k' \<and> GetItems k' = Inr [''TSLA'', ''NY'', ''1MinOHLCV'', []]"
  using four_items_merge [of "''AAPL''" "''NY''" "''1Min''" "''OHLCV''" "''Symbol''" "''City''" "''Timeframe''" "''AttributeGroup''" "''TSLA''"]
  by (simp add: parts_ok_def part_ok_def)

end
