(* ===== verification/Series.thy ===== *)
theory Series
  imports Generics Keys
begin

text \<open>
  Columns by name (\<^verbatim>\<open>utils/io/columnseries.go\<close>, \<^verbatim>\<open>utils/io/generatedMethods.go\<close>) and rows of bytes
  (\<^verbatim>\<open>utils/io/rowseries.go\<close>), and the conversions between them. A Go map is an association list with distinct keys; where
  the code ranges over a map, the list order stands for the order of the runtime. A \<^verbatim>\<open>nil\<close> column is a column of invalid
  kind. Columns of the type \<^verbatim>\<open>int\<close>, which no element type has, are left out.
\<close>

section \<open>Column series\<close>

record ColumnSeries =
  columns :: "(string \<times> column) list"
  orderedNames :: "string list"
  candleAttributes :: CandleAttributes
  nameIncrement :: "(string \<times> int) list"

definition NewColumnSeries :: ColumnSeries where
  "NewColumnSeries = \<lparr>columns = [], orderedNames = [], candleAttributes = 0, nameIncrement = []\<rparr>"

definition Exists :: "string \<Rightarrow> ColumnSeries \<Rightarrow> bool" where
  "Exists targetName cs \<longleftrightarrow> map_of (columns cs) targetName \<noteq> None"

definition GetByName :: "string \<Rightarrow> ColumnSeries \<Rightarrow> column option" where
  "GetByName name cs = (case map_of (columns cs) name of
      Some c \<Rightarrow> if ckind c = KInvalid then None else Some c
    | None \<Rightarrow> None)"

definition cs_GetColumn :: "string \<Rightarrow> ColumnSeries \<Rightarrow> column option" where
  "cs_GetColumn name cs = GetByName name cs"

definition col_kind :: "ColumnSeries \<Rightarrow> string \<Rightarrow> kind" where
  "col_kind cs name = (case map_of (columns cs) name of Some c \<Rightarrow> ckind c | None \<Rightarrow> KInvalid)"

definition cs_GetDataShapes :: "ColumnSeries \<Rightarrow> DataShape list" where
  "cs_GetDataShapes cs = map (\<lambda>name. \<lparr>dsName = name, dsType = GetElementType (col_kind cs name)\<rparr>) (orderedNames cs)"

definition cs_Len :: "ColumnSeries \<Rightarrow> nat result" where
  "cs_Len cs = (case orderedNames cs of
      [] \<Rightarrow> Inr 0
    | name # _ \<Rightarrow> (case GetByName name cs of
        None \<Rightarrow> Inl (Panic ''reflect: call of reflect.Value.Len on zero Value'')
      | Some c \<Rightarrow> Inr (length (celems c))))"

text \<open>The type assertion \<^verbatim>\<open>.([]int64)\<close> on a column that may be absent, and the values of the column.\<close>

definition as_kind :: "kind \<Rightarrow> column option \<Rightarrow> int list result" where
  "as_kind k col = (case col of
      None \<Rightarrow> Inl (Panic ''interface conversion'')
    | Some c \<Rightarrow> if ckind c = k then Inr (map (elem_int k) (celems c)) else Inl (Panic ''interface conversion''))"

text \<open>\<^verbatim>\<open>GetTime\<close> of columns and of rows: seconds and, when there is such a column, nanoseconds.\<close>

definition times_of :: "column option \<Rightarrow> column option \<Rightarrow> instant list result" where
  "times_of ep nsi = res_bind (as_kind KInt64 ep) (\<lambda>secs. case nsi of
      None \<Rightarrow> Inr (map (\<lambda>s. ToSystemTimezone (unix_time s 0)) secs)
    | Some _ \<Rightarrow> res_bind (as_kind KInt32 nsi) (\<lambda>ns.
        if length ns < length secs then Inl (Panic ''index out of range'')
        else Inr (map (\<lambda>(s, n). ToSystemTimezone (unix_time s n)) (zip secs ns))))"

definition cs_GetTime :: "ColumnSeries \<Rightarrow> instant list result" where
  "cs_GetTime cs = times_of (cs_GetColumn ''Epoch'' cs) (cs_GetColumn ''Nanoseconds'' cs)"

definition GetColumnNames :: "ColumnSeries \<Rightarrow> string list" where
  "GetColumnNames cs = orderedNames cs"

definition cs_GetCandleAttributes :: "ColumnSeries \<Rightarrow> CandleAttributes" where
  "cs_GetCandleAttributes cs = candleAttributes cs"

definition cs_SetCandleAttributes :: "CandleAttributes \<Rightarrow> ColumnSeries \<Rightarrow> ColumnSeries" where
  "cs_SetCandleAttributes cat cs = cs\<lparr>candleAttributes := cat\<rparr>"

definition GetColumns :: "ColumnSeries \<Rightarrow> (string \<times> column) list" where
  "GetColumns cs = columns cs"

text \<open>A name that is taken gets a number, from a counter of its own.\<close>

definition AddColumn :: "string \<Rightarrow> column \<Rightarrow> ColumnSeries \<Rightarrow> ColumnSeries \<times> string" where
  "AddColumn name columnData cs =
     (let (cs, name) =
        (if Exists name cs
         then (let n = (case map_of (nameIncrement cs) name of None \<Rightarrow> 0 | Some i \<Rightarrow> i + 1)
               in (cs\<lparr>nameIncrement := AList.update name n (nameIncrement cs)\<rparr>, name @ Itoa n))
         else (cs, name))
      in (cs\<lparr>orderedNames := orderedNames cs @ [name], columns := AList.update name columnData (columns cs)\<rparr>, name))"

definition cs_IsEmpty :: "ColumnSeries \<Rightarrow> bool" where
  "cs_IsEmpty cs \<longleftrightarrow> orderedNames cs = []"

definition GetNumColumns :: "ColumnSeries \<Rightarrow> nat" where
  "GetNumColumns cs = (if cs_IsEmpty cs then 0 else length (orderedNames cs))"

text \<open>The names are compared without regard to case, the key of the map with it.\<close>

definition Remove :: "string \<Rightarrow> ColumnSeries \<Rightarrow> ColumnSeries result" where
  "Remove targetName cs =
     (if \<not> Exists targetName cs then Inl (Err ''Error: Source column does not exist'')
      else Inr (cs\<lparr>orderedNames := filter (\<lambda>name. \<not> EqualFold name targetName) (orderedNames cs),
                   columns := AList.delete targetName (columns cs)\<rparr>))"

definition Replace :: "string \<Rightarrow> column \<Rightarrow> ColumnSeries \<Rightarrow> ColumnSeries result" where
  "Replace targetName col cs = res_bind (Remove targetName cs) (\<lambda>cs. Inr (fst (AddColumn targetName col cs)))"

text \<open>\<^verbatim>\<open>Rename\<close> ignores the errors of its two calls of \<^verbatim>\<open>Remove\<close>.\<close>

definition try_remove :: "string \<Rightarrow> ColumnSeries \<Rightarrow> ColumnSeries" where
  "try_remove name cs = (case Remove name cs of Inl _ \<Rightarrow> cs | Inr cs' \<Rightarrow> cs')"

definition Rename :: "string \<Rightarrow> string \<Rightarrow> ColumnSeries \<Rightarrow> ColumnSeries result" where
  "Rename newName oldName cs = (case GetByName oldName cs of
      None \<Rightarrow> Inl (Err ''Error: Source column does not exist'')
    | Some oldColumn \<Rightarrow>
        let cs = (if Exists newName cs then try_remove newName cs else cs);
            newNames = map (\<lambda>name. if name = oldName then newName else name) (orderedNames cs);
            cs = fst (AddColumn newName oldColumn cs);
            cs = try_remove oldName cs
        in Inr (cs\<lparr>orderedNames := newNames\<rparr>))"

fun project_columns :: "string list \<Rightarrow> ColumnSeries \<Rightarrow> (string \<times> column) list \<Rightarrow> (string \<times> column) list result" where
  "project_columns [] cs newCols = Inr newCols"
| "project_columns (name # names) cs newCols = (case GetByName name cs of
      None \<Rightarrow> Inl (Err ''Column not found'')
    | Some col \<Rightarrow> project_columns names cs (AList.update name col newCols))"

definition Project :: "string list \<Rightarrow> ColumnSeries \<Rightarrow> ColumnSeries result" where
  "Project keepList cs = res_bind (project_columns keepList cs []) (\<lambda>newCols.
     Inr (cs\<lparr>columns := newCols, orderedNames := keepList\<rparr>))"

text \<open>Running a fallible operation over a list, up to the first error.\<close>

fun res_map :: "('a \<Rightarrow> 'b result) \<Rightarrow> 'a list \<Rightarrow> 'b list result" where
  "res_map f [] = Inr []"
| "res_map f (x # xs) = res_bind (f x) (\<lambda>y. res_bind (res_map f xs) (\<lambda>ys. Inr (y # ys)))"

text \<open>On an error the columns visited before it have been shortened; only the error is kept here.\<close>

definition RestrictLength :: "int \<Rightarrow> DirectionEnum \<Rightarrow> ColumnSeries \<Rightarrow> ColumnSeries result" where
  "RestrictLength newLen direction cs =
     res_bind (res_map (\<lambda>(key, col). res_bind (DownSizeSlice col newLen direction) (\<lambda>c. Inr (key, c))) (columns cs))
       (\<lambda>cols. Inr (cs\<lparr>columns := cols\<rparr>))"

text \<open>\<^verbatim>\<open>GetEpoch\<close>: no epochs without the column.\<close>

definition GetEpoch :: "ColumnSeries \<Rightarrow> int list result" where
  "GetEpoch cs = (case GetByName ''Epoch'' cs of None \<Rightarrow> Inr [] | col \<Rightarrow> as_kind KInt64 col)"

definition AddNullColumn :: "DataShape \<Rightarrow> ColumnSeries \<Rightarrow> ColumnSeries result" where
  "AddNullColumn ds cs = res_bind (cs_Len cs) (\<lambda>n. res_bind (SliceOf (dsType ds) (int n)) (\<lambda>col.
     Inr (fst (AddColumn (dsName ds) col cs))))"

section \<open>Selecting rows of a column series\<close>

definition select_elems :: "nat list \<Rightarrow> column \<Rightarrow> column result" where
  "select_elems indexes col =
     (if ckind col = KInvalid then Inl (Panic ''reflect.MakeSlice of nil type'')
      else res_bind (res_map (go_nth (celems col)) indexes) (\<lambda>es. Inr (col\<lparr>celems := es\<rparr>)))"

definition ApplyTimeQual :: "(int \<Rightarrow> bool) \<Rightarrow> ColumnSeries \<Rightarrow> ColumnSeries result" where
  "ApplyTimeQual tq cs = res_bind (GetEpoch cs) (\<lambda>epochs.
     let indexes = filter (\<lambda>i. tq (epochs ! i)) [0..<length epochs]
     in res_bind (res_map (\<lambda>(name, col). res_bind (select_elems indexes col) (\<lambda>c. Inr (name, c))) (columns cs))
          (\<lambda>cols. Inr (cs\<lparr>columns := cols\<rparr>)))"

text \<open>The first index at or after the start, and the last one before the end.\<close>

definition first_at :: "int \<Rightarrow> int list \<Rightarrow> nat option" where
  "first_at start epochs = find (\<lambda>i. start \<le> epochs ! i) [0..<length epochs]"

definition last_before :: "int \<Rightarrow> int list \<Rightarrow> nat option" where
  "last_before end epochs = find (\<lambda>i. epochs ! i < end) (rev [0..<length epochs])"

definition SliceColumnSeriesByEpoch :: "int option \<Rightarrow> int option \<Rightarrow> ColumnSeries \<Rightarrow> ColumnSeries result" where
  "SliceColumnSeriesByEpoch start end cs =
     res_bind (GetEpoch cs) (\<lambda>epochs.
       res_bind (case start of None \<Rightarrow> Inr cs | Some s \<Rightarrow>
           (case first_at s epochs of None \<Rightarrow> Inr cs
            | Some index \<Rightarrow> RestrictLength (int (length epochs) - int index) LAST cs)) (\<lambda>slc.
         case end of None \<Rightarrow> Inr slc | Some e \<Rightarrow>
           res_bind (GetEpoch slc) (\<lambda>epochs. case last_before e epochs of None \<Rightarrow> Inr slc
             | Some index \<Rightarrow> RestrictLength (int index + 1) FIRST slc)))"

section \<open>Union of two series\<close>

text \<open>For every epoch the last row that has it, of the right series if there is one: index, and whether it is of the right.\<close>

definition union_entries :: "int list \<Rightarrow> int list \<Rightarrow> (int \<times> nat \<times> bool) list" where
  "union_entries lep rep =
     (let m = fold (\<lambda>(i, e). AList.update e (i, False)) (enumerate 0 lep) [];
          m = fold (\<lambda>(i, e). AList.update e (i, True)) (enumerate 0 rep) m
      in sort_key fst m)"

text \<open>Appending the value at an index to the column of a name; \<^verbatim>\<open>reflect.Append\<close> panics for a value of another type.\<close>

definition append_cell :: "nat \<Rightarrow> string \<times> column \<Rightarrow> (string \<times> column) list \<Rightarrow> (string \<times> column) list result" where
  "append_cell i nc out =
     (if ckind (snd nc) = KInvalid then Inl (Panic ''reflect.MakeSlice of nil type'')
      else res_bind (go_nth (celems (snd nc)) i) (\<lambda>v. case map_of out (fst nc) of
          None \<Rightarrow> Inr (AList.update (fst nc) \<lparr>ckind = ckind (snd nc), celems = [v]\<rparr> out)
        | Some c \<Rightarrow> if ckind c = ckind (snd nc) then Inr (AList.update (fst nc) (c\<lparr>celems := celems c @ [v]\<rparr>) out)
            else Inl (Panic ''reflect.Set: value is not assignable'')))"

fun append_row :: "nat \<Rightarrow> (string \<times> column) list \<Rightarrow> (string \<times> column) list \<Rightarrow> (string \<times> column) list result" where
  "append_row i [] out = Inr out"
| "append_row i (nc # ncs) out = res_bind (append_cell i nc out) (append_row i ncs)"

fun append_rows :: "ColumnSeries \<Rightarrow> ColumnSeries \<Rightarrow> (int \<times> nat \<times> bool) list \<Rightarrow> (string \<times> column) list \<Rightarrow>
    (string \<times> column) list result" where
  "append_rows left right [] out = Inr out"
| "append_rows left right ((e, i, r) # es) out =
     res_bind (append_row i (columns (if r then right else left)) out) (append_rows left right es)"

definition ColumnSeriesUnion :: "ColumnSeries \<Rightarrow> ColumnSeries \<Rightarrow> ColumnSeries result" where
  "ColumnSeriesUnion left right =
     res_bind (GetEpoch left) (\<lambda>lep. res_bind (GetEpoch right) (\<lambda>rep.
       res_bind (append_rows left right (union_entries lep rep) []) (\<lambda>cols.
         Inr \<lparr>columns = cols, orderedNames = orderedNames left, candleAttributes = candleAttributes left,
              nameIncrement = nameIncrement left\<rparr>)))"

section \<open>Coercion and bitmaps: \<^verbatim>\<open>generatedMethods.go\<close>\<close>

definition number_kind :: "kind \<Rightarrow> bool" where
  "number_kind k \<longleftrightarrow> int_kind k \<or> float_kind k"

text \<open>One case for every pair of numeric types; other columns and other targets are left as they are.\<close>

definition CoerceColumnType :: "float_conv \<Rightarrow> DataShape \<Rightarrow> ColumnSeries \<Rightarrow> ColumnSeries result" where
  "CoerceColumnType fconv ds cs =
     (if dsType ds = BOOL \<or> dsType ds = STRING then Inl (Err ''Can not cast to boolean or string'')
      else case GetByName (dsName ds) cs of
          None \<Rightarrow> Inr cs
        | Some col \<Rightarrow>
            let k = element_kind (dsType ds)
            in if number_kind (ckind col) \<and> number_kind k
               then Inr (cs\<lparr>columns := AList.update (dsName ds)
                      \<lparr>ckind = k, celems = map (convert_elem fconv (ckind col) k) (celems col)\<rparr> (columns cs)\<rparr>)
               else Inr cs)"

definition bitmap_column :: "bool list \<Rightarrow> column \<Rightarrow> column result" where
  "bitmap_column bitmap col =
     res_bind (res_map (go_nth (celems col)) (filter (\<lambda>i. \<not> bitmap ! i) [0..<length bitmap])) (\<lambda>es. Inr (col\<lparr>celems := es\<rparr>))"

text \<open>Columns of other types are not touched. The names are those the series has when the loop starts.\<close>

fun restrict_names :: "bool list \<Rightarrow> string list \<Rightarrow> ColumnSeries \<Rightarrow> ColumnSeries result" where
  "restrict_names bitmap [] cs = Inr cs"
| "restrict_names bitmap (key # keys) cs = (case map_of (columns cs) key of
      None \<Rightarrow> restrict_names bitmap keys cs
    | Some col \<Rightarrow>
        if number_kind (ckind col)
        then res_bind (bitmap_column bitmap col) (\<lambda>newCol. res_bind (Replace key newCol cs) (restrict_names bitmap keys))
        else restrict_names bitmap keys cs)"

definition RestrictViaBitmap :: "bool list \<Rightarrow> ColumnSeries \<Rightarrow> ColumnSeries result" where
  "RestrictViaBitmap bitmap cs = restrict_names bitmap (orderedNames cs) cs"

section \<open>Column series by key\<close>

type_synonym ColumnSeriesMap = "(TimeBucketKey \<times> ColumnSeries) list"

definition NewColumnSeriesMap :: ColumnSeriesMap where "NewColumnSeriesMap = []"

definition csm_IsEmpty :: "ColumnSeriesMap \<Rightarrow> bool" where "csm_IsEmpty csm \<longleftrightarrow> csm = []"

definition GetMetadataKeys :: "ColumnSeriesMap \<Rightarrow> TimeBucketKey list" where
  "GetMetadataKeys csm = map fst csm"

definition csm_AddColumn :: "TimeBucketKey \<Rightarrow> string \<Rightarrow> column \<Rightarrow> ColumnSeriesMap \<Rightarrow> ColumnSeriesMap" where
  "csm_AddColumn key name columnData csm =
     (let cs = (case map_of csm key of None \<Rightarrow> NewColumnSeries | Some cs \<Rightarrow> cs)
      in AList.update key (fst (AddColumn name columnData cs)) csm)"

text \<open>A name without an entry in the map of columns reads as \<^verbatim>\<open>nil\<close>.\<close>

definition nil_column :: column where "nil_column = \<lparr>ckind = KInvalid, celems = []\<rparr>"

definition column_or_nil :: "ColumnSeries \<Rightarrow> string \<Rightarrow> column" where
  "column_or_nil cs name = (case map_of (columns cs) name of Some c \<Rightarrow> c | None \<Rightarrow> nil_column)"

definition AddColumnSeries :: "TimeBucketKey \<Rightarrow> ColumnSeries \<Rightarrow> ColumnSeriesMap \<Rightarrow> ColumnSeriesMap" where
  "AddColumnSeries key cs csm = fold (\<lambda>name. csm_AddColumn key name (column_or_nil cs name)) (orderedNames cs) csm"

text \<open>A series for which the projection fails is logged and stays as it is.\<close>

definition FilterColumns :: "string list \<Rightarrow> ColumnSeriesMap \<Rightarrow> ColumnSeriesMap" where
  "FilterColumns cols csm =
     (if cols = [] then csm
      else let keepColumns = [''Epoch''] @ cols @ [''Nanoseconds'']
      in map (\<lambda>(key, cs). (key, case Project keepColumns cs of Inl _ \<Rightarrow> cs | Inr cs' \<Rightarrow> cs')) csm)"

section \<open>Comparing data shapes\<close>

definition GetNamesFromDSV :: "DataShape list \<Rightarrow> string list" where
  "GetNamesFromDSV dataShapes = map dsName dataShapes"

definition ExtractDatashapesByNames :: "DataShape list \<Rightarrow> string list \<Rightarrow> DataShape list" where
  "ExtractDatashapesByNames dsv names =
     (let dsm = fold (\<lambda>shape. AList.update (dsName shape) shape) dsv []
      in List.map_filter (map_of dsm) names)"

definition GetMissingAndTypeCoercionColumns :: "DataShape list \<Rightarrow> DataShape list \<Rightarrow> (DataShape list \<times> DataShape list) result" where
  "GetMissingAndTypeCoercionColumns requiredDSV availableDSV =
     res_bind (AnySet_Contains (NewAnySet availableDSV) requiredDSV) (\<lambda>contained.
       if contained then Inr ([], [])
       else res_bind (Subtract (NewAnySet requiredDSV) availableDSV) (\<lambda>missingDSV.
         res_bind (Subtract (NewAnySet (GetNamesFromDSV requiredDSV)) (GetNamesFromDSV availableDSV)) (\<lambda>allMissingNames.
           if length missingDSV = length allMissingNames
           then Inr (ExtractDatashapesByNames requiredDSV allMissingNames, [])
           else res_bind (Subtract (NewAnySet (GetNamesFromDSV missingDSV)) allMissingNames) (\<lambda>needCoercionCols.
             Inr (ExtractDatashapesByNames requiredDSV allMissingNames, ExtractDatashapesByNames requiredDSV needCoercionCols)))))"

section \<open>Lemmas\<close>

lemma AddColumn_fresh: "\<not> Exists name cs \<Longrightarrow>
    AddColumn name col cs = (cs\<lparr>orderedNames := orderedNames cs @ [name], columns := AList.update name col (columns cs)\<rparr>, name)"
  by (simp add: AddColumn_def)

text \<open>The shapes of a list with distinct names, by name.\<close>

lemma fold_shapes: "distinct (map dsName dsv) \<Longrightarrow>
    map_of (fold (\<lambda>shape. AList.update (dsName shape) shape) dsv m) n
      = (case find (\<lambda>s. dsName s = n) dsv of Some s \<Rightarrow> Some s | None \<Rightarrow> map_of m n)"
proof (induction dsv arbitrary: m)
  case (Cons s dsv)
  moreover have "dsName s \<notin> dsName ` set dsv \<Longrightarrow> find (\<lambda>x. dsName x = dsName s) dsv = None"
    by (auto simp: find_None_iff) (metis imageI)
  ultimately show ?case by (auto simp: update_conv' split: option.splits)
qed simp

lemma Extract_filter:
  assumes "distinct (map dsName dsv)" "set names \<subseteq> dsName ` set dsv" "distinct names"
    and "names = map dsName (filter P dsv)"
  shows "ExtractDatashapesByNames dsv names = filter P dsv"
proof -
  have "find (\<lambda>s. dsName s = dsName x) dsv = Some x" if "x \<in> set dsv" for x
    using assms(1) that by (induction dsv) (auto intro: rev_image_eqI)
  then have "map_of (fold (\<lambda>shape. AList.update (dsName shape) shape) dsv []) (dsName x) = Some x" if "x \<in> set dsv" for x
    using that assms(1) by (simp add: fold_shapes)
  then have "List.map_filter (map_of (fold (\<lambda>shape. AList.update (dsName shape) shape) dsv [])) (map dsName xs) = xs"
    if "set xs \<subseteq> set dsv" for xs
    using that by (induction xs) (auto simp: map_filter_simps)
  then show ?thesis by (simp add: ExtractDatashapesByNames_def assms(4))
qed

lemma filter_map_dsName: "filter (\<lambda>n. P n) (map dsName xs) = map dsName (filter (\<lambda>s. P (dsName s)) xs)"
  by (simp add: filter_map comp_def)

lemma Subtract_new: "xs \<noteq> [] \<Longrightarrow> Subtract (NewAnySet xs) ys = Inr (filter (\<lambda>x. x \<notin> set ys) xs)"
  using NewAnySet_Cons [of xs] any_set.elems_minus by fastforce

lemma Contains_new: "xs \<noteq> [] \<Longrightarrow> AnySet_Contains (NewAnySet xs) ys = Inr (ys \<noteq> [] \<and> set ys \<subseteq> set xs)"
  using NewAnySet_Cons [of xs] any_set.contains_iff by fastforce

lemma split_filter_length: "length (filter (\<lambda>x. P x \<or> Q x) xs) = length (filter P xs) + length (filter (\<lambda>x. Q x \<and> \<not> P x) xs)"
  by (induction xs) auto

section \<open>Properties\<close>

text \<open>
  Comparing the shapes a bucket requires with those of the columns at hand gives exactly the required columns whose name
  is not there, to be added, and those whose name is there with another type, to be coerced, both in the required order.
\<close>

theorem missing_and_coercion:
  assumes "distinct (map dsName req)" "req \<noteq> []" "av \<noteq> []"
  shows "GetMissingAndTypeCoercionColumns req av
    = Inr (filter (\<lambda>s. dsName s \<notin> dsName ` set av) req, filter (\<lambda>s. dsName s \<in> dsName ` set av \<and> s \<notin> set av) req)"
proof -
  let ?P = "\<lambda>s. dsName s \<notin> dsName ` set av" and ?Q = "\<lambda>s. dsName s \<in> dsName ` set av \<and> s \<notin> set av"
  define names where "names = map dsName (filter ?P req)"
  have PQ: "filter (\<lambda>s. s \<notin> set av) req = filter (\<lambda>s. ?P s \<or> ?Q s) req"
    by (rule filter_cong) auto
  have len: "length (filter (\<lambda>s. s \<notin> set av) req) = length names + length (filter ?Q req)"
    unfolding PQ split_filter_length names_def by (auto intro!: arg_cong [where f = length] filter_cong)
  have sub: "Subtract (NewAnySet (GetNamesFromDSV req)) (GetNamesFromDSV av) = Inr names"
    using assms(2) by (simp add: Subtract_new GetNamesFromDSV_def names_def filter_map comp_def)
  have ex: "ExtractDatashapesByNames req (map dsName (filter R req)) = filter R req" for R
    using assms(1) by (intro Extract_filter [where P = R]) (auto intro: distinct_map_filter)
  show ?thesis
  proof (cases "set req \<subseteq> set av")
    case True
    then have "filter ?P req = []" "filter ?Q req = []" by (auto simp: filter_empty_conv)
    with True assms(2,3) show ?thesis by (simp add: GetMissingAndTypeCoercionColumns_def Contains_new)
  next
    case False
    then have ne: "filter (\<lambda>s. s \<notin> set av) req \<noteq> []" by (auto simp: filter_empty_conv)
    have "filter (\<lambda>n. n \<notin> set names) (map dsName (filter (\<lambda>s. s \<notin> set av) req)) = map dsName (filter ?Q req)"
    proof -
      have "dsName s \<notin> set names \<longleftrightarrow> \<not> ?P s" if "s \<in> set req" for s
        using that assms(1) by (auto simp: names_def)
      then have "filter (\<lambda>s. dsName s \<notin> set names \<and> s \<notin> set av) req = filter ?Q req"
        by (intro filter_cong) auto
      then show ?thesis by (simp add: filter_map comp_def conj_commute)
    qed
    then have co: "Subtract (NewAnySet (GetNamesFromDSV (filter (\<lambda>s. s \<notin> set av) req))) names = Inr (map dsName (filter ?Q req))"
      using ne by (simp add: Subtract_new GetNamesFromDSV_def)
    show ?thesis
      using False assms(2,3) len sub co ex [of ?P] ex [of ?Q]
      by (auto simp: GetMissingAndTypeCoercionColumns_def Contains_new Subtract_new names_def)
  qed
qed

theorem missing_and_coercion_witness:
  "GetMissingAndTypeCoercionColumns
     [\<lparr>dsName = ''Epoch'', dsType = INT64\<rparr>, \<lparr>dsName = ''Bid'', dsType = FLOAT32\<rparr>, \<lparr>dsName = ''Size'', dsType = INT32\<rparr>]
     [\<lparr>dsName = ''Epoch'', dsType = INT64\<rparr>, \<lparr>dsName = ''Bid'', dsType = FLOAT64\<rparr>]
   = Inr ([\<lparr>dsName = ''Size'', dsType = INT32\<rparr>], [\<lparr>dsName = ''Bid'', dsType = FLOAT32\<rparr>])"
  using missing_and_coercion [of
     "[\<lparr>dsName = ''Epoch'', dsType = INT64\<rparr>, \<lparr>dsName = ''Bid'', dsType = FLOAT32\<rparr>, \<lparr>dsName = ''Size'', dsType = INT32\<rparr>]"
     "[\<lparr>dsName = ''Epoch'', dsType = INT64\<rparr>, \<lparr>dsName = ''Bid'', dsType = FLOAT64\<rparr>]"]
  by simp

end
