(* ===== verification/SeriesLaws.thy ===== *)
theory SeriesLaws
  imports Series
begin

text \<open>
  Laws of column series: the names and the map of columns stay in step under every operation that changes them, provided the
  names differ in more than their case; slicing by epochs and the union of two series against what they are to return; and
  the inputs on which the operations go wrong.
\<close>

section \<open>The invariant\<close>

definition keys :: "('k \<times> 'v) list \<Rightarrow> 'k set" where
  "keys al = set (map fst al)"

definition series_ok :: "ColumnSeries \<Rightarrow> bool" where
  "series_ok cs \<longleftrightarrow> distinct (map ToLower (orderedNames cs)) \<and> distinct (map fst (columns cs))
     \<and> set (orderedNames cs) = keys (columns cs)"

lemma keys_simps [simp]:
  "keys [] = {}" "keys (AList.update k v al) = insert k (keys al)" "keys (AList.delete k al) = keys al - {k}"
  by (auto simp: keys_def delete_keys dom_update)

lemma keys_cong: "map fst al' = map fst al \<Longrightarrow> keys al' = keys al"
  by (metis keys_def)

lemma Exists_keys: "Exists n cs \<longleftrightarrow> n \<in> keys (columns cs)"
  by (simp add: Exists_def map_of_eq_None_iff keys_def)

lemma distinct_lower: "distinct (map ToLower ns) \<Longrightarrow> x \<in> set ns \<Longrightarrow> y \<in> set ns \<Longrightarrow> EqualFold x y \<longleftrightarrow> x = y"
  by (auto simp: EqualFold_def distinct_map dest: inj_onD)

lemma ExistsE: "Exists n cs \<Longrightarrow> \<exists>c. map_of (columns cs) n = Some c"
  by (auto simp: Exists_def)

text \<open>In a series whose names differ in more than case, the names removed are the one that is meant.\<close>

lemma Remove_ok:
  assumes "series_ok cs" "Remove n cs = Inr cs'"
  shows "series_ok cs' \<and> orderedNames cs' = filter (\<lambda>x. x \<noteq> n) (orderedNames cs) \<and> columns cs' = AList.delete n (columns cs)"
proof -
  have n: "n \<in> set (orderedNames cs)" and d: "distinct (map ToLower (orderedNames cs))"
    using assms by (auto simp: Remove_def Exists_keys series_ok_def split: if_splits)
  have f: "filter (\<lambda>x. \<not> EqualFold x n) (orderedNames cs) = filter (\<lambda>x. x \<noteq> n) (orderedNames cs)"
    using distinct_lower [OF d _ n] by (intro filter_cong) auto
  moreover have "distinct (map ToLower (filter (\<lambda>x. x \<noteq> n) (orderedNames cs)))"
    using d by (rule distinct_map_filter)
  ultimately show ?thesis using assms
    by (auto simp: Remove_def series_ok_def distinct_delete split: if_splits)
qed

lemma AddColumn_ok:
  assumes "series_ok cs" "ToLower n \<notin> ToLower ` set (orderedNames cs)"
  shows "series_ok (fst (AddColumn n c cs))"
proof -
  have "\<not> Exists n cs" using assms by (auto simp: Exists_keys series_ok_def)
  with assms show ?thesis by (auto simp: AddColumn_fresh series_ok_def distinct_update)
qed

lemma Replace_ok:
  assumes "series_ok cs" "Replace n c cs = Inr cs'"
  shows "series_ok cs'"
proof -
  obtain r where r: "Remove n cs = Inr r" "cs' = fst (AddColumn n c r)"
    using assms(2) by (auto simp: Replace_def res_bind_Inr)
  have n: "n \<in> set (orderedNames cs)" and d: "distinct (map ToLower (orderedNames cs))"
    using r(1) assms(1) by (auto simp: Remove_def Exists_keys series_ok_def split: if_splits)
  moreover have "orderedNames r = filter (\<lambda>x. x \<noteq> n) (orderedNames cs)" "series_ok r" using Remove_ok [OF assms(1) r(1)] by auto
  ultimately have "ToLower n \<notin> ToLower ` set (orderedNames r)"
    using distinct_lower [OF d n] by (auto simp: EqualFold_def)
  with \<open>series_ok r\<close> r(2) show ?thesis by (simp add: AddColumn_ok)
qed

lemma project_columns_keys:
  "project_columns names cs out = Inr cols \<Longrightarrow> distinct (map fst out) \<Longrightarrow>
     distinct (map fst cols) \<and> keys cols = set names \<union> keys out"
proof (induction names cs out rule: project_columns.induct)
  case (2 name names cs out)
  then show ?case by (auto simp: distinct_update split: option.splits)
qed simp

lemma Project_ok: "Project keep cs = Inr cs' \<Longrightarrow> distinct (map ToLower keep) \<Longrightarrow> series_ok cs'"
  using project_columns_keys [of keep cs "[]"] by (auto simp: Project_def res_bind_Inr series_ok_def)

lemma res_map_Inr: "(\<And>x. x \<in> set xs \<Longrightarrow> f x = Inr (g x)) \<Longrightarrow> res_map f xs = Inr (map g xs)"
  by (induction xs) auto

lemma res_map_keys:
  "res_map (\<lambda>(k, c). res_bind (f c) (\<lambda>c. Inr (k, c))) xs = Inr ys \<Longrightarrow> map fst ys = map fst xs"
  by (induction xs arbitrary: ys) (auto simp: res_bind_Inr)

lemma RestrictLength_ok: "series_ok cs \<Longrightarrow> RestrictLength n d cs = Inr cs' \<Longrightarrow> series_ok cs'"
proof -
  assume cs: "series_ok cs" and r: "RestrictLength n d cs = Inr cs'"
  moreover from r obtain cols where c: "map fst cols = map fst (columns cs)" "cs' = cs\<lparr>columns := cols\<rparr>"
    by (auto simp: RestrictLength_def res_bind_Inr dest: res_map_keys)
  ultimately show "series_ok cs'" using cs keys_cong [OF c(1)] by (simp add: series_ok_def)
qed

text \<open>
  C28: The list of names and the map of columns of a series stay in step, and the names stay different in more than case,
  under removing, replacing, adding, projecting and shortening columns.
\<close>

theorem series_names_invariant:
  assumes "series_ok cs"
  shows "(Remove n cs = Inr cs' \<longrightarrow> series_ok cs') \<and> (Replace n c cs = Inr cs' \<longrightarrow> series_ok cs')
    \<and> (ToLower n \<notin> ToLower ` set (orderedNames cs) \<longrightarrow> series_ok (fst (AddColumn n c cs)))
    \<and> (Project keep cs = Inr cs' \<and> distinct (map ToLower keep) \<longrightarrow> series_ok cs')
    \<and> (RestrictLength len d cs = Inr cs' \<longrightarrow> series_ok cs')"
  using assms Remove_ok Replace_ok AddColumn_ok Project_ok RestrictLength_ok by blast

definition sample_series :: ColumnSeries where
  "sample_series = \<lparr>columns = [(''Epoch'', \<lparr>ckind = KInt64, celems = [[10, 0, 0, 0, 0, 0, 0, 0], [20, 0, 0, 0, 0, 0, 0, 0], [30, 0, 0, 0, 0, 0, 0, 0]]\<rparr>),
     (''Bid'', \<lparr>ckind = KUint8, celems = [[1], [2], [3]]\<rparr>)], orderedNames = [''Epoch'', ''Bid''], candleAttributes = 0, nameIncrement = []\<rparr>"

lemma sample_series_ok: "series_ok sample_series"
  by code_simp

theorem series_names_invariant_witness:
  "\<exists>cs'. Replace ''Bid'' \<lparr>ckind = KUint8, celems = [[4], [5], [6]]\<rparr> sample_series = Inr cs' \<and> series_ok cs'"
proof -
  obtain cs' where "Replace ''Bid'' \<lparr>ckind = KUint8, celems = [[4], [5], [6]]\<rparr> sample_series = Inr cs'"
    by (simp add: Replace_def Remove_def Exists_def sample_series_def)
  with series_names_invariant [OF sample_series_ok] show ?thesis by blast
qed

text \<open>
  Renaming a column to its own name deletes it: the column is removed as the one the new name replaces, and what is put
  back under the name is removed again as the old one.
\<close>

theorem rename_to_itself_deletes:
  assumes "GetByName n cs = Some c" "series_ok cs"
  shows "\<exists>cs'. Rename n n cs = Inr cs' \<and> \<not> Exists n cs' \<and> n \<notin> set (orderedNames cs')"
proof -
  have ex: "Exists n cs" using assms(1) by (auto simp: GetByName_def Exists_def split: option.splits)
  then obtain r where r: "Remove n cs = Inr r" by (simp add: Remove_def)
  note rok = Remove_ok [OF assms(2) r]
  then have "\<not> Exists n r" by (auto simp: Exists_def delete_conv')
  moreover from rok have "n \<notin> set (orderedNames r)" by simp
  ultimately show ?thesis
    using assms(1) ex r by (auto simp: Rename_def try_remove_def AddColumn_fresh Remove_def Exists_def delete_conv' update_conv')
qed

theorem rename_to_itself_deletes_witness:
  "\<exists>cs'. Rename ''Bid'' ''Bid'' sample_series = Inr cs' \<and> \<not> Exists ''Bid'' cs' \<and> ''Bid'' \<notin> set (orderedNames cs')"
  by (rule rename_to_itself_deletes [OF _ sample_series_ok, where c = "\<lparr>ckind = KUint8, celems = [[1], [2], [3]]\<rparr>"])
    (simp add: GetByName_def sample_series_def)

section \<open>Slicing by epochs\<close>

text \<open>A series of proper columns, one value per epoch.\<close>

definition rows_ok :: "ColumnSeries \<Rightarrow> nat \<Rightarrow> bool" where
  "rows_ok cs n \<longleftrightarrow> (\<forall>(k, c) \<in> set (columns cs). ckind c \<noteq> KInvalid \<and> length (celems c) = n)"

definition map_cols :: "(bytes list \<Rightarrow> bytes list) \<Rightarrow> ColumnSeries \<Rightarrow> ColumnSeries" where
  "map_cols f cs = cs\<lparr>columns := map (\<lambda>(k, c). (k, c\<lparr>celems := f (celems c)\<rparr>)) (columns cs)\<rparr>"

lemma map_cols_cong: "(\<And>k c. (k, c) \<in> set (columns cs) \<Longrightarrow> f (celems c) = g (celems c)) \<Longrightarrow> map_cols f cs = map_cols g cs"
  unfolding map_cols_def by (auto intro!: arg_cong [where f = "\<lambda>x. columns_update (\<lambda>_. x) cs"] map_cong)

lemma map_cols_twice: "map_cols f (map_cols g cs) = map_cols (\<lambda>x. f (g x)) cs"
  by (simp add: map_cols_def comp_def split_beta)

lemma map_cols_id: "(\<And>k c. (k, c) \<in> set (columns cs) \<Longrightarrow> f (celems c) = celems c) \<Longrightarrow> map_cols f cs = cs"
proof -
  assume f: "\<And>k c. (k, c) \<in> set (columns cs) \<Longrightarrow> f (celems c) = celems c"
  have "map (\<lambda>(k, c). (k, c\<lparr>celems := f (celems c)\<rparr>)) (columns cs) = columns cs"
    by (rule map_idI) (auto simp: f)
  then show ?thesis by (simp add: map_cols_def)
qed

lemma rows_ok_map: "rows_ok cs n \<Longrightarrow> (\<And>xs. length xs = n \<Longrightarrow> length (f xs) = m) \<Longrightarrow> rows_ok (map_cols f cs) m"
  by (auto simp: rows_ok_def map_cols_def)

lemma RestrictLength_first:
  assumes "rows_ok cs n"
  shows "RestrictLength (int m) FIRST cs = Inr (map_cols (take m) cs)"
proof -
  have "res_map (\<lambda>(k, c). res_bind (DownSizeSlice c (int m) FIRST) (\<lambda>c. Inr (k, c))) (columns cs)
      = Inr (map (\<lambda>(k, c). (k, c\<lparr>celems := take m (celems c)\<rparr>)) (columns cs))"
    using assms by (intro res_map_Inr) (auto simp: rows_ok_def DownSizeSlice_first)
  then show ?thesis by (simp add: RestrictLength_def map_cols_def)
qed

lemma RestrictLength_last:
  assumes "rows_ok cs n" "m \<le> n"
  shows "RestrictLength (int n - int m) LAST cs = Inr (map_cols (drop m) cs)"
proof -
  have "res_map (\<lambda>(k, c). res_bind (DownSizeSlice c (int (n - m)) LAST) (\<lambda>c. Inr (k, c))) (columns cs)
      = Inr (map (\<lambda>(k, c). (k, c\<lparr>celems := drop m (celems c)\<rparr>)) (columns cs))"
    using assms by (intro res_map_Inr) (auto simp: rows_ok_def DownSizeSlice_last simp del: of_nat_diff)
  then have "RestrictLength (int (n - m)) LAST cs = Inr (map_cols (drop m) cs)"
    by (simp only: RestrictLength_def res_bind_simps map_cols_def)
  then show ?thesis using assms(2) by (simp only: of_nat_diff)
qed

lemma map_of_map_cols: "map_of (columns (map_cols f cs)) n = map_option (\<lambda>c. c\<lparr>celems := f (celems c)\<rparr>) (map_of (columns cs) n)"
  by (simp add: map_cols_def map_of_map)

text \<open>A series with epochs: the column is there, and slicing the columns slices it.\<close>

definition epochs_of :: "ColumnSeries \<Rightarrow> int list" where
  "epochs_of cs = (case map_of (columns cs) ''Epoch'' of Some c \<Rightarrow> map (elem_int KInt64) (celems c) | None \<Rightarrow> [])"

definition has_epochs :: "ColumnSeries \<Rightarrow> bool" where
  "has_epochs cs \<longleftrightarrow> col_kind cs ''Epoch'' = KInt64 \<and> rows_ok cs (length (epochs_of cs))"

lemma GetEpoch_epochs: "has_epochs cs \<Longrightarrow> GetEpoch cs = Inr (epochs_of cs)"
  by (auto simp: has_epochs_def col_kind_def epochs_of_def GetEpoch_def GetByName_def as_kind_def split: option.splits)

lemma epochs_drop:
  assumes "has_epochs cs"
  shows "epochs_of (map_cols (drop i) cs) = drop i (epochs_of cs) \<and> has_epochs (map_cols (drop i) cs)"
proof -
  obtain c where c: "map_of (columns cs) ''Epoch'' = Some c" "ckind c = KInt64"
    using assms by (auto simp: has_epochs_def col_kind_def split: option.splits)
  then have e: "epochs_of (map_cols (drop i) cs) = drop i (epochs_of cs)"
    by (simp add: epochs_of_def map_of_map_cols drop_map)
  moreover have "rows_ok (map_cols (drop i) cs) (length (drop i (epochs_of cs)))"
    using assms by (auto simp: has_epochs_def intro!: rows_ok_map)
  ultimately show ?thesis using c by (simp add: has_epochs_def col_kind_def map_of_map_cols)
qed

text \<open>Where the epochs ascend, the rows from the first one that is late enough on are those that are late enough.\<close>

lemma filter_suffix:
  assumes "\<And>j. j < i \<Longrightarrow> j < length ps \<Longrightarrow> \<not> P (ps ! j)" "\<And>j. i \<le> j \<Longrightarrow> j < length ps \<Longrightarrow> P (ps ! j)"
  shows "filter P ps = drop i ps"
proof -
  have "filter P (take i ps) = []" using assms(1) by (auto simp: filter_empty_conv in_set_conv_nth)
  moreover have "filter P (drop i ps) = drop i ps"
    unfolding filter_id_conv by (auto simp: in_set_conv_nth less_diff_conv add.commute intro!: assms(2))
  ultimately show ?thesis by (metis append_Nil append_take_drop_id filter_append)
qed

lemma filter_prefix:
  assumes "\<And>j. j < i \<Longrightarrow> j < length ps \<Longrightarrow> P (ps ! j)" "\<And>j. i \<le> j \<Longrightarrow> j < length ps \<Longrightarrow> \<not> P (ps ! j)"
  shows "filter P ps = take i ps"
proof -
  have "filter (\<lambda>x. \<not> P x) ps = drop i ps" using assms by (intro filter_suffix) auto
  then have "filter P (drop i ps) = filter P (filter (\<lambda>x. \<not> P x) ps)" by simp
  then have "filter P (drop i ps) = []" by simp
  moreover have "filter P (take i ps) = take i ps" using assms(1) by (auto simp: filter_id_conv in_set_conv_nth)
  ultimately show ?thesis by (metis append_Nil2 append_take_drop_id filter_append)
qed

lemma drop_filter:
  assumes "sorted xs" "first_at s xs = Some i" "length ys = length xs"
  shows "i < length xs \<and> filter (\<lambda>(e, _). s \<le> e) (zip xs ys) = zip (drop i xs) (drop i ys)"
proof -
  have i: "i < length xs" "s \<le> xs ! i" "\<forall>j < i. \<not> s \<le> xs ! j"
    using assms(2) by (auto simp: first_at_def find_Some_iff)
  have "s \<le> xs ! j" if "i \<le> j" "j < length xs" for j
    using i(2) sorted_nth_mono [OF assms(1) that] by linarith
  then have "filter (\<lambda>(e, _). s \<le> e) (zip xs ys) = drop i (zip xs ys)"
    using i assms(3) by (intro filter_suffix) auto
  then show ?thesis using i(1) by (simp add: drop_zip)
qed

lemma take_filter:
  assumes "sorted xs" "last_before t xs = Some i" "length ys = length xs"
  shows "i < length xs \<and> filter (\<lambda>(e, _). e < t) (zip xs ys) = zip (take (Suc i) xs) (take (Suc i) ys)"
proof -
  have "\<exists>k < length xs. rev [0..<length xs] ! k = i \<and> xs ! i < t \<and> (\<forall>j < k. \<not> xs ! (rev [0..<length xs] ! j) < t)"
    using assms(2) by (auto simp: last_before_def find_Some_iff)
  then obtain k where k: "k < length xs" "i = length xs - Suc k" "xs ! i < t" "\<forall>j < k. \<not> xs ! (length xs - Suc j) < t"
    by (auto simp: rev_nth)
  have late: "\<not> xs ! j < t" if "Suc i \<le> j" "j < length xs" for j
  proof -
    have "length xs - Suc j < k" "length xs - Suc (length xs - Suc j) = j" using k(1,2) that by arith+
    with k(4) show ?thesis by metis
  qed
  have early: "xs ! j < t" if "j < Suc i" for j
  proof -
    have "i < length xs" using k(1,2) by simp
    then show ?thesis using k(3) sorted_nth_mono [OF assms(1), of j i] that by simp
  qed
  have "filter (\<lambda>(e, _). e < t) (zip xs ys) = take (Suc i) (zip xs ys)"
    using early late assms(3) by (intro filter_prefix) auto
  then show ?thesis using k(1,2) by (simp add: take_zip)
qed


lemma sample_epochs: "has_epochs sample_series" "epochs_of sample_series = [10, 20, 30]"
  by code_simp+


text \<open>
  A slice that starts after the last row is not empty: no row is late enough, the start is then not applied, and a series
  that ends before both epochs comes back whole.
\<close>

theorem slice_past_end_returns_all:
  assumes "has_epochs cs" "sorted (epochs_of cs)" "epochs_of cs \<noteq> []" "\<forall>e \<in> set (epochs_of cs). e < s" "s \<le> t"
  shows "SliceColumnSeriesByEpoch (Some s) (Some t) cs = Inr cs"
proof -
  let ?ep = "epochs_of cs"
  have f: "first_at s ?ep = None" using assms(4) unfolding first_at_def find_None_iff by (auto simp: not_le)
  have all: "\<forall>e \<in> set ?ep. e < t" using assms(4,5) by force
  obtain k where k: "length ?ep = Suc k" using assms(3) by (cases ?ep) auto
  then have j: "last_before t ?ep = Some k" using all by (simp add: last_before_def)
  have "int k + 1 = int (length ?ep)" using k by simp
  then have "SliceColumnSeriesByEpoch (Some s) (Some t) cs = RestrictLength (int (length ?ep)) FIRST cs"
    using assms(1) f j by (simp add: SliceColumnSeriesByEpoch_def GetEpoch_epochs)
  also have "\<dots> = Inr (map_cols (take (length ?ep)) cs)"
    using assms(1) by (intro RestrictLength_first) (auto simp: has_epochs_def)
  also have "map_cols (take (length ?ep)) cs = cs"
    using assms(1) by (intro map_cols_id) (auto simp: has_epochs_def rows_ok_def)
  finally show ?thesis .
qed

theorem slice_past_end_returns_all_witness: "SliceColumnSeriesByEpoch (Some 40) (Some 50) sample_series = Inr sample_series"
  by (rule slice_past_end_returns_all [OF sample_epochs(1)]) (simp_all add: sample_epochs(2))

section \<open>Union\<close>

text \<open>The last position of an epoch, and the row of the union for it.\<close>

definition last_pos :: "int list \<Rightarrow> int \<Rightarrow> nat option" where
  "last_pos xs e = find (\<lambda>i. xs ! i = e) (rev [0..<length xs])"

lemma last_pos_snoc: "last_pos (xs @ [x]) e = (if x = e then Some (length xs) else last_pos xs e)"
proof -
  have "find (\<lambda>i. (xs @ [x]) ! i = e) ys = find (\<lambda>i. xs ! i = e) ys" if "set ys \<subseteq> {0..<length xs}" for ys
    using that by (intro find_cong) (auto simp: nth_append)
  then show ?thesis by (simp add: last_pos_def)
qed

lemma last_pos_bound: "last_pos xs e = Some i \<Longrightarrow> i < length xs"
  by (auto simp: last_pos_def find_Some_iff rev_nth)

lemma last_pos_None: "last_pos xs e = None \<longleftrightarrow> e \<notin> set xs"
  by (auto simp: last_pos_def find_None_iff in_set_conv_nth)

lemma fold_positions:
  "map_of (fold (\<lambda>(i, e). AList.update e (i, b)) (enumerate 0 xs) m) e
     = (case last_pos xs e of Some i \<Rightarrow> Some (i, b) | None \<Rightarrow> map_of m e)"
proof (induction xs rule: rev_induct)
  case (snoc x xs)
  then show ?case by (simp add: last_pos_snoc enumerate_append_eq update_conv' split: option.splits)
qed (simp add: last_pos_def)

lemma fold_positions_distinct:
  "distinct (map fst m) \<Longrightarrow> distinct (map fst (fold (\<lambda>(i, e). AList.update e (i, b)) xs m))"
  by (induction xs arbitrary: m) (auto simp: distinct_update)

definition union_row :: "int list \<Rightarrow> int list \<Rightarrow> int \<Rightarrow> nat \<times> bool" where
  "union_row lep rep e = (case last_pos rep e of Some i \<Rightarrow> (i, True)
     | None \<Rightarrow> (case last_pos lep e of Some i \<Rightarrow> (i, False) | None \<Rightarrow> (0, False)))"

lemma union_entries_eq:
  "union_entries lep rep = map (\<lambda>e. (e, union_row lep rep e)) (sorted_list_of_set (set lep \<union> set rep))"
proof -
  define m where "m = fold (\<lambda>(i, e). AList.update e (i, True)) (enumerate 0 rep)
      (fold (\<lambda>(i, e). AList.update e (i, False)) (enumerate 0 lep) [])"
  have d: "distinct (map fst m)" unfolding m_def by (intro fold_positions_distinct) simp
  have lk: "map_of m e = (case last_pos rep e of Some i \<Rightarrow> Some (i, True)
      | None \<Rightarrow> (case last_pos lep e of Some i \<Rightarrow> Some (i, False) | None \<Rightarrow> None))" for e
    unfolding m_def fold_positions by (simp split: option.splits)
  have dom: "set (map fst m) = set lep \<union> set rep"
  proof -
    have "e \<in> set (map fst m) \<longleftrightarrow> map_of m e \<noteq> None" for e by (simp add: map_of_eq_None_iff)
    moreover have "map_of m e \<noteq> None \<longleftrightarrow> e \<in> set lep \<union> set rep" for e
      using last_pos_None [of lep e] last_pos_None [of rep e] unfolding lk by (auto split: option.splits)
    ultimately show ?thesis by blast
  qed
  have "map fst (sort_key fst m) = sorted_list_of_set (set (map fst m))"
    using d by (intro sorted_distinct_set_unique)
      (auto simp: distinct_map inj_on_def sorted_sort_key dest: map_of_eqI)
  moreover have "p = (fst p, union_row lep rep (fst p))" if "p \<in> set (sort_key fst m)" for p
  proof -
    have "map_of m (fst p) = Some (snd p)" using that d by simp
    then have "snd p = union_row lep rep (fst p)" unfolding lk by (auto simp: union_row_def split: option.splits)
    then show ?thesis by (metis prod.collapse)
  qed
  then have "map (\<lambda>p. (fst p, union_row lep rep (fst p))) (sort_key fst m) = sort_key fst m"
    by (intro map_idI) simp
  ultimately have "sort_key fst m = map (\<lambda>e. (e, union_row lep rep e)) (sorted_list_of_set (set lep \<union> set rep))"
    unfolding dom by (metis (no_types, lifting) map_map comp_apply map_cong)
  then show ?thesis by (simp add: union_entries_def Let_def m_def)
qed

definition push :: "column \<Rightarrow> nat \<Rightarrow> column option \<Rightarrow> column" where
  "push c i old = (case old of None \<Rightarrow> \<lparr>ckind = ckind c, celems = [celems c ! i]\<rparr>
     | Some c' \<Rightarrow> c'\<lparr>celems := celems c' @ [celems c ! i]\<rparr>)"

lemma append_row_spec:
  assumes "distinct (map fst ncs)"
    and "\<And>n c. (n, c) \<in> set ncs \<Longrightarrow> ckind c \<noteq> KInvalid \<and> i < length (celems c) \<and> (\<forall>c'. map_of out n = Some c' \<longrightarrow> ckind c' = ckind c)"
  shows "\<exists>out'. append_row i ncs out = Inr out' \<and>
    (\<forall>n. map_of out' n = (case map_of ncs n of None \<Rightarrow> map_of out n | Some c \<Rightarrow> Some (push c i (map_of out n))))"
  using assms
proof (induction ncs arbitrary: out)
  case (Cons nc ncs)
  obtain n c where nc: "nc = (n, c)" by fastforce
  have c: "ckind c \<noteq> KInvalid" "i < length (celems c)" "\<And>c'. map_of out n = Some c' \<Longrightarrow> ckind c' = ckind c"
    using Cons.prems(2) [of n c] nc by auto
  define out1 where "out1 = AList.update n (push c i (map_of out n)) out"
  have a: "append_cell i nc out = Inr out1"
  proof (cases "map_of out n")
    case None
    with c(1,2) show ?thesis by (simp add: append_cell_def nc go_nth_def out1_def push_def)
  next
    case (Some c')
    with c(1,2) c(3) [OF Some] show ?thesis by (simp add: append_cell_def nc go_nth_def out1_def push_def)
  qed
  have "n \<notin> set (map fst ncs)" using Cons.prems(1) nc by simp
  then have o1: "map_of out1 n' = map_of out n'" if "n' \<in> set (map fst ncs)" for n'
    using that by (auto simp: out1_def update_conv')
  have "\<exists>out'. append_row i ncs out1 = Inr out' \<and>
      (\<forall>n. map_of out' n = (case map_of ncs n of None \<Rightarrow> map_of out1 n | Some c \<Rightarrow> Some (push c i (map_of out1 n))))"
  proof (rule Cons.IH)
    fix n' c'
    assume m: "(n', c') \<in> set ncs"
    then have "n' \<in> set (map fst ncs)" by force
    then have "map_of out1 n' = map_of out n'" by (rule o1)
    moreover have "ckind c' \<noteq> KInvalid \<and> i < length (celems c') \<and> (\<forall>c''. map_of out n' = Some c'' \<longrightarrow> ckind c'' = ckind c')"
      by (rule Cons.prems(2)) (simp add: m)
    ultimately show "ckind c' \<noteq> KInvalid \<and> i < length (celems c') \<and> (\<forall>c''. map_of out1 n' = Some c'' \<longrightarrow> ckind c'' = ckind c')"
      by metis
  qed (use Cons.prems(1) in simp)
  then obtain out' where out': "append_row i ncs out1 = Inr out'"
    "\<And>n. map_of out' n = (case map_of ncs n of None \<Rightarrow> map_of out1 n | Some c \<Rightarrow> Some (push c i (map_of out1 n)))" by blast
  have "map_of out' n' = (case map_of (nc # ncs) n' of None \<Rightarrow> map_of out n' | Some c \<Rightarrow> Some (push c i (map_of out n')))" for n'
  proof (cases "n' = n")
    case True
    moreover have "map_of ncs n = None" using \<open>n \<notin> set (map fst ncs)\<close> by (simp add: map_of_eq_None_iff)
    ultimately show ?thesis by (simp add: out'(2) nc out1_def update_conv')
  next
    case False
    then have "map_of out1 n' = map_of out n'" by (simp add: out1_def update_conv')
    with False show ?thesis by (simp add: out'(2) nc split: option.splits)
  qed
  with a out'(1) show ?case by auto
qed simp

text \<open>The value a row of the union has in a column.\<close>

definition union_cell :: "ColumnSeries \<Rightarrow> ColumnSeries \<Rightarrow> string \<Rightarrow> nat \<times> bool \<Rightarrow> bytes" where
  "union_cell left right n ir = celems (column_or_nil (if snd ir then right else left) n) ! fst ir"

definition same_columns :: "ColumnSeries \<Rightarrow> ColumnSeries \<Rightarrow> bool" where
  "same_columns left right \<longleftrightarrow> distinct (map fst (columns left)) \<and> distinct (map fst (columns right))
     \<and> keys (columns left) = keys (columns right) \<and> (\<forall>n \<in> keys (columns left). col_kind left n = col_kind right n)"

lemma append_rows_spec:
  assumes "same_columns left right" "rows_ok left nl" "rows_ok right nr"
    and "\<And>e i r. (e, i, r) \<in> set es \<Longrightarrow> i < (if r then nr else nl)"
    and "\<And>n c. map_of out n = Some c \<Longrightarrow> ckind c = col_kind left n"
  shows "\<exists>out'. append_rows left right es out = Inr out' \<and> (\<forall>n \<in> keys (columns left).
     map_of out' n = (case map_of out n of
         None \<Rightarrow> if es = [] then None else Some \<lparr>ckind = col_kind left n, celems = map (union_cell left right n \<circ> snd) es\<rparr>
       | Some c \<Rightarrow> Some (c\<lparr>celems := celems c @ map (union_cell left right n \<circ> snd) es\<rparr>)))"
  using assms(4,5)
proof (induction es arbitrary: out)
  case (Cons x es)
  obtain e i r where x: "x = (e, i, r)" by (cases x)
  let ?s = "if r then right else left"
  have kinds: "n \<in> keys (columns left) \<and> ckind c = col_kind left n" if "map_of (columns ?s) n = Some c" for n c
  proof -
    have "n \<in> keys (columns ?s)" using that by (force simp: keys_def dest: map_of_SomeD)
    then have "n \<in> keys (columns left)" using assms(1) by (auto simp: same_columns_def split: if_splits)
    moreover have "col_kind ?s n = ckind c" using that by (simp add: col_kind_def)
    ultimately show ?thesis using assms(1) by (auto simp: same_columns_def split: if_splits)
  qed
  have "i < (if r then nr else nl)" using Cons.prems(1) [of e i r] x by simp
  moreover have "rows_ok ?s (if r then nr else nl)" using assms(2,3) by simp
  moreover have d: "distinct (map fst (columns ?s))" using assms(1) by (simp add: same_columns_def)
  ultimately have row: "\<exists>out'. append_row i (columns ?s) out = Inr out' \<and>
      (\<forall>n. map_of out' n = (case map_of (columns ?s) n of None \<Rightarrow> map_of out n | Some c \<Rightarrow> Some (push c i (map_of out n))))"
    using kinds Cons.prems(2) by (intro append_row_spec) (auto simp: rows_ok_def)
  then obtain o1 where o1: "append_row i (columns ?s) out = Inr o1"
    "\<And>n. map_of o1 n = (case map_of (columns ?s) n of None \<Rightarrow> map_of out n | Some c \<Rightarrow> Some (push c i (map_of out n)))" by blast
  have cell: "map_of o1 n = Some (case map_of out n of
        None \<Rightarrow> \<lparr>ckind = col_kind left n, celems = [union_cell left right n (i, r)]\<rparr>
      | Some c \<Rightarrow> c\<lparr>celems := celems c @ [union_cell left right n (i, r)]\<rparr>)" if "n \<in> keys (columns left)" for n
  proof -
    have "n \<in> keys (columns ?s)" using that assms(1) by (auto simp: same_columns_def)
    then obtain c where c: "map_of (columns ?s) n = Some c"
      by (cases "map_of (columns ?s) n") (auto simp: keys_def map_of_eq_None_iff)
    then have "union_cell left right n (i, r) = celems c ! i" by (simp add: union_cell_def column_or_nil_def)
    with kinds [OF c] c o1(2) [of n] show ?thesis by (simp add: push_def split: option.splits)
  qed
  have k1: "ckind c = col_kind left n" if "map_of o1 n = Some c" for n c
    using that o1(2) [of n] kinds Cons.prems(2) [of n] by (auto simp: push_def split: option.splits)
  have "\<exists>out'. append_rows left right es o1 = Inr out' \<and> (\<forall>n \<in> keys (columns left). map_of out' n = (case map_of o1 n of
         None \<Rightarrow> if es = [] then None else Some \<lparr>ckind = col_kind left n, celems = map (union_cell left right n \<circ> snd) es\<rparr>
       | Some c \<Rightarrow> Some (c\<lparr>celems := celems c @ map (union_cell left right n \<circ> snd) es\<rparr>)))"
  proof (rule Cons.IH)
    show "i < (if r then nr else nl)" if "(e, i, r) \<in> set es" for e i r
      using that by (intro Cons.prems(1)) auto
  qed (rule k1)
  then obtain out' where out': "append_rows left right es o1 = Inr out'"
    and lk: "\<forall>n \<in> keys (columns left). map_of out' n = (case map_of o1 n of
         None \<Rightarrow> if es = [] then None else Some \<lparr>ckind = col_kind left n, celems = map (union_cell left right n \<circ> snd) es\<rparr>
       | Some c \<Rightarrow> Some (c\<lparr>celems := celems c @ map (union_cell left right n \<circ> snd) es\<rparr>))"
    by blast
  have "append_rows left right (x # es) out = Inr out'" using o1(1) out' by (simp add: x)
  moreover have "map_of out' n = (case map_of out n of
         None \<Rightarrow> if x # es = [] then None else Some \<lparr>ckind = col_kind left n, celems = map (union_cell left right n \<circ> snd) (x # es)\<rparr>
       | Some c \<Rightarrow> Some (c\<lparr>celems := celems c @ map (union_cell left right n \<circ> snd) (x # es)\<rparr>))"
    if n: "n \<in> keys (columns left)" for n
    using bspec [OF lk n] cell [OF n] by (cases "map_of out n") (simp_all add: x)
  ultimately show ?case by blast
qed (auto split: option.splits)

text \<open>
  C26: The union of two series with the same columns has each epoch of either series once, in ascending order, and the row
  of an epoch is the last row the right series has for it or, if it has none, the last row of the left series.
\<close>

theorem union_rows:
  assumes "has_epochs left" "has_epochs right" "same_columns left right" "epochs_of left \<noteq> [] \<or> epochs_of right \<noteq> []"
  shows "\<exists>u. ColumnSeriesUnion left right = Inr u \<and> orderedNames u = orderedNames left
    \<and> (\<forall>n \<in> keys (columns left). map_of (columns u) n = Some \<lparr>ckind = col_kind left n,
         celems = map (\<lambda>e. case last_pos (epochs_of right) e of
                Some i \<Rightarrow> celems (column_or_nil right n) ! i
              | None \<Rightarrow> celems (column_or_nil left n) ! the (last_pos (epochs_of left) e))
            (sorted_list_of_set (set (epochs_of left) \<union> set (epochs_of right)))\<rparr>)"
proof -
  let ?l = "epochs_of left" and ?r = "epochs_of right" and ?es = "union_entries (epochs_of left) (epochs_of right)"
  have pos: "case last_pos ?r e of Some i \<Rightarrow> i < length ?r | None \<Rightarrow> \<exists>i < length ?l. last_pos ?l e = Some i"
    if "e \<in> set ?l \<union> set ?r" for e
    using that last_pos_None [of ?l e] last_pos_None [of ?r e] last_pos_bound [of ?l e] last_pos_bound [of ?r e]
    by (auto split: option.splits)
  have "i < (if r then length ?r else length ?l)" if "(e, i, r) \<in> set ?es" for e i r
  proof -
    from that have "e \<in> set ?l \<union> set ?r" "(i, r) = union_row ?l ?r e" by (auto simp: union_entries_eq)
    with pos [of e] show ?thesis by (auto simp: union_row_def split: option.splits)
  qed
  then have "\<exists>cols. append_rows left right ?es [] = Inr cols \<and> (\<forall>n \<in> keys (columns left).
     map_of cols n = (case map_of [] n of
         None \<Rightarrow> if ?es = [] then None else Some \<lparr>ckind = col_kind left n, celems = map (union_cell left right n \<circ> snd) ?es\<rparr>
       | Some c \<Rightarrow> Some (c\<lparr>celems := celems c @ map (union_cell left right n \<circ> snd) ?es\<rparr>)))"
    using assms(1,2) by (intro append_rows_spec [OF assms(3), of "length ?l" "length ?r"]) (simp_all add: has_epochs_def)
  then obtain cols where cols: "append_rows left right ?es [] = Inr cols"
    "\<forall>n \<in> keys (columns left). map_of cols n = (if ?es = [] then None
        else Some \<lparr>ckind = col_kind left n, celems = map (union_cell left right n \<circ> snd) ?es\<rparr>)"
    by (simp only: map_of.simps option.case) blast
  have ne: "?es \<noteq> []" using assms(4) by (auto simp: union_entries_eq)
  have "map (union_cell left right n \<circ> snd) ?es = map (\<lambda>e. case last_pos ?r e of
      Some i \<Rightarrow> celems (column_or_nil right n) ! i
    | None \<Rightarrow> celems (column_or_nil left n) ! the (last_pos ?l e)) (sorted_list_of_set (set ?l \<union> set ?r))" for n
    unfolding union_entries_eq map_map using pos
    by (intro map_cong) (fastforce simp: union_cell_def union_row_def split: option.splits)+
  with cols ne assms(1,2) show ?thesis by (simp add: ColumnSeriesUnion_def GetEpoch_epochs)
qed

definition later_series :: ColumnSeries where
  "later_series = \<lparr>columns = [(''Epoch'', \<lparr>ckind = KInt64, celems = [[20, 0, 0, 0, 0, 0, 0, 0], [40, 0, 0, 0, 0, 0, 0, 0]]\<rparr>),
     (''Bid'', \<lparr>ckind = KUint8, celems = [[7], [8]]\<rparr>)], orderedNames = [''Epoch'', ''Bid''], candleAttributes = 0, nameIncrement = []\<rparr>"

theorem union_rows_witness:
  "\<exists>u. ColumnSeriesUnion sample_series later_series = Inr u \<and> map_of (columns u) ''Bid'' = Some \<lparr>ckind = KUint8, celems = [[1], [7], [3], [8]]\<rparr>"
proof -
  have l: "has_epochs later_series" "epochs_of later_series = [20, 40]" "same_columns sample_series later_series" by code_simp+
  have s: "sorted_list_of_set ({10, 20, 30} \<union> {20, 40}) = [10, 20, 30, 40 :: int]" by code_simp
  have e: "column_or_nil later_series ''Bid'' = \<lparr>ckind = KUint8, celems = [[7], [8]]\<rparr>"
    "column_or_nil sample_series ''Bid'' = \<lparr>ckind = KUint8, celems = [[1], [2], [3]]\<rparr>" "col_kind sample_series ''Bid'' = KUint8"
    "''Bid'' \<in> keys (columns sample_series)"
    "last_pos [20, 40] 10 = None" "last_pos [20, 40] 20 = Some 0" "last_pos [20, 40] 30 = None" "last_pos [20, 40] 40 = Some 1"
    "last_pos [10, 20, 30] 10 = Some 0" "last_pos [10, 20, 30] 30 = Some 2" by code_simp+
  from union_rows [OF sample_epochs(1) l(1) l(3)] obtain u where
    "ColumnSeriesUnion sample_series later_series = Inr u" and
    u: "\<forall>n \<in> keys (columns sample_series). map_of (columns u) n = Some \<lparr>ckind = col_kind sample_series n,
         celems = map (\<lambda>e. case last_pos [20, 40] e of
                Some i \<Rightarrow> celems (column_or_nil later_series n) ! i
              | None \<Rightarrow> celems (column_or_nil sample_series n) ! the (last_pos [10, 20, 30] e))
            (sorted_list_of_set ({10, 20, 30} \<union> {20, 40}))\<rparr>"
    unfolding l(2) sample_epochs(2) by auto
  moreover have "map_of (columns u) ''Bid'' = Some \<lparr>ckind = KUint8, celems = [[1], [7], [3], [8]]\<rparr>"
    using bspec [OF u e(4)] unfolding s by (simp add: e)
  ultimately show ?thesis by blast
qed

end
