(* ===== verification/Rows.thy ===== *)
theory Rows
  imports SeriesLaws
begin

text \<open>
  Rows of bytes: \<^verbatim>\<open>utils/io/rowseries.go\<close> and \<^verbatim>\<open>SerializeColumnsToRows\<close> of \<^verbatim>\<open>utils/io/columnseries.go\<close>, with the theorem that
  columns written as rows and read back are the same columns.
\<close>

section \<open>Columns to rows\<close>

fun add_nulls :: "DataShape list \<Rightarrow> ColumnSeries \<Rightarrow> ColumnSeries result" where
  "add_nulls [] cs = Inr cs"
| "add_nulls (shape # shapes) cs = res_bind (AddNullColumn shape cs) (add_nulls shapes)"

text \<open>The error of a coercion is dropped, and the series then stays as it is.\<close>

definition coerce_all :: "float_conv \<Rightarrow> DataShape list \<Rightarrow> ColumnSeries \<Rightarrow> ColumnSeries" where
  "coerce_all fconv shapes cs =
     fold (\<lambda>shape cs. case CoerceColumnType fconv shape cs of Inl _ \<Rightarrow> cs | Inr cs' \<Rightarrow> cs') shapes cs"

text \<open>The bytes of the column of a shape; a column that is not there has no slice to take them of.\<close>

definition col_in_bytes :: "ColumnSeries \<Rightarrow> DataShape \<Rightarrow> bytes result" where
  "col_in_bytes cs shape =
     (let c = column_or_nil cs (dsName shape)
      in if ckind c = KInvalid then Inl (Panic ''reflect: call of reflect.Value.Len on zero Value'')
         else Inr (concat (celems (SwapSliceData c KUint8))))"

definition is_epoch :: "DataShape \<Rightarrow> bool" where
  "is_epoch shape \<longleftrightarrow> EqualFold (dsName shape) ''Epoch''"

definition serialize_row :: "(DataShape \<times> bytes) list \<Rightarrow> bytes \<Rightarrow> int \<times> nat \<Rightarrow> bytes result" where
  "serialize_row shapes padbuf ei =
     res_bind (res_map (\<lambda>(shape, b). SliceInBytesAt (dsType shape) b (int (snd ei)))
         (filter (\<lambda>(shape, _). \<not> is_epoch shape) shapes)) (\<lambda>words.
       Inr (encoding (Int64 (fst ei)) @ concat words @ padbuf))"

definition SerializeColumnsToRows :: "float_conv \<Rightarrow> ColumnSeries \<Rightarrow> DataShape list \<Rightarrow> bool \<Rightarrow> (bytes \<times> int \<times> ColumnSeries) result" where
  "SerializeColumnsToRows fconv cs dataShapes align64 =
     res_bind (GetMissingAndTypeCoercionColumns dataShapes (cs_GetDataShapes cs)) (\<lambda>(missing, needcoercion).
       res_bind (add_nulls missing cs) (\<lambda>cs.
         let cs = coerce_all fconv needcoercion cs
         in res_bind (res_map (col_in_bytes cs) dataShapes) (\<lambda>colInBytesList.
           if \<not> list_ex is_epoch dataShapes then Inr ([], 0, cs)
           else
             let recordLen = sum_sizes (map dsType dataShapes);
                 padding = (if align64 then AlignedSize recordLen - recordLen else 0)
             in res_bind (as_kind KInt64 (map_of (columns cs) ''Epoch'')) (\<lambda>epochCol.
                  res_bind (res_map (serialize_row (zip dataShapes colInBytesList) (replicate (nat padding) 0))
                      (zip epochCol [0..<length epochCol])) (\<lambda>rows.
                    Inr (concat rows, recordLen + padding, cs))))))"

section \<open>Rows\<close>

record Rows =
  dataShape :: "DataShape list"
  rdata :: bytes
  rowLen :: int
  rCandleAttributes :: CandleAttributes

definition NewRows :: "DataShape list \<Rightarrow> bytes \<Rightarrow> Rows" where
  "NewRows shapes data = \<lparr>dataShape = shapes, rdata = data, rowLen = 0, rCandleAttributes = 0\<rparr>"

text \<open>The length that is asked for first is kept in the struct; the value is the same each time.\<close>

definition GetRowLen :: "Rows \<Rightarrow> int" where
  "GetRowLen rows = (if rowLen rows = 0 then sum_sizes (map dsType (dataShape rows)) else rowLen rows)"

definition SetRowLen :: "int \<Rightarrow> Rows \<Rightarrow> Rows" where
  "SetRowLen len rows = rows\<lparr>rowLen := (if len < GetRowLen rows then GetRowLen rows else len)\<rparr>"

definition GetNumRows :: "Rows \<Rightarrow> int" where
  "GetNumRows rows =
     (let mylen = GetRowLen rows
      in if mylen = 0 \<or> rdata rows = [] then 0 else int (length (rdata rows)) sdiv mylen)"

definition GetData :: "Rows \<Rightarrow> bytes" where "GetData rows = rdata rows"

definition GetRow :: "int \<Rightarrow> Rows \<Rightarrow> bytes result" where
  "GetRow i rows = go_slice (i * GetRowLen rows) (i * GetRowLen rows + GetRowLen rows) (rdata rows)"

definition rows_GetDataShapes :: "Rows \<Rightarrow> DataShape list" where "rows_GetDataShapes rows = dataShape rows"

definition rows_SetCandleAttributes :: "CandleAttributes \<Rightarrow> Rows \<Rightarrow> Rows" where
  "rows_SetCandleAttributes ca rows = rows\<lparr>rCandleAttributes := ca\<rparr>"

definition rows_GetCandleAttributes :: "Rows \<Rightarrow> CandleAttributes" where
  "rows_GetCandleAttributes rows = rCandleAttributes rows"

text \<open>The reader of a column of a type, at its offset in the row; no column for the types the switch does not name.\<close>

definition column_at :: "EnumElementType \<Rightarrow> nat \<Rightarrow> Rows \<Rightarrow> column option result" where
  "column_at t offset rows =
     (let len = nat (GetRowLen rows); n = nat (GetNumRows rows); d = rdata rows; some = (\<lambda>r. res_bind r (\<lambda>c. Inr (Some c)))
      in case t of
          FLOAT32 \<Rightarrow> some (getFloat32Column offset len n d)
        | FLOAT64 \<Rightarrow> some (getFloat64Column offset len n d)
        | INT16 \<Rightarrow> some (getInt16Column offset len n d)
        | INT32 \<Rightarrow> some (getInt32Column offset len n d)
        | EPOCH \<Rightarrow> some (getInt64Column offset len n d)
        | INT64 \<Rightarrow> some (getInt64Column offset len n d)
        | UINT8 \<Rightarrow> some (getUInt8Column offset len n d)
        | UINT16 \<Rightarrow> some (getUInt16Column offset len n d)
        | UINT32 \<Rightarrow> some (getUInt32Column offset len n d)
        | UINT64 \<Rightarrow> some (getUInt64Column offset len n d)
        | BOOL \<Rightarrow> some (getByteColumn offset len n d)
        | BYTE \<Rightarrow> some (getByteColumn offset len n d)
        | _ \<Rightarrow> Inr None)"

fun column_from :: "DataShape list \<Rightarrow> nat \<Rightarrow> string \<Rightarrow> Rows \<Rightarrow> column option result" where
  "column_from [] offset colname rows = Inr None"
| "column_from (ds # dss) offset colname rows =
     (if dsName ds = colname
      then res_bind (column_at (dsType ds) offset rows) (\<lambda>c. case c of
          Some _ \<Rightarrow> Inr c
        | None \<Rightarrow> column_from dss offset colname rows)
      else column_from dss (offset + Size (dsType ds)) colname rows)"

definition rows_GetColumn :: "string \<Rightarrow> Rows \<Rightarrow> column option result" where
  "rows_GetColumn colname rows = column_from (dataShape rows) 0 colname rows"

definition rows_GetTime :: "Rows \<Rightarrow> instant list result" where
  "rows_GetTime rows = res_bind (rows_GetColumn ''Epoch'' rows) (\<lambda>ep. res_bind (rows_GetColumn ''Nanoseconds'' rows) (\<lambda>nsi.
     times_of ep nsi))"

text \<open>The columns are added in the order of the shapes, behind the epochs; a column that has no reader is \<^verbatim>\<open>nil\<close>.\<close>

fun add_columns :: "DataShape list \<Rightarrow> Rows \<Rightarrow> ColumnSeries \<Rightarrow> ColumnSeries result" where
  "add_columns [] rows cs = Inr cs"
| "add_columns (ds # dss) rows cs =
     (if dsName ds = ''Epoch'' then add_columns dss rows cs
      else res_bind (rows_GetColumn (dsName ds) rows) (\<lambda>c.
        add_columns dss rows (fst (AddColumn (dsName ds) (case c of Some c \<Rightarrow> c | None \<Rightarrow> nil_column) cs))))"

definition rows_ToColumnSeries :: "Rows \<Rightarrow> ColumnSeries result" where
  "rows_ToColumnSeries rows =
     res_bind (rows_GetColumn ''Epoch'' rows) (\<lambda>ep. res_bind (as_kind KInt64 ep) (\<lambda>_.
       res_bind (add_columns (dataShape rows) rows (fst (AddColumn ''Epoch'' (the ep) NewColumnSeries))) (\<lambda>cs.
         Inr (cs_SetCandleAttributes (rCandleAttributes rows) cs))))"

section \<open>Row series\<close>

record RowSeries =
  rows_of :: Rows
  metadataKey :: TimeBucketKey

text \<open>Variable-length data carries the nanoseconds behind the columns.\<close>

definition NewRowSeries :: "TimeBucketKey \<Rightarrow> bytes \<Rightarrow> DataShape list \<Rightarrow> int \<Rightarrow> CandleAttributes \<Rightarrow> int \<Rightarrow> RowSeries" where
  "NewRowSeries key data shapes len cat rowType =
     (let shapes = (if rowType = VARIABLE then shapes @ [\<lparr>dsName = ''Nanoseconds'', dsType = INT32\<rparr>] else shapes)
      in \<lparr>rows_of = SetRowLen len (rows_SetCandleAttributes cat (NewRows shapes data)), metadataKey = key\<rparr>)"

definition GetMetadataKey :: "RowSeries \<Rightarrow> TimeBucketKey" where "GetMetadataKey rs = metadataKey rs"

definition rs_SetCandleAttributes :: "CandleAttributes \<Rightarrow> RowSeries \<Rightarrow> RowSeries" where
  "rs_SetCandleAttributes ca rs = rs\<lparr>rows_of := rows_SetCandleAttributes ca (rows_of rs)\<rparr>"

definition rs_SetRowLen :: "int \<Rightarrow> RowSeries \<Rightarrow> RowSeries" where
  "rs_SetRowLen len rs = rs\<lparr>rows_of := SetRowLen len (rows_of rs)\<rparr>"

definition rs_GetColumn :: "string \<Rightarrow> RowSeries \<Rightarrow> column option result" where
  "rs_GetColumn colname rs = rows_GetColumn colname (rows_of rs)"

definition rs_GetEpoch :: "RowSeries \<Rightarrow> column result" where
  "rs_GetEpoch rs = getInt64Column 0 (nat (GetRowLen (rows_of rs))) (nat (GetNumRows (rows_of rs))) (GetData (rows_of rs))"

definition ToColumnSeries :: "RowSeries \<Rightarrow> (TimeBucketKey \<times> ColumnSeries) result" where
  "ToColumnSeries rs =
     res_bind (rs_GetEpoch rs) (\<lambda>ep.
       res_bind (add_columns (dataShape (rows_of rs)) (rows_of rs) (fst (AddColumn ''Epoch'' ep NewColumnSeries))) (\<lambda>cs.
         Inr (GetMetadataKey rs, cs_SetCandleAttributes (rCandleAttributes (rows_of rs)) cs)))"

definition ToRowSeries :: "float_conv \<Rightarrow> TimeBucketKey \<Rightarrow> bool \<Rightarrow> ColumnSeries \<Rightarrow> RowSeries result" where
  "ToRowSeries fconv itemKey alignData cs =
     (let dsv = cs_GetDataShapes cs
      in res_bind (SerializeColumnsToRows fconv cs dsv alignData) (\<lambda>(data, recordLen, cs).
           Inr (NewRowSeries itemKey data dsv recordLen (cs_GetCandleAttributes cs) NOTYPE)))"

definition ToRowSeriesMap :: "float_conv \<Rightarrow> bool \<Rightarrow> ColumnSeriesMap \<Rightarrow> (TimeBucketKey \<times> RowSeries) list result" where
  "ToRowSeriesMap fconv alignData csm =
     res_map (\<lambda>(key, cs). res_bind (ToRowSeries fconv key alignData cs) (\<lambda>rs. Inr (key, rs))) csm"

section \<open>The layout of rows\<close>

text \<open>The kinds whose columns are read back as they were written; bytes and booleans come back as unsigned bytes.\<close>

definition plain_kind :: "kind \<Rightarrow> bool" where
  "plain_kind k \<longleftrightarrow> k \<in> {KFloat32, KFloat64, KInt16, KInt32, KInt64, KUint8, KUint16, KUint32, KUint64}"

lemma plain_type:
  assumes "plain_kind k"
  shows "Size (GetElementType k) = kind_size k" "0 < kind_size k" "k \<noteq> KInvalid"
    and "column_at (GetElementType k) off rows
      = res_bind (word_copy k off (nat (GetRowLen rows)) (nat (GetNumRows rows)) (rdata rows)) (\<lambda>c. Inr (Some c))"
  using assms unfolding plain_kind_def
  by (auto simp: GetElementType_def element_types_def column_at_def Let_def getFloat32Column_def getFloat64Column_def
      getInt16Column_def getInt32Column_def getInt64Column_def getUInt8Column_def getUInt16Column_def getUInt32Column_def
      getUInt64Column_def)

definition cols_width :: "column list \<Rightarrow> nat" where
  "cols_width cols = sum_list (map (\<lambda>c. kind_size (ckind c)) cols)"

definition row_bytes :: "column list \<Rightarrow> nat \<Rightarrow> bytes" where
  "row_bytes cols i = concat (map (\<lambda>c. celems c ! i) cols)"

definition table_ok :: "column list \<Rightarrow> nat \<Rightarrow> bool" where
  "table_ok cols n \<longleftrightarrow> (\<forall>c \<in> set cols. plain_kind (ckind c) \<and> col_ok c \<and> length (celems c) = n)"

lemma length_row_bytes: "table_ok cols n \<Longrightarrow> i < n \<Longrightarrow> length (row_bytes cols i) = cols_width cols"
  by (induction cols) (auto simp: row_bytes_def cols_width_def table_ok_def col_ok_def)

lemma field_of_row:
  assumes "table_ok (pre @ c # post) n" "i < n"
  shows "take (kind_size (ckind c)) (drop (cols_width pre) (row_bytes (pre @ c # post) i @ pad)) = celems c ! i"
proof -
  have "table_ok pre n" using assms(1) by (simp add: table_ok_def)
  then have "length (row_bytes pre i) = cols_width pre" using assms(2) by (rule length_row_bytes)
  moreover have "length (celems c ! i) = kind_size (ckind c)" using assms by (auto simp: table_ok_def col_ok_def)
  moreover have "row_bytes (pre @ c # post) i = row_bytes pre i @ celems c ! i @ row_bytes post i"
    by (simp add: row_bytes_def)
  ultimately show ?thesis by simp
qed

text \<open>Reading a column out of the rows.\<close>

lemma word_copy_rows:
  assumes "table_ok (pre @ c # post) n" "R = cols_width (pre @ c # post) + length pad"
    and "data = concat (map (\<lambda>i. row_bytes (pre @ c # post) i @ pad) [0..<n])"
  shows "word_copy (ckind c) (cols_width pre) R n data = Inr c"
proof -
  let ?cols = "pre @ c # post"
  have k: "0 < kind_size (ckind c)" "length (celems c) = n" using assms(1) by (auto simp: table_ok_def plain_type)
  have w: "cols_width pre + kind_size (ckind c) \<le> R" using assms(2) by (simp add: cols_width_def)
  have rows: "\<forall>r \<in> set (map (\<lambda>i. row_bytes ?cols i @ pad) [0..<n]). length r = R"
    using assms(1,2) by (auto simp: length_row_bytes)
  have len: "length data = R * n" using length_concat_equal [OF rows] by (simp add: assms(3))
  have "take (kind_size (ckind c)) (drop (i * R + cols_width pre) data) = celems c ! i" if "i < n" for i
  proof -
    have "take R (drop (i * R) data) = row_bytes ?cols i @ pad"
    proof -
      have "chunks R n data = map (\<lambda>i. row_bytes ?cols i @ pad) [0..<n]"
        using chunks_concat [OF rows, of "[]"] assms(3) by simp
      then show ?thesis using that chunks_nth [of i n R data] by simp
    qed
    then have "celems c ! i = take (kind_size (ckind c)) (drop (cols_width pre) (take R (drop (i * R) data)))"
      using field_of_row [OF assms(1) that, of pad] by simp
    also have "\<dots> = take (kind_size (ckind c)) (drop (i * R + cols_width pre) data)"
      using w by (simp add: drop_take min_def add.commute)
    finally show ?thesis by simp
  qed
  then have "map (\<lambda>i. take (kind_size (ckind c)) (drop (i * R + cols_width pre) data)) [0..<n] = celems c"
    using k(2) by (intro nth_equalityI) auto
  moreover have "n = 0 \<or> data \<noteq> []" using len w k(1) by (auto simp flip: length_0_conv)
  ultimately show ?thesis using k(2) by (auto simp: word_copy_def)
qed

text \<open>The shapes of named columns, and the column that is found under a name.\<close>

definition shape_of :: "string \<times> column \<Rightarrow> DataShape" where
  "shape_of nc = \<lparr>dsName = fst nc, dsType = GetElementType (ckind (snd nc))\<rparr>"

lemma column_from_skip:
  assumes "nm \<notin> fst ` set pre" "\<forall>nc \<in> set pre. plain_kind (ckind (snd nc))"
  shows "column_from (map shape_of (pre @ ncs)) off nm rows = column_from (map shape_of ncs) (off + cols_width (map snd pre)) nm rows"
  using assms by (induction pre arbitrary: off) (auto simp: shape_of_def cols_width_def plain_type add.assoc)

lemma GetColumn_found:
  assumes "dataShape rows = map shape_of (pre @ (nm, c) # post)" "nm \<notin> fst ` set pre"
    and "table_ok (map snd (pre @ (nm, c) # post)) n" "GetRowLen rows = int R" "GetNumRows rows = int n"
    and "R = cols_width (map snd (pre @ (nm, c) # post)) + length pad"
    and "rdata rows = concat (map (\<lambda>i. row_bytes (map snd (pre @ (nm, c) # post)) i @ pad) [0..<n])"
  shows "rows_GetColumn nm rows = Inr (Some c)"
proof -
  have p: "\<forall>nc \<in> set pre. plain_kind (ckind (snd nc))" "plain_kind (ckind c)" using assms(3) by (auto simp: table_ok_def)
  have "word_copy (ckind c) (cols_width (map snd pre)) R n (rdata rows) = Inr c"
    using assms(3,6,7) by (intro word_copy_rows [where post = "map snd post" and pad = pad]) simp_all
  then show ?thesis
    unfolding rows_GetColumn_def assms(1) column_from_skip [OF assms(2) p(1)]
    by (simp add: shape_of_def plain_type(4) [OF p(2)] assms(4,5))
qed

section \<open>The rows that are written\<close>

lemma le_bytes_mod: "le_bytes n (x mod 256 ^ n) = le_bytes n x"
  using le_bytes_le_uint [of "le_bytes n x"] by (simp add: le_uint_le_bytes del: le_bytes.simps)

lemma epoch_bytes: "length b = 8 \<Longrightarrow> le_bytes 8 (elem_int KInt64 b) = b"
proof -
  assume l: "length b = 8"
  have "signed_take_bit 63 (le_uint b) mod 256 ^ 8 = le_uint b"
  proof -
    have "signed_take_bit 63 (le_uint b) mod 256 ^ 8 = take_bit 64 (signed_take_bit 63 (le_uint b))"
      by (simp add: take_bit_eq_mod)
    also have "\<dots> = take_bit 64 (le_uint b)" by (simp add: take_bit_signed_take_bit)
    also have "\<dots> = le_uint b" using le_uint_bounds [of b] l by (simp add: take_bit_int_eq_self)
    finally show ?thesis .
  qed
  then have "le_bytes 8 (elem_int KInt64 b) = le_bytes 8 (le_uint b)"
    using le_bytes_mod [of 8 "signed_take_bit 63 (le_uint b)"] by (simp add: elem_int_def signed_kind_def)
  with l show ?thesis using le_bytes_le_uint [of b] by simp
qed

lemma chunks_one: "concat (chunks (Suc 0) (length xs) xs) = xs"
  by (rule concat_chunks) simp

lemma col_in_bytes_ok:
  assumes "map_of (columns cs) (dsName s) = Some c" "ckind c \<noteq> KInvalid" "col_ok c"
  shows "col_in_bytes cs s = Inr (concat (celems c))"
proof -
  have "length (celems c) * kind_size (ckind c) = length (concat (celems c))"
    using length_col_bytes [OF assms(3)] by simp
  then show ?thesis using assms(1,2) chunks_one [of "concat (celems c)"]
    by (simp add: col_in_bytes_def column_or_nil_def SwapSliceData_def)
qed

lemma element_slice:
  assumes "plain_kind (ckind c)" "col_ok c" "i < length (celems c)"
  shows "take (Size (GetElementType (ckind c))) (drop (i * Size (GetElementType (ckind c))) (concat (celems c))) = celems c ! i"
proof -
  have eq: "\<forall>r \<in> set (celems c). length r = kind_size (ckind c)" using assms(2) by (simp add: col_ok_def)
  show ?thesis
    using chunks_concat [OF eq, of "[]"] chunks_nth [OF assms(3), of "kind_size (ckind c)" "concat (celems c)"]
    by (simp add: plain_type(1) [OF assms(1)])
qed

lemma element_bytes:
  assumes "plain_kind (ckind c)" "col_ok c" "i < length (celems c)"
  shows "SliceInBytesAt (GetElementType (ckind c)) (concat (celems c)) (int i) = Inr (celems c ! i)"
proof -
  let ?k = "Size (GetElementType (ckind c))"
  have "i * ?k + ?k \<le> length (concat (celems c))"
    using row_room [OF assms(3), of ?k "length (celems c) * ?k"] length_col_bytes [OF assms(2)]
    by (simp add: mult.commute plain_type(1) [OF assms(1)])
  then have "go_slice (int (i * ?k)) (int (i * ?k + ?k)) (concat (celems c)) = Inr (celems c ! i)"
    using element_slice [OF assms] by (subst go_slice_nat) simp_all
  then show ?thesis by (simp add: SliceInBytesAt_def)
qed

text \<open>A series of plain columns, the epochs first.\<close>

definition named :: "ColumnSeries \<Rightarrow> (string \<times> column) list" where
  "named cs = map (\<lambda>n. (n, column_or_nil cs n)) (orderedNames cs)"

definition plain_series :: "ColumnSeries \<Rightarrow> bool" where
  "plain_series cs \<longleftrightarrow> series_ok cs \<and> orderedNames cs \<noteq> [] \<and> hd (orderedNames cs) = ''Epoch'' \<and> col_kind cs ''Epoch'' = KInt64
     \<and> table_ok (map snd (columns cs)) (length (epochs_of cs))"

lemma named_lookup:
  assumes "plain_series cs" "(n, c) \<in> set (named cs)"
  shows "map_of (columns cs) n = Some c"
proof -
  have "n \<in> keys (columns cs)" using assms by (auto simp: plain_series_def series_ok_def named_def)
  then obtain d where "map_of (columns cs) n = Some d"
    by (cases "map_of (columns cs) n") (auto simp: keys_def map_of_eq_None_iff)
  with assms(2) show ?thesis by (auto simp: named_def column_or_nil_def)
qed

lemma named_table:
  assumes "plain_series cs"
  shows "table_ok (map snd (named cs)) (length (epochs_of cs))"
proof -
  have "(n, c) \<in> set (columns cs)" if "(n, c) \<in> set (named cs)" for n c
    using named_lookup [OF assms that] by (rule map_of_SomeD)
  then show ?thesis using assms by (fastforce simp: plain_series_def table_ok_def)
qed

lemma named_distinct: "plain_series cs \<Longrightarrow> distinct (map fst (named cs))"
  by (simp add: named_def comp_def plain_series_def series_ok_def distinct_map)

lemma named_shapes: "cs_GetDataShapes cs = map shape_of (named cs)"
  by (auto simp: cs_GetDataShapes_def named_def shape_of_def col_kind_def column_or_nil_def nil_column_def split: option.splits)

lemma named_split:
  assumes "plain_series cs"
  obtains ec rest where "named cs = (''Epoch'', ec) # rest" "\<forall>nc \<in> set rest. \<not> EqualFold (fst nc) ''Epoch''"
    "map_of (columns cs) ''Epoch'' = Some ec" "ckind ec = KInt64"
proof -
  obtain ns where ns: "orderedNames cs = ''Epoch'' # ns"
    using assms by (cases "orderedNames cs") (auto simp: plain_series_def)
  have "distinct (map ToLower (''Epoch'' # ns))" using assms ns by (simp add: plain_series_def series_ok_def)
  then have "\<forall>n \<in> set ns. \<not> EqualFold n ''Epoch''" by (auto simp: EqualFold_def) (metis imageI)
  moreover have "map_of (columns cs) ''Epoch'' = Some (column_or_nil cs ''Epoch'')"
    using named_lookup [OF assms, of "''Epoch''" "column_or_nil cs ''Epoch''"] ns by (simp add: named_def)
  moreover from this have "ckind (column_or_nil cs ''Epoch'') = KInt64" using assms by (simp add: plain_series_def col_kind_def)
  ultimately show ?thesis using ns
    by (intro that [of "column_or_nil cs ''Epoch''" "map (\<lambda>n. (n, column_or_nil cs n)) ns"]) (auto simp: named_def)
qed

lemma words_of_row:
  assumes "table_ok (map snd ncs) n" "i < n"
  shows "res_map (\<lambda>(shape, b). SliceInBytesAt (dsType shape) b (int i)) (map (\<lambda>nc. (shape_of nc, concat (celems (snd nc)))) ncs)
    = Inr (map (\<lambda>nc. celems (snd nc) ! i) ncs)"
proof -
  have "res_map (\<lambda>(shape, b). SliceInBytesAt (dsType shape) b (int i)) (map (\<lambda>nc. (shape_of nc, concat (celems (snd nc)))) ncs)
      = Inr (map (\<lambda>(shape, b). take (Size (dsType shape)) (drop (i * Size (dsType shape)) b))
          (map (\<lambda>nc. (shape_of nc, concat (celems (snd nc)))) ncs))"
  proof (rule res_map_Inr)
    fix sb
    assume "sb \<in> set (map (\<lambda>nc. (shape_of nc, concat (celems (snd nc)))) ncs)"
    then obtain nc where nc: "nc \<in> set ncs" "sb = (shape_of nc, concat (celems (snd nc)))" by auto
    then have c: "plain_kind (ckind (snd nc))" "col_ok (snd nc)" "i < length (celems (snd nc))"
      using assms by (auto simp: table_ok_def)
    show "(case sb of (shape, b) \<Rightarrow> SliceInBytesAt (dsType shape) b (int i))
        = Inr (case sb of (shape, b) \<Rightarrow> take (Size (dsType shape)) (drop (i * Size (dsType shape)) b))"
      using element_bytes [OF c] element_slice [OF c] nc(2) by (simp add: shape_of_def)
  qed
  moreover have "take (Size (GetElementType (ckind (snd nc)))) (drop (i * Size (GetElementType (ckind (snd nc)))) (concat (celems (snd nc))))
      = celems (snd nc) ! i" if "nc \<in> set ncs" for nc
    using that assms by (intro element_slice) (auto simp: table_ok_def)
  ultimately show ?thesis by (simp add: shape_of_def)
qed

lemma serialize_rows:
  assumes ncs: "named cs = (''Epoch'', ec) # rest" "\<forall>nc \<in> set rest. \<not> EqualFold (fst nc) ''Epoch''" "ckind ec = KInt64"
    and tab: "table_ok (map snd (named cs)) n" and i: "i < n"
  shows "serialize_row (zip (map shape_of (named cs)) (map (\<lambda>nc. concat (celems (snd nc))) (named cs))) pad
      (elem_int KInt64 (celems ec ! i), i) = Inr (row_bytes (map snd (named cs)) i @ pad)"
proof -
  have z: "zip (map shape_of (named cs)) (map (\<lambda>nc. concat (celems (snd nc))) (named cs))
      = map (\<lambda>nc. (shape_of nc, concat (celems (snd nc)))) (named cs)"
    by (simp add: zip_map_map zip_same_conv_map)
  have "filter (\<lambda>(shape, _). \<not> is_epoch shape) (map (\<lambda>nc. (shape_of nc, concat (celems (snd nc)))) rest)
      = map (\<lambda>nc. (shape_of nc, concat (celems (snd nc)))) rest"
    using ncs(2) by (auto simp: filter_id_conv is_epoch_def shape_of_def)
  moreover have "is_epoch (shape_of (''Epoch'', ec))" by (simp add: is_epoch_def shape_of_def EqualFold_def)
  ultimately have f: "filter (\<lambda>(shape, _). \<not> is_epoch shape) (map (\<lambda>nc. (shape_of nc, concat (celems (snd nc)))) (named cs))
      = map (\<lambda>nc. (shape_of nc, concat (celems (snd nc)))) rest"
    by (simp add: ncs(1))
  have "table_ok (map snd rest) n" "length (celems ec ! i) = 8"
    using tab i ncs(3) by (auto simp: ncs(1) table_ok_def col_ok_def)
  then show ?thesis
    unfolding serialize_row_def z snd_conv f words_of_row [OF \<open>table_ok (map snd rest) n\<close> i]
    by (simp add: row_bytes_def ncs(1) epoch_bytes comp_def del: le_bytes.simps)
qed

text \<open>What is written for a plain series.\<close>

lemma Serialize_plain:
  fixes align64 :: bool and fconv :: float_conv and cs :: ColumnSeries
  assumes "plain_series cs"
  defines "n \<equiv> length (epochs_of cs)" and "cols \<equiv> map snd (named cs)"
    and "padding \<equiv> nat (if align64 then AlignedSize (int (cols_width (map snd (named cs)))) - int (cols_width (map snd (named cs))) else 0)"
  shows "SerializeColumnsToRows fconv cs (cs_GetDataShapes cs) align64
    = Inr (concat (map (\<lambda>i. row_bytes cols i @ replicate padding 0) [0..<n]), int (cols_width cols + padding), cs)"
proof -
  obtain ec rest where ncs: "named cs = (''Epoch'', ec) # rest" "\<forall>nc \<in> set rest. \<not> EqualFold (fst nc) ''Epoch''"
    and ec: "map_of (columns cs) ''Epoch'' = Some ec" "ckind ec = KInt64"
    using named_split [OF assms(1)] by metis
  note tab = named_table [OF assms(1), folded n_def]
  have ep: "epochs_of cs = map (elem_int KInt64) (celems ec)" by (simp add: epochs_of_def ec)
  have n: "length (celems ec) = n" by (simp add: n_def ep)
  let ?sh = "map shape_of (named cs)"
  have ne: "?sh \<noteq> []" by (simp add: ncs(1))
  have miss: "GetMissingAndTypeCoercionColumns ?sh ?sh = Inr ([], [])"
    using ne by (simp add: GetMissingAndTypeCoercionColumns_def Contains_new)
  have bytes: "res_map (col_in_bytes cs) ?sh = Inr (map (\<lambda>nc. concat (celems (snd nc))) (named cs))"
  proof -
    have "res_map (col_in_bytes cs) ?sh = Inr (map (\<lambda>s. concat (celems (column_or_nil cs (dsName s)))) ?sh)"
    proof (rule res_map_Inr)
      fix s
      assume "s \<in> set ?sh"
      then obtain nm c where c: "(nm, c) \<in> set (named cs)" "s = shape_of (nm, c)" by auto
      with named_lookup [OF assms(1) c(1)] tab show "col_in_bytes cs s = Inr (concat (celems (column_or_nil cs (dsName s))))"
        by (subst col_in_bytes_ok [where c = c])
          (force simp: shape_of_def table_ok_def column_or_nil_def dest: plain_type(3))+
    qed
    moreover have "celems (column_or_nil cs (fst nc)) = celems (snd nc)" if "nc \<in> set (named cs)" for nc
      using that by (auto simp: named_def)
    ultimately show ?thesis by (simp add: shape_of_def)
  qed
  have w: "sum_sizes (map dsType ?sh) = int (cols_width cols)"
  proof -
    have "Size (dsType (shape_of nc)) = kind_size (ckind (snd nc))" if "nc \<in> set (named cs)" for nc
      using that tab by (auto simp: table_ok_def shape_of_def plain_type)
    then have eq: "map (\<lambda>nc. int (Size (dsType (shape_of nc)))) (named cs) = map (\<lambda>nc. int (kind_size (ckind (snd nc)))) (named cs)"
      by (intro map_cong) auto
    show ?thesis using arg_cong [OF eq, of sum_list] by (simp add: sum_sizes_def cols_width_def cols_def comp_def flip: sum_list_of_nat)
  qed
  have al: "0 \<le> AlignedSize (int (cols_width cols)) - int (cols_width cols)"
    using AlignedSize_bounds [of "int (cols_width cols)"] by simp
  have rows: "res_map (serialize_row (zip ?sh (map (\<lambda>nc. concat (celems (snd nc))) (named cs))) (replicate padding 0))
      (zip (epochs_of cs) [0..<n]) = Inr (map (\<lambda>i. row_bytes cols i @ replicate padding 0) [0..<n])"
  proof -
    have "zip (epochs_of cs) [0..<n] = map (\<lambda>i. (elem_int KInt64 (celems ec ! i), i)) [0..<n]"
      using n by (intro nth_equalityI) (auto simp: ep)
    moreover have "res_map (serialize_row (zip ?sh (map (\<lambda>nc. concat (celems (snd nc))) (named cs))) (replicate padding 0))
        (map (\<lambda>i. (elem_int KInt64 (celems ec ! i), i)) [0..<n])
        = Inr (map (\<lambda>ei. row_bytes cols (snd ei) @ replicate padding 0) (map (\<lambda>i. (elem_int KInt64 (celems ec ! i), i)) [0..<n]))"
      by (rule res_map_Inr) (auto simp: serialize_rows [OF ncs ec(2) tab] cols_def)
    ultimately show ?thesis by (simp add: comp_def)
  qed
  have le: "list_ex is_epoch ?sh" by (simp add: ncs(1) is_epoch_def shape_of_def EqualFold_def)
  have pad: "padding = nat (if align64 then AlignedSize (int (cols_width cols)) - int (cols_width cols) else 0)"
    by (simp only: padding_def cols_def)
  have sum: "int (cols_width cols) + (if align64 then AlignedSize (int (cols_width cols)) - int (cols_width cols) else 0)
      = int (cols_width cols + padding)" using al by (simp add: pad)
  have A: "as_kind KInt64 (map_of (columns cs) ''Epoch'') = Inr (epochs_of cs)" by (simp add: as_kind_def ec ep)
  have C: "coerce_all fconv [] cs = cs" by (simp add: coerce_all_def)
  show ?thesis
    by (simp only: SerializeColumnsToRows_def named_shapes miss res_bind_simps prod.case add_nulls.simps Let_def C bytes A w le
        n_def [symmetric] pad [symmetric] sum not_True_eq_False if_False rows)
qed

text \<open>What is read back from the rows of a table.\<close>

lemma AddColumn_new:
  "n \<notin> keys (columns cs) \<Longrightarrow> AddColumn n c cs = (cs\<lparr>orderedNames := orderedNames cs @ [n], columns := AList.update n c (columns cs)\<rparr>, n)"
  by (simp add: AddColumn_fresh Exists_keys)

lemma add_columns_table:
  assumes "\<And>nm c. (nm, c) \<in> set ncs \<Longrightarrow> rows_GetColumn nm rows = Inr (Some c)" "distinct (map fst ncs)"
    and "\<forall>nc \<in> set ncs. fst nc \<noteq> ''Epoch'' \<and> fst nc \<notin> keys (columns cs)"
  shows "\<exists>cs'. add_columns (map shape_of ncs) rows cs = Inr cs' \<and> orderedNames cs' = orderedNames cs @ map fst ncs
    \<and> candleAttributes cs' = candleAttributes cs
    \<and> (\<forall>n. map_of (columns cs') n = (case map_of ncs n of Some c \<Rightarrow> Some c | None \<Rightarrow> map_of (columns cs) n))"
  using assms
proof (induction ncs arbitrary: cs)
  case (Cons nc ncs)
  obtain nm c where nc: "nc = (nm, c)" by fastforce
  define cs1 where "cs1 = cs\<lparr>orderedNames := orderedNames cs @ [nm], columns := AList.update nm c (columns cs)\<rparr>"
  have nm: "nm \<noteq> ''Epoch''" "nm \<notin> keys (columns cs)" "nm \<notin> set (map fst ncs)" using Cons.prems(2,3) nc by auto
  have g: "rows_GetColumn nm rows = Inr (Some c)" using Cons.prems(1) [of nm c] nc by simp
  have step: "add_columns (map shape_of (nc # ncs)) rows cs = add_columns (map shape_of ncs) rows cs1"
    using nm g by (simp add: nc shape_of_def AddColumn_new cs1_def)
  have "\<exists>cs'. add_columns (map shape_of ncs) rows cs1 = Inr cs' \<and> orderedNames cs' = orderedNames cs1 @ map fst ncs
    \<and> candleAttributes cs' = candleAttributes cs1
    \<and> (\<forall>n. map_of (columns cs') n = (case map_of ncs n of Some c \<Rightarrow> Some c | None \<Rightarrow> map_of (columns cs1) n))"
  proof (rule Cons.IH)
    show "rows_GetColumn n rows = Inr (Some d)" if "(n, d) \<in> set ncs" for n d using Cons.prems(1) [of n d] that by simp
    show "\<forall>nc \<in> set ncs. fst nc \<noteq> ''Epoch'' \<and> fst nc \<notin> keys (columns cs1)"
    proof
      fix x assume x: "x \<in> set ncs"
      then have "fst x \<in> set (map fst ncs)" by simp
      then have "fst x \<noteq> nm" using nm(3) by metis
      with x Cons.prems(3) show "fst x \<noteq> ''Epoch'' \<and> fst x \<notin> keys (columns cs1)" by (simp add: cs1_def)
    qed
  qed (use Cons.prems(2) in simp)
  moreover have "map_of ncs nm = None" using nm(3) by (simp add: map_of_eq_None_iff)
  ultimately obtain cs' where cs': "add_columns (map shape_of ncs) rows cs1 = Inr cs'" "orderedNames cs' = orderedNames cs1 @ map fst ncs"
    "candleAttributes cs' = candleAttributes cs1" and none: "map_of ncs nm = None"
    and lk: "\<And>n. map_of (columns cs') n = (case map_of ncs n of Some c \<Rightarrow> Some c | None \<Rightarrow> map_of (columns cs1) n)"
    by blast
  have "map_of (columns cs') n = (case map_of (nc # ncs) n of Some c \<Rightarrow> Some c | None \<Rightarrow> map_of (columns cs) n)" for n
    using none by (simp add: lk cs1_def nc update_conv' split: option.splits)
  then show ?case unfolding step using cs' by (simp add: cs1_def nc)
qed simp

section \<open>Properties\<close>

text \<open>
  C24: Columns written as rows are read back as the same columns: for a series of numeric columns of one length, the epochs
  first, the row series has the same names in the same order, and each name the column it had, with and without padding of
  the rows to the word size.
\<close>

theorem rows_roundtrip:
  assumes "plain_series cs"
  shows "\<exists>rs cs'. ToRowSeries fconv key align cs = Inr rs \<and> ToColumnSeries rs = Inr (key, cs')
    \<and> orderedNames cs' = orderedNames cs \<and> (\<forall>n. map_of (columns cs') n = map_of (columns cs) n)
    \<and> candleAttributes cs' = candleAttributes cs"
proof -
  let ?n = "length (epochs_of cs)" and ?ncs = "named cs" and ?cols = "map snd (named cs)"
  let ?w = "cols_width ?cols"
  define p where "p = nat (if align then AlignedSize (int ?w) - int ?w else 0)"
  define data where "data = concat (map (\<lambda>i. row_bytes ?cols i @ replicate p 0) [0..<?n])"
  define rs where "rs = NewRowSeries key data (map shape_of ?ncs) (int (?w + p)) (candleAttributes cs) NOTYPE"
  obtain ec rest where ncs: "?ncs = (''Epoch'', ec) # rest" "\<forall>nc \<in> set rest. \<not> EqualFold (fst nc) ''Epoch''"
    and ec: "map_of (columns cs) ''Epoch'' = Some ec" "ckind ec = KInt64"
    using named_split [OF assms] by metis
  note tab = named_table [OF assms]
  have sizes: "sum_sizes (map dsType (map shape_of ?ncs)) = int ?w"
  proof -
    have "map (\<lambda>nc. int (Size (dsType (shape_of nc)))) ?ncs = map (\<lambda>nc. int (kind_size (ckind (snd nc)))) ?ncs"
      using tab by (auto simp: table_ok_def shape_of_def plain_type)
    from arg_cong [OF this, of sum_list] show ?thesis by (simp add: sum_sizes_def cols_width_def comp_def flip: sum_list_of_nat)
  qed
  have w: "0 < ?w" by (simp add: ncs(1) cols_width_def ec(2))
  have rows: "dataShape (rows_of rs) = map shape_of ?ncs" "rdata (rows_of rs) = data" "GetRowLen (rows_of rs) = int (?w + p)"
    "rCandleAttributes (rows_of rs) = candleAttributes cs"
    using w sizes by (simp_all add: rs_def NewRowSeries_def SetRowLen_def GetRowLen_def NewRows_def rows_SetCandleAttributes_def Let_def)
  have len: "length data = (?w + p) * ?n"
    unfolding data_def using length_row_bytes [OF tab] by (subst length_concat_equal [where n = "?w + p"]) auto
  have num: "GetNumRows (rows_of rs) = int ?n"
  proof (cases "data = []")
    case True
    with len w show ?thesis by (simp add: GetNumRows_def rows)
  next
    case False
    have "int (length data) sdiv int (?w + p) = int (length data div (?w + p))"
      using w by (subst sdiv_nonneg) (simp_all add: zdiv_int)
    also have "length data div (?w + p) = ?n" using len w by simp
    finally show ?thesis using False w by (simp add: GetNumRows_def rows Let_def)
  qed
  have col: "rows_GetColumn nm (rows_of rs) = Inr (Some c)" if nc: "(nm, c) \<in> set ?ncs" for nm c
  proof -
    obtain pre post where s: "?ncs = pre @ (nm, c) # post" using nc by (meson split_list)
    have "distinct (map fst ?ncs)" using assms by (rule named_distinct)
    then have "nm \<notin> fst ` set pre" by (auto simp: s)
    then show ?thesis
      using rows num tab by (intro GetColumn_found [where pre = pre and post = post and pad = "replicate p 0" and n = ?n and R = "?w + p"])
        (simp_all add: s [symmetric] data_def)
  qed
  have e: "rs_GetEpoch rs = Inr ec"
    using word_copy_rows [where pre = "[]" and c = ec and post = "map snd rest" and n = ?n and R = "?w + p" and pad = "replicate p 0" and data = data] tab
    by (simp add: rs_GetEpoch_def getInt64Column_def rows num GetData_def ec(2) ncs(1) data_def cols_width_def nat_add_distrib)
  define cs0 where "cs0 = fst (AddColumn ''Epoch'' ec NewColumnSeries)"
  have cs0: "orderedNames cs0 = [''Epoch'']" "columns cs0 = [(''Epoch'', ec)]" "candleAttributes cs0 = 0"
    by (simp_all add: cs0_def AddColumn_def NewColumnSeries_def Exists_def)
  have "distinct (map fst ?ncs)" using assms by (rule named_distinct)
  then have "\<exists>cs'. add_columns (map shape_of rest) (rows_of rs) cs0 = Inr cs' \<and> orderedNames cs' = orderedNames cs0 @ map fst rest
    \<and> candleAttributes cs' = candleAttributes cs0
    \<and> (\<forall>n. map_of (columns cs') n = (case map_of rest n of Some c \<Rightarrow> Some c | None \<Rightarrow> map_of (columns cs0) n))"
    using col ncs by (intro add_columns_table) (auto simp: cs0 keys_def EqualFold_def)
  then obtain cs1 where cs1: "add_columns (map shape_of rest) (rows_of rs) cs0 = Inr cs1" "orderedNames cs1 = ''Epoch'' # map fst rest"
    "\<And>n. map_of (columns cs1) n = (case map_of rest n of Some c \<Rightarrow> Some c | None \<Rightarrow> map_of [(''Epoch'', ec)] n)"
    unfolding cs0(1,2) append_Cons append_Nil by blast
  have "ToColumnSeries rs = Inr (key, cs_SetCandleAttributes (candleAttributes cs) cs1)"
    using e cs1(1) rows(1,4) by (simp add: ToColumnSeries_def ncs(1) shape_of_def cs0_def [symmetric] GetMetadataKey_def rs_def NewRowSeries_def Let_def)
  moreover have "map_of (columns cs1) n = map_of (columns cs) n" for n
  proof -
    have "map_of (columns cs1) n = map_of ?ncs n"
    proof -
      have "''Epoch'' \<notin> set (map fst rest)" using \<open>distinct (map fst ?ncs)\<close> by (simp add: ncs(1))
      then have "map_of rest ''Epoch'' = None" by (simp add: map_of_eq_None_iff)
      then show ?thesis unfolding cs1(3) ncs(1) by (simp split: option.splits)
    qed
    also have "\<dots> = map_of (columns cs) n"
    proof (cases "n \<in> set (orderedNames cs)")
      case True
      then have "(n, column_or_nil cs n) \<in> set ?ncs" by (simp add: named_def)
      with named_lookup [OF assms this] \<open>distinct (map fst ?ncs)\<close> show ?thesis by simp
    next
      case False
      then have "map_of (columns cs) n = None" using assms by (simp add: plain_series_def series_ok_def keys_def map_of_eq_None_iff)
      moreover have "map_of ?ncs n = None" using False by (force simp: map_of_eq_None_iff named_def)
      ultimately show ?thesis by simp
    qed
    finally show ?thesis .
  qed
  moreover have "''Epoch'' # map fst rest = orderedNames cs"
    using arg_cong [OF ncs(1), of "map fst"] by (simp add: named_def comp_def)
  moreover have "ToRowSeries fconv key align cs = Inr rs"
    using Serialize_plain [OF assms, of fconv align]
    by (simp add: ToRowSeries_def named_shapes rs_def data_def p_def cs_GetCandleAttributes_def)
  ultimately show ?thesis using cs1(2) by (auto simp: cs_SetCandleAttributes_def)
qed

lemma sample_plain: "plain_series sample_series"
  by code_simp

theorem rows_roundtrip_witness:
  "\<exists>rs cs'. ToRowSeries (\<lambda>_ _ b. b) (NewTimeBucketKey ''AAPL/1Min/TICK'' []) True sample_series = Inr rs
     \<and> ToColumnSeries rs = Inr (NewTimeBucketKey ''AAPL/1Min/TICK'' [], cs') \<and> orderedNames cs' = [''Epoch'', ''Bid'']"
  using rows_roundtrip [OF sample_plain, of "\<lambda>_ _ b. b" "NewTimeBucketKey ''AAPL/1Min/TICK'' []" True]
  by (auto simp: sample_series_def)

text \<open>
  A required column that is missing is not filled in: adding the column of null values panics, for every type, so
  serializing a series to shapes of which one is not among its columns ends the process instead of padding the rows.
\<close>

theorem missing_column_panics:
  assumes "distinct (map dsName shapes)" "series_ok cs" "orderedNames cs \<noteq> []" "cs_Len cs = Inr n"
    and "s \<in> set shapes" "dsName s \<notin> set (orderedNames cs)"
  shows "SerializeColumnsToRows fconv cs shapes align = Inl (Panic ''reflect.MakeSlice of non-slice type'')"
proof -
  have av: "cs_GetDataShapes cs \<noteq> []" "dsName ` set (cs_GetDataShapes cs) = set (orderedNames cs)"
    using assms(3) by (auto simp: cs_GetDataShapes_def image_image)
  have ne: "shapes \<noteq> []" using assms(5) by auto
  obtain m c where g: "GetMissingAndTypeCoercionColumns shapes (cs_GetDataShapes cs) = Inr (m, c)"
    and m: "m = filter (\<lambda>s. dsName s \<notin> set (orderedNames cs)) shapes"
    using missing_and_coercion [OF assms(1) ne av(1)] av(2) by auto
  from assms(5,6) have "m \<noteq> []" by (auto simp: m filter_empty_conv)
  then obtain s' m' where "m = s' # m'" by (cases m) auto
  with g assms(4) show ?thesis by (simp add: SerializeColumnsToRows_def AddNullColumn_def SliceOf_def)
qed

theorem missing_column_panics_witness:
  "SerializeColumnsToRows (\<lambda>_ _ b. b) sample_series
     [\<lparr>dsName = ''Epoch'', dsType = INT64\<rparr>, \<lparr>dsName = ''Ask'', dsType = FLOAT32\<rparr>] False
   = Inl (Panic ''reflect.MakeSlice of non-slice type'')"
  by (rule missing_column_panics [OF _ sample_series_ok, where n = 3 and s = "\<lparr>dsName = ''Ask'', dsType = FLOAT32\<rparr>"])
    (simp_all add: sample_series_def cs_Len_def GetByName_def)

end
