(* ===== verification/Query.thy ===== *)
theory Query
  imports Rows
begin

text \<open>
  What a query is parsed into: ranges, limits, qualified files and the parse result with its accessors
  (the first part of \<^verbatim>\<open>planner/planner.go\<close>). Parsing itself, which walks the catalog, is in theory Planner. Pointers of the
  parse result that may be \<^verbatim>\<open>nil\<close> are options; a file is a description that is completed from its header on first use, and the
  completed description is the same each time.
\<close>

section \<open>Ranges and limits\<close>

type_synonym TimeQualFunc = "int \<Rightarrow> bool"

text \<open>Restrictions in the order in which the categories were first named.\<close>

type_synonym RestrictionList = "(string \<times> string list) list"

definition NewRestrictionList :: RestrictionList where "NewRestrictionList = []"

definition getItemList :: "RestrictionList \<Rightarrow> string \<Rightarrow> string list option" where
  "getItemList r category = map_of r category"

definition AddRestriction :: "string \<Rightarrow> string \<Rightarrow> RestrictionList \<Rightarrow> RestrictionList" where
  "AddRestriction category item r = AList.update category (case map_of r category of None \<Rightarrow> [item] | Some l \<Rightarrow> l @ [item]) r"

record DateRange =
  rStart :: int
  rEnd :: int
  StartYear :: int
  EndYear :: int

definition MaxEpoch :: int where "MaxEpoch = Unix (unix_time (2 ^ 63 - 62135596801) 999999999)"

definition MinEpoch :: int where "MinEpoch = 0"

text \<open>The year of an epoch in the zone of the server, as a sixteen-bit number.\<close>

definition epoch_year :: "location \<Rightarrow> int \<Rightarrow> int" where
  "epoch_year loc epoch = to_int16 (Year loc (ToSystemTimezone (unix_time epoch 0)))"

definition NewDateRange :: "location \<Rightarrow> DateRange" where
  "NewDateRange loc = \<lparr>rStart = MinEpoch, rEnd = MaxEpoch, StartYear = epoch_year loc MinEpoch, EndYear = epoch_year loc MaxEpoch\<rparr>"

record RowLimit =
  limNumber :: int
  limDirection :: DirectionEnum

definition MaxInt32 :: int where "MaxInt32 = 2147483647"

definition NewRowLimit :: RowLimit where
  "NewRowLimit = \<lparr>limNumber = MaxInt32, limDirection = FIRST\<rparr>"

section \<open>Parse results\<close>

record QualifiedFile =
  qfKey :: TimeBucketKey
  qfFile :: TimeBucketInfo

record ParseResult =
  QualifiedFiles :: "QualifiedFile list"
  prLimit :: "RowLimit option"
  prRange :: "DateRange option"
  IntervalsPerDay :: int
  prRootDir :: path
  prTimeQuals :: "TimeQualFunc list"

definition NewParseResult :: ParseResult where
  "NewParseResult = \<lparr>QualifiedFiles = [], prLimit = None, prRange = None, IntervalsPerDay = 0, prRootDir = [], prTimeQuals = []\<rparr>"

text \<open>A map over the keys of the qualified files; a later file of a key replaces the entry of an earlier one.\<close>

fun per_key :: "(TimeBucketInfo \<Rightarrow> 'a result) \<Rightarrow> QualifiedFile list \<Rightarrow> (TimeBucketKey \<times> 'a) list \<Rightarrow> (TimeBucketKey \<times> 'a) list result" where
  "per_key g [] acc = Inr acc"
| "per_key g (qf # qfs) acc = res_bind (g (qfFile qf)) (\<lambda>v. per_key g qfs (AList.update (qfKey qf) v acc))"

definition GetRowType :: "disk \<Rightarrow> ParseResult \<Rightarrow> (TimeBucketKey \<times> int) list result" where
  "GetRowType fs pr = per_key (\<lambda>f. res_bind (GetRecordType fs f) (\<lambda>(rt, _). Inr rt)) (QualifiedFiles pr) []"

definition NamesMatch :: "string list \<Rightarrow> string list \<Rightarrow> bool" where
  "NamesMatch src candidates \<longleftrightarrow> list_all (\<lambda>el. ToLower el \<in> set (map ToLower src)) candidates"

definition ElementsEqual :: "EnumElementType list \<Rightarrow> EnumElementType list \<Rightarrow> bool" where
  "ElementsEqual left right \<longleftrightarrow> length left = length right \<and> list_all (\<lambda>(l, r). l = r) (zip left right)"

definition candle_attributes :: "string list \<Rightarrow> CandleAttributes" where
  "candle_attributes elNames =
     (if NamesMatch elNames [''Open'', ''High'', ''Low'', ''Close'', ''Volume''] then OHLCV
      else if NamesMatch elNames [''Open'', ''High'', ''Low'', ''Close''] then OHLC else cat_None)"

definition GetCandleAttributes :: "disk \<Rightarrow> ParseResult \<Rightarrow> (TimeBucketKey \<times> CandleAttributes) list result" where
  "GetCandleAttributes fs pr =
     per_key (\<lambda>f. res_bind (GetElementNames fs f) (\<lambda>(names, _). Inr (candle_attributes names))) (QualifiedFiles pr) []"

definition pr_GetDataShapes :: "disk \<Rightarrow> ParseResult \<Rightarrow> (TimeBucketKey \<times> DataShape list) list result" where
  "pr_GetDataShapes fs pr =
     per_key (\<lambda>f. res_bind (GetElementNames fs f) (\<lambda>(names, f). res_bind (GetElementTypes fs f) (\<lambda>(types, _).
       NewDataShapeVector (''Epoch'' # names) (INT64 # types)))) (QualifiedFiles pr) []"

text \<open>A file that is neither fixed nor variable has no entry.\<close>

fun row_lens :: "disk \<Rightarrow> QualifiedFile list \<Rightarrow> (TimeBucketKey \<times> int) list \<Rightarrow> (TimeBucketKey \<times> int) list result" where
  "row_lens fs [] acc = Inr acc"
| "row_lens fs (qf # qfs) acc =
     res_bind (GetRecordType fs (qfFile qf)) (\<lambda>(rt, f).
       if rt = FIXED then res_bind (GetRecordLength fs f) (\<lambda>(n, _). row_lens fs qfs (AList.update (qfKey qf) n acc))
       else if rt = VARIABLE
       then res_bind (GetVariableRecordLength fs f) (\<lambda>(n, _). row_lens fs qfs (AList.update (qfKey qf) n acc))
       else row_lens fs qfs acc)"

definition pr_GetRowLen :: "disk \<Rightarrow> ParseResult \<Rightarrow> (TimeBucketKey \<times> int) list result" where
  "pr_GetRowLen fs pr = row_lens fs (QualifiedFiles pr) []"

section \<open>Lemmas\<close>

lemma NamesMatch_subset: "NamesMatch src cands \<longleftrightarrow> ToLower ` set cands \<subseteq> ToLower ` set src"
  by (auto simp: NamesMatch_def list_all_iff)

lemma ElementsEqual_eq: "ElementsEqual l r \<longleftrightarrow> l = r"
proof
  assume "ElementsEqual l r"
  then have "length l = length r" "list_all (\<lambda>(l, r). l = r) (zip l r)" by (simp_all add: ElementsEqual_def)
  then show "l = r" by (induction l r rule: list_induct2) auto
next
  assume "l = r"
  then show "ElementsEqual l r" by (auto simp: ElementsEqual_def list_all_iff zip_same)
qed

lemma AddRestriction_items:
  "getItemList (AddRestriction c i r) c'
    = (if c' = c then Some ((case getItemList r c of None \<Rightarrow> [] | Some l \<Rightarrow> l) @ [i]) else getItemList r c')"
  by (simp add: getItemList_def AddRestriction_def update_conv' split: option.splits)

lemma per_key_total:
  assumes "\<forall>qf \<in> set qfs. g (qfFile qf) = Inr (h (qfFile qf))"
  shows "per_key g qfs acc = Inr (fold (\<lambda>qf. AList.update (qfKey qf) (h (qfFile qf))) qfs acc)"
  using assms by (induction qfs arbitrary: acc) auto

end
