(* ===== verification/Scanner.thy ===== *)
theory Scanner
  imports Query
begin

text \<open>
  Scanning year files: the first stage of a read (\<^verbatim>\<open>executor/scanner.go\<close>, with the hints of
  \<^verbatim>\<open>executor/readhint/read.go\<close>). A plan gives for each file the bytes to scan; the scan reads them in blocks, forward or
  from the end, and packs the records whose index is not zero, with the index replaced by the time it stands for.
\<close>

section \<open>Read hints\<close>

record hints =
  EnableLastKnown :: bool
  lastKnownMap :: "path \<rightharpoonup> int"

definition GetLastKnown :: "hints \<Rightarrow> path \<Rightarrow> int option" where
  "GetLastKnown h filePath = (if \<not> EnableLastKnown h then None else lastKnownMap h filePath)"

definition SetLastKnown :: "path \<Rightarrow> int \<Rightarrow> hints \<Rightarrow> hints" where
  "SetLastKnown filePath offset h =
     (if \<not> EnableLastKnown h then h
      else case lastKnownMap h filePath of
          None \<Rightarrow> h\<lparr>lastKnownMap := (lastKnownMap h)(filePath \<mapsto> offset)\<rparr>
        | Some previous \<Rightarrow> if previous < offset then h\<lparr>lastKnownMap := (lastKnownMap h)(filePath \<mapsto> offset)\<rparr> else h)"

section \<open>Plans\<close>

definition RecordsPerRead :: int where "RecordsPerRead = 2000"

record ioFilePlan =
  fpInfo :: TimeBucketInfo
  fpOffset :: int
  fpLength :: int
  fpFullPath :: path
  BaseTime :: int
  seekingLast :: bool

definition GetFileYear :: "ioFilePlan \<Rightarrow> int" where
  "GetFileYear iofp = tbYear (fpInfo iofp)"

record ioplan =
  FilePlan :: "ioFilePlan list"
  iopRecordLen :: int
  iopRecordType :: int
  VariableRecordLen :: int
  iopLimit :: "RowLimit option"
  iopTimeQuals :: "TimeQualFunc list"

text \<open>The files of a key in the order of their years.\<close>

definition sort_files :: "QualifiedFile list \<Rightarrow> QualifiedFile list" where
  "sort_files fl = sort_key (\<lambda>qf. tbYear (qfFile qf)) fl"

text \<open>
  One file of the plan, in the loop of \<^verbatim>\<open>NewIOPlan\<close>. The first getter completes the description of the file, \<open>tbi\<close>. The
  list of files before the range, which the loop also builds, is not used by the rest of the function.
\<close>

definition start_offset :: "location \<Rightarrow> DateRange \<Rightarrow> TimeBucketInfo \<Rightarrow> int" where
  "start_offset loc rng tbi =
     (if tbYear tbi = StartYear rng then EpochToOffset loc (rStart rng) (timeframe tbi) (recordLength tbi) else Headersize)"

definition end_offset :: "location \<Rightarrow> hints \<Rightarrow> DateRange \<Rightarrow> TimeBucketInfo \<Rightarrow> int" where
  "end_offset loc h rng tbi =
     (let endOffset = (if tbYear tbi = EndYear rng
            then EpochToOffset loc (rEnd rng) (timeframe tbi) (recordLength tbi) + recordLength tbi
            else FileSize loc (timeframe tbi) (tbYear tbi) (recordLength tbi))
      in case GetLastKnown h (tbPath tbi) of
          None \<Rightarrow> endOffset
        | Some lastKnownOffset \<Rightarrow> min (lastKnownOffset + recordLength tbi) endOffset)"

definition file_plan :: "location \<Rightarrow> hints \<Rightarrow> DateRange \<Rightarrow> RowLimit \<Rightarrow> int \<Rightarrow> TimeBucketInfo \<Rightarrow> ioFilePlan" where
  "file_plan loc h rng limit fileStartTime tbi =
     (let startOffset = start_offset loc rng tbi;
          maxLength = FileSize loc (timeframe tbi) (tbYear tbi) (recordLength tbi) - Headersize + recordLength tbi;
          length = min (end_offset loc h rng tbi - startOffset) maxLength
      in \<lparr>fpInfo = tbi, fpOffset = startOffset, fpLength = length, fpFullPath = tbPath tbi, BaseTime = fileStartTime,
          seekingLast = (limDirection limit = LAST)\<rparr>)"

definition plan_file :: "location \<Rightarrow> disk \<Rightarrow> hints \<Rightarrow> ParseResult \<Rightarrow> QualifiedFile \<Rightarrow> ioplan \<Rightarrow> ioplan result" where
  "plan_file loc fs h pr file iop =
     (let fileStartTime = Unix (year_start loc (tbYear (qfFile file)))
      in res_bind (once_do fs (qfFile file)) (\<lambda>tbi.
        if timeframe tbi = 0 then Inl (Panic ''integer divide by zero'')
        else res_bind (if iopRecordLen iop = 0
            then res_bind (GetVariableRecordLength fs tbi) (\<lambda>(n, tbi).
              Inr (iop\<lparr>iopRecordLen := recordLength tbi, iopRecordType := recordType tbi, VariableRecordLen := n\<rparr>, tbi))
            else if recordLength tbi \<noteq> iopRecordLen iop then Inl (Err ''RecordLengthNotConsistent'')
            else Inr (iop, tbi)) (\<lambda>(iop, tbi).
          case prRange pr of None \<Rightarrow> Inl (Panic ''nil pointer dereference'') | Some rng \<Rightarrow>
          if tbYear tbi < StartYear rng then Inr iop
          else if tbYear tbi \<le> EndYear rng
          then case iopLimit iop of None \<Rightarrow> Inl (Panic ''nil pointer dereference'')
            | Some limit \<Rightarrow> Inr (iop\<lparr>FilePlan := FilePlan iop @ [file_plan loc h rng limit fileStartTime tbi]\<rparr>)
          else Inr iop)))"

fun plan_files :: "location \<Rightarrow> disk \<Rightarrow> hints \<Rightarrow> ParseResult \<Rightarrow> QualifiedFile list \<Rightarrow> ioplan \<Rightarrow> ioplan result" where
  "plan_files loc fs h pr [] iop = Inr iop"
| "plan_files loc fs h pr (file # fl) iop = res_bind (plan_file loc fs h pr file iop) (plan_files loc fs h pr fl)"

definition NewIOPlan :: "location \<Rightarrow> disk \<Rightarrow> hints \<Rightarrow> QualifiedFile list \<Rightarrow> ParseResult \<Rightarrow> ioplan result" where
  "NewIOPlan loc fs h fl pr =
     res_bind (plan_files loc fs h pr fl \<lparr>FilePlan = [], iopRecordLen = 0, iopRecordType = 0, VariableRecordLen = 0,
         iopLimit = prLimit pr, iopTimeQuals = []\<rparr>) (\<lambda>iop. Inr (iop\<lparr>iopTimeQuals := prTimeQuals pr\<rparr>))"

section \<open>Packing\<close>

definition checkTimeQuals :: "ioplan \<Rightarrow> int \<Rightarrow> bool" where
  "checkTimeQuals iop epoch \<longleftrightarrow> list_all (\<lambda>timeQual. timeQual epoch) (iopTimeQuals iop)"

text \<open>
  The state of a packing read: the packed records, the open file, the block buffer, the plan of the file, whose flag is
  cleared when the hint is set, and the hints.
\<close>

record pack_state =
  packedBuffer :: bytes
  psFile :: file_ptr
  psBuffer :: bytes
  psPlan :: ioFilePlan
  psHints :: hints

text \<open>Record \<open>i\<close> of the block; \<open>nn\<close> is the number of bytes of the block that are to be packed.\<close>

definition note_last :: "int \<Rightarrow> int \<Rightarrow> nat \<Rightarrow> pack_state \<Rightarrow> pack_state" where
  "note_last recordSize nn i s =
     (if seekingLast (psPlan s)
      then s\<lparr>psHints := SetLastKnown (fpFullPath (psPlan s)) (int (fpos (psFile s)) - nn + int i * recordSize) (psHints s),
             psPlan := (psPlan s)\<lparr>seekingLast := False\<rparr>\<rparr>
      else s)"

definition pack_record :: "location \<Rightarrow> ioplan \<Rightarrow> int \<Rightarrow> nat \<Rightarrow> pack_state \<Rightarrow> pack_state result" where
  "pack_record loc iop nn i s =
     (let recordSize = iopRecordLen iop; rec = drop (i * nat recordSize) (psBuffer s)
      in if length rec < 8 then Inl (Panic ''index out of range'')
         else
           let index = ToInt64 rec
           in if index = 0 then Inr s
              else
                let epoch = Unix (IndexToTime loc index (timeframe (fpInfo (psPlan s))) (GetFileYear (psPlan s)))
                in if \<not> checkTimeQuals iop epoch then Inr s
                   else if recordSize < 8 then Inl (Panic ''index out of range'')
                   else Inr (note_last recordSize nn i
                     (s\<lparr>packedBuffer := packedBuffer s @ le_bytes 8 epoch @ drop 8 (take (nat recordSize) rec)\<rparr>)))"

fun pack_records :: "location \<Rightarrow> ioplan \<Rightarrow> int \<Rightarrow> nat list \<Rightarrow> pack_state \<Rightarrow> pack_state result" where
  "pack_records loc iop nn [] s = Inr s"
| "pack_records loc iop nn (i # is) s = res_bind (pack_record loc iop nn i s) (pack_records loc iop nn is)"

text \<open>One read into the block buffer: the number of bytes read and the state.\<close>

definition read_block :: "pack_state \<Rightarrow> nat \<times> pack_state" where
  "read_block s =
     (let d = read_at (fdata (psFile s)) (fpos (psFile s)) (length (psBuffer s))
      in (length d, s\<lparr>psFile := (psFile s)\<lparr>fpos := fpos (psFile s) + length d\<rparr>, psBuffer := copy_at 0 (psBuffer s) d\<rparr>))"

lemma read_block_progress:
  "read_block s = (n, s') \<Longrightarrow> fdata (psFile s') = fdata (psFile s) \<and> fpos (psFile s') = fpos (psFile s) + n
    \<and> length (psBuffer s') = length (psBuffer s) \<and> (0 < n \<longrightarrow> fpos (psFile s) + n \<le> length (fdata (psFile s)))"
  by (auto simp: read_block_def read_at_def Let_def length_copy_at)

text \<open>Packing moves neither the file nor the buffer.\<close>

lemma pack_record_frame:
  "pack_record loc iop nn i s = Inr s' \<Longrightarrow> psFile s' = psFile s \<and> psBuffer s' = psBuffer s"
  by (auto simp: pack_record_def Let_def note_last_def split: if_splits)

lemma pack_records_frame:
  "pack_records loc iop nn is s = Inr s' \<Longrightarrow> psFile s' = psFile s \<and> psBuffer s' = psBuffer s"
  by (induction "is" arbitrary: s) (auto simp: res_bind_Inr dest!: pack_record_frame)

text \<open>A panic is the left value; an error that is returned stands beside the state.\<close>

function packingReader :: "location \<Rightarrow> ioplan \<Rightarrow> int \<Rightarrow> int \<Rightarrow> pack_state \<Rightarrow> (pack_state \<times> go_err option) result" where
  "packingReader loc iop maxRead totalRead s =
     (let recordSize = iopRecordLen iop; (n, s') = read_block s; totalRead' = totalRead + int n
      in if n = 0 then Inr (s', None)
         else if int n < recordSize then Inr (s', Some (Err ''packingReader: Short read''))
         else
           let leftBytes = maxRead - totalRead'; nn = (if leftBytes < 0 then int n + leftBytes else int n)
           in if recordSize = 0 then Inl (Panic ''integer divide by zero'')
              else case pack_records loc iop nn [0..<nat (nn sdiv recordSize)] s' of
                  Inl e \<Rightarrow> Inl e
                | Inr s'' \<Rightarrow> if leftBytes \<le> 0 then Inr (s'', None) else packingReader loc iop maxRead totalRead' s'')"
  by pat_completeness auto
termination
proof (relation "measure (\<lambda>(_, _, _, _, s). length (fdata (psFile s)) - fpos (psFile s))")
  fix loc :: location and iop :: ioplan and maxRead totalRead :: int and s :: pack_state
    and recordSize xa n s' totalRead' leftBytes nn s''
  assume a: "(n, s') = xa" "xa = read_block s" "n \<noteq> 0" "pack_records loc iop nn [0..<nat (nn sdiv recordSize)] s' = Inr s''"
  then have "read_block s = (n, s')" "psFile s'' = psFile s'" using pack_records_frame by auto
  with read_block_progress [OF this(1)] a(3)
  show "((loc, iop, maxRead, totalRead', s''), loc, iop, maxRead, totalRead, s)
      \<in> measure (\<lambda>(_, _, _, _, s). length (fdata (psFile s)) - fpos (psFile s))"
    by auto
qed simp

declare packingReader.simps [simp del]


section \<open>Scanning a file\<close>

text \<open>What a scan keeps between the files: the hints and the block buffer.\<close>

record scan_io =
  sHints :: hints
  sBuffer :: bytes

definition start_pack :: "bytes \<Rightarrow> bytes \<Rightarrow> ioFilePlan \<Rightarrow> scan_io \<Rightarrow> pack_state" where
  "start_pack packed content iofp io =
     \<lparr>packedBuffer = packed, psFile = \<lparr>fdata = content, fpos = 0\<rparr>, psBuffer = sBuffer io, psPlan = iofp, psHints = sHints io\<rparr>"

definition io_of :: "pack_state \<Rightarrow> scan_io" where
  "io_of s = \<lparr>sHints = psHints s, sBuffer = psBuffer s\<rparr>"

definition seek_to :: "int \<Rightarrow> pack_state \<Rightarrow> pack_state \<times> go_err option" where
  "seek_to p s = (case Seek p (psFile s) of (f, err) \<Rightarrow> (s\<lparr>psFile := f\<rparr>, err))"

text \<open>
  \<^verbatim>\<open>readForward\<close>: the buffer, whether the limit is reached, and the error. A file that can not be opened gives no buffer at
  all, not the one that came in.
\<close>

definition readForward :: "location \<Rightarrow> disk \<Rightarrow> ioplan \<Rightarrow> bytes \<Rightarrow> ioFilePlan \<Rightarrow> int \<Rightarrow> scan_io
    \<Rightarrow> (bytes \<times> bool \<times> go_err option \<times> scan_io) result" where
  "readForward loc fs iop finalBuffer iofp bytesToRead io =
     (case fs (fpFullPath iofp) of
        None \<Rightarrow> Inr ([], False, Some (NotExist (fpFullPath iofp)), io)
      | Some content \<Rightarrow>
          (case seek_to (fpOffset iofp) (start_pack finalBuffer content iofp io) of
            (s, Some e) \<Rightarrow> Inr (finalBuffer, False, Some e, io)
          | (s, None) \<Rightarrow>
              (case packingReader loc iop (fpLength iofp) 0 s of
                Inl e \<Rightarrow> Inl e
              | Inr (s, Some e) \<Rightarrow> Inr (packedBuffer s, False, Some e, io_of s)
              | Inr (s, None) \<Rightarrow>
                  if bytesToRead \<le> to_int32 (int (length (packedBuffer s)))
                  then res_bind (go_slice 0 bytesToRead (packedBuffer s)) (\<lambda>b. Inr (b, True, None, io_of s))
                  else Inr (packedBuffer s, False, None, io_of s))))"

text \<open>\<^verbatim>\<open>seekBackward\<close>: the distance, the new position and the error.\<close>

definition seekBackward :: "int \<Rightarrow> int \<Rightarrow> pack_state \<Rightarrow> (int \<times> int \<times> pack_state) result" where
  "seekBackward relative_offset lowerBound s =
     (let curpos = int (fpos (psFile s));
          seekAmt = (if curpos - relative_offset \<le> lowerBound then curpos - lowerBound else relative_offset)
      in case seek_to (curpos - seekAmt) s of
           (s, Some e) \<Rightarrow> Inl (Err ''Error: seeking to rel offset'')
         | (s, None) \<Rightarrow> Inr (seekAmt, int (fpos (psFile s)), s))"

text \<open>Copying what a block gave into the end of the part of the final buffer that is still to be filled.\<close>

definition fill_back :: "bytes \<Rightarrow> int \<Rightarrow> bytes \<Rightarrow> (bytes \<times> int \<times> bool) result" where
  "fill_back finalBuffer bytesToRead fileBuffer =
     (let numRead = to_int32 (int (length fileBuffer))
      in if numRead = 0 then Inr (finalBuffer, bytesToRead, False)
         else if numRead \<le> bytesToRead
         then let left = bytesToRead - numRead
              in if left < 0 \<or> int (length finalBuffer) < left then Inl (Panic ''slice bounds out of range'')
                 else Inr (copy_at (nat left) finalBuffer fileBuffer, left, False)
         else res_bind (go_slice (numRead - bytesToRead) (int (length fileBuffer)) fileBuffer) (\<lambda>part.
                Inr (copy_at 0 finalBuffer part, 0, True)))"

text \<open>
  The loop of \<^verbatim>\<open>readBackward\<close>; a loop that does not end is the value \<open>None\<close>. Its result is the buffer, whether it is full, the number of
  bytes found and the error.
\<close>

partial_function (option) backward_loop :: "location \<Rightarrow> ioplan \<Rightarrow> int \<Rightarrow> int \<Rightarrow> int \<Rightarrow> int \<Rightarrow> bytes \<Rightarrow> int \<Rightarrow> int \<Rightarrow> pack_state
    \<Rightarrow> (bytes option \<times> bool \<times> int \<times> go_err option \<times> scan_io) result option" where
  "backward_loop loc iop maxToBuffer beginPos maxToRead curpos finalBuffer bytesToRead bytesRead s =
     (case packingReader loc iop maxToRead 0 (s\<lparr>packedBuffer := []\<rparr>) of
        Inl e \<Rightarrow> Some (Inl e)
      | Inr (s, Some e) \<Rightarrow> Some (Inr (None, False, 0, Some e, io_of s))
      | Inr (s, None) \<Rightarrow>
          (case fill_back finalBuffer bytesToRead (packedBuffer s) of
            Inl e \<Rightarrow> Some (Inl e)
          | Inr (finalBuffer, bytesToRead, full) \<Rightarrow>
              let bytesRead = bytesRead + to_int32 (int (length (packedBuffer s)))
              in if full \<or> curpos = beginPos
                 then Some (Inr (Some finalBuffer, bytesToRead = 0, bytesRead, None, io_of s))
                 else (case seekBackward (to_int32 (2 * maxToBuffer)) beginPos s of
                     Inl e \<Rightarrow> Some (Inr (None, False, 0, Some e, io_of s))
                   | Inr (seekAmt, curpos, s) \<Rightarrow>
                       backward_loop loc iop maxToBuffer beginPos (seekAmt - maxToBuffer) curpos finalBuffer bytesToRead bytesRead s)))"

definition readBackward :: "location \<Rightarrow> disk \<Rightarrow> ioplan \<Rightarrow> bytes option \<Rightarrow> ioFilePlan \<Rightarrow> int \<Rightarrow> scan_io
    \<Rightarrow> (bytes option \<times> bool \<times> int \<times> go_err option \<times> scan_io) result option" where
  "readBackward loc fs iop finalBuffer iofp bytesToRead io =
     (let beginPos = fpOffset iofp; maxToBuffer = int (length (sBuffer io))
      in if finalBuffer = None \<and> bytesToRead < 0 then Some (Inl (Panic ''makeslice: len out of range''))
         else
           let finalBuffer = (case finalBuffer of None \<Rightarrow> replicate (nat bytesToRead) 0 | Some b \<Rightarrow> b)
           in case fs (fpFullPath iofp) of
                None \<Rightarrow> Some (Inr (None, False, 0, Some (NotExist (fpFullPath iofp)), io))
              | Some content \<Rightarrow>
                  (case seekBackward maxToBuffer beginPos (fst (seek_to (beginPos + fpLength iofp) (start_pack [] content iofp io))) of
                    Inl e \<Rightarrow> Some (Inr (None, False, 0, Some e, io))
                  | Inr (maxToRead, curpos, s) \<Rightarrow>
                      backward_loop loc iop maxToBuffer beginPos maxToRead curpos finalBuffer bytesToRead 0 s))"

section \<open>Scanning the files of a plan\<close>

record bufferMeta =
  bmFullPath :: path
  bmData :: bytes
  VarRecLen :: int
  Intervals :: int

text \<open>
  The loop over the files from the first to the last. An error of a file is kept only until the next file is read; index records of variable-length
  data are noted with their file.
\<close>

definition meta_of :: "disk \<Rightarrow> ioplan \<Rightarrow> ioFilePlan \<Rightarrow> bytes \<Rightarrow> bufferMeta result" where
  "meta_of fs iop iofp data = res_bind (GetIntervals fs (fpInfo iofp)) (\<lambda>(iv, _).
     Inr \<lparr>bmFullPath = fpFullPath iofp, bmData = data, VarRecLen = VariableRecordLen iop, Intervals = iv\<rparr>)"

fun forward_files :: "location \<Rightarrow> disk \<Rightarrow> ioplan \<Rightarrow> int \<Rightarrow> ioFilePlan list \<Rightarrow> bytes \<Rightarrow> bufferMeta list \<Rightarrow> go_err option \<Rightarrow> scan_io
    \<Rightarrow> (bytes \<times> bufferMeta list \<times> go_err option \<times> scan_io) result" where
  "forward_files loc fs iop limitBytes [] resultBuffer bufMeta err io = Inr (resultBuffer, bufMeta, err, io)"
| "forward_files loc fs iop limitBytes (iofp # iofps) resultBuffer bufMeta err io =
     res_bind (readForward loc fs iop resultBuffer iofp limitBytes io) (\<lambda>(resultBuffer', finished, err, io).
       res_bind (if iopRecordType iop = VARIABLE \<and> length resultBuffer < length resultBuffer'
                 then res_bind (meta_of fs iop iofp (drop (length resultBuffer) resultBuffer')) (\<lambda>md. Inr (bufMeta @ [md]))
                 else Inr bufMeta) (\<lambda>bufMeta.
         if finished then Inr (resultBuffer', bufMeta, err, io)
         else forward_files loc fs iop limitBytes iofps resultBuffer' bufMeta err io))"

text \<open>
  The loop from the last file to the first, over the reversed list. The second component of its result is the number of bytes that
  are still to be filled.
\<close>

definition noted_back :: "disk \<Rightarrow> ioplan \<Rightarrow> ioFilePlan \<Rightarrow> bytes option \<Rightarrow> int \<Rightarrow> int \<Rightarrow> bufferMeta list \<Rightarrow> (int \<times> bufferMeta list) result" where
  "noted_back fs iop iofp resultBuffer bytesRead bytesLeftToFill bufMeta =
     (if iopRecordType iop = VARIABLE \<and> 0 < bytesRead
      then let left = max 0 bytesLeftToFill; b = (case resultBuffer of None \<Rightarrow> [] | Some b \<Rightarrow> b)
           in res_bind (go_slice left (int (length b)) b) (\<lambda>data. res_bind (meta_of fs iop iofp data) (\<lambda>md. Inr (left, bufMeta @ [md])))
      else Inr (bytesLeftToFill, bufMeta))"

fun backward_files :: "location \<Rightarrow> disk \<Rightarrow> ioplan \<Rightarrow> int \<Rightarrow> ioFilePlan list \<Rightarrow> bytes option \<Rightarrow> bufferMeta list \<Rightarrow> scan_io
    \<Rightarrow> (bytes option \<times> int \<times> bufferMeta list \<times> scan_io) result option" where
  "backward_files loc fs iop bytesLeftToFill [] resultBuffer bufMeta io = Some (Inr (resultBuffer, bytesLeftToFill, bufMeta, io))"
| "backward_files loc fs iop bytesLeftToFill (iofp # iofps) resultBuffer bufMeta io =
     (case readBackward loc fs iop resultBuffer iofp bytesLeftToFill io of
        None \<Rightarrow> None
      | Some (Inl e) \<Rightarrow> Some (Inl e)
      | Some (Inr (resultBuffer, finished, bytesRead, err, io)) \<Rightarrow>
          (case noted_back fs iop iofp resultBuffer bytesRead (bytesLeftToFill - bytesRead) bufMeta of
            Inl e \<Rightarrow> Some (Inl e)
          | Inr (bytesLeftToFill, bufMeta) \<Rightarrow>
              if finished then Some (Inr (resultBuffer, bytesLeftToFill, bufMeta, io))
              else (case err of
                  Some e \<Rightarrow> Some (Inl e)
                | None \<Rightarrow> backward_files loc fs iop bytesLeftToFill iofps resultBuffer bufMeta io)))"

text \<open>The loop that is meant to reverse the order of the notes: the second half becomes the mirror image of the first.\<close>

definition reverse_meta :: "bufferMeta list \<Rightarrow> bufferMeta list" where
  "reverse_meta bufMeta = (let n = length bufMeta in fold (\<lambda>i ms. ms[n - 1 - i := ms ! i]) [0..<n div 2] bufMeta)"

text \<open>
  The first stage of \<^verbatim>\<open>read\<close>: the packed buffer, the notes for the second stage, the error of the last file that was read, and
  the hints and the buffer.
\<close>

definition scan_plan :: "location \<Rightarrow> disk \<Rightarrow> ioplan \<Rightarrow> scan_io \<Rightarrow> (bytes \<times> bufferMeta list \<times> go_err option \<times> scan_io) result option" where
  "scan_plan loc fs iop io =
     (case go_slice 0 (to_int32 (RecordsPerRead * iopRecordLen iop)) (sBuffer io) of
        Inl e \<Rightarrow> Some (Inl e)
      | Inr block \<Rightarrow>
          let io = io\<lparr>sBuffer := block\<rparr>
          in (case iopLimit iop of
              None \<Rightarrow> Some (Inl (Panic ''nil pointer dereference''))
            | Some limit \<Rightarrow>
                let unlimited = (limNumber limit = MaxInt32);
                    limitBytes = (if unlimited then MaxInt32 else to_int32 (iopRecordLen iop * limNumber limit))
                in (case limDirection limit of
                    FIRST \<Rightarrow> Some (forward_files loc fs iop limitBytes (FilePlan iop) [] [] None io)
                  | LAST \<Rightarrow>
                      if unlimited then Some (Inl (Err ''Reverse scan only supported with a limited result set''))
                      else (case backward_files loc fs iop limitBytes (rev (FilePlan iop)) None [] io of
                          None \<Rightarrow> None
                        | Some (Inl e) \<Rightarrow> Some (Inl e)
                        | Some (Inr (resultBuffer, bytesLeftToFill, bufMeta, io)) \<Rightarrow>
                            let b = (case resultBuffer of None \<Rightarrow> [] | Some b \<Rightarrow> b);
                                b = (if 0 < bytesLeftToFill \<and> 0 < length b then drop (nat bytesLeftToFill) b else b)
                            in Some (Inr (b, if iopRecordType iop = VARIABLE then reverse_meta bufMeta else bufMeta, None, io))))))"


section \<open>What a scan finds\<close>

text \<open>
  A record of a block counts when its index is not zero and its time passes the qualifiers of the query; it is returned with its time in
  place of the index.
\<close>

definition record_epoch :: "location \<Rightarrow> TimeBucketInfo \<Rightarrow> bytes \<Rightarrow> int" where
  "record_epoch loc tbi rec = Unix (IndexToTime loc (ToInt64 rec) (timeframe tbi) (tbYear tbi))"

definition is_valid :: "location \<Rightarrow> ioplan \<Rightarrow> TimeBucketInfo \<Rightarrow> bytes \<Rightarrow> bool" where
  "is_valid loc iop tbi rec \<longleftrightarrow> ToInt64 rec \<noteq> 0 \<and> checkTimeQuals iop (record_epoch loc tbi rec)"

definition stamped :: "location \<Rightarrow> TimeBucketInfo \<Rightarrow> bytes \<Rightarrow> bytes" where
  "stamped loc tbi rec = le_bytes 8 (record_epoch loc tbi rec) @ drop 8 rec"

definition packed :: "location \<Rightarrow> ioplan \<Rightarrow> TimeBucketInfo \<Rightarrow> bytes list \<Rightarrow> bytes" where
  "packed loc iop tbi recs = concat (map (stamped loc tbi) (filter (is_valid loc iop tbi) recs))"

lemma packed_simps [simp]:
  "packed loc iop tbi [] = []"
  "packed loc iop tbi (r # rs) = (if is_valid loc iop tbi r then stamped loc tbi r else []) @ packed loc iop tbi rs"
  "packed loc iop tbi (rs @ rs') = packed loc iop tbi rs @ packed loc iop tbi rs'"
  by (simp_all add: packed_def)

text \<open>Packing one record, when records hold at least their index.\<close>

lemma pack_record_valid:
  fixes s n i
  defines "rec \<equiv> take n (drop (i * n) (psBuffer s))" and "tbi \<equiv> fpInfo (psPlan s)"
  assumes "iopRecordLen iop = int n" "8 \<le> n" "i * n + n \<le> length (psBuffer s)"
  shows "pack_record loc iop nn i s = Inr (if is_valid loc iop tbi rec
    then note_last (int n) nn i (s\<lparr>packedBuffer := packedBuffer s @ stamped loc tbi rec\<rparr>) else s)"
proof -
  have "\<not> length (psBuffer s) - i * n < 8" using assms(4,5) by simp
  then show ?thesis
    using assms(3-5) by (simp add: pack_record_def Let_def rec_def tbi_def is_valid_def stamped_def record_epoch_def GetFileYear_def)
qed

lemma note_last_frame [simp]:
  "packedBuffer (note_last n nn i s) = packedBuffer s" "psFile (note_last n nn i s) = psFile s"
  "psBuffer (note_last n nn i s) = psBuffer s" "fpInfo (psPlan (note_last n nn i s)) = fpInfo (psPlan s)"
  "fpFullPath (psPlan (note_last n nn i s)) = fpFullPath (psPlan s)"
  by (simp_all add: note_last_def)

lemma pack_records_packed:
  assumes "iopRecordLen iop = int n" "8 \<le> n" "\<forall>i \<in> set is. i * n + n \<le> length (psBuffer s)"
  shows "\<exists>s'. pack_records loc iop nn is s = Inr s' \<and> psFile s' = psFile s \<and> psBuffer s' = psBuffer s
    \<and> fpInfo (psPlan s') = fpInfo (psPlan s)
    \<and> packedBuffer s' = packedBuffer s @ packed loc iop (fpInfo (psPlan s)) (map (\<lambda>i. take n (drop (i * n) (psBuffer s))) is)"
  using assms(3)
proof (induction "is" arbitrary: s)
  case (Cons i "is")
  obtain s1 where s1: "pack_record loc iop nn i s = Inr s1" and f1: "psFile s1 = psFile s" "psBuffer s1 = psBuffer s"
    "fpInfo (psPlan s1) = fpInfo (psPlan s)"
    "packedBuffer s1 = packedBuffer s @ packed loc iop (fpInfo (psPlan s)) [take n (drop (i * n) (psBuffer s))]"
    using pack_record_valid [OF assms(1,2), of i s loc nn] Cons.prems by (auto split: if_splits)
  moreover have "\<forall>i \<in> set is. i * n + n \<le> length (psBuffer s1)" using Cons.prems f1 by simp
  from Cons.IH [OF this] show ?case using s1 f1 by auto
qed simp

lemma map_chunks: "map (\<lambda>i. take n (drop (i * n) xs)) [0..<k] = chunks n k xs"
  by (intro nth_equalityI) (simp_all add: chunks_nth)

text \<open>One block, read into the buffer.\<close>

lemma read_block_eq:
  assumes "d = read_at (fdata (psFile s)) (fpos (psFile s)) (length (psBuffer s))"
  shows "read_block s = (length d, s\<lparr>psFile := (psFile s)\<lparr>fpos := fpos (psFile s) + length d\<rparr>,
    psBuffer := d @ drop (length d) (psBuffer s)\<rparr>)"
  using assms by (simp add: read_block_def Let_def copy_at_def read_at_def min_def)

text \<open>
  A round of the packing loop with \<open>k\<close> records left and a buffer of \<open>b\<close>: it packs as many of them as the buffer takes.
\<close>

lemma pack_block:
  assumes "iopRecordLen iop = int n" "8 \<le> n" "0 < b" "0 < k" "length (psBuffer s) = n * b"
    and "maxRead - totalRead = int (n * k)" "fpos (psFile s) + n * k \<le> length (fdata (psFile s))"
  obtains s' where "packingReader loc iop maxRead totalRead s
      = (if k \<le> b then Inr (s', None) else packingReader loc iop maxRead (totalRead + int (n * b)) s')"
    "fdata (psFile s') = fdata (psFile s)" "length (psBuffer s') = n * b" "fpInfo (psPlan s') = fpInfo (psPlan s)"
    "fpos (psFile s') = fpos (psFile s) + min (n * b) (length (fdata (psFile s)) - fpos (psFile s))"
    "packedBuffer s' = packedBuffer s @ packed loc iop (fpInfo (psPlan s))
      (chunks n (min k b) (drop (fpos (psFile s)) (fdata (psFile s))))"
proof -
  let ?p = "fpos (psFile s)" and ?data = "fdata (psFile s)" and ?tbi = "fpInfo (psPlan s)" and ?m = "min k b"
  define d where "d = read_at ?data ?p (length (psBuffer s))"
  define s1 where "s1 = s\<lparr>psFile := (psFile s)\<lparr>fpos := ?p + length d\<rparr>, psBuffer := d @ drop (length d) (psBuffer s)\<rparr>"
  define left where "left = maxRead - (totalRead + int (length d))"
  have rb: "read_block s = (length d, s1)" unfolding s1_def by (rule read_block_eq) (simp add: d_def)
  have f1: "packedBuffer s1 = packedBuffer s" "psPlan s1 = psPlan s" "fdata (psFile s1) = ?data" "fpos (psFile s1) = ?p + length d"
    by (simp_all add: s1_def)
  have ld: "length d = min (n * b) (length ?data - ?p)" by (simp add: d_def read_at_def assms(5))
  have mono: "n \<le> n * b" "n \<le> n * k" "n * ?m \<le> n * b" "n * ?m \<le> n * k" "\<not> k \<le> b \<Longrightarrow> n * b < n * k" "k \<le> b \<Longrightarrow> n * k \<le> n * b"
    using assms(2-4) by simp_all
  have nk: "n \<le> length d" "n * ?m \<le> length d" using ld mono assms(7) by linarith+
  have left0: "left = int (n * k) - int (length d)" using assms(6) unfolding left_def by linarith
  have left: "left \<le> 0 \<longleftrightarrow> k \<le> b" "(if left < 0 then int (length d) + left else int (length d)) = int (n * ?m)"
    "\<not> k \<le> b \<Longrightarrow> length d = n * b"
  proof (atomize (full), cases "k \<le> b")
    case True
    then have "n * k \<le> length d" "?m = k" using mono(6) ld assms(7) by auto
    then show "(left \<le> 0 \<longleftrightarrow> k \<le> b) \<and> (if left < 0 then int (length d) + left else int (length d)) = int (n * ?m)
      \<and> (\<not> k \<le> b \<longrightarrow> length d = n * b)" using True left0 by (simp del: of_nat_mult)
  next
    case False
    then have "length d = n * b" "length d < n * k" "?m = b" using mono(5) ld assms(7) by (linarith | simp)+
    then show "(left \<le> 0 \<longleftrightarrow> k \<le> b) \<and> (if left < 0 then int (length d) + left else int (length d)) = int (n * ?m)
      \<and> (\<not> k \<le> b \<longrightarrow> length d = n * b)" using False left0 by (simp del: of_nat_mult)
  qed
  have b1: "length (psBuffer s1) = n * b" using ld by (simp add: s1_def assms(5))
  have "\<forall>i \<in> set [0..<?m]. i * n + n \<le> length (psBuffer s1)"
    using row_room [of _ ?m n "n * b"] b1 by (auto simp: mult.commute)
  from pack_records_packed [OF assms(1,2) this, of loc "int (n * ?m)"]
  obtain s2 where s2: "pack_records loc iop (int (n * ?m)) [0..<?m] s1 = Inr s2" "psFile s2 = psFile s1" "psBuffer s2 = psBuffer s1"
    "fpInfo (psPlan s2) = ?tbi" "packedBuffer s2 = packedBuffer s @ packed loc iop ?tbi (chunks n ?m (psBuffer s1))"
    unfolding map_chunks f1 by blast
  have "chunks n ?m (psBuffer s1) = chunks n ?m d"
    using nk(2) chunks_take [of n ?m "length d" "psBuffer s1"] by (simp add: s1_def)
  also have "\<dots> = chunks n ?m (drop ?p ?data)"
    using mono(3) chunks_take [of n ?m "n * b" "drop ?p ?data"] by (simp add: d_def read_at_def assms(5))
  finally have ch: "chunks n ?m (psBuffer s1) = chunks n ?m (drop ?p ?data)" .
  have "nat (int (n * ?m) sdiv int n) = ?m" using assms(2) by (simp add: sdiv_nonneg)
  then have "packingReader loc iop maxRead totalRead s
      = (if k \<le> b then Inr (s2, None) else packingReader loc iop maxRead (totalRead + int (n * b)) s2)"
    using rb nk(1) assms(1,2) s2(1) left by (subst packingReader.simps) (auto simp: Let_def left_def)
  then show thesis using s2 ch b1 ld f1 by (intro that) simp_all
qed

text \<open>Packing \<open>k\<close> records of a file. When one block is enough, the position afterwards is the end of the block.\<close>

lemma packingReader_packs:
  assumes "iopRecordLen iop = int n" "8 \<le> n" "0 < b" "0 < k" "length (psBuffer s) = n * b"
    and "maxRead - totalRead = int (n * k)" "fpos (psFile s) + n * k \<le> length (fdata (psFile s))"
  shows "\<exists>s'. packingReader loc iop maxRead totalRead s = Inr (s', None) \<and> fdata (psFile s') = fdata (psFile s)
    \<and> length (psBuffer s') = n * b \<and> fpInfo (psPlan s') = fpInfo (psPlan s)
    \<and> packedBuffer s' = packedBuffer s @ packed loc iop (fpInfo (psPlan s)) (chunks n k (drop (fpos (psFile s)) (fdata (psFile s))))
    \<and> (k \<le> b \<longrightarrow> fpos (psFile s') = fpos (psFile s) + min (n * b) (length (fdata (psFile s)) - fpos (psFile s)))"
  using assms(4-7)
proof (induction k arbitrary: s totalRead rule: less_induct)
  case (less k)
  let ?p = "fpos (psFile s)" and ?data = "fdata (psFile s)" and ?tbi = "fpInfo (psPlan s)"
  obtain s1 where s1: "packingReader loc iop maxRead totalRead s
      = (if k \<le> b then Inr (s1, None) else packingReader loc iop maxRead (totalRead + int (n * b)) s1)"
    "fdata (psFile s1) = ?data" "length (psBuffer s1) = n * b" "fpInfo (psPlan s1) = ?tbi"
    "fpos (psFile s1) = ?p + min (n * b) (length ?data - ?p)"
    "packedBuffer s1 = packedBuffer s @ packed loc iop ?tbi (chunks n (min k b) (drop ?p ?data))"
    by (rule pack_block [OF assms(1-3) less.prems])
  show ?case
  proof (cases "k \<le> b")
    case False
    then have nb: "n * b < n * k" "k - b < k" "0 < k - b" using assms(2,3) by auto
    then have p1: "fpos (psFile s1) = ?p + n * b" using s1(5) less.prems(4) by linarith
    have "maxRead - (totalRead + int (n * b)) = int (n * (k - b))"
      using less.prems(3) nb(1) by (simp add: diff_mult_distrib2 of_nat_diff)
    moreover have "fpos (psFile s1) + n * (k - b) \<le> length (fdata (psFile s1))"
      using less.prems(4) nb(1) by (simp add: s1(2) p1 diff_mult_distrib2)
    ultimately obtain s' where "packingReader loc iop maxRead (totalRead + int (n * b)) s1 = Inr (s', None)"
      "fdata (psFile s') = ?data" "length (psBuffer s') = n * b" "fpInfo (psPlan s') = ?tbi"
      "packedBuffer s' = packedBuffer s1 @ packed loc iop ?tbi (chunks n (k - b) (drop (?p + n * b) ?data))"
      using less.IH [OF nb(2,3) s1(3)] s1(2,4) p1 by metis
    moreover have "chunks n b (drop ?p ?data) @ chunks n (k - b) (drop (?p + n * b) ?data) = chunks n k (drop ?p ?data)"
      using chunks_add [of n b "k - b" "drop ?p ?data"] False by (simp add: add.commute)
    ultimately show ?thesis using s1 False by (auto simp flip: packed_simps(3))
  qed (use s1 in auto)
qed

end
