(* ===== verification/ScanLaws.thy ===== *)
theory ScanLaws
  imports Scanner
begin

text \<open>
  What a scan of fixed-length records returns: forward the first, backward the last of the records of the planned parts of the files that are not
  empty and pass the qualifiers, in the order of the files. With it the bounds of the backward scan, the hint it leaves, and what
  becomes of the data of the files when one of them can not be read.
\<close>

section \<open>The records of a plan\<close>

text \<open>A file of a plan can be scanned when its planned part is a positive number of records of \<open>n\<close> bytes inside the file.\<close>

definition scannable :: "disk \<Rightarrow> nat \<Rightarrow> ioFilePlan \<Rightarrow> bool" where
  "scannable fs n iofp \<longleftrightarrow> 0 \<le> fpOffset iofp \<and> 0 < fpLength iofp \<and> int n dvd fpLength iofp
     \<and> (case fs (fpFullPath iofp) of None \<Rightarrow> False | Some content \<Rightarrow> fpOffset iofp + fpLength iofp \<le> int (length content))"

definition file_records :: "disk \<Rightarrow> nat \<Rightarrow> ioFilePlan \<Rightarrow> bytes list" where
  "file_records fs n iofp = (case fs (fpFullPath iofp) of None \<Rightarrow> []
     | Some content \<Rightarrow> chunks n (nat (fpLength iofp) div n) (drop (nat (fpOffset iofp)) content))"

definition file_found :: "location \<Rightarrow> disk \<Rightarrow> ioplan \<Rightarrow> ioFilePlan \<Rightarrow> bytes list" where
  "file_found loc fs iop iofp = map (stamped loc (fpInfo iofp))
     (filter (is_valid loc iop (fpInfo iofp)) (file_records fs (nat (iopRecordLen iop)) iofp))"

definition found :: "location \<Rightarrow> disk \<Rightarrow> ioplan \<Rightarrow> ioFilePlan list \<Rightarrow> bytes list" where
  "found loc fs iop fps = concat (map (file_found loc fs iop) fps)"

lemma found_simps [simp]: "found loc fs iop [] = []" "found loc fs iop (x # xs) = file_found loc fs iop x @ found loc fs iop xs"
  "found loc fs iop (xs @ ys) = found loc fs iop xs @ found loc fs iop ys"
  by (simp_all add: found_def)

lemma scannableE:
  assumes "scannable fs n iofp" "0 < n"
  obtains content p k where "fs (fpFullPath iofp) = Some content" "fpOffset iofp = int p" "fpLength iofp = int (n * k)" "0 < k"
    "p + n * k \<le> length content" "file_records fs n iofp = chunks n k (drop p content)"
proof -
  from assms obtain content where c: "fs (fpFullPath iofp) = Some content" "fpOffset iofp + fpLength iofp \<le> int (length content)"
    by (auto simp: scannable_def split: option.splits)
  from assms obtain k where k: "fpLength iofp = int n * k" by (auto simp: scannable_def)
  then have "0 < k" using assms by (simp add: scannable_def zero_less_mult_iff)
  then have "fpLength iofp = int (n * nat k)" using k by simp
  moreover have "nat (fpLength iofp) div n = nat k" using calculation assms(2) by (metis nat_int nonzero_mult_div_cancel_left neq0_conv)
  moreover have "0 \<le> fpOffset iofp" using assms(1) by (simp add: scannable_def)
  moreover from this have "nat (fpOffset iofp) + n * nat k \<le> length content" using calculation c(2) by linarith
  ultimately show thesis using that [of content "nat (fpOffset iofp)" "nat k"] c \<open>0 < k\<close> by (simp add: file_records_def)
qed

lemma chunks_full: "n * k \<le> length xs \<Longrightarrow> \<forall>r \<in> set (chunks n k xs). length r = n"
proof (induction k arbitrary: xs)
  case (Suc k)
  then have "n * k \<le> length (drop n xs)" "n \<le> length xs" by simp_all
  then have tl: "\<forall>r \<in> set (chunks n k (drop n xs)). length r = n" and hd: "length (take n xs) = n"
    using Suc.IH by (blast, simp)
  show ?case unfolding chunks.simps using tl hd by (metis set_ConsD)
qed simp

lemma length_stamped: "length r = n \<Longrightarrow> 8 \<le> n \<Longrightarrow> length (stamped loc tbi r) = n"
  by (simp add: stamped_def)

lemma found_lengths:
  assumes "list_all (scannable fs n) fps" "iopRecordLen iop = int n" "8 \<le> n"
  shows "\<forall>r \<in> set (found loc fs iop fps). length r = n"
proof
  fix r
  assume "r \<in> set (found loc fs iop fps)"
  then obtain fp q where q: "fp \<in> set fps" "q \<in> set (file_records fs n fp)" "r = stamped loc (fpInfo fp) q"
    by (auto simp: found_def file_found_def assms(2))
  then have "scannable fs n fp" "0 < n" using assms by (auto simp: list_all_iff)
  then obtain content p k where "p + n * k \<le> length content" "file_records fs n fp = chunks n k (drop p content)" by (rule scannableE)
  then have "n * k \<le> length (drop p content)" "q \<in> set (chunks n k (drop p content))" using q(2) by simp_all
  then have "length q = n" using chunks_full by blast
  then show "length r = n" using q(3) assms(3) by (simp add: length_stamped)
qed

lemma take_concat_equal: "\<forall>x \<in> set xs. length x = n \<Longrightarrow> take (n * m) (concat xs) = concat (take m xs)"
proof (induction xs arbitrary: m)
  case (Cons x xs)
  then show ?case by (cases m) auto
qed simp

lemma drop_concat_equal: "\<forall>x \<in> set xs. length x = n \<Longrightarrow> drop (n * m) (concat xs) = concat (drop m xs)"
proof (induction xs arbitrary: m)
  case (Cons x xs)
  then show ?case by (cases m) auto
qed simp

section \<open>Forward\<close>

lemma readForward_found:
  assumes "iopRecordLen iop = int n" "8 \<le> n" "0 < b" "length (sBuffer io) = n * b" "scannable fs n iofp"
    and "out = final @ concat (file_found loc fs iop iofp)" "length out < 2 ^ 31" "0 \<le> limit"
  shows "\<exists>io'. length (sBuffer io') = n * b \<and> readForward loc fs iop final iofp limit io
    = Inr (if limit \<le> int (length out) then (take (nat limit) out, True, None, io') else (out, False, None, io'))"
proof -
  obtain content p k where f: "fs (fpFullPath iofp) = Some content" "fpOffset iofp = int p" "fpLength iofp = int (n * k)" "0 < k"
    "p + n * k \<le> length content" "file_records fs n iofp = chunks n k (drop p content)"
    using assms(2) by (rule_tac scannableE [OF assms(5)]) auto
  let ?s = "(start_pack final content iofp io)\<lparr>psFile := \<lparr>fdata = content, fpos = p\<rparr>\<rparr>"
  have "\<exists>s'. packingReader loc iop (int (n * k)) 0 ?s = Inr (s', None) \<and> length (psBuffer s') = n * b
      \<and> packedBuffer s' = final @ packed loc iop (fpInfo iofp) (chunks n k (drop p content))"
    using packingReader_packs [OF assms(1-3) f(4), of ?s "int (n * k)" 0 loc] assms(4) f(5) by (auto simp: start_pack_def)
  moreover have "packed loc iop (fpInfo iofp) (chunks n k (drop p content)) = concat (file_found loc fs iop iofp)"
    by (simp add: packed_def file_found_def f(6) assms(1))
  ultimately obtain s' where "packingReader loc iop (int (n * k)) 0 ?s = Inr (s', None)" "length (psBuffer s') = n * b"
    "packedBuffer s' = out" unfolding assms(6) by auto
  moreover have "to_int32 (int (length out)) = int (length out)" using assms(7) by (simp add: go_int)
  moreover have "seek_to (int p) (start_pack final content iofp io) = (?s, None)"
    by (simp add: seek_to_def Seek_def start_pack_def)
  ultimately show ?thesis using f assms(8) unfolding readForward_def by (auto simp: io_of_def intro!: exI [of _ "io_of s'"])
qed

lemma forward_files_found:
  assumes "iopRecordLen iop = int n" "8 \<le> n" "0 < b" "iopRecordType iop \<noteq> VARIABLE" "0 \<le> limit"
    and "list_all (scannable fs n) fps" "length (sBuffer io) = n * b"
    and "length (final @ concat (found loc fs iop fps)) < 2 ^ 31" "int (length final) \<le> limit"
  shows "\<exists>io'. forward_files loc fs iop limit fps final [] None io
    = Inr (take (nat limit) (final @ concat (found loc fs iop fps)), [], None, io')"
  using assms(6-9)
proof (induction fps arbitrary: final io)
  case (Cons f fps)
  let ?out = "final @ concat (file_found loc fs iop f)"
  have "length ?out < 2 ^ 31" using Cons.prems(3) by simp
  with readForward_found [OF assms(1-3) Cons.prems(2), of fs f ?out final loc limit] Cons.prems(1) assms(5)
  obtain io' where io': "length (sBuffer io') = n * b" "readForward loc fs iop final f limit io
    = Inr (if limit \<le> int (length ?out) then (take (nat limit) ?out, True, None, io') else (?out, False, None, io'))"
    by auto
  show ?case
  proof (cases "limit \<le> int (length ?out)")
    case True
    then have "take (nat limit) (final @ concat (found loc fs iop (f # fps))) = take (nat limit) ?out" by simp
    then show ?thesis using True io' assms(4) by simp
  next
    case False
    then show ?thesis using Cons.IH [of io' ?out] Cons.prems io' assms(4) by simp
  qed
qed simp


section \<open>Backward\<close>

text \<open>The final buffer after \<open>out\<close> was put at the end of its first \<open>r\<close> bytes, as much of it as fits.\<close>

definition back_filled :: "'a list \<Rightarrow> nat \<Rightarrow> 'a list \<Rightarrow> 'a list" where
  "back_filled final r out = take (r - length out) final @ drop (length out - r) out @ drop r final"

lemma length_back_filled: "r \<le> length final \<Longrightarrow> length (back_filled final r out) = length final"
  by (auto simp: back_filled_def)

lemma back_filled_append:
  assumes "r \<le> length final"
  shows "back_filled (back_filled final r b) (r - length b) a = back_filled final r (a @ b)"
proof (cases "length b \<le> r")
  case True
  then show ?thesis using assms by (simp add: back_filled_def min_def add.commute diff_diff_add)
next
  case False
  then show ?thesis using assms by (simp add: back_filled_def)
qed

text \<open>Cutting off what was not filled leaves the end of \<open>out\<close>.\<close>

lemma back_filled_cut:
  assumes "if length out \<le> r then left = int (r - length out) else left \<le> 0" "length final = r"
  shows "(if 0 < left \<and> 0 < length (back_filled final r out) then drop (nat left) (back_filled final r out)
    else back_filled final r out) = drop (length out - r) out"
proof (cases "length out \<le> r")
  case True
  then have "left = int (r - length out)" using assms(1) by simp
  then show ?thesis using True assms(2) by (auto simp: back_filled_def simp del: of_nat_diff)
next
  case False
  then show ?thesis using assms by (auto simp: back_filled_def)
qed

lemma fill_back_eq:
  assumes "length out < 2 ^ 31" "r \<le> length final"
  shows "fill_back final (int r) out = Inr (back_filled final r out, int (r - length out), r < length out)"
proof -
  have w: "to_int32 (int (length out)) = int (length out)" using assms(1) by (simp add: go_int)
  consider "out = []" | "out \<noteq> []" "length out \<le> r" | "r < length out" by fastforce
  then show ?thesis
  proof cases
    case 1
    then show ?thesis by (simp add: fill_back_def back_filled_def to_int32_def)
  next
    case 2
    then have "int r - int (length out) = int (r - length out)" "nat (int r - int (length out)) = r - length out" by simp_all
    moreover have "copy_at (r - length out) final out = back_filled final r out"
      using 2 assms(2) by (simp add: copy_at_def back_filled_def Let_def)
    ultimately show ?thesis using 2 assms(2) by (simp add: fill_back_def w Let_def)
  next
    case 3
    then have i: "int (length out) - int r = int (length out - r)" by simp
    have "go_slice (int (length out) - int r) (int (length out)) out = Inr (drop (length out - r) out)"
      unfolding i using go_slice_nat [of "length out - r" "length out" out] 3 by simp
    moreover have "copy_at 0 final (drop (length out - r) out) = back_filled final r out"
      using 3 assms(2) by (simp add: copy_at_def back_filled_def Let_def)
    moreover have "out \<noteq> []" using 3 by auto
    ultimately show ?thesis using 3 by (simp add: fill_back_def w Let_def)
  qed
qed

text \<open>
  Seeking back from \<open>e\<close> records behind the end of \<open>k\<close> unread records by \<open>b\<close> and these \<open>e\<close>: the position is the start of the next block.
\<close>

lemma seekBackward_step:
  assumes "fpos (psFile s) = p + n * (k + e)" "0 < n"
  shows "seekBackward (int (n * (b + e))) (int p) s = Inr (int (n * (min k b + e)), int (p + n * (k - b)),
    s\<lparr>psFile := (psFile s)\<lparr>fpos := p + n * (k - b)\<rparr>\<rparr>)"
proof (cases "k \<le> b")
  case True
  then have "n * (k + e) \<le> n * (b + e)" by simp
  then have "int (fpos (psFile s)) - int (n * (b + e)) \<le> int p" using assms(1) by linarith
  then show ?thesis using True assms by (simp add: seekBackward_def Let_def seek_to_def Seek_def min_def)
next
  case False
  then have "n * (b + e) < n * (k + e)" using assms(2) by simp
  then have a: "\<not> int (fpos (psFile s)) - int (n * (b + e)) \<le> int p" using assms(1) by linarith
  obtain j where "k = b + j" using False by (metis le_Suc_ex nat_le_linear)
  then have "int (p + n * (k + e)) - int (n * (b + e)) = int (p + n * (k - b))" by (simp add: distrib_left)
  then show ?thesis using a False assms by (simp add: seekBackward_def Let_def seek_to_def Seek_def min_def del: of_nat_mult of_nat_add)
qed

lemma length_packed: "\<forall>r \<in> set recs. length r = n \<Longrightarrow> 8 \<le> n \<Longrightarrow> length (packed loc iop tbi recs) \<le> n * length recs"
  by (induction recs) (auto simp: length_stamped)


text \<open>
  The loop, with \<open>k\<close> records from position \<open>p\<close> still to be read and the file standing at the start of the last block of them.
\<close>

lemma backward_loop_found:
  assumes "iopRecordLen iop = int n" "8 \<le> n" "0 < b" "2 * (n * b) < 2 ^ 31"
    and "0 < k" "length (psBuffer s) = n * b" "p + n * k \<le> length (fdata (psFile s))" "fpos (psFile s) = p + n * (k - b)"
    and "r \<le> length final" "out = packed loc iop (fpInfo (psPlan s)) (chunks n k (drop p (fdata (psFile s))))"
  shows "\<exists>br' io'. backward_loop loc iop (int (n * b)) (int p) (int (n * min k b)) (int (p + n * (k - b))) final (int r) br s
      = Some (Inr (Some (back_filled final r out), r \<le> length out, br', None, io'))
    \<and> length (sBuffer io') = n * b \<and> (if length out \<le> r then br' = br + int (length out) else br + int r < br')"
  using assms(5-)
proof (induction k arbitrary: s final r br out rule: less_induct)
  case (less k)
  let ?data = "fdata (psFile s)" and ?tbi = "fpInfo (psPlan s)" and ?q = "p + n * (k - b)" and ?m = "min k b"
  define blk where "blk = packed loc iop ?tbi (chunks n ?m (drop ?q ?data))"
  have n0: "0 < n" using assms(2) by simp
  have q: "?q + n * ?m = p + n * k" by (simp add: min_def add_mult_distrib2 [symmetric])
  from packingReader_packs [OF assms(1-3), of ?m "s\<lparr>packedBuffer := []\<rparr>" "int (n * ?m)" 0 loc] less.prems(1-4) assms(3) q
  obtain s1 where s1: "packingReader loc iop (int (n * ?m)) 0 (s\<lparr>packedBuffer := []\<rparr>) = Inr (s1, None)"
    "fdata (psFile s1) = ?data" "length (psBuffer s1) = n * b" "fpInfo (psPlan s1) = ?tbi" "packedBuffer s1 = blk"
    "fpos (psFile s1) = ?q + min (n * b) (length ?data - ?q)"
    by (auto simp: blk_def)
  have "n * ?m \<le> length (drop ?q ?data)" using less.prems(3) q by simp
  then have "length blk \<le> n * ?m" unfolding blk_def using length_packed [OF chunks_full assms(2)] by (metis length_chunks)
  also have "\<dots> \<le> n * b" by simp
  finally have lb: "length blk < 2 ^ 31" using assms(4) by linarith
  note fb = fill_back_eq [OF lb less.prems(5)]
  have w: "to_int32 (int (length blk)) = int (length blk)" using lb by (simp add: go_int)
  have pq: "int ?q = int p \<longleftrightarrow> k \<le> b" using n0 by simp
  show ?case
  proof (cases "k \<le> b")
    case True
    then have "blk = out" using less.prems(6) by (simp add: blk_def)
    then show ?thesis
      using s1 fb w pq True by (subst backward_loop.simps) (auto simp: Let_def io_of_def)
  next
    case False
    have out: "out = packed loc iop ?tbi (chunks n (k - b) (drop p ?data)) @ blk"
    proof -
      have "chunks n k (drop p ?data) = chunks n (k - b) (drop p ?data) @ chunks n b (drop ?q ?data)"
        using chunks_add [of n "k - b" b "drop p ?data"] False by (simp add: add.commute)
      then show ?thesis using False less.prems(6) by (simp add: blk_def min_def)
    qed
    show ?thesis
    proof (cases "r < length blk")
      case True
      then have "back_filled final r out = back_filled final r blk" "r \<le> length out" "\<not> length out \<le> r"
        by (auto simp: back_filled_def out)
      then show ?thesis using s1 fb w True by (subst backward_loop.simps) (auto simp: Let_def io_of_def)
    next
      case more: False
      let ?s2 = "s1\<lparr>psFile := (psFile s1)\<lparr>fpos := p + n * (k - b - b)\<rparr>\<rparr>"
      have "n * b \<le> length ?data - ?q" using less.prems(3) q False by (simp add: min_def)
      then have "fpos (psFile s1) = p + n * ((k - b) + b)" using s1(6) by (simp add: distrib_left)
      from seekBackward_step [OF this n0, of b]
      moreover have w2: "to_int32 (2 * int (n * b)) = int (n * (b + b))"
      proof -
        have "to_int32 (int (2 * (n * b))) = int (2 * (n * b))" using assms(4) by (intro to_int_id(3)) (simp_all flip: of_nat_mult)
        moreover have "2 * int (n * b) = int (2 * (n * b))" "2 * (n * b) = n * (b + b)" by (simp_all add: distrib_left)
        ultimately show ?thesis by metis
      qed
      ultimately have sk: "seekBackward (to_int32 (2 * int (n * b))) (int p) s1
          = Inr (int (n * (min (k - b) b + b)), int (p + n * (k - b - b)), ?s2)"
        by (simp only:)
      have "int (n * (min (k - b) b + b)) - int (n * b) = int (n * min (k - b) b)" by (simp add: distrib_left)
      then have run: "backward_loop loc iop (int (n * b)) (int p) (int (n * ?m)) (int ?q) final (int r) br s
          = backward_loop loc iop (int (n * b)) (int p) (int (n * min (k - b) b)) (int (p + n * (k - b - b)))
              (back_filled final r blk) (int (r - length blk)) (br + int (length blk)) ?s2"
        using s1(1,5) fb w pq False more sk
        by (subst backward_loop.simps) (simp add: Let_def del: of_nat_add of_nat_mult)
      have ih: "k - b < k" "0 < k - b" "p + n * (k - b) \<le> length (fdata (psFile ?s2))" "fpos (psFile ?s2) = p + n * (k - b - b)"
          "length (psBuffer ?s2) = n * b" "r - length blk \<le> length (back_filled final r blk)"
        using assms(3) False less.prems(3,5) s1 by (auto simp: length_back_filled intro: order_trans [OF _ less.prems(3)])
      let ?o1 = "packed loc iop ?tbi (chunks n (k - b) (drop p ?data))"
      from less.IH [OF ih(1,2,5,3,4,6) refl, of "br + int (length blk)"] obtain br' io' where
        "backward_loop loc iop (int (n * b)) (int p) (int (n * ?m)) (int ?q) final (int r) br s
          = Some (Inr (Some (back_filled final r out), r - length blk \<le> length ?o1, br', None, io'))"
        "length (sBuffer io') = n * b"
        and br: "if length ?o1 \<le> r - length blk then br' = br + int (length blk) + int (length ?o1)
          else br + int (length blk) + int (r - length blk) < br'"
        unfolding run out back_filled_append [OF less.prems(5), symmetric] by (auto simp: s1(2,4))
      moreover have "r - length blk \<le> length ?o1 \<longleftrightarrow> r \<le> length out" by (auto simp: out)
      moreover have "if length out \<le> r then br' = br + int (length out) else br + int r < br'"
        using br more unfolding out length_append by (auto split: if_splits)
      ultimately show ?thesis by auto
    qed
  qed
qed


lemma back_start:
  assumes "0 < n"
  shows "seekBackward (int (n * b)) (int p) (fst (seek_to (int p + int (n * k)) (start_pack [] content iofp io)))
    = Inr (int (n * min k b), int (p + n * (k - b)),
        (start_pack [] content iofp io)\<lparr>psFile := \<lparr>fdata = content, fpos = p + n * (k - b)\<rparr>\<rparr>)"
proof -
  let ?s = "(start_pack [] content iofp io)\<lparr>psFile := \<lparr>fdata = content, fpos = p + n * k\<rparr>\<rparr>"
  have "fst (seek_to (int (p + n * k)) (start_pack [] content iofp io)) = ?s"
    by (simp add: seek_to_def Seek_def start_pack_def del: of_nat_add of_nat_mult)
  then have "fst (seek_to (int p + int (n * k)) (start_pack [] content iofp io)) = ?s" by simp
  then show ?thesis using seekBackward_step [of ?s p n k 0 b] assms by simp
qed

lemma readBackward_found:
  assumes "iopRecordLen iop = int n" "8 \<le> n" "0 < b" "2 * (n * b) < 2 ^ 31"
    and "length (sBuffer io) = n * b" "scannable fs n iofp" "final = None \<and> base = replicate r 0 \<or> final = Some base" "r \<le> length base"
    and "out = concat (file_found loc fs iop iofp)"
  shows "\<exists>br io'. readBackward loc fs iop final iofp (int r) io
      = Some (Inr (Some (back_filled base r out), r \<le> length out, br, None, io'))
    \<and> length (sBuffer io') = n * b \<and> (if length out \<le> r then br = int (length out) else int r < br)"
proof -
  obtain content p k where f: "fs (fpFullPath iofp) = Some content" "fpOffset iofp = int p" "fpLength iofp = int (n * k)" "0 < k"
    "p + n * k \<le> length content" "file_records fs n iofp = chunks n k (drop p content)"
    using assms(2) by (rule_tac scannableE [OF assms(6)]) auto
  let ?s' = "(start_pack [] content iofp io)\<lparr>psFile := \<lparr>fdata = content, fpos = p + n * (k - b)\<rparr>\<rparr>"
  have n0: "0 < n" using assms(2) by simp
  have "out = packed loc iop (fpInfo (psPlan ?s')) (chunks n k (drop p (fdata (psFile ?s'))))"
    by (simp add: assms(1,9) file_found_def packed_def f(6) start_pack_def)
  from backward_loop_found [OF assms(1-4) f(4) _ _ _ assms(8) this, of 0, unfolded add_0] f(5) assms(5)
  obtain br io' where "backward_loop loc iop (int (n * b)) (int p) (int (n * min k b)) (int (p + n * (k - b))) base (int r) 0 ?s'
      = Some (Inr (Some (back_filled base r out), r \<le> length out, br, None, io'))"
    "length (sBuffer io') = n * b" "if length out \<le> r then br = int (length out) else int r < br"
    by (auto simp: start_pack_def)
  moreover have "(case final of None \<Rightarrow> replicate (nat (int r)) 0 | Some x \<Rightarrow> x) = base" using assms(7) by auto
  ultimately show ?thesis
    using f(1-3) back_start [OF n0, of b p k content iofp io] assms(5,7) by (auto simp: readBackward_def Let_def simp del: of_nat_mult of_nat_add)
qed

text \<open>The files from the last one; the bytes still to be filled are negative when the last block had more than was missing.\<close>

lemma backward_files_found:
  assumes "iopRecordLen iop = int n" "8 \<le> n" "0 < b" "2 * (n * b) < 2 ^ 31" "iopRecordType iop \<noteq> VARIABLE"
    and "list_all (scannable fs n) fps" "length (sBuffer io) = n * b"
    and "final = None \<and> base = replicate r 0 \<or> final = Some base" "r \<le> length base" "fps \<noteq> []"
    and "out = concat (found loc fs iop (rev fps))"
  shows "\<exists>left io'. backward_files loc fs iop (int r) fps final [] io = Some (Inr (Some (back_filled base r out), left, [], io'))
    \<and> (if length out \<le> r then left = int (r - length out) else left \<le> 0)"
  using assms(6-11)
proof (induction fps arbitrary: final base r io out)
  case (Cons f fps)
  define o2 where "o2 = concat (file_found loc fs iop f)"
  from readBackward_found [OF assms(1-4) Cons.prems(2) _ Cons.prems(3,4) o2_def] Cons.prems(1)
  obtain br io' where io': "readBackward loc fs iop final f (int r) io
      = Some (Inr (Some (back_filled base r o2), r \<le> length o2, br, None, io'))"
    "length (sBuffer io') = n * b" "if length o2 \<le> r then br = int (length o2) else int r < br"
    by auto
  have out: "out = concat (found loc fs iop (rev fps)) @ o2" by (simp add: Cons.prems(6) o2_def)
  have nb: "noted_back fs iop f x br l [] = Inr (l, [])" for x l using assms(5) by (simp add: noted_back_def)
  show ?case
  proof (cases "r \<le> length o2")
    case True
    then have "back_filled base r out = back_filled base r o2" by (simp add: back_filled_def out)
    then show ?thesis using True io' nb by (auto simp: out split: if_splits)
  next
    case less: False
    then have br: "int r - br = int (r - length o2)" using io'(3) by simp
    have e: "length out \<le> r \<longleftrightarrow> length (concat (found loc fs iop (rev fps))) \<le> r - length o2" using less by (auto simp: out)
    show ?thesis
    proof (cases "fps = []")
      case True
      then show ?thesis using less io'(1) nb br by (auto simp: out)
    next
      case False
      have "r - length o2 \<le> length (back_filled base r o2)" using Cons.prems(4) by (simp add: length_back_filled)
      with Cons.IH [OF _ io'(2) _ this False refl, of "Some (back_filled base r o2)"] Cons.prems(1)
      obtain left io'' where "backward_files loc fs iop (int (r - length o2)) fps (Some (back_filled base r o2)) [] io'
          = Some (Inr (Some (back_filled base r out), left, [], io''))"
        "if length out \<le> r then left = int (r - length o2 - length (concat (found loc fs iop (rev fps)))) else left \<le> 0"
        unfolding out back_filled_append [OF Cons.prems(4), symmetric] e [unfolded out] by auto
      moreover have "r - length o2 - length (concat (found loc fs iop (rev fps))) = r - length out" by (simp add: out)
      ultimately show ?thesis using less io'(1) nb br by (auto simp del: of_nat_diff)
    qed
  qed
qed simp


section \<open>Properties\<close>

text \<open>A plan for fixed records whose files can be scanned, with a buffer of the size the reader gives it.\<close>

definition plan_ok :: "disk \<Rightarrow> ioplan \<Rightarrow> scan_io \<Rightarrow> nat \<Rightarrow> bool" where
  "plan_ok fs iop io n \<longleftrightarrow> iopRecordLen iop = int n \<and> 8 \<le> n \<and> n < 2 ^ 19 \<and> iopRecordType iop \<noteq> VARIABLE
     \<and> list_all (scannable fs n) (FilePlan iop) \<and> 2000 * n \<le> length (sBuffer io)"

lemma plan_block:
  assumes "plan_ok fs iop io n"
  shows "go_slice 0 (to_int32 (RecordsPerRead * iopRecordLen iop)) (sBuffer io) = Inr (take (n * 2000) (sBuffer io))"
    "length (take (n * 2000) (sBuffer io)) = n * 2000" "2 * (n * 2000) < 2 ^ 31"
proof -
  have "to_int32 (RecordsPerRead * iopRecordLen iop) = int (n * 2000)"
    using assms by (simp add: plan_ok_def RecordsPerRead_def go_int)
  then show "go_slice 0 (to_int32 (RecordsPerRead * iopRecordLen iop)) (sBuffer io) = Inr (take (n * 2000) (sBuffer io))"
    using assms go_slice_nat [of 0 "n * 2000" "sBuffer io"] by (simp add: plan_ok_def)
qed (use assms in \<open>simp_all add: plan_ok_def\<close>)

lemma limit_bytes: "0 \<le> m \<Longrightarrow> int n * m < 2 ^ 31 \<Longrightarrow> to_int32 (int n * m) = int (n * nat m)"
proof -
  assume m: "0 \<le> m" "int n * m < 2 ^ 31"
  then have "0 \<le> int n * m" by simp
  with m(2) have "to_int32 (int n * m) = int n * m" by (intro to_int_id(3)) linarith+
  then show ?thesis using m(1) by simp
qed

text \<open>
  C5: A forward scan with a limit of \<open>N\<close> returns the first \<open>N\<close> of the records of the planned parts of the files that are not empty and pass
  the time qualifiers, each with its time in place of its index, in the order of the files; with no limit it returns all of them.
  No record is lost or repeated at the border of a block.
\<close>

theorem forward_scan:
  assumes "plan_ok fs iop io n" "iopLimit iop = Some lim" "limDirection lim = FIRST"
    and "limNumber lim = MaxInt32 \<or> 0 \<le> limNumber lim \<and> int n * limNumber lim < 2 ^ 31"
    and "n * length (found loc fs iop (FilePlan iop)) < 2 ^ 31 - 1"
  shows "\<exists>io'. scan_plan loc fs iop io = Some (Inr (concat (if limNumber lim = MaxInt32 then found loc fs iop (FilePlan iop)
      else take (nat (limNumber lim)) (found loc fs iop (FilePlan iop))), [], None, io'))"
proof -
  let ?F = "found loc fs iop (FilePlan iop)" and ?io = "io\<lparr>sBuffer := take (n * 2000) (sBuffer io)\<rparr>"
  define limit where "limit = (if limNumber lim = MaxInt32 then MaxInt32 else to_int32 (iopRecordLen iop * limNumber lim))"
  have ok: "iopRecordLen iop = int n" "8 \<le> n" "iopRecordType iop \<noteq> VARIABLE" "list_all (scannable fs n) (FilePlan iop)"
    using assms(1) by (auto simp: plan_ok_def)
  have len: "\<forall>r \<in> set ?F. length r = n" by (rule found_lengths [OF ok(4,1,2)])
  then have tot: "length (concat ?F) = n * length ?F" by (rule length_concat_equal)
  have lim0: "0 \<le> limit" "take (nat limit) (concat ?F) = concat (if limNumber lim = MaxInt32 then ?F else take (nat (limNumber lim)) ?F)"
  proof (atomize (full), cases "limNumber lim = MaxInt32")
    case True
    then show "0 \<le> limit \<and> take (nat limit) (concat ?F) = concat (if limNumber lim = MaxInt32 then ?F else take (nat (limNumber lim)) ?F)"
      using assms(5) tot by (simp add: limit_def MaxInt32_def)
  next
    case False
    then have "limit = int (n * nat (limNumber lim))" using assms(4) ok(1) limit_bytes by (simp add: limit_def)
    then show "0 \<le> limit \<and> take (nat limit) (concat ?F) = concat (if limNumber lim = MaxInt32 then ?F else take (nat (limNumber lim)) ?F)"
      using False take_concat_equal [OF len] by (simp del: of_nat_mult)
  qed
  have "\<exists>io'. forward_files loc fs iop limit (FilePlan iop) [] [] None ?io = Inr (take (nat limit) ([] @ concat ?F), [], None, io')"
    by (rule forward_files_found [OF ok(1,2) _ ok(3) lim0(1) ok(4), of 2000])
      (use assms(5) tot plan_block(2) [OF assms(1)] lim0(1) in simp_all)
  then show ?thesis
    using plan_block(1) [OF assms(1)] assms(2,3) lim0(2) by (auto simp: scan_plan_def limit_def Let_def)
qed


text \<open>Three slots of minute bars at the start of 1970, the second one empty, and a plan for them.\<close>

definition sample_bars :: bytes where "sample_bars = le_bytes 8 1 @ le_bytes 8 0 @ le_bytes 8 3"

definition sample_file :: TimeBucketInfo where
  "sample_file = zero_info\<lparr>tbYear := 1970, tbPath := ''f'', IsRead := True, timeframe := Minute, recordLength := 8, once_done := True\<rparr>"

definition sample_iofp :: ioFilePlan where
  "sample_iofp = \<lparr>fpInfo = sample_file, fpOffset = 0, fpLength = 24, fpFullPath = ''f'', BaseTime = 0, seekingLast = True\<rparr>"

definition sample_plan :: "RowLimit \<Rightarrow> ioplan" where
  "sample_plan lim = \<lparr>FilePlan = [sample_iofp], iopRecordLen = 8, iopRecordType = FIXED, VariableRecordLen = 0, iopLimit = Some lim,
     iopTimeQuals = []\<rparr>"

definition sample_io :: "nat \<Rightarrow> scan_io" where
  "sample_io b = \<lparr>sHints = \<lparr>EnableLastKnown = True, lastKnownMap = (\<lambda>_. None)\<rparr>, sBuffer = replicate b 0\<rparr>"

abbreviation sample_disk :: disk where "sample_disk \<equiv> (\<lambda>_. None)(''f'' \<mapsto> sample_bars)"

lemma sample_bars_chunks: "chunks 8 3 sample_bars = [le_bytes 8 1, le_bytes 8 0, le_bytes 8 3]" "length sample_bars = 24"
  by (simp_all add: sample_bars_def numeral_3_eq_3 del: le_bytes.simps)

lemma sample_found: "found UTC sample_disk (sample_plan lim) [sample_iofp] = [le_bytes 8 0, le_bytes 8 120]"
proof -
  have "Unix (IndexToTime UTC 1 Minute 1970) = 0" "Unix (IndexToTime UTC 3 Minute 1970) = 120" by code_simp+
  then show ?thesis
    by (simp add: file_found_def file_records_def sample_iofp_def sample_plan_def sample_file_def sample_bars_chunks is_valid_def
        checkTimeQuals_def stamped_def record_epoch_def read_le_bytes go_int del: le_bytes.simps)
qed

lemma sample_plan_ok: "plan_ok sample_disk (sample_plan lim) (sample_io 16000) 8"
  by (simp add: plan_ok_def sample_plan_def sample_io_def scannable_def sample_iofp_def sample_bars_chunks)

theorem forward_scan_witness:
  "\<exists>io'. scan_plan UTC sample_disk (sample_plan \<lparr>limNumber = 1, limDirection = FIRST\<rparr>) (sample_io 16000)
     = Some (Inr (le_bytes 8 0, [], None, io'))"
  using forward_scan [OF sample_plan_ok, of "\<lparr>limNumber = 1, limDirection = FIRST\<rparr>" _ UTC]
    sample_found [of "\<lparr>limNumber = 1, limDirection = FIRST\<rparr>"]
  by (simp add: sample_plan_def MaxInt32_def del: le_bytes.simps)

text \<open>
  C6: A backward scan with a limit of \<open>N\<close> ends and returns the last \<open>N\<close> of these records, in the order of the files, however many blocks and files
  they are spread over, and all of them when there are fewer.
\<close>

theorem backward_scan:
  assumes "plan_ok fs iop io n" "iopLimit iop = Some lim" "limDirection lim = LAST"
    and "0 \<le> limNumber lim" "int n * limNumber lim < 2 ^ 31" "limNumber lim \<noteq> MaxInt32"
  shows "\<exists>io'. scan_plan loc fs iop io = Some (Inr (concat (let F = found loc fs iop (FilePlan iop)
      in drop (length F - nat (limNumber lim)) F), [], None, io'))"
proof -
  let ?F = "found loc fs iop (FilePlan iop)" and ?io = "io\<lparr>sBuffer := take (n * 2000) (sBuffer io)\<rparr>" and ?N = "nat (limNumber lim)"
  have ok: "iopRecordLen iop = int n" "8 \<le> n" "iopRecordType iop \<noteq> VARIABLE" "list_all (scannable fs n) (FilePlan iop)"
    using assms(1) by (auto simp: plan_ok_def)
  have len: "\<forall>r \<in> set ?F. length r = n" by (rule found_lengths [OF ok(4,1,2)])
  then have tot: "length (concat ?F) = n * length ?F" by (rule length_concat_equal)
  have lim: "to_int32 (iopRecordLen iop * limNumber lim) = int (n * ?N)" using assms(4,5) ok(1) limit_bytes by simp
  have scan: "scan_plan loc fs iop io = (case backward_files loc fs iop (int (n * ?N)) (rev (FilePlan iop)) None [] ?io of
      None \<Rightarrow> None | Some (Inl e) \<Rightarrow> Some (Inl e)
    | Some (Inr (resultBuffer, left, bufMeta, io)) \<Rightarrow>
        let b = (case resultBuffer of None \<Rightarrow> [] | Some b \<Rightarrow> b)
        in Some (Inr (if 0 < left \<and> 0 < length b then drop (nat left) b else b, bufMeta, None, io)))"
    using plan_block(1) [OF assms(1)] assms(2,3,6) lim ok(3)
    by (simp add: scan_plan_def Let_def del: of_nat_mult split: option.splits sum.splits prod.splits)
  have res: "drop (length (concat ?F) - n * ?N) (concat ?F) = concat (drop (length ?F - ?N) ?F)"
    using drop_concat_equal [OF len, of "length ?F - ?N"] by (simp add: tot diff_mult_distrib2)
  show ?thesis
  proof (cases "FilePlan iop = []")
    case True
    then show ?thesis unfolding scan by simp
  next
    case False
    let ?out = "concat ?F" and ?r = "n * ?N"
    from backward_files_found [OF ok(1,2) _ plan_block(3) [OF assms(1)] ok(3), of fs "rev (FilePlan iop)" ?io None "replicate ?r 0" ?r ?out loc]
      ok(4) plan_block(2) [OF assms(1)] False
    obtain left io' where bf: "backward_files loc fs iop (int ?r) (rev (FilePlan iop)) None [] ?io
        = Some (Inr (Some (back_filled (replicate ?r 0) ?r ?out), left, [], io'))"
      "if length ?out \<le> ?r then left = int (?r - length ?out) else left \<le> 0" by auto
    have "(if 0 < left \<and> 0 < length (back_filled (replicate ?r 0) ?r ?out) then drop (nat left) (back_filled (replicate ?r 0) ?r ?out)
        else back_filled (replicate ?r 0) ?r ?out) = drop (length ?out - ?r) ?out"
      by (rule back_filled_cut [OF bf(2)]) simp
    then show ?thesis unfolding scan bf(1) by (auto simp: res Let_def)
  qed
qed


theorem backward_scan_witness:
  "\<exists>io'. scan_plan UTC sample_disk (sample_plan \<lparr>limNumber = 1, limDirection = LAST\<rparr>) (sample_io 16000)
     = Some (Inr (le_bytes 8 120, [], None, io'))"
  using backward_scan [OF sample_plan_ok, of "\<lparr>limNumber = 1, limDirection = LAST\<rparr>" _ UTC]
    sample_found [of "\<lparr>limNumber = 1, limDirection = LAST\<rparr>"]
  by (simp add: sample_plan_def MaxInt32_def Let_def del: le_bytes.simps)

section \<open>The backward scan ends\<close>

lemma read_block_short:
  "read_block s = (n, s') \<Longrightarrow> n < length (psBuffer s) \<Longrightarrow> length (fdata (psFile s')) \<le> fpos (psFile s')"
  by (auto simp: read_block_def read_at_def Let_def)

text \<open>A read of at most one block moves the file by at most one block.\<close>

lemma packingReader_moves:
  assumes "packingReader loc iop maxRead tot s = Inr (s', err)" "maxRead - tot \<le> int (length (psBuffer s))"
  shows "fpos (psFile s') \<le> fpos (psFile s) + length (psBuffer s) \<and> length (psBuffer s') = length (psBuffer s)"
proof -
  obtain n s1 where rb: "read_block s = (n, s1)" by (cases "read_block s") auto
  note pr = read_block_progress [OF rb]
  have n: "n \<le> length (psBuffer s)" using rb by (auto simp: read_block_def read_at_def Let_def)
  show ?thesis
  proof (cases "n = 0 \<or> int n < iopRecordLen iop")
    case True
    then have "s' = s1" using assms(1) rb by (subst (asm) packingReader.simps) (auto simp: Let_def split: if_splits)
    then show ?thesis using pr n by simp
  next
    case False
    with assms(1) rb obtain nn s2 where s2: "pack_records loc iop nn [0..<nat (nn sdiv iopRecordLen iop)] s1 = Inr s2"
      "if maxRead - (tot + int n) \<le> 0 then s' = s2 else packingReader loc iop maxRead (tot + int n) s2 = Inr (s', err)"
      by (subst (asm) packingReader.simps) (auto simp: Let_def split: if_splits sum.splits)
    note fr = pack_records_frame [OF s2(1)]
    show ?thesis
    proof (cases "maxRead - (tot + int n) \<le> 0")
      case True
      then show ?thesis using s2(2) pr n fr by simp
    next
      case left: False
      then have "n < length (psBuffer s)" using assms(2) by linarith
      then have "fst (read_block s2) = 0"
        using read_block_short [OF rb] fr by (simp add: read_block_def read_at_def Let_def)
      moreover have "packingReader loc iop maxRead (tot + int n) s2 = Inr (s', err)" using left s2(2) by simp
      ultimately have "s' = snd (read_block s2)" by (subst (asm) packingReader.simps) (auto simp: Let_def split: prod.splits)
      then show ?thesis using read_block_progress [of s2 0 s'] \<open>fst (read_block s2) = 0\<close> pr n fr by (simp add: prod_eq_iff)
    qed
  qed
qed

lemma seekBackward_bounds:
  assumes "seekBackward rel lower s = Inr (amt, cur, s')" "0 \<le> rel"
  shows "cur = int (fpos (psFile s')) \<and> amt \<le> rel \<and> psBuffer s' = psBuffer s
    \<and> (cur = lower \<or> lower < cur \<and> cur = int (fpos (psFile s)) - rel)"
  using assms by (auto simp: seekBackward_def seek_to_def Seek_def Let_def split: if_splits)

lemma backward_loop_ends:
  assumes "0 < M" "2 * M < 2 ^ 31" "M = int (length (psBuffer s))" "maxToRead \<le> M" "cur = int (fpos (psFile s))"
  shows "backward_loop loc iop M p maxToRead cur final r br s \<noteq> None"
  using assms(3-5)
proof (induction "if cur = p then 0 else Suc (nat (cur - p))" arbitrary: maxToRead cur final r br s rule: less_induct)
  case less
  show ?case
  proof (cases "packingReader loc iop maxToRead 0 (s\<lparr>packedBuffer := []\<rparr>)")
    case (Inr a)
    obtain s1 err where a: "a = (s1, err)" by (cases a) auto
    have s1: "fpos (psFile s1) \<le> fpos (psFile s) + length (psBuffer s)" "length (psBuffer s1) = length (psBuffer s)"
      using packingReader_moves [OF Inr [unfolded a]] less.prems(1,2) by auto
    have rel: "to_int32 (2 * M) = 2 * M" using assms(1,2) by (intro to_int_id(3)) linarith+
    have "backward_loop loc iop M p (amt - M) cur' final' r' br' s2 \<noteq> None"
      if sk: "seekBackward (2 * M) p s1 = Inr (amt, cur', s2)" and "cur \<noteq> p" for amt cur' s2 final' r' br'
    proof (rule less.hyps)
      have "0 \<le> 2 * M" using assms(1) by simp
      note b = seekBackward_bounds [OF sk this]
      have d: "p < cur' \<and> cur' < cur" if "cur' \<noteq> p"
      proof -
        have "p < cur'" "cur' = int (fpos (psFile s1)) - 2 * M" using b that by auto
        then show ?thesis using assms(1) s1(1) less.prems(1,3) by linarith
      qed
      show "(if cur' = p then 0 else Suc (nat (cur' - p))) < (if cur = p then 0 else Suc (nat (cur - p)))"
        using \<open>cur \<noteq> p\<close> d by (cases "cur' = p") auto
      show "M = int (length (psBuffer s2))" "amt - M \<le> M" "cur' = int (fpos (psFile s2))" using b s1(2) less.prems(1) by auto
    qed
    then show ?thesis using Inr a rel
      by (subst backward_loop.simps) (auto simp: Let_def split: option.splits sum.splits prod.splits)
  qed (subst backward_loop.simps, simp)
qed

text \<open>
  C18: A backward scan of a file always ends: with a buffer that is not empty the loop returns a result, an error or a panic, for every content of the
  file, every planned part, also one that does not lie in the file, and every limit.
\<close>

theorem backward_scan_ends:
  assumes "sBuffer io \<noteq> []" "2 * int (length (sBuffer io)) < 2 ^ 31"
  shows "\<exists>res. readBackward loc fs iop final iofp bytesToRead io = Some res"
proof -
  have "backward_loop loc iop (int (length (sBuffer io))) (fpOffset iofp) amt cur fin r 0 s' \<noteq> None"
    if "seekBackward (int (length (sBuffer io))) (fpOffset iofp) s = Inr (amt, cur, s')" "psBuffer s = sBuffer io" for s amt cur fin r s'
    using seekBackward_bounds [OF that(1)] that(2) assms by (intro backward_loop_ends) auto
  then have "readBackward loc fs iop final iofp bytesToRead io \<noteq> None"
    by (auto simp: readBackward_def Let_def seek_to_def start_pack_def split: option.splits sum.splits prod.splits)
  then show ?thesis by blast
qed


theorem backward_scan_ends_witness:
  "\<exists>res. readBackward UTC sample_disk (sample_plan NewRowLimit) None (sample_iofp\<lparr>fpLength := 1000\<rparr>) 8 (sample_io 16) = Some res"
  by (rule backward_scan_ends) (simp_all add: sample_io_def)

section \<open>The hint of a backward scan\<close>

text \<open>Packing records of which the first that counts is the one at \<open>i\<close>.\<close>

lemma pack_records_none:
  assumes "iopRecordLen iop = int n" "8 \<le> n" "\<forall>i \<in> set is. i * n + n \<le> length (psBuffer s)"
    and "\<forall>i \<in> set is. \<not> is_valid loc iop (fpInfo (psPlan s)) (take n (drop (i * n) (psBuffer s)))"
  shows "pack_records loc iop nn is s = Inr s"
  using assms(3,4) by (induction "is") (simp_all add: pack_record_valid [OF assms(1,2)])

lemma pack_records_hints:
  assumes "iopRecordLen iop = int n" "8 \<le> n" "\<forall>i \<in> set is. i * n + n \<le> length (psBuffer s)" "\<not> seekingLast (psPlan s)"
    and "pack_records loc iop nn is s = Inr s'"
  shows "psHints s' = psHints s"
  using assms(3-5)
proof (induction "is" arbitrary: s)
  case (Cons i "is")
  then obtain s1 where s1: "pack_record loc iop nn i s = Inr s1" "pack_records loc iop nn is s1 = Inr s'" by (auto simp: res_bind_Inr)
  then have "psHints s1 = psHints s" "psBuffer s1 = psBuffer s" "\<not> seekingLast (psPlan s1)"
    using Cons.prems pack_record_valid [OF assms(1,2), of i s loc nn] by (auto simp: note_last_def split: if_splits)
  then show ?case using Cons.IH [of s1] Cons.prems s1(2) by simp
qed simp

lemma pack_records_first:
  assumes "iopRecordLen iop = int n" "8 \<le> n" "k * n \<le> length (psBuffer s)" "i < k" "seekingLast (psPlan s)"
    and "\<forall>j < i. \<not> is_valid loc iop (fpInfo (psPlan s)) (take n (drop (j * n) (psBuffer s)))"
    and "is_valid loc iop (fpInfo (psPlan s)) (take n (drop (i * n) (psBuffer s)))"
    and "pack_records loc iop nn [0..<k] s = Inr s'"
  shows "psHints s' = SetLastKnown (fpFullPath (psPlan s)) (int (fpos (psFile s)) - nn + int (i * n)) (psHints s)"
proof -
  have room: "\<forall>j \<in> set [0..<k]. j * n + n \<le> length (psBuffer s)" using assms(3) by (auto intro: row_room)
  let ?rec = "take n (drop (i * n) (psBuffer s))"
  let ?s1 = "note_last (int n) nn i (s\<lparr>packedBuffer := packedBuffer s @ stamped loc (fpInfo (psPlan s)) ?rec\<rparr>)"
  have app: "pack_records loc iop nn (xs @ ys) s = res_bind (pack_records loc iop nn xs s) (pack_records loc iop nn ys)" for xs ys s
    by (induction xs arbitrary: s) (auto simp: res_bind_def split: sum.splits)
  have split: "[0..<k] = [0..<i] @ i # [Suc i..<k]" using assms(4) by (metis append.assoc less_imp_le_nat upt_conv_Cons upt_add_eq_append le_add_diff_inverse zero_le)
  have "pack_records loc iop nn [0..<i] s = Inr s"
    by (rule pack_records_none [OF assms(1,2)]) (use room assms(4,6) in auto)
  then have "pack_records loc iop nn [Suc i..<k] ?s1 = Inr s'"
    using assms(8) pack_record_valid [OF assms(1,2), of i s loc nn] room assms(4,7) unfolding split app by simp
  then have "psHints s' = psHints ?s1"
    by (rule pack_records_hints [OF assms(1,2), rotated 2]) (use room in \<open>auto simp: note_last_def\<close>)
  then show ?thesis using assms(5) by (simp add: note_last_def mult.commute)
qed


lemma packingReader_to_end:
  assumes "iopRecordLen iop = int n" "8 \<le> n" "0 < k" "k \<le> b" "length (psBuffer s) = n * b"
    and "fpos (psFile s) + n * k = length (fdata (psFile s))"
  obtains s1 s2 where "packingReader loc iop (int (n * k)) 0 s = Inr (s2, None)" "pack_records loc iop (int (n * k)) [0..<k] s1 = Inr s2"
    "psPlan s1 = psPlan s" "psHints s1 = psHints s" "fpos (psFile s1) = fpos (psFile s) + n * k"
    "take (n * k) (psBuffer s1) = drop (fpos (psFile s)) (fdata (psFile s))" "length (psBuffer s1) = n * b" "packedBuffer s1 = packedBuffer s"
proof -
  let ?d = "drop (fpos (psFile s)) (fdata (psFile s))"
  let ?s1 = "s\<lparr>psFile := (psFile s)\<lparr>fpos := fpos (psFile s) + n * k\<rparr>, psBuffer := ?d @ drop (n * k) (psBuffer s)\<rparr>"
  have nk: "n * k \<le> n * b" "0 < n" "n \<le> n * k" using assms(2-4) by simp_all
  have d: "length ?d = n * k" using assms(6) by simp
  have rb: "read_block s = (n * k, ?s1)"
    using read_block_eq [of ?d s] d nk(1) assms(5) by (simp add: read_at_def)
  have "\<forall>i \<in> set [0..<k]. i * n + n \<le> length (psBuffer ?s1)"
    using row_room [of _ k n "n * b"] nk(1) d assms(5) by (auto simp: mult.commute)
  from pack_records_packed [OF assms(1,2) this, of loc "int (n * k)"]
  obtain s2 where s2: "pack_records loc iop (int (n * k)) [0..<k] ?s1 = Inr s2" by blast
  moreover have "nat (int (n * k) sdiv int n) = k" using nk(2) by (simp add: sdiv_nonneg)
  ultimately have "packingReader loc iop (int (n * k)) 0 s = Inr (s2, None)"
    using rb assms(1,3) nk by (subst packingReader.simps) (simp add: Let_def del: of_nat_mult)
  then show thesis using s2 d nk assms(5) by (intro that [of s2 ?s1]) simp_all
qed

text \<open>
  C37: The hint that a backward scan leaves hides records. When a block ends at the end of the file, the hint is the place of the first record of the
  block that counts, not of the last one as \<^verbatim>\<open>SetLastKnown\<close> asks; every plan made with the hint then ends behind this first record, before
  any later record of the block.
\<close>

theorem last_known_hides_records:
  assumes "iopRecordLen iop = int n" "8 \<le> n" "length (sBuffer io) = n * b" "0 < k" "k \<le> b" "2 * (n * b) < 2 ^ 31"
    and "fs (fpFullPath iofp) = Some content" "fpOffset iofp = int p" "fpLength iofp = int (n * k)" "p + n * k = length content"
    and "seekingLast iofp" "EnableLastKnown (sHints io)" "lastKnownMap (sHints io) (fpFullPath iofp) = None"
    and "i < j" "j < k" "\<forall>m < i. \<not> is_valid loc iop (fpInfo iofp) (file_records fs n iofp ! m)"
    and "is_valid loc iop (fpInfo iofp) (file_records fs n iofp ! i)" "is_valid loc iop (fpInfo iofp) (file_records fs n iofp ! j)"
    and "tbPath tbi = fpFullPath iofp" "recordLength tbi = int n"
  shows "\<exists>out full br io'. readBackward loc fs iop None iofp (int r) io = Some (Inr (Some out, full, br, None, io'))
    \<and> GetLastKnown (sHints io') (fpFullPath iofp) = Some (int (p + n * i))
    \<and> end_offset loc (sHints io') rng tbi \<le> int (p + n * j)"
proof -
  let ?start = "start_pack [] content iofp io"
  let ?s = "?start\<lparr>psFile := \<lparr>fdata = content, fpos = p\<rparr>\<rparr>"
  have n0: "0 < n" using assms(2) by simp
  obtain s1 s2 where run: "packingReader loc iop (int (n * k)) 0 ?s = Inr (s2, None)" "pack_records loc iop (int (n * k)) [0..<k] s1 = Inr s2"
    "psPlan s1 = iofp" "psHints s1 = sHints io" "fpos (psFile s1) = p + n * k" "take (n * k) (psBuffer s1) = drop p content"
    "length (psBuffer s1) = n * b" "packedBuffer s1 = []"
    by (rule packingReader_to_end [OF assms(1,2,4,5), of ?s loc]) (use assms(3,10) in \<open>simp_all add: start_pack_def\<close>)
  have rec: "take n (drop (m * n) (psBuffer s1)) = file_records fs n iofp ! m" if "m < k" for m
  proof -
    have "file_records fs n iofp = chunks n k (take (n * k) (psBuffer s1))"
      using assms(7-9) n0 by (simp add: file_records_def run(6) nat_mult_distrib)
    also have "\<dots> = chunks n k (psBuffer s1)" by (rule chunks_take) simp
    finally show ?thesis using that by (simp add: chunks_nth)
  qed
  have "k * n \<le> length (psBuffer s1)" using assms(5) run(7) by (simp add: mult.commute)
  from pack_records_first [OF assms(1,2) this _ _ _ _ run(2), of i] assms(11,14-17) rec run(3-5)
  have "psHints s2 = SetLastKnown (fpFullPath iofp) (int (p + n * i)) (sHints io)" by (simp add: mult.commute)
  then have hint: "GetLastKnown (psHints s2) (fpFullPath iofp) = Some (int (p + n * i))"
    using assms(12,13) by (simp add: SetLastKnown_def GetLastKnown_def)
  have "n * (i + 1) \<le> n * j" using assms(14) by (intro mult_le_mono2) simp
  then have "int (p + n * i) + int n \<le> int (p + n * j)" by (simp only: distrib_left mult_1_right)
  with hint have e: "end_offset loc (psHints s2) rng tbi \<le> int (p + n * j)"
    using assms(19,20) by (simp add: end_offset_def Let_def min_def)
  have "packedBuffer s2 = packed loc iop (fpInfo iofp) (chunks n k (psBuffer s1))"
    using pack_records_packed [OF assms(1,2), of "[0..<k]" s1 loc "int (n * k)"] run \<open>k * n \<le> _\<close> row_room [of _ k n]
    by (auto simp: map_chunks)
  moreover have nk: "n * k \<le> n * b" using assms(5) by simp
  ultimately have "length (packedBuffer s2) \<le> n * k"
    using length_packed [OF chunks_full assms(2), of k "psBuffer s1" loc iop "fpInfo iofp"] run(7) by simp
  then have "length (packedBuffer s2) < 2 ^ 31" using nk assms(6) by linarith
  note fb = fill_back_eq [OF this, of r "replicate r 0", simplified]
  have "seekBackward (int (n * b)) (int p) (fst (seek_to (int p + int (n * k)) ?start)) = Inr (int (n * k), int p, ?s)"
    using back_start [OF n0, of b p k content iofp io] assms(5) by simp
  moreover have "?s\<lparr>packedBuffer := []\<rparr> = ?s" by (simp add: start_pack_def)
  ultimately show ?thesis
    using run(1) fb hint e assms(3,7-9)
    by (auto simp: readBackward_def Let_def io_of_def backward_loop.simps simp del: of_nat_mult of_nat_add)
qed


theorem last_known_hides_records_witness:
  "\<exists>out full br io'. readBackward UTC sample_disk (sample_plan NewRowLimit) None sample_iofp 8 (sample_io 32)
       = Some (Inr (Some out, full, br, None, io'))
     \<and> GetLastKnown (sHints io') ''f'' = Some 0 \<and> end_offset UTC (sHints io') (NewDateRange UTC) sample_file \<le> 16"
proof -
  have r: "file_records sample_disk 8 sample_iofp = [le_bytes 8 1, le_bytes 8 0, le_bytes 8 3]"
    by (simp add: file_records_def sample_iofp_def sample_bars_chunks del: le_bytes.simps)
  have f: "fpInfo sample_iofp = sample_file" "fpFullPath sample_iofp = ''f''" "fpOffset sample_iofp = int 0" "fpLength sample_iofp = int (8 * 3)"
    "seekingLast sample_iofp" "tbPath sample_file = ''f''" "recordLength sample_file = int 8" "iopRecordLen (sample_plan NewRowLimit) = int 8"
    by (simp_all add: sample_iofp_def sample_file_def sample_plan_def)
  have v: "is_valid UTC (sample_plan NewRowLimit) sample_file (le_bytes 8 1)" "is_valid UTC (sample_plan NewRowLimit) sample_file (le_bytes 8 3)"
    by (simp_all add: is_valid_def checkTimeQuals_def sample_plan_def go_int del: le_bytes.simps)
  from last_known_hides_records [where iop = "sample_plan NewRowLimit" and n = 8 and io = "sample_io 32" and b = 4 and k = 3
      and fs = sample_disk and iofp = sample_iofp and content = sample_bars and p = 0 and i = 0 and j = 2 and loc = UTC and tbi = sample_file
      and r = 8 and rng = "NewDateRange UTC", unfolded f r]
  show ?thesis using v sample_bars_chunks(2) by (simp add: sample_io_def f del: le_bytes.simps)
qed

section \<open>A file that can not be read\<close>

lemma forward_files_err: "fps \<noteq> [] \<Longrightarrow> forward_files loc fs iop limit fps final ms err io = forward_files loc fs iop limit fps final ms None io"
  by (cases fps) simp_all

lemma forward_files_append:
  assumes "iopRecordLen iop = int n" "8 \<le> n" "0 < b" "iopRecordType iop \<noteq> VARIABLE"
    and "list_all (scannable fs n) xs" "length (sBuffer io) = n * b" "ys \<noteq> []"
    and "int (length (final @ concat (found loc fs iop xs))) < limit" "limit < 2 ^ 31"
  shows "\<exists>io'. length (sBuffer io') = n * b \<and> forward_files loc fs iop limit (xs @ ys) final [] None io
    = forward_files loc fs iop limit ys (final @ concat (found loc fs iop xs)) [] None io'"
  using assms(5,6,8)
proof (induction xs arbitrary: final io)
  case (Cons f xs)
  let ?out = "final @ concat (file_found loc fs iop f)"
  have l: "int (length ?out) < limit" "length ?out < 2 ^ 31" using Cons.prems(3) assms(9) by simp_all
  with readForward_found [OF assms(1-3) Cons.prems(2), of fs f ?out final loc limit] Cons.prems(1)
  obtain io' where "length (sBuffer io') = n * b" "readForward loc fs iop final f limit io = Inr (?out, False, None, io')"
    by auto
  moreover from Cons.IH [OF _ this(1), of ?out] Cons.prems(1,3) obtain io'' where "length (sBuffer io'') = n * b"
    "forward_files loc fs iop limit (xs @ ys) ?out [] None io'
      = forward_files loc fs iop limit ys (?out @ concat (found loc fs iop xs)) [] None io''" by auto
  ultimately show ?case using assms(4) by (auto intro!: exI [of _ io''])
qed auto

text \<open>
  In a forward scan a file that can not be opened silently removes the data of all files before it: the buffer is dropped, the error is
  overwritten when the next file is read, and the scan returns the records of the files behind it with no error.
\<close>

theorem unreadable_file_drops_data:
  assumes "iopRecordLen iop = int n" "8 \<le> n" "n < 2 ^ 19" "iopRecordType iop \<noteq> VARIABLE" "2000 * n \<le> length (sBuffer io)"
    and "FilePlan iop = xs @ m # ys" "list_all (scannable fs n) (xs @ ys)" "ys \<noteq> []" "fs (fpFullPath m) = None"
    and "iopLimit iop = Some NewRowLimit" "n * length (found loc fs iop (xs @ ys)) < 2 ^ 31 - 1"
  shows "\<exists>io'. scan_plan loc fs iop io = Some (Inr (concat (found loc fs iop ys), [], None, io'))"
proof -
  let ?io = "io\<lparr>sBuffer := take (n * 2000) (sBuffer io)\<rparr>"
  have ok: "plan_ok fs (iop\<lparr>FilePlan := []\<rparr>) io n" using assms(1-5) by (simp add: plan_ok_def)
  have len: "length (concat (found loc fs iop zs)) = n * length (found loc fs iop zs)" if "list_all (scannable fs n) zs" for zs
    by (rule length_concat_equal, rule found_lengths [OF that assms(1,2)])
  have "list_all (scannable fs n) xs" "list_all (scannable fs n) ys" using assms(7) by simp_all
  note l = len [OF this(1)] len [OF this(2)]
  have "n * length (found loc fs iop xs) \<le> n * length (found loc fs iop (xs @ ys))"
    "n * length (found loc fs iop ys) \<le> n * length (found loc fs iop (xs @ ys))" by (intro mult_le_mono2, simp)+
  then have "length (concat (found loc fs iop xs)) < 2 ^ 31 - 1" "length (concat (found loc fs iop ys)) < 2 ^ 31 - 1"
    using l assms(11) by linarith+
  then have lim: "int (length ([] @ concat (found loc fs iop xs))) < MaxInt32" "length ([] @ concat (found loc fs iop ys)) < 2 ^ 31"
    "take (nat MaxInt32) (concat (found loc fs iop ys)) = concat (found loc fs iop ys)"
    by (simp_all add: MaxInt32_def)
  from forward_files_append [OF assms(1,2) _ assms(4), of 2000 fs xs ?io "m # ys" "[]" loc MaxInt32] assms(7) lim(1) plan_block(2) [OF ok]
  obtain io1 where io1: "length (sBuffer io1) = n * 2000" "forward_files loc fs iop MaxInt32 (xs @ m # ys) [] [] None ?io
      = forward_files loc fs iop MaxInt32 (m # ys) (concat (found loc fs iop xs)) [] None io1"
    by (auto simp: MaxInt32_def)
  have "forward_files loc fs iop MaxInt32 (m # ys) (concat (found loc fs iop xs)) [] None io1
      = forward_files loc fs iop MaxInt32 ys [] [] None io1"
    using assms(4,9) forward_files_err [OF assms(8)] by (simp add: readForward_def)
  moreover have "\<exists>io'. forward_files loc fs iop MaxInt32 ys [] [] None io1
      = Inr (take (nat MaxInt32) ([] @ concat (found loc fs iop ys)), [], None, io')"
    by (rule forward_files_found [OF assms(1,2) _ assms(4), of 2000]) (use assms(7) io1(1) lim(2) in \<open>simp_all add: MaxInt32_def\<close>)
  ultimately show ?thesis
    using plan_block(1) [OF ok] assms(6,10) io1(2) lim(3) by (auto simp: scan_plan_def Let_def NewRowLimit_def)
qed

text \<open>Two files of bars, with a file between them that is gone.\<close>

theorem unreadable_file_drops_data_witness:
  "\<exists>io'. scan_plan UTC (sample_disk(''g'' \<mapsto> sample_bars)) ((sample_plan NewRowLimit)\<lparr>FilePlan := [sample_iofp,
       sample_iofp\<lparr>fpFullPath := ''gone''\<rparr>, sample_iofp\<lparr>fpFullPath := ''g'', fpOffset := 16, fpLength := 8\<rparr>]\<rparr>) (sample_io 16000)
     = Some (Inr (le_bytes 8 120, [], None, io'))"
proof -
  let ?fs = "sample_disk(''g'' \<mapsto> sample_bars)" and ?g = "sample_iofp\<lparr>fpFullPath := ''g'', fpOffset := 16, fpLength := 8\<rparr>"
  let ?iop = "(sample_plan NewRowLimit)\<lparr>FilePlan := [sample_iofp, sample_iofp\<lparr>fpFullPath := ''gone''\<rparr>, ?g]\<rparr>"
  have d: "drop 16 sample_bars = le_bytes 8 3" by (simp add: sample_bars_def del: le_bytes.simps)
  have "Unix (IndexToTime UTC 3 Minute 1970) = 120" by code_simp
  then have f: "found UTC ?fs ?iop [?g] = [le_bytes 8 120]"
    by (simp add: file_found_def file_records_def sample_iofp_def sample_plan_def sample_file_def d is_valid_def
        checkTimeQuals_def stamped_def record_epoch_def read_le_bytes go_int del: le_bytes.simps)
  have "length (found UTC ?fs ?iop [sample_iofp]) \<le> 3"
    by (simp add: file_found_def file_records_def sample_iofp_def sample_plan_def sample_bars_chunks del: le_bytes.simps)
  then have "8 * length (found UTC ?fs ?iop ([sample_iofp] @ [?g])) < 2 ^ 31 - 1" unfolding found_simps(3) length_append f by simp
  from unreadable_file_drops_data [OF _ _ _ _ _ _ _ _ _ _ this, of "sample_io 16000" "sample_iofp\<lparr>fpFullPath := ''gone''\<rparr>"] f
  show ?thesis by (simp add: sample_plan_def sample_io_def scannable_def sample_iofp_def sample_bars_chunks del: le_bytes.simps)
qed

end
