(* ===== verification/ReadVariable.thy ===== *)
theory ReadVariable
  imports ScanLaws
begin

text \<open>
  The second stage of a read of variable-length data (\<^verbatim>\<open>executor/readvariable.go\<close> and \<^verbatim>\<open>executor/rewriteBuffer.c\<close>): the
  index records that the first stage found say where the data of each interval lies; it is read, decompressed, and every record gets its time, from the
  start of the interval and the ticks at its end. The arithmetic of this time in double precision (\<^verbatim>\<open>getTimeFromTicks\<close>) is
  the argument \<open>tt\<close>, from the start of the interval as a 32-bit number, the intervals of a day and the ticks, to seconds and nanoseconds.
\<close>

section \<open>Model\<close>

type_synonym ticks_time = "int \<Rightarrow> int \<Rightarrow> int \<Rightarrow> int \<times> int"

text \<open>\<^verbatim>\<open>rewriteBuffer\<close>; records have at least the four bytes of the ticks.\<close>

definition expand :: "ticks_time \<Rightarrow> int \<Rightarrow> int \<Rightarrow> nat \<Rightarrow> bytes \<Rightarrow> bytes" where
  "expand tt intervals intervalStartEpoch n rec =
     (let (epoch, nanos) = tt (intervalStartEpoch mod 2 ^ 32) intervals (ToUInt32 (drop (n - 4) rec))
      in le_bytes 8 epoch @ take (n - 4) rec @ le_bytes 4 nanos)"

definition rewriteBuffer :: "ticks_time \<Rightarrow> bytes \<Rightarrow> nat \<Rightarrow> nat \<Rightarrow> int \<Rightarrow> int \<Rightarrow> bytes" where
  "rewriteBuffer tt data n numVarRecords intervals intervalStartEpoch =
     concat (map (expand tt intervals intervalStartEpoch n) (chunks n numVarRecords data))"

text \<open>\<^verbatim>\<open>ReadAt\<close> of a file: fewer bytes than asked for are an error.\<close>

definition read_full :: "bytes \<Rightarrow> nat \<Rightarrow> int \<Rightarrow> bytes result" where
  "read_full content n off =
     (if off < 0 then Inl (Err ''negative offset'')
      else let d = read_at content (nat off) n in if length d < n then Inl EOFError else Inr d)"

text \<open>Index records are triples of start, offset and length.\<close>

definition entry_start :: "bytes \<Rightarrow> nat \<Rightarrow> int" where "entry_start b i = ToInt64 (drop (i * 24) b)"
definition entry_offset :: "bytes \<Rightarrow> nat \<Rightarrow> int" where "entry_offset b i = ToInt64 (drop (i * 24 + 8) b)"
definition entry_len :: "bytes \<Rightarrow> nat \<Rightarrow> int" where "entry_len b i = ToInt64 (drop (i * 24 + 16) b)"

text \<open>Forward, no more records are taken than are left to read.\<close>

definition at_most :: "DirectionEnum \<Rightarrow> int \<Rightarrow> int \<Rightarrow> int" where
  "at_most direction numberLeftToRead num = (if direction = FIRST \<and> numberLeftToRead \<le> num then numberLeftToRead else num)"

text \<open>The size of the buffer for the records of a file: exact without compression, four times the compressed data with it.\<close>

fun exact_size :: "DirectionEnum \<Rightarrow> int \<Rightarrow> bytes \<Rightarrow> nat list \<Rightarrow> int \<Rightarrow> int \<Rightarrow> int" where
  "exact_size direction varRecLen b [] numberLeftToRead totalDatalen = totalDatalen"
| "exact_size direction varRecLen b (i # is) numberLeftToRead totalDatalen =
     (let num = at_most direction numberLeftToRead (entry_len b i sdiv varRecLen)
      in exact_size direction varRecLen b is (numberLeftToRead - num) (totalDatalen + num * (varRecLen + 8)))"

definition result_size :: "codec option \<Rightarrow> DirectionEnum \<Rightarrow> int \<Rightarrow> int \<Rightarrow> bytes \<Rightarrow> nat list \<Rightarrow> int result" where
  "result_size cd direction limitCount varRecLen b is =
     (if cd = None
      then if varRecLen = 0 \<and> is \<noteq> [] then Inl (Panic ''integer divide by zero'')
           else Inr (exact_size direction varRecLen b is limitCount 0)
      else Inr (sum_list (map (entry_len b) is) * 4))"

text \<open>Appending to the result buffer, which is doubled once when it is too small.\<close>

definition append_rb :: "bytes \<Rightarrow> nat \<Rightarrow> bytes \<Rightarrow> bytes result" where
  "append_rb rb rbCursor rbTemp =
     (if length rb < rbCursor then Inl (Panic ''slice bounds out of range'')
      else let rb = (if length rb < rbCursor + length rbTemp then take rbCursor rb @ replicate (2 * length rb - rbCursor) 0 else rb)
           in Inr (copy_at rbCursor rb rbTemp))"

fun second_loop :: "codec option \<Rightarrow> ticks_time \<Rightarrow> DirectionEnum \<Rightarrow> bufferMeta \<Rightarrow> bytes \<Rightarrow> nat list \<Rightarrow> int \<Rightarrow> bytes \<Rightarrow> nat
    \<Rightarrow> (bytes \<times> nat) result" where
  "second_loop cd tt direction md content [] numberLeftToRead rb rbCursor = Inr (rb, rbCursor)"
| "second_loop cd tt direction md content (i # is) numberLeftToRead rb rbCursor =
     (let b = bmData md; varRecLen = VarRecLen md; datalen = entry_len b i
      in if datalen < 0 then Inl (Panic ''makeslice: len out of range'')
         else res_bind (read_full content (nat datalen) (entry_offset b i)) (\<lambda>data.
           res_bind (decode cd data) (\<lambda>data.
             if varRecLen = 0 then Inl (Panic ''integer divide by zero'')
             else
               let num = at_most direction numberLeftToRead (int (length data) sdiv varRecLen)
               in if num * (varRecLen + 8) < 0 then Inl (Panic ''makeslice: len out of range'')
                  else if data = [] \<or> num * (varRecLen + 8) = 0 then Inl (Panic ''index out of range'')
                  else
                    let rbTemp = rewriteBuffer tt data (nat varRecLen) (nat num) (Intervals md) (entry_start b i)
                    in res_bind (append_rb rb rbCursor rbTemp) (\<lambda>rb.
                      if direction = FIRST \<and> numberLeftToRead - num = 0 then Inr (rb, rbCursor + length rbTemp)
                      else second_loop cd tt direction md content is (numberLeftToRead - num) rb (rbCursor + length rbTemp)))))"

text \<open>The records of one file; the limit starts anew with each file.\<close>

definition second_file :: "codec option \<Rightarrow> ticks_time \<Rightarrow> disk \<Rightarrow> int \<Rightarrow> DirectionEnum \<Rightarrow> bufferMeta \<Rightarrow> bytes result" where
  "second_file cd tt fs limitCount direction md =
     (case fs (bmFullPath md) of
        None \<Rightarrow> Inl (NotExist (bmFullPath md))
      | Some content \<Rightarrow>
          let is = [0..<length (bmData md) div 24]
          in res_bind (result_size cd direction limitCount (VarRecLen md) (bmData md) is) (\<lambda>totalDatalen.
               if totalDatalen < 0 then Inl (Panic ''makeslice: len out of range'')
               else res_bind (second_loop cd tt direction md content is limitCount (replicate (nat totalDatalen) 0) 0) (\<lambda>(rb, rbCursor).
                 go_slice 0 (int rbCursor) rb)))"

definition readSecondStage :: "codec option \<Rightarrow> ticks_time \<Rightarrow> disk \<Rightarrow> bufferMeta list \<Rightarrow> int \<Rightarrow> DirectionEnum \<Rightarrow> bytes result" where
  "readSecondStage cd tt fs bufMeta limitCount direction =
     res_bind (res_map (second_file cd tt fs limitCount direction) bufMeta) (\<lambda>bufs.
       let totalBuf = concat bufs; varRecLen = (if bufMeta = [] then 0 else VarRecLen (last bufMeta))
       in if direction = LAST
          then let num = int (length totalBuf) sdiv (varRecLen + 8)
               in if limitCount < num then go_slice ((varRecLen + 8) * (num - limitCount)) (int (length totalBuf)) totalBuf
                  else Inr totalBuf
          else Inr totalBuf)"


section \<open>The rows of a file\<close>

text \<open>
  An index record is good for a file when it names a place in the file that holds, decompressed, a positive number of records.
\<close>

definition entry_data :: "codec option \<Rightarrow> bytes \<Rightarrow> bytes \<Rightarrow> nat \<Rightarrow> bytes result" where
  "entry_data cd content b i = res_bind (read_full content (nat (entry_len b i)) (entry_offset b i)) (decode cd)"

definition entry_ok :: "codec option \<Rightarrow> nat \<Rightarrow> bytes \<Rightarrow> bytes \<Rightarrow> nat \<Rightarrow> bool" where
  "entry_ok cd n content b i \<longleftrightarrow> 0 \<le> entry_len b i
     \<and> (case entry_data cd content b i of Inl _ \<Rightarrow> False | Inr d \<Rightarrow> d \<noteq> [] \<and> n dvd length d)"

definition entry_rows :: "codec option \<Rightarrow> ticks_time \<Rightarrow> bufferMeta \<Rightarrow> bytes \<Rightarrow> nat \<Rightarrow> bytes list" where
  "entry_rows cd tt md content i =
     (case entry_data cd content (bmData md) i of
        Inl _ \<Rightarrow> []
      | Inr d \<Rightarrow> map (expand tt (Intervals md) (entry_start (bmData md) i) (nat (VarRecLen md)))
                   (chunks (nat (VarRecLen md)) (length d div nat (VarRecLen md)) d))"

definition rows_from :: "codec option \<Rightarrow> ticks_time \<Rightarrow> bufferMeta \<Rightarrow> bytes \<Rightarrow> nat list \<Rightarrow> bytes list" where
  "rows_from cd tt md content is = concat (map (entry_rows cd tt md content) is)"

lemma rows_from_simps [simp]: "rows_from cd tt md content [] = []"
  "rows_from cd tt md content (i # is) = entry_rows cd tt md content i @ rows_from cd tt md content is"
  by (simp_all add: rows_from_def)

lemma length_expand: "length rec = n \<Longrightarrow> 4 \<le> n \<Longrightarrow> length (expand tt iv st n rec) = n + 8"
  by (simp add: expand_def Let_def split: prod.splits)

lemma entryE:
  assumes "entry_ok cd n content (bmData md) i" "VarRecLen md = int n" "4 \<le> n"
  obtains d0 d m where "read_full content (nat (entry_len (bmData md) i)) (entry_offset (bmData md) i) = Inr d0" "decode cd d0 = Inr d"
    "0 < m" "length d = n * m"
    "entry_rows cd tt md content i = map (expand tt (Intervals md) (entry_start (bmData md) i) n) (chunks n m d)"
    "length (entry_rows cd tt md content i) = m" "\<forall>r \<in> set (entry_rows cd tt md content i). length r = n + 8"
proof -
  from assms(1) obtain d0 d where d: "read_full content (nat (entry_len (bmData md) i)) (entry_offset (bmData md) i) = Inr d0"
    "decode cd d0 = Inr d" "d \<noteq> []" "n dvd length d"
    by (auto simp: entry_ok_def entry_data_def res_bind_def split: sum.splits)
  then obtain m where m: "length d = n * m" by (auto simp: dvd_def)
  then have m0: "0 < m" using d(3) by (cases m) auto
  have rows: "entry_rows cd tt md content i = map (expand tt (Intervals md) (entry_start (bmData md) i) n) (chunks n m d)"
    using d(1,2) m assms(2,3) by (simp add: entry_rows_def entry_data_def)
  have "\<forall>r \<in> set (chunks n m d). length r = n" by (rule chunks_full) (simp add: m)
  then have "\<forall>r \<in> set (entry_rows cd tt md content i). length r = n + 8"
    unfolding rows using length_expand [OF _ assms(3)] by auto
  then show thesis using that d(1,2) m m0 rows by simp
qed


section \<open>The second stage\<close>

definition limited :: "DirectionEnum \<Rightarrow> int \<Rightarrow> 'a list \<Rightarrow> 'a list" where
  "limited direction left rows = (if direction = FIRST then take (nat left) rows else rows)"

lemma take_chunks: "j \<le> k \<Longrightarrow> take j (chunks n k xs) = chunks n j xs"
  by (intro nth_equalityI) (simp_all add: chunks_nth)

lemma append_rb_fits:
  assumes "cur + length t \<le> length rb"
  shows "append_rb rb cur t = Inr (take cur rb @ t @ drop (cur + length t) rb)"
  using assms by (simp add: append_rb_def copy_at_fits)

lemma second_loop_rows:
  assumes "VarRecLen md = int n" "4 \<le> n" "list_all (entry_ok cd n content (bmData md)) is" "direction = FIRST \<longrightarrow> 0 < left"
    and "cur + length (concat (limited direction left (rows_from cd tt md content is))) \<le> length rb"
  shows "\<exists>rb'. second_loop cd tt direction md content is left rb cur
      = Inr (rb', cur + length (concat (limited direction left (rows_from cd tt md content is))))
    \<and> take (cur + length (concat (limited direction left (rows_from cd tt md content is)))) rb'
      = take cur rb @ concat (limited direction left (rows_from cd tt md content is))"
  using assms(3-5)
proof (induction "is" arbitrary: left rb cur)
  case Nil
  then show ?case by (simp add: limited_def)
next
  case (Cons i "is")
  let ?b = "bmData md" and ?rows = "entry_rows cd tt md content i" and ?rest = "rows_from cd tt md content is"
  have "entry_ok cd n content ?b i" using Cons.prems(1) by simp
  then obtain d0 d m where e: "read_full content (nat (entry_len ?b i)) (entry_offset ?b i) = Inr d0" "decode cd d0 = Inr d"
    "0 < m" "length d = n * m" "?rows = map (expand tt (Intervals md) (entry_start ?b i) n) (chunks n m d)" "length ?rows = m"
    "\<forall>r \<in> set ?rows. length r = n + 8"
    by (rule entryE [OF _ assms(1,2)])
  define num where "num = at_most direction left (int m)"
  define t where "t = concat (take (nat num) ?rows)"
  have num: "0 < num" "nat num \<le> m" using e(3) Cons.prems(2) by (auto simp: num_def at_most_def)
  have rw: "rewriteBuffer tt d n (nat num) (Intervals md) (entry_start ?b i) = t"
    unfolding rewriteBuffer_def t_def e(5) take_map take_chunks [OF num(2)] ..
  have lt: "length t \<le> length (concat (limited direction left (rows_from cd tt md content (i # is))))"
    using num by (auto simp: t_def limited_def num_def at_most_def e(6))
  have step: "second_loop cd tt direction md content (i # is) left rb cur =
      (if direction = FIRST \<and> left - num = 0 then Inr (take cur rb @ t @ drop (cur + length t) rb, cur + length t)
       else second_loop cd tt direction md content is (left - num) (take cur rb @ t @ drop (cur + length t) rb) (cur + length t))"
  proof -
    have am: "at_most direction left (int (length d) sdiv int n) = num"
      using e(4) assms(2) by (simp add: sdiv_nonneg num_def)
    have "0 < num * (int n + 8)" using num(1) by simp
    then have ok: "(entry_len ?b i < 0) = False" "(int n = 0) = False" "(num * (int n + 8) < 0) = False"
      "(d = [] \<or> num * (int n + 8) = 0) = False"
      using e(3,4) assms(2) Cons.prems(1) by (auto simp: entry_ok_def)
    have ap: "append_rb rb cur t = Inr (take cur rb @ t @ drop (cur + length t) rb)"
      using lt Cons.prems(3) by (intro append_rb_fits) linarith
    show ?thesis
      by (simp only: second_loop.simps Let_def assms(1) ok if_False e(1,2) res_bind_simps am nat_int rw ap)
  qed
  show ?case
  proof (cases "direction = FIRST \<and> left \<le> int m")
    case True
    then have "concat (limited direction left (rows_from cd tt md content (i # is))) = t" "left = num"
      by (auto simp: limited_def t_def num_def at_most_def e(6))
    moreover have "cur \<le> length rb" using Cons.prems(3) by simp
    ultimately show ?thesis unfolding step using True by simp
  next
    case False
    then have n: "num = int m" by (auto simp: num_def at_most_def)
    then have t: "t = concat ?rows" by (simp add: t_def e(6))
    have out: "concat (limited direction left (rows_from cd tt md content (i # is))) = t @ concat (limited direction (left - num) ?rest)"
      using False by (auto simp: limited_def t n e(6) nat_diff_distrib)
    have nf: "(direction = FIRST \<and> left - num = 0) = False" and "direction = FIRST \<longrightarrow> 0 < left - num" using False n by auto
    moreover have "cur \<le> length rb" "cur + length t \<le> length (take cur rb @ t @ drop (cur + length t) rb)"
      using Cons.prems(3) lt by simp_all
    ultimately show ?thesis
      using Cons.IH [of "left - num" "cur + length t" "take cur rb @ t @ drop (cur + length t) rb"] Cons.prems(1,3)
      unfolding step [unfolded nf if_False] out by (simp add: add.assoc)
  qed
qed

lemma second_file_rows:
  assumes "fs (bmFullPath md) = Some content" "VarRecLen md = int n" "4 \<le> n" "is = [0..<length (bmData md) div 24]"
    and "list_all (entry_ok cd n content (bmData md)) is" "direction = FIRST \<longrightarrow> 0 < limit"
    and "result_size cd direction limit (int n) (bmData md) is = Inr sz" "out = concat (limited direction limit (rows_from cd tt md content is))"
    and "int (length out) \<le> sz"
  shows "second_file cd tt fs limit direction md = Inr out"
proof -
  have "length out \<le> length (replicate (nat sz) (0 :: byte))" using assms(9) by simp
  with second_loop_rows [OF assms(2,3,5,6), where cur = 0 and tt = tt and rb = "replicate (nat sz) 0"] obtain rb' where
    "second_loop cd tt direction md content is limit (replicate (nat sz) 0) 0 = Inr (rb', length out)" "take (length out) rb' = out"
    unfolding assms(8) by auto
  moreover from this(2) have "length out \<le> length rb'" by (metis length_take min.cobounded1)
  ultimately show ?thesis using assms(1,2,4,7,9) go_slice_nat [of 0 "length out" rb'] by (simp add: second_file_def Let_def)
qed

text \<open>Without compression the buffer has the size of the rows.\<close>

lemma exact_size_rows:
  assumes "VarRecLen md = int n" "4 \<le> n" "list_all (entry_ok None n content (bmData md)) is" "direction = FIRST \<longrightarrow> 0 \<le> left"
  shows "exact_size direction (int n) (bmData md) is left tot
    = tot + int (length (concat (limited direction left (rows_from None tt md content is))))"
  using assms(3,4)
proof (induction "is" arbitrary: left tot)
  case Nil
  then show ?case by (simp add: limited_def)
next
  case (Cons i "is")
  let ?b = "bmData md" and ?rows = "entry_rows None tt md content i"
  have ok: "entry_ok None n content ?b i" using Cons.prems(1) by simp
  then obtain d0 d m where e: "read_full content (nat (entry_len ?b i)) (entry_offset ?b i) = Inr d0" "decode None d0 = Inr d"
    "0 < m" "length d = n * m" "length ?rows = m" "\<forall>r \<in> set ?rows. length r = n + 8"
    by (rule entryE [OF _ assms(1,2), of None]) blast
  have "0 \<le> entry_len ?b i" "nat (entry_len ?b i) = n * m"
    using e(1,2,4) ok by (auto simp: read_full_def decode_def read_at_def Let_def entry_ok_def split: if_splits)
  then have "entry_len ?b i = int (n * m)" by linarith
  then have q: "entry_len ?b i sdiv int n = int m" using assms(2) by (simp add: sdiv_nonneg)
  define num where "num = at_most direction left (int m)"
  have num: "0 \<le> num" "nat num \<le> m" "direction = FIRST \<longrightarrow> 0 \<le> left - num" using Cons.prems(2) by (auto simp: num_def at_most_def)
  have "length (concat (take (nat num) ?rows)) = (n + 8) * length (take (nat num) ?rows)"
    using e(6) by (intro length_concat_equal) (auto dest: in_set_takeD)
  then have l: "int (length (concat (take (nat num) ?rows))) = num * (int n + 8)" using num e(5) by (simp add: mult.commute)
  have out: "concat (limited direction left (rows_from None tt md content (i # is)))
      = concat (take (nat num) ?rows) @ concat (limited direction (left - num) (rows_from None tt md content is))"
    using Cons.prems(2) by (auto simp: limited_def num_def at_most_def e(5) nat_diff_distrib)
  show ?case unfolding out using Cons.IH [of "left - num"] Cons.prems(1) num(3) l
    by (simp add: Let_def q flip: num_def)
qed


section \<open>Properties\<close>

text \<open>Notes of the first stage whose index records are good for their files, and the rows they stand for.\<close>

definition md_ok :: "codec option \<Rightarrow> nat \<Rightarrow> disk \<Rightarrow> bufferMeta \<Rightarrow> bool" where
  "md_ok cd n fs md \<longleftrightarrow> VarRecLen md = int n \<and> (case fs (bmFullPath md) of None \<Rightarrow> False
     | Some content \<Rightarrow> list_all (entry_ok cd n content (bmData md)) [0..<length (bmData md) div 24])"

definition md_rows :: "codec option \<Rightarrow> ticks_time \<Rightarrow> disk \<Rightarrow> bufferMeta \<Rightarrow> bytes list" where
  "md_rows cd tt fs md = (case fs (bmFullPath md) of None \<Rightarrow> []
     | Some content \<Rightarrow> rows_from cd tt md content [0..<length (bmData md) div 24])"

lemma go_slice_from: "a \<le> length xs \<Longrightarrow> go_slice (int a) (int (length xs)) xs = Inr (drop a xs)"
  using go_slice_nat [of a "length xs" xs] by simp

lemma second_file_uncompressed:
  assumes "md_ok None n fs md" "4 \<le> n" "direction = FIRST \<longrightarrow> 0 < limit"
  shows "second_file None tt fs limit direction md = Inr (concat (limited direction limit (md_rows None tt fs md)))"
proof -
  let ?is = "[0..<length (bmData md) div 24]"
  obtain content where c: "fs (bmFullPath md) = Some content" "VarRecLen md = int n" "list_all (entry_ok None n content (bmData md)) ?is"
    using assms(1) by (auto simp: md_ok_def split: option.splits)
  have "direction = FIRST \<longrightarrow> 0 \<le> limit" using assms(3) by auto
  from exact_size_rows [OF c(2) assms(2) c(3) this, where tot = 0 and tt = tt]
  have "result_size None direction limit (int n) (bmData md) ?is
      = Inr (int (length (concat (limited direction limit (rows_from None tt md content ?is)))))"
    using assms(2) by (simp add: result_size_def)
  then have "second_file None tt fs limit direction md = Inr (concat (limited direction limit (rows_from None tt md content ?is)))"
    by (intro second_file_rows [where fs = fs and md = md, OF c(1,2) assms(2) refl c(3) assms(3)]) (assumption, rule refl, rule order_refl)
  then show ?thesis using c(1) by (simp add: md_rows_def)
qed

lemma md_rows_lengths:
  assumes "md_ok cd n fs md" "4 \<le> n"
  shows "\<forall>r \<in> set (md_rows cd tt fs md). length r = n + 8"
proof -
  obtain content where c: "fs (bmFullPath md) = Some content" "VarRecLen md = int n"
    "list_all (entry_ok cd n content (bmData md)) [0..<length (bmData md) div 24]"
    using assms(1) by (auto simp: md_ok_def split: option.splits)
  have e: "\<forall>r \<in> set (entry_rows cd tt md content i). length r = n + 8" if "entry_ok cd n content (bmData md) i" for i
    by (rule entryE [OF that c(2) assms(2)]) blast
  show ?thesis
  proof
    fix r
    assume "r \<in> set (md_rows cd tt fs md)"
    then obtain i where "i \<in> set [0..<length (bmData md) div 24]" "r \<in> set (entry_rows cd tt md content i)"
      using c(1) by (auto simp: md_rows_def rows_from_def)
    then show "length r = n + 8" using e c(3) by (metis list_all_iff)
  qed
qed

text \<open>
  C17: Without compression, the second stage of a backward read returns exactly the last \<open>N\<close> of the rows that the notes stand for: the records of every interval
  in their order, each expanded with its time.
\<close>

theorem variable_rows_last:
  assumes "list_all (md_ok None n fs) mds" "4 \<le> n" "mds \<noteq> []" "0 \<le> limit"
  shows "readSecondStage None tt fs mds limit LAST
    = Inr (concat (let R = concat (map (md_rows None tt fs) mds) in drop (length R - nat limit) R))"
proof -
  let ?R = "concat (map (md_rows None tt fs) mds)"
  have len: "\<forall>r \<in> set ?R. length r = n + 8"
  proof
    fix r
    assume "r \<in> set ?R"
    then obtain md where "md \<in> set mds" "r \<in> set (md_rows None tt fs md)" by auto
    then show "length r = n + 8" using assms(1) md_rows_lengths [OF _ assms(2)] by (metis list_all_iff)
  qed
  then have l: "length (concat ?R) = (n + 8) * length ?R" by (rule length_concat_equal)
  have r: "res_map (second_file None tt fs limit LAST) mds = Inr (map (\<lambda>md. concat (md_rows None tt fs md)) mds)"
    using assms(1) second_file_uncompressed [OF _ assms(2), where direction = LAST] by (intro res_map_Inr) (auto simp: list_all_iff limited_def)
  have c: "concat (map (\<lambda>md. concat (md_rows None tt fs md)) mds) = concat ?R" by (induction mds) auto
  have v: "(if mds = [] then 0 else VarRecLen (last mds)) = int n" using assms(1,3) by (auto simp: list_all_iff md_ok_def)
  have "int (length (concat ?R)) = int (length ?R) * (int n + 8)" by (simp add: l mult.commute)
  then have q: "int (length (concat ?R)) sdiv (int n + 8) = int (length ?R)" by (simp add: sdiv_nonneg)
  show ?thesis
  proof (cases "limit < int (length ?R)")
    case True
    have e: "(int n + 8) * (int (length ?R) - limit) = int ((n + 8) * (length ?R - nat limit))"
      using True assms(4) by (simp add: of_nat_diff)
    have "(n + 8) * (length ?R - nat limit) \<le> length (concat ?R)" unfolding l by (intro mult_le_mono2) simp
    then have g: "go_slice ((int n + 8) * (int (length ?R) - limit)) (int (length (concat ?R))) (concat ?R)
        = Inr (concat (drop (length ?R - nat limit) ?R))"
      unfolding e using go_slice_from drop_concat_equal [OF len] by metis
    show ?thesis unfolding readSecondStage_def r res_bind_simps Let_def c v q by (simp only: True g if_True simp_thms)
  next
    case False
    then have "length ?R - nat limit = 0" by simp
    then show ?thesis using False unfolding readSecondStage_def r res_bind_simps Let_def c v q by (metis drop0)
  qed
qed

text \<open>A file with two records of four bytes, of which the index record says where they lie, and times that are the ticks themselves.\<close>

definition sample_ticks :: bytes where "sample_ticks = le_bytes 4 1 @ le_bytes 4 2"

definition sample_md :: "path \<Rightarrow> bufferMeta" where
  "sample_md p = \<lparr>bmFullPath = p, bmData = info_bytes 60 0 8, VarRecLen = 4, Intervals = 1440\<rparr>"

definition sample_tt :: ticks_time where "sample_tt start iv ticks = (start + ticks, 0)"

abbreviation tick_disk :: disk where "tick_disk \<equiv> (\<lambda>_. None)(''f'' \<mapsto> sample_ticks, ''g'' \<mapsto> sample_ticks)"

lemma sample_md_entry:
  "entry_start (info_bytes 60 0 8) 0 = 60" "entry_offset (info_bytes 60 0 8) 0 = 0" "entry_len (info_bytes 60 0 8) 0 = 8"
  "length (info_bytes 60 0 8) = 24" "length sample_ticks = 8" "chunks 4 2 sample_ticks = [le_bytes 4 1, le_bytes 4 2]"
  by (simp_all add: entry_start_def entry_offset_def entry_len_def info_bytes_def sample_ticks_def go_int numeral_2_eq_2 del: le_bytes.simps)

lemma sample_md_ok: "p = ''f'' \<or> p = ''g'' \<Longrightarrow> md_ok None 4 tick_disk (sample_md p)"
  by (auto simp: md_ok_def sample_md_def sample_md_entry entry_ok_def entry_data_def read_full_def read_at_def decode_def
      simp flip: length_greater_0_conv)

lemma sample_md_rows:
  "p = ''f'' \<or> p = ''g'' \<Longrightarrow> md_rows None sample_tt tick_disk (sample_md p)
    = [le_bytes 8 61 @ le_bytes 4 0, le_bytes 8 62 @ le_bytes 4 0]"
  by (auto simp: md_rows_def sample_md_def sample_md_entry rows_from_def entry_rows_def entry_data_def read_full_def read_at_def decode_def
      expand_def sample_tt_def ToUInt32_def le_uint_le_bytes simp del: le_bytes.simps)

theorem variable_rows_last_witness:
  "readSecondStage None sample_tt tick_disk [sample_md ''f'', sample_md ''g''] 3 LAST
     = Inr (le_bytes 8 62 @ le_bytes 4 0 @ le_bytes 8 61 @ le_bytes 4 0 @ le_bytes 8 62 @ le_bytes 4 0)"
  using variable_rows_last [of 4 tick_disk "[sample_md ''f'', sample_md ''g'']" 3 sample_tt]
  by (simp add: sample_md_ok sample_md_rows Let_def del: le_bytes.simps)

text \<open>
  Forward, the limit starts anew with every file: the result has up to \<open>N\<close> rows of each of the files, and so more than \<open>N\<close> when
  two files have rows.
\<close>

theorem limit_restarts_per_file:
  assumes "list_all (md_ok None n fs) mds" "4 \<le> n" "0 < limit"
  shows "readSecondStage None tt fs mds limit FIRST
    = Inr (concat (concat (map (\<lambda>md. take (nat limit) (md_rows None tt fs md)) mds)))"
proof -
  have "res_map (second_file None tt fs limit FIRST) mds = Inr (map (\<lambda>md. concat (take (nat limit) (md_rows None tt fs md))) mds)"
    using assms(1,3) second_file_uncompressed [OF _ assms(2), where direction = FIRST] by (intro res_map_Inr) (auto simp: list_all_iff limited_def)
  moreover have "concat (map (\<lambda>md. concat (f md)) mds) = concat (concat (map f mds))" for f :: "bufferMeta \<Rightarrow> bytes list"
    by (induction mds) auto
  ultimately show ?thesis by (simp add: readSecondStage_def Let_def)
qed

theorem limit_restarts_per_file_witness:
  "readSecondStage None sample_tt tick_disk [sample_md ''f'', sample_md ''g''] 1 FIRST
     = Inr (le_bytes 8 61 @ le_bytes 4 0 @ le_bytes 8 61 @ le_bytes 4 0)"
  using limit_restarts_per_file [of 4 tick_disk "[sample_md ''f'', sample_md ''g'']" 1 sample_tt]
  by (simp add: sample_md_ok sample_md_rows del: le_bytes.simps)

text \<open>
  With compression the buffer for the rows of a file is four times the compressed data and is doubled at most once for an interval: when the rows of the only
  interval need more than eight times the compressed data, the read panics.
\<close>

theorem compressed_rows_panic:
  assumes "fs (bmFullPath md) = Some content" "VarRecLen md = int n" "4 \<le> n" "length (bmData md) = 24" "0 \<le> entry_len (bmData md) 0"
    and "read_full content (nat (entry_len (bmData md) 0)) (entry_offset (bmData md) 0) = Inr z" "Decode c z = Inr d" "length d = n * m" "0 < m"
    and "8 * entry_len (bmData md) 0 < int ((n + 8) * m)"
  shows "second_file (Some c) tt fs limit LAST md = Inl (Panic ''slice bounds out of range'')"
proof -
  let ?L = "nat (entry_len (bmData md) 0)"
  define t where "t = rewriteBuffer tt d n m (Intervals md) (entry_start (bmData md) 0)"
  have "\<forall>r \<in> set (map (expand tt (Intervals md) (entry_start (bmData md) 0) n) (chunks n m d)). length r = n + 8"
    using chunks_full [of n m d] assms(8) length_expand [OF _ assms(3)] by auto
  from length_concat_equal [OF this] have t: "length t = (n + 8) * m" by (simp add: t_def rewriteBuffer_def)
  have "8 * ?L < (n + 8) * m" using assms(5,10) by linarith
  then have big: "8 * ?L < length t" using t by simp
  have "int (length d) sdiv int n = int m" using assms(3,8) by (simp add: sdiv_nonneg)
  moreover have "d \<noteq> []" using assms(3,8,9) by auto
  ultimately have "second_loop (Some c) tt LAST md content [0] limit (replicate (4 * ?L) 0) 0
      = res_bind (append_rb (replicate (4 * ?L) 0) 0 t) (\<lambda>rb. Inr (rb, length t))"
    using assms(2,3,5,6,7,9) by (simp add: Let_def at_most_def decode_def t_def mult_less_0_iff)
  moreover have "append_rb (replicate (4 * ?L) 0) 0 t = Inr (take (8 * ?L) t)"
    using big by (simp add: append_rb_def copy_at_def Let_def)
  moreover have "go_slice 0 (int (length t)) (take k t) = Inl (Panic ''slice bounds out of range'')" if "k < length t" for k
    using that by (simp add: go_slice_def)
  note this [OF big]
  ultimately show ?thesis
    using assms(1,4,5) by (simp add: second_file_def result_size_def Let_def nat_mult_distrib mult.commute)
qed

text \<open>Data that compresses well: a codec that keeps the first byte and the number of repetitions.\<close>

theorem compressed_rows_panic_witness:
  "second_file (Some \<lparr>Encode = (\<lambda>d. [hd d, of_nat (length d)]), Decode = (\<lambda>z. Inr (replicate (unat (z ! 1)) (hd z)))\<rparr>) sample_tt
     ((\<lambda>_. None)(''f'' \<mapsto> [0, 64])) 100 LAST \<lparr>bmFullPath = ''f'', bmData = info_bytes 60 0 2, VarRecLen = 4, Intervals = 1440\<rparr>
   = Inl (Panic ''slice bounds out of range'')"
proof -
  have e: "entry_offset (info_bytes 60 0 2) 0 = 0" "entry_len (info_bytes 60 0 2) 0 = 2" "length (info_bytes 60 0 2) = 24"
    by (simp_all add: entry_offset_def entry_len_def info_bytes_def go_int del: le_bytes.simps)
  show ?thesis
    by (rule compressed_rows_panic [where content = "[0, 64]" and n = 4 and z = "[0, 64]" and d = "replicate 64 0" and m = 16])
      (simp_all add: e read_full_def read_at_def)
qed

end
