(* ===== verification/Reader.thy ===== *)
theory Reader
  imports ReadVariable
begin

text \<open>
  The reader and the deleter: making the plans of a parse result, reading the files of each key into a column series, and the deletion of a
  time range (\<^verbatim>\<open>executor/scanner.go\<close> and \<^verbatim>\<open>executor/delete.go\<close>). Maps over keys are lists in the order in which the keys occur in
  the parse result; the code visits them in any order.
\<close>

section \<open>The reader\<close>

record reader =
  rdPr :: ParseResult
  IOPMap :: "(TimeBucketKey \<times> ioplan) list"
  rdBuffer :: bytes

text \<open>The qualified files of each key.\<close>

definition group_files :: "QualifiedFile list \<Rightarrow> (TimeBucketKey \<times> QualifiedFile list) list" where
  "group_files qfs = fold (\<lambda>qf m. AList.update (qfKey qf) ((case map_of m (qfKey qf) of None \<Rightarrow> [] | Some l \<Rightarrow> l) @ [qf]) m) qfs []"

text \<open>A missing range is set in the parse result of the caller, after the copy that the reader keeps was made.\<close>

definition ranged :: "location \<Rightarrow> ParseResult \<Rightarrow> ParseResult" where
  "ranged loc pr = (if prRange pr = None then pr\<lparr>prRange := Some (NewDateRange loc)\<rparr> else pr)"

definition plan_keys :: "location \<Rightarrow> disk \<Rightarrow> hints \<Rightarrow> ParseResult \<Rightarrow> (TimeBucketKey \<times> ioplan) list result" where
  "plan_keys loc fs h pr =
     res_map (\<lambda>(key, sfl). res_bind (NewIOPlan loc fs h (sort_files sfl) (ranged loc pr)) (\<lambda>iop. Inr (key, iop)))
       (group_files (QualifiedFiles pr))"

definition NewReader :: "location \<Rightarrow> disk \<Rightarrow> hints \<Rightarrow> ParseResult \<Rightarrow> reader result" where
  "NewReader loc fs h pr =
     res_bind (plan_keys loc fs h pr) (\<lambda>iops.
       let maxRecordLen = fold (\<lambda>(_, iop). max (iopRecordLen iop)) iops 0; readSize = to_int32 (RecordsPerRead * maxRecordLen)
       in if readSize < 0 then Inl (Panic ''makeslice: len out of range'')
          else Inr \<lparr>rdPr = pr, IOPMap = iops, rdBuffer = replicate (nat readSize) 0\<rparr>)"

text \<open>
  \<^verbatim>\<open>read\<close> of a plan: the rows and the hints. The error of the second stage replaces that of the first. \<open>None\<close> is a read that does not end.
\<close>

definition read_plan :: "location \<Rightarrow> disk \<Rightarrow> codec option \<Rightarrow> ticks_time \<Rightarrow> bytes \<Rightarrow> ioplan \<Rightarrow> hints \<Rightarrow> (bytes \<times> hints) result option" where
  "read_plan loc fs cd tt buf iop h =
     (case scan_plan loc fs iop \<lparr>sHints = h, sBuffer = buf\<rparr> of
        None \<Rightarrow> None
      | Some (Inl e) \<Rightarrow> Some (Inl e)
      | Some (Inr (resultBuffer, bufMeta, err, io)) \<Rightarrow>
          Some (if iopRecordType iop = VARIABLE
            then case iopLimit iop of
                None \<Rightarrow> Inl (Panic ''nil pointer dereference'')
              | Some limit \<Rightarrow> res_bind (readSecondStage cd tt fs bufMeta (limNumber limit) (limDirection limit)) (\<lambda>b. Inr (b, sHints io))
            else case err of Some e \<Rightarrow> Inl e | None \<Rightarrow> Inr (resultBuffer, sHints io)))"

text \<open>Cutting sorted rows to a range of epochs.\<close>

definition row_epoch :: "nat \<Rightarrow> bytes \<Rightarrow> nat \<Rightarrow> int" where
  "row_epoch rowLength src i = ToInt64 (drop (i * rowLength) src)"

definition trimResultsToRange :: "int \<Rightarrow> int \<Rightarrow> int \<Rightarrow> bytes \<Rightarrow> bytes" where
  "trimResultsToRange start endEpoch rowlen src =
     (let rowLength = nat (rowlen + 8); nrecords = length src div rowLength
      in if nrecords = 0 then []
         else
           let dest = (case find (\<lambda>i. start \<le> row_epoch rowLength src i) [0..<nrecords] of
                 None \<Rightarrow> [] | Some i \<Rightarrow> drop (i * rowLength) src);
               nrecords = length dest div rowLength
           in if nrecords = 1 then dest
              else case find (\<lambda>i. row_epoch rowLength dest (i - 1) \<le> endEpoch) (rev [1..<Suc nrecords]) of
                  None \<Rightarrow> dest | Some i \<Rightarrow> take ((i - 1) * rowLength + rowLength) dest)"

definition looked_up :: "'v \<Rightarrow> ('k \<times> 'v) list \<Rightarrow> 'k \<Rightarrow> 'v" where
  "looked_up z m k = (case map_of m k of None \<Rightarrow> z | Some v \<Rightarrow> v)"

text \<open>The rows of one key as a column series.\<close>

definition key_series :: "ParseResult \<Rightarrow> TimeBucketKey \<Rightarrow> CandleAttributes \<Rightarrow> int \<Rightarrow> int \<Rightarrow> DataShape list \<Rightarrow> bytes
    \<Rightarrow> (TimeBucketKey \<times> ColumnSeries) result" where
  "key_series pr key cat rt rlen shapes buf =
     res_bind (if rt = VARIABLE
         then case prRange pr of
             None \<Rightarrow> Inl (Panic ''nil pointer dereference'')
           | Some rng \<Rightarrow> Inr (trimResultsToRange (rStart rng) (rEnd rng) rlen buf)
         else Inr buf) (\<lambda>buf. ToColumnSeries (NewRowSeries key buf shapes rlen cat rt))"

fun read_keys :: "location \<Rightarrow> disk \<Rightarrow> codec option \<Rightarrow> ticks_time \<Rightarrow> reader
    \<Rightarrow> (TimeBucketKey \<Rightarrow> bytes \<Rightarrow> (TimeBucketKey \<times> ColumnSeries) result)
    \<Rightarrow> (TimeBucketKey \<times> ioplan) list \<Rightarrow> ColumnSeriesMap \<Rightarrow> hints \<Rightarrow> (ColumnSeriesMap \<times> hints) result option" where
  "read_keys loc fs cd tt r conv [] csm h = Some (Inr (csm, h))"
| "read_keys loc fs cd tt r conv ((key, iop) # iops) csm h =
     (case read_plan loc fs cd tt (rdBuffer r) iop h of
        None \<Rightarrow> None
      | Some (Inl e) \<Rightarrow> Some (Inl e)
      | Some (Inr (buf, h)) \<Rightarrow>
          (case conv key buf of
             Inl e \<Rightarrow> Some (Inl e)
           | Inr (k, cs) \<Rightarrow> read_keys loc fs cd tt r conv iops (AList.update k cs csm) h))"

definition reader_Read :: "location \<Rightarrow> disk \<Rightarrow> codec option \<Rightarrow> ticks_time \<Rightarrow> reader \<Rightarrow> hints \<Rightarrow> (ColumnSeriesMap \<times> hints) result option" where
  "reader_Read loc fs cd tt r h =
     (let pr = rdPr r
      in case res_bind (GetCandleAttributes fs pr) (\<lambda>catMap. res_bind (GetRowType fs pr) (\<lambda>rtMap.
           res_bind (pr_GetDataShapes fs pr) (\<lambda>dsMap. res_bind (pr_GetRowLen fs pr) (\<lambda>rlMap. Inr (catMap, rtMap, dsMap, rlMap))))) of
          Inl e \<Rightarrow> Some (Inl e)
        | Inr (catMap, rtMap, dsMap, rlMap) \<Rightarrow>
            read_keys loc fs cd tt r (\<lambda>key. key_series pr key (looked_up 0 catMap key) (looked_up 0 rtMap key) (looked_up 0 rlMap key)
                (looked_up [] dsMap key)) (IOPMap r) NewColumnSeriesMap h)"


section \<open>The deleter\<close>

record deleter =
  dePr :: ParseResult
  deIOPMap :: "(TimeBucketKey \<times> ioplan) list"

definition NewDeleter :: "location \<Rightarrow> disk \<Rightarrow> hints \<Rightarrow> ParseResult \<Rightarrow> deleter result" where
  "NewDeleter loc fs h pr = res_bind (plan_keys loc fs h pr) (\<lambda>iops. Inr \<lparr>dePr = pr, deIOPMap = iops\<rparr>)"

text \<open>
  The loop over the records of the planned part. At the first record of a run the file is set to the start of the planned part: the function that seeks does
  not use its argument.
\<close>

fun delete_records :: "nat \<Rightarrow> int \<Rightarrow> bytes \<Rightarrow> nat list \<Rightarrow> bool \<Rightarrow> file_ptr \<Rightarrow> file_ptr \<times> go_err option" where
  "delete_records recordLen planOffset buf [] isContiguous f = (f, None)"
| "delete_records recordLen planOffset buf (i # is) isContiguous f =
     (let rec = drop (i * recordLen) buf
      in if length rec < 8 then (f, Some (Panic ''index out of range''))
         else if ToInt64 rec = 0 then delete_records recordLen planOffset buf is False f
         else (case if isContiguous then (f, None) else Seek planOffset f of
             (f, Some e) \<Rightarrow> (f, Some e)
           | (f, None) \<Rightarrow> delete_records recordLen planOffset buf is True (Write (replicate recordLen 0) f)))"

definition delete_file :: "int \<Rightarrow> ioFilePlan \<Rightarrow> disk \<Rightarrow> disk \<times> go_err option" where
  "delete_file recordLen iofp fs =
     (case fs (fpFullPath iofp) of
        None \<Rightarrow> (fs, Some (NotExist (fpFullPath iofp)))
      | Some content \<Rightarrow>
          (case Seek (fpOffset iofp) \<lparr>fdata = content, fpos = 0\<rparr> of
             (f, Some e) \<Rightarrow> (fs, Some e)
           | (f, None) \<Rightarrow>
               let bufferSize = fpLength iofp + recordLen
               in if bufferSize < 0 then (fs, Some (Panic ''makeslice: len out of range''))
                  else
                    let (buf, n, err, f) = Read (nat bufferSize) f
                    in if err \<noteq> None \<or> int n \<noteq> bufferSize then (fs, Some (Err ''delete(): Short read''))
                       else if recordLen = 0 then (fs, Some (Panic ''integer divide by zero''))
                       else if recordLen < 0 then (fs, Some (Panic ''makeslice: len out of range''))
                       else
                         let (f, err) = delete_records (nat recordLen) (fpOffset iofp) buf [0..<nat (bufferSize sdiv recordLen)] False f
                         in (fs(fpFullPath iofp \<mapsto> fdata f), err)))"

fun delete_files :: "int \<Rightarrow> ioFilePlan list \<Rightarrow> disk \<Rightarrow> disk \<times> go_err option" where
  "delete_files recordLen [] fs = (fs, None)"
| "delete_files recordLen (iofp # iofps) fs =
     (case delete_file recordLen iofp fs of (fs, Some e) \<Rightarrow> (fs, Some e) | (fs, None) \<Rightarrow> delete_files recordLen iofps fs)"

definition delete_plan :: "ioplan \<Rightarrow> disk \<Rightarrow> disk \<times> go_err option" where
  "delete_plan iop fs = delete_files (iopRecordLen iop) (FilePlan iop) fs"

fun delete_keys :: "(TimeBucketKey \<times> ioplan) list \<Rightarrow> disk \<Rightarrow> disk \<times> go_err option" where
  "delete_keys [] fs = (fs, None)"
| "delete_keys ((key, iop) # iops) fs = (case delete_plan iop fs of (fs, Some e) \<Rightarrow> (fs, Some e) | (fs, None) \<Rightarrow> delete_keys iops fs)"

definition deleter_Delete :: "deleter \<Rightarrow> disk \<Rightarrow> disk \<times> go_err option" where
  "deleter_Delete de fs = delete_keys (deIOPMap de) fs"


section \<open>Deleting\<close>

text \<open>The length of the longest run of true values; \<open>cur\<close> is the run at hand, \<open>best\<close> the longest so far.\<close>

fun longest_run :: "bool list \<Rightarrow> nat \<Rightarrow> nat \<Rightarrow> nat" where
  "longest_run [] cur best = best"
| "longest_run (b # bs) cur best = (if b then longest_run bs (Suc cur) (max best (Suc cur)) else longest_run bs 0 best)"

definition zeroed :: "bytes \<Rightarrow> nat \<Rightarrow> nat \<Rightarrow> bytes" where
  "zeroed content p m = take p content @ replicate m 0 @ drop (p + m) content"

lemma zeroed_write:
  assumes "p + n * Suc cur \<le> length content" "p + n * best \<le> length content" "cur \<le> best"
  shows "write_at (zeroed content p (n * best)) (p + n * cur) (replicate n 0) = zeroed content p (n * max best (Suc cur))"
proof (cases "cur < best")
  case True
  then have "n * Suc cur \<le> n * best" by (intro mult_le_mono2) simp
  moreover from this have "read_at (zeroed content p (n * best)) (p + n * cur) (length (replicate n (0 :: byte))) = replicate n 0"
    using assms(2) by (auto simp: zeroed_def read_at_def min_def)
  moreover have "p + n * cur + length (replicate n (0 :: byte)) \<le> length (zeroed content p (n * best))"
    using assms(2) calculation(1) by (simp add: zeroed_def)
  ultimately show ?thesis using True write_at_same by (metis Suc_leI max.absorb1)
next
  case False
  then have "cur = best" using assms(3) by simp
  then show ?thesis using assms
    by (auto simp: zeroed_def write_at_def max_def replicate_add [symmetric] add.commute add.left_commute)
qed

lemma delete_records_runs:
  assumes "8 \<le> n" "\<forall>i \<in> set is. i * n + n \<le> length buf" "p + n * (best + length is) \<le> length content" "cur \<le> best"
    and "fdata f = zeroed content p (n * best)" "if cont then fpos f = p + n * cur else cur = 0"
  shows "\<exists>f'. delete_records n (int p) buf is cont f = (f', None)
    \<and> fdata f' = zeroed content p (n * longest_run (map (\<lambda>i. ToInt64 (take n (drop (i * n) buf)) \<noteq> 0) is) cur best)"
  using assms(2-)
proof (induction "is" arbitrary: cont f cur best)
  case (Cons i "is")
  have rec: "\<not> length (drop (i * n) buf) < 8" "ToInt64 (take n (drop (i * n) buf)) = ToInt64 (drop (i * n) buf)"
    using Cons.prems(1) assms(1) by auto
  have len: "p + n * (best + Suc (length is)) \<le> length content" using Cons.prems(2) by simp
  have mono: "n * Suc cur \<le> n * (best + Suc (length is))" "n * best \<le> n * (best + Suc (length is))"
    using Cons.prems(3) by (intro mult_le_mono2; simp)+
  then have room: "p + n * Suc cur \<le> length content" "p + n * best \<le> length content" using len by linarith+
  show ?case
  proof (cases "ToInt64 (drop (i * n) buf) = 0")
    case True
    have "p + n * (best + length is) \<le> length content" using len by (simp add: algebra_simps)
    with Cons.IH [of best 0 f False] Cons.prems True rec show ?thesis by simp
  next
    case False
    define g where "g = (if cont then f else f\<lparr>fpos := p\<rparr>)"
    have g: "(if cont then (f, None) else Seek (int p) f) = (g, None)" "fdata g = zeroed content p (n * best)" "fpos g = p + n * cur"
      using Cons.prems(4,5) by (auto simp: g_def Seek_def split: if_splits)
    have w: "fdata (Write (replicate n 0) g) = zeroed content p (n * max best (Suc cur))" "fpos (Write (replicate n 0) g) = p + n * Suc cur"
      using g zeroed_write [OF room Cons.prems(3)] by (simp_all add: Write_def)
    have "n * (max best (Suc cur) + length is) \<le> n * (best + Suc (length is))" using Cons.prems(3) by (intro mult_le_mono2) simp
    then have "p + n * (max best (Suc cur) + length is) \<le> length content" using len by linarith
    from Cons.IH [OF _ this _ w(1), of "Suc cur" True] w(2) Cons.prems(1)
    show ?thesis using False rec g(1) by (simp add: Let_def)
  qed
qed simp


text \<open>
  C39: A deletion does not remove the records of its range. It reads the planned part and one record more, and every run of records is overwritten from
  the start of the planned part: the file afterwards has as many empty slots at the start of the part as the longest run has records, wherever the records
  are, and a part that ends at the end of the file is refused with an error.
\<close>

theorem delete_clears_from_start:
  assumes "8 \<le> n" "fs (fpFullPath iofp) = Some content" "fpOffset iofp = int p" "fpLength iofp = int (n * k)" "p + n * k \<le> length content"
  shows "delete_file (int n) iofp fs =
    (if length content < p + n * Suc k then (fs, Some (Err ''delete(): Short read''))
     else (fs(fpFullPath iofp \<mapsto> zeroed content p (n * longest_run (map (\<lambda>r. ToInt64 r \<noteq> 0) (chunks n (Suc k) (drop p content))) 0 0)), None))"
proof -
  let ?f = "\<lparr>fdata = content, fpos = p\<rparr>" and ?m = "n * Suc k"
  have sz: "int (n * k) + int n = int ?m" by (simp add: algebra_simps)
  have sk: "Seek (int p) \<lparr>fdata = content, fpos = 0\<rparr> = (?f, None)" by (simp add: Seek_def)
  have n0: "0 < n" using assms(1) by simp
  show ?thesis
  proof (cases "length content < p + ?m")
    case True
    then have "length (read_at content p ?m) \<noteq> ?m" using n0 by (simp add: read_at_def)
    then show ?thesis using assms(2-4) sk sz True
      by (simp add: delete_file_def Let_def Read_def del: of_nat_mult of_nat_add mult_Suc_right)
  next
    case False
    define buf where "buf = read_at content p ?m"
    have b: "length buf = ?m" using False by (simp add: buf_def read_at_def)
    then have rd: "Read ?m ?f = (buf, ?m, None, ?f\<lparr>fpos := p + ?m\<rparr>)" using n0 by (auto simp: Read_def Let_def buf_def)
    have q: "nat (int ?m sdiv int n) = Suc k"
      using n0 sdiv_nonneg [of "int ?m" "int n"] by (simp del: mult_Suc_right)
    have room: "\<forall>i \<in> set [0..<Suc k]. i * n + n \<le> length buf" using row_room [of _ "Suc k" n] b by (auto simp: mult.commute)
    have "p + n * (0 + length [0..<Suc k]) \<le> length content" using False by simp
    from delete_records_runs [OF assms(1) room this, of 0 "?f\<lparr>fpos := p + ?m\<rparr>" False]
    obtain f' where f': "delete_records n (int p) buf [0..<Suc k] False (?f\<lparr>fpos := p + ?m\<rparr>) = (f', None)"
      "fdata f' = zeroed content p (n * longest_run (map (\<lambda>i. ToInt64 (take n (drop (i * n) buf)) \<noteq> 0) [0..<Suc k]) 0 0)"
      by (auto simp: zeroed_def)
    have "chunks n (Suc k) (drop p content) = chunks n (Suc k) buf"
      using chunks_take [of n "Suc k" ?m "drop p content"] by (simp add: buf_def read_at_def)
    then have "map (\<lambda>i. ToInt64 (take n (drop (i * n) buf)) \<noteq> 0) [0..<Suc k] = map (\<lambda>r. ToInt64 r \<noteq> 0) (chunks n (Suc k) (drop p content))"
      unfolding map_chunks [symmetric] by simp
    then show ?thesis using assms(2-4) sk sz rd q f' False n0
      by (simp add: delete_file_def Let_def del: of_nat_mult of_nat_add mult_Suc_right upt_Suc chunks.simps)
  qed
qed

text \<open>Deleting the second and the third slot, of which the second is empty, leaves the record in the third slot.\<close>

theorem delete_clears_from_start_witness:
  "let content = sample_bars @ le_bytes 8 0; fs = (\<lambda>_. None)(''f'' \<mapsto> content)
   in delete_file 8 (sample_iofp\<lparr>fpOffset := 8, fpLength := 16\<rparr>) fs = (fs, None) \<and> drop 16 content = le_bytes 8 3 @ le_bytes 8 0"
proof -
  let ?c = "sample_bars @ le_bytes 8 0"
  let ?fs = "(\<lambda>_. None)(''f'' \<mapsto> ?c)"
  have d: "drop 8 ?c = le_bytes 8 0 @ le_bytes 8 3 @ le_bytes 8 0" "length ?c = 32" by (simp_all add: sample_bars_def del: le_bytes.simps)
  have "longest_run (map (\<lambda>r. ToInt64 r \<noteq> 0) (chunks 8 (Suc 2) (drop 8 ?c))) 0 0 = 1"
    unfolding d by (simp add: numeral_2_eq_2 go_int del: le_bytes.simps)
  moreover have "le_bytes 8 0 = replicate 8 0" by code_simp
  then have "zeroed ?c 8 8 = ?c" by (simp add: zeroed_def sample_bars_def del: le_bytes.simps)
  ultimately have "delete_file 8 (sample_iofp\<lparr>fpOffset := 8, fpLength := 16\<rparr>) ?fs = (?fs, None)"
    using delete_clears_from_start [of 8 ?fs "sample_iofp\<lparr>fpOffset := 8, fpLength := 16\<rparr>" ?c 8 2] d(2)
    by (simp add: sample_iofp_def del: le_bytes.simps chunks.simps)
  then show ?thesis by (simp add: Let_def sample_bars_def del: le_bytes.simps)
qed

section \<open>Cutting rows to a range\<close>

lemma row_epoch_concat:
  assumes "\<forall>r \<in> set rows. length r = n" "8 \<le> n" "i < length rows"
  shows "row_epoch n (concat rows) i = ToInt64 (rows ! i)"
proof -
  have "drop (n * i) (concat rows) = concat (drop i rows)" using assms(1) by (rule drop_concat_equal)
  also have "\<dots> = rows ! i @ concat (drop (Suc i) rows)" using assms(3) by (metis Cons_nth_drop_Suc concat.simps(2))
  finally show ?thesis using assms ToInt64_take [of n] unfolding row_epoch_def
    by (metis append_take_drop_id mult.commute nth_mem take_all order_refl append_eq_conv_conj)
qed


text \<open>The first position that satisfies a condition which stays true from there on.\<close>

lemma find_first:
  "find P [0..<m] = (if \<exists>i < m. P i then Some (LEAST i. P i) else None)"
proof (cases "\<exists>i < m. P i")
  case True
  then obtain i where i: "i < m" "P i" by blast
  then have l: "P (LEAST i. P i)" and le: "(LEAST i. P i) \<le> i" by (blast intro: LeastI, blast intro: Least_le)
  from le i(1) have lm: "(LEAST i. P i) < m" by (rule le_less_trans)
  have "\<not> P j" if "j < (LEAST i. P i)" for j using that by (rule not_less_Least)
  with l lm have "find P [0..<m] = Some (LEAST i. P i)" unfolding find_Some_iff by (metis diff_zero length_upt nth_upt add_0 order_less_trans)
  with True show ?thesis by simp
next
  case False
  then have "find P [0..<m] = None" unfolding find_None_iff by simp
  with False show ?thesis by simp
qed

end
