(* ===== verification/FileTree.thy ===== *)
theory FileTree
  imports GoStrings
begin

text \<open>
  The tree of files and directories below the root of the file system, and the calls of the \<^verbatim>\<open>os\<close> and \<^verbatim>\<open>ioutil\<close>
  packages that the catalog makes on it: \<^verbatim>\<open>Stat\<close>, \<^verbatim>\<open>Mkdir\<close>, \<^verbatim>\<open>ReadFile\<close>, \<^verbatim>\<open>ReadDir\<close>, creating a file, and
  \<^verbatim>\<open>RemoveAll\<close>. Paths are absolute. The entries of a directory are kept sorted by name, the order in which
  \<^verbatim>\<open>ReadDir\<close> returns them.
\<close>

datatype fsnode =
    RegFile bytes
  | Folder "(string \<times> fsnode) list"

fun is_folder :: "fsnode \<Rightarrow> bool" where
  "is_folder (Folder _) = True"
| "is_folder (RegFile _) = False"

text \<open>The lexicographic order of byte strings.\<close>

fun str_less :: "string \<Rightarrow> string \<Rightarrow> bool" where
  "str_less s [] = False"
| "str_less [] (d # ds) = True"
| "str_less (c # cs) (d # ds) = ((of_char c :: nat) < of_char d \<or> c = d \<and> str_less cs ds)"

fun put_entry :: "string \<Rightarrow> fsnode \<Rightarrow> (string \<times> fsnode) list \<Rightarrow> (string \<times> fsnode) list" where
  "put_entry x n [] = [(x, n)]"
| "put_entry x n ((y, m) # es) =
     (if x = y then (x, n) # es else if str_less x y \<and> x \<notin> set (map fst es) then (x, n) # (y, m) # es else (y, m) # put_entry x n es)"

text \<open>A path that leads through a regular file is an error of its own, which is not \<^verbatim>\<open>os.ErrNotExist\<close>.\<close>

fun lookup :: "fsnode \<Rightarrow> string list \<Rightarrow> fsnode result" where
  "lookup t [] = Inr t"
| "lookup (RegFile b) (x # xs) = Inl (Err ''not a directory'')"
| "lookup (Folder es) (x # xs) = (case map_of es x of None \<Rightarrow> Inl (NotExist x) | Some n \<Rightarrow> lookup n xs)"

fun store :: "string list \<Rightarrow> fsnode \<Rightarrow> fsnode \<Rightarrow> fsnode result" where
  "store [] n t = Inr n"
| "store (x # xs) n (RegFile b) = Inl (Err ''not a directory'')"
| "store (x # xs) n (Folder es) =
     (case map_of es x of
        None \<Rightarrow> if xs = [] then Inr (Folder (put_entry x n es)) else Inl (NotExist x)
      | Some m \<Rightarrow> res_bind (store xs n m) (\<lambda>m'. Inr (Folder (put_entry x m' es))))"

fun remove :: "string list \<Rightarrow> fsnode \<Rightarrow> fsnode" where
  "remove [] t = Folder []"
| "remove (x # xs) (RegFile b) = RegFile b"
| "remove (x # xs) (Folder es) =
     (case map_of es x of
        None \<Rightarrow> Folder es
      | Some m \<Rightarrow> if xs = [] then Folder (filter (\<lambda>(y, _). y \<noteq> x) es)
                 else Folder (put_entry x (remove xs m) es))"

section \<open>Calls\<close>

definition stat :: "fsnode \<Rightarrow> path \<Rightarrow> fsnode result" where
  "stat t p = lookup t (path_elems p)"

definition read_file :: "fsnode \<Rightarrow> path \<Rightarrow> bytes result" where
  "read_file t p = res_bind (stat t p) (\<lambda>n. case n of RegFile b \<Rightarrow> Inr b | Folder _ \<Rightarrow> Inl (Err ''is a directory''))"

definition mkdir :: "path \<Rightarrow> fsnode \<Rightarrow> fsnode result" where
  "mkdir p t = (if is_ok (stat t p) then Inl (Err ''file exists'') else store (path_elems p) (Folder []) t)"

definition write_file :: "path \<Rightarrow> bytes \<Rightarrow> fsnode \<Rightarrow> fsnode result" where
  "write_file p b t = (case stat t p of
       Inr (Folder _) \<Rightarrow> Inl (Err ''is a directory'')
     | _ \<Rightarrow> store (path_elems p) (RegFile b) t)"

definition RemoveAll :: "path \<Rightarrow> fsnode \<Rightarrow> fsnode" where
  "RemoveAll p t = remove (path_elems p) t"

text \<open>The regular files, by path.\<close>

definition disk_of :: "fsnode \<Rightarrow> path \<Rightarrow> bytes option" where
  "disk_of t p = (case read_file t p of Inl _ \<Rightarrow> None | Inr b \<Rightarrow> Some b)"

section \<open>Lemmas\<close>

lemma map_of_put [simp]: "map_of (put_entry x n es) = (map_of es)(x \<mapsto> n)"
  by (induction x n es rule: put_entry.induct) auto

lemma set_put: "distinct (map fst es) \<Longrightarrow> set (put_entry x n es) = insert (x, n) (set es - {e. fst e = x})"
proof (induction x n es rule: put_entry.induct)
  case (2 x n y m es)
  then show ?case by (cases "x = y") (auto simp: rev_image_eqI)
qed auto

lemma names_put: "fst ` set (put_entry x n es) = insert x (fst ` set es)"
  by (induction x n es rule: put_entry.induct) auto

lemma distinct_put: "distinct (map fst es) \<Longrightarrow> distinct (map fst (put_entry x n es))"
proof (induction x n es rule: put_entry.induct)
  case (2 x n y m es)
  then show ?case using names_put [of x n es] by (cases "x = y") (auto simp: image_iff)
qed auto

lemma lookup_append: "lookup t (xs @ ys) = res_bind (lookup t xs) (\<lambda>n. lookup n ys)"
  by (induction t xs rule: lookup.induct) (auto split: option.splits)

lemma lookup_store_same: "store es n t = Inr t' \<Longrightarrow> lookup t' es = Inr n"
  by (induction es n t arbitrary: t' rule: store.induct)
    (auto simp: res_bind_Inr split: option.splits if_splits)

text \<open>Whatever lies on another branch of the tree is not changed.\<close>

lemma lookup_store_branch:
  assumes "store (cs @ x # xs) n t = Inr t'" "x \<noteq> y"
  shows "lookup t' (cs @ y # ys) = lookup t (cs @ y # ys)"
  using assms
proof (induction cs arbitrary: t t')
  case Nil
  then show ?case by (cases t) (auto simp: res_bind_Inr split: option.splits if_splits)
next
  case (Cons c cs)
  then show ?case by (cases t) (auto simp: res_bind_Inr split: option.splits if_splits)
qed

lemma store_total: "lookup t xs = Inr (Folder es) \<Longrightarrow> \<exists>t'. store (xs @ [x]) n t = Inr t'"
proof (induction t xs rule: lookup.induct)
  case (3 fs x' xs)
  then obtain m where m: "map_of fs x' = Some m" "lookup m xs = Inr (Folder es)" by (auto split: option.splits)
  with "3.IH" obtain m' where "store (xs @ [x]) n m = Inr m'" by blast
  with m show ?case by simp
qed (auto split: option.splits)

section \<open>Lemmas: paths of entries\<close>

lemma abs_path_child: "ps \<noteq> [] \<Longrightarrow> abs_path ps @ ''/'' @ x = abs_path (ps @ [x])"
  by (simp add: abs_path_def join_append)

lemma Clean_child:
  assumes "list_all plain_elem ps" "ps \<noteq> []" "plain_elem x"
  shows "Clean (abs_path ps @ ''/'' @ x) = abs_path (ps @ [x])"
  using assms abs_path_child [of ps x] Clean_abs [of "ps @ [x]"] by simp

lemma Split_abs: "list_all plain_elem ps \<Longrightarrow> ps \<noteq> [] \<Longrightarrow> Split (abs_path ps) ''/'' = '''' # ps"
  using Split_cons [of "CHR ''/''" "[]"] by (simp add: abs_path_def Split_plain)

lemma Base_abs: "list_all plain_elem (ps @ [x]) \<Longrightarrow> Base (abs_path (ps @ [x])) = x"
  using Split_abs [of "ps @ [x]"] by (simp add: Base_def abs_path_def plain_elem_def)

lemma Base_join: "list_all plain_elem (ps @ [x]) \<Longrightarrow> Base (join_with ''/'' (ps @ [x])) = x"
proof -
  assume ok: "list_all plain_elem (ps @ [x])"
  then have "join_with ''/'' (ps @ [x]) \<noteq> ''''"
    by (cases ps) (auto simp: plain_elem_def join_cons)
  with Split_plain [of "ps @ [x]"] ok show ?thesis by (simp add: Base_def plain_elem_def)
qed

lemma clean_elems_append:
  "list_all plain_elem es \<Longrightarrow> clean_elems a acc (es @ rest) = clean_elems a (rev es @ acc) rest"
  by (induction es arbitrary: acc) (auto simp: plain_elem_def)

lemma Clean_slash:
  assumes "list_all plain_elem ps"
  shows "Clean (abs_path ps @ ''/'') = abs_path ps"
proof (cases "ps = []")
  case False
  have "abs_path ps @ ''/'' = join_with ''/'' ('''' # ps @ [''''])" using False by (simp add: abs_path_def join_cons join_append)
  moreover have "Split (join_with ''/'' ('''' # ps @ [''''])) ''/'' = '''' # ps @ ['''']"
    using assms by (intro Split_join) (auto simp: plain_elem_def list_all_iff)
  ultimately have "Split (abs_path ps @ ''/'') ''/'' = '''' # ps @ ['''']" by metis
  moreover have rt: "rooted (abs_path ps @ ''/'')" by (simp add: rooted_def abs_path_def)
  ultimately have "path_elems (abs_path ps @ ''/'') = ps" using assms by (simp add: path_elems_def clean_elems_append)
  with rt show ?thesis unfolding Clean_def by (simp add: abs_path_def)
qed (simp add: abs_path_def, code_simp)

lemma Dir_abs:
  assumes "list_all plain_elem (ps @ [x])" "ps \<noteq> []"
  shows "Dir (abs_path (ps @ [x])) = abs_path ps"
proof -
  have "Split (abs_path (ps @ [x])) ''/'' = ('''' # ps) @ [x]" using Split_abs assms(1) by simp
  then have "Dir (abs_path (ps @ [x])) = Clean (abs_path ps @ ''/'')"
    using assms(2) by (simp add: Dir_def abs_path_def join_cons)
  with Clean_slash assms(1) show ?thesis by simp
qed

lemma Ext_abs: "list_all plain_elem (ps @ [x]) \<Longrightarrow> Ext (abs_path (ps @ [x])) = Ext x"
  using Split_abs [of "ps @ [x]"] Split_plain [of "[x]"] by (simp add: Ext_def)

lemma Rel_abs:
  assumes "list_all plain_elem rs" "list_all plain_elem xs"
  shows "Rel (abs_path rs) (abs_path (rs @ xs)) = Some (if xs = [] then ''.'' else join_with ''/'' xs)"
proof -
  have "common_prefix rs (rs @ xs) = length rs" by (induction rs) (cases xs; simp)+
  then show ?thesis using assms by (simp add: Rel_def path_elems_abs)
qed

section \<open>Lemmas: changes that only add\<close>

text \<open>A change that keeps every regular file, and below \<open>ps\<close> changes only the entries named in \<open>A\<close>.\<close>

definition touches :: "string list \<Rightarrow> string set \<Rightarrow> fsnode \<Rightarrow> fsnode \<Rightarrow> bool" where
  "touches ps A t t' \<longleftrightarrow>
     (\<forall>xs b. lookup t xs = Inr (RegFile b) \<longrightarrow> lookup t' xs = Inr (RegFile b)) \<and>
     (\<forall>y ys. y \<notin> A \<longrightarrow> lookup t' (ps @ y # ys) = lookup t (ps @ y # ys))"

lemma touches_refl [simp]: "touches ps A t t"
  by (simp add: touches_def)

lemma touches_trans: "touches ps A t t' \<Longrightarrow> touches ps A t' t'' \<Longrightarrow> touches ps A t t''"
  by (simp add: touches_def)

lemma touches_mono: "touches ps A t t' \<Longrightarrow> A \<subseteq> B \<Longrightarrow> touches ps B t t'"
  unfolding touches_def by blast

lemma store_file_other:
  assumes "store es n t = Inr t'" "\<forall>fs. lookup t es \<noteq> Inr (Folder fs)" "xs \<noteq> es" "lookup t xs = Inr (RegFile b)"
  shows "lookup t' xs = Inr (RegFile b)"
  using assms
proof (induction es n t arbitrary: t' xs rule: store.induct)
  case (1 n t)
  then show ?case by (cases t; cases xs) auto
next
  case (3 x xs' n es)
  then obtain y ys where xs: "xs = y # ys" by (cases xs) auto
  show ?case
  proof (cases "y = x")
    case True
    with 3 xs obtain m where m: "map_of es x = Some m" by (auto split: option.splits)
    with 3 xs True show ?thesis by (auto simp: res_bind_Inr)
  next
    case False
    with 3 xs show ?thesis by (auto simp: res_bind_Inr split: option.splits if_splits)
  qed
qed simp

lemma store_over: "lookup t es = Inr m \<Longrightarrow> \<exists>t'. store es n t = Inr t'"
proof (induction t es rule: lookup.induct)
  case (3 es x xs)
  then obtain k where k: "map_of es x = Some k" "lookup k xs = Inr m" by (auto split: option.splits)
  with "3.IH" obtain k' where "store xs n k = Inr k'" by blast
  with k show ?case by simp
qed auto

lemma store_touches:
  assumes "store (ps @ x # xs) n t = Inr t'" "\<not> is_ok (lookup t (ps @ x # xs))" "x \<in> A"
  shows "touches ps A t t'"
proof -
  have "lookup t' ys = Inr (RegFile b)" if "lookup t ys = Inr (RegFile b)" for ys b
    using store_file_other [OF assms(1), of ys b] that assms(2) by force
  moreover have "lookup t' (ps @ y # ys) = lookup t (ps @ y # ys)" if "y \<notin> A" for y ys
    using lookup_store_branch [OF assms(1)] that assms(3) by metis
  ultimately show ?thesis by (simp add: touches_def)
qed

end
