(* ===== verification/Catalog.thy ===== *)
theory Catalog
  imports Query FileTree
begin

text \<open>
  The catalog of time buckets: \<^verbatim>\<open>catalog/catalog.go\<close>. A \<^verbatim>\<open>Directory\<close> node is reached through the \<^verbatim>\<open>subDirs\<close> of its
  parent and, when it holds year files, also through the \<^verbatim>\<open>directMap\<close> of the root node; the nodes are kept in a heap and
  both maps hold references to it. Maps are association lists, whose order stands for the order in which Go
  happens to walk the map. The descriptions of files are values: completing one from its header gives the same
  description each time. The locks order the calls of concurrent clients; a model of one call does not see them.
\<close>

section \<open>The heap of directories\<close>

type_synonym dref = nat

record Directory =
  itemName :: string
  pathToItemName :: path
  category :: string
  directMap :: "(path \<times> dref) list option"
  subDirs :: "(string \<times> dref) list option"
  catList :: "string list option"
  datafile :: "(path \<times> TimeBucketInfo) list option"

definition zero_dir :: Directory where
  "zero_dir = \<lparr>itemName = [], pathToItemName = [], category = [], directMap = None, subDirs = None, catList = None, datafile = None\<rparr>"

record heap =
  node :: "dref \<Rightarrow> Directory"
  next_ref :: dref

definition alloc :: "Directory \<Rightarrow> heap \<Rightarrow> dref \<times> heap" where
  "alloc d h = (next_ref h, h\<lparr>node := (node h)(next_ref h := d), next_ref := Suc (next_ref h)\<rparr>)"

definition modify :: "dref \<Rightarrow> (Directory \<Rightarrow> Directory) \<Rightarrow> heap \<Rightarrow> heap" where
  "modify r f h = h\<lparr>node := (node h)(r := f (node h r))\<rparr>"

text \<open>A \<^verbatim>\<open>nil\<close> map reads as an empty one.\<close>

definition entries :: "('k \<times> 'v) list option \<Rightarrow> ('k \<times> 'v) list" where
  "entries m = (case m of None \<Rightarrow> [] | Some l \<Rightarrow> l)"

section \<open>Loading a directory tree\<close>

text \<open>The entry of a year file that is found on disk: a description that has yet to be read from the file.\<close>

definition pending_info :: "path \<Rightarrow> int \<Rightarrow> TimeBucketInfo" where
  "pending_info p year = zero_info\<lparr>IsRead := False, tbPath := p, tbYear := year\<rparr>"

definition add_pending :: "dref \<Rightarrow> dref \<Rightarrow> path \<Rightarrow> heap \<Rightarrow> heap \<times> go_err option" where
  "add_pending root d leafPath h =
     (let h = modify root (\<lambda>x. x\<lparr>directMap := Some (AList.update (pathToItemName (node h d)) d (entries (directMap x)))\<rparr>) h;
          put = (\<lambda>year. modify d (\<lambda>x. x\<lparr>datafile := Some (AList.update leafPath (pending_info leafPath year) (entries (datafile x)))\<rparr>));
          yearFileBase = Base leafPath;
          yearString = take (length yearFileBase - 4) yearFileBase
      in case ParseInt yearString 64 of
           None \<Rightarrow> (put 0 h, Some (Err ''invalid syntax''))
         | Some yearInt \<Rightarrow> (put (to_int16 yearInt) h, None))"

text \<open>
  The loader on the file system node at \<open>subPath\<close>. Meeting a subdirectory resets \<^verbatim>\<open>datafile\<close>.
\<close>

function loader :: "dref \<Rightarrow> path \<Rightarrow> fsnode result \<Rightarrow> dref \<Rightarrow> path \<Rightarrow> heap \<Rightarrow> heap \<times> go_err option"
  and load_entries :: "dref \<Rightarrow> path \<Rightarrow> (string \<times> fsnode) list \<Rightarrow> dref \<Rightarrow> path \<Rightarrow> heap \<Rightarrow> heap \<times> go_err option" where
  "loader root rootPath n d subPath h =
     (let relPath = (case Rel rootPath subPath of None \<Rightarrow> '''' | Some p \<Rightarrow> p);
          h = modify d (\<lambda>x. x\<lparr>itemName := Base relPath, pathToItemName := Clean subPath\<rparr>) h
      in case n of
           Inl e \<Rightarrow> (h, Some e)
         | Inr (RegFile b) \<Rightarrow> (h, Some (Err ''not a directory''))
         | Inr (Folder es) \<Rightarrow>
             (case map_of es ''category_name'' of
                None \<Rightarrow> (h, Some (NotExist (subPath @ ''/category_name'')))
              | Some (Folder _) \<Rightarrow> (h, Some (Err ''is a directory''))
              | Some (RegFile catname) \<Rightarrow>
                  load_entries root rootPath es d subPath (modify d (\<lambda>x. x\<lparr>category := bytes_str catname, subDirs := Some []\<rparr>) h)))"
| "load_entries root rootPath [] d subPath h = (h, None)"
| "load_entries root rootPath ((name, n) # es) d subPath h =
     (let leafPath = Clean (subPath @ ''/'' @ name)
      in if is_folder n \<and> name \<noteq> ''metadata.db'' then
           let (r, h) = alloc (zero_dir\<lparr>itemName := name, pathToItemName := subPath\<rparr>) h;
               h = modify d (\<lambda>x. x\<lparr>subDirs := Some (AList.update name r (entries (subDirs x))), datafile := None\<rparr>) h
           in (case loader root rootPath (Inr n) r leafPath h of
                (h, Some e) \<Rightarrow> (h, Some e)
              | (h, None) \<Rightarrow> load_entries root rootPath es d subPath h)
         else if Ext leafPath = ''.bin'' then
           (case add_pending root d leafPath h of
             (h, Some e) \<Rightarrow> (h, Some e) | (h, None) \<Rightarrow> load_entries root rootPath es d subPath h)
         else load_entries root rootPath es d subPath h)"
  by pat_completeness auto
termination
  by (relation "measure (\<lambda>s. case s of
      Inl (root, rootPath, n, d, subPath, h) \<Rightarrow> (case n of Inl _ \<Rightarrow> 0 | Inr n \<Rightarrow> 2 * size n)
    | Inr (root, rootPath, es, d, subPath, h) \<Rightarrow> Suc (2 * size_list (size_prod (\<lambda>_. 0) size) es))") auto

definition load_dir :: "fsnode \<Rightarrow> dref \<Rightarrow> path \<Rightarrow> heap \<Rightarrow> heap \<times> go_err option" where
  "load_dir t d rootPath h = loader d rootPath (stat t rootPath) d rootPath h"

text \<open>The error of loading is dropped.\<close>

definition NewDirectory :: "fsnode \<Rightarrow> path \<Rightarrow> heap \<Rightarrow> dref \<times> heap" where
  "NewDirectory t rootpath h =
     (let (d, h) = alloc (zero_dir\<lparr>directMap := Some []\<rparr>) h
      in (d, fst (load_dir t d rootpath h)))"

section \<open>Walking the tree\<close>

text \<open>
  \<^verbatim>\<open>recurse\<close> calls the level function on a directory and then on everything below each subdirectory in turn; these are the
  directories in the order of the calls. A walk that does not end is \<open>None\<close>.
\<close>

definition children :: "heap \<Rightarrow> dref \<Rightarrow> dref list" where
  "children h r = map snd (entries (subDirs (node h r)))"

partial_function (option) recurse :: "heap \<Rightarrow> dref list \<Rightarrow> dref list option" where
  "recurse h rs = (case rs of
       [] \<Rightarrow> Some []
     | r # rs \<Rightarrow> Option.bind (recurse h (children h r @ rs)) (\<lambda>l. Some (r # l)))"

definition GatherTimeBucketInfo :: "heap \<Rightarrow> dref \<Rightarrow> TimeBucketInfo list option" where
  "GatherTimeBucketInfo h d = map_option (\<lambda>rs. concat (map (\<lambda>r. map snd (entries (datafile (node h r)))) rs)) (recurse h [d])"

definition gatherFilePaths :: "heap \<Rightarrow> dref \<Rightarrow> path list option" where
  "gatherFilePaths h d = map_option (\<lambda>rs. concat (map (\<lambda>r. map (tbPath \<circ> snd) (entries (datafile (node h r)))) rs)) (recurse h [d])"

definition gatherDirectories :: "heap \<Rightarrow> dref \<Rightarrow> string list option" where
  "gatherDirectories h d = map_option (map (\<lambda>r. itemName (node h r))) (recurse h [d])"

text \<open>A map used as a set of its keys.\<close>

definition add_key :: "'a \<Rightarrow> 'a list \<Rightarrow> 'a list" where
  "add_key x xs = (if x \<in> set xs then xs else xs @ [x])"

definition gatherCategoriesUpdateCache :: "dref \<Rightarrow> heap \<Rightarrow> (string list \<times> heap) option" where
  "gatherCategoriesUpdateCache d h =
     map_option (\<lambda>rs. let newCatList = fold (\<lambda>r. add_key (category (node h r))) rs []
        in (newCatList, modify d (\<lambda>x. x\<lparr>catList := Some newCatList\<rparr>) h)) (recurse h [d])"

definition GatherCategoriesFromCache :: "dref \<Rightarrow> heap \<Rightarrow> (string list \<times> heap) option" where
  "GatherCategoriesFromCache d h =
     (case catList (node h d) of None \<Rightarrow> gatherCategoriesUpdateCache d h | Some l \<Rightarrow> Some (l, h))"

definition level_items :: "Directory \<Rightarrow> dref list \<Rightarrow> heap \<Rightarrow> string list" where
  "level_items x subs h = map (\<lambda>r. itemName (node h r)) subs @ map (\<lambda>(_, f). Itoa (tbYear f)) (entries (datafile x))"

definition GatherCategoriesAndItems :: "heap \<Rightarrow> dref \<Rightarrow> (string \<times> string list) list option" where
  "GatherCategoriesAndItems h d =
     map_option (\<lambda>rs. fold (\<lambda>r list. let x = node h r
         in AList.update (category x)
              (fold add_key (level_items x (children h r) h) (case map_of list (category x) of None \<Rightarrow> [] | Some l \<Rightarrow> l)) list) rs [])
       (recurse h [d])"

definition PathToTimeBucketInfo :: "fsnode \<Rightarrow> heap \<Rightarrow> dref \<Rightarrow> path \<Rightarrow> TimeBucketInfo result option" where
  "PathToTimeBucketInfo t h d p =
     map_option (\<lambda>rs. case find (\<lambda>f. tbPath f = p) (concat (map (\<lambda>r. map snd (entries (datafile (node h r)))) rs)) of
           None \<Rightarrow> Inl (Err '': Path not found'')
         | Some f \<Rightarrow> res_bind (GetDeepCopy (disk_of t) f) (\<lambda>(c, _). Inr c))
       (recurse h [d])"

definition getOwningSubDirectoryByRecursion :: "heap \<Rightarrow> dref \<Rightarrow> path \<Rightarrow> dref result option" where
  "getOwningSubDirectoryByRecursion h d filePath =
     map_option (\<lambda>rs. case find (\<lambda>r. pathToItemName (node h r) = Dir filePath) rs of
           None \<Rightarrow> Inl (Err '': Path not found'') | Some r \<Rightarrow> Inr r)
       (recurse h [d])"

definition dir_String :: "heap \<Rightarrow> dref \<Rightarrow> string" where
  "dir_String h d =
     butlast (''Node: '' @ itemName (node h d) @ '', Category: '' @ category (node h d) @ '', Subdirs: ''
       @ concat (map (\<lambda>r. itemName (node h r) @ '':'') (children h d)))"

section \<open>Accessors of one directory\<close>

definition GetTimeBucketInfoSlice :: "heap \<Rightarrow> dref \<Rightarrow> TimeBucketInfo list" where
  "GetTimeBucketInfoSlice h d = map snd (entries (datafile (node h d)))"

definition DirHasDataFiles :: "heap \<Rightarrow> dref \<Rightarrow> bool" where
  "DirHasDataFiles h d \<longleftrightarrow> datafile (node h d) \<noteq> None"

definition DirHasSubDirs :: "heap \<Rightarrow> dref \<Rightarrow> bool" where
  "DirHasSubDirs h d \<longleftrightarrow> entries (subDirs (node h d)) \<noteq> []"

definition GetListOfSubDirs :: "heap \<Rightarrow> dref \<Rightarrow> dref list" where
  "GetListOfSubDirs h d = children h d"

definition GetSubDirWithItemName :: "heap \<Rightarrow> dref \<Rightarrow> string \<Rightarrow> dref option" where
  "GetSubDirWithItemName h d item = map_of (entries (subDirs (node h d))) item"

definition GetName :: "heap \<Rightarrow> dref \<Rightarrow> string" where "GetName h d = itemName (node h d)"
definition GetPath :: "heap \<Rightarrow> dref \<Rightarrow> path" where "GetPath h d = pathToItemName (node h d)"
definition GetCategory :: "heap \<Rightarrow> dref \<Rightarrow> string" where "GetCategory h d = category (node h d)"

definition GetOwningSubDirectory :: "heap \<Rightarrow> dref \<Rightarrow> path \<Rightarrow> dref result" where
  "GetOwningSubDirectory h d fullFilePath =
     (case map_of (entries (directMap (node h d))) (Dir fullFilePath) of
        None \<Rightarrow> Inl (Err ''Directory path not found in catalog'')
      | Some r \<Rightarrow> Inr r)"

text \<open>The loop over the files: the year and the file found so far.\<close>

definition later_file :: "TimeBucketInfo \<Rightarrow> int \<times> TimeBucketInfo option \<Rightarrow> int \<times> TimeBucketInfo option" where
  "later_file f s = (case s of (year, latest) \<Rightarrow> if year < tbYear f \<or> year = 0 then (tbYear f, Some f) else (year, latest))"

definition getLatestYearFile :: "heap \<Rightarrow> dref \<Rightarrow> TimeBucketInfo option result" where
  "getLatestYearFile h d =
     (case datafile (node h d) of
        None \<Rightarrow> Inl (Err ''getLatestYearFile: Subdirectory in catalog does not contain files'')
      | Some fs \<Rightarrow> Inr (snd (fold later_file (map snd fs) (0, None))))"

definition GetLatestTimeBucketInfoFromFullFilePath :: "heap \<Rightarrow> dref \<Rightarrow> path \<Rightarrow> TimeBucketInfo option result" where
  "GetLatestTimeBucketInfoFromFullFilePath h d fullFilePath =
     res_bind (GetOwningSubDirectory h d fullFilePath) (getLatestYearFile h)"

definition GetLatestTimeBucketInfoFromKey :: "heap \<Rightarrow> dref \<Rightarrow> TimeBucketKey \<Rightarrow> TimeBucketInfo option result" where
  "GetLatestTimeBucketInfoFromKey h d key =
     res_bind (GetPathToYearFiles key (pathToItemName (node h d))) (\<lambda>p.
       res_bind (GetOwningSubDirectory h d (p @ ''/1970.bin'')) (getLatestYearFile h))"

definition nil_pointer :: go_err where
  "nil_pointer = Panic ''invalid memory address or nil pointer dereference''"

definition cat_GetDataShapes :: "fsnode \<Rightarrow> heap \<Rightarrow> dref \<Rightarrow> TimeBucketKey \<Rightarrow> DataShape list result" where
  "cat_GetDataShapes t h d key = res_bind (GetLatestTimeBucketInfoFromKey h d key) (\<lambda>fi.
     case fi of None \<Rightarrow> Inl nil_pointer | Some f \<Rightarrow> res_bind (GetDataShapes (disk_of t) f) (\<lambda>(dsv, _). Inr dsv))"

text \<open>\<^verbatim>\<open>strings.Replace\<close> of the first occurrence.\<close>

fun replace_first :: "string \<Rightarrow> string \<Rightarrow> string" where
  "replace_first [] old = []"
| "replace_first (c # cs) old = (if has_prefix (c # cs) old then drop (length old) (c # cs) else c # replace_first cs old)"

definition pathToKey :: "heap \<Rightarrow> dref \<Rightarrow> path \<Rightarrow> string" where
  "pathToKey h d fullPath = dropWhile (\<lambda>c. c = CHR ''/'') (replace_first (Dir fullPath) (pathToItemName (node h d)))"

section \<open>Creating year files\<close>

definition exists :: "fsnode \<Rightarrow> path \<Rightarrow> bool" where
  "exists t p \<longleftrightarrow> (case stat t p of Inl (NotExist _) \<Rightarrow> False | _ \<Rightarrow> True)"

definition truncate_to :: "nat \<Rightarrow> bytes \<Rightarrow> bytes" where
  "truncate_to n b = take n (b @ replicate (n - length b) 0)"

definition FileAlreadyExists :: go_err where
  "FileAlreadyExists = Err ''Can not overwrite file: File is already in directory''"

definition UnableToCreateFile :: go_err where
  "UnableToCreateFile = Err ''Unable to create file''"

text \<open>
  The new file gets its header and is then cut or filled up with zeros to the size of the year. The header completes the
  description. Writing fails only by a panic or the end of the process.
\<close>

definition newTimeBucketInfoFromTemplate :: "location \<Rightarrow> TimeBucketInfo \<Rightarrow> fsnode \<Rightarrow> fsnode \<times> TimeBucketInfo \<times> go_err option" where
  "newTimeBucketInfoFromTemplate loc f t =
     (if is_ok (stat t (tbPath f)) then (t, f, Some FileAlreadyExists)
      else case write_file (tbPath f) [] t of
          Inl _ \<Rightarrow> (t, f, Some UnableToCreateFile)
        | Inr t \<Rightarrow>
            (case WriteHeader (disk_of t) \<lparr>fdata = [], fpos = 0\<rparr> f of
               Inl e \<Rightarrow> (t, f, Some e)
             | Inr (fl, f) \<Rightarrow>
                 let size = FileSize loc (timeframe f) (tbYear f) (recordLength f);
                     write = (\<lambda>b. case write_file (tbPath f) b t of Inl _ \<Rightarrow> t | Inr t \<Rightarrow> t)
                 in if timeframe f = 0 then (write (fdata fl), f, Some (Panic ''integer divide by zero''))
                    else if size < 0 then (write (fdata fl), f, Some UnableToCreateFile)
                    else (write (truncate_to (nat size) (fdata fl)), f, None)))"

text \<open>Some file of the directory, the first one the map gives, is the template of the new one.\<close>

definition AddFile :: "location \<Rightarrow> dref \<Rightarrow> int \<Rightarrow> fsnode \<Rightarrow> heap \<Rightarrow> fsnode \<times> heap \<times> TimeBucketInfo result" where
  "AddFile loc d newYear t h =
     (case datafile (node h d) of
        None \<Rightarrow> (t, h, Inl (Err ''Subdirectory in catalog does not contain files''))
      | Some [] \<Rightarrow> (t, h, Inl nil_pointer)
      | Some ((p, finfoTemplate) # rest) \<Rightarrow>
          (case GetDeepCopy (disk_of t) finfoTemplate of
             Inl e \<Rightarrow> (t, h, Inl e)
           | Inr (c, finfoTemplate) \<Rightarrow>
               let h = modify d (\<lambda>x. x\<lparr>datafile := Some ((p, finfoTemplate) # rest)\<rparr>) h;
                   newFileInfo = c\<lparr>tbYear := newYear, tbPath := Join (pathToItemName (node h d)) (Itoa newYear @ ''.bin'')\<rparr>
               in (case newTimeBucketInfoFromTemplate loc newFileInfo t of
                    (t, newFileInfo, Some e) \<Rightarrow> (t, h, if e = FileAlreadyExists then Inr newFileInfo else Inl e)
                  | (t, newFileInfo, None) \<Rightarrow>
                      (t, modify d (\<lambda>x. x\<lparr>datafile := Some (AList.update (tbPath newFileInfo) newFileInfo (entries (datafile x)))\<rparr>) h,
                       Inr newFileInfo))))"

text \<open>
  The call holds the lock of the root directory while \<^verbatim>\<open>AddFile\<close> takes that of the directory found, so for a root that holds
  year files itself it never returns.
\<close>

definition GetSubDirectoryAndAddFile :: "location \<Rightarrow> dref \<Rightarrow> path \<Rightarrow> int \<Rightarrow> fsnode \<Rightarrow> heap \<Rightarrow> fsnode \<times> heap \<times> TimeBucketInfo result" where
  "GetSubDirectoryAndAddFile loc d fullFilePath year t h =
     (case map_of (entries (directMap (node h d))) (Dir fullFilePath) of
        Some dir \<Rightarrow> if dir = d then (t, h, Inl (Fatal ''deadlock'')) else AddFile loc dir year t h
      | None \<Rightarrow> (t, h, Inl (Err ''Directory path not found in catalog'')))"

section \<open>Adding and removing time buckets\<close>

definition addSubdir :: "dref \<Rightarrow> dref \<Rightarrow> string \<Rightarrow> heap \<Rightarrow> heap \<times> go_err option" where
  "addSubdir d subDir subDirItemName h =
     (let h = modify subDir (\<lambda>x. x\<lparr>itemName := subDirItemName\<rparr>) h;
          h = modify d (\<lambda>x. x\<lparr>catList := None, subDirs := Some (AList.update subDirItemName subDir (entries (subDirs x)))\<rparr>) h;
          new = entries (directMap (node h subDir))
      in if new \<noteq> [] \<and> directMap (node h d) = None then (h, Some (Panic ''assignment to entry in nil map''))
         else
           let h = (if new = [] then h
                    else modify d (\<lambda>x. x\<lparr>directMap := Some (AList.merge (entries (directMap x)) new)\<rparr>) h)
           in (modify subDir (\<lambda>x. x\<lparr>directMap := None\<rparr>) h, None))"

definition writeCatName :: "string \<Rightarrow> path \<Rightarrow> fsnode \<Rightarrow> fsnode \<times> go_err option" where
  "writeCatName catName dirName t =
     (let catNameFile = Join dirName ''category_name''
      in if \<not> exists t catNameFile
         then (case write_file catNameFile (str_bytes catName) t of Inl e \<Rightarrow> (t, Some e) | Inr t \<Rightarrow> (t, None))
         else (case read_file t catNameFile of
             Inl e \<Rightarrow> (t, Some e)
           | Inr b \<Rightarrow> (t, if bytes_str b \<noteq> catName then Some (Err ''Category name does not match on-disk name'') else None)))"

text \<open>The directories of the items, each with the name of its category in the directory above.\<close>

fun make_dirs :: "string list \<Rightarrow> string list \<Rightarrow> path \<Rightarrow> fsnode \<Rightarrow> fsnode \<times> path result" where
  "make_dirs [] cats dirname t = (t, Inr dirname)"
| "make_dirs (dataDirName # items) cats dirname t =
     (let subdirname = Join dirname dataDirName
      in case (if exists t subdirname then Inr t else mkdir subdirname t) of
           Inl e \<Rightarrow> (t, Inl e)
         | Inr t \<Rightarrow>
             (case cats of
                [] \<Rightarrow> (t, Inl (Panic ''index out of range''))
              | c # cats \<Rightarrow>
                  (case writeCatName c dirname t of
                     (t, Some e) \<Rightarrow> (t, Inl e)
                   | (t, None) \<Rightarrow> make_dirs items cats subdirname t)))"

definition add_child :: "dref \<Rightarrow> string \<Rightarrow> string \<Rightarrow> fsnode \<Rightarrow> heap \<Rightarrow> heap \<times> go_err option" where
  "add_child dRoot cat childNodeName t h =
     (let h = (if category (node h dRoot) = [] then modify dRoot (\<lambda>x. x\<lparr>category := cat\<rparr>) h else h);
          (childDirectory, h) = NewDirectory t (Join (pathToItemName (node h dRoot)) childNodeName) h
      in addSubdir dRoot childDirectory childNodeName h)"

definition AddTimeBucket :: "location \<Rightarrow> dref \<Rightarrow> TimeBucketKey \<Rightarrow> TimeBucketInfo \<Rightarrow> fsnode \<Rightarrow> heap \<Rightarrow> fsnode \<times> heap \<times> TimeBucketInfo \<times> go_err option" where
  "AddTimeBucket loc dRoot tbk f t h =
     (case res_bind (GetCategories tbk) (\<lambda>cs. res_bind (GetItems tbk) (\<lambda>is. Inr (cs, is))) of
        Inl e \<Rightarrow> (t, h, f, Some e)
      | Inr (catkeySplit, datakeySplit) \<Rightarrow>
          (case make_dirs datakeySplit catkeySplit (pathToItemName (node h dRoot)) t of
             (t, Inl e) \<Rightarrow> (t, h, f, Some e)
           | (t, Inr dirname) \<Rightarrow>
               (case writeCatName ''Year'' dirname t of
                  (t, Some e) \<Rightarrow> (t, h, f, Some e)
                | (t, None) \<Rightarrow>
                    (case newTimeBucketInfoFromTemplate loc f t of
                       (t, f, Some e) \<Rightarrow> (t, h, f, Some e)
                     | (t, f, None) \<Rightarrow>
                         (case add_child dRoot (hd catkeySplit) (hd datakeySplit) t h of (h, err) \<Rightarrow> (t, h, f, err))))))"

definition removeSubDir :: "dref \<Rightarrow> string \<Rightarrow> dref \<Rightarrow> heap \<Rightarrow> heap" where
  "removeSubDir d subDirItemName root h =
     (let h = (case map_of (entries (subDirs (node h d))) subDirItemName of
             None \<Rightarrow> h
           | Some s \<Rightarrow> modify root (\<lambda>x. x\<lparr>directMap := map_option (AList.delete (pathToItemName (node h s))) (directMap x)\<rparr>) h)
      in modify d (\<lambda>x. let l = AList.delete subDirItemName (entries (subDirs x))
           in x\<lparr>subDirs := if l = [] then None else Some l\<rparr>) h)"

fun descend :: "heap \<Rightarrow> dref \<Rightarrow> string list \<Rightarrow> dref list result" where
  "descend h d [] = Inr []"
| "descend h d (item # items) =
     (case GetSubDirWithItemName h d item of
        None \<Rightarrow> Inl (Err ''Unable to find level item in directory'')
      | Some r \<Rightarrow> res_bind (descend h r items) (\<lambda>rs. Inr (r # rs)))"

text \<open>
  The levels from the last one up: the last is deleted; one above forgets the level below when that was deleted, and is
  itself deleted when no subdirectory is left. \<open>below\<close> is the level below and whether it was deleted.
\<close>

fun remove_levels :: "dref \<Rightarrow> dref list \<Rightarrow> (dref \<times> bool) option \<Rightarrow> fsnode \<Rightarrow> heap \<Rightarrow> fsnode \<times> heap \<times> bool" where
  "remove_levels root [] below t h = (t, h, (case below of None \<Rightarrow> False | Some (_, del) \<Rightarrow> del))"
| "remove_levels root (r # rs) below t h =
     (let (t, h, del) = (case below of
            None \<Rightarrow> (RemoveAll (pathToItemName (node h r)) t, h, True)
          | Some (b, del) \<Rightarrow> (t, if del then removeSubDir r (itemName (node h b)) root h else h, False));
          (t, del) = (if \<not> DirHasSubDirs h r then (RemoveAll (pathToItemName (node h r)) t, True) else (t, del))
      in remove_levels root rs (Some (r, del)) t h)"

definition RemoveTimeBucket :: "dref \<Rightarrow> TimeBucketKey \<Rightarrow> fsnode \<Rightarrow> heap \<Rightarrow> fsnode \<times> heap \<times> go_err option" where
  "RemoveTimeBucket dRoot tbk t h =
     (case res_bind (GetItems tbk) (descend h dRoot) of
        Inl e \<Rightarrow> (t, h, Some e)
      | Inr tree \<Rightarrow>
          (case remove_levels dRoot (rev tree) None t h of
             (t, h, False) \<Rightarrow> (t, h, None)
           | (t, h, True) \<Rightarrow>
               (RemoveAll (pathToItemName (node h (hd tree))) t, removeSubDir dRoot (itemName (node h (hd tree))) dRoot h, None)))"

end
