(* ===== verification/CatalogLaws.thy ===== *)
theory CatalogLaws
  imports Catalog
begin

text \<open>
  What the catalog promises: it mirrors the directory tree of the data files. A directory node holds the path and the
  category of its directory, one subdirectory node for every folder, and one description for every year file; the
  \<^verbatim>\<open>directMap\<close> of the root leads from the path of every directory with year files to its node.
\<close>

declare loader.simps [simp del] load_entries.simps(2) [simp del]

section \<open>Shape of the heap\<close>

text \<open>Subdirectories are allocated after their parents, so the heap is a forest and every walk ends.\<close>

definition heap_ok :: "heap \<Rightarrow> bool" where
  "heap_ok h \<longleftrightarrow> (\<forall>r < next_ref h. \<forall>c \<in> set (children h r). r < c \<and> c < next_ref h)"

fun walk :: "heap \<Rightarrow> dref \<Rightarrow> string list \<Rightarrow> dref option" where
  "walk h r [] = Some r"
| "walk h r (x # xs) = (case map_of (entries (subDirs (node h r))) x of None \<Rightarrow> None | Some c \<Rightarrow> walk h c xs)"

definition reach :: "heap \<Rightarrow> dref \<Rightarrow> dref set" where
  "reach h r = {c. \<exists>xs. walk h r xs = Some c}"

lemma heap_okD: "heap_ok h \<Longrightarrow> r < next_ref h \<Longrightarrow> c \<in> set (children h r) \<Longrightarrow> r < c \<and> c < next_ref h"
  unfolding heap_ok_def by blast

lemma node_modify [simp]:
  "node (modify r f h) x = (if x = r then f (node h r) else node h x)"
  "next_ref (modify r f h) = next_ref h"
  by (simp_all add: modify_def)

lemma alloc_simps [simp]:
  "fst (alloc d h) = next_ref h" "next_ref (snd (alloc d h)) = Suc (next_ref h)"
  "node (snd (alloc d h)) x = (if x = next_ref h then d else node h x)"
  by (simp_all add: alloc_def)

lemma entries_simps [simp]: "entries None = []" "entries (Some l) = l"
  by (simp_all add: entries_def)

lemma walk_append: "walk h r (xs @ ys) = (case walk h r xs of None \<Rightarrow> None | Some c \<Rightarrow> walk h c ys)"
  by (induction xs arbitrary: r) (auto split: option.splits)

lemma self_reach [simp]: "r \<in> reach h r"
  unfolding reach_def by (auto intro: exI [of _ "[]"])

lemma reach_child: "map_of (entries (subDirs (node h r))) x = Some c \<Longrightarrow> reach h c \<subseteq> reach h r"
proof
  fix b assume c: "map_of (entries (subDirs (node h r))) x = Some c" and "b \<in> reach h c"
  then obtain xs where "walk h c xs = Some b" by (auto simp: reach_def)
  with c have "walk h r (x # xs) = Some b" by simp
  then show "b \<in> reach h r" unfolding reach_def by blast
qed

text \<open>Walks, and what they reach, depend only on the nodes that are reached, and not on their \<^verbatim>\<open>directMap\<close>.\<close>

definition agree :: "Directory \<Rightarrow> Directory \<Rightarrow> bool" where
  "agree a b \<longleftrightarrow> itemName a = itemName b \<and> pathToItemName a = pathToItemName b \<and> category a = category b \<and>
     subDirs a = subDirs b \<and> datafile a = datafile b"

lemma agree_refl [simp]: "agree a a"
  by (simp add: agree_def)

lemma agree_trans: "agree a b \<Longrightarrow> agree b c \<Longrightarrow> agree a c"
  by (simp add: agree_def)

lemma walk_frame:
  assumes "\<forall>c \<in> reach h r. agree (node h' c) (node h c)"
  shows "walk h' r xs = walk h r xs"
  using assms
proof (induction xs arbitrary: r)
  case (Cons x xs)
  have "agree (node h' r) (node h r)" using Cons.prems by simp
  then have "subDirs (node h' r) = subDirs (node h r)" by (simp add: agree_def)
  moreover have "walk h' c xs = walk h c xs" if "map_of (entries (subDirs (node h r))) x = Some c" for c
    using Cons.prems reach_child [OF that] by (intro Cons.IH) blast
  ultimately show ?case by (simp split: option.splits)
qed simp

lemma reach_frame:
  assumes "\<forall>c \<in> reach h r. agree (node h' c) (node h c)"
  shows "reach h' r = reach h r"
  using walk_frame [OF assms] unfolding reach_def by metis

lemma reach_children:
  "reach h r \<subseteq> insert r (\<Union>c \<in> set (children h r). reach h c)"
proof
  fix c assume "c \<in> reach h r"
  then obtain xs where xs: "walk h r xs = Some c" by (auto simp: reach_def)
  show "c \<in> insert r (\<Union>c \<in> set (children h r). reach h c)"
  proof (cases xs)
    case (Cons x ys)
    with xs obtain b where b: "map_of (entries (subDirs (node h r))) x = Some b" "walk h b ys = Some c"
      by (auto split: option.splits)
    then have "b \<in> set (children h r)" "c \<in> reach h b"
      by (auto simp: children_def reach_def dest!: map_of_SomeD intro: rev_image_eqI)
    then show ?thesis by blast
  qed (use xs in simp)
qed

section \<open>Walks end\<close>

lemma recurse_ends:
  assumes "heap_ok h" "\<forall>r \<in> set rs. r < next_ref h"
  shows "\<exists>l. recurse h rs = Some l"
proof -
  have step: "\<exists>l. recurse h (r # rs) = Some l" if "r < next_ref h" "\<exists>l. recurse h rs = Some l" for r rs
    using that
  proof (induction "next_ref h - r" arbitrary: r rs rule: less_induct)
    case less
    have kids: "\<forall>c \<in> set (children h r). r < c \<and> c < next_ref h" using assms(1) less.prems(1) unfolding heap_ok_def by blast
    have "\<exists>l. recurse h (cs @ rs) = Some l" if "set cs \<subseteq> set (children h r)" for cs
      using that
    proof (induction cs)
      case (Cons c cs)
      then have "c \<in> set (children h r)" and tl: "\<exists>l. recurse h (cs @ rs) = Some l" by simp_all
      with kids have c: "r < c" "c < next_ref h" by blast+
      then have "next_ref h - c < next_ref h - r" using less.prems(1) by linarith
      from less.hyps [OF this c(2) tl] show ?case by simp
    qed (use less.prems in simp)
    then obtain l where "recurse h (children h r @ rs) = Some l" by blast
    then show ?case by (subst recurse.simps) simp
  qed
  show ?thesis using assms(2)
  proof (induction rs)
    case Nil
    show ?case by (subst recurse.simps) simp
  qed (use step in simp)
qed

section \<open>Mirroring a directory tree\<close>

text \<open>The names of the year files of a directory, and the trees that the loader takes without an error.\<close>

definition bin_names :: "(string \<times> fsnode) list \<Rightarrow> string set" where
  "bin_names es = {x. \<exists>b. (x, RegFile b) \<in> set es \<and> Ext x = ''.bin''}"

definition year_name :: "string \<Rightarrow> bool" where
  "year_name x \<longleftrightarrow> (\<exists>y. 0 \<le> y \<and> y < 2 ^ 15 \<and> x = Itoa y @ ''.bin'')"

fun tree_ok :: "fsnode \<Rightarrow> bool" where
  "tree_ok (RegFile b) = True"
| "tree_ok (Folder es) =
     (distinct (map fst es) \<and> (\<exists>b. map_of es ''category_name'' = Some (RegFile b)) \<and>
      (\<forall>(x, n) \<in> set es. plain_elem x \<and> tree_ok n \<and> (is_folder n \<longrightarrow> x \<noteq> ''metadata.db'' \<and> bin_names es = {})) \<and>
      (\<forall>x \<in> bin_names es. year_name x))"

text \<open>What a node holds of the entries of its directory.\<close>

definition files_of :: "Directory \<Rightarrow> string list \<Rightarrow> (string \<times> fsnode) list \<Rightarrow> bool" where
  "files_of d ps es \<longleftrightarrow>
     (datafile d = None \<longleftrightarrow> bin_names es = {}) \<and> distinct (map fst (entries (datafile d))) \<and>
     fst ` set (entries (datafile d)) = (\<lambda>x. abs_path (ps @ [x])) ` bin_names es \<and>
     (\<forall>(p, f) \<in> set (entries (datafile d)). tbPath f = p \<and> p = abs_path (ps @ [Itoa (tbYear f) @ ''.bin'']))"

lemma files_of_agree: "agree a b \<Longrightarrow> files_of a ps es \<longleftrightarrow> files_of b ps es"
  by (simp add: files_of_def agree_def)

fun mirrors :: "heap \<Rightarrow> dref \<Rightarrow> string list \<Rightarrow> fsnode \<Rightarrow> bool" where
  "mirrors h r ps (RegFile b) = False"
| "mirrors h r ps (Folder es) =
     ((\<exists>b. map_of es ''category_name'' = Some (RegFile b) \<and> category (node h r) = bytes_str b) \<and>
      pathToItemName (node h r) = abs_path ps \<and> files_of (node h r) ps es \<and>
      distinct (map fst (entries (subDirs (node h r)))) \<and>
      fst ` set (entries (subDirs (node h r))) = {x. \<exists>n. (x, n) \<in> set es \<and> is_folder n} \<and>
      (\<forall>(x, n) \<in> set es. is_folder n \<longrightarrow>
         (\<exists>c. map_of (entries (subDirs (node h r))) x = Some c \<and> itemName (node h c) = x \<and> mirrors h c (ps @ [x]) n)))"

definition holds :: "heap \<Rightarrow> dref \<Rightarrow> string list \<Rightarrow> (string \<times> fsnode) list \<Rightarrow> bool" where
  "holds h r ps es \<longleftrightarrow>
     pathToItemName (node h r) = abs_path ps \<and> files_of (node h r) ps es \<and>
      distinct (map fst (entries (subDirs (node h r)))) \<and>
      fst ` set (entries (subDirs (node h r))) = {x. \<exists>n. (x, n) \<in> set es \<and> is_folder n} \<and>
      (\<forall>(x, n) \<in> set es. is_folder n \<longrightarrow>
         (\<exists>c. map_of (entries (subDirs (node h r))) x = Some c \<and> itemName (node h c) = x \<and> mirrors h c (ps @ [x]) n))"

lemma mirrors_holds: "mirrors h r ps (Folder es) \<longleftrightarrow>
    (\<exists>b. map_of es ''category_name'' = Some (RegFile b) \<and> category (node h r) = bytes_str b) \<and> holds h r ps es"
  by (simp add: holds_def)

declare mirrors.simps(2) [simp del]

lemma mirrors_frame:
  assumes "mirrors h r ps n" "\<forall>c \<in> reach h r. agree (node h' c) (node h c)"
  shows "mirrors h' r ps n"
  using assms
proof (induction n arbitrary: r ps)
  case (Folder es)
  have r: "agree (node h' r) (node h r)" using Folder.prems(2) by simp
  have "\<exists>c. map_of (entries (subDirs (node h' r))) x = Some c \<and> itemName (node h' c) = x \<and> mirrors h' c (ps @ [x]) n"
    if xn: "(x, n) \<in> set es" "is_folder n" for x n
  proof -
    from Folder.prems(1) xn obtain c where c: "map_of (entries (subDirs (node h r))) x = Some c" "itemName (node h c) = x"
      "mirrors h c (ps @ [x]) n" by (auto simp: mirrors.simps)
    then have sub: "\<forall>b \<in> reach h c. agree (node h' b) (node h b)" using Folder.prems(2) reach_child by blast
    then have "itemName (node h' c) = x" using c(2) self_reach [of c h] unfolding agree_def by metis
    moreover have "mirrors h' c (ps @ [x]) n" using Folder.IH [OF xn(1) _ c(3) sub] by simp
    ultimately show ?thesis using c(1) r unfolding agree_def by metis
  qed
  moreover have "files_of (node h' r) ps es" using Folder.prems(1) files_of_agree [OF r] unfolding mirrors.simps by blast
  moreover have "category (node h' r) = category (node h r)" "pathToItemName (node h' r) = pathToItemName (node h r)"
    "subDirs (node h' r) = subDirs (node h r)" using r unfolding agree_def by blast+
  ultimately show ?case using Folder.prems(1) unfolding mirrors.simps by auto
qed simp

section \<open>Loading\<close>

definition dmap :: "heap \<Rightarrow> dref \<Rightarrow> path \<Rightarrow> dref option" where
  "dmap h root = map_of (entries (directMap (node h root)))"

text \<open>A directory below \<open>d\<close> that has year files, at its path.\<close>

definition indexed :: "heap \<Rightarrow> dref \<Rightarrow> path \<Rightarrow> dref \<Rightarrow> bool" where
  "indexed h d p r \<longleftrightarrow> r \<in> reach h d \<and> datafile (node h r) \<noteq> None \<and> pathToItemName (node h r) = p"

definition index_extends :: "dref \<Rightarrow> dref \<Rightarrow> heap \<Rightarrow> heap \<Rightarrow> bool" where
  "index_extends root d h0 h \<longleftrightarrow> (\<forall>p r. dmap h root p = Some r \<longleftrightarrow>
     indexed h d p r \<or> dmap h0 root p = Some r \<and> (\<forall>r'. \<not> indexed h d p r')) \<and>
     (\<forall>r. r < next_ref h0 \<longrightarrow> r \<noteq> root \<longrightarrow> directMap (node h r) = directMap (node h0 r))"

text \<open>Loading below \<open>d\<close> changes \<open>d\<close>, the index of the root and new nodes only.\<close>

definition load_frame :: "dref \<Rightarrow> heap \<Rightarrow> heap \<Rightarrow> bool" where
  "load_frame d h0 h \<longleftrightarrow> next_ref h0 \<le> next_ref h \<and> heap_ok h \<and>
     (\<forall>r. r < next_ref h0 \<longrightarrow> r \<noteq> d \<longrightarrow> agree (node h r) (node h0 r)) \<and>
     (\<forall>r. r < next_ref h0 \<longrightarrow> directMap (node h0 r) \<noteq> None \<longrightarrow> directMap (node h r) \<noteq> None) \<and>
     reach h d \<subseteq> insert d {next_ref h0..<next_ref h}"

definition dir_loaded :: "dref \<Rightarrow> dref \<Rightarrow> string list \<Rightarrow> fsnode \<Rightarrow> heap \<Rightarrow> heap \<Rightarrow> bool" where
  "dir_loaded root d ps n h0 h \<longleftrightarrow> mirrors h d ps n \<and> load_frame d h0 h \<and> index_extends root d h0 h"

lemma year_name_parse:
  assumes "0 \<le> y" "y < 2 ^ 15"
  shows "ParseInt (take (length (Itoa y @ ''.bin'') - 4) (Itoa y @ ''.bin'')) 64 = Some y" "to_int16 y = y"
proof -
  have "(2::int) ^ 15 < 2 ^ 63" by simp
  with assms have "y < 2 ^ (64 - 1)" by simp
  with assms show "ParseInt (take (length (Itoa y @ ''.bin'') - 4) (Itoa y @ ''.bin'')) 64 = Some y"
    by (simp add: ParseInt_Itoa)
  show "to_int16 y = y" using assms by (simp add: to_int_id)
qed

lemma set_update_subset: "set (AList.update k v al) \<subseteq> insert (k, v) (set al)"
  by (induction al) auto

lemma bin_names_simps [simp]:
  "bin_names [] = {}"
  "bin_names ((x, RegFile b) # es) = (if Ext x = ''.bin'' then insert x (bin_names es) else bin_names es)"
  "bin_names ((x, Folder fs) # es) = bin_names es"
  "bin_names (es @ es') = bin_names es \<union> bin_names es'"
  by (auto simp: bin_names_def)

lemma heap_ok_modify:
  assumes "heap_ok h" "set (map snd (entries (subDirs (f (node h r))))) \<subseteq> set (children h r)"
  shows "heap_ok (modify r f h)"
  unfolding heap_ok_def
proof (intro allI impI ballI)
  fix x c assume x: "x < next_ref (modify r f h)" "c \<in> set (children (modify r f h) x)"
  then have "c \<in> set (children h x)" using assms(2) by (auto simp: children_def split: if_splits)
  moreover have "x < next_ref h" "next_ref (modify r f h) = next_ref h" using x(1) by simp_all
  ultimately show "x < c \<and> c < next_ref (modify r f h)" using heap_okD [OF assms(1)] by metis
qed

lemma reach_modify:
  assumes "subDirs (f (node h r)) = subDirs (node h r)"
  shows "reach (modify r f h) d = reach h d"
proof -
  have "walk (modify r f h) d xs = walk h d xs" for xs
    by (induction xs arbitrary: d) (auto simp: assms split: option.splits)
  then show ?thesis by (simp add: reach_def)
qed

text \<open>The entry of a year file.\<close>

lemma add_pending_eq:
  assumes "0 \<le> y" "y < 2 ^ 15" "list_all plain_elem (ps @ [Itoa y @ ''.bin''])"
  shows "add_pending root d (abs_path (ps @ [Itoa y @ ''.bin''])) h =
    (modify d (\<lambda>x. x\<lparr>datafile := Some (AList.update (abs_path (ps @ [Itoa y @ ''.bin''])) (pending_info (abs_path (ps @ [Itoa y @ ''.bin''])) y) (entries (datafile x)))\<rparr>)
      (modify root (\<lambda>x. x\<lparr>directMap := Some (AList.update (pathToItemName (node h d)) d (entries (directMap x)))\<rparr>) h), None)"
  using year_name_parse [OF assms(1,2)] Base_abs [OF assms(3)] by (simp add: add_pending_def Let_def)

lemma files_of_add:
  assumes "files_of d ps es" "Ext (Itoa y @ ''.bin'') = ''.bin''"
  shows "files_of (d\<lparr>datafile := Some (AList.update (abs_path (ps @ [Itoa y @ ''.bin''])) (pending_info (abs_path (ps @ [Itoa y @ ''.bin''])) y)
    (entries (datafile d)))\<rparr>) ps (es @ [(Itoa y @ ''.bin'', RegFile b)])"
proof -
  let ?p = "abs_path (ps @ [Itoa y @ ''.bin''])"
  have "\<forall>(p, f) \<in> set (AList.update ?p (pending_info ?p y) (entries (datafile d))). tbPath f = p \<and> p = abs_path (ps @ [Itoa (tbYear f) @ ''.bin''])"
    using assms(1) set_update_subset [of ?p "pending_info ?p y" "entries (datafile d)"]
    unfolding files_of_def by (auto simp: pending_info_def zero_info_def)
  moreover have "distinct (map fst (AList.update ?p (pending_info ?p y) (entries (datafile d))))"
    using assms(1) by (simp add: files_of_def distinct_update)
  ultimately show ?thesis using assms by (auto simp: files_of_def dom_update)
qed

text \<open>Where walks lead.\<close>

lemma reach_eq: "reach h r = insert r (\<Union>b \<in> ran (map_of (entries (subDirs (node h r)))). reach h b)"
proof (intro equalityI subsetI)
  fix c assume "c \<in> reach h r"
  then obtain xs where xs: "walk h r xs = Some c" by (auto simp: reach_def)
  show "c \<in> insert r (\<Union>b \<in> ran (map_of (entries (subDirs (node h r)))). reach h b)"
  proof (cases xs)
    case (Cons x ys)
    with xs obtain b where "map_of (entries (subDirs (node h r))) x = Some b" "walk h b ys = Some c"
      by (auto split: option.splits)
    then have "b \<in> ran (map_of (entries (subDirs (node h r))))" "c \<in> reach h b" by (auto simp: ran_def reach_def)
    then show ?thesis by blast
  qed (use xs in simp)
qed (auto simp: ran_def dest: reach_child)

lemma reach_bounds:
  assumes "heap_ok h" "r < next_ref h" "c \<in> reach h r"
  shows "r \<le> c \<and> c < next_ref h"
proof -
  have "walk h r xs = Some c \<Longrightarrow> r < next_ref h \<Longrightarrow> r \<le> c \<and> c < next_ref h" for xs
  proof (induction xs arbitrary: r)
    case (Cons x xs)
    then obtain b where b: "map_of (entries (subDirs (node h r))) x = Some b" "walk h b xs = Some c"
      by (auto split: option.splits)
    then have "b \<in> set (children h r)" by (auto simp: children_def dest: map_of_SomeD intro: rev_image_eqI)
    then have "r < b" "b < next_ref h" using heap_okD [OF assms(1) Cons.prems(2)] by blast+
    with Cons.IH [OF b(2)] show ?case by linarith
  qed simp
  with assms(2,3) show ?thesis unfolding reach_def by blast
qed

definition entries_ok :: "(string \<times> fsnode) list \<Rightarrow> bool" where
  "entries_ok es \<longleftrightarrow> (\<forall>(x, n) \<in> set es. plain_elem x \<and> tree_ok n)"

lemma tree_ok_entries: "tree_ok (Folder es) \<Longrightarrow> entries_ok es"
  by (auto simp: entries_ok_def)

declare tree_ok.simps(2) [simp del]

lemma entries_okD: "entries_ok es \<Longrightarrow> (x, n) \<in> set es \<Longrightarrow> plain_elem x \<and> tree_ok n"
  unfolding entries_ok_def by blast

lemma holds_kid:
  assumes "holds h r ps es" "map_of (entries (subDirs (node h r))) x = Some c"
  obtains n where "(x, n) \<in> set es" "is_folder n" "itemName (node h c) = x" "mirrors h c (ps @ [x]) n"
proof -
  have "x \<in> fst ` set (entries (subDirs (node h r)))" using assms(2) by (auto dest: map_of_SomeD intro: rev_image_eqI)
  then obtain n where n: "(x, n) \<in> set es" "is_folder n" using assms(1) unfolding holds_def by blast
  then have "\<exists>c. map_of (entries (subDirs (node h r))) x = Some c \<and> itemName (node h c) = x \<and> mirrors h c (ps @ [x]) n"
    using assms(1) unfolding holds_def by blast
  with assms(2) n that show thesis by auto
qed

lemma mirrors_Folder: "mirrors h r ps n \<Longrightarrow> \<exists>es. n = Folder es \<and> holds h r ps es"
  by (cases n) (auto simp: mirrors_holds)

lemma holds_path:
  assumes "holds h r ps es" "entries_ok es" "walk h r xs = Some c"
  shows "pathToItemName (node h c) = abs_path (ps @ xs) \<and> list_all plain_elem xs \<and> (xs \<noteq> [] \<longrightarrow> hd xs \<in> fst ` set es)"
  using assms
proof (induction xs arbitrary: r ps es)
  case (Cons x xs)
  then obtain b where b: "map_of (entries (subDirs (node h r))) x = Some b" "walk h b xs = Some c"
    by (auto split: option.splits)
  from Cons.prems(1) b(1) obtain n where n: "(x, n) \<in> set es" "mirrors h b (ps @ [x]) n" by (rule holds_kid)
  then obtain fs where fs: "n = Folder fs" "holds h b (ps @ [x]) fs" using mirrors_Folder by blast
  have "plain_elem x" "tree_ok (Folder fs)" using entries_okD [OF Cons.prems(2) n(1)] fs(1) by auto
  with Cons.IH [OF fs(2) tree_ok_entries b(2)] n(1) show ?case by (auto intro: rev_image_eqI)
qed (simp add: holds_def)

section \<open>The steps of the loader\<close>

definition load_inv :: "dref \<Rightarrow> dref \<Rightarrow> string list \<Rightarrow> heap \<Rightarrow> (string \<times> fsnode) list \<Rightarrow> heap \<Rightarrow> bool" where
  "load_inv root d ps h0 es h \<longleftrightarrow> holds h d ps es \<and> load_frame d h0 h \<and> index_extends root d h0 h"

lemma holds_no_folder:
  assumes "holds h d ps es" "\<forall>(x, n) \<in> set es. \<not> is_folder n"
  shows "entries (subDirs (node h d)) = []" "reach h d = {d}"
proof -
  have "fst ` set (entries (subDirs (node h d))) = {x. \<exists>n. (x, n) \<in> set es \<and> is_folder n}"
    using assms(1) by (simp only: holds_def)
  also have "\<dots> = {}" using assms(2) by auto
  finally have "fst ` set (entries (subDirs (node h d))) = {}" .
  then show e: "entries (subDirs (node h d)) = []" by simp
  show "reach h d = {d}" using reach_eq [of h d] e by simp
qed

lemma load_inv_file:
  assumes "load_inv root d ps h0 es h" "\<not> is_folder n" "Ext x \<noteq> ''.bin''"
  shows "load_inv root d ps h0 (es @ [(x, n)]) h"
proof -
  obtain b where n: "n = RegFile b" using assms(2) by (cases n) auto
  have "files_of (node h d) ps (es @ [(x, n)]) = files_of (node h d) ps es" using assms(3) by (simp add: files_of_def n)
  with assms(1,2) show ?thesis unfolding load_inv_def holds_def by auto
qed

lemma load_inv_bin:
  fixes y ps b
  defines "x \<equiv> Itoa y @ ''.bin''"
  assumes inv: "load_inv root d ps h0 es h" and nofold: "\<forall>(x, n) \<in> set es. \<not> is_folder n"
    and y: "0 \<le> y" "y < 2 ^ 15" "Ext x = ''.bin''" and plain: "list_all plain_elem (ps @ [x])"
  shows "\<exists>h'. add_pending root d (abs_path (ps @ [x])) h = (h', None) \<and> load_inv root d ps h0 (es @ [(x, RegFile b)]) h'
    \<and> category (node h' d) = category (node h d) \<and> itemName (node h' d) = itemName (node h d)"
proof -
  let ?p = "abs_path (ps @ [x])"
  let ?g = "\<lambda>n::Directory. n\<lparr>directMap := Some (AList.update (pathToItemName (node h d)) d (entries (directMap n)))\<rparr>"
  let ?f = "\<lambda>n::Directory. n\<lparr>datafile := Some (AList.update ?p (pending_info ?p y) (entries (datafile n)))\<rparr>"
  define h' where "h' = modify d ?f (modify root ?g h)"
  from inv have holds: "holds h d ps es" and frame: "load_frame d h0 h" and ext: "index_extends root d h0 h"
    by (simp_all add: load_inv_def)
  note none = holds_no_folder [OF holds nofold]
  have d': "agree (node h' d) (?f (node h d))" by (simp add: h'_def agree_def)
  have reach: "reach h' d = {d}" using none(2) by (simp add: h'_def reach_modify)
  have path: "pathToItemName (node h d) = abs_path ps" using holds by (simp add: holds_def)
  have "files_of (node h' d) ps (es @ [(x, RegFile b)])"
    using files_of_add [of "node h d" ps es y b] holds y(3) files_of_agree [OF d'] by (simp add: holds_def x_def)
  then have "holds h' d ps (es @ [(x, RegFile b)])"
    using holds d' nofold none(1) unfolding holds_def by (auto simp: agree_def)
  moreover have "heap_ok h'" unfolding h'_def
    using frame by (intro heap_ok_modify) (auto simp: load_frame_def children_def)
  then have "load_frame d h0 h'"
    using frame reach unfolding load_frame_def by (auto simp: h'_def agree_def)
  moreover have "index_extends root d h0 h'"
  proof -
    have "dmap h' root = (dmap h root)(abs_path ps \<mapsto> d)" by (simp add: dmap_def h'_def update_conv' path)
    moreover have "indexed h' d p r \<longleftrightarrow> r = d \<and> p = abs_path ps" for p r
      using d' path by (auto simp: indexed_def reach agree_def)
    moreover have "indexed h d p r \<Longrightarrow> r = d \<and> p = abs_path ps" for p r
      using path by (auto simp: indexed_def none(2))
    moreover have "r \<noteq> root \<Longrightarrow> directMap (node h' r) = directMap (node h r)" for r by (simp add: h'_def)
    ultimately show ?thesis using ext unfolding index_extends_def by (auto split: if_splits)
  qed
  ultimately show ?thesis
    using add_pending_eq [OF y(1,2), of ps root d h] plain unfolding load_inv_def
    by (intro exI [of _ h']) (simp add: h'_def x_def)
qed

text \<open>
  Entering a subdirectory \<open>x\<close> with the new node \<open>c\<close>: the heap \<open>h2\<close> before and \<open>h3\<close> after it is dir_loaded.
\<close>

definition folder_step :: "dref \<Rightarrow> dref \<Rightarrow> string list \<Rightarrow> heap \<Rightarrow> (string \<times> fsnode) list \<Rightarrow> heap \<Rightarrow> string \<Rightarrow> fsnode \<Rightarrow> heap \<Rightarrow> heap \<Rightarrow> bool" where
  "folder_step root d ps h0 es h x n h2 h3 \<longleftrightarrow>
     load_inv root d ps h0 es h \<and> d < next_ref h0 \<and> root < next_ref h0 \<and> next_ref h2 = Suc (next_ref h) \<and>
     (\<exists>z. node h2 = (node h)(next_ref h := z,
        d := (node h d)\<lparr>subDirs := Some (AList.update x (next_ref h) (entries (subDirs (node h d)))), datafile := None\<rparr>)) \<and>
     dir_loaded root (next_ref h) (ps @ [x]) n h2 h3 \<and> itemName (node h3 (next_ref h)) = x \<and>
     x \<notin> fst ` set es \<and> bin_names es = {} \<and> entries_ok es \<and> tree_ok n \<and> plain_elem x \<and> list_all plain_elem ps"

lemma folder_refs:
  assumes "folder_step root d ps h0 es h x n h2 h3"
  shows "d < next_ref h" "root < next_ref h" "next_ref h0 \<le> next_ref h" "next_ref h < next_ref h3" "heap_ok h" "heap_ok h3"
  using assms unfolding folder_step_def load_inv_def dir_loaded_def load_frame_def by auto

lemma folder_node:
  assumes "folder_step root d ps h0 es h x n h2 h3"
  shows "map_of (entries (subDirs (node h d))) x = None" "datafile (node h d) = None"
    "map_of (entries (subDirs (node h3 d))) = (map_of (entries (subDirs (node h d))))(x \<mapsto> next_ref h)"
    "fst ` set (entries (subDirs (node h3 d))) = insert x (fst ` set (entries (subDirs (node h d))))"
    "datafile (node h3 d) = None" "pathToItemName (node h3 d) = abs_path ps" "dmap h2 root = dmap h root"
    "r < next_ref h \<Longrightarrow> r \<noteq> d \<Longrightarrow> agree (node h3 r) (node h r)" "distinct (map fst (entries (subDirs (node h3 d))))"
proof -
  note refs = folder_refs [OF assms]
  have holds: "holds h d ps es" and es: "x \<notin> fst ` set es" "bin_names es = {}"
    using assms by (simp_all add: folder_step_def load_inv_def)
  have names: "fst ` set (entries (subDirs (node h d))) = {x. \<exists>n. (x, n) \<in> set es \<and> is_folder n}"
    using holds by (simp only: holds_def)
  have "x \<notin> fst ` set (entries (subDirs (node h d)))" unfolding names using es(1) by force
  then show "map_of (entries (subDirs (node h d))) x = None" by (simp add: map_of_eq_None_iff)
  show "datafile (node h d) = None" using holds es(2) by (simp add: holds_def files_of_def)
  obtain z where h2: "node h2 = (node h)(next_ref h := z,
        d := (node h d)\<lparr>subDirs := Some (AList.update x (next_ref h) (entries (subDirs (node h d)))), datafile := None\<rparr>)"
    and ext: "next_ref h2 = Suc (next_ref h)" and frame: "load_frame (next_ref h) h2 h3"
    using assms unfolding folder_step_def dir_loaded_def by blast
  have ag: "agree (node h3 r) (node h2 r)" if "r < next_ref h" for r using frame that ext unfolding load_frame_def by auto
  then show "r < next_ref h \<Longrightarrow> r \<noteq> d \<Longrightarrow> agree (node h3 r) (node h r)" by (metis h2 fun_upd_other less_irrefl)
  show "map_of (entries (subDirs (node h3 d))) = (map_of (entries (subDirs (node h d))))(x \<mapsto> next_ref h)"
    "fst ` set (entries (subDirs (node h3 d))) = insert x (fst ` set (entries (subDirs (node h d))))"
    "datafile (node h3 d) = None" "pathToItemName (node h3 d) = abs_path ps" "distinct (map fst (entries (subDirs (node h3 d))))"
    using ag [OF refs(1)] holds by (simp_all add: agree_def h2 update_conv' dom_update holds_def distinct_update)
  show "dmap h2 root = dmap h root" using refs(2) by (auto simp: dmap_def h2)
qed

lemma folder_kids:
  assumes "folder_step root d ps h0 es h x n h2 h3" "b \<in> ran (map_of (entries (subDirs (node h d))))" "r \<in> reach h b"
  shows "agree (node h3 r) (node h r) \<and> r \<in> reach h d"
proof -
  note refs = folder_refs [OF assms(1)]
  have "b \<in> set (children h d)"
    using assms(2) unfolding ran_def children_def by (auto dest: map_of_SomeD intro: rev_image_eqI)
  then have "d < b" "b < next_ref h" using heap_okD [OF refs(5,1)] by blast+
  then have "d < r" "r < next_ref h" using reach_bounds [OF refs(5) _ assms(3)] by linarith+
  moreover have "r \<in> reach h d" using assms(2,3) reach_eq [of h d] by blast
  ultimately show ?thesis using folder_node(8) [OF assms(1)] by simp
qed

lemma folder_reach:
  assumes "folder_step root d ps h0 es h x n h2 h3"
  shows "reach h3 d = reach h d \<union> reach h3 (next_ref h)" "reach h d \<inter> reach h3 (next_ref h) = {}"
proof -
  let ?kid = "\<lambda>h. map_of (entries (subDirs (node h d)))"
  have "reach h3 b = reach h b" if "b \<in> ran (?kid h)" for b
    by (rule reach_frame) (use folder_kids [OF assms that] in blast)
  moreover have "ran (?kid h3) = insert (next_ref h) (ran (?kid h))"
    unfolding folder_node(3) [OF assms] using folder_node(1) [OF assms] by (rule ran_map_upd)
  ultimately show "reach h3 d = reach h d \<union> reach h3 (next_ref h)" using reach_eq [of h3 d] reach_eq [of h d] by auto
  note refs = folder_refs [OF assms]
  show "reach h d \<inter> reach h3 (next_ref h) = {}"
    using reach_bounds [OF refs(5,1)] reach_bounds [OF refs(6,4)] by (meson disjoint_iff leD)
qed

lemma folder_indexed:
  assumes "folder_step root d ps h0 es h x n h2 h3"
  shows "indexed h3 d p r \<longleftrightarrow> indexed h d p r \<or> indexed h3 (next_ref h) p r"
proof (cases "r \<in> reach h3 (next_ref h)")
  case True
  with folder_reach [OF assms] show ?thesis by (auto simp: indexed_def)
next
  case False
  note split = folder_reach(1) [OF assms]
  show ?thesis
  proof (cases "r = d \<or> r \<notin> reach h d")
    case True
    with False folder_node [OF assms] show ?thesis by (auto simp: indexed_def split)
  next
    case inner: False
    then obtain b where "b \<in> ran (map_of (entries (subDirs (node h d))))" "r \<in> reach h b" using reach_eq [of h d] by blast
    then have "agree (node h3 r) (node h r)" using folder_kids [OF assms] by blast
    with False inner show ?thesis unfolding indexed_def agree_def split by auto
  qed
qed

lemma folder_apart:
  assumes "folder_step root d ps h0 es h x n h2 h3" "indexed h d p r"
  shows "\<not> indexed h3 (next_ref h) p r'"
proof
  have holds: "holds h d ps es" and mirr: "mirrors h3 (next_ref h) (ps @ [x]) n"
    and ok: "entries_ok es" "tree_ok n" "plain_elem x" "list_all plain_elem ps"
    using assms(1) by (simp_all add: folder_step_def load_inv_def dir_loaded_def)
  obtain fs where n: "n = Folder fs" "holds h3 (next_ref h) (ps @ [x]) fs" using mirrors_Folder [OF mirr] by blast
  assume "indexed h3 (next_ref h) p r'"
  then obtain xs where xs: "walk h3 (next_ref h) xs = Some r'" "pathToItemName (node h3 r') = p" by (auto simp: indexed_def reach_def)
  from assms(2) obtain zs where zs: "walk h d zs = Some r" "pathToItemName (node h r) = p" by (auto simp: indexed_def reach_def)
  have "abs_path (ps @ x # xs) = abs_path (ps @ zs)" "list_all plain_elem (ps @ x # xs)" "list_all plain_elem (ps @ zs)"
    using holds_path [OF n(2) tree_ok_entries xs(1)] holds_path [OF holds ok(1) zs(1)] xs(2) zs(2) ok n(1) by auto
  then have "zs = x # xs" using abs_path_inj by blast
  with zs(1) folder_node(1) [OF assms(1)] show False by simp
qed

lemma folder_holds:
  assumes "folder_step root d ps h0 es h x n h2 h3"
  shows "holds h3 d ps (es @ [(x, n)])"
proof -
  let ?kid = "\<lambda>h. map_of (entries (subDirs (node h d)))"
  note nd = folder_node [OF assms]
  have holds: "holds h d ps es" and mirr: "mirrors h3 (next_ref h) (ps @ [x]) n" "itemName (node h3 (next_ref h)) = x"
    and bins: "bin_names es = {}" using assms by (simp_all add: folder_step_def load_inv_def dir_loaded_def)
  have n: "is_folder n" using mirr(1) by (cases n) auto
  have "\<exists>b. ?kid h3 y = Some b \<and> itemName (node h3 b) = y \<and> mirrors h3 b (ps @ [y]) m"
    if ym: "(y, m) \<in> set (es @ [(x, n)])" "is_folder m" for y m
  proof (cases "(y, m) \<in> set es")
    case True
    then obtain b where b: "?kid h y = Some b" "itemName (node h b) = y" "mirrors h b (ps @ [y]) m"
      using holds ym(2) unfolding holds_def by blast
    then have fr: "\<forall>r \<in> reach h b. agree (node h3 r) (node h r)" using folder_kids [OF assms] by (auto simp: ran_def)
    then have "itemName (node h3 b) = y" using b(2) by (auto simp: agree_def)
    moreover have "?kid h3 y = Some b" using nd(1,3) b(1) by (auto simp: fun_upd_def)
    ultimately show ?thesis using mirrors_frame [OF b(3) fr] by blast
  qed (use ym nd(3) mirr in auto)
  moreover have "fst ` set (entries (subDirs (node h3 d))) = {y. \<exists>m. (y, m) \<in> set (es @ [(x, n)]) \<and> is_folder m}"
    unfolding nd(4) using holds n by (auto simp: holds_def)
  moreover have "files_of (node h3 d) ps (es @ [(x, n)])"
    using nd(5) bins n by (cases n) (simp_all add: files_of_def)
  ultimately show ?thesis using nd(6,9) unfolding holds_def by blast
qed

lemma load_inv_folder:
  assumes "folder_step root d ps h0 es h x n h2 h3"
  shows "load_inv root d ps h0 (es @ [(x, n)]) h3"
proof -
  note refs = folder_refs [OF assms]
  have frame: "load_frame d h0 h" and ext: "index_extends root d h0 h" and d: "d < next_ref h0"
    and frame3: "load_frame (next_ref h) h2 h3" and ext3: "index_extends root (next_ref h) h2 h3" and h2: "next_ref h2 = Suc (next_ref h)"
    using assms by (simp_all add: folder_step_def load_inv_def dir_loaded_def)
  have "agree (node h3 r) (node h0 r)" if "r < next_ref h0" "r \<noteq> d" for r
  proof -
    have "agree (node h3 r) (node h r)" using folder_node(8) [OF assms] that refs(3) by simp
    moreover have "agree (node h r) (node h0 r)" using frame that unfolding load_frame_def by blast
    ultimately show ?thesis by (rule agree_trans)
  qed
  moreover have "directMap (node h3 r) \<noteq> None" if r: "r < next_ref h0" "directMap (node h0 r) \<noteq> None" for r
  proof -
    have "directMap (node h r) \<noteq> None" using frame r unfolding load_frame_def by blast
    moreover have "directMap (node h2 r) = directMap (node h r)"
      using assms r(1) refs(3) unfolding folder_step_def by auto
    ultimately show ?thesis using frame3 r(1) refs(3) h2 unfolding load_frame_def by auto
  qed
  moreover have "reach h3 d \<subseteq> insert d {next_ref h0..<next_ref h3}"
    using folder_reach(1) [OF assms] frame frame3 refs h2 unfolding load_frame_def by auto
  ultimately have fr: "load_frame d h0 h3" using refs unfolding load_frame_def by auto
  have "directMap (node h3 r) = directMap (node h0 r)" if "r < next_ref h0" "r \<noteq> root" for r
  proof -
    have "directMap (node h2 r) = directMap (node h r)"
      using assms that(1) refs(3) unfolding folder_step_def by auto
    then show ?thesis using ext ext3 that refs(3) h2 unfolding index_extends_def by auto
  qed
  moreover have "dmap h3 root p = Some r \<longleftrightarrow>
      indexed h3 d p r \<or> dmap h0 root p = Some r \<and> (\<forall>r'. \<not> indexed h3 d p r')" for p r
  proof -
    have "dmap h root p = Some r \<longleftrightarrow> indexed h d p r \<or> dmap h0 root p = Some r \<and> (\<forall>r'. \<not> indexed h d p r')"
      using ext unfolding index_extends_def by blast
    moreover have "dmap h3 root p = Some r \<longleftrightarrow>
        indexed h3 (next_ref h) p r \<or> dmap h root p = Some r \<and> (\<forall>r'. \<not> indexed h3 (next_ref h) p r')"
      using ext3 unfolding index_extends_def folder_node(7) [OF assms] by blast
    ultimately show ?thesis unfolding folder_indexed [OF assms] using folder_apart [OF assms] by blast
  qed
  ultimately have "index_extends root d h0 h3" unfolding index_extends_def by blast
  with fr show ?thesis using folder_holds [OF assms] by (simp add: load_inv_def)
qed

lemma heap_ok_enter:
  assumes "heap_ok h" "d < next_ref h" "subDirs z = None"
  shows "heap_ok (modify d (\<lambda>n. n\<lparr>subDirs := Some (AList.update x (next_ref h) (entries (subDirs n))), datafile := None\<rparr>)
    (snd (alloc z h)))" (is "heap_ok ?h")
  unfolding heap_ok_def
proof (intro allI impI ballI)
  fix r c assume r: "r < next_ref ?h" and c: "c \<in> set (children ?h r)"
  have nx: "next_ref ?h = Suc (next_ref h)" by simp
  show "r < c \<and> c < next_ref ?h"
  proof (cases "r = next_ref h")
    case True
    with assms(2,3) c show ?thesis by (auto simp: children_def)
  next
    case False
    with r nx have "r < next_ref h" by linarith
    then have kid: "c \<in> set (children h r) \<Longrightarrow> r < c \<and> c < next_ref h" by (rule heap_okD [OF assms(1)])
    have "c \<in> set (children h r) \<or> r = d \<and> c = next_ref h"
      using c False assms(2) set_update_subset [of x "next_ref h" "entries (subDirs (node h d))"]
      by (auto simp: children_def split: if_splits)
    then show ?thesis using kid assms(2) nx by linarith
  qed
qed

lemma enter_folder:
  assumes inv: "load_inv root d ps h0 es h" and refs: "d < next_ref h0" "root < next_ref h0"
    and es: "x \<notin> fst ` set es" "bin_names es = {}" "entries_ok es" "tree_ok n" "plain_elem x" "list_all plain_elem ps"
    and IH: "\<And>c h2. c < next_ref h2 \<Longrightarrow> root < next_ref h2 \<Longrightarrow> heap_ok h2 \<Longrightarrow> datafile (node h2 c) = None \<Longrightarrow>
      \<exists>h3. loader root rp (Inr n) c p h2 = (h3, None) \<and> dir_loaded root c (ps @ [x]) n h2 h3 \<and> itemName (node h3 c) = x"
  shows "\<exists>h3. (let (r, h) = alloc (zero_dir\<lparr>itemName := x, pathToItemName := q\<rparr>) h;
      h = modify d (\<lambda>n. n\<lparr>subDirs := Some (AList.update x r (entries (subDirs n))), datafile := None\<rparr>) h
    in loader root rp (Inr n) r p h) = (h3, None) \<and> load_inv root d ps h0 (es @ [(x, n)]) h3 \<and>
    category (node h3 d) = category (node h d) \<and> itemName (node h3 d) = itemName (node h d)"
proof -
  let ?z = "zero_dir\<lparr>itemName := x, pathToItemName := q\<rparr>"
  define h2 where "h2 = modify d (\<lambda>n. n\<lparr>subDirs := Some (AList.update x (next_ref h) (entries (subDirs n))), datafile := None\<rparr>) (snd (alloc ?z h))"
  have frame: "load_frame d h0 h" using inv by (simp add: load_inv_def)
  then have ok: "heap_ok h" "d < next_ref h" "root < next_ref h" "next_ref h2 = Suc (next_ref h)"
    using refs by (auto simp: load_frame_def h2_def)
  have nd: "node h2 = (node h)(next_ref h := ?z,
      d := (node h d)\<lparr>subDirs := Some (AList.update x (next_ref h) (entries (subDirs (node h d)))), datafile := None\<rparr>)"
    using ok(2) by (auto simp: h2_def fun_eq_iff)
  have "heap_ok h2" unfolding h2_def by (rule heap_ok_enter [OF ok(1,2)]) (simp add: zero_dir_def)
  moreover have "datafile (node h2 (next_ref h)) = None" using ok(2) by (simp add: nd zero_dir_def)
  ultimately obtain h3 where h3: "loader root rp (Inr n) (next_ref h) p h2 = (h3, None)"
    "dir_loaded root (next_ref h) (ps @ [x]) n h2 h3" "itemName (node h3 (next_ref h)) = x"
    using IH [of "next_ref h" h2] ok by auto
  have "folder_step root d ps h0 es h x n h2 h3"
    using inv refs ok(4) nd h3 es unfolding folder_step_def by blast
  then have "load_inv root d ps h0 (es @ [(x, n)]) h3" by (rule load_inv_folder)
  moreover have "agree (node h3 d) (node h2 d)" using h3(2) ok unfolding dir_loaded_def load_frame_def by auto
  then have "category (node h3 d) = category (node h d)" "itemName (node h3 d) = itemName (node h d)"
    by (simp_all add: agree_def nd)
  moreover have "alloc ?z h = (next_ref h, snd (alloc ?z h))" by (simp add: prod_eq_iff)
  ultimately show ?thesis using h3(1) unfolding h2_def by (intro exI [of _ h3]) (simp add: Let_def case_prod_beta)
qed

lemma tree_okD:
  assumes "tree_ok (Folder es)"
  shows "distinct (map fst es)" "\<exists>b. map_of es ''category_name'' = Some (RegFile b)"
    "(x, n) \<in> set es \<Longrightarrow> plain_elem x" "(x, n) \<in> set es \<Longrightarrow> tree_ok n"
    "(x, n) \<in> set es \<Longrightarrow> is_folder n \<Longrightarrow> x \<noteq> ''metadata.db'' \<and> bin_names es = {}"
    "x \<in> bin_names es \<Longrightarrow> year_name x"
  using assms unfolding tree_ok.simps(2) by blast+

lemma load_entries_loads:
  assumes "load_inv root d ps h0 before g" "tree_ok (Folder (before @ es))"
    and refs: "d < next_ref h0" "root < next_ref h0" and ps: "list_all plain_elem ps" "ps \<noteq> []"
    and IH: "\<And>x n c h2. (x, n) \<in> set es \<Longrightarrow> is_folder n \<Longrightarrow>
      c < next_ref h2 \<Longrightarrow> root < next_ref h2 \<Longrightarrow> heap_ok h2 \<Longrightarrow> datafile (node h2 c) = None \<Longrightarrow>
      \<exists>h3. loader root rp (Inr n) c (abs_path (ps @ [x])) h2 = (h3, None) \<and> dir_loaded root c (ps @ [x]) n h2 h3 \<and> itemName (node h3 c) = x"
  shows "\<exists>h'. load_entries root rp es d (abs_path ps) g = (h', None) \<and> load_inv root d ps h0 (before @ es) h' \<and>
    category (node h' d) = category (node g d) \<and> itemName (node h' d) = itemName (node g d)"
  using assms(1,2) IH
proof (induction es arbitrary: before g)
  case (Cons e es)
  obtain x n where e: "e = (x, n)" by (cases e)
  note ok = tree_okD [OF Cons.prems(2)]
  have x: "plain_elem x" "tree_ok n" using ok(3,4) [of x n] by (simp_all add: e)
  have path: "Clean (abs_path ps @ CHR ''/'' # x) = abs_path (ps @ [x])" using Clean_child [OF ps x(1)] by simp
  have ext: "Ext (abs_path (ps @ [x])) = Ext x" using Ext_abs ps(1) x(1) by simp
  have pre: "entries_ok before" "x \<notin> fst ` set before"
    using tree_ok_entries [OF Cons.prems(2)] ok(1) by (auto simp: entries_ok_def e)
  have rest: "\<exists>h'. load_entries root rp es d (abs_path ps) g1 = (h', None) \<and> load_inv root d ps h0 (before @ e # es) h' \<and>
      category (node h' d) = category (node g d) \<and> itemName (node h' d) = itemName (node g d)"
    if "load_inv root d ps h0 (before @ [e]) g1" "category (node g1 d) = category (node g d)" "itemName (node g1 d) = itemName (node g d)" for g1
    using Cons.IH [OF that(1)] Cons.prems(2,3) that(2,3) by simp
  consider (folder) "is_folder n" | (bin) "\<not> is_folder n" "Ext x = ''.bin''" | (other) "\<not> is_folder n" "Ext x \<noteq> ''.bin''" by blast
  then show ?case
  proof cases
    case folder
    have bins: "x \<noteq> ''metadata.db''" "bin_names before = {}" using ok(5) [of x n] folder by (simp_all add: e)
    have xin: "(x, n) \<in> set (e # es)" by (simp add: e)
    have "\<exists>h3. (let (r, h) = alloc (zero_dir\<lparr>itemName := x, pathToItemName := abs_path ps\<rparr>) g;
        h = modify d (\<lambda>n. n\<lparr>subDirs := Some (AList.update x r (entries (subDirs n))), datafile := None\<rparr>) h
      in loader root rp (Inr n) r (abs_path (ps @ [x])) h) = (h3, None) \<and> load_inv root d ps h0 (before @ [(x, n)]) h3 \<and>
      category (node h3 d) = category (node g d) \<and> itemName (node h3 d) = itemName (node g d)"
      by (rule enter_folder [OF Cons.prems(1) refs pre(2) bins(2) pre(1) x(2,1) ps(1)])
        (rule Cons.prems(3) [OF xin folder]; assumption)
    then obtain h3 where "(let (r, h) = alloc (zero_dir\<lparr>itemName := x, pathToItemName := abs_path ps\<rparr>) g;
        h = modify d (\<lambda>n. n\<lparr>subDirs := Some (AList.update x r (entries (subDirs n))), datafile := None\<rparr>) h
      in loader root rp (Inr n) r (abs_path (ps @ [x])) h) = (h3, None)" "load_inv root d ps h0 (before @ [(x, n)]) h3"
      "category (node h3 d) = category (node g d)" "itemName (node h3 d) = itemName (node g d)" by blast
    then show ?thesis
      using rest [of h3] folder bins(1) by (simp add: e load_entries.simps path Let_def case_prod_beta)
  next
    case bin
    then obtain b where b: "n = RegFile b" by (cases n) auto
    have inbin: "x \<in> bin_names (before @ e # es)" using bin b by (simp add: e)
    then obtain y where y: "0 \<le> y" "y < 2 ^ 15" "x = Itoa y @ ''.bin''" using ok(6) unfolding year_name_def by blast
    have "\<forall>(z, m) \<in> set before. \<not> is_folder m" using ok(5) inbin by fastforce
    from load_inv_bin [OF Cons.prems(1) this y(1,2), of b] bin(2) ps(1) x(1)
    obtain h' where "add_pending root d (abs_path (ps @ [x])) g = (h', None)" "load_inv root d ps h0 (before @ [e]) h'"
      "category (node h' d) = category (node g d)" "itemName (node h' d) = itemName (node g d)"
      unfolding y(3) [symmetric] by (auto simp: e b)
    then show ?thesis using rest [of h'] bin ext by (simp add: e load_entries.simps path Let_def)
  next
    case other
    then have "load_inv root d ps h0 (before @ [e]) g" using load_inv_file [OF Cons.prems(1)] by (simp add: e)
    then show ?thesis using rest [of g] other ext by (simp add: e load_entries.simps path Let_def)
  qed
qed simp

lemma load_inv_start:
  assumes "d < next_ref h" "heap_ok h" "datafile (node h d) = None" "list_all plain_elem ps" "pathToItemName x = abs_path ps"
    "subDirs x = Some []" "datafile x = None" "directMap x = directMap (node h d)"
  shows "load_inv root d ps h [] (modify d (\<lambda>_. x) h)" (is "load_inv root d ps h [] ?h")
proof -
  have reach: "reach ?h d = {d}" using reach_eq [of ?h d] assms(6) by simp
  have "heap_ok ?h" using assms(2,6) by (intro heap_ok_modify) simp_all
  then have "load_frame d h ?h" using reach assms(8) by (simp add: load_frame_def)
  moreover have "dmap ?h root = dmap h root" using assms(8) by (simp add: dmap_def)
  then have "index_extends root d h ?h" using assms(7,8) by (simp add: index_extends_def indexed_def reach)
  moreover have "holds ?h d ps []" using assms by (simp add: holds_def files_of_def)
  ultimately show ?thesis by (simp add: load_inv_def)
qed

lemma loader_loads:
  assumes "tree_ok n" "is_folder n" "list_all plain_elem (rs @ xs)" "rs \<noteq> []" "d < next_ref h" "root < next_ref h"
    "heap_ok h" "datafile (node h d) = None"
  shows "\<exists>h'. loader root (abs_path rs) (Inr n) d (abs_path (rs @ xs)) h = (h', None) \<and> dir_loaded root d (rs @ xs) n h h' \<and>
    itemName (node h' d) = (if xs = [] then ''.'' else last xs)"
  using assms
proof (induction n arbitrary: xs d h)
  case (Folder es)
  note ok = tree_okD [OF Folder.prems(1)]
  obtain b where b: "map_of es ''category_name'' = Some (RegFile b)" using ok(2) by blast
  let ?name = "if xs = [] then ''.'' else last xs"
  let ?x = "(node h d)\<lparr>itemName := ?name, pathToItemName := abs_path (rs @ xs), category := bytes_str b, subDirs := Some []\<rparr>"
  have base: "Base (case Rel (abs_path rs) (abs_path (rs @ xs)) of None \<Rightarrow> '''' | Some p \<Rightarrow> p) = ?name"
  proof (cases xs rule: rev_cases)
    case Nil
    then show ?thesis using Rel_abs [of rs "[]"] Folder.prems(3) by (simp, code_simp)
  next
    case (snoc ys y)
    then show ?thesis using Rel_abs [of rs xs] Base_join [of ys y] Folder.prems(3) by simp
  qed
  have start: "loader root (abs_path rs) (Inr (Folder es)) d (abs_path (rs @ xs)) h =
      load_entries root (abs_path rs) es d (abs_path (rs @ xs)) (modify d (\<lambda>_. ?x) h)"
    unfolding loader.simps Let_def base using Clean_abs [OF Folder.prems(3)] b by (simp add: modify_def)
  have IH: "\<exists>h3. loader root (abs_path rs) (Inr n) c (abs_path ((rs @ xs) @ [x])) h2 = (h3, None) \<and>
      dir_loaded root c ((rs @ xs) @ [x]) n h2 h3 \<and> itemName (node h3 c) = x"
    if "(x, n) \<in> set es" "is_folder n" "c < next_ref h2" "root < next_ref h2" "heap_ok h2" "datafile (node h2 c) = None" for x n c h2
    using Folder.IH [OF that(1) _ ok(4) [OF that(1)] that(2), of "xs @ [x]" c h2] that ok(3) [OF that(1)] Folder.prems(3,4) by simp
  have inv: "load_inv root d (rs @ xs) h [] (modify d (\<lambda>_. ?x) h)"
    by (rule load_inv_start) (use Folder.prems in simp_all)
  have nodes: "tree_ok (Folder ([] @ es))" "rs @ xs \<noteq> []" using Folder.prems(1,4) by simp_all
  have "\<exists>h'. load_entries root (abs_path rs) es d (abs_path (rs @ xs)) (modify d (\<lambda>_. ?x) h) = (h', None) \<and>
    load_inv root d (rs @ xs) h ([] @ es) h' \<and> category (node h' d) = category (node (modify d (\<lambda>_. ?x) h) d) \<and>
    itemName (node h' d) = itemName (node (modify d (\<lambda>_. ?x) h) d)"
    by (rule load_entries_loads [OF inv nodes(1) Folder.prems(5,6,3) nodes(2)]) (rule IH; assumption)
  then obtain h' where h': "load_entries root (abs_path rs) es d (abs_path (rs @ xs)) (modify d (\<lambda>_. ?x) h) = (h', None)"
    "load_inv root d (rs @ xs) h es h'" "category (node h' d) = bytes_str b" "itemName (node h' d) = ?name"
    by auto
  then have "dir_loaded root d (rs @ xs) (Folder es) h h'"
    using b unfolding dir_loaded_def load_inv_def mirrors_holds by blast
  with h' start show ?case by auto
qed simp

text \<open>
  The state of a catalog: the node \<open>root\<close> mirrors the tree at its path, and its index leads to every directory
  with year files and nowhere else. The root directory of a new database has no category yet.
\<close>

definition fresh_root :: "(string \<times> fsnode) list \<Rightarrow> bool" where
  "fresh_root es \<longleftrightarrow> map_of es ''category_name'' = None \<and> (\<forall>(x, n) \<in> set es. \<not> is_folder n \<and> Ext x \<noteq> ''.bin'')"

definition root_mirrors :: "heap \<Rightarrow> dref \<Rightarrow> string list \<Rightarrow> (string \<times> fsnode) list \<Rightarrow> bool" where
  "root_mirrors h root ps es \<longleftrightarrow> holds h root ps es \<and>
     category (node h root) = (case map_of es ''category_name'' of Some (RegFile b) \<Rightarrow> bytes_str b | _ \<Rightarrow> [])"

definition catalog_ok :: "fsnode \<Rightarrow> dref \<Rightarrow> string list \<Rightarrow> heap \<Rightarrow> bool" where
  "catalog_ok t root ps h \<longleftrightarrow> list_all plain_elem ps \<and> ps \<noteq> [] \<and> heap_ok h \<and> root < next_ref h \<and> directMap (node h root) \<noteq> None \<and>
     (\<exists>es. lookup t ps = Inr (Folder es) \<and> (tree_ok (Folder es) \<or> fresh_root es) \<and> root_mirrors h root ps es) \<and>
     (\<forall>p r. dmap h root p = Some r \<longleftrightarrow> indexed h root p r)"

lemma heap_ok_alloc:
  assumes "heap_ok h" "subDirs z = None"
  shows "heap_ok (snd (alloc z h))"
  unfolding heap_ok_def
proof (intro allI impI ballI)
  fix r c assume r: "r < next_ref (snd (alloc z h))" and c: "c \<in> set (children (snd (alloc z h)) r)"
  have "r \<noteq> next_ref h" using c assms(2) by (auto simp: children_def)
  with r have "r < next_ref h" by simp
  moreover have "c \<in> set (children h r)" using c \<open>r \<noteq> next_ref h\<close> by (simp add: children_def)
  ultimately have "r < c \<and> c < next_ref h" by (rule heap_okD [OF assms(1)])
  then show "r < c \<and> c < next_ref (snd (alloc z h))" by simp
qed

lemma NewDirectory_loads:
  assumes "lookup t ps = Inr n" "tree_ok n" "is_folder n" "list_all plain_elem ps" "ps \<noteq> []" "heap_ok h"
  shows "\<exists>h'. NewDirectory t (abs_path ps) h = (next_ref h, h') \<and>
    dir_loaded (next_ref h) (next_ref h) ps n (snd (alloc (zero_dir\<lparr>directMap := Some []\<rparr>) h)) h'"
proof -
  let ?h = "snd (alloc (zero_dir\<lparr>directMap := Some []\<rparr>) h)"
  have "heap_ok ?h" using assms(6) by (rule heap_ok_alloc) (simp add: zero_dir_def)
  then obtain h' where h': "loader (next_ref h) (abs_path ps) (Inr n) (next_ref h) (abs_path ps) ?h = (h', None)"
    "dir_loaded (next_ref h) (next_ref h) ps n ?h h'"
    using loader_loads [OF assms(2,3), of ps "[]" "next_ref h" ?h "next_ref h"] assms(4,5) by (auto simp: zero_dir_def)
  have "stat t (abs_path ps) = Inr n" using assms(1,4) by (simp add: stat_def path_elems_abs)
  with h' show ?thesis by (simp add: NewDirectory_def load_dir_def case_prod_beta)
qed

lemma loaded_index:
  assumes "dir_loaded d d ps n h0 h" "dmap h0 d = Map.empty"
  shows "dmap h d p = Some r \<longleftrightarrow> indexed h d p r"
  using assms by (simp add: dir_loaded_def index_extends_def)

lemma NewDirectory_fresh:
  assumes "lookup t ps = Inr (Folder es)" "fresh_root es" "list_all plain_elem ps" "ps \<noteq> []" "heap_ok h"
  shows "catalog_ok t (next_ref h) ps (snd (NewDirectory t (abs_path ps) h))"
proof -
  let ?r = "next_ref h" and ?x = "zero_dir\<lparr>itemName := ''.'', pathToItemName := abs_path ps, directMap := Some []\<rparr>"
  define h' where "h' = snd (alloc ?x h)"
  have "stat t (abs_path ps) = Inr (Folder es)" using assms(1,3) by (simp add: stat_def path_elems_abs)
  moreover have "Base (case Rel (abs_path ps) (abs_path ps) of None \<Rightarrow> '''' | Some p \<Rightarrow> p) = ''.''"
    using Rel_abs [of ps "[]"] assms(3) by (simp, code_simp)
  ultimately have eq: "NewDirectory t (abs_path ps) h = (?r, h')"
    using assms(2,3) by (simp add: NewDirectory_def load_dir_def loader.simps Let_def alloc_def modify_def fresh_root_def Clean_abs zero_dir_def h'_def)
  have reach: "reach h' ?r = {?r}" using reach_eq [of h' ?r] by (simp add: h'_def zero_dir_def)
  have "bin_names es = {}" "{x. \<exists>n. (x, n) \<in> set es \<and> is_folder n} = {}"
    using assms(2) by (auto simp: fresh_root_def bin_names_def)
  then have "root_mirrors h' ?r ps es" unfolding root_mirrors_def holds_def
    using assms(2) by (auto simp: h'_def zero_dir_def files_of_def fresh_root_def)
  moreover have "heap_ok h'" unfolding h'_def using assms(5) by (rule heap_ok_alloc) (simp add: zero_dir_def)
  moreover have "dmap h' ?r p = None" "\<not> indexed h' ?r p r" for p r
    by (simp_all add: dmap_def indexed_def reach) (simp_all add: h'_def zero_dir_def)
  moreover have "?r < next_ref h'" "directMap (node h' ?r) \<noteq> None" by (simp_all add: h'_def)
  ultimately show ?thesis using assms unfolding eq catalog_ok_def by auto
qed

lemma NewDirectory_catalog:
  assumes "lookup t ps = Inr (Folder es)" "tree_ok (Folder es) \<or> fresh_root es" "list_all plain_elem ps" "ps \<noteq> []" "heap_ok h"
  shows "fst (NewDirectory t (abs_path ps) h) = next_ref h \<and> catalog_ok t (next_ref h) ps (snd (NewDirectory t (abs_path ps) h))"
proof (cases "fresh_root es")
  case True
  with NewDirectory_fresh [OF assms(1) _ assms(3-5)] show ?thesis by (simp add: NewDirectory_def case_prod_beta)
next
  case False
  with assms(2) have tree: "tree_ok (Folder es)" by blast
  let ?h0 = "snd (alloc (zero_dir\<lparr>directMap := Some []\<rparr>) h)"
  obtain h' where h': "NewDirectory t (abs_path ps) h = (next_ref h, h')" and ld: "dir_loaded (next_ref h) (next_ref h) ps (Folder es) ?h0 h'"
    using NewDirectory_loads [OF assms(1) tree _ assms(3-5)] by auto
  have "root_mirrors h' (next_ref h) ps es"
    using ld unfolding dir_loaded_def mirrors_holds root_mirrors_def by auto
  moreover have "heap_ok h'" "next_ref h < next_ref h'" using ld unfolding dir_loaded_def load_frame_def by auto
  moreover have "dmap h' (next_ref h) p = Some r \<longleftrightarrow> indexed h' (next_ref h) p r" for p r
    using ld by (rule loaded_index) (simp add: dmap_def)
  moreover have "directMap (node h' (next_ref h)) \<noteq> None" using ld unfolding dir_loaded_def load_frame_def by auto
  ultimately show ?thesis using assms(1,3,4) tree h' unfolding catalog_ok_def by auto
qed


end
