(* ===== verification/CatalogAdd.thy ===== *)
theory CatalogAdd
  imports CatalogLaws
begin

text \<open>
  Adding time buckets and year files to a catalog: what the calls change in the directory tree, and that the catalog
  goes on mirroring it.
\<close>

section \<open>Changes of the directory tree\<close>

lemma stat_abs: "list_all plain_elem ps \<Longrightarrow> stat t (abs_path ps) = lookup t ps"
  by (simp add: stat_def path_elems_abs)

lemma Join_child: "list_all plain_elem (ps @ [x]) \<Longrightarrow> ps \<noteq> [] \<Longrightarrow> Join (abs_path ps) x = abs_path (ps @ [x])"
  using Join_abs [of ps "[x]"] by simp

lemma write_file_touches:
  assumes "write_file (abs_path (ps @ x # xs)) b t = Inr t'" "\<not> is_ok (stat t (abs_path (ps @ x # xs)))"
    "list_all plain_elem (ps @ x # xs)" "x \<in> A"
  shows "touches ps A t t' \<and> lookup t' (ps @ x # xs) = Inr (RegFile b)"
proof -
  have "store (ps @ x # xs) (RegFile b) t = Inr t'" "\<not> is_ok (lookup t (ps @ x # xs))"
    using assms(1,2) stat_abs [OF assms(3)] path_elems_abs [OF assms(3)]
    by (auto simp: write_file_def split: sum.splits fsnode.splits)
  with store_touches [of ps x xs "RegFile b" t t' A] lookup_store_same assms(4) show ?thesis by blast
qed

lemma mkdir_touches:
  assumes "mkdir (abs_path (ps @ x # xs)) t = Inr t'" "list_all plain_elem (ps @ x # xs)" "x \<in> A"
  shows "touches ps A t t'"
proof -
  have "store (ps @ x # xs) (Folder []) t = Inr t'" "\<not> is_ok (lookup t (ps @ x # xs))"
    using assms(1) stat_abs [OF assms(2)] path_elems_abs [OF assms(2)]
    by (auto simp: mkdir_def split: if_splits)
  with store_touches [of ps x xs "Folder []" t t' A] assms(3) show ?thesis by blast
qed

lemma not_exists: "\<not> exists t p \<Longrightarrow> \<not> is_ok (stat t p)"
  by (auto simp: exists_def split: sum.splits)

text \<open>The name of a category, after it was written or found.\<close>

lemma writeCatName_touches:
  assumes "writeCatName c (abs_path (ps @ qs)) t = (t', e)" "list_all plain_elem (ps @ qs)" "ps \<noteq> []"
    "hd (qs @ [''category_name'']) \<in> A"
  shows "touches ps A t t'" "e = None \<Longrightarrow> \<exists>b. lookup t' (ps @ qs @ [''category_name'']) = Inr (RegFile b) \<and> bytes_str b = c"
proof -
  let ?q = "qs @ [''category_name'']"
  have plain: "list_all plain_elem (ps @ ?q)" using assms(2) by (simp add: plain_elem_def)
  have join: "Join (abs_path (ps @ qs)) ''category_name'' = abs_path (ps @ ?q)"
    using Join_child [of "ps @ qs" "''category_name''"] plain assms(3) by simp
  obtain x xs where q: "?q = x # xs" by (cases ?q) auto
  have "touches ps A t t' \<and> (e = None \<longrightarrow> (\<exists>b. lookup t' (ps @ ?q) = Inr (RegFile b) \<and> bytes_str b = c))"
  proof (cases "exists t (abs_path (ps @ ?q))")
    case False
    have "\<not> is_ok (stat t (abs_path (ps @ x # xs)))" using not_exists [OF False] q by simp
    then show ?thesis
      using assms(1,4) False write_file_touches [of ps x xs "str_bytes c" t t' A] plain q
      by (auto simp: writeCatName_def join Let_def split: sum.splits)
  next
    case True
    then show ?thesis
      using assms(1) stat_abs [OF plain, of t]
      by (auto simp: writeCatName_def join Let_def read_file_def res_bind_def split: sum.splits fsnode.splits if_splits)
  qed
  then show "touches ps A t t'" "e = None \<Longrightarrow> \<exists>b. lookup t' (ps @ qs @ [''category_name'']) = Inr (RegFile b) \<and> bytes_str b = c"
    by blast+
qed

lemma make_dirs_touches:
  assumes "make_dirs items cats (abs_path (ps @ qs)) t = (t', r)" "list_all plain_elem (ps @ qs @ items)" "ps \<noteq> []"
    "qs \<noteq> []" "hd qs \<in> A"
  shows "touches ps A t t' \<and> (\<forall>p. r = Inr p \<longrightarrow> p = abs_path (ps @ qs @ items))"
  using assms
proof (induction items arbitrary: cats t qs)
  case (Cons i items)
  have plain: "list_all plain_elem (ps @ qs @ [i])" "list_all plain_elem (ps @ qs)" using Cons.prems(2) by simp_all
  have join: "Join (abs_path (ps @ qs)) i = abs_path (ps @ qs @ [i])" using Join_child [of "ps @ qs" i] plain Cons.prems(3) by simp
  obtain x xs where q: "qs = x # xs" using Cons.prems(4) by (cases qs) auto
  let ?m = "if exists t (abs_path (ps @ qs @ [i])) then Inr t else mkdir (abs_path (ps @ qs @ [i])) t"
  have mk: "touches ps A t t1" if "?m = Inr t1" for t1
    using mkdir_touches [of ps x "xs @ [i]" t t1 A] that plain(1) q Cons.prems(5) by (auto split: if_splits)
  show ?case
  proof (cases ?m)
    case (Inl e)
    then show ?thesis using Cons.prems(1) by (auto simp: join Let_def)
  next
    case t1: (Inr t1)
    show ?thesis
    proof (cases cats)
      case (Cons c cats')
      obtain t2 e where t2: "writeCatName c (abs_path (ps @ qs)) t1 = (t2, e)" by fastforce
      have tt: "touches ps A t t2"
        using mk [OF t1] writeCatName_touches(1) [OF t2 plain(2) Cons.prems(3), of A] Cons.prems(4,5) touches_trans by (simp add: q)
      show ?thesis
      proof (cases e)
        case None
        have "make_dirs items cats' (abs_path (ps @ qs @ [i])) t2 = (t', r)"
          using Cons.prems(1) t1 t2 None Cons by (simp add: join Let_def)
        from Cons.IH [of cats' "qs @ [i]" t2] this Cons.prems(2-5) tt show ?thesis
          by (auto intro: touches_trans)
      next
        case (Some e')
        then show ?thesis using Cons.prems(1) t1 t2 Cons tt by (auto simp: join Let_def)
      qed
    qed (use Cons.prems(1) t1 mk in \<open>auto simp: join Let_def\<close>)
  qed
qed auto

text \<open>A new year file.\<close>

lemma once_do_read: "IsRead f \<Longrightarrow> once_do fs f = Inr (f\<lparr>once_done := True\<rparr>)"
  by (simp add: once_do_def initFromFile_def)

lemma Load_read: "IsRead f \<Longrightarrow> Load fs f = Load fs' f"
  by (simp add: Load_def once_do_read)

lemma WriteHeader_read:
  assumes "IsRead f" "WriteHeader fs \<lparr>fdata = [], fpos = 0\<rparr> f = Inr (fl, f')"
  shows "f' = f\<lparr>once_done := True\<rparr>" "\<exists>hd. Load fs f = Inr (hd, f') \<and> fdata fl = header_bytes hd"
  using assms unfolding WriteHeader_def
  by (auto simp: res_bind_Inr Load_def once_do_read Let_def Write_def write_at_def split: if_splits)

text \<open>Writing a file anew that was just created.\<close>

lemma rewrite_touches:
  assumes "touches ps A t t1" "lookup t1 (ps @ x # xs) = Inr (RegFile c)" "\<not> is_ok (lookup t (ps @ x # xs))"
    "list_all plain_elem (ps @ x # xs)" "x \<in> A"
    "(case write_file (abs_path (ps @ x # xs)) b t1 of Inl _ \<Rightarrow> t1 | Inr t \<Rightarrow> t) = t2"
  shows "touches ps A t t2 \<and> lookup t2 (ps @ x # xs) = Inr (RegFile b)"
proof -
  have "write_file (abs_path (ps @ x # xs)) b t1 = store (ps @ x # xs) (RegFile b) t1"
    using assms(2,4) by (simp add: write_file_def stat_abs path_elems_abs)
  moreover have "\<exists>t3. store (ps @ x # xs) (RegFile b) t1 = Inr t3" using store_over assms(2) by blast
  ultimately have st: "store (ps @ x # xs) (RegFile b) t1 = Inr t2" using assms(6) by auto
  have "lookup t2 ys = Inr (RegFile c')" if "lookup t ys = Inr (RegFile c')" for ys c'
  proof -
    have "ys \<noteq> ps @ x # xs" using that assms(3) by auto
    moreover have "lookup t1 ys = Inr (RegFile c')" using assms(1) that by (simp add: touches_def)
    ultimately show ?thesis using store_file_other [OF st] assms(2) by simp
  qed
  moreover have "lookup t2 (ps @ y # ys) = lookup t (ps @ y # ys)" if "y \<notin> A" for y ys
    using lookup_store_branch [OF st, of y ys] assms(1,5) that unfolding touches_def by metis
  ultimately show ?thesis using lookup_store_same [OF st] by (simp add: touches_def)
qed

lemma newTimeBucketInfo_touches:
  assumes "newTimeBucketInfoFromTemplate loc f t = (t', f', e)" "IsRead f" "tbPath f = abs_path (ps @ x # xs)"
    "list_all plain_elem (ps @ x # xs)" "x \<in> A"
  shows "touches ps A t t' \<and> (e = None \<longrightarrow> f' = f\<lparr>once_done := True\<rparr> \<and>
    (\<exists>hd. Load (disk_of t) f = Inr (hd, f') \<and>
       lookup t' (ps @ x # xs) = Inr (RegFile (truncate_to (nat (FileSize loc (timeframe f) (tbYear f) (recordLength f))) (header_bytes hd)))))"
proof (cases "is_ok (stat t (tbPath f))")
  case True
  then show ?thesis using assms(1) by (auto simp: newTimeBucketInfoFromTemplate_def)
next
  case new: False
  show ?thesis
  proof (cases "write_file (tbPath f) [] t")
    case (Inl e)
    then show ?thesis using assms(1) new by (auto simp: newTimeBucketInfoFromTemplate_def)
  next
    case (Inr t1)
    note t1 = write_file_touches [OF Inr [unfolded assms(3)] new [unfolded assms(3)] assms(4,5)]
    have "\<not> is_ok (lookup t (ps @ x # xs))" using new stat_abs [OF assms(4), of t] by (simp add: assms(3))
    then have over: "touches ps A t t2 \<and> lookup t2 (ps @ x # xs) = Inr (RegFile b)"
      if "(case write_file (tbPath f) b t1 of Inl _ \<Rightarrow> t1 | Inr t \<Rightarrow> t) = t2" for b t2
      using rewrite_touches [OF conjunct1 [OF t1] conjunct2 [OF t1] _ assms(4,5)] that [unfolded assms(3)] by blast

    show ?thesis
    proof (cases "WriteHeader (disk_of t1) \<lparr>fdata = [], fpos = 0\<rparr> f")
      case (Inl e)
      then show ?thesis using assms(1) new Inr t1 by (auto simp: newTimeBucketInfoFromTemplate_def)
    next
      case wh: (Inr r)
      obtain fl g where r: "r = (fl, g)" by (cases r)
      note g = WriteHeader_read [OF assms(2) wh [unfolded r]]
      have "Load (disk_of t) f = Load (disk_of t1) f" using assms(2) by (rule Load_read)
      with g show ?thesis using assms(1) new Inr wh over
        by (auto simp: newTimeBucketInfoFromTemplate_def Let_def r split: if_splits)
    qed
  qed
qed

lemma make_dirs_root:
  assumes "make_dirs (i # items) cats (abs_path ps) t = (t', Inr p)" "list_all plain_elem (ps @ i # items)" "ps \<noteq> []"
  shows "touches ps {i, ''category_name''} t t' \<and> p = abs_path (ps @ i # items) \<and> cats \<noteq> [] \<and>
    (\<exists>b. lookup t' (ps @ [''category_name'']) = Inr (RegFile b) \<and> bytes_str b = hd cats)"
proof -
  let ?A = "{i, ''category_name''}"
  have plain: "list_all plain_elem (ps @ [i])" "list_all plain_elem ps" using assms(2) by simp_all
  have join: "Join (abs_path ps) i = abs_path (ps @ [i])" using Join_child plain(1) assms(3) by blast
  obtain t1 where t1: "(if exists t (abs_path (ps @ [i])) then Inr t else mkdir (abs_path (ps @ [i])) t) = Inr t1"
    using assms(1) by (auto simp: join Let_def split: sum.splits if_splits)
  obtain c cats' where cats: "cats = c # cats'" using assms(1) t1 by (cases cats) (auto simp: join Let_def)
  obtain t2 where t2: "writeCatName c (abs_path ps) t1 = (t2, None)"
    using assms(1) t1 by (auto simp: join Let_def cats split: prod.splits option.splits)
  have rest: "make_dirs items cats' (abs_path (ps @ [i])) t2 = (t', Inr p)" using assms(1) t1 t2 by (simp add: join Let_def cats)
  have m1: "touches ps ?A t t1" using t1 mkdir_touches [of ps i "[]" t t1 ?A] plain(1) by (auto split: if_splits)
  have m2: "touches ps ?A t1 t2" "\<exists>b. lookup t2 (ps @ [''category_name'']) = Inr (RegFile b) \<and> bytes_str b = c"
    using writeCatName_touches [of c ps "[]" t1 t2 None ?A] t2 plain(2) assms(3) by simp_all
  have m3: "touches ps ?A t2 t' \<and> p = abs_path (ps @ [i] @ items)"
    using make_dirs_touches [OF rest, of ?A] assms(2,3) by simp
  then have "\<exists>b. lookup t' (ps @ [''category_name'']) = Inr (RegFile b) \<and> bytes_str b = c"
    using m2(2) unfolding touches_def by blast
  with m1 m2(1) m3 cats show ?thesis by (auto intro: touches_trans)
qed

lemma AddTimeBucket_tree:
  assumes add: "AddTimeBucket loc root tbk f t h = (t', h', f', None)"
    and key: "GetItems tbk = Inr (i # items)" "GetCategories tbk = Inr cats"
    and path: "pathToItemName (node h root) = abs_path ps" "list_all plain_elem (ps @ i # items @ [fname])" "ps \<noteq> []"
    and f: "IsRead f" "tbPath f = abs_path (ps @ i # items @ [fname])"
  shows "touches ps {i, ''category_name''} t t'" "\<exists>b. lookup t' (ps @ [''category_name'']) = Inr (RegFile b) \<and> bytes_str b = hd cats"
    "f' = f\<lparr>once_done := True\<rparr>" "add_child root (hd cats) i t' h = (h', None)"
    "\<exists>hd. Load (disk_of t') f = Inr (hd, f') \<and> lookup t' (ps @ i # items @ [fname]) =
       Inr (RegFile (truncate_to (nat (FileSize loc (timeframe f) (tbYear f) (recordLength f))) (header_bytes hd)))"
proof -
  let ?A = "{i, ''category_name''}"
  obtain t1 dirname where t1: "make_dirs (i # items) cats (abs_path ps) t = (t1, Inr dirname)"
    using add by (auto simp: AddTimeBucket_def key path(1) split: prod.splits sum.splits)
  have plain: "list_all plain_elem (ps @ i # items)" using path(2) by simp
  note m1 = make_dirs_root [OF t1 plain path(3)]
  obtain t2 where t2: "writeCatName ''Year'' dirname t1 = (t2, None)"
    using add t1 by (auto simp: AddTimeBucket_def key path(1) split: prod.splits option.splits)
  have m2: "touches ps ?A t1 t2"
    using writeCatName_touches(1) [of "''Year''" ps "i # items" t1 t2 None ?A] t2 m1 plain path(3) by simp
  obtain t3 f3 where t3: "newTimeBucketInfoFromTemplate loc f t2 = (t3, f3, None)"
    using add t1 t2 by (auto simp: AddTimeBucket_def key path(1) split: prod.splits option.splits)
  have eq: "t3 = t'" "f3 = f'" "add_child root (hd cats) i t' h = (h', None)"
    using add t1 t2 t3 by (auto simp: AddTimeBucket_def key path(1) split: prod.splits)
  note m3 = newTimeBucketInfo_touches [OF t3 f path(2), of ?A]
  show "touches ps ?A t t'" using m1 m2 m3 eq by (auto intro: touches_trans)
  show "\<exists>b. lookup t' (ps @ [''category_name'']) = Inr (RegFile b) \<and> bytes_str b = hd cats"
    using m1 m2 m3 eq unfolding touches_def by fastforce
  show "f' = f\<lparr>once_done := True\<rparr>" "add_child root (hd cats) i t' h = (h', None)" using m3 eq by auto
  show "\<exists>hd. Load (disk_of t') f = Inr (hd, f') \<and> lookup t' (ps @ i # items @ [fname]) =
       Inr (RegFile (truncate_to (nat (FileSize loc (timeframe f) (tbYear f) (recordLength f))) (header_bytes hd)))"
    using m3 eq Load_read [OF f(1), of "disk_of t2" "disk_of t'"] by auto
qed

section \<open>Attaching a loaded directory\<close>

lemma holds_frame:
  assumes "holds h r ps es" "subDirs (node h' r) = subDirs (node h r)" "pathToItemName (node h' r) = pathToItemName (node h r)"
    "datafile (node h' r) = datafile (node h r)"
    "\<forall>b \<in> ran (map_of (entries (subDirs (node h r)))). \<forall>c \<in> reach h b. agree (node h' c) (node h c)"
  shows "holds h' r ps es" "reach h' r = reach h r"
proof -
  have "\<exists>c. map_of (entries (subDirs (node h r))) x = Some c \<and> itemName (node h' c) = x \<and> mirrors h' c (ps @ [x]) n"
    if xn: "(x, n) \<in> set es" "is_folder n" for x n
  proof -
    from assms(1) xn obtain c where c: "map_of (entries (subDirs (node h r))) x = Some c" "itemName (node h c) = x"
      "mirrors h c (ps @ [x]) n" unfolding holds_def by blast
    then have fr: "\<forall>b \<in> reach h c. agree (node h' b) (node h b)" using assms(5) by (auto simp: ran_def)
    then have "itemName (node h' c) = x" using c(2) by (auto simp: agree_def)
    with c mirrors_frame [OF c(3) fr] show ?thesis by blast
  qed
  moreover have "files_of (node h' r) ps es" using assms(1,4) by (simp add: holds_def files_of_def)
  ultimately show "holds h' r ps es" using assms(1) unfolding holds_def assms(2,3) by blast
  have "reach h' b = reach h b" if "b \<in> ran (map_of (entries (subDirs (node h r))))" for b
    using assms(5) that by (intro reach_frame) blast
  then show "reach h' r = reach h r" using reach_eq [of h r] reach_eq [of h' r] assms(2) by simp
qed

text \<open>A directory loaded into new nodes and then made a subdirectory of an old one.\<close>

definition attached :: "dref \<Rightarrow> string list \<Rightarrow> string \<Rightarrow> fsnode \<Rightarrow> heap \<Rightarrow> heap \<Rightarrow> heap \<Rightarrow> bool" where
  "attached root ps i n h h2 h' \<longleftrightarrow> heap_ok h \<and> root < next_ref h \<and> directMap (node h root) \<noteq> None \<and>
     dir_loaded (next_ref h) (next_ref h) (ps @ [i]) n (snd (alloc (zero_dir\<lparr>directMap := Some []\<rparr>) h)) h2 \<and>
     addSubdir root (next_ref h) i h2 = (h', None)"

lemma attached_root:
  assumes "attached root ps i n h h2 h'"
  shows "next_ref h' = next_ref h2" "next_ref h < next_ref h2" "heap_ok h2" "root < next_ref h"
    "r < next_ref h \<Longrightarrow> r \<noteq> root \<Longrightarrow> agree (node h' r) (node h r)"
    "next_ref h < r \<Longrightarrow> node h' r = node h2 r"
    "map_of (entries (subDirs (node h' root))) = (map_of (entries (subDirs (node h root))))(i \<mapsto> next_ref h)"
    "fst ` set (entries (subDirs (node h' root))) = insert i (fst ` set (entries (subDirs (node h root))))"
    "datafile (node h' root) = datafile (node h root)" "pathToItemName (node h' root) = pathToItemName (node h root)"
    "category (node h' root) = category (node h root)" "directMap (node h' root) \<noteq> None"
    "subDirs (node h' (next_ref h)) = subDirs (node h2 (next_ref h))" "datafile (node h' (next_ref h)) = datafile (node h2 (next_ref h))"
    "pathToItemName (node h' (next_ref h)) = pathToItemName (node h2 (next_ref h))" "itemName (node h' (next_ref h)) = i"
    "category (node h' (next_ref h)) = category (node h2 (next_ref h))"
    "dmap h' root p = (case dmap h2 (next_ref h) p of None \<Rightarrow> dmap h root p | Some r \<Rightarrow> Some r)"
    "set (children h' root) \<subseteq> insert (next_ref h) (set (children h root))"
    "distinct (map fst (entries (subDirs (node h root)))) \<Longrightarrow> distinct (map fst (entries (subDirs (node h' root))))"
proof -
  let ?c = "next_ref h" and ?h0 = "snd (alloc (zero_dir\<lparr>directMap := Some []\<rparr>) h)"
  have h: "heap_ok h" "root < ?c" "directMap (node h root) \<noteq> None" and ld: "load_frame ?c ?h0 h2" "index_extends ?c ?c ?h0 h2"
    and add: "addSubdir root ?c i h2 = (h', None)"
    using assms by (simp_all add: attached_def dir_loaded_def)
  have ag: "agree (node h2 r) (node h r)" "directMap (node h2 r) = directMap (node h r)" if "r < ?c" for r
    using ld that unfolding load_frame_def index_extends_def by auto
  have nd: "next_ref h' = next_ref h2 \<and> node h' = (node h2)(?c := (node h2 ?c)\<lparr>itemName := i, directMap := None\<rparr>,
      root := (node h2 root)\<lparr>catList := None, subDirs := Some (AList.update i ?c (entries (subDirs (node h2 root)))),
        directMap := (if entries (directMap (node h2 ?c)) = [] then directMap (node h2 root)
          else Some (AList.merge (entries (directMap (node h2 root))) (entries (directMap (node h2 ?c)))))\<rparr>)"
    using add h(2) by (auto simp: addSubdir_def Let_def modify_def fun_eq_iff split: if_splits)
  show "next_ref h' = next_ref h2" "?c < next_ref h2" "heap_ok h2" "root < ?c" using nd ld(1) h(2) by (auto simp: load_frame_def)
  show "r < ?c \<Longrightarrow> r \<noteq> root \<Longrightarrow> agree (node h' r) (node h r)" "?c < r \<Longrightarrow> node h' r = node h2 r" using nd ag h(2) by auto
  show "map_of (entries (subDirs (node h' root))) = (map_of (entries (subDirs (node h root))))(i \<mapsto> ?c)"
    "fst ` set (entries (subDirs (node h' root))) = insert i (fst ` set (entries (subDirs (node h root))))"
    "datafile (node h' root) = datafile (node h root)" "pathToItemName (node h' root) = pathToItemName (node h root)"
    "category (node h' root) = category (node h root)" "directMap (node h' root) \<noteq> None"
    using nd ag [OF h(2)] h(3) by (simp_all add: agree_def update_conv' dom_update)
  show "subDirs (node h' ?c) = subDirs (node h2 ?c)" "datafile (node h' ?c) = datafile (node h2 ?c)"
    "pathToItemName (node h' ?c) = pathToItemName (node h2 ?c)" "itemName (node h' ?c) = i"
    "category (node h' ?c) = category (node h2 ?c)"
    using nd h(2) by simp_all
  show "dmap h' root p = (case dmap h2 ?c p of None \<Rightarrow> dmap h root p | Some r \<Rightarrow> Some r)"
    using nd ag(2) [OF h(2)] by (auto simp: dmap_def merge_conv' map_add_def split: option.splits)
  show "set (children h' root) \<subseteq> insert ?c (set (children h root))"
    using nd ag(1) [OF h(2)] set_update_subset [of i ?c "entries (subDirs (node h root))"]
    by (auto simp: children_def agree_def)
  show "distinct (map fst (entries (subDirs (node h root)))) \<Longrightarrow> distinct (map fst (entries (subDirs (node h' root))))"
    using nd ag(1) [OF h(2)] by (simp add: agree_def distinct_update)
qed

lemma kid_above:
  assumes "heap_ok h" "r < next_ref h" "b \<in> ran (map_of (entries (subDirs (node h r))))" "c \<in> reach h b"
  shows "r < c" "c < next_ref h"
proof -
  have "b \<in> set (children h r)" using assms(3) unfolding ran_def children_def by (auto dest: map_of_SomeD intro: rev_image_eqI)
  then have "r < b" "b < next_ref h" using heap_okD [OF assms(1,2)] by blast+
  with reach_bounds [OF assms(1) _ assms(4)] show "r < c" "c < next_ref h" by linarith+
qed

lemma attached_child:
  assumes "attached root ps i n h h2 h'"
  shows "mirrors h' (next_ref h) (ps @ [i]) n" "reach h' (next_ref h) = reach h2 (next_ref h)"
    "indexed h' (next_ref h) p r \<longleftrightarrow> indexed h2 (next_ref h) p r"
    "dmap h2 (next_ref h) p = Some r \<longleftrightarrow> indexed h2 (next_ref h) p r"
proof -
  let ?c = "next_ref h"
  note at = attached_root [OF assms]
  have ld: "dir_loaded ?c ?c (ps @ [i]) n (snd (alloc (zero_dir\<lparr>directMap := Some []\<rparr>) h)) h2"
    using assms by (simp add: attached_def)
  then have "mirrors h2 ?c (ps @ [i]) n" by (simp add: dir_loaded_def)
  then obtain es where es: "n = Folder es" "holds h2 ?c (ps @ [i]) es"
    and cat: "\<exists>b. map_of es ''category_name'' = Some (RegFile b) \<and> category (node h2 ?c) = bytes_str b"
    using mirrors_Folder [of h2 ?c "ps @ [i]" n] by (auto simp: mirrors_holds)
  have "\<forall>b \<in> ran (map_of (entries (subDirs (node h2 ?c)))). \<forall>x \<in> reach h2 b. agree (node h' x) (node h2 x)"
    using kid_above(1) [OF at(3,2)] at(6) by simp
  note hf = holds_frame [OF es(2) at(13,15,14) this]
  then show "mirrors h' ?c (ps @ [i]) n" using cat at(17) es(1) by (simp add: mirrors_holds)
  show rc: "reach h' ?c = reach h2 ?c" by (rule hf)
  have "x = ?c \<or> ?c < x" if "x \<in> reach h2 ?c" for x using reach_bounds [OF at(3,2) that] by linarith
  then have "datafile (node h' x) = datafile (node h2 x) \<and> pathToItemName (node h' x) = pathToItemName (node h2 x)"
    if "x \<in> reach h2 ?c" for x using at(6,14,15) that by metis
  then show "indexed h' ?c p r \<longleftrightarrow> indexed h2 ?c p r" unfolding indexed_def rc by auto
  show "dmap h2 ?c p = Some r \<longleftrightarrow> indexed h2 ?c p r" using ld by (rule loaded_index) (simp add: dmap_def)
qed

lemma attached_heap_ok:
  assumes "attached root ps i n h h2 h'"
  shows "heap_ok h'"
  unfolding heap_ok_def
proof (intro allI impI ballI)
  note at = attached_root [OF assms]
  have h: "heap_ok h" using assms by (simp add: attached_def)
  fix r c assume r: "r < next_ref h'" and c: "c \<in> set (children h' r)"
  consider "r = root" | "r \<noteq> root" "r < next_ref h" | "next_ref h \<le> r" by linarith
  then show "r < c \<and> c < next_ref h'"
  proof cases
    case 1
    then have "c = next_ref h \<or> c \<in> set (children h root)" using c at(19) by blast
    with 1 heap_okD [OF h at(4), of c] show ?thesis using at(1,2,4) by linarith
  next
    case 2
    with at(5) [of r] have "subDirs (node h' r) = subDirs (node h r)" by (simp add: agree_def)
    then have "c \<in> set (children h r)" using c by (simp add: children_def)
    from heap_okD [OF h 2(2) this] show ?thesis using at(1,2) by linarith
  next
    case 3
    then have "subDirs (node h' r) = subDirs (node h2 r)" using at(6,13) by (cases "r = next_ref h") auto
    then have "c \<in> set (children h2 r)" using c by (simp add: children_def)
    from heap_okD [OF at(3) _ this] show ?thesis using r at(1) by simp
  qed
qed

lemma attached_indexed:
  assumes "attached root ps i n h h2 h'" "datafile (node h root) = None"
  shows "indexed h' root p r \<longleftrightarrow>
    (\<exists>y b. y \<noteq> i \<and> map_of (entries (subDirs (node h root))) y = Some b \<and> indexed h b p r) \<or> indexed h2 (next_ref h) p r"
proof -
  note at = attached_root [OF assms(1)]
  have h: "heap_ok h" using assms(1) by (simp add: attached_def)
  let ?k = "map_of (entries (subDirs (node h root)))"
  have same: "\<forall>x \<in> reach h b. agree (node h' x) (node h x)" if "?k y = Some b" for y b
  proof
    fix x assume x: "x \<in> reach h b"
    have "b \<in> ran ?k" using that by (auto simp: ran_def)
    then have "root < x" "x < next_ref h" using kid_above [OF h at(4) _ x] by blast+
    then show "agree (node h' x) (node h x)" using at(5) by simp
  qed
  have old: "indexed h' b p r \<longleftrightarrow> indexed h b p r" if "?k y = Some b" for y b
    using same [OF that] reach_frame [OF same [OF that]] unfolding indexed_def agree_def by metis
  have "indexed h' root p r \<longleftrightarrow> (\<exists>y b. map_of (entries (subDirs (node h' root))) y = Some b \<and> indexed h' b p r)"
    using reach_eq [of h' root] assms(2) at(9) unfolding indexed_def by (auto simp: ran_def)
  also have "\<dots> \<longleftrightarrow> (\<exists>y b. y \<noteq> i \<and> ?k y = Some b \<and> indexed h' b p r) \<or> indexed h' (next_ref h) p r"
    unfolding at(7) by auto
  finally show ?thesis using old attached_child(3) [OF assms(1)] by blast
qed

section \<open>The catalog after adding a time bucket\<close>

lemma mirrors_walk:
  assumes "mirrors h r ps n" "tree_ok n" "walk h r xs = Some c"
  shows "\<exists>m. lookup n xs = Inr m \<and> mirrors h c (ps @ xs) m \<and> tree_ok m"
  using assms
proof (induction xs arbitrary: r ps n)
  case (Cons x xs)
  then obtain b where b: "map_of (entries (subDirs (node h r))) x = Some b" "walk h b xs = Some c"
    by (auto split: option.splits)
  from Cons.prems(1) obtain es where es: "n = Folder es" "holds h r ps es" using mirrors_Folder by blast
  from es(2) b(1) obtain m where m: "(x, m) \<in> set es" "mirrors h b (ps @ [x]) m" by (rule holds_kid)
  then have "map_of es x = Some m" using tree_okD(1) Cons.prems(2) es(1) by simp
  with Cons.IH [OF m(2) _ b(2)] m(1) tree_okD(4) [of es x m] Cons.prems(2) es(1) show ?case by auto
qed auto

lemma mirrors_lookup:
  assumes "mirrors h r ps n" "lookup n xs = Inr (Folder fs)"
  shows "\<exists>c. walk h r xs = Some c \<and> mirrors h c (ps @ xs) (Folder fs)"
  using assms
proof (induction xs arbitrary: r ps n)
  case (Cons x xs)
  from Cons.prems(1) obtain es where es: "n = Folder es" "holds h r ps es" using mirrors_Folder by blast
  then obtain m where m: "map_of es x = Some m" "lookup m xs = Inr (Folder fs)" using Cons.prems(2) by (auto split: option.splits)
  have "is_folder m" using m(2) by (cases m; cases xs) auto
  then obtain b where b: "map_of (entries (subDirs (node h r))) x = Some b" "mirrors h b (ps @ [x]) m"
    using es(2) map_of_SomeD [OF m(1)] unfolding holds_def by blast
  with Cons.IH [OF b(2) m(2)] show ?case by auto
qed auto

lemma bin_lookup:
  assumes "distinct (map fst es)"
  shows "x \<in> bin_names es \<longleftrightarrow> Ext x = ''.bin'' \<and> (\<exists>b. lookup (Folder es) [x] = Inr (RegFile b))"
proof -
  have "(x, n) \<in> set es \<longleftrightarrow> map_of es x = Some n" for n using map_of_eq_Some_iff [OF assms] by metis
  then show ?thesis by (auto simp: bin_names_def split: option.splits)
qed

text \<open>The entries of the root directory before and after.\<close>

definition root_change :: "string list \<Rightarrow> string \<Rightarrow> fsnode \<Rightarrow> fsnode \<Rightarrow> (string \<times> fsnode) list \<Rightarrow> (string \<times> fsnode) list \<Rightarrow> (string \<times> fsnode) list \<Rightarrow> bool" where
  "root_change ps i t t' es es' m \<longleftrightarrow> touches ps {i, ''category_name''} t t' \<and> lookup t ps = Inr (Folder es) \<and>
     lookup t' ps = Inr (Folder es') \<and> (tree_ok (Folder es) \<or> fresh_root es) \<and> tree_ok (Folder es') \<and>
     map_of es' i = Some (Folder m) \<and> i \<noteq> ''category_name'' \<and> list_all plain_elem ps \<and> ps \<noteq> []"

lemma root_change_entries:
  assumes "root_change ps i t t' es es' m"
  shows "y \<noteq> i \<Longrightarrow> y \<noteq> ''category_name'' \<Longrightarrow> map_of es' y = map_of es y"
    "bin_names es' = {}" "bin_names es = {}"
    "y \<noteq> i \<Longrightarrow> is_folder n \<Longrightarrow> (y, n) \<in> set es' \<longleftrightarrow> (y, n) \<in> set es"
    "lookup (Folder es) xs = Inr (RegFile b) \<Longrightarrow> lookup (Folder es') xs = Inr (RegFile b)"
proof -
  have t: "touches ps {i, ''category_name''} t t'" "lookup t ps = Inr (Folder es)" "lookup t' ps = Inr (Folder es')"
    "tree_ok (Folder es) \<or> fresh_root es" "tree_ok (Folder es')" "map_of es' i = Some (Folder m)"
    using assms by (simp_all add: root_change_def)
  show same: "map_of es' y = map_of es y" if "y \<noteq> i" "y \<noteq> ''category_name''" for y
  proof -
    have "lookup t' (ps @ [y]) = lookup t (ps @ [y])" using t(1) that by (simp add: touches_def)
    then show ?thesis by (simp add: lookup_append t(2,3) split: option.splits)
  qed
  show mono: "lookup (Folder es) xs = Inr (RegFile b) \<Longrightarrow> lookup (Folder es') xs = Inr (RegFile b)" for xs b
    using t(1) unfolding touches_def by (metis lookup_append t(2,3) res_bind_simps(2))
  note ok' = tree_okD [OF t(5)]
  show bins: "bin_names es' = {}" using ok'(5) [OF map_of_SomeD [OF t(6)]] by simp
  show "bin_names es = {}"
  proof (cases "fresh_root es")
    case True
    then show ?thesis by (auto simp: fresh_root_def bin_names_def)
  next
    case False
    then have "distinct (map fst es)" using t(4) tree_okD(1) by blast
    then show ?thesis using bin_lookup mono bins bin_lookup [OF ok'(1)] by blast
  qed
  assume y: "y \<noteq> i" "is_folder n"
  have d': "(y, n) \<in> set es' \<longleftrightarrow> map_of es' y = Some n" using ok'(1) by simp
  obtain b where b: "map_of es' ''category_name'' = Some (RegFile b)" using ok'(2) by blast
  show "(y, n) \<in> set es' \<longleftrightarrow> (y, n) \<in> set es"
  proof (cases "y = ''category_name''")
    case True
    have "(y, n) \<notin> set es"
    proof
      assume yn: "(y, n) \<in> set es"
      then have "tree_ok (Folder es)" using t(4) y(2) by (auto simp: fresh_root_def)
      from tree_okD(1,2) [OF this] yn y(2) True show False by (metis is_folder.simps(2) map_of_eq_Some_iff option.inject)
    qed
    then show ?thesis using d' b True y(2) by auto
  next
    case False
    show ?thesis
    proof (cases "fresh_root es")
      case True
      then show ?thesis using d' same [OF y(1) False] y(2) by (auto simp: fresh_root_def dest: map_of_SomeD)
    next
      case False
      then have "distinct (map fst es)" using t(4) tree_okD(1) by blast
      then show ?thesis using d' same [OF y(1) \<open>y \<noteq> ''category_name''\<close>] by simp
    qed
  qed
qed

lemma attach_holds:
  assumes "root_change ps i t t' es es' m" "attached root ps i (Folder m) h h2 h'" "holds h root ps es"
  shows "holds h' root ps es'"
proof -
  note rc = root_change_entries [OF assms(1)] and at = attached_root [OF assms(2)]
  let ?k = "\<lambda>h. map_of (entries (subDirs (node h root)))"
  have h: "heap_ok h" using assms(2) by (simp add: attached_def)
  have i: "(i, Folder m) \<in> set es'" using assms(1) by (auto simp: root_change_def dest: map_of_SomeD)
  have d': "distinct (map fst es')" using assms(1) tree_okD(1) unfolding root_change_def by blast
  have "\<exists>b. ?k h' y = Some b \<and> itemName (node h' b) = y \<and> mirrors h' b (ps @ [y]) n"
    if yn: "(y, n) \<in> set es'" "is_folder n" for y n
  proof (cases "y = i")
    case True
    then have "n = Folder m" using yn(1) i d' by (meson eq_key_imp_eq_value)
    then show ?thesis using True at(7,16) attached_child(1) [OF assms(2)] by simp
  next
    case False
    then have "(y, n) \<in> set es" using rc(4) yn by blast
    then obtain b where b: "?k h y = Some b" "itemName (node h b) = y" "mirrors h b (ps @ [y]) n"
      using assms(3) yn(2) unfolding holds_def by blast
    have "b \<in> ran (?k h)" using b(1) by (auto simp: ran_def)
    then have fr: "\<forall>x \<in> reach h b. agree (node h' x) (node h x)"
      using kid_above [OF h at(4)] at(5) by (metis less_irrefl)
    then have "itemName (node h' b) = y" using b(2) by (auto simp: agree_def)
    with mirrors_frame [OF b(3) fr] b(1) False show ?thesis by (simp add: at(7))
  qed
  moreover have "fst ` set (entries (subDirs (node h' root))) = {y. \<exists>n. (y, n) \<in> set es' \<and> is_folder n}"
  proof -
    have "fst ` set (entries (subDirs (node h root))) = {y. \<exists>n. (y, n) \<in> set es \<and> is_folder n}"
      using assms(3) by (simp only: holds_def)
    moreover have "(\<exists>n. (y, n) \<in> set es' \<and> is_folder n) \<longleftrightarrow> y = i \<or> (\<exists>n. (y, n) \<in> set es \<and> is_folder n)" for y
      using rc(4) [of y] i by (cases "y = i") (auto intro: exI [of _ "Folder m"])
    ultimately show ?thesis unfolding at(8) by auto
  qed
  moreover have "files_of (node h' root) ps es'" "pathToItemName (node h' root) = abs_path ps"
    using assms(3) rc(2,3) at(9,10) by (simp_all add: holds_def files_of_def)
  moreover have "distinct (map fst (entries (subDirs (node h' root))))" using assms(3) at(20) by (simp only: holds_def)
  ultimately show ?thesis unfolding holds_def by blast
qed

text \<open>Year files that the old index led to below the replaced directory are also found in the new one.\<close>

lemma attach_reindexed:
  assumes "root_change ps i t t' es es' m" "attached root ps i (Folder m) h h2 h'" "holds h root ps es"
    "map_of (entries (subDirs (node h root))) i = Some b" "indexed h b p r"
  shows "\<exists>r'. indexed h2 (next_ref h) p r'"
proof -
  from assms(3,4) obtain n0 where n0: "(i, n0) \<in> set es" "is_folder n0" "mirrors h b (ps @ [i]) n0" by (rule holds_kid)
  have ok: "tree_ok (Folder es)" using assms(1) n0 by (auto simp: root_change_def fresh_root_def)
  have es_i: "map_of es i = Some n0" "tree_ok n0" using tree_okD [OF ok] n0(1) by simp_all
  obtain ys where ys: "walk h b ys = Some r" "datafile (node h r) \<noteq> None" "pathToItemName (node h r) = p"
    using assms(5) by (auto simp: indexed_def reach_def)
  from mirrors_walk [OF n0(3) es_i(2) ys(1)] obtain k where k: "lookup n0 ys = Inr k" "mirrors h r ((ps @ [i]) @ ys) k" "tree_ok k"
    by blast
  from mirrors_Folder [OF k(2)] obtain fs where fs: "k = Folder fs" "holds h r ((ps @ [i]) @ ys) fs" by blast
  then have "bin_names fs \<noteq> {}" using ys(2) by (simp add: holds_def files_of_def)
  then obtain x c where x: "Ext x = ''.bin''" "lookup (Folder fs) [x] = Inr (RegFile c)"
    using bin_lookup [OF tree_okD(1)] k(3) fs(1) by blast
  have "lookup (Folder es) (i # ys @ [x]) = Inr (RegFile c)"
    using es_i(1) k(1) x(2) fs(1) lookup_append [of n0 ys "[x]"] by simp
  then have "lookup (Folder es') (i # ys @ [x]) = Inr (RegFile c)" by (rule root_change_entries(5) [OF assms(1)])
  then have new: "lookup (Folder m) (ys @ [x]) = Inr (RegFile c)" using assms(1) by (simp add: root_change_def)
  then obtain q where q: "lookup (Folder m) ys = Inr q" "lookup q [x] = Inr (RegFile c)"
    unfolding lookup_append res_bind_Inr by blast
  obtain gs where gs: "q = Folder gs" using q(2) by (cases q) auto
  from mirrors_lookup [of h2 "next_ref h" "ps @ [i]" "Folder m" ys gs] q(1) gs assms(2)
  obtain r' where r': "walk h2 (next_ref h) ys = Some r'" "mirrors h2 r' ((ps @ [i]) @ ys) (Folder gs)"
    by (auto simp: attached_def dir_loaded_def)
  have "x \<in> bin_names gs" using q(2) x(1) gs by (auto simp: bin_names_def split: option.splits dest: map_of_SomeD)
  then have "datafile (node h2 r') \<noteq> None" "pathToItemName (node h2 r') = p"
    using r'(2) fs(2) ys(3) by (auto simp: mirrors_holds holds_def files_of_def)
  then show ?thesis using r'(1) by (auto simp: indexed_def reach_def)
qed

lemma attach_apart:
  assumes "root_change ps i t t' es es' m" "attached root ps i (Folder m) h h2 h'" "holds h root ps es"
    "y \<noteq> i" "map_of (entries (subDirs (node h root))) y = Some b" "indexed h b p r"
  shows "\<not> indexed h2 (next_ref h) p r'"
proof
  have ps: "list_all plain_elem ps" using assms(1) by (simp add: root_change_def)
  have ok': "tree_ok (Folder es')" and im: "(i, Folder m) \<in> set es'"
    using assms(1) by (auto simp: root_change_def dest: map_of_SomeD)
  obtain ys where ys: "walk h b ys = Some r" "pathToItemName (node h r) = p" using assms(6) by (auto simp: indexed_def reach_def)
  from assms(3,5) obtain n where n: "(y, n) \<in> set es" "is_folder n" by (rule holds_kid)
  then have "tree_ok (Folder es)" using assms(1) by (auto simp: root_change_def fresh_root_def)
  then have "entries_ok es" by (rule tree_ok_entries)
  moreover have "walk h root (y # ys) = Some r" using assms(5) ys(1) by simp
  ultimately have p: "p = abs_path (ps @ y # ys)" "list_all plain_elem (ps @ y # ys)"
    using holds_path [OF assms(3)] ys(2) ps by fastforce+
  assume "indexed h2 (next_ref h) p r'"
  then obtain xs where xs: "walk h2 (next_ref h) xs = Some r'" "pathToItemName (node h2 r') = p" by (auto simp: indexed_def reach_def)
  have "holds h2 (next_ref h) (ps @ [i]) m" using assms(2) by (simp add: attached_def dir_loaded_def mirrors_holds)
  from holds_path [OF this tree_ok_entries xs(1)] tree_okD(3,4) [OF ok' im] xs(2) ps
  have "p = abs_path (ps @ i # xs)" "list_all plain_elem (ps @ i # xs)" by simp_all
  with p abs_path_inj have "y = i" by fastforce
  with assms(4) show False by simp
qed

lemma attach_ok:
  assumes "root_change ps i t t' es es' m" "attached root ps i (Folder m) h h2 h'" "holds h root ps es"
    "\<forall>p r. dmap h root p = Some r \<longleftrightarrow> indexed h root p r"
    "map_of es' ''category_name'' = Some (RegFile c)" "bytes_str c = category (node h root)"
  shows "catalog_ok t' root ps h'"
proof -
  note at = attached_root [OF assms(2)]
  have nofile: "datafile (node h root) = None"
    using assms(3) root_change_entries(3) [OF assms(1)] by (simp add: holds_def files_of_def)
  have old: "dmap h root p = Some r \<longleftrightarrow> (\<exists>y b. map_of (entries (subDirs (node h root))) y = Some b \<and> indexed h b p r)" for p r
    using assms(4) reach_eq [of h root] nofile unfolding indexed_def by (auto simp: ran_def)
  have ix: "dmap h' root p = Some r \<longleftrightarrow> indexed h' root p r" for p r
  proof (cases "dmap h2 (next_ref h) p")
    case None
    then have none: "\<not> indexed h2 (next_ref h) p r'" for r' using attached_child(4) [OF assms(2)] by (metis option.distinct(1))
    then have "y \<noteq> i" if "map_of (entries (subDirs (node h root))) y = Some b" "indexed h b p r" for y b
      using attach_reindexed [OF assms(1-3)] that by blast
    with none show ?thesis unfolding at(18) attached_indexed [OF assms(2) nofile] by (auto simp: None old)
  next
    case (Some r0)
    have ix2: "dmap h2 (next_ref h) p = Some r' \<longleftrightarrow> indexed h2 (next_ref h) p r'" for r' by (rule attached_child(4) [OF assms(2)])
    then have "indexed h2 (next_ref h) p r0" using Some by blast
    then have "\<not> (\<exists>y b. y \<noteq> i \<and> map_of (entries (subDirs (node h root))) y = Some b \<and> indexed h b p r)"
      using attach_apart [OF assms(1-3)] by blast
    with ix2 [of r] Some show ?thesis unfolding at(18) attached_indexed [OF assms(2) nofile] by auto
  qed
  have "root_mirrors h' root ps es'"
    using attach_holds [OF assms(1-3)] assms(5,6) at(11) by (simp add: root_mirrors_def)
  moreover have "root < next_ref h'" using at by linarith
  ultimately show ?thesis
    using assms(1) ix attached_heap_ok [OF assms(2)] at(12) unfolding catalog_ok_def root_change_def by blast
qed

lemma catalog_finds:
  assumes "catalog_ok t root ps h" "lookup t (ps @ xs @ [x]) = Inr (RegFile b)" "Ext x = ''.bin''"
  shows "\<exists>d. GetOwningSubDirectory h root (abs_path (ps @ xs @ [x])) = Inr d \<and>
    abs_path (ps @ xs @ [x]) \<in> fst ` set (entries (datafile (node h d)))"
proof -
  from assms(1) obtain es where es: "lookup t ps = Inr (Folder es)" "tree_ok (Folder es) \<or> fresh_root es" "root_mirrors h root ps es"
    and ps: "list_all plain_elem ps" "ps \<noteq> []" and ix: "\<And>p r. dmap h root p = Some r \<longleftrightarrow> indexed h root p r"
    unfolding catalog_ok_def by blast
  have look: "lookup (Folder es) (xs @ [x]) = Inr (RegFile b)" using assms(2) es(1) by (simp add: lookup_append)
  have "\<not> fresh_root es"
  proof
    assume fr: "fresh_root es"
    obtain y ys where y: "xs @ [x] = y # ys" by (cases "xs @ [x]") auto
    then obtain n where n: "map_of es y = Some n" "lookup n ys = Inr (RegFile b)" using look by (auto split: option.splits)
    then have "\<not> is_folder n" "Ext y \<noteq> ''.bin''" using fr by (auto simp: fresh_root_def dest: map_of_SomeD)
    then have "ys = []" using n(2) by (cases n; cases ys) auto
    with y assms(3) \<open>Ext y \<noteq> ''.bin''\<close> show False by simp
  qed
  with es(2,3) have ok: "tree_ok (Folder es)" and mr: "mirrors h root ps (Folder es)"
    using tree_okD(2) [of es] by (auto simp: root_mirrors_def mirrors_holds split: option.splits fsnode.splits)
  obtain q where q: "lookup (Folder es) xs = Inr q" "lookup q [x] = Inr (RegFile b)"
    using look unfolding lookup_append res_bind_Inr by blast
  then obtain gs where gs: "q = Folder gs" by (cases q) auto
  from mirrors_lookup [OF mr] q(1) gs obtain d where d: "walk h root xs = Some d" "mirrors h d (ps @ xs) (Folder gs)" by blast
  from mirrors_walk [OF mr ok d(1)] q(1) gs have okd: "tree_ok (Folder gs)" by auto
  have x: "(x, RegFile b) \<in> set gs" using q(2) gs by (auto split: option.splits dest: map_of_SomeD)
  then have "x \<in> bin_names gs" using assms(3) by (auto simp: bin_names_def)
  with d(2) have dn: "datafile (node h d) \<noteq> None" "pathToItemName (node h d) = abs_path (ps @ xs)"
    "abs_path (ps @ xs @ [x]) \<in> fst ` set (entries (datafile (node h d)))"
    by (auto simp: mirrors_holds holds_def files_of_def)
  have "list_all plain_elem xs" using holds_path [OF _ tree_ok_entries [OF ok] d(1)] mr by (auto simp: mirrors_holds)
  then have "list_all plain_elem ((ps @ xs) @ [x])" using ps(1) tree_okD(3) [OF okd x] by simp
  from Dir_abs [OF this] ps(2) have "Dir (abs_path (ps @ xs @ [x])) = abs_path (ps @ xs)" by simp
  moreover have "dmap h root (abs_path (ps @ xs)) = Some d" using ix dn(1,2) d(1) by (auto simp: indexed_def reach_def)
  ultimately have "GetOwningSubDirectory h root (abs_path (ps @ xs @ [x])) = Inr d"
    by (simp add: GetOwningSubDirectory_def dmap_def)
  with dn(3) show ?thesis by blast
qed

text \<open>The root gets the first category of the key when it has none.\<close>

lemma set_root_category:
  fixes h root c
  defines "h1 \<equiv> (if category (node h root) = [] then modify root (\<lambda>x. x\<lparr>category := c\<rparr>) h else h)"
  assumes "heap_ok h" "root < next_ref h" "holds h root ps es"
  shows "next_ref h1 = next_ref h" "heap_ok h1" "directMap (node h1 root) = directMap (node h root)" "dmap h1 root = dmap h root"
    "indexed h1 root p r \<longleftrightarrow> indexed h root p r" "holds h1 root ps es"
    "category (node h1 root) = (if category (node h root) = [] then c else category (node h root))"
proof -
  show "next_ref h1 = next_ref h" "directMap (node h1 root) = directMap (node h root)" "dmap h1 root = dmap h root"
    "category (node h1 root) = (if category (node h root) = [] then c else category (node h root))"
    by (simp_all add: h1_def dmap_def)
  show "heap_ok h1" using assms(2) by (auto simp: h1_def children_def intro!: heap_ok_modify)
  have "reach h1 root = reach h root" by (simp add: h1_def reach_modify)
  then show "indexed h1 root p r \<longleftrightarrow> indexed h root p r" by (auto simp: h1_def indexed_def)
  show "holds h1 root ps es"
  proof (rule holds_frame(1) [OF assms(4)])
    show "\<forall>b \<in> ran (map_of (entries (subDirs (node h root)))). \<forall>c \<in> reach h b. agree (node h1 c) (node h c)"
      using kid_above(1) [OF assms(2,3)] by (auto simp: h1_def)
  qed (simp_all add: h1_def)
qed

text \<open>
  C3: adding a time bucket creates its directories and its first year file, with header and full size, keeps every other file, and
  leaves a catalog that mirrors the new directory tree, provided that tree is well formed (no directory has both
  subdirectories and year files); the new file is found through the index.
\<close>

theorem add_bucket_mirrors:
  assumes cat: "catalog_ok t root ps h"
    and key: "GetItems tbk = Inr (i # items)" "GetCategories tbk = Inr cats" "i \<noteq> ''category_name''"
    and file_path: "tbPath f = abs_path (ps @ i # items @ [fname])" "list_all plain_elem (i # items @ [fname])" "Ext fname = ''.bin''"
    and f: "IsRead f"
    and add: "AddTimeBucket loc root tbk f t h = (t', h', f', None)"
    and tree: "lookup t' ps = Inr (Folder es')" "tree_ok (Folder es')"
  shows "catalog_ok t' root ps h' \<and>
    (\<forall>xs b. lookup t xs = Inr (RegFile b) \<longrightarrow> lookup t' xs = Inr (RegFile b)) \<and>
    (\<exists>hd. Load (disk_of t') f = Inr (hd, f') \<and> lookup t' (ps @ i # items @ [fname]) =
       Inr (RegFile (truncate_to (nat (FileSize loc (timeframe f) (tbYear f) (recordLength f))) (header_bytes hd)))) \<and>
    (\<exists>d. GetOwningSubDirectory h' root (tbPath f) = Inr d \<and> tbPath f \<in> fst ` set (entries (datafile (node h' d))))"
proof -
  from cat obtain es where es: "lookup t ps = Inr (Folder es)" "tree_ok (Folder es) \<or> fresh_root es" "root_mirrors h root ps es"
    and ps: "list_all plain_elem ps" "ps \<noteq> []" and ix: "\<forall>p r. dmap h root p = Some r \<longleftrightarrow> indexed h root p r"
    and h: "heap_ok h" "root < next_ref h" "directMap (node h root) \<noteq> None"
    unfolding catalog_ok_def by blast
  have path: "pathToItemName (node h root) = abs_path ps" using es(3) by (simp add: root_mirrors_def holds_def)
  have plain: "list_all plain_elem (ps @ i # items @ [fname])" using ps file_path(2) by simp
  note eff = AddTimeBucket_tree [OF add key(1,2) path plain ps(2) f file_path(1)]
  obtain c where c: "lookup t' (ps @ [''category_name'']) = Inr (RegFile c)" "bytes_str c = hd cats" using eff(2) by blast
  have c': "map_of es' ''category_name'' = Some (RegFile c)" using c(1) tree(1) by (auto simp: lookup_append split: option.splits)
  obtain q where q: "lookup t' (ps @ [i]) = Inr q" "\<exists>b. lookup q (items @ [fname]) = Inr (RegFile b)"
    using eff(5) lookup_append [of t' "ps @ [i]" "items @ [fname]"] by (auto simp: res_bind_Inr)
  obtain m where m: "map_of es' i = Some (Folder m)"
    using q tree(1) by (cases q; cases items) (auto simp: lookup_append split: option.splits)
  have rc: "root_change ps i t t' es es' m" using eff(1) es(1,2) tree m key(3) ps by (simp add: root_change_def)
  define h1 where "h1 = (if category (node h root) = [] then modify root (\<lambda>x. x\<lparr>category := hd cats\<rparr>) h else h)"
  have "holds h root ps es" using es(3) by (simp add: root_mirrors_def)
  note h1 = set_root_category [OF h(1,2) this, of "hd cats", folded h1_def]
  have cat1: "bytes_str c = category (node h1 root)"
  proof (cases "category (node h root) = []")
    case False
    then obtain b0 where b0: "map_of es ''category_name'' = Some (RegFile b0)" "category (node h root) = bytes_str b0"
      using es(3) by (auto simp: root_mirrors_def split: option.splits fsnode.splits)
    then have "lookup t (ps @ [''category_name'']) = Inr (RegFile b0)" using es(1) by (simp add: lookup_append)
    then have "lookup t' (ps @ [''category_name'']) = Inr (RegFile b0)" using eff(1) unfolding touches_def by blast
    with c b0 False show ?thesis by (simp add: h1(7))
  qed (simp add: h1(7) c(2))

  have "lookup t' (ps @ [i]) = Inr (Folder m)" using m tree(1) by (simp add: lookup_append)
  moreover have "tree_ok (Folder m)" using tree_okD(4) [OF tree(2) map_of_SomeD [OF m]] .
  ultimately obtain h2 where h2: "NewDirectory t' (abs_path (ps @ [i])) h1 = (next_ref h1, h2)"
    "dir_loaded (next_ref h1) (next_ref h1) (ps @ [i]) (Folder m) (snd (alloc (zero_dir\<lparr>directMap := Some []\<rparr>) h1)) h2"
    using NewDirectory_loads [of t' "ps @ [i]" "Folder m" h1] plain h1(2) by auto
  have path1: "pathToItemName (node h1 root) = abs_path ps" using h1(6) by (simp add: holds_def)
  have "Join (abs_path ps) i = abs_path (ps @ [i])" using Join_child plain ps(2) by simp
  then have "addSubdir root (next_ref h1) i h2 = (h', None)"
    using eff(4) h2(1) path1 by (simp add: add_child_def h1_def [symmetric] Let_def)
  then have "attached root ps i (Folder m) h1 h2 h'" using h2(2) h1(1-3) h(2,3) by (simp add: attached_def)
  from attach_ok [OF rc this h1(6) _ c' cat1] ix have ok: "catalog_ok t' root ps h'" by (simp add: h1(4,5))
  moreover from eff(5) obtain b where "lookup t' (ps @ (i # items) @ [fname]) = Inr (RegFile b)" by auto
  from catalog_finds [OF ok this file_path(3)] have "\<exists>d. GetOwningSubDirectory h' root (tbPath f) = Inr d \<and>
      tbPath f \<in> fst ` set (entries (datafile (node h' d)))" by (simp add: file_path(1))
  ultimately show ?thesis using eff(1,5) unfolding touches_def by blast
qed

section \<open>A first bucket\<close>

definition no_heap :: heap where "no_heap = \<lparr>node = \<lambda>_. zero_dir, next_ref = 0\<rparr>"

definition sample_root :: fsnode where "sample_root = Folder [(''db'', Folder [])]"

definition sample_key :: TimeBucketKey where "sample_key = NewTimeBucketKey ''AAPL/1Min/OHLCV'' []"

text \<open>The directory tree with the first bucket, for the contents of its year file.\<close>

definition sample_tree :: "(string \<times> fsnode) list \<Rightarrow> fsnode" where
  "sample_tree year_files = Folder [(''db'', Folder [
     (''AAPL'', Folder [
       (''1Min'', Folder [
         (''OHLCV'', Folder (year_files @ [(''category_name'', RegFile (str_bytes ''Year''))])),
         (''category_name'', RegFile (str_bytes ''AttributeGroup''))]),
       (''category_name'', RegFile (str_bytes ''Timeframe''))]),
     (''category_name'', RegFile (str_bytes ''Symbol''))])]"

lemma sample_steps:
  "GetItems sample_key = Inr [''AAPL'', ''1Min'', ''OHLCV'']"
  "GetCategories sample_key = Inr [''Symbol'', ''Timeframe'', ''AttributeGroup'']"
  "make_dirs [''AAPL'', ''1Min'', ''OHLCV''] [''Symbol'', ''Timeframe'', ''AttributeGroup''] ''/db'' sample_root
     = (fst (make_dirs [''AAPL'', ''1Min'', ''OHLCV''] [''Symbol'', ''Timeframe'', ''AttributeGroup''] ''/db'' sample_root), Inr ''/db/AAPL/1Min/OHLCV'')"
  "writeCatName ''Year'' ''/db/AAPL/1Min/OHLCV'' (fst (make_dirs [''AAPL'', ''1Min'', ''OHLCV''] [''Symbol'', ''Timeframe'', ''AttributeGroup''] ''/db'' sample_root))
     = (sample_tree [], None)"
  "pathToItemName (node (snd (NewDirectory sample_root ''/db'' no_heap)) 0) = ''/db''"
  "is_ok (stat (sample_tree []) ''/db/AAPL/1Min/OHLCV/2019.bin'') = False"
  "write_file ''/db/AAPL/1Min/OHLCV/2019.bin'' [] (sample_tree []) = Inr (sample_tree [(''2019.bin'', RegFile [])])"
  by code_simp+

lemma sample_write:
  "write_file ''/db/AAPL/1Min/OHLCV/2019.bin'' b (sample_tree [(''2019.bin'', RegFile [])]) = Inr (sample_tree [(''2019.bin'', RegFile b)])"
proof -
  have "path_elems ''/db/AAPL/1Min/OHLCV/2019.bin'' = [''db'', ''AAPL'', ''1Min'', ''OHLCV'', ''2019.bin'']" by code_simp
  then show ?thesis by (simp add: write_file_def stat_def sample_tree_def)
qed

lemma sample_tree_ok:
  "lookup (sample_tree [(''2019.bin'', RegFile b)]) [''db''] = Inr (Folder es) \<Longrightarrow> tree_ok (Folder es)"
proof -
  have "Itoa 2019 @ ''.bin'' = ''2019.bin''" by code_simp
  then have "year_name ''2019.bin''" unfolding year_name_def by (intro exI [of _ 2019]) simp
  moreover have "Ext ''2019.bin'' = ''.bin''" "Ext ''category_name'' = ''''" by code_simp+
  ultimately show "lookup (sample_tree [(''2019.bin'', RegFile b)]) [''db''] = Inr (Folder es) \<Longrightarrow> tree_ok (Folder es)"
    by (auto simp: sample_tree_def tree_ok.simps(2) plain_elem_def)
qed

text \<open>Adding the new directory to a root that has an index does not fail.\<close>

lemma add_child_total:
  assumes "catalog_ok t0 root ps h" "lookup t (ps @ [i]) = Inr (Folder m)" "tree_ok (Folder m)" "plain_elem i"
  shows "snd (add_child root c i t h) = None"
proof -
  from assms(1) obtain es where h: "heap_ok h" "root < next_ref h" "directMap (node h root) \<noteq> None" "holds h root ps es"
    and ps: "list_all plain_elem ps" "ps \<noteq> []" unfolding catalog_ok_def root_mirrors_def by blast
  define h1 where "h1 = (if category (node h root) = [] then modify root (\<lambda>x. x\<lparr>category := c\<rparr>) h else h)"
  note h1 = set_root_category [OF h(1,2,4), of c, folded h1_def]
  obtain h2 where h2: "NewDirectory t (abs_path (ps @ [i])) h1 = (next_ref h1, h2)"
    "dir_loaded (next_ref h1) (next_ref h1) (ps @ [i]) (Folder m) (snd (alloc (zero_dir\<lparr>directMap := Some []\<rparr>) h1)) h2"
    using NewDirectory_loads [OF assms(2,3)] ps assms(4) h1(2) by auto
  have "directMap (node h2 root) \<noteq> None"
    using h2(2) h(2,3) h1(1,3) unfolding dir_loaded_def load_frame_def by auto
  moreover have "Join (pathToItemName (node h1 root)) i = abs_path (ps @ [i])"
    using h1(6) Join_child [of ps i] ps assms(4) by (simp add: holds_def)
  moreover have "root \<noteq> next_ref h1" using h(2) h1(1) by simp
  ultimately show ?thesis using h2(1) by (simp add: add_child_def h1_def [symmetric] addSubdir_def Let_def)
qed

definition sample_aapl :: "bytes \<Rightarrow> (string \<times> fsnode) list" where
  "sample_aapl b = [
       (''1Min'', Folder [
         (''OHLCV'', Folder [(''2019.bin'', RegFile b), (''category_name'', RegFile (str_bytes ''Year''))]),
         (''category_name'', RegFile (str_bytes ''AttributeGroup''))]),
       (''category_name'', RegFile (str_bytes ''Timeframe''))]"

lemma sample_aapl:
  "lookup (sample_tree [(''2019.bin'', RegFile b)]) [''db'', ''AAPL''] = Inr (Folder (sample_aapl b))"
  "tree_ok (Folder (sample_aapl b))" "plain_elem ''AAPL''"
proof -
  show l: "lookup (sample_tree [(''2019.bin'', RegFile b)]) [''db'', ''AAPL''] = Inr (Folder (sample_aapl b))"
    by (simp add: sample_tree_def sample_aapl_def)
  obtain es where es: "lookup (sample_tree [(''2019.bin'', RegFile b)]) [''db''] = Inr (Folder es)" by (simp add: sample_tree_def)
  have "(''AAPL'', Folder (sample_aapl b)) \<in> set es"
    using es l by (auto simp: sample_tree_def sample_aapl_def)
  then show "tree_ok (Folder (sample_aapl b))" by (rule tree_okD(4) [OF sample_tree_ok [OF es]])
  show "plain_elem ''AAPL''" by (simp add: plain_elem_def)
qed


theorem add_bucket_mirrors_witness:
  "\<exists>t h f. AddTimeBucket UTC 0 sample_key sample_info sample_root (snd (NewDirectory sample_root ''/db'' no_heap)) = (t, h, f, None) \<and>
     catalog_ok t 0 [''db''] h \<and> (\<exists>d. GetOwningSubDirectory h 0 ''/db/AAPL/1Min/OHLCV/2019.bin'' = Inr d)"
proof -
  let ?h = "snd (NewDirectory sample_root ''/db'' no_heap)" and ?p = "''/db/AAPL/1Min/OHLCV/2019.bin''"
  have "abs_path [''db''] = ''/db''" by (simp add: abs_path_def)
  moreover have "heap_ok no_heap" "next_ref no_heap = 0" by (simp_all add: heap_ok_def no_heap_def)
  ultimately have cat: "catalog_ok sample_root 0 [''db''] ?h"
    using NewDirectory_fresh [of sample_root "[''db'']" "[]" no_heap] by (simp add: sample_root_def fresh_root_def plain_elem_def)
  have sample_child: "lookup (sample_tree [(''2019.bin'', RegFile B)]) ([''db''] @ [''AAPL'']) = Inr (Folder (sample_aapl B))"
    "tree_ok (Folder (sample_aapl B))" "plain_elem ''AAPL''" for B
    using sample_aapl by simp_all
  define B where "B = truncate_to (nat (FileSize UTC Minute 2019 16)) (header_bytes (Metadata.loaded sample_info))"
  have pos: "\<not> FileSize UTC Minute 2019 16 < 0" using FileSize_UTC [of Minute 2019 16] year_days_bounds [of 2019]
    by (simp add: Headersize_def)
  have f: "sample_info\<lparr>once_done := True\<rparr> = sample_info" "IsRead sample_info" "tbPath sample_info = ?p" "timeframe sample_info = Minute"
    "tbYear sample_info = 2019" "recordLength sample_info = 16" by (simp_all add: sample_info_eq)
  have "Load fs sample_info = Inr (Metadata.loaded sample_info, sample_info)" for fs
    using Load_loaded [OF sample_info_ok(1) once_do_read [OF f(2)] f(2)] f(1) by simp
  then have new: "newTimeBucketInfoFromTemplate UTC sample_info (sample_tree []) = (sample_tree [(''2019.bin'', RegFile B)], sample_info, None)"
    using sample_steps(6,7) sample_write pos
    by (simp add: newTimeBucketInfoFromTemplate_def f WriteHeader_def Write_def write_at_def B_def Let_def)
  obtain h' where add: "AddTimeBucket UTC 0 sample_key sample_info sample_root ?h = (sample_tree [(''2019.bin'', RegFile B)], h', sample_info, None)"
  proof -
    obtain t1 where t1: "make_dirs [''AAPL'', ''1Min'', ''OHLCV''] [''Symbol'', ''Timeframe'', ''AttributeGroup''] ''/db'' sample_root
        = (t1, Inr ''/db/AAPL/1Min/OHLCV'')" "writeCatName ''Year'' ''/db/AAPL/1Min/OHLCV'' t1 = (sample_tree [], None)"
      using sample_steps(3,4) by (metis)
    obtain h' where h': "add_child 0 ''Symbol'' ''AAPL'' (sample_tree [(''2019.bin'', RegFile B)]) ?h = (h', None)"
      using add_child_total [OF cat sample_child, of "''Symbol''"] by (metis prod.collapse)
    show thesis
      by (rule that [of h']) (simp add: AddTimeBucket_def sample_steps(1,2,5) t1 new h' del: make_dirs.simps)
  qed
  have p: "?p = abs_path ([''db''] @ ''AAPL'' # [''1Min'', ''OHLCV''] @ [''2019.bin''])" by code_simp
  obtain es where es: "lookup (sample_tree [(''2019.bin'', RegFile B)]) [''db''] = Inr (Folder es)" by (simp add: sample_tree_def)
  have ext: "Ext ''2019.bin'' = ''.bin''" by code_simp
  from add_bucket_mirrors [OF cat sample_steps(1,2) _ f(3) [unfolded p] _ ext f(2) add es sample_tree_ok [OF es]]
  show ?thesis using add f(3) by (auto simp: plain_elem_def)
qed

end
