(* ===== verification/Planner.thy ===== *)
theory Planner
  imports CatalogAdd
begin

text \<open>
  Queries and their parsing over the catalog: the second part of \<^verbatim>\<open>planner/planner.go\<close>. A query restricts
  categories to items and carries a time range, a row limit and time qualifiers; parsing it walks the catalog and collects the year files of the
  directories that pass the restrictions.
\<close>

section \<open>Queries\<close>

record query =
  qRange :: "DateRange option"
  qRestriction :: RestrictionList
  qLimit :: "RowLimit option"
  qDataDir :: dref
  qTimeQuals :: "TimeQualFunc list"

definition NewQuery :: "location \<Rightarrow> dref \<Rightarrow> query" where
  "NewQuery loc d = \<lparr>qRange = Some (NewDateRange loc), qRestriction = NewRestrictionList, qLimit = Some NewRowLimit,
     qDataDir = d, qTimeQuals = []\<rparr>"

definition SetRowLimit :: "DirectionEnum \<Rightarrow> int \<Rightarrow> query \<Rightarrow> query" where
  "SetRowLimit direction rowLimit q =
     q\<lparr>qLimit := Some (NewRowLimit\<lparr>limNumber := to_int32 rowLimit, limDirection := direction\<rparr>)\<rparr>"

definition range_of :: "location \<Rightarrow> query \<Rightarrow> DateRange" where
  "range_of loc q = (case qRange q of None \<Rightarrow> NewDateRange loc | Some r \<Rightarrow> r)"

definition SetStart :: "location \<Rightarrow> int \<Rightarrow> query \<Rightarrow> query" where
  "SetStart loc start q = q\<lparr>qRange := Some ((range_of loc q)\<lparr>rStart := start, StartYear := epoch_year loc start\<rparr>)\<rparr>"

definition SetEnd :: "location \<Rightarrow> int \<Rightarrow> query \<Rightarrow> query" where
  "SetEnd loc e q = q\<lparr>qRange := Some ((range_of loc q)\<lparr>rEnd := e, EndYear := epoch_year loc e\<rparr>)\<rparr>"

definition SetRange :: "location \<Rightarrow> int \<Rightarrow> int \<Rightarrow> query \<Rightarrow> query" where
  "SetRange loc start e q = SetEnd loc e (SetStart loc start (q\<lparr>qRange := Some \<lparr>rStart = 0, rEnd = 0, StartYear = 0, EndYear = 0\<rparr>\<rparr>))"

definition query_AddRestriction :: "string \<Rightarrow> string \<Rightarrow> query \<Rightarrow> query" where
  "query_AddRestriction c item q = q\<lparr>qRestriction := AddRestriction c item (qRestriction q)\<rparr>"

fun add_targets :: "TimeBucketKey \<Rightarrow> string list \<Rightarrow> query \<Rightarrow> query result" where
  "add_targets key [] q = Inr q"
| "add_targets key (c # cats) q =
     res_bind (GetMultiItemInCategory key c) (\<lambda>items. add_targets key cats (fold (query_AddRestriction c) items q))"

definition AddTargetKey :: "TimeBucketKey \<Rightarrow> query \<Rightarrow> query result" where
  "AddTargetKey key q = res_bind (GetCategories key) (\<lambda>cats. add_targets key cats q)"

definition AddTimeQual :: "TimeQualFunc \<Rightarrow> query \<Rightarrow> query" where
  "AddTimeQual timeQual q = q\<lparr>qTimeQuals := qTimeQuals q @ [timeQual]\<rparr>"

section \<open>Parsing\<close>

text \<open>The subdirectories that pass the restriction of a directory's category, with the items so far.\<close>

definition selected :: "heap \<Rightarrow> RestrictionList \<Rightarrow> dref \<Rightarrow> string \<Rightarrow> string \<Rightarrow> (dref \<times> string \<times> string) list" where
  "selected h restr d itemKey categoryKey =
     (case getItemList restr (GetCategory h d) of
        Some list \<Rightarrow> concat (map (\<lambda>item. case GetSubDirWithItemName h d item of
            None \<Rightarrow> [] | Some r \<Rightarrow> [(r, itemKey @ item @ ''/'', categoryKey)]) list)
      | None \<Rightarrow> map (\<lambda>r. (r, itemKey @ GetName h r @ ''/'', categoryKey)) (GetListOfSubDirs h d))"

text \<open>
  The year files of one directory; the key is \<^verbatim>\<open>nil\<close> when the directory has subdirectories, and its use panics.
\<close>

definition own_files :: "heap \<Rightarrow> dref \<Rightarrow> TimeBucketKey option \<Rightarrow> QualifiedFile list result" where
  "own_files h d latestKey =
     (if DirHasDataFiles h d \<and> GetTimeBucketInfoSlice h d \<noteq> [] then
        (case latestKey of
           None \<Rightarrow> Inl nil_pointer
         | Some k \<Rightarrow> Inr (map (\<lambda>f. \<lparr>qfKey = k, qfFile = f\<rparr>) (GetTimeBucketInfoSlice h d)))
      else Inr [])"

text \<open>\<^verbatim>\<open>getFileList\<close> on a list of directories in turn; \<open>None\<close> stands for a walk that does not end.\<close>

partial_function (option) getFileList :: "heap \<Rightarrow> RestrictionList \<Rightarrow> (dref \<times> string \<times> string) list \<Rightarrow> QualifiedFile list result option" where
  "getFileList h restr ws =
     (case ws of
        [] \<Rightarrow> Some (Inr [])
      | (d, itemKey, categoryKey) # ws \<Rightarrow>
          Option.bind
            (if DirHasSubDirs h d then
               Option.bind (getFileList h restr (selected h restr d itemKey (categoryKey @ GetCategory h d @ ''/''))) (\<lambda>sub.
                 Some (res_bind sub (\<lambda>fs. res_bind (own_files h d None) (\<lambda>own. Inr (fs @ own)))))
             else if itemKey = [] \<or> categoryKey = [] then Some (Inl (Panic ''slice bounds out of range''))
             else Some (own_files h d (Some (NewTimeBucketKey (butlast itemKey) [butlast categoryKey]))))
            (\<lambda>first. case first of
                Inl e \<Rightarrow> Some (Inl e)
              | Inr fs \<Rightarrow> Option.bind (getFileList h restr ws) (\<lambda>rest. Some (res_bind rest (\<lambda>gs. Inr (fs @ gs))))))"

fun same_intervals :: "disk \<Rightarrow> int \<Rightarrow> QualifiedFile list \<Rightarrow> bool result" where
  "same_intervals fs n [] = Inr True"
| "same_intervals fs n (qf # qfs) = res_bind (GetIntervals fs (qfFile qf)) (\<lambda>(m, _).
     if n \<noteq> m then Inr False else same_intervals fs n qfs)"

text \<open>The last second of a year.\<close>

definition year_end :: "location \<Rightarrow> int \<Rightarrow> instant" where
  "year_end loc y = wall_to_unix loc ((days_before_year (y + 1) - 719162) * 86400 - 1) * Second"

definition whole_years :: "location \<Rightarrow> QualifiedFile list \<Rightarrow> DateRange \<Rightarrow> DateRange" where
  "whole_years loc qfs r =
     (let years = map (\<lambda>qf. tbYear (qfFile qf)) qfs;
          first = Min (set years); last = Max (set years)
      in r\<lparr>StartYear := first, EndYear := last, rStart := Unix (year_start loc first), rEnd := Unix (year_end loc last)\<rparr>)"

text \<open>The parse result that is returned with an error is not used; the heap keeps the cached list of categories.\<close>

definition parse_files :: "location \<Rightarrow> disk \<Rightarrow> query \<Rightarrow> path \<Rightarrow> QualifiedFile list \<Rightarrow> ParseResult result" where
  "parse_files loc fs q rootDir qfs =
     (if qfs = [] then Inl (Err ''No files returned from query parse'')
      else res_bind (GetIntervals fs (qfFile (hd qfs))) (\<lambda>(n, _). res_bind (same_intervals fs n qfs) (\<lambda>same.
        if \<not> same then Inl (Err ''Timeframe not the same in result set'')
        else case qRange q of
            None \<Rightarrow> Inl nil_pointer
          | Some r \<Rightarrow>
              let timeRange = (rStart r \<noteq> MinEpoch \<or> rEnd r \<noteq> MaxEpoch)
              in Inr \<lparr>QualifiedFiles = qfs, prLimit = qLimit q, prRange = Some (if timeRange then r else whole_years loc qfs r),
                   IntervalsPerDay = n, prRootDir = rootDir, prTimeQuals = qTimeQuals q\<rparr>)))"

definition Parse :: "location \<Rightarrow> fsnode \<Rightarrow> query \<Rightarrow> heap \<Rightarrow> (ParseResult result \<times> heap) option" where
  "Parse loc t q h =
     Option.bind (GatherCategoriesFromCache (qDataDir q) h) (\<lambda>(CatList, h).
       if \<not> list_all (\<lambda>(key, _). key \<in> set CatList) (qRestriction q) then Some (Inl (Err ''category not in catalog''), h)
       else Option.bind (getFileList h (qRestriction q) [(qDataDir q, [], [])]) (\<lambda>r.
         Some (res_bind r (parse_files loc (disk_of t) q (GetPath h (qDataDir q))), h)))"

section \<open>What parsing finds\<close>

text \<open>A path from a directory whose items pass the restrictions of their categories, and these categories.\<close>

definition allowed :: "heap \<Rightarrow> RestrictionList \<Rightarrow> dref \<Rightarrow> string \<Rightarrow> bool" where
  "allowed h restr d x \<longleftrightarrow> (case map_of restr (category (node h d)) of None \<Rightarrow> True | Some list \<Rightarrow> x \<in> set list)"

fun admitted :: "heap \<Rightarrow> RestrictionList \<Rightarrow> dref \<Rightarrow> string list \<Rightarrow> bool" where
  "admitted h restr d [] = True"
| "admitted h restr d (x # xs) = (allowed h restr d x \<and>
     (case map_of (entries (subDirs (node h d))) x of None \<Rightarrow> False | Some c \<Rightarrow> admitted h restr c xs))"

fun cats_along :: "heap \<Rightarrow> dref \<Rightarrow> string list \<Rightarrow> string list" where
  "cats_along h d [] = []"
| "cats_along h d (x # xs) = category (node h d) #
     (case map_of (entries (subDirs (node h d))) x of None \<Rightarrow> [] | Some c \<Rightarrow> cats_along h c xs)"

definition slashed :: "string list \<Rightarrow> string" where
  "slashed xs = concat (map (\<lambda>x. x @ ''/'') xs)"

definition matches :: "heap \<Rightarrow> RestrictionList \<Rightarrow> dref \<Rightarrow> string \<Rightarrow> string \<Rightarrow> QualifiedFile set" where
  "matches h restr d itemKey categoryKey =
     {qf. \<exists>xs e. walk h d xs = Some e \<and> admitted h restr d xs \<and> qfFile qf \<in> set (GetTimeBucketInfoSlice h e) \<and>
        qfKey qf = NewTimeBucketKey (butlast (itemKey @ slashed xs)) [butlast (categoryKey @ slashed (cats_along h d xs))]}"

lemma getFileList_Nil [simp]: "getFileList h restr [] = Some (Inr [])"
  by (subst getFileList.simps) simp

text \<open>The files of one directory, and of one after the other.\<close>

lemma getFileList_one:
  "getFileList h restr [(d, ik, ck)] =
      (if DirHasSubDirs h d then
         Option.bind (getFileList h restr (selected h restr d ik (ck @ GetCategory h d @ ''/''))) (\<lambda>sub.
           Some (res_bind sub (\<lambda>fs. res_bind (own_files h d None) (\<lambda>own. Inr (fs @ own)))))
       else if ik = [] \<or> ck = [] then Some (Inl (Panic ''slice bounds out of range''))
       else Some (own_files h d (Some (NewTimeBucketKey (butlast ik) [butlast ck]))))"
proof -
  have first: "Option.bind X (\<lambda>first. case first of Inl e \<Rightarrow> Some (Inl e)
      | Inr fs \<Rightarrow> Option.bind (Some (Inr [])) (\<lambda>rest. Some (res_bind rest (\<lambda>gs. Inr (fs @ gs))))) = X" for X :: "'a list result option"
    by (cases X; cases "the X") auto
  show ?thesis by (subst getFileList.simps) (simp only: list.case prod.case getFileList_Nil first)
qed

lemma getFileList_Cons:
  "getFileList h restr (w # ws) = Option.bind (getFileList h restr [w]) (\<lambda>first. case first of
      Inl e \<Rightarrow> Some (Inl e)
    | Inr fs \<Rightarrow> Option.bind (getFileList h restr ws) (\<lambda>rest. Some (res_bind rest (\<lambda>gs. Inr (fs @ gs)))))"
proof -
  obtain d ik ck where w: "w = (d, ik, ck)" by (cases w)
  show ?thesis unfolding w getFileList_one by (subst getFileList.simps) (simp only: list.case prod.case)
qed

lemma getFileList_all:
  assumes "\<forall>w \<in> set ws. \<exists>fs. getFileList h restr [w] = Some (Inr fs) \<and> set fs = S w"
  shows "\<exists>fs. getFileList h restr ws = Some (Inr fs) \<and> set fs = (\<Union>w \<in> set ws. S w)"
  using assms
proof (induction ws)
  case (Cons w ws)
  then obtain fs gs where "getFileList h restr [w] = Some (Inr fs)" "set fs = S w"
    "getFileList h restr ws = Some (Inr gs)" "set gs = (\<Union>w \<in> set ws. S w)" by fastforce
  then show ?case by (subst getFileList_Cons) simp
qed simp

text \<open>The subdirectories that are walked into.\<close>

lemma selected_set:
  assumes "holds h d ps es"
  shows "set (selected h restr d ik ck) =
    {(c, ik @ x @ ''/'', ck) | x c. map_of (entries (subDirs (node h d))) x = Some c \<and> allowed h restr d x}"
proof (cases "map_of restr (category (node h d))")
  case None
  have dist: "distinct (map fst (entries (subDirs (node h d))))" using assms by (simp only: holds_def)
  have "itemName (node h c) = x" if "(x, c) \<in> set (entries (subDirs (node h d)))" for x c
    using holds_kid [OF assms, of x c] map_of_is_SomeI [OF dist that] by metis
  then have "set (selected h restr d ik ck) = {(c, ik @ x @ ''/'', ck) | x c. (x, c) \<in> set (entries (subDirs (node h d)))}"
    using None by (force simp: selected_def getItemList_def GetCategory_def GetListOfSubDirs_def children_def GetName_def)
  then show ?thesis using None dist by (simp add: allowed_def)
next
  case (Some list)
  then show ?thesis
    by (auto simp: selected_def getItemList_def GetCategory_def GetSubDirWithItemName_def allowed_def split: option.splits)
qed

lemma matches_split:
  assumes "holds h d ps es" "DirHasSubDirs h d" "GetTimeBucketInfoSlice h d = []"
  shows "matches h restr d ik ck =
    (\<Union>(c, ik', ck') \<in> set (selected h restr d ik (ck @ GetCategory h d @ ''/'')). matches h restr c ik' ck')"
proof -
  have iff: "qf \<in> matches h restr d ik ck \<longleftrightarrow>
      (\<exists>x c. map_of (entries (subDirs (node h d))) x = Some c \<and> allowed h restr d x \<and>
        qf \<in> matches h restr c (ik @ x @ ''/'') (ck @ GetCategory h d @ ''/''))" (is "_ \<longleftrightarrow> ?R") for qf
  proof
    assume "qf \<in> matches h restr d ik ck"
    then obtain xs e where xs: "walk h d xs = Some e" "admitted h restr d xs" "qfFile qf \<in> set (GetTimeBucketInfoSlice h e)"
      "qfKey qf = NewTimeBucketKey (butlast (ik @ slashed xs)) [butlast (ck @ slashed (cats_along h d xs))]"
      unfolding matches_def by blast
    then obtain x ys where x: "xs = x # ys" using assms(3) by (cases xs) auto
    with xs obtain c where c: "map_of (entries (subDirs (node h d))) x = Some c" "walk h c ys = Some e" "admitted h restr c ys"
      "allowed h restr d x" by (auto split: option.splits)
    have "qf \<in> matches h restr c (ik @ x @ ''/'') (ck @ GetCategory h d @ ''/'')"
      unfolding matches_def using xs(3,4) c by (auto simp: x slashed_def GetCategory_def intro!: exI [of _ ys])
    with c show ?R by blast
  next
    assume ?R
    then obtain x c where c: "map_of (entries (subDirs (node h d))) x = Some c" "allowed h restr d x"
      "qf \<in> matches h restr c (ik @ x @ ''/'') (ck @ GetCategory h d @ ''/'')" by blast
    then obtain ys e where ys: "walk h c ys = Some e" "admitted h restr c ys" "qfFile qf \<in> set (GetTimeBucketInfoSlice h e)"
      "qfKey qf = NewTimeBucketKey (butlast ((ik @ x @ ''/'') @ slashed ys)) [butlast ((ck @ GetCategory h d @ ''/'') @ slashed (cats_along h c ys))]"
      unfolding matches_def by blast
    show "qf \<in> matches h restr d ik ck"
      unfolding matches_def using ys c by (auto simp: slashed_def GetCategory_def intro!: exI [of _ "x # ys"])
  qed
  show ?thesis
  proof (rule set_eqI)
    fix qf
    show "qf \<in> matches h restr d ik ck \<longleftrightarrow> qf \<in> (\<Union>(c, ik', ck') \<in> set (selected h restr d ik (ck @ GetCategory h d @ ''/'')). matches h restr c ik' ck')"
      unfolding iff selected_set [OF assms(1)] by auto
  qed
qed

lemma subdirs_no_files:
  assumes "mirrors h d ps (Folder es)" "tree_ok (Folder es)" "DirHasSubDirs h d"
  shows "GetTimeBucketInfoSlice h d = []" "own_files h d k = Inr []"
proof -
  have holds: "holds h d ps es" using assms(1) by (simp add: mirrors_holds)
  obtain x c where "(x, c) \<in> set (entries (subDirs (node h d)))"
    using assms(3) unfolding DirHasSubDirs_def by (metis list.set_intros(1) neq_Nil_conv surj_pair)
  then have "x \<in> fst ` set (entries (subDirs (node h d)))" by force
  then obtain n where "(x, n) \<in> set es" "is_folder n" using holds unfolding holds_def by blast
  then have "bin_names es = {}" using tree_okD(5) [OF assms(2)] by blast
  then show "GetTimeBucketInfoSlice h d = []" "own_files h d k = Inr []"
    using holds by (simp_all add: holds_def files_of_def GetTimeBucketInfoSlice_def own_files_def)
qed

lemma getFileList_mirrors:
  assumes "mirrors h d ps n" "tree_ok n" "DirHasSubDirs h d \<or> ik \<noteq> [] \<and> ck \<noteq> []"
  shows "\<exists>fs. getFileList h restr [(d, ik, ck)] = Some (Inr fs) \<and> set fs = matches h restr d ik ck"
  using assms
proof (induction n arbitrary: d ps ik ck)
  case (Folder es)
  have holds: "holds h d ps es" using Folder.prems(1) by (simp add: mirrors_holds)
  show ?case
  proof (cases "DirHasSubDirs h d")
    case True
    note none = subdirs_no_files [OF Folder.prems(1,2) True]
    have "\<exists>fs. getFileList h restr [w] = Some (Inr fs) \<and> set fs = (case w of (c, ik', ck') \<Rightarrow> matches h restr c ik' ck')"
      if "w \<in> set (selected h restr d ik (ck @ GetCategory h d @ ''/''))" for w
    proof -
      from that obtain x c where w: "w = (c, ik @ x @ ''/'', ck @ GetCategory h d @ ''/'')"
        "map_of (entries (subDirs (node h d))) x = Some c" unfolding selected_set [OF holds] by blast
      from holds w(2) obtain n where n: "(x, n) \<in> set es" "mirrors h c (ps @ [x]) n" by (rule holds_kid)
      then have "tree_ok n" using tree_okD(4) [OF Folder.prems(2)] by blast
      with Folder.IH [OF n(1) _ n(2)] show ?thesis by (simp add: w(1))
    qed
    then obtain fs where fs: "getFileList h restr (selected h restr d ik (ck @ GetCategory h d @ ''/'')) = Some (Inr fs)"
      "set fs = (\<Union>w \<in> set (selected h restr d ik (ck @ GetCategory h d @ ''/'')). case w of (c, ik', ck') \<Rightarrow> matches h restr c ik' ck')"
      using getFileList_all [OF ballI, of "selected h restr d ik (ck @ GetCategory h d @ ''/'')" h restr "\<lambda>(c, ik', ck'). matches h restr c ik' ck'"]
      by (metis (no_types, lifting))
    then show ?thesis using True none matches_split [OF holds True none(1), of restr ik ck] by (simp add: getFileList_one)
  next
    case False
    have wk: "walk h d xs = Some e \<longleftrightarrow> xs = [] \<and> e = d" for xs e using False by (cases xs) (auto simp: DirHasSubDirs_def)
    have "matches h restr d ik ck = {qf. qfFile qf \<in> set (GetTimeBucketInfoSlice h d) \<and>
        qfKey qf = NewTimeBucketKey (butlast ik) [butlast ck]}"
      unfolding matches_def wk by (auto simp: slashed_def)
    moreover have "\<lparr>qfKey = k, qfFile = qfFile qf\<rparr> = qf" if "qfKey qf = k" for k and qf :: QualifiedFile using that by simp
    moreover have "\<not> DirHasDataFiles h d \<Longrightarrow> GetTimeBucketInfoSlice h d = []"
      by (simp add: DirHasDataFiles_def GetTimeBucketInfoSlice_def)
    ultimately show ?thesis using False Folder.prems(3) by (force simp: getFileList_one own_files_def)
  qed
qed simp

lemma butlast_slashed: "xs \<noteq> [] \<Longrightarrow> butlast (slashed xs) = join_with ''/'' xs"
proof (induction xs)
  case (Cons x xs)
  show ?case
  proof (cases xs)
    case (Cons y ys)
    then have "slashed xs \<noteq> []" by (simp add: slashed_def)
    then have "butlast (slashed (x # xs)) = (x @ ''/'') @ butlast (slashed xs)" by (simp add: slashed_def butlast_append)
    with Cons.IH Cons show ?thesis by simp
  qed (simp add: slashed_def)
qed simp

lemma matches_root:
  assumes "GetTimeBucketInfoSlice h d = []"
  shows "matches h restr d [] [] = {qf. \<exists>xs e. xs \<noteq> [] \<and> walk h d xs = Some e \<and> admitted h restr d xs \<and>
         qfFile qf \<in> set (GetTimeBucketInfoSlice h e) \<and>
         qfKey qf = NewTimeBucketKey (join_with ''/'' xs) [join_with ''/'' (cats_along h d xs)]}"
proof -
  have keys: "butlast ([] @ slashed xs) = join_with ''/'' xs" "butlast ([] @ slashed (cats_along h d xs)) = join_with ''/'' (cats_along h d xs)"
    if "xs \<noteq> []" for xs
    using that butlast_slashed [of xs] butlast_slashed [of "cats_along h d xs"] by (cases xs; simp)+
  have ne: "xs \<noteq> []" if "walk h d xs = Some e" "f \<in> set (GetTimeBucketInfoSlice h e)" for xs e f
    using that assms by (cases xs) auto
  show ?thesis unfolding matches_def using ne keys by (intro Collect_cong ex_cong1) metis
qed

lemma catalog_mirrors:
  assumes "catalog_ok t root ps h" "DirHasSubDirs h root"
  obtains es where "mirrors h root ps (Folder es)" "tree_ok (Folder es)" "lookup t ps = Inr (Folder es)"
proof -
  from assms(1) obtain es where es: "lookup t ps = Inr (Folder es)" "tree_ok (Folder es) \<or> fresh_root es" "root_mirrors h root ps es"
    unfolding catalog_ok_def by blast
  have holds: "holds h root ps es" using es(3) by (simp add: root_mirrors_def)
  have "\<not> fresh_root es"
    using holds_no_folder(1) [OF holds] assms(2) unfolding fresh_root_def DirHasSubDirs_def by blast
  with es(2) have ok: "tree_ok (Folder es)" by blast
  then have "mirrors h root ps (Folder es)" using es(3) tree_okD(2) [OF ok] by (auto simp: root_mirrors_def mirrors_holds)
  with ok es(1) that show thesis by blast
qed

lemma gather_categories:
  assumes "heap_ok h" "d < next_ref h"
  shows "\<exists>l h'. GatherCategoriesFromCache d h = Some (l, h') \<and> (\<exists>c. h' = modify d (\<lambda>x. x\<lparr>catList := c\<rparr>) h)"
proof (cases "catList (node h d)")
  case None
  obtain rs where "recurse h [d] = Some rs" using recurse_ends [OF assms(1), of "[d]"] assms(2) by auto
  then show ?thesis using None by (auto simp: GatherCategoriesFromCache_def gatherCategoriesUpdateCache_def Let_def)
next
  case (Some l)
  then have "(node h d)\<lparr>catList := Some l\<rparr> = node h d" by (cases "node h d") simp
  then have "h = modify d (\<lambda>x. x\<lparr>catList := Some l\<rparr>) h" by (cases h) (simp add: modify_def)
  then show ?thesis using Some by (auto simp: GatherCategoriesFromCache_def)
qed

lemma catalog_ok_catList:
  assumes "catalog_ok t root ps h"
  shows "catalog_ok t root ps (modify root (\<lambda>x. x\<lparr>catList := c\<rparr>) h)"
proof -
  let ?h = "modify root (\<lambda>x. x\<lparr>catList := c\<rparr>) h"
  have "holds h root ps es \<Longrightarrow> holds ?h root ps es" for es
    by (rule holds_frame(1)) (auto simp: agree_def)
  moreover have "heap_ok h \<Longrightarrow> heap_ok ?h" by (rule heap_ok_modify) (simp_all add: children_def)
  moreover have "indexed ?h root p r \<longleftrightarrow> indexed h root p r" for p r by (simp add: indexed_def reach_modify)
  ultimately show ?thesis using assms unfolding catalog_ok_def root_mirrors_def by (auto simp: dmap_def)
qed


lemma sample_catalog:
  fixes b
  defines "t \<equiv> sample_tree [(''2019.bin'', RegFile b)]"
  defines "h \<equiv> snd (NewDirectory t ''/db'' no_heap)"
  shows "catalog_ok t 0 [''db''] h" "DirHasSubDirs h 0"
proof -
  obtain es where es: "lookup t [''db''] = Inr (Folder es)" by (simp add: t_def sample_tree_def)
  have "abs_path [''db''] = ''/db''" by (simp add: abs_path_def)
  moreover have "heap_ok no_heap" "next_ref no_heap = 0" by (simp_all add: heap_ok_def no_heap_def)
  ultimately show cat: "catalog_ok t 0 [''db''] h"
    using NewDirectory_catalog [OF es, of no_heap] sample_tree_ok [OF es [unfolded t_def]] by (simp add: plain_elem_def h_def)
  then have "fst ` set (entries (subDirs (node h 0))) = {x. \<exists>n. (x, n) \<in> set es \<and> is_folder n}"
    using es unfolding catalog_ok_def root_mirrors_def holds_def by auto
  moreover have "''AAPL'' \<in> {x. \<exists>n. (x, n) \<in> set es \<and> is_folder n}" using es by (auto simp: t_def sample_tree_def)
  ultimately show "DirHasSubDirs h 0" unfolding DirHasSubDirs_def by (metis empty_iff image_empty list.set(1))
qed


text \<open>
  A query over a catalog without any directory panics when its categories are still in the cached list of categories.
  The cache is not reset when time buckets are removed, so this is what a query does after the last bucket was
  removed, if a query was made before.
\<close>

theorem empty_catalog_query_panics:
  assumes "\<not> DirHasSubDirs h (qDataDir q)" "catList (node h (qDataDir q)) = Some cats"
    and "list_all (\<lambda>(key, _). key \<in> set cats) (qRestriction q)"
  shows "Parse loc t q h = Some (Inl (Panic ''slice bounds out of range''), h)"
  using assms by (simp add: Parse_def GatherCategoriesFromCache_def getFileList_one)

theorem empty_catalog_query_panics_witness:
  "Parse UTC (Folder []) (query_AddRestriction ''Symbol'' ''AAPL'' (NewQuery UTC 0))
     \<lparr>node = \<lambda>_. zero_dir\<lparr>category := ''Symbol'', catList := Some [''Symbol'', ''Timeframe'']\<rparr>, next_ref = 1\<rparr>
   = Some (Inl (Panic ''slice bounds out of range''),
       \<lparr>node = \<lambda>_. zero_dir\<lparr>category := ''Symbol'', catList := Some [''Symbol'', ''Timeframe'']\<rparr>, next_ref = 1\<rparr>)"
  by (rule empty_catalog_query_panics [where cats = "[''Symbol'', ''Timeframe'']"])
    (simp_all add: DirHasSubDirs_def query_AddRestriction_def NewQuery_def zero_dir_def AddRestriction_def NewRestrictionList_def)

section \<open>Removing part of a key\<close>

lemma remove_gone:
  "xs \<noteq> [] \<Longrightarrow> \<not> is_ok (lookup (remove xs t) (xs @ ys))"
proof (induction xs t rule: remove.induct)
  case (3 x xs es)
  show ?case
  proof (cases "map_of es x")
    case (Some m)
    have "map_of (filter (\<lambda>(y, _). y \<noteq> x) es) x = None" by (auto simp: map_of_eq_None_iff)
    with Some 3 show ?thesis by (cases "xs = []") auto
  qed simp
qed auto

text \<open>
  Removing a time bucket by a key with only the first item deletes the whole directory of this item from disk, but the
  index of the root still leads to the nodes of the year directories below it: the catalog goes on offering
  the descriptions of deleted files.
\<close>

theorem partial_removal_keeps_index:
  assumes "catalog_ok t root ps h" "GetItems tbk = Inr [i]" "walk h root (i # y # ys) = Some d" "datafile (node h d) \<noteq> None"
    and "list_all plain_elem (i # y # ys @ [fname])"
  shows "\<exists>t' h'. RemoveTimeBucket root tbk t h = (t', h', None) \<and>
    \<not> is_ok (lookup t' (ps @ i # y # ys @ [fname])) \<and>
    GetOwningSubDirectory h' root (abs_path (ps @ i # y # ys @ [fname])) = Inr d \<and> node h' d = node h d"
proof -
  obtain b where b: "map_of (entries (subDirs (node h root))) i = Some b" "walk h b (y # ys) = Some d"
    using assms(3) by (auto split: option.splits)
  have sub: "DirHasSubDirs h root" "DirHasSubDirs h b" using b by (auto simp: DirHasSubDirs_def)
  from catalog_mirrors [OF assms(1) sub(1)] obtain es where es: "mirrors h root ps (Folder es)" "tree_ok (Folder es)" by blast
  have cat: "heap_ok h" "root < next_ref h" "list_all plain_elem ps" "ps \<noteq> []"
    "\<And>p r. dmap h root p = Some r \<longleftrightarrow> indexed h root p r" using assms(1) by (simp_all add: catalog_ok_def)
  have holds: "holds h root ps es" using es(1) by (simp add: mirrors_holds)
  have path: "pathToItemName (node h d) = abs_path (ps @ i # y # ys)" using holds_path [OF holds tree_ok_entries [OF es(2)] assms(3)] by simp
  from holds b(1) have bi: "itemName (node h b) = i" by (rule holds_kid)
  have bp: "pathToItemName (node h b) = abs_path (ps @ [i])"
    using holds_path [OF holds tree_ok_entries [OF es(2)], of "[i]" b] b(1) by simp
  define h' where "h' = removeSubDir root i root h"
  have rm: "RemoveTimeBucket root tbk t h = (RemoveAll (abs_path (ps @ [i])) (RemoveAll (abs_path (ps @ [i])) t), h', None)"
    using assms(2) b(1) sub(2) by (simp add: RemoveTimeBucket_def GetSubDirWithItemName_def bi bp h'_def)
  have "path_elems (abs_path (ps @ [i])) = ps @ [i]" using cat(3) assms(5) by (intro path_elems_abs) simp
  then have "\<not> is_ok (lookup (RemoveAll (abs_path (ps @ [i])) (RemoveAll (abs_path (ps @ [i])) t)) (ps @ i # y # ys @ [fname]))"
    using remove_gone [of "ps @ [i]" _ "y # ys @ [fname]"] by (simp add: RemoveAll_def)
  moreover have ne: "abs_path (ps @ i # y # ys) \<noteq> abs_path (ps @ [i])" using abs_path_inj [of "ps @ i # y # ys" "ps @ [i]"] cat(3) assms(5) by auto
  have "dmap h root (abs_path (ps @ i # y # ys)) = Some d"
    using cat(5) assms(3,4) path unfolding indexed_def reach_def by blast
  then have "dmap h' root (abs_path (ps @ i # y # ys)) = Some d"
    using b(1) ne by (auto simp: h'_def removeSubDir_def Let_def dmap_def bp entries_def delete_conv' split: option.splits)
  moreover have "Dir (abs_path (ps @ i # y # ys @ [fname])) = abs_path (ps @ i # y # ys)"
    using Dir_abs [of "ps @ i # y # ys" fname] cat(3,4) assms(5) by simp
  moreover have "d \<noteq> root"
  proof -
    have "d \<in> reach h b" using b(2) unfolding reach_def by blast
    then show ?thesis using kid_above(1) [OF cat(1,2)] b(1) by (auto simp: ran_def)
  qed
  then have "node h' d = node h d" using b(1) by (simp add: h'_def removeSubDir_def Let_def)
  ultimately show ?thesis using rm by (auto simp: GetOwningSubDirectory_def dmap_def)
qed

theorem partial_removal_keeps_index_witness:
  "\<exists>t h d. RemoveTimeBucket 0 (NewTimeBucketKey ''AAPL'' []) (sample_tree [(''2019.bin'', RegFile [])])
       (snd (NewDirectory (sample_tree [(''2019.bin'', RegFile [])]) ''/db'' no_heap)) = (t, h, None) \<and>
     GetOwningSubDirectory h 0 ''/db/AAPL/1Min/OHLCV/2019.bin'' = Inr d"
proof -
  let ?t = "sample_tree [(''2019.bin'', RegFile [])]" and ?h = "snd (NewDirectory (sample_tree [(''2019.bin'', RegFile [])]) ''/db'' no_heap)"
  from catalog_mirrors [OF sample_catalog] obtain es where es: "mirrors ?h 0 [''db''] (Folder es)" "lookup ?t [''db''] = Inr (Folder es)" by blast
  have "\<exists>fs. lookup (Folder es) [''AAPL'', ''1Min'', ''OHLCV''] = Inr (Folder fs) \<and> bin_names fs \<noteq> {}"
  proof -
    have "Ext ''2019.bin'' = ''.bin''" by code_simp
    then show ?thesis using es(2) by (auto simp: sample_tree_def)
  qed
  with mirrors_lookup [OF es(1)] obtain d fs where d: "walk ?h 0 [''AAPL'', ''1Min'', ''OHLCV''] = Some d"
    "mirrors ?h d ([''db''] @ [''AAPL'', ''1Min'', ''OHLCV'']) (Folder fs)" "bin_names fs \<noteq> {}" by blast
  then have "datafile (node ?h d) \<noteq> None" by (auto simp: mirrors_holds holds_def files_of_def)
  moreover have items: "GetItems (NewTimeBucketKey ''AAPL'' []) = Inr [''AAPL'']" by code_simp
  moreover have "list_all plain_elem (''AAPL'' # ''1Min'' # [''OHLCV''] @ [''2019.bin''])" by (simp add: plain_elem_def)
  moreover have path: "abs_path ([''db''] @ ''AAPL'' # ''1Min'' # [''OHLCV''] @ [''2019.bin'']) = ''/db/AAPL/1Min/OHLCV/2019.bin''" by code_simp
  ultimately show ?thesis
    using partial_removal_keeps_index [OF sample_catalog(1) items d(1), of "''2019.bin''"] unfolding path by blast
qed

end
