(* ===== verification/Runs.thy ===== *)
theory Runs
  imports Main
begin

text \<open>
  Lists cut into maximal runs of neighbours with the same key: the specification of the two places where rows of the same
  time slot are taken together, the commands of a write and the candles of the on-disk aggregation.
\<close>

section \<open>Runs\<close>

text \<open>The maximal runs of neighbours with the same key.\<close>

function (sequential) runs :: "('a \<Rightarrow> 'b) \<Rightarrow> 'a list \<Rightarrow> 'a list list" where
  "runs k [] = []"
| "runs k (x # xs) = (x # takeWhile (\<lambda>y. k y = k x) xs) # runs k (dropWhile (\<lambda>y. k y = k x) xs)"
  by pat_completeness auto
termination by (relation "measure (\<lambda>(k, xs). length xs)") (auto simp: less_Suc_eq_le length_dropWhile_le)

lemma runs_open: "pre \<noteq> [] \<Longrightarrow> \<forall>y \<in> set pre. k y = a \<Longrightarrow> k x \<noteq> a \<Longrightarrow> runs k (pre @ x # rest) = pre # runs k (x # rest)"
  by (cases pre) (auto simp: takeWhile_append2 dropWhile_append2)

lemma runs_single: "pre \<noteq> [] \<Longrightarrow> \<forall>y \<in> set pre. k y = a \<Longrightarrow> runs k pre = [pre]"
proof (cases pre)
  case (Cons x xs)
  assume "\<forall>y \<in> set pre. k y = a"
  then have "takeWhile (\<lambda>y. k y = k x) xs = xs" "dropWhile (\<lambda>y. k y = k x) xs = []"
    using Cons by (auto simp: takeWhile_eq_all_conv dropWhile_eq_Nil_conv)
  then show ?thesis using Cons by (simp only: runs.simps)
qed simp

lemma runs_member: "g \<in> set (runs k xs) \<Longrightarrow> g \<noteq> [] \<and> (\<forall>y \<in> set g. k y = k (hd g))"
proof (induction k xs rule: runs.induct)
  case (2 k x xs)
  show ?case
  proof (cases "g \<in> set (runs k (dropWhile (\<lambda>y. k y = k x) xs))")
    case False
    with 2(2) have "g = x # takeWhile (\<lambda>y. k y = k x) xs" by simp
    then show ?thesis by (auto dest: set_takeWhileD)
  qed (rule 2(1))
qed simp

lemma concat_runs: "concat (runs k xs) = xs"
  by (induction k xs rule: runs.induct) simp_all

lemma hd_runs: "g \<in> set (runs k rows) \<Longrightarrow> hd g \<in> set rows \<and> last g \<in> set rows"
  using runs_member [of g k rows] concat_runs [of k rows] by (metis UN_I hd_in_set last_in_set set_concat)

text \<open>The last element with a key is the last one of the last run with this key.\<close>

lemma last_of_runs:
  "j \<in> k ` set rows \<Longrightarrow> filter (\<lambda>g. k (hd g) = j) (runs k rows) \<noteq> [] \<and>
     last (last (filter (\<lambda>g. k (hd g) = j) (runs k rows))) = last (filter (\<lambda>r. k r = j) rows)"
proof (induction k rows rule: runs.induct)
  case (2 k x xs)
  let ?ys = "takeWhile (\<lambda>y. k y = k x) xs" and ?zs = "dropWhile (\<lambda>y. k y = k x) xs"
  have xs: "filter P xs = filter P ?ys @ filter P ?zs" for P by (metis filter_append takeWhile_dropWhile_id)
  have ys: "filter (\<lambda>r. k r = j) ?ys = (if k x = j then ?ys else [])"
    by (auto simp: filter_id_conv filter_empty_conv dest: set_takeWhileD)
  show ?case
  proof (cases "j \<in> k ` set ?zs")
    case True
    then have "filter (\<lambda>r. k r = j) ?zs \<noteq> []" by (auto simp: filter_empty_conv)
    moreover have "filter (\<lambda>r. k r = j) (x # xs) = filter (\<lambda>r. k r = j) (x # ?ys) @ filter (\<lambda>r. k r = j) ?zs"
      "filter (\<lambda>g. k (hd g) = j) (runs k (x # xs)) = filter (\<lambda>g. k (hd g) = j) [x # ?ys] @ filter (\<lambda>g. k (hd g) = j) (runs k ?zs)"
      using xs by simp_all
    ultimately show ?thesis using 2(1) [OF True] by (metis last_appendR append_is_Nil_conv)
  next
    case False
    then have zs: "filter (\<lambda>r. k r = j) ?zs = []" by (auto simp: filter_empty_conv)
    have "k x = j"
    proof (rule ccontr)
      assume "k x \<noteq> j"
      then obtain y where "y \<in> set xs" "k y = j" using 2(2) by auto
      then have "y \<in> set (filter (\<lambda>r. k r = j) xs)" by simp
      then show False using ys zs \<open>k x \<noteq> j\<close> by (simp add: xs [of "\<lambda>r. k r = j"])
    qed
    moreover have "filter (\<lambda>g. k (hd g) = j) (runs k ?zs) = []"
      using False hd_runs [of _ k ?zs] by (auto simp: filter_empty_conv)
    ultimately show ?thesis using ys zs by (simp add: xs [of "\<lambda>r. k r = j"])
  qed
qed simp

text \<open>With sorted keys every key has one run.\<close>

lemma runs_strict:
  fixes k :: "'a \<Rightarrow> 'b :: linorder"
  shows "sorted (map k xs) \<Longrightarrow> sorted_wrt (<) (map (k \<circ> hd) (runs k xs))"
proof (induction k xs rule: runs.induct)
  case (2 k x xs)
  let ?zs = "dropWhile (\<lambda>y. k y = k x) xs"
  have "sorted (map k xs)" using 2(2) by simp
  then have s: "sorted (map k ?zs)" by (metis dropWhile_eq_drop drop_map sorted_wrt_drop)
  have "k x < k y" if "y \<in> set ?zs" for y
  proof (cases ?zs)
    case (Cons z zs)
    then have "k z \<noteq> k x" using hd_dropWhile [of "\<lambda>y. k y = k x" xs] by force
    moreover have "z \<in> set xs" using Cons by (metis list.set_intros(1) set_dropWhileD)
    then have "k x \<le> k z" using 2(2) by simp
    moreover have "k z \<le> k y" using s that Cons by auto
    ultimately show ?thesis by simp
  next
    case Nil
    with that show ?thesis by (metis empty_iff list.set(1))
  qed
  then have "\<forall>g \<in> set (runs k ?zs). k x < k (hd g)" using hd_runs [of _ k ?zs] by blast
  then show ?case using 2(1) [OF s] by simp
qed simp

end
