(* ===== verification/Writer.thy ===== *)
theory Writer
  imports CatalogAdd Flush
begin

text \<open>
  The way of new records into the store, up to the queue of the background writer: \<^verbatim>\<open>Writer\<close> and \<^verbatim>\<open>WriteCSM\<close> of
  \<^verbatim>\<open>executor/writer.go\<close>. A writer turns rows into write commands, one for a run of rows of the same time slot, and creates the year
  files they need. Sending to the channel appends to the queue; a full channel makes the sender wait and does not change
  the order. The ticks inside an interval are computed in double precision and are an argument (\<^verbatim>\<open>GetIntervalTicks32Bit\<close>).
\<close>

section \<open>\<^verbatim>\<open>Writer\<close>\<close>

type_synonym interval_ticks = "instant \<Rightarrow> int \<Rightarrow> int \<Rightarrow> int"

record Writer =
  wRoot :: dref
  wTbi :: TimeBucketInfo

definition NewWriter :: "WALFileType option \<Rightarrow> TimeBucketInfo \<Rightarrow> dref \<Rightarrow> Writer result" where
  "NewWriter walFile tbi rootCatDir =
     (case walFile of
        None \<Rightarrow> Inl (Err ''there is not an active WALFile for this instance, so cannot write'')
      | Some _ \<Rightarrow> Inr \<lparr>wRoot = rootCatDir, wTbi = tbi\<rparr>)"

text \<open>The files, the catalog and the queue that writing changes.\<close>

record write_state =
  wsFs :: fsnode
  wsHeap :: heap
  wsQueue :: "WriteCommand list"

definition AddNewYearFile :: "location \<Rightarrow> int \<Rightarrow> Writer \<Rightarrow> write_state \<Rightarrow> Writer result \<times> write_state" where
  "AddNewYearFile loc year w s =
     (case GetSubDirectoryAndAddFile loc (wRoot w) (tbPath (wTbi w)) year (wsFs s) (wsHeap s) of
        (t, h, Inl e) \<Rightarrow> (Inl e, s\<lparr>wsFs := t, wsHeap := h\<rparr>)
      | (t, h, Inr newTbi) \<Rightarrow> (Inr (w\<lparr>wTbi := newTbi\<rparr>), s\<lparr>wsFs := t, wsHeap := h\<rparr>))"

definition AppendIntervalTicks :: "interval_ticks \<Rightarrow> bytes \<Rightarrow> instant \<Rightarrow> int \<Rightarrow> int \<Rightarrow> bytes" where
  "AppendIntervalTicks ticks buf t index intervalsPerDay =
     buf @ fst (Serialize [] (Uint32 (ticks t index intervalsPerDay)))"

text \<open>
  \<^verbatim>\<open>formatRecord\<close>: the record without its epoch, or for variable-length data the buffer with it and its ticks appended.
\<close>

definition formatRecord :: "interval_ticks \<Rightarrow> int \<Rightarrow> bytes \<Rightarrow> bytes \<Rightarrow> instant \<Rightarrow> int \<Rightarrow> int \<Rightarrow> bytes result" where
  "formatRecord ticks rtype buf record t index intervalsPerDay =
     res_bind (go_slice 8 (int (length record)) record) (\<lambda>record.
       Inr (if rtype = VARIABLE then AppendIntervalTicks ticks (buf @ record) t index intervalsPerDay else record))"

text \<open>The variables of the loop of \<^verbatim>\<open>WriteRecords\<close>.\<close>

record loop_state =
  lWriter :: Writer
  lState :: write_state
  prevIndex :: int
  prevYear :: int
  cc :: "WriteCommand option"
  outBuf :: bytes
  wkp :: path

text \<open>What the loop reads of a description: the fields of a completed one.\<close>

definition slot_of :: "location \<Rightarrow> TimeBucketInfo \<Rightarrow> instant \<Rightarrow> int \<times> int" where
  "slot_of loc tbi t = (let index = TimeToIndex loc t (timeframe tbi) in (index, IndexToOffset index (recordLength tbi)))"

definition send :: "WriteCommand option \<Rightarrow> write_state \<Rightarrow> write_state" where
  "send c s = (case c of None \<Rightarrow> s | Some c \<Rightarrow> s\<lparr>wsQueue := wsQueue s @ [c]\<rparr>)"

text \<open>Changing to the file of the row's year; an error there is a panic.\<close>

definition enter_year :: "location \<Rightarrow> WALFileType \<Rightarrow> int \<Rightarrow> loop_state \<Rightarrow> go_err option \<times> loop_state" where
  "enter_year loc wfl year l =
     (if year \<noteq> tbYear (wTbi (lWriter l)) then
        (case AddNewYearFile loc year (lWriter l) (lState l) of
           (Inl e, s) \<Rightarrow> (Some (Panic ''AddNewYearFile''), l\<lparr>lState := s\<rparr>)
         | (Inr w, s) \<Rightarrow> (None, l\<lparr>lWriter := w, lState := s, wkp := FullPathToWALKey wfl (tbPath (wTbi w))\<rparr>))
      else (None, l))"

text \<open>
  One row, after the year has been entered: \<open>first\<close> and \<open>final\<close> tell whether it is the first and the last one, \<open>rt\<close> and \<open>vrl\<close>
  are read before the loop.
\<close>

definition start_command :: "int \<Rightarrow> int \<Rightarrow> int \<Rightarrow> int \<Rightarrow> int \<Rightarrow> loop_state \<Rightarrow> loop_state" where
  "start_command rt vrl index year offset l = l\<lparr>prevIndex := index, prevYear := year,
     cc := Some \<lparr>RecordType = rt, WALKeyPath = wkp l, VarRecLen = vrl, wcOffset = offset, wcIndex = index, Data = []\<rparr>\<rparr>"

definition extend_command :: "interval_ticks \<Rightarrow> int \<Rightarrow> instant \<Rightarrow> bytes \<Rightarrow> loop_state \<Rightarrow> loop_state result" where
  "extend_command ticks index t record l =
     (let tbi = wTbi (lWriter l)
      in res_bind (formatRecord ticks (recordType tbi) (outBuf l) record t index (Day sdiv timeframe tbi)) (\<lambda>out.
           Inr (l\<lparr>outBuf := out, cc := map_option (\<lambda>c. c\<lparr>Data := out\<rparr>) (cc l)\<rparr>)))"

definition new_command :: "interval_ticks \<Rightarrow> WALFileType \<Rightarrow> int \<Rightarrow> int \<Rightarrow> instant \<Rightarrow> bytes \<Rightarrow> loop_state \<Rightarrow> loop_state result" where
  "new_command ticks wfl index offset t record l =
     (let tbi = wTbi (lWriter l)
      in res_bind (formatRecord ticks (recordType tbi) [] record t index (Day sdiv timeframe tbi)) (\<lambda>out.
           res_bind (GetVariableRecordLength (disk_of (wsFs (lState l))) tbi) (\<lambda>(vrl, tbi).
             Inr (l\<lparr>lWriter := (lWriter l)\<lparr>wTbi := tbi\<rparr>, lState := send (cc l) (lState l), prevIndex := index, outBuf := out,
               cc := Some \<lparr>RecordType = recordType tbi, WALKeyPath = FullPathToWALKey wfl (tbPath tbi),
                 VarRecLen = vrl, wcOffset = offset, wcIndex = index, Data = out\<rparr>\<rparr>))))"

definition write_row :: "location \<Rightarrow> interval_ticks \<Rightarrow> WALFileType \<Rightarrow> int \<Rightarrow> int \<Rightarrow> bool \<Rightarrow> bool \<Rightarrow> instant \<Rightarrow> bytes \<Rightarrow> loop_state \<Rightarrow> loop_state result" where
  "write_row loc ticks wfl rt vrl first final t record l =
     (let tbi = wTbi (lWriter l);
          year = to_int16 (Year loc t)
      in if timeframe tbi = 0 then Inl (Panic ''integer divide by zero'')
         else
           let (index, offset) = slot_of loc tbi t;
               l = (if first then start_command rt vrl index year offset l else l)
           in res_bind
                (if index = prevIndex l \<and> year = prevYear l then extend_command ticks index t record l
                 else new_command ticks wfl index offset t record l)
                (\<lambda>l. Inr (if final then l\<lparr>lState := send (cc l) (lState l)\<rparr> else l)))"

text \<open>The loop over the rows from number \<open>i\<close> on; a panic leaves the state of the moment.\<close>

fun write_rows :: "location \<Rightarrow> interval_ticks \<Rightarrow> WALFileType \<Rightarrow> int \<Rightarrow> int \<Rightarrow> nat \<Rightarrow> instant list \<Rightarrow> bytes \<Rightarrow> bool \<Rightarrow> loop_state \<Rightarrow> go_err option \<times> loop_state" where
  "write_rows loc ticks wfl rt vrl len [] data first l = (None, l)"
| "write_rows loc ticks wfl rt vrl len (t # ts) data first l =
     (case enter_year loc wfl (to_int16 (Year loc t)) l of
        (Some e, l) \<Rightarrow> (Some e, l)
      | (None, l) \<Rightarrow>
          (case write_row loc ticks wfl rt vrl first (ts = []) t (take len data) l of
             Inl e \<Rightarrow> (Some e, l)
           | Inr l \<Rightarrow> write_rows loc ticks wfl rt vrl len ts (drop len data) False l))"

text \<open>
  The description is completed from the file first. \<^verbatim>\<open>GetVariableRecordLength\<close> is read before the loop, which stores the length in the
  description.
\<close>

definition WriteRecords :: "location \<Rightarrow> interval_ticks \<Rightarrow> WALFileType \<Rightarrow> Writer \<Rightarrow> instant list \<Rightarrow> bytes \<Rightarrow> write_state \<Rightarrow> go_err option \<times> write_state" where
  "WriteRecords loc ticks wfl w ts data s =
     (if ts = [] then (None, s)
      else case GetVariableRecordLength (disk_of (wsFs s)) (wTbi w) of
          Inl e \<Rightarrow> (Some e, s)
        | Inr (vrl, tbi) \<Rightarrow>
            let l = \<lparr>lWriter = w\<lparr>wTbi := tbi\<rparr>, lState = s, prevIndex = 0, prevYear = 0, cc = None, outBuf = [],
                  wkp = FullPathToWALKey wfl (tbPath (wTbi w))\<rparr>;
                (err, l) = write_rows loc ticks wfl (recordType tbi) vrl (length data div length ts) ts data True l
            in (err, lState l))"

section \<open>\<^verbatim>\<open>WriteCSM\<close>\<close>

text \<open>
  What a write works on: the directory tree, the catalog, and the log, pipe and primary files of the background writer. The
  primary files are the regular files of the tree: \<open>refill\<close> reads their present contents into the tree, and new files of
  the tree become primary files.
\<close>

record engine =
  eTree :: fsnode
  eHeap :: heap
  eRoot :: dref
  eSync :: sync_state

fun refill :: "disk \<Rightarrow> string list \<Rightarrow> fsnode \<Rightarrow> fsnode" where
  "refill d ps (RegFile b) = RegFile (case d (abs_path ps) of None \<Rightarrow> b | Some b \<Rightarrow> b)"
| "refill d ps (Folder es) = Folder (map (\<lambda>(x, n). (x, refill d (ps @ [x]) n)) es)"

definition eFiles :: "engine \<Rightarrow> disk" where
  "eFiles e = primary (store (cache (eSync e)))"

definition open_engine :: "engine \<Rightarrow> TransactionPipe \<Rightarrow> write_state" where
  "open_engine e tgc = \<lparr>wsFs = refill (eFiles e) [] (eTree e), wsHeap = eHeap e, wsQueue = writeChannel tgc\<rparr>"

definition close_engine :: "write_state \<Rightarrow> TransactionPipe \<Rightarrow> engine \<Rightarrow> engine" where
  "close_engine s tgc e =
     (let c = cache (eSync e)
      in e\<lparr>eTree := wsFs s, eHeap := wsHeap s,
           eSync := (eSync e)\<lparr>cache := c\<lparr>pipe := Some (tgc\<lparr>writeChannel := wsQueue s\<rparr>), store := (store c)\<lparr>primary := disk_of (wsFs s)\<rparr>\<rparr>\<rparr>\<rparr>)"

definition contains :: "string \<Rightarrow> string \<Rightarrow> bool" where
  "contains s sub \<longleftrightarrow> (\<exists>i \<in> set [0..<Suc (length s)]. has_prefix (drop i s) sub)"

definition ignored_add_error :: "go_err \<Rightarrow> bool" where
  "ignored_add_error e = (case e of
     Err m \<Rightarrow> contains m ''Can not overwrite file'' \<or> contains m ''file exists'' | _ \<Rightarrow> False)"

text \<open>The new bucket of a key the catalog does not know; \<open>None\<close> for a series with no row, which is skipped.\<close>

definition create_bucket :: "location \<Rightarrow> dref \<Rightarrow> TimeBucketKey \<Rightarrow> Timeframe \<Rightarrow> bool \<Rightarrow> instant list \<Rightarrow> DataShape list \<Rightarrow> write_state
    \<Rightarrow> write_state \<times> TimeBucketInfo option result" where
  "create_bucket loc cDir tbk tf isVariableLength ts shapes s =
     (case ts of
        [] \<Rightarrow> (s, Inr None)
      | t # _ \<Rightarrow>
          (case GetPathToYearFiles tbk (GetPath (wsHeap s) cDir) of
             Inl e \<Rightarrow> (s, Inl e)
           | Inr p \<Rightarrow>
               let tbi = NewTimeBucketInfo (tfDuration tf) p ''Created By Writer'' (to_int16 (Year loc t)) shapes
                     (if isVariableLength then VARIABLE else FIXED)
               in (case AddTimeBucket loc cDir tbk tbi (wsFs s) (wsHeap s) of
                     (fs, h, tbi, None) \<Rightarrow> (s\<lparr>wsFs := fs, wsHeap := h\<rparr>, Inr (Some tbi))
                   | (fs, h, tbi, Some e) \<Rightarrow>
                       (s\<lparr>wsFs := fs, wsHeap := h\<rparr>, if ignored_add_error e then Inr (Some tbi) else Inl e))))"

definition column_mismatch :: go_err where
  "column_mismatch = Err ''unable to match data columns to bucket columns''"

definition check_columns :: "DataShape list \<Rightarrow> DataShape list \<Rightarrow> unit result" where
  "check_columns dbDSV csDSV =
     (if length dbDSV \<noteq> length csDSV then Inl column_mismatch
      else res_bind (GetMissingAndTypeCoercionColumns dbDSV csDSV) (\<lambda>(missing, coercion).
        if missing \<noteq> [] \<or> coercion \<noteq> [] then Inl column_mismatch else Inr ()))"

text \<open>
  One series of the map. The series loses its column \<^verbatim>\<open>Nanoseconds\<close>, also for the caller. The description comes from the catalog or
  from the new bucket; the columns are compared as sets.
\<close>

definition write_series :: "location \<Rightarrow> interval_ticks \<Rightarrow> float_conv \<Rightarrow> WALFileType option \<Rightarrow> dref \<Rightarrow> bool \<Rightarrow> TimeBucketKey \<Rightarrow> ColumnSeries
    \<Rightarrow> write_state \<Rightarrow> write_state \<times> go_err option" where
  "write_series loc ticks fconv walFile cDir isVariableLength tbk cs s =
     (case res_bind (GetTimeFrame tbk) (\<lambda>tf. res_bind (cs_GetTime cs) (\<lambda>ts.
         let cs = (if isVariableLength then try_remove ''Nanoseconds'' cs else cs)
         in res_bind (ToRowSeries fconv tbk False cs) (\<lambda>rs. Inr (tf, ts, cs, GetData (rows_of rs))))) of
        Inl e \<Rightarrow> (s, Some e)
      | Inr (tf, ts, cs, rowdata) \<Rightarrow>
          (case (case GetLatestTimeBucketInfoFromKey (wsHeap s) cDir tbk of
                   Inr None \<Rightarrow> (s, Inl nil_pointer)
                 | Inr (Some tbi) \<Rightarrow> (s, Inr (Some tbi))
                 | Inl _ \<Rightarrow> create_bucket loc cDir tbk tf isVariableLength ts (cs_GetDataShapes cs) s) of
             (s, Inl e) \<Rightarrow> (s, Some e)
           | (s, Inr None) \<Rightarrow> (s, None)
           | (s, Inr (Some tbi)) \<Rightarrow>
               (case res_bind (GetDataShapesWithEpoch (disk_of (wsFs s)) tbi) (\<lambda>(dbDSV, tbi).
                   res_bind (check_columns dbDSV (cs_GetDataShapes cs)) (\<lambda>_. NewWriter walFile tbi cDir)) of
                  Inl e \<Rightarrow> (s, Some e)
                | Inr w \<Rightarrow>
                    (case walFile of
                       None \<Rightarrow> (s, Some nil_pointer)
                     | Some wfl \<Rightarrow> (case WriteRecords loc ticks wfl w ts rowdata s of (err, s) \<Rightarrow> (s, err))))))"

text \<open>The loop over the map, in the order Go visits it; an error leaves what is queued so far.\<close>

fun write_map :: "location \<Rightarrow> interval_ticks \<Rightarrow> float_conv \<Rightarrow> WALFileType option \<Rightarrow> dref \<Rightarrow> bool \<Rightarrow> ColumnSeriesMap
    \<Rightarrow> write_state \<Rightarrow> write_state \<times> go_err option" where
  "write_map loc ticks fconv walFile cDir v [] s = (s, None)"
| "write_map loc ticks fconv walFile cDir v ((tbk, cs) # csm) s =
     (case write_series loc ticks fconv walFile cDir v tbk cs s of
        (s, Some e) \<Rightarrow> (s, Some e)
      | (s, None) \<Rightarrow> write_map loc ticks fconv walFile cDir v csm s)"

definition WriteCSM :: "location \<Rightarrow> interval_ticks \<Rightarrow> float_conv \<Rightarrow> InstanceMetadata \<Rightarrow> (path list \<Rightarrow> path list) \<Rightarrow> int \<Rightarrow> nat \<Rightarrow> ColumnSeriesMap
    \<Rightarrow> bool \<Rightarrow> engine \<Rightarrow> engine \<times> go_err option" where
  "WriteCSM loc ticks fconv inst order now requester csm isVariableLength e =
     (case pipe (cache (eSync e)) of
        None \<Rightarrow> (e, Some nil_pointer)
      | Some tgc \<Rightarrow>
          (case write_map loc ticks fconv (Some (wal (cache (eSync e)))) (eRoot e) isVariableLength csm (open_engine e tgc) of
             (s, Some err) \<Rightarrow> (close_engine s tgc e, Some err)
           | (s, None) \<Rightarrow>
               let e = close_engine s tgc e in (e\<lparr>eSync := RequestFlush inst order now requester (eSync e)\<rparr>, None)))"

end
