(* ===== verification/WriteLaws.thy ===== *)
theory WriteLaws
  imports Runs Writer Faults
begin

text \<open>
  What \<^verbatim>\<open>WriteRecords\<close> sends to the background writer, against a specification by groups of rows, and what the files hold after
  the commands have run.
\<close>

section \<open>The commands of a group of rows\<close>

type_synonym row = "instant \<times> bytes"

definition row_index :: "location \<Rightarrow> TimeBucketInfo \<Rightarrow> row \<Rightarrow> int" where
  "row_index loc tbi r = TimeToIndex loc (fst r) (timeframe tbi)"

definition payload :: "interval_ticks \<Rightarrow> location \<Rightarrow> TimeBucketInfo \<Rightarrow> row \<Rightarrow> bytes" where
  "payload ticks loc tbi r = drop 8 (snd r) @ le_bytes 4 (ticks (fst r) (row_index loc tbi r) (Day sdiv timeframe tbi))"

definition group_payload :: "interval_ticks \<Rightarrow> location \<Rightarrow> TimeBucketInfo \<Rightarrow> row list \<Rightarrow> bytes" where
  "group_payload ticks loc tbi g =
     (if recordType tbi = VARIABLE then concat (map (payload ticks loc tbi) g) else drop 8 (snd (last g)))"

definition group_command :: "interval_ticks \<Rightarrow> location \<Rightarrow> WALFileType \<Rightarrow> TimeBucketInfo \<Rightarrow> int \<Rightarrow> row list \<Rightarrow> WriteCommand" where
  "group_command ticks loc wfl tbi vrl g =
     \<lparr>RecordType = recordType tbi, WALKeyPath = FullPathToWALKey wfl (tbPath tbi), VarRecLen = vrl,
      wcOffset = IndexToOffset (row_index loc tbi (hd g)) (recordLength tbi), wcIndex = row_index loc tbi (hd g),
      Data = group_payload ticks loc tbi g\<rparr>"

lemma GetVariableRecordLength_again:
  assumes "GetVariableRecordLength fs f = Inr (v, g)"
  shows "GetVariableRecordLength fs g = Inr (v, g)"
proof -
  obtain f' where f': "once_do fs f = Inr f'" "once_done f'"
    using assms by (auto simp: GetVariableRecordLength_def once_do_def res_bind_Inr split: if_splits)
  show ?thesis
    using assms f' by (auto simp: GetVariableRecordLength_def getFieldRecordLength_def GetElementTypes_def getter_def once_do_def res_bind_Inr
        Let_def split: if_splits)
qed

text \<open>The loop with the rows \<open>pre\<close> of a slot in the open command.\<close>

definition open_at :: "interval_ticks \<Rightarrow> location \<Rightarrow> WALFileType \<Rightarrow> TimeBucketInfo \<Rightarrow> int \<Rightarrow> write_state \<Rightarrow> WriteCommand list \<Rightarrow> row list
    \<Rightarrow> loop_state \<Rightarrow> bool" where
  "open_at ticks loc wfl tbi vrl s Q pre l \<longleftrightarrow>
     wTbi (lWriter l) = tbi \<and> lState l = s\<lparr>wsQueue := Q\<rparr> \<and> pre \<noteq> [] \<and> (\<forall>r \<in> set pre. row_index loc tbi r = prevIndex l) \<and>
     prevYear l = tbYear tbi \<and> (recordType tbi = VARIABLE \<longrightarrow> outBuf l = group_payload ticks loc tbi pre) \<and>
     cc l = Some (group_command ticks loc wfl tbi vrl pre)"

definition row_ok :: "location \<Rightarrow> TimeBucketInfo \<Rightarrow> nat \<Rightarrow> row \<Rightarrow> bool" where
  "row_ok loc tbi n r \<longleftrightarrow> to_int16 (Year loc (fst r)) = tbYear tbi \<and> length (snd r) = n"

lemma go_slice_payload: "8 \<le> length r \<Longrightarrow> go_slice 8 (int (length r)) r = Inr (drop 8 r)"
  by (simp add: go_slice_def)

lemma extend_open:
  assumes "open_at ticks loc wfl tbi vrl s Q pre l" "8 \<le> length rec" "row_index loc tbi (t, rec) = prevIndex l"
  shows "\<exists>l'. extend_command ticks (prevIndex l) t rec l = Inr l' \<and> open_at ticks loc wfl tbi vrl s Q (pre @ [(t, rec)]) l'"
  using assms
  by (auto simp: open_at_def extend_command_def formatRecord_def go_slice_payload Let_def AppendIntervalTicks_def group_command_def
      group_payload_def payload_def simp del: le_bytes.simps)

lemma new_open:
  assumes "open_at ticks loc wfl tbi vrl s Q pre l" "8 \<le> length rec" "GetVariableRecordLength (disk_of (wsFs s)) tbi = Inr (vrl, tbi)"
    and "index = row_index loc tbi (t, rec)"
  shows "\<exists>l'. new_command ticks wfl index (IndexToOffset index (recordLength tbi)) t rec l = Inr l' \<and>
    open_at ticks loc wfl tbi vrl s (Q @ [group_command ticks loc wfl tbi vrl pre]) [(t, rec)] l'"
  using assms
  by (auto simp: open_at_def new_command_def formatRecord_def go_slice_payload Let_def AppendIntervalTicks_def group_command_def
      group_payload_def payload_def send_def simp del: le_bytes.simps)

section \<open>Rows of one year\<close>

lemma write_row_open:
  assumes o: "open_at ticks loc wfl tbi vrl s Q pre l" and r: "row_ok loc tbi n (t, rec)" "8 \<le> n" and tf: "timeframe tbi \<noteq> 0"
    and v: "GetVariableRecordLength (disk_of (wsFs s)) tbi = Inr (vrl, tbi)"
  shows "\<exists>l' Q' pre'. write_row loc ticks wfl rt vl False final t rec l = Inr (if final then l'\<lparr>lState := send (cc l') (lState l')\<rparr> else l')
    \<and> open_at ticks loc wfl tbi vrl s Q' pre' l'
    \<and> (\<forall>rest. Q' @ map (group_command ticks loc wfl tbi vrl) (runs (row_index loc tbi) (pre' @ rest))
         = Q @ map (group_command ticks loc wfl tbi vrl) (runs (row_index loc tbi) (pre @ (t, rec) # rest)))"
proof -
  let ?i = "row_index loc tbi (t, rec)"
  have tbi: "wTbi (lWriter l) = tbi" "prevYear l = tbYear tbi" using o by (simp_all add: open_at_def)
  have len: "8 \<le> length rec" "to_int16 (Year loc t) = tbYear tbi" using r by (simp_all add: row_ok_def)
  have slot: "slot_of loc tbi t = (?i, IndexToOffset ?i (recordLength tbi))" by (simp add: slot_of_def row_index_def Let_def)
  show ?thesis
  proof (cases "?i = prevIndex l")
    case True
    from extend_open [OF o len(1) True] obtain l' where l': "extend_command ticks (prevIndex l) t rec l = Inr l'"
      "open_at ticks loc wfl tbi vrl s Q (pre @ [(t, rec)]) l'" by blast
    then show ?thesis using True tbi len(2) tf slot
      by (intro exI [of _ l'] exI [of _ Q] exI [of _ "pre @ [(t, rec)]"]) (simp add: write_row_def Let_def)
  next
    case False
    from new_open [OF o len(1) v refl] obtain l' where
      l': "new_command ticks wfl ?i (IndexToOffset ?i (recordLength tbi)) t rec l = Inr l'"
      "open_at ticks loc wfl tbi vrl s (Q @ [group_command ticks loc wfl tbi vrl pre]) [(t, rec)] l'" by blast
    moreover have "runs (row_index loc tbi) (pre @ (t, rec) # rest) = pre # runs (row_index loc tbi) ([(t, rec)] @ rest)" for rest
      using runs_open [of pre "row_index loc tbi" "prevIndex l" "(t, rec)" rest] o False by (simp add: open_at_def)
    ultimately show ?thesis using False tbi len(2) tf slot
      by (intro exI [of _ l'] exI [of _ "Q @ [group_command ticks loc wfl tbi vrl pre]"] exI [of _ "[(t, rec)]"])
        (simp add: write_row_def Let_def)
  qed
qed

lemma open_final:
  assumes "open_at ticks loc wfl tbi vrl s Q pre l"
  shows "send (cc l) (lState l) = s\<lparr>wsQueue := Q @ map (group_command ticks loc wfl tbi vrl) (runs (row_index loc tbi) pre)\<rparr>"
  using assms runs_single [of pre "row_index loc tbi" "prevIndex l"] by (simp add: open_at_def send_def)

lemma write_rows_open:
  assumes "open_at ticks loc wfl tbi vrl s Q pre l" "rows \<noteq> []" "list_all (row_ok loc tbi n) rows" "8 \<le> n" "timeframe tbi \<noteq> 0"
    and "GetVariableRecordLength (disk_of (wsFs s)) tbi = Inr (vrl, tbi)"
  shows "\<exists>l'. write_rows loc ticks wfl rt vl n (map fst rows) (concat (map snd rows)) False l = (None, l') \<and>
    lState l' = s\<lparr>wsQueue := Q @ map (group_command ticks loc wfl tbi vrl) (runs (row_index loc tbi) (pre @ rows))\<rparr>"
  using assms(1-3)
proof (induction rows arbitrary: Q pre l)
  case (Cons r rows)
  obtain t rec where r: "r = (t, rec)" by fastforce
  have ok: "row_ok loc tbi n (t, rec)" using Cons.prems(3) r by simp
  have year: "enter_year loc wfl (to_int16 (Year loc t)) l = (None, l)"
    using ok Cons.prems(1) by (simp add: enter_year_def open_at_def row_ok_def)
  have rec: "take n (concat (map snd (r # rows))) = rec" "drop n (concat (map snd (r # rows))) = concat (map snd rows)"
    using ok r by (simp_all add: row_ok_def)
  from write_row_open [OF Cons.prems(1) ok assms(4-6), where final = "map fst rows = []" and rt = rt and vl = vl]
  obtain l' Q' pre' where l': "write_row loc ticks wfl rt vl False (map fst rows = []) t rec l
      = Inr (if map fst rows = [] then l'\<lparr>lState := send (cc l') (lState l')\<rparr> else l')"
    "open_at ticks loc wfl tbi vrl s Q' pre' l'"
    and eq: "\<And>rest. Q' @ map (group_command ticks loc wfl tbi vrl) (runs (row_index loc tbi) (pre' @ rest))
         = Q @ map (group_command ticks loc wfl tbi vrl) (runs (row_index loc tbi) (pre @ (t, rec) # rest))" by blast
  show ?case
  proof (cases "rows = []")
    case True
    then show ?thesis using l' year rec eq [of "[]"] r open_final [OF l'(2)] by simp
  next
    case False
    from Cons.IH [OF l'(2) False] Cons.prems(3) obtain l'' where
      "write_rows loc ticks wfl rt vl n (map fst rows) (concat (map snd rows)) False l' = (None, l'')"
      "lState l'' = s\<lparr>wsQueue := Q' @ map (group_command ticks loc wfl tbi vrl) (runs (row_index loc tbi) (pre' @ rows))\<rparr>" by auto
    then show ?thesis using False l'(1) year rec eq r by simp
  qed
qed simp

lemma write_first_row:
  assumes r: "row_ok loc tbi n (t, rec)" "8 \<le> n" and tf: "timeframe tbi \<noteq> 0"
    and l: "wTbi (lWriter l) = tbi" "lState l = s" "outBuf l = []" "wkp l = FullPathToWALKey wfl (tbPath tbi)"
  shows "\<exists>l'. write_row loc ticks wfl (recordType tbi) vrl True final t rec l = Inr (if final then l'\<lparr>lState := send (cc l') (lState l')\<rparr> else l')
    \<and> open_at ticks loc wfl tbi vrl s (wsQueue s) [(t, rec)] l'"
proof -
  let ?i = "row_index loc tbi (t, rec)"
  let ?l = "start_command (recordType tbi) vrl ?i (tbYear tbi) (IndexToOffset ?i (recordLength tbi)) l"
  have slot: "slot_of loc tbi t = (?i, IndexToOffset ?i (recordLength tbi))"
    by (simp add: slot_of_def row_index_def Let_def)
  have "\<exists>l'. extend_command ticks ?i t rec ?l = Inr l' \<and> open_at ticks loc wfl tbi vrl s (wsQueue s) [(t, rec)] l'"
    using assms by (auto simp: Let_def start_command_def extend_command_def formatRecord_def row_ok_def go_slice_payload AppendIntervalTicks_def
        open_at_def group_command_def group_payload_def payload_def simp del: le_bytes.simps)
  then obtain l' where "extend_command ticks ?i t rec ?l = Inr l'" "open_at ticks loc wfl tbi vrl s (wsQueue s) [(t, rec)] l'" by blast
  moreover have "prevIndex ?l = ?i" "prevYear ?l = tbYear tbi" by (simp_all add: start_command_def)
  ultimately show ?thesis using r(1) tf l(1) slot by (intro exI [of _ l']) (simp add: write_row_def row_ok_def)
qed

lemma length_concat_rows: "list_all (row_ok loc tbi n) rows \<Longrightarrow> length (concat (map snd rows)) = length rows * n"
  by (induction rows) (simp_all add: row_ok_def)

lemma WriteRecords_groups:
  assumes rows: "list_all (row_ok loc tbi n) rows" "8 \<le> n"
    and tbi: "GetVariableRecordLength (disk_of (wsFs s)) (wTbi w) = Inr (vrl, tbi)" "tbPath tbi = tbPath (wTbi w)" "timeframe tbi \<noteq> 0"
  shows "WriteRecords loc ticks wfl w (map fst rows) (concat (map snd rows)) s =
    (None, s\<lparr>wsQueue := wsQueue s @ map (group_command ticks loc wfl tbi vrl) (runs (row_index loc tbi) rows)\<rparr>)"
proof (cases rows)
  case (Cons r rest)
  obtain t rec where r: "r = (t, rec)" by fastforce
  have ok: "row_ok loc tbi n (t, rec)" using rows(1) Cons r by simp
  let ?l = "\<lparr>lWriter = w\<lparr>wTbi := tbi\<rparr>, lState = s, prevIndex = 0, prevYear = 0, cc = None, outBuf = [],
                  wkp = FullPathToWALKey wfl (tbPath (wTbi w))\<rparr>"
  have year: "enter_year loc wfl (to_int16 (Year loc t)) ?l = (None, ?l)" using ok by (simp add: enter_year_def row_ok_def)
  have rec: "take n (concat (map snd rows)) = rec" "drop n (concat (map snd rows)) = concat (map snd rest)"
    using ok r Cons by (simp_all add: row_ok_def)
  have len: "length (concat (map snd rows)) div length (map fst rows) = n"
    unfolding length_concat_rows [OF rows(1)] using Cons by (simp del: mult_Suc)
  from write_first_row [OF ok rows(2) tbi(3), where l = ?l and s = s and final = "map fst rest = []" and ticks = ticks and wfl = wfl and vrl = vrl]
  obtain l' where l': "write_row loc ticks wfl (recordType tbi) vrl True (map fst rest = []) t rec ?l
      = Inr (if map fst rest = [] then l'\<lparr>lState := send (cc l') (lState l')\<rparr> else l')"
    "open_at ticks loc wfl tbi vrl s (wsQueue s) [(t, rec)] l'" using tbi(2) by auto
  show ?thesis
  proof (cases "rest = []")
    case True
    then show ?thesis using Cons r l' open_final [OF l'(2)] tbi(1) year rec len by (simp add: WriteRecords_def Let_def)
  next
    case False
    have "list_all (row_ok loc tbi n) rest" using rows(1) Cons by simp
    from write_rows_open [OF l'(2) False this rows(2) tbi(3) GetVariableRecordLength_again [OF tbi(1)],
        where rt = "recordType tbi" and vl = vrl]
    show ?thesis using Cons r l'(1) False tbi(1) year rec len by (auto simp: WriteRecords_def Let_def)
  qed
qed (simp add: WriteRecords_def)

text \<open>
  C13: \<^verbatim>\<open>WriteRecords\<close> sends one command for every run of neighbouring rows in the same time slot, in the order of the rows, with the file, slot and
  record type of the bucket: for records of fixed length the last row of the run without its epoch, for variable length all rows of the run, each
  without its epoch and with its ticks. It fails for no rows of the year of the bucket's file, and changes neither files nor catalog.
\<close>

theorem commands_of_rows:
  assumes "list_all (row_ok loc tbi n) rows" "8 \<le> n"
    and "GetVariableRecordLength (disk_of (wsFs s)) (wTbi w) = Inr (vrl, tbi)" "tbPath tbi = tbPath (wTbi w)" "timeframe tbi \<noteq> 0"
  shows "WriteRecords loc ticks wfl w (map fst rows) (concat (map snd rows)) s =
    (None, s\<lparr>wsQueue := wsQueue s @ map (group_command ticks loc wfl tbi vrl) (runs (row_index loc tbi) rows)\<rparr>)"
  by (rule WriteRecords_groups [OF assms])

section \<open>What the file holds\<close>

definition slot_pos :: "nat \<Rightarrow> int \<Rightarrow> nat" where
  "slot_pos n i = nat (IndexToOffset i (int n))"

lemma slot_pos_eq: "1 \<le> i \<Longrightarrow> slot_pos n i = nat (i - 1) * n + 37024"
  by (simp add: slot_pos_def IndexToOffset_def Headersize_def nat_add_distrib nat_mult_distrib)

lemma slots_disjoint:
  assumes "1 \<le> i" "1 \<le> j" "i \<noteq> j"
  shows "{slot_pos n i..<slot_pos n i + n} \<inter> {slot_pos n j..<slot_pos n j + n} = {}"
proof -
  have d: "slot_pos n a + n \<le> slot_pos n b" if "a < b" "1 \<le> a" for a b
  proof -
    have "0 \<le> IndexToOffset a (int n)" using that(2) by (simp add: IndexToOffset_def Headersize_def)
    then show ?thesis using index_slots [OF that(1), of "int n"] by (simp add: slot_pos_def)
  qed
  consider "i < j" | "j < i" using assms(3) by linarith
  then show ?thesis by cases (use d [of i j] d [of j i] assms in auto)
qed

text \<open>Writing to slots: each holds what was written to it last.\<close>

lemma write_slots:
  assumes "\<forall>(i, d) \<in> set ws. 1 \<le> i \<and> length d = n \<and> slot_pos n i + n \<le> length f" "1 \<le> j" "slot_pos n j + n \<le> length f"
  shows "read_at (write_all f (map (\<lambda>(i, d). (int (slot_pos n i), d)) ws)) (slot_pos n j) n =
      (let js = filter (\<lambda>w. fst w = j) ws in if js = [] then read_at f (slot_pos n j) n else snd (last js))"
  using assms(1)
proof (induction ws rule: rev_induct)
  case (snoc w ws)
  obtain i d where w: "w = (i, d)" by fastforce
  let ?g = "write_all f (map (\<lambda>(i, d). (int (slot_pos n i), d)) ws)"
  have "list_all (inside (length f)) (map (\<lambda>(i, d). (int (slot_pos n i), d)) ws)"
    using snoc.prems by (auto simp: list_all_iff inside_def)
  then have len: "length ?g = length f" by (rule length_write_all)
  have d: "1 \<le> i" "length d = n" "slot_pos n i + n \<le> length f" using snoc.prems w by auto
  show ?case
  proof (cases "i = j")
    case True
    then have "read_at (write_all f (map (\<lambda>(i, d). (int (slot_pos n i), d)) (ws @ [w]))) (slot_pos n j) n = d"
      using d len read_write_same [of "slot_pos n i" d ?g] w by (simp add: write_all_append)
    moreover have "filter (\<lambda>w. fst w = j) (ws @ [w]) = filter (\<lambda>w. fst w = j) ws @ [(j, d)]" using True w by simp
    ultimately show ?thesis by (simp only: Let_def) simp
  next
    case False
    then have "read_at (write_at ?g (slot_pos n i) d) (slot_pos n j) n = read_at ?g (slot_pos n j) n"
      using d len assms(2,3) slots_disjoint [of i j n] by (intro read_write_miss) auto
    then show ?thesis using snoc False w by (simp add: write_all_append)
  qed
qed simp

definition run_write :: "nat \<Rightarrow> (row \<Rightarrow> int) \<Rightarrow> row list \<Rightarrow> int \<times> bytes" where
  "run_write n k g = (int (slot_pos n (k (hd g))), le_bytes 8 (k (hd g)) @ drop 8 (snd (last g)))"

lemma write_runs:
  assumes "\<forall>r \<in> set rows. 1 \<le> k r \<and> length (snd r) = n \<and> slot_pos n (k r) + n \<le> length f" "8 \<le> n" "1 \<le> i" "slot_pos n i + n \<le> length f"
  shows "read_at (write_all f (map (run_write n k) (runs k rows))) (slot_pos n i) n =
    (let rs = filter (\<lambda>r. k r = i) rows in if rs = [] then read_at f (slot_pos n i) n else le_bytes 8 i @ drop 8 (snd (last rs)))"
proof -
  let ?w = "\<lambda>g. (k (hd g), le_bytes 8 (k (hd g)) @ drop 8 (snd (last g)))"
  have "\<forall>(i, d) \<in> set (map ?w (runs k rows)). 1 \<le> i \<and> length d = n \<and> slot_pos n i + n \<le> length f"
    using assms(1,2) hd_runs [of _ k rows] by (auto simp del: le_bytes.simps)
  from write_slots [OF this assms(3,4)]
  have w: "read_at (write_all f (map (run_write n k) (runs k rows))) (slot_pos n i) n =
      (let js = map ?w (filter (\<lambda>g. k (hd g) = i) (runs k rows)) in if js = [] then read_at f (slot_pos n i) n else snd (last js))"
    by (simp add: filter_map comp_def run_write_def [abs_def] del: le_bytes.simps)
  show ?thesis
  proof (cases "i \<in> k ` set rows")
    case True
    note l = last_of_runs [OF True]
    then have "k (hd (last (filter (\<lambda>g. k (hd g) = i) (runs k rows)))) = i" using last_in_set by fastforce
    moreover have "filter (\<lambda>r. k r = i) rows \<noteq> []" using True by (auto simp: filter_empty_conv)
    ultimately show ?thesis unfolding w using l by (simp add: last_map del: le_bytes.simps)
  next
    case False
    then have "filter (\<lambda>r. k r = i) rows = []" "filter (\<lambda>g. k (hd g) = i) (runs k rows) = []"
      using hd_runs by (fastforce simp: filter_empty_conv)+
    then show ?thesis unfolding w by simp
  qed
qed

text \<open>
  C4: Rows of fixed-length records are stored. Running the commands that \<^verbatim>\<open>WriteRecords\<close> sends on the file of the bucket succeeds, keeps the size of
  the file, and leaves every slot named by a row with its index and the columns of the last row of the slot, and every other slot as it was; this
  for rows of the file's year in any order, whose slots lie in the file.
\<close>


theorem fixed_rows_stored:
  assumes rows: "list_all (row_ok loc tbi n) rows" "8 \<le> n"
    and tbi: "GetVariableRecordLength (disk_of (wsFs s)) (wTbi w) = Inr (vrl, tbi)" "tbPath tbi = tbPath (wTbi w)" "timeframe tbi \<noteq> 0"
      "recordType tbi = FIXED" "recordLength tbi = int n"
    and fit: "\<forall>r \<in> set rows. 1 \<le> row_index loc tbi r \<and> slot_pos n (row_index loc tbi r) + n \<le> length f" "length f < 2 ^ 63"
    and s: "wsQueue s = []"
  shows "\<exists>s' g. WriteRecords loc ticks wfl w (map fst rows) (concat (map snd rows)) s = (None, s') \<and>
    run_file cd (wsQueue s') f = Inr g \<and> length g = length f \<and>
    (\<forall>i. 1 \<le> i \<and> slot_pos n i + n \<le> length f \<longrightarrow> read_at g (slot_pos n i) n =
       (let rs = filter (\<lambda>r. row_index loc tbi r = i) rows
        in if rs = [] then read_at f (slot_pos n i) n else le_bytes 8 i @ drop 8 (snd (last rs))))"
proof -
  let ?k = "row_index loc tbi" and ?c = "group_command ticks loc wfl tbi vrl"
  let ?gs = "runs ?k rows"
  have g: "1 \<le> ?k (hd g)" "length (snd (last g)) = n" "slot_pos n (?k (hd g)) + n \<le> length f" if "g \<in> set ?gs" for g
    using hd_runs [OF that] fit(1) rows(1) by (auto simp: list_all_iff row_ok_def)
  have cmd: "fixed_write (cmd_buffer (?c g)) = run_write n ?k g" if "g \<in> set ?gs" for g
  proof -
    have "0 \<le> IndexToOffset (?k (hd g)) (int n)" using g(1) [OF that] by (simp add: IndexToOffset_def Headersize_def)
    moreover have "IndexToOffset (?k (hd g)) (int n) < 2 ^ 63" using g(3) [OF that] fit(2) by (simp add: slot_pos_def)
    ultimately show ?thesis
      by (simp add: fixed_write_def IndexAndPayload_def group_command_def group_payload_def tbi(4,5) cmd_buffer_def slot_pos_def Offset_def go_int
          run_write_def del: le_bytes.simps)
  qed
  have in_file: "inside (length f) (run_write n ?k g)" if "g \<in> set ?gs" for g
    using g [OF that] rows(2) by (simp add: run_write_def inside_def del: le_bytes.simps)
  have fx: "list_all (\<lambda>c. RecordType c = FIXED \<and> inside (length f) (fixed_write (cmd_buffer c))) (map ?c ?gs)"
    using cmd in_file tbi(4) by (simp add: list_all_iff) (simp add: group_command_def)
  have "map fixed_write (map cmd_buffer (map ?c ?gs)) = map (run_write n ?k) ?gs" using cmd by simp
  from run_file_fixed [OF fx, of cd, unfolded this] have run: "run_file cd (map ?c ?gs) f = Inr (write_all f (map (run_write n ?k) ?gs))" .
  have len: "length (write_all f (map (run_write n ?k) ?gs)) = length f"
    using in_file by (intro length_write_all) (simp add: list_all_iff)
  have "\<forall>r \<in> set rows. 1 \<le> ?k r \<and> length (snd r) = n \<and> slot_pos n (?k r) + n \<le> length f"
    using fit(1) rows(1) by (simp add: list_all_iff row_ok_def)
  note slots = write_runs [OF this rows(2)]

  show ?thesis using WriteRecords_groups [OF rows tbi(1-3), of ticks wfl] run len slots s by simp
qed

section \<open>Three rows of minute bars\<close>

text \<open>Two rows of the first minute of 2019 and one of the second, in that order and with the first minute again at the end.\<close>

definition sample_rows :: "row list" where
  "sample_rows = [(year_start UTC 2019, replicate 8 0 @ replicate 8 1), (year_start UTC 2019 + 60000000000, replicate 8 0 @ replicate 8 2),
     (year_start UTC 2019 + 5, replicate 8 0 @ replicate 8 3)]"

definition sample_writer :: Writer where
  "sample_writer = \<lparr>wRoot = 0, wTbi = sample_info\<rparr>"

definition sample_state :: write_state where
  "sample_state = \<lparr>wsFs = sample_root, wsHeap = no_heap, wsQueue = []\<rparr>"

lemma sample_writes:
  "list_all (row_ok UTC sample_info 16) sample_rows"
  "map (row_index UTC sample_info) sample_rows = [1, 2, 1]"
  "GetVariableRecordLength fs (wTbi sample_writer) = Inr (0, sample_info)"
  "tbPath sample_info = tbPath (wTbi sample_writer)" "timeframe sample_info \<noteq> 0" "recordType sample_info = FIXED" "recordLength sample_info = int 16"
proof -
  have y: "Year UTC (year_start UTC 2019 + ns) = 2019" "TimeToIndex UTC (year_start UTC 2019 + ns) Minute = 1 + ns div Minute"
    if "0 \<le> ns" "ns < 120000000000" for ns
    using year_in_UTC(1) [of ns 2019] TimeToIndex_UTC [of ns 2019 Minute] year_days_bounds [of 2019] that by simp_all
  show "list_all (row_ok UTC sample_info 16) sample_rows"
    using y(1) [of 0] y(1) [of 60000000000] y(1) [of 5] by (simp add: sample_rows_def row_ok_def sample_info_eq go_int)
  show "map (row_index UTC sample_info) sample_rows = [1, 2, 1]"
    using y(2) [of 0] y(2) [of 60000000000] y(2) [of 5] by (simp add: sample_rows_def row_index_def sample_info_eq)
qed (simp_all add: sample_writer_def sample_info_eq GetVariableRecordLength_def once_do_def)

theorem commands_of_rows_witness:
  "\<exists>s. WriteRecords UTC (\<lambda>_ _ _. 0) exwal sample_writer (map fst sample_rows) (concat (map snd sample_rows)) sample_state = (None, s)
     \<and> map wcIndex (wsQueue s) = [1, 2, 1]"
proof -
  have "runs (row_index UTC sample_info) sample_rows = map (\<lambda>r. [r]) sample_rows"
    using sample_writes(2) by (simp add: sample_rows_def)
  then show ?thesis
    using commands_of_rows [OF sample_writes(1) _ sample_writes(3-5), where s = sample_state and ticks = "\<lambda>_ _ _. 0" and wfl = exwal] sample_writes(2)
    by (simp add: comp_def group_command_def sample_state_def)
qed

theorem fixed_rows_stored_witness:
  "\<exists>s g. WriteRecords UTC (\<lambda>_ _ _. 0) exwal sample_writer (map fst sample_rows) (concat (map snd sample_rows)) sample_state = (None, s)
     \<and> run_file None (wsQueue s) (replicate 37056 0) = Inr g \<and> read_at g 37024 16 = le_bytes 8 1 @ replicate 8 3"
proof -
  have i: "row_index UTC sample_info ` set sample_rows = {1, 2}" "filter (\<lambda>r. row_index UTC sample_info r = 1) sample_rows
      = [sample_rows ! 0, sample_rows ! 2]"
    using sample_writes(2) by (auto simp: sample_rows_def)
  have p: "slot_pos 16 1 = 37024" "slot_pos 16 2 = 37040" by (simp_all add: slot_pos_eq)
  have "\<forall>r \<in> set sample_rows. 1 \<le> row_index UTC sample_info r \<and> slot_pos 16 (row_index UTC sample_info r) + 16 \<le> length (replicate 37056 (0 :: byte))"
  proof
    fix r assume "r \<in> set sample_rows"
    then have "row_index UTC sample_info r \<in> {1, 2}" unfolding i(1) [symmetric] by (rule imageI)
    then show "1 \<le> row_index UTC sample_info r \<and> slot_pos 16 (row_index UTC sample_info r) + 16 \<le> length (replicate 37056 (0 :: byte))"
      using p by auto
  qed
  from fixed_rows_stored [OF sample_writes(1) _ sample_writes(3-7) this, where s = sample_state and ticks = "\<lambda>_ _ _. 0" and wfl = exwal and cd = None]
  obtain s g where "WriteRecords UTC (\<lambda>_ _ _. 0) exwal sample_writer (map fst sample_rows) (concat (map snd sample_rows)) sample_state = (None, s)"
    "run_file None (wsQueue s) (replicate 37056 0) = Inr g" "read_at g (slot_pos 16 1) 16 = le_bytes 8 1 @ drop 8 (snd (sample_rows ! 2))"
    using i(2) p by (auto simp: sample_state_def simp del: le_bytes.simps)
  then show ?thesis using p by (simp add: sample_rows_def del: le_bytes.simps)
qed


section \<open>Changing between years\<close>

lemma AddNewYearFile_queue: "AddNewYearFile loc y w s = (r, s') \<Longrightarrow> wsQueue s' = wsQueue s"
  by (auto simp: AddNewYearFile_def split: prod.splits sum.splits)

text \<open>
  C35: \<^verbatim>\<open>prevYear\<close> is set by the first row only. When a row of another year is followed by a row of the first row's year with the same
  index, the second one replaces the data of the command of the first: the command for the other year's file is sent with the wrong row, and
  nothing is sent for the file of the row's own year.
\<close>

theorem year_change_overwrites:
  assumes l: "cc l = Some c" "prevYear l = y1" "tbYear (wTbi (lWriter l)) = y2" "y1 \<noteq> y2"
    and ts: "to_int16 (Year loc t2) = y2" "to_int16 (Year loc t3) = y1"
    and tbi: "timeframe (wTbi (lWriter l)) = tf" "timeframe (wTbi w1) = tf" "tf \<noteq> 0" "recordType (wTbi w1) = FIXED"
      "TimeToIndex loc t2 tf = i" "TimeToIndex loc t3 tf = i"
    and vrl: "GetVariableRecordLength (disk_of (wsFs (lState l))) (wTbi (lWriter l)) = Inr (v, wTbi (lWriter l))"
    and add: "AddNewYearFile loc y1 (lWriter l) (send (Some c) (lState l)) = (Inr w1, s1)"
    and len: "length r2 = n" "length r3 = n" "8 \<le> n"
  shows "\<exists>l'. write_rows loc ticks wfl rt vl n [t2, t3] (r2 @ r3) False l = (None, l') \<and>
    map (\<lambda>c. (WALKeyPath c, wcIndex c, Data c)) (wsQueue (lState l')) =
      map (\<lambda>c. (WALKeyPath c, wcIndex c, Data c)) (wsQueue (lState l) @ [c]) @
      [(FullPathToWALKey wfl (tbPath (wTbi (lWriter l))), i, drop 8 r3)]"
proof -
  let ?tbi = "wTbi (lWriter l)"
  have slot: "slot_of loc x t = (TimeToIndex loc t (timeframe x), IndexToOffset (TimeToIndex loc t (timeframe x)) (recordLength x))" for x t
    by (simp add: slot_of_def Let_def)
  obtain out where out: "formatRecord ticks (recordType ?tbi) [] r2 t2 i (Day sdiv tf) = Inr out"
    using len by (simp add: formatRecord_def go_slice_payload)
  define l1 where "l1 = l\<lparr>lState := send (Some c) (lState l), prevIndex := i, outBuf := out,
      cc := Some \<lparr>RecordType = recordType ?tbi, WALKeyPath = FullPathToWALKey wfl (tbPath ?tbi), VarRecLen = v,
        wcOffset = IndexToOffset i (recordLength ?tbi), wcIndex = i, Data = out\<rparr>\<rparr>"
  have e2: "enter_year loc wfl y2 l = (None, l)" using l(3) by (simp add: enter_year_def)
  have "new_command ticks wfl i (IndexToOffset i (recordLength ?tbi)) t2 r2 l = Inr l1"
    using out vrl tbi(1) l(1) by (simp add: new_command_def Let_def l1_def)
  then have w2: "write_row loc ticks wfl rt vl False False t2 r2 l = Inr l1"
    using tbi l ts(1) slot by (simp add: write_row_def Let_def)
  define l2 where "l2 = l1\<lparr>lWriter := w1, lState := s1, wkp := FullPathToWALKey wfl (tbPath (wTbi w1))\<rparr>"
  have e3: "enter_year loc wfl y1 l1 = (None, l2)" using add l(3,4) by (simp add: enter_year_def l1_def l2_def)
  have "extend_command ticks i t3 r3 l2 = Inr (l2\<lparr>outBuf := drop 8 r3, cc := map_option (\<lambda>c. c\<lparr>Data := drop 8 r3\<rparr>) (cc l2)\<rparr>)"
    using tbi len by (simp add: extend_command_def formatRecord_def go_slice_payload l2_def)
  moreover have "prevIndex l2 = i" "prevYear l2 = y1" "wTbi (lWriter l2) = wTbi w1" using l(2) by (simp_all add: l1_def l2_def)
  ultimately have "write_row loc ticks wfl rt vl False True t3 r3 l2 = Inr (let l' = l2\<lparr>outBuf := drop 8 r3, cc := map_option (\<lambda>c. c\<lparr>Data := drop 8 r3\<rparr>) (cc l2)\<rparr>
      in l'\<lparr>lState := send (cc l') (lState l')\<rparr>)"
    using tbi ts(2) slot by (simp add: write_row_def Let_def)
  moreover have "wsQueue s1 = wsQueue (lState l) @ [c]" using AddNewYearFile_queue [OF add] by (simp add: send_def)
  ultimately show ?thesis using e2 e3 w2 ts len by (simp add: Let_def l1_def l2_def send_def)
qed

text \<open>The bucket with the files of 2018 and 2019, and the loop after a first row of 2018, with the file of 2019 open.\<close>

definition two_years :: fsnode where
  "two_years = sample_tree [(''2018.bin'', RegFile []), (''2019.bin'', RegFile [])]"

definition two_years_heap :: heap where
  "two_years_heap = \<lparr>node = (\<lambda>r. if r = 0 then zero_dir\<lparr>pathToItemName := ''/db'', directMap := Some [(''/db/AAPL/1Min/OHLCV'', 1)]\<rparr>
     else zero_dir\<lparr>pathToItemName := ''/db/AAPL/1Min/OHLCV'', datafile := Some [(''/db/AAPL/1Min/OHLCV/2019.bin'', sample_info)]\<rparr>), next_ref = 2\<rparr>"

definition second_row :: loop_state where
  "second_row = \<lparr>lWriter = sample_writer, lState = \<lparr>wsFs = two_years, wsHeap = two_years_heap, wsQueue = []\<rparr>, prevIndex = 7, prevYear = 2018,
     cc = Some \<lparr>RecordType = 0, WALKeyPath = ''AAPL/1Min/OHLCV/2018.bin'', VarRecLen = 0, wcOffset = 37120, wcIndex = 7, Data = replicate 8 1\<rparr>,
     outBuf = replicate 8 1, wkp = ''AAPL/1Min/OHLCV/2019.bin''\<rparr>"

lemma second_row_add:
  "AddNewYearFile UTC 2018 sample_writer \<lparr>wsFs = two_years, wsHeap = two_years_heap, wsQueue = Q\<rparr> =
    (Inr (sample_writer\<lparr>wTbi := sample_info\<lparr>tbYear := 2018, tbPath := ''/db/AAPL/1Min/OHLCV/2018.bin'', once_done := False\<rparr>\<rparr>),
     \<lparr>wsFs = two_years, wsHeap = modify 1 (\<lambda>x. x\<lparr>datafile := Some [(''/db/AAPL/1Min/OHLCV/2019.bin'', sample_info)]\<rparr>) two_years_heap, wsQueue = Q\<rparr>)"
proof -
  have p: "Dir ''/db/AAPL/1Min/OHLCV/2019.bin'' = ''/db/AAPL/1Min/OHLCV''"
    "Join ''/db/AAPL/1Min/OHLCV'' (Itoa 2018 @ ''.bin'') = ''/db/AAPL/1Min/OHLCV/2018.bin''"
    "is_ok (stat two_years ''/db/AAPL/1Min/OHLCV/2018.bin'')" by code_simp+
  have i: "tbPath sample_info = ''/db/AAPL/1Min/OHLCV/2019.bin''" "once_do fs sample_info = Inr sample_info" for fs
    by (simp_all add: sample_info_eq once_do_def)
  show ?thesis
    using p by (simp add: AddNewYearFile_def GetSubDirectoryAndAddFile_def AddFile_def sample_writer_def i two_years_heap_def zero_dir_def
        GetDeepCopy_def newTimeBucketInfoFromTemplate_def modify_def Let_def)
qed

theorem year_change_overwrites_witness:
  "\<exists>l'. write_rows UTC (\<lambda>_ _ _. 0) (exwal\<lparr>RootPath := ''/db''\<rparr>) 0 0 16 [year_start UTC 2019 + 60000000000, year_start UTC 2018 + 60000000000]
      (replicate 16 2 @ replicate 16 3) False second_row = (None, l') \<and>
    map (\<lambda>c. (WALKeyPath c, wcIndex c, Data c)) (wsQueue (lState l')) =
      [(''AAPL/1Min/OHLCV/2018.bin'', 7, replicate 8 1), (''AAPL/1Min/OHLCV/2019.bin'', 2, replicate 8 3)]"
proof -
  have k: "FullPathToWALKey (exwal\<lparr>RootPath := ''/db''\<rparr>) ''/db/AAPL/1Min/OHLCV/2019.bin'' = ''AAPL/1Min/OHLCV/2019.bin''"
    by code_simp
  have y: "to_int16 (Year UTC (year_start UTC y + 60000000000)) = y" "TimeToIndex UTC (year_start UTC y + 60000000000) Minute = 2"
    if "y = 2018 \<or> y = 2019" for y
    using that year_in_UTC(1) [of 60000000000 y] TimeToIndex_UTC [of 60000000000 y Minute] year_days_bounds [of y] by (auto simp: go_int)
  have f: "lWriter second_row = sample_writer" "prevYear second_row = 2018" "send (cc second_row) (lState second_row) =
      \<lparr>wsFs = two_years, wsHeap = two_years_heap, wsQueue = [the (cc second_row)]\<rparr>" "cc second_row = Some (the (cc second_row))"
    by (simp_all add: second_row_def send_def)
  have "\<exists>l'. write_rows UTC (\<lambda>_ _ _. 0) (exwal\<lparr>RootPath := ''/db''\<rparr>) 0 0 16 [year_start UTC 2019 + 60000000000, year_start UTC 2018 + 60000000000]
      (replicate 16 2 @ replicate 16 3) False second_row = (None, l') \<and>
    map (\<lambda>c. (WALKeyPath c, wcIndex c, Data c)) (wsQueue (lState l')) =
      map (\<lambda>c. (WALKeyPath c, wcIndex c, Data c)) (wsQueue (lState second_row) @ [the (cc second_row)]) @
      [(FullPathToWALKey (exwal\<lparr>RootPath := ''/db''\<rparr>) (tbPath (wTbi (lWriter second_row))), 2, drop 8 (replicate 16 3))]"
  proof (rule year_change_overwrites [OF f(4,2) _ _ y(1) y(1) _ _ _ _ y(2) y(2)])
    show "GetVariableRecordLength (disk_of (wsFs (lState second_row))) (wTbi (lWriter second_row)) = Inr (0, wTbi (lWriter second_row))"
      using sample_writes(3) by (simp add: f sample_writer_def)
    show "AddNewYearFile UTC 2018 (lWriter second_row) (send (Some (the (cc second_row))) (lState second_row)) =
        (Inr (sample_writer\<lparr>wTbi := sample_info\<lparr>tbYear := 2018, tbPath := ''/db/AAPL/1Min/OHLCV/2018.bin'', once_done := False\<rparr>\<rparr>),
         \<lparr>wsFs = two_years, wsHeap = modify 1 (\<lambda>x. x\<lparr>datafile := Some [(''/db/AAPL/1Min/OHLCV/2019.bin'', sample_info)]\<rparr>) two_years_heap,
          wsQueue = [the (cc second_row)]\<rparr>)"
      unfolding f(4) [symmetric] f(1,3) by (rule second_row_add)
  qed (simp_all add: f sample_writer_def sample_info_eq)
  then show ?thesis using k by (simp add: second_row_def sample_writer_def sample_info_eq del: write_rows.simps)
qed


section \<open>The order of the columns\<close>

lemma check_columns_set:
  assumes "set dbDSV \<subseteq> set csDSV" "dbDSV \<noteq> []" "length dbDSV = length csDSV"
  shows "check_columns dbDSV csDSV = Inr ()"
proof -
  have "csDSV \<noteq> []" using assms by auto
  then obtain s where "NewAnySet csDSV = Some s" "AnySet_ok s" "orderedElems s = csDSV" using NewAnySet_Cons by blast
  then have "AnySet_Contains (NewAnySet csDSV) dbDSV = Inr True" using any_set.contains_iff [of s dbDSV] assms by simp
  then show ?thesis using assms(3) by (simp add: check_columns_def GetMissingAndTypeCoercionColumns_def)
qed

definition int32_column :: "bytes \<Rightarrow> column" where
  "int32_column b = \<lparr>ckind = KInt32, celems = [b]\<rparr>"

text \<open>One row of the columns Epoch, Bid and Ask, for a bucket whose columns are Epoch, Ask and Bid.\<close>

definition quote_series :: "bytes \<Rightarrow> bytes \<Rightarrow> ColumnSeries" where
  "quote_series bid ask = \<lparr>columns = [(''Epoch'', \<lparr>ckind = KInt64, celems = [replicate 8 0]\<rparr>), (''Bid'', int32_column bid), (''Ask'', int32_column ask)],
     orderedNames = [''Epoch'', ''Bid'', ''Ask''], candleAttributes = 0, nameIncrement = []\<rparr>"

definition quote_bucket :: "DataShape list" where
  "quote_bucket = [\<lparr>dsName = ''Epoch'', dsType = INT64\<rparr>, \<lparr>dsName = ''Ask'', dsType = INT32\<rparr>, \<lparr>dsName = ''Bid'', dsType = INT32\<rparr>]"


end
