(* ===== verification/ArgMap.thy ===== *)
theory ArgMap
  imports Metadata
begin

text \<open>
  The arguments of aggregate functions: \<^verbatim>\<open>utils/functions/datatypes.go\<close>. A map gives to every parameter of a function the
  columns it is computed from.
\<close>

section \<open>\<^verbatim>\<open>ArgumentMap\<close>\<close>

record ArgumentMap =
  nameMap :: "(string \<times> DataShape list) list"
  requiredMap :: "(string \<times> DataShape) list"
  optionalMap :: "(string \<times> DataShape) list"
  aliases :: "(string \<times> string) list"
  requiredNames :: "string list"
  optionalNames :: "string list"

definition NewArgumentMap :: "DataShape list \<Rightarrow> DataShape list \<Rightarrow> ArgumentMap" where
  "NewArgumentMap requiredDSV optionalDSV =
     (let names = map dsName requiredDSV @ map dsName optionalDSV
      in \<lparr>nameMap = [], requiredMap = fold (\<lambda>col. AList.update (dsName col) col) requiredDSV [],
          optionalMap = fold (\<lambda>col. AList.update (dsName col) col) optionalDSV [],
          aliases = fold (\<lambda>name. AList.update name name) names [],
          requiredNames = map dsName requiredDSV, optionalNames = map dsName optionalDSV\<rparr>)"

definition alias_of :: "ArgumentMap \<Rightarrow> string \<Rightarrow> string" where
  "alias_of am name = (case map_of (aliases am) name of None \<Rightarrow> [] | Some a \<Rightarrow> a)"

definition GetAliasedColumnNames :: "ArgumentMap \<Rightarrow> string list" where
  "GetAliasedColumnNames am = map (alias_of am) (requiredNames am) @ map (alias_of am) (optionalNames am)"

definition SetAlias :: "string \<Rightarrow> string \<Rightarrow> ArgumentMap \<Rightarrow> ArgumentMap" where
  "SetAlias requiredName aliasName am = am\<lparr>aliases := AList.update requiredName aliasName (aliases am)\<rparr>"

definition GetMappedColumns :: "ArgumentMap \<Rightarrow> string \<Rightarrow> DataShape list" where
  "GetMappedColumns am requiredName = (case map_of (nameMap am) requiredName of None \<Rightarrow> [] | Some cols \<Rightarrow> cols)"

definition MapRequiredColumn :: "string \<Rightarrow> DataShape list \<Rightarrow> ArgumentMap \<Rightarrow> ArgumentMap" where
  "MapRequiredColumn requiredName userColumns am =
     (case map_of (nameMap am) requiredName of
        Some existingCol \<Rightarrow> am\<lparr>nameMap := AList.update requiredName (existingCol @ userColumns) (nameMap am)\<rparr>
      | None \<Rightarrow> am\<lparr>nameMap := AList.update requiredName userColumns (nameMap am)\<rparr>)"

text \<open>A required column is listed once for each column of another type that it is mapped to. With no mapping at all nothing is checked.\<close>

definition unmapped_of :: "ArgumentMap \<Rightarrow> DataShape \<Rightarrow> DataShape list" where
  "unmapped_of am ds = (case map_of (nameMap am) (dsName ds) of
      None \<Rightarrow> [ds]
    | Some mapCols \<Rightarrow>
        (case map_of (requiredMap am) (dsName ds) of
           None \<Rightarrow> []
         | Some requiredCol \<Rightarrow> map (\<lambda>_. ds) (filter (\<lambda>col. dsType requiredCol \<noteq> dsType col) mapCols)))"

definition Validate :: "ArgumentMap \<Rightarrow> DataShape list" where
  "Validate am = (if nameMap am = [] then [] else concat (map (\<lambda>(_, ds). unmapped_of am ds) (requiredMap am)))"

definition am_String :: "ArgumentMap \<Rightarrow> string" where
  "am_String am = ''Required columns: '' @ concat (map (\<lambda>(_, ds). shape_String ds @ '','') (requiredMap am))
     @ '' Optional columns: '' @ concat (map (\<lambda>(_, ds). shape_String ds @ '','') (optionalMap am))
     @ '' Aliases: '' @ concat (map (\<lambda>name. name @ '','') (GetAliasedColumnNames am))"

section \<open>\<^verbatim>\<open>PrepareArguments\<close>\<close>

definition user_column :: "string \<Rightarrow> DataShape" where
  "user_column name = \<lparr>dsName = name, dsType = FLOAT32\<rparr>"

text \<open>First the named arguments \<^verbatim>\<open>parameter::column\<close>, which leaves the others.\<close>

fun map_named :: "string list \<Rightarrow> ArgumentMap \<Rightarrow> ArgumentMap \<times> string list" where
  "map_named [] am = (am, [])"
| "map_named (token # tokens) am =
     (case Split token ''::'' of
        [a, b] \<Rightarrow> map_named tokens (MapRequiredColumn a [user_column b] am)
      | _ \<Rightarrow> (case map_named tokens am of (am, rest) \<Rightarrow> (am, token # rest)))"

definition unmapped_names :: "ArgumentMap \<Rightarrow> string list \<Rightarrow> string list" where
  "unmapped_names am names = filter (\<lambda>name. map_of (nameMap am) name = None) names"

definition map_positional :: "string list \<Rightarrow> string list \<Rightarrow> ArgumentMap \<Rightarrow> ArgumentMap" where
  "map_positional names inputs am = fold (\<lambda>(name, inp). MapRequiredColumn name [user_column inp]) (zip names inputs) am"

definition PrepareArguments :: "string list \<Rightarrow> ArgumentMap \<Rightarrow> ArgumentMap \<times> go_err option" where
  "PrepareArguments inputs am =
     (if length inputs < length (requiredNames am) then (am, Some (Err ''have inputs, need names''))
      else
        let (am, inputsRemaining) = map_named inputs am;
            unmappedReqs = unmapped_names am (requiredNames am);
            unmappedOpts = unmapped_names am (optionalNames am);
            i = length unmappedReqs
        in if length inputsRemaining < i then (am, Some (Err ''insufficient args''))
           else
             let am = map_positional unmappedReqs inputsRemaining am;
                 numRemaining = int (length inputsRemaining) - (int i + 1);
                 left = drop i inputsRemaining;
                 (am, j, err) = (if 0 < numRemaining
                    then (map_positional unmappedOpts left am, length unmappedOpts, length left < length unmappedOpts)
                    else (am, 0, False))
             in if err then (am, Some (Panic ''index out of range''))
                else if length left \<noteq> j then (am, Some (Err ''extra args used''))
                else (am, None))"

section \<open>Lemmas\<close>

text \<open>Every parameter with an entry has columns, of the type that the arguments are given.\<close>

definition args_ok :: "ArgumentMap \<Rightarrow> bool" where
  "args_ok am \<longleftrightarrow> (\<forall>n cols. map_of (nameMap am) n = Some cols \<longrightarrow> cols \<noteq> [] \<and> (\<forall>c \<in> set cols. dsType c = FLOAT32))"

text \<open>What the steps of \<^verbatim>\<open>PrepareArguments\<close> keep: the parameters, the form of the map, and the entries.\<close>

definition extends_args :: "ArgumentMap \<Rightarrow> ArgumentMap \<Rightarrow> bool" where
  "extends_args am am' \<longleftrightarrow> requiredMap am' = requiredMap am \<and> requiredNames am' = requiredNames am \<and>
     optionalNames am' = optionalNames am \<and> (args_ok am \<longrightarrow> args_ok am') \<and>
     (\<forall>n. map_of (nameMap am) n \<noteq> None \<longrightarrow> map_of (nameMap am') n \<noteq> None)"

lemma extends_trans: "extends_args a b \<Longrightarrow> extends_args b c \<Longrightarrow> extends_args a c"
  by (simp add: extends_args_def)

lemma extends_refl: "extends_args a a"
  by (simp add: extends_args_def)

lemma MapRequiredColumn_extends:
  "extends_args am (MapRequiredColumn n [user_column c] am)" "map_of (nameMap (MapRequiredColumn n [user_column c] am)) n \<noteq> None"
  by (auto simp: extends_args_def MapRequiredColumn_def args_ok_def user_column_def update_conv' split: option.splits)

lemma map_named_extends: "extends_args am (fst (map_named tokens am))"
proof (induction tokens arbitrary: am)
  case (Cons token tokens)
  have "extends_args am (fst (map_named tokens (MapRequiredColumn a [user_column b] am)))" for a b
    using extends_trans MapRequiredColumn_extends(1) Cons.IH by blast
  then show ?case using Cons.IH by (auto simp: split_beta split: list.splits)
qed (simp add: extends_refl)

lemma map_positional_extends:
  "extends_args am (map_positional names inputs am)"
  "length names \<le> length inputs \<Longrightarrow> n \<in> set names \<Longrightarrow> map_of (nameMap (map_positional names inputs am)) n \<noteq> None"
proof (induction names arbitrary: inputs am)
  case (Cons name names)
  { case 1 show ?case using Cons.IH(1) MapRequiredColumn_extends(1) extends_trans
      by (cases inputs) (fastforce simp: map_positional_def intro: extends_refl)+ }
  { case 2
    then obtain c cs where cs: "inputs = c # cs" by (cases inputs) auto
    let ?am = "MapRequiredColumn name [user_column c] am"
    have "map_positional (name # names) inputs am = map_positional names cs ?am" by (simp add: map_positional_def cs)
    moreover have "map_of (nameMap (map_positional names cs ?am)) name \<noteq> None"
      using Cons.IH(1) [of ?am cs] MapRequiredColumn_extends(2) [of name c am] by (simp add: extends_args_def)
    ultimately show ?case using 2 cs Cons.IH(2) [of cs ?am] by auto }
qed (simp_all add: map_positional_def extends_refl)

lemma set_update_entry: "(k, v) \<in> set (AList.update a b m) \<Longrightarrow> (k, v) = (a, b) \<or> (k, v) \<in> set m"
  by (induction m) (auto split: if_splits)

lemma requiredMap_new: "ds \<in> snd ` set (requiredMap (NewArgumentMap req opt)) \<Longrightarrow> ds \<in> set req \<and> map_of (requiredMap (NewArgumentMap req opt)) (dsName ds) \<noteq> None"
proof -
  have f: "(n, ds) \<in> set (fold (\<lambda>col. AList.update (dsName col) col) xs m) \<Longrightarrow> (ds \<in> set xs \<and> n = dsName ds) \<or> (n, ds) \<in> set m" for n xs m
  proof (induction xs arbitrary: m)
    case (Cons x xs)
    from Cons.IH [of "AList.update (dsName x) x m"] Cons.prems show ?case using set_update_entry [of n ds "dsName x" x m] by auto
  qed simp
  assume "ds \<in> snd ` set (requiredMap (NewArgumentMap req opt))"
  then obtain n where n: "(n, ds) \<in> set (requiredMap (NewArgumentMap req opt))" by auto
  then have "ds \<in> set req \<and> n = dsName ds" using f [of n req "[]"] by (simp add: NewArgumentMap_def Let_def)
  with n show ?thesis by (metis weak_map_of_SomeI option.distinct(1))
qed


lemma Prepare_ok:
  assumes "PrepareArguments inputs am = (am', None)"
  shows "extends_args am am'" "n \<in> set (requiredNames am) \<Longrightarrow> map_of (nameMap am') n \<noteq> None"
proof -
  obtain am1 rest where m: "map_named inputs am = (am1, rest)" by fastforce
  let ?reqs = "unmapped_names am1 (requiredNames am1)" and ?opts = "unmapped_names am1 (optionalNames am1)"
  let ?am2 = "map_positional ?reqs rest am1"
  have e1: "extends_args am am1" using map_named_extends [of am inputs] m by simp
  have r: "length ?reqs \<le> length rest" and am': "am' = ?am2 \<or> am' = map_positional ?opts (drop (length ?reqs) rest) ?am2"
    using assms m by (auto simp: PrepareArguments_def Let_def split: if_splits)
  have e2: "extends_args am1 ?am2" by (rule map_positional_extends)
  have e3: "extends_args ?am2 am'" using am' map_positional_extends(1) extends_refl by metis
  show "extends_args am am'" using extends_trans e1 e2 e3 by blast
  show "n \<in> set (requiredNames am) \<Longrightarrow> map_of (nameMap am') n \<noteq> None"
  proof -
    assume "n \<in> set (requiredNames am)"
    then have "map_of (nameMap am1) n \<noteq> None \<or> n \<in> set ?reqs" using e1 by (auto simp: extends_args_def unmapped_names_def)
    then have "map_of (nameMap ?am2) n \<noteq> None" using e2 map_positional_extends(2) [OF r] unfolding extends_args_def by blast
    then show ?thesis using e3 unfolding extends_args_def by blast
  qed
qed

text \<open>
  When \<^verbatim>\<open>PrepareArguments\<close> accepts the arguments of a function, every required parameter has a column, and the check
  \<^verbatim>\<open>Validate\<close> of \<^verbatim>\<open>Init\<close> finds nothing unmapped, for functions whose parameters are floats.
\<close>

theorem prepared_arguments_valid:
  assumes "PrepareArguments inputs (NewArgumentMap req opt) = (am, None)" "\<forall>ds \<in> set req. dsType ds = FLOAT32"
  shows "(\<forall>ds \<in> set req. GetMappedColumns am (dsName ds) \<noteq> []) \<and> Validate am = []"
proof
  let ?new = "NewArgumentMap req opt"
  note p = Prepare_ok [OF assms(1)]
  have "args_ok ?new" by (simp add: args_ok_def NewArgumentMap_def Let_def)
  then have ok: "args_ok am" and rm: "requiredMap am = requiredMap ?new" using p(1) by (auto simp: extends_args_def)
  have m: "\<exists>cols. map_of (nameMap am) (dsName ds) = Some cols" if "ds \<in> set req" for ds
    using p(2) [of "dsName ds"] that by (auto simp: NewArgumentMap_def Let_def)
  show "\<forall>ds \<in> set req. GetMappedColumns am (dsName ds) \<noteq> []"
  proof
    fix ds assume "ds \<in> set req"
    from m [OF this] ok show "GetMappedColumns am (dsName ds) \<noteq> []" by (auto simp: GetMappedColumns_def args_ok_def)
  qed
  have "unmapped_of am ds = []" if ds: "ds \<in> snd ` set (requiredMap am)" for ds
  proof -
    note r = requiredMap_new [OF ds [unfolded rm]]
    obtain cols where c: "map_of (nameMap am) (dsName ds) = Some cols" using m r by blast
    obtain rc where rc: "map_of (requiredMap am) (dsName ds) = Some rc" using r rm by auto
    have "rc \<in> snd ` set (requiredMap ?new)" using map_of_SomeD [OF rc] rm by force
    then have "rc \<in> set req" using requiredMap_new by blast
    then show ?thesis using ok c rc assms(2) by (auto simp: unmapped_of_def args_ok_def filter_empty_conv)
  qed
  then have "unmapped_of am (snd e) = []" if "e \<in> set (requiredMap am)" for e using that by blast
  then show "Validate am = []" by (simp add: Validate_def split_beta)
qed

definition candle_columns :: "DataShape list" where
  "candle_columns = map user_column [''Open'', ''High'', ''Low'', ''Close'']"

theorem prepared_arguments_valid_witness:
  "\<exists>am. PrepareArguments [''Low::Bid'', ''Ask'', ''Ask'', ''Last''] (NewArgumentMap candle_columns (map user_column [''Sum'', ''Avg''])) = (am, None)
     \<and> Validate am = [] \<and> GetMappedColumns am ''Open'' \<noteq> []"
proof -
  have "snd (PrepareArguments [''Low::Bid'', ''Ask'', ''Ask'', ''Last''] (NewArgumentMap candle_columns (map user_column [''Sum'', ''Avg'']))) = None"
    by code_simp
  then obtain am where am: "PrepareArguments [''Low::Bid'', ''Ask'', ''Ask'', ''Last''] (NewArgumentMap candle_columns (map user_column [''Sum'', ''Avg''])) = (am, None)"
    by (metis prod.collapse)
  moreover have "\<forall>ds \<in> set candle_columns. dsType ds = FLOAT32" by (simp add: candle_columns_def user_column_def)
  ultimately show ?thesis using prepared_arguments_valid [OF am] by (auto simp: candle_columns_def user_column_def)
qed

text \<open>
  One positional argument for an optional parameter is refused, although the comment on \<^verbatim>\<open>PrepareArguments\<close> lists such a call as valid: the number of
  remaining arguments is computed as one too few, so that a single one is left over.
\<close>

theorem single_optional_refused:
  assumes "\<forall>token \<in> set inputs. length (Split token ''::'') \<noteq> 2" "length inputs = Suc (length req)"
  shows "snd (PrepareArguments inputs (NewArgumentMap req opt)) = Some (Err ''extra args used'')"
proof -
  have named: "map_named xs am = (am, xs)" if "\<forall>token \<in> set xs. length (Split token ''::'') \<noteq> 2" for xs am
    using that by (induction xs) (auto split: list.splits)
  show ?thesis
    using assms by (simp add: PrepareArguments_def named Let_def NewArgumentMap_def unmapped_names_def)
qed

end
