(* ===== verification/Aggregates.thy ===== *)
theory Aggregates
  imports ArgMap Series Timeframe
begin

text \<open>
  The aggregate functions of the query language: \<^verbatim>\<open>uda\<close> with count, avg, max, min and gap. A state is created, given series by \<^verbatim>\<open>Accum\<close>
  and asked for a series by \<^verbatim>\<open>Output\<close>. Values are the bytes of a column. The operations of floating-point numbers
  are an argument, and so are the functions of the package \<^verbatim>\<open>gonum\<close> that gap calls and the clock of \<^verbatim>\<open>Output\<close>.
\<close>

section \<open>Values\<close>

record float_ops =
  less32 :: "bytes \<Rightarrow> bytes \<Rightarrow> bool"
  eq32 :: "bytes \<Rightarrow> bytes \<Rightarrow> bool"
  add32 :: "bytes \<Rightarrow> bytes \<Rightarrow> bytes"
  div32 :: "bytes \<Rightarrow> bytes \<Rightarrow> bytes"
  of_int32 :: "int \<Rightarrow> bytes"
  less64 :: "bytes \<Rightarrow> bytes \<Rightarrow> bool"
  eq64 :: "bytes \<Rightarrow> bytes \<Rightarrow> bool"
  add64 :: "bytes \<Rightarrow> bytes \<Rightarrow> bytes"
  sub64 :: "bytes \<Rightarrow> bytes \<Rightarrow> bytes"
  div64 :: "bytes \<Rightarrow> bytes \<Rightarrow> bytes"
  of_int64 :: "int \<Rightarrow> bytes"

text \<open>Zero of every numeric type, and the order of the integers of a kind.\<close>

definition zero_value :: "kind \<Rightarrow> bytes" where
  "zero_value k = replicate (kind_size k) 0"

definition go_int_less :: "kind \<Rightarrow> bytes \<Rightarrow> bytes \<Rightarrow> bool" where
  "go_int_less k a b \<longleftrightarrow> elem_int k a < elem_int k b"

definition go_less :: "float_ops \<Rightarrow> kind \<Rightarrow> bytes \<Rightarrow> bytes \<Rightarrow> bool" where
  "go_less ops k = (if k = KFloat32 then less32 ops else if k = KFloat64 then less64 ops else go_int_less k)"

text \<open>The loop that keeps the best value so far.\<close>

fun scan :: "('v \<Rightarrow> 'v \<Rightarrow> bool) \<Rightarrow> 'v \<Rightarrow> 'v list \<Rightarrow> 'v" where
  "scan better m [] = m"
| "scan better m (v # vs) = scan better (if better v m then v else m) vs"

text \<open>What the comparisons promise: a strict weak order, as on integers and on floats that are not \<^verbatim>\<open>NaN\<close>.\<close>

locale value_order =
  fixes better :: "'v \<Rightarrow> 'v \<Rightarrow> bool"
  assumes asym: "better x y \<Longrightarrow> \<not> better y x"
    and cotrans: "better x z \<Longrightarrow> better x y \<or> better y z"
begin

lemma irrefl: "\<not> better x x"
  using asym by blast

lemma scan_best: "scan better m vs \<in> set (m # vs) \<and> (\<forall>v \<in> set (m # vs). \<not> better v (scan better m vs))"
proof (induction vs arbitrary: m)
  case Nil
  then show ?case using asym by auto
next
  case (Cons v vs)
  let ?n = "if better v m then v else m"
  have "\<not> better x (scan better ?n vs)" if "x \<in> {m, v}" for x
  proof
    assume "better x (scan better ?n vs)"
    from cotrans [OF this, of ?n] have "better x ?n" using Cons.IH [of ?n] by (meson list.set_intros(1))
    then show False using that asym by (auto split: if_splits)
  qed
  with Cons.IH [of ?n] show ?case by auto
qed

text \<open>Scanning in two parts is scanning the whole.\<close>

lemma scan_append: "scan better m (xs @ ys) = scan better (scan better m xs) ys"
  by (induction xs arbitrary: m) auto

end

interpretation int_least: value_order "go_int_less k" for k
  by unfold_locales (auto simp: go_int_less_def)

interpretation int_greatest: value_order "\<lambda>v m. go_int_less k m v" for k
  by unfold_locales (auto simp: go_int_less_def)

lemma value_order_dual: "value_order lt \<Longrightarrow> value_order (\<lambda>v m. lt m v)"
  unfolding value_order_def by blast

section \<open>\<^verbatim>\<open>uda/uda.go\<close>\<close>

text \<open>A column of a kind that the switch does not name gives no values and no error. Columns of \<^verbatim>\<open>int\<close> do not occur.\<close>

definition to_float_column :: "float_conv \<Rightarrow> kind \<Rightarrow> ColumnSeries \<Rightarrow> string \<Rightarrow> bytes list result" where
  "to_float_column fconv to cols name = (case cs_GetColumn name cols of
      None \<Rightarrow> Inl (Err ''Unable to retrieve column'')
    | Some c \<Rightarrow> Inr (if ckind c \<in> {KFloat32, KFloat64, KInt64, KInt32}
        then map (convert_elem fconv (ckind c) to) (celems c) else []))"

definition ColumnToFloat32 :: "float_conv \<Rightarrow> ColumnSeries \<Rightarrow> string \<Rightarrow> bytes list result" where
  "ColumnToFloat32 fconv = to_float_column fconv KFloat32"

definition ColumnToFloat64 :: "float_conv \<Rightarrow> ColumnSeries \<Rightarrow> string \<Rightarrow> bytes list result" where
  "ColumnToFloat64 fconv = to_float_column fconv KFloat64"

definition index_panic :: go_err where
  "index_panic = Panic ''index out of range''"

text \<open>The first column mapped to the only parameter of an aggregate.\<close>

definition input_column :: "ArgumentMap \<Rightarrow> float_conv \<Rightarrow> ColumnSeries \<Rightarrow> bytes list result" where
  "input_column am fconv cols = (case GetMappedColumns am ''*'' of
      [] \<Rightarrow> Inl index_panic
    | ds # _ \<Rightarrow> ColumnToFloat32 fconv cols (dsName ds))"

definition unmapped_error :: "ArgumentMap \<Rightarrow> go_err option" where
  "unmapped_error am = (if Validate am = [] then None else Some (Err ''Unmapped columns''))"

definition result_series :: "int \<Rightarrow> string \<Rightarrow> kind \<Rightarrow> bytes \<Rightarrow> ColumnSeries" where
  "result_series now name k v =
     fst (AddColumn name \<lparr>ckind = k, celems = [v]\<rparr> (fst (AddColumn ''Epoch'' \<lparr>ckind = KInt64, celems = [le_bytes 8 now]\<rparr> NewColumnSeries)))"

section \<open>Count\<close>

record Count =
  caArgs :: ArgumentMap
  caSum :: int

definition count_required :: "DataShape list" where "count_required = [\<lparr>dsName = ''*'', dsType = INT64\<rparr>]"

definition Count_New :: Count where
  "Count_New = \<lparr>caArgs = NewArgumentMap count_required [], caSum = 0\<rparr>"

definition Count_Init :: "Count \<Rightarrow> Count result" where
  "Count_Init ca = (case unmapped_error (caArgs ca) of Some e \<Rightarrow> Inl e | None \<Rightarrow> Inr (ca\<lparr>caSum := 0\<rparr>))"

definition Count_Accum :: "ColumnSeries \<Rightarrow> Count \<Rightarrow> Count result" where
  "Count_Accum cols ca = res_bind (cs_Len cols) (\<lambda>n. Inr (ca\<lparr>caSum := to_int64 (caSum ca + int n)\<rparr>))"

definition Count_Output :: "int \<Rightarrow> Count \<Rightarrow> ColumnSeries" where
  "Count_Output now ca = result_series now ''Count'' KInt64 (le_bytes 8 (caSum ca))"

definition Count_Reset :: "Count \<Rightarrow> Count" where "Count_Reset ca = ca\<lparr>caSum := 0\<rparr>"

section \<open>Avg\<close>

record Avg =
  avArgs :: ArgumentMap
  avAvg :: bytes
  avCount :: int

definition star_required :: "DataShape list" where "star_required = [\<lparr>dsName = ''*'', dsType = FLOAT32\<rparr>]"

definition Avg_New :: Avg where
  "Avg_New = \<lparr>avArgs = NewArgumentMap star_required [], avAvg = zero_value KFloat64, avCount = 0\<rparr>"

definition Avg_Reset :: "Avg \<Rightarrow> Avg" where "Avg_Reset av = av\<lparr>avAvg := zero_value KFloat64, avCount := 0\<rparr>"

definition Avg_Init :: "Avg \<Rightarrow> Avg result" where
  "Avg_Init av = (case unmapped_error (avArgs av) of Some e \<Rightarrow> Inl e | None \<Rightarrow> Inr (Avg_Reset av))"

definition avg_step :: "float_ops \<Rightarrow> float_conv \<Rightarrow> bytes \<Rightarrow> Avg \<Rightarrow> Avg" where
  "avg_step ops fconv v av = av\<lparr>avAvg := add64 ops (avAvg av) (convert_elem fconv KFloat32 KFloat64 v), avCount := to_int64 (avCount av + 1)\<rparr>"

definition Avg_Accum :: "float_ops \<Rightarrow> float_conv \<Rightarrow> ColumnSeries \<Rightarrow> Avg \<Rightarrow> Avg result" where
  "Avg_Accum ops fconv cols av = res_bind (cs_Len cols) (\<lambda>n.
     if n = 0 then Inr av
     else res_bind (input_column (avArgs av) fconv cols) (\<lambda>inputCol. Inr (fold (avg_step ops fconv) inputCol av)))"

definition Avg_Output :: "float_ops \<Rightarrow> int \<Rightarrow> Avg \<Rightarrow> ColumnSeries" where
  "Avg_Output ops now av = result_series now ''Avg'' KFloat64 (div64 ops (avAvg av) (of_int64 ops (avCount av)))"

section \<open>Max and Min\<close>

text \<open>The two packages differ in the comparison and in the name of the result.\<close>

record Extreme =
  exArgs :: ArgumentMap
  IsInitialized :: bool
  exValue :: bytes

definition Extreme_New :: Extreme where
  "Extreme_New = \<lparr>exArgs = NewArgumentMap star_required [], IsInitialized = False, exValue = zero_value KFloat32\<rparr>"

definition Extreme_Reset :: "Extreme \<Rightarrow> Extreme" where
  "Extreme_Reset ma = ma\<lparr>exValue := zero_value KFloat32, IsInitialized := False\<rparr>"

definition Extreme_Init :: "Extreme \<Rightarrow> Extreme result" where
  "Extreme_Init ma = (case unmapped_error (exArgs ma) of Some e \<Rightarrow> Inl e | None \<Rightarrow> Inr (Extreme_Reset ma))"

definition extreme_accum :: "(bytes \<Rightarrow> bytes \<Rightarrow> bool) \<Rightarrow> float_conv \<Rightarrow> ColumnSeries \<Rightarrow> Extreme \<Rightarrow> Extreme result" where
  "extreme_accum better fconv cols ma = res_bind (cs_Len cols) (\<lambda>n.
     if n = 0 then Inr ma
     else res_bind (input_column (exArgs ma) fconv cols) (\<lambda>inputCol.
       if \<not> IsInitialized ma \<and> inputCol = [] then Inl index_panic
       else
         let ma = (if IsInitialized ma then ma else ma\<lparr>exValue := hd inputCol, IsInitialized := True\<rparr>)
         in Inr (ma\<lparr>exValue := scan better (exValue ma) inputCol\<rparr>)))"

definition Max_Accum :: "float_ops \<Rightarrow> float_conv \<Rightarrow> ColumnSeries \<Rightarrow> Extreme \<Rightarrow> Extreme result" where
  "Max_Accum ops = extreme_accum (\<lambda>v m. less32 ops m v)"

definition Min_Accum :: "float_ops \<Rightarrow> float_conv \<Rightarrow> ColumnSeries \<Rightarrow> Extreme \<Rightarrow> Extreme result" where
  "Min_Accum ops = extreme_accum (less32 ops)"

definition Max_Output :: "int \<Rightarrow> Extreme \<Rightarrow> ColumnSeries" where
  "Max_Output now ma = result_series now ''Max'' KFloat32 (exValue ma)"

definition Min_Output :: "int \<Rightarrow> Extreme \<Rightarrow> ColumnSeries" where
  "Min_Output now mi = result_series now ''Min'' KFloat32 (exValue mi)"

section \<open>Gap\<close>

record gonum =
  SubTo :: "bytes list \<Rightarrow> bytes list \<Rightarrow> bytes list"
  big_scores :: "bytes list \<Rightarrow> nat list"

text \<open>
  \<^verbatim>\<open>SubTo\<close> is the difference of two vectors; \<open>big_scores\<close> stands for mean, standard deviation and standard score: the positions
  whose score is beyond three.
\<close>

record Gap =
  BigGapIdxs :: "nat list"
  gInput :: "ColumnSeries option"
  avgGapIntervalSeconds :: int

definition Gap_Reset :: Gap where
  "Gap_Reset = \<lparr>BigGapIdxs = [], gInput = None, avgGapIntervalSeconds = - 1\<rparr>"

text \<open>The arguments of \<^verbatim>\<open>Init\<close> by their dynamic type: a string, a list of strings, or anything else.\<close>

datatype init_arg = InitString string | InitStrings "string list" | InitOther

definition init_string :: "init_arg \<Rightarrow> string result" where
  "init_string a = (case a of
      InitString s \<Rightarrow> Inr s
    | InitStrings [s] \<Rightarrow> Inr s
    | InitStrings _ \<Rightarrow> Inl (Err ''Argument passed to Init() is not a string'')
    | InitOther \<Rightarrow> Inr [])"

definition Gap_Init :: "init_arg list \<Rightarrow> Gap result" where
  "Gap_Init args = (case args of
      [] \<Rightarrow> Inr Gap_Reset
    | a # _ \<Rightarrow> res_bind (init_string a) (\<lambda>tfstring. Inr (case CandleDurationFromString tfstring of
        None \<Rightarrow> Gap_Reset
      | Some cd \<Rightarrow> Gap_Reset\<lparr>avgGapIntervalSeconds := Duration cd sdiv Second\<rparr>)))"

definition Gap_Accum :: "float_ops \<Rightarrow> float_conv \<Rightarrow> gonum \<Rightarrow> ColumnSeries \<Rightarrow> Gap \<Rightarrow> Gap result" where
  "Gap_Accum ops fconv gn cols g =
     (let g = g\<lparr>BigGapIdxs := [], gInput := Some cols\<rparr>
      in res_bind (cs_Len cols) (\<lambda>n.
        if n = 0 then Inr g
        else case ColumnToFloat64 fconv cols ''Epoch'' of
            Inl _ \<Rightarrow> Inr g
          | Inr epochs \<Rightarrow>
              if length epochs < 2 then Inr g
              else
                let gaps = SubTo gn (tl epochs) (butlast epochs)
                in Inr (g\<lparr>BigGapIdxs :=
                     if avgGapIntervalSeconds g < 0 then big_scores gn gaps
                     else filter (\<lambda>i. less64 ops (of_int64 ops (avgGapIntervalSeconds g)) (gaps ! i)) [0..<length gaps]\<rparr>)))"

text \<open>
  The rows of the result: the start, for every gap the end of the part before it with the number of its epochs and the start of the next, the end,
  and the total.
\<close>

definition gap_row :: "int list \<Rightarrow> nat \<times> nat \<Rightarrow> (int \<times> int \<times> int) list" where
  "gap_row epochs p = (case p of (from, idx) \<Rightarrow> [(epochs ! idx, 1, int (idx - from)), (epochs ! (idx + 1), 0, 0)])"

definition gap_rows :: "int list \<Rightarrow> nat list \<Rightarrow> (int \<times> int \<times> int) list" where
  "gap_rows epochs idxs =
     [(hd epochs, 0, 0)] @ concat (map (gap_row epochs) (zip (0 # idxs) idxs)) @
     [(last epochs, 1, int (length epochs - last idxs)), (0, 127, int (length epochs))]"

definition gap_series :: "(int \<times> int \<times> int) list \<Rightarrow> ColumnSeries" where
  "gap_series rows =
     (let cs = fst (AddColumn ''Epoch'' \<lparr>ckind = KInt64, celems = map (\<lambda>(e, _, _). le_bytes 8 e) rows\<rparr> NewColumnSeries);
          cs = fst (AddColumn ''End(1)Start(0)'' \<lparr>ckind = KInt8, celems = map (\<lambda>(_, t, _). le_bytes 1 t) rows\<rparr> cs)
      in fst (AddColumn ''Count'' \<lparr>ckind = KUint32, celems = map (\<lambda>(_, _, c). le_bytes 4 c) rows\<rparr> cs))"

definition Gap_Output :: "Gap \<Rightarrow> ColumnSeries result" where
  "Gap_Output g = (case (BigGapIdxs g, gInput g) of
      (i # is, Some cols) \<Rightarrow> res_bind (as_kind KInt64 (cs_GetColumn ''Epoch'' cols)) (\<lambda>epochs.
        if list_all (\<lambda>i. Suc i < length epochs) (i # is) then Inr (gap_series (gap_rows epochs (i # is))) else Inl index_panic)
    | _ \<Rightarrow> Inr (gap_series []))"

section \<open>Properties\<close>

text \<open>Sending several series to an aggregate.\<close>

fun accum_all :: "(ColumnSeries \<Rightarrow> 's \<Rightarrow> 's result) \<Rightarrow> ColumnSeries list \<Rightarrow> 's \<Rightarrow> 's result" where
  "accum_all accum [] s = Inr s"
| "accum_all accum (cols # css) s = res_bind (accum cols s) (accum_all accum css)"

text \<open>The values of a series that an aggregate sees.\<close>

definition values_of :: "ArgumentMap \<Rightarrow> float_conv \<Rightarrow> ColumnSeries \<Rightarrow> bytes list" where
  "values_of am fconv cols = (case input_column am fconv cols of Inr vs \<Rightarrow> vs | Inl _ \<Rightarrow> [])"

lemma extreme_all:
  assumes "value_order better" "accum_all (extreme_accum better fconv) css ma = Inr ma'" "\<forall>cols \<in> set css. cs_Len cols \<noteq> Inr 0"
    and "IsInitialized ma"
  shows "exValue ma' = scan better (exValue ma) (concat (map (values_of (exArgs ma) fconv) css))"
  using assms(2-)
proof (induction css arbitrary: ma)
  case (Cons cols css)
  from Cons.prems obtain m1 where m1: "extreme_accum better fconv cols ma = Inr m1" "accum_all (extreme_accum better fconv) css m1 = Inr ma'"
    by (auto simp: res_bind_Inr)
  obtain n where n: "cs_Len cols = Inr n" "n \<noteq> 0" using m1(1) Cons.prems(2) by (auto simp: extreme_accum_def res_bind_Inr)
  then obtain vs where vs: "input_column (exArgs ma) fconv cols = Inr vs" using m1(1) by (auto simp: extreme_accum_def res_bind_Inr)
  have "m1 = ma\<lparr>exValue := scan better (exValue ma) vs\<rparr>" using m1(1) n vs Cons.prems(3) by (simp add: extreme_accum_def)
  then have e: "exValue m1 = scan better (exValue ma) (values_of (exArgs ma) fconv cols)" "IsInitialized m1" "exArgs m1 = exArgs ma"
    using vs Cons.prems(3) by (simp_all add: values_of_def)
  show ?case using Cons.IH [OF m1(2) _ e(2)] Cons.prems(2) e value_order.scan_append [OF assms(1)] by simp
qed simp

lemma extreme_from_new:
  assumes ord: "value_order better" and acc: "accum_all (extreme_accum better fconv) css ma = Inr ma'"
    and ne: "\<forall>cols \<in> set css. cs_Len cols \<noteq> Inr 0" "css \<noteq> []" "\<not> IsInitialized ma"
  defines "vs \<equiv> concat (map (values_of (exArgs ma) fconv) css)"
  shows "exValue ma' \<in> set vs \<and> (\<forall>v \<in> set vs. \<not> better v (exValue ma'))"
proof -
  obtain cols rest where css: "css = cols # rest" using ne(2) by (cases css) auto
  obtain m1 where m1: "extreme_accum better fconv cols ma = Inr m1" "accum_all (extreme_accum better fconv) rest m1 = Inr ma'"
    using acc css by (auto simp: res_bind_Inr)
  obtain n where n: "cs_Len cols = Inr n" "n \<noteq> 0" using m1(1) ne(1) css by (auto simp: extreme_accum_def res_bind_Inr)
  then obtain ws where ws: "input_column (exArgs ma) fconv cols = Inr ws" using m1(1) by (auto simp: extreme_accum_def res_bind_Inr)
  have w: "ws \<noteq> []" "m1 = ma\<lparr>exValue := scan better (hd ws) ws, IsInitialized := True\<rparr>"
    using m1(1) n ws ne(3) by (auto simp: extreme_accum_def Let_def split: if_splits)
  have v: "vs = ws @ concat (map (values_of (exArgs ma) fconv) rest)" using ws by (simp add: vs_def css values_of_def)
  have "exValue ma' = scan better (exValue m1) (concat (map (values_of (exArgs m1) fconv) rest))"
    using extreme_all [OF ord m1(2)] ne(1) css w(2) by simp
  then have "exValue ma' = scan better (hd ws) vs" using w(2) v by (simp add: value_order.scan_append [OF ord])
  with value_order.scan_best [OF ord, of "hd ws" vs] w(1) v show ?thesis by auto
qed

text \<open>
  After the series of a query have been sent to a new max or min aggregate, its result is one of their values and no value is
  greater or smaller, when the comparison of floats is an order on the values; this holds also for negative values, although a new aggregate starts with zero.
\<close>

theorem max_min_extreme:
  assumes "value_order (less32 ops)" "css \<noteq> []" "\<forall>cols \<in> set css. cs_Len cols \<noteq> Inr 0" "\<not> IsInitialized ma"
  shows "(\<forall>ma'. accum_all (Max_Accum ops fconv) css ma = Inr ma' \<longrightarrow>
      exValue ma' \<in> set (concat (map (values_of (exArgs ma) fconv) css)) \<and>
      (\<forall>v \<in> set (concat (map (values_of (exArgs ma) fconv) css)). \<not> less32 ops (exValue ma') v)) \<and>
    (\<forall>mi'. accum_all (Min_Accum ops fconv) css ma = Inr mi' \<longrightarrow>
      exValue mi' \<in> set (concat (map (values_of (exArgs ma) fconv) css)) \<and>
      (\<forall>v \<in> set (concat (map (values_of (exArgs ma) fconv) css)). \<not> less32 ops v (exValue mi')))"
  using extreme_from_new [OF value_order_dual [OF assms(1)] _ assms(3,2,4), of fconv]
    extreme_from_new [OF assms(1) _ assms(3,2,4), of fconv]
  unfolding Max_Accum_def Min_Accum_def by simp

text \<open>Positive floats are ordered as the unsigned numbers of their bits.\<close>

definition bit_ops :: float_ops where
  "bit_ops = \<lparr>less32 = (\<lambda>a b. le_uint a < le_uint b), eq32 = (=), add32 = (\<lambda>a b. a), div32 = (\<lambda>a b. a), of_int32 = le_bytes 4,
     less64 = (\<lambda>a b. le_uint a < le_uint b), eq64 = (=), add64 = (\<lambda>a b. a), sub64 = (\<lambda>a b. a), div64 = (\<lambda>a b. a), of_int64 = le_bytes 8\<rparr>"

lemma bit_order: "value_order (less32 bit_ops)"
  by unfold_locales (auto simp: bit_ops_def)

definition price_series :: "bytes list \<Rightarrow> ColumnSeries" where
  "price_series ps = \<lparr>columns = [(''Price'', \<lparr>ckind = KFloat32, celems = ps\<rparr>)], orderedNames = [''Price''], candleAttributes = 0, nameIncrement = []\<rparr>"

definition price_max :: Extreme where
  "price_max = Extreme_New\<lparr>exArgs := fst (PrepareArguments [''Price''] (exArgs Extreme_New))\<rparr>"

theorem max_min_extreme_witness:
  "\<exists>ma. accum_all (Max_Accum bit_ops (\<lambda>_ _ b. b)) [price_series [[1, 0, 0, 0], [7, 0, 0, 0]], price_series [[5, 0, 0, 0]]] price_max = Inr ma
     \<and> \<not> less32 bit_ops (exValue ma) [7, 0, 0, 0]"
proof -
  let ?css = "[price_series [[1, 0, 0, 0], [7, 0, 0, 0]], price_series [[5, 0, 0, 0]]]"
  have "is_ok (accum_all (Max_Accum bit_ops (\<lambda>_ _ b. b)) ?css price_max)" by code_simp
  then obtain ma where ma: "accum_all (Max_Accum bit_ops (\<lambda>_ _ b. b)) ?css price_max = Inr ma" by (auto elim: is_ok.elims)
  have "[7, 0, 0, 0] \<in> set (concat (map (values_of (exArgs price_max) (\<lambda>_ _ b. b)) ?css))" "\<not> IsInitialized price_max"
    "\<forall>cols \<in> set ?css. cs_Len cols \<noteq> Inr 0" by code_simp+
  with max_min_extreme [OF bit_order, of ?css price_max "\<lambda>_ _ b. b"] ma show ?thesis by blast
qed

text \<open>An aggregate whose columns were never mapped passes the check of \<^verbatim>\<open>Init\<close> and panics on its first rows.\<close>

lemma unmapped_aggregate_panics:
  "unmapped_error (exArgs Extreme_New) = None \<and>
   (cs_Len cols = Inr (Suc n) \<longrightarrow> Max_Accum ops fconv cols Extreme_New = Inl index_panic)"
  by (simp add: unmapped_error_def Validate_def Extreme_New_def NewArgumentMap_def Let_def Max_Accum_def extreme_accum_def input_column_def
      GetMappedColumns_def)

text \<open>The counts of a gap report add up to the number of epochs, which is its last row.\<close>

lemma gap_counts:
  assumes "idxs \<noteq> []" "sorted idxs" "\<forall>i \<in> set idxs. i < length epochs"
  shows "sum_list (map (\<lambda>(_, _, c). c) (butlast (gap_rows epochs idxs))) = int (length epochs)"
proof -
  have "sum_list (map (\<lambda>(_, _, c). c) (concat (map (gap_row epochs) (zip (a # is) is)))) = int (last (a # is)) - int a"
    if "sorted (a # is)" for a "is"
    using that by (induction "is" arbitrary: a) (auto simp: gap_row_def)
  moreover have "last idxs < length epochs" using assms(1,3) by simp
  ultimately show ?thesis using assms(1,2)
    by (auto simp: gap_rows_def butlast_append)
qed

end
