(* ===== verification/Candler.thy ===== *)
theory Candler
  imports Aggregates Rows
begin

text \<open>
  Candles from ticks and from shorter candles: \<^verbatim>\<open>contrib/candler\<close> with \<^verbatim>\<open>tickcandler\<close> and \<^verbatim>\<open>candlecandler\<close>. A candler keeps a map from the start
  of a window to its candle. The zero time of Go, which marks a candle with no price yet, is \<open>None\<close>; it is the first instant of year 1, which no row
  has.
\<close>

section \<open>Candles\<close>

record EOHLCStruct =
  cEpoch :: int
  cOpen :: bytes
  cHigh :: bytes
  cLow :: bytes
  cClose :: bytes

record Candle =
  StartTime :: instant
  cDuration :: CandleDuration
  EOHLC :: EOHLCStruct
  OpenTime :: "instant option"
  CloseTime :: "instant option"
  SumMap :: "(string \<times> bytes) list"
  cCount :: int

definition NewCandle :: "location \<Rightarrow> instant \<Rightarrow> CandleDuration \<Rightarrow> string list \<Rightarrow> string list \<Rightarrow> Candle" where
  "NewCandle loc startTime cd sumColumns avgColumns =
     (let st = Truncate loc cd startTime; z = zero_value KFloat32
      in \<lparr>StartTime = st, cDuration = cd, EOHLC = \<lparr>cEpoch = Unix st, cOpen = z, cHigh = z, cLow = z, cClose = z\<rparr>,
          OpenTime = None, CloseTime = None,
          SumMap = fold (\<lambda>name. AList.update name (zero_value KFloat64)) (sumColumns @ avgColumns) [], cCount = 0\<rparr>)"

definition candle_IsWithin :: "location \<Rightarrow> Candle \<Rightarrow> instant \<Rightarrow> bool" where
  "candle_IsWithin loc ca ts = IsWithin loc (cDuration ca) ts (StartTime ca)"

text \<open>The four updates of \<^verbatim>\<open>AddCandle\<close>; a tick has its price as all four.\<close>

record prices =
  pOpen :: bytes
  pHigh :: bytes
  pLow :: bytes
  pClose :: bytes

definition tick :: "bytes \<Rightarrow> prices" where
  "tick p = \<lparr>pOpen = p, pHigh = p, pLow = p, pClose = p\<rparr>"

definition first_price :: "instant \<Rightarrow> prices \<Rightarrow> Candle \<Rightarrow> Candle" where
  "first_price ts p ca = (if OpenTime ca = None
     then ca\<lparr>EOHLC := \<lparr>cEpoch = cEpoch (EOHLC ca), cOpen = pOpen p, cHigh = pHigh p, cLow = pLow p, cClose = pClose p\<rparr>,
       OpenTime := Some ts, CloseTime := Some ts\<rparr>
     else ca)"

definition update_prices :: "float_ops \<Rightarrow> instant \<Rightarrow> prices \<Rightarrow> Candle \<Rightarrow> Candle" where
  "update_prices ops ts p ca =
     (let ca = (if ts < the (OpenTime ca) then ca\<lparr>EOHLC := (EOHLC ca)\<lparr>cOpen := pOpen p\<rparr>, OpenTime := Some ts\<rparr> else ca);
          ca = (if the (CloseTime ca) < ts then ca\<lparr>EOHLC := (EOHLC ca)\<lparr>cClose := pClose p\<rparr>, CloseTime := Some ts\<rparr> else ca);
          ca = (if less32 ops (cHigh (EOHLC ca)) (pHigh p) then ca\<lparr>EOHLC := (EOHLC ca)\<lparr>cHigh := pHigh p\<rparr>\<rparr> else ca)
      in if less32 ops (pLow p) (cLow (EOHLC ca)) then ca\<lparr>EOHLC := (EOHLC ca)\<lparr>cLow := pLow p\<rparr>\<rparr> else ca)"

definition AddCandle :: "location \<Rightarrow> float_ops \<Rightarrow> instant \<Rightarrow> prices \<Rightarrow> Candle \<Rightarrow> Candle \<times> bool" where
  "AddCandle loc ops ts p ca =
     (if \<not> candle_IsWithin loc ca ts then (ca, False)
      else (update_prices ops ts p (first_price ts p ca), True))"

definition sum_value :: "Candle \<Rightarrow> string \<Rightarrow> bytes" where
  "sum_value ca name = (case map_of (SumMap ca) name of None \<Rightarrow> zero_value KFloat64 | Some v \<Rightarrow> v)"

definition SerializeToRowData :: "float_ops \<Rightarrow> string list \<Rightarrow> string list \<Rightarrow> Candle \<Rightarrow> bytes" where
  "SerializeToRowData ops sumNames avgNames ca =
     (let e = EOHLC ca
      in le_bytes 8 (cEpoch e) @ cOpen e @ cHigh e @ cLow e @ cClose e @ concat (map (sum_value ca) sumNames) @
         concat (map (\<lambda>name. div64 ops (sum_value ca name) (of_int64 ops (cCount ca))) avgNames))"

section \<open>Candlers\<close>

record Candler =
  cdArgs :: ArgumentMap
  MyCD :: "CandleDuration option"
  CMap :: "(instant \<times> Candle) list"
  SumNames :: "string list"
  AvgNames :: "string list"
  AccumSumNames :: "string list"

definition NewCandler :: "DataShape list \<Rightarrow> DataShape list \<Rightarrow> Candler" where
  "NewCandler inputColumns optionalInputColumns =
     \<lparr>cdArgs = NewArgumentMap inputColumns optionalInputColumns, MyCD = None, CMap = [], SumNames = [], AvgNames = [], AccumSumNames = []\<rparr>"

text \<open>The consolidated names come in the order in which Go visits the map; \<open>order\<close> is any permutation.\<close>

definition Candler_Init :: "(string list \<Rightarrow> string list) \<Rightarrow> init_arg list \<Rightarrow> Candler \<Rightarrow> Candler result" where
  "Candler_Init order args ca = (case args of
      [a] \<Rightarrow> res_bind (init_string a) (\<lambda>tfstring. case CandleDurationFromString tfstring of
          None \<Rightarrow> Inl (Err ''No suitable timeframe provided'')
        | Some cd \<Rightarrow> (case unmapped_error (cdArgs ca) of
            Some e \<Rightarrow> Inl e
          | None \<Rightarrow>
              let sums = map dsName (GetMappedColumns (cdArgs ca) ''Sum''); avgs = map dsName (GetMappedColumns (cdArgs ca) ''Avg'')
              in Inr (ca\<lparr>MyCD := Some cd, CMap := [], SumNames := sums, AvgNames := avgs, AccumSumNames := order (remdups (sums @ avgs))\<rparr>)))
    | _ \<Rightarrow> Inl (Err ''Init requires a *utils.CandleDuration as the argument''))"

text \<open>The error of \<^verbatim>\<open>Init\<close> is dropped.\<close>

definition Candler_Reset :: "(string list \<Rightarrow> string list) \<Rightarrow> Candler \<Rightarrow> Candler result" where
  "Candler_Reset order ca = (case MyCD ca of
      None \<Rightarrow> Inl (Panic ''invalid memory address or nil pointer dereference'')
    | Some cd \<Rightarrow> Inr (case Candler_Init order [InitString (cdString cd)] ca of Inl _ \<Rightarrow> ca | Inr ca \<Rightarrow> ca))"

text \<open>
  \<^verbatim>\<open>GetCandle\<close>: the key of the candle for an instant, which is in the map afterwards. The candle of the last row, given by its key, is taken when it
  starts at the instant's window.
\<close>

definition GetCandle :: "location \<Rightarrow> CandleDuration \<Rightarrow> instant \<Rightarrow> instant option \<Rightarrow> Candler \<Rightarrow> instant \<times> Candler" where
  "GetCandle loc cd t cndl ca =
     (let candleTime = Truncate loc cd t;
          new = (candleTime, if map_of (CMap ca) candleTime = None
             then ca\<lparr>CMap := AList.update candleTime (NewCandle loc candleTime cd (SumNames ca) (AvgNames ca)) (CMap ca)\<rparr> else ca)
      in case cndl of
           None \<Rightarrow> new
         | Some k \<Rightarrow> (case map_of (CMap ca) k of
             Some c \<Rightarrow> if StartTime c = candleTime then (k, ca) else new
           | None \<Rightarrow> new))"

text \<open>A row of the input: its time, its prices and its values for the sums.\<close>

record input_row =
  iTime :: instant
  iPrices :: prices
  iSums :: "(string \<times> bytes) list"

definition add_sums :: "float_ops \<Rightarrow> float_conv \<Rightarrow> (string \<times> bytes) list \<Rightarrow> Candle \<Rightarrow> Candle" where
  "add_sums ops fconv sums ca =
     ca\<lparr>SumMap := fold (\<lambda>(name, v) m. AList.update name
       (add64 ops (case map_of m name of None \<Rightarrow> zero_value KFloat64 | Some s \<Rightarrow> s) (convert_elem fconv KFloat32 KFloat64 v)) m) sums (SumMap ca),
       cCount := to_int64 (cCount ca + 1)\<rparr>"

definition add_row :: "location \<Rightarrow> float_ops \<Rightarrow> float_conv \<Rightarrow> input_row \<Rightarrow> Candle \<Rightarrow> Candle" where
  "add_row loc ops fconv r ca = add_sums ops fconv (iSums r) (fst (AddCandle loc ops (iTime r) (iPrices r) ca))"

fun accum_rows :: "location \<Rightarrow> float_ops \<Rightarrow> float_conv \<Rightarrow> CandleDuration \<Rightarrow> input_row list \<Rightarrow> instant option \<Rightarrow> Candler \<Rightarrow> Candler" where
  "accum_rows loc ops fconv cd [] cndl ca = ca"
| "accum_rows loc ops fconv cd (r # rs) cndl ca =
     (case GetCandle loc cd (iTime r) cndl ca of
        (k, ca) \<Rightarrow> accum_rows loc ops fconv cd rs (Some k)
          (ca\<lparr>CMap := AList.update k (add_row loc ops fconv r (the (map_of (CMap ca) k))) (CMap ca)\<rparr>))"

section \<open>Accumulating and output\<close>

text \<open>The average of the columns mapped to a price; a shorter column makes the loop panic.\<close>

fun add_columns32 :: "float_ops \<Rightarrow> float_conv \<Rightarrow> ColumnSeries \<Rightarrow> DataShape list \<Rightarrow> bytes list \<Rightarrow> bytes list result" where
  "add_columns32 ops fconv cols [] avgCol = Inr avgCol"
| "add_columns32 ops fconv cols (ds # dss) avgCol = res_bind (ColumnToFloat32 fconv cols (dsName ds)) (\<lambda>col.
     if length col < length avgCol then Inl index_panic
     else add_columns32 ops fconv cols dss (map (\<lambda>(a, c). add32 ops a c) (zip avgCol col)))"

definition GetAverageColumnFloat32 :: "float_ops \<Rightarrow> float_conv \<Rightarrow> ColumnSeries \<Rightarrow> DataShape list \<Rightarrow> bytes list result" where
  "GetAverageColumnFloat32 ops fconv cols srcCols =
     (case srcCols of
        [ds] \<Rightarrow> ColumnToFloat32 fconv cols (dsName ds)
      | _ \<Rightarrow> res_bind (cs_Len cols) (\<lambda>colLen.
          res_bind (add_columns32 ops fconv cols srcCols (replicate colLen (zero_value KFloat32))) (\<lambda>avgCol.
            Inr (map (\<lambda>a. div32 ops a (of_int32 ops (int (length srcCols)))) avgCol))))"

definition sum_columns :: "float_conv \<Rightarrow> ColumnSeries \<Rightarrow> string list \<Rightarrow> (string \<times> bytes list) list result" where
  "sum_columns fconv cols names = res_map (\<lambda>name. res_bind (ColumnToFloat32 fconv cols name) (\<lambda>c. Inr (name, c))) names"

text \<open>The rows that the loop of \<^verbatim>\<open>Accum\<close> goes through; a column with fewer values than there are times makes it panic.\<close>

definition input_rows :: "instant list \<Rightarrow> prices list \<Rightarrow> (string \<times> bytes list) list \<Rightarrow> input_row list result" where
  "input_rows ts ps sums =
     (if length ps < length ts \<or> list_ex (\<lambda>(_, c). length c < length ts) sums then Inl index_panic
      else Inr (map (\<lambda>i. \<lparr>iTime = ts ! i, iPrices = ps ! i, iSums = map (\<lambda>(name, c). (name, c ! i)) sums\<rparr>) [0..<length ts]))"

definition accum_prices :: "location \<Rightarrow> float_ops \<Rightarrow> float_conv \<Rightarrow> ColumnSeries \<Rightarrow> prices list \<Rightarrow> Candler \<Rightarrow> Candler result" where
  "accum_prices loc ops fconv cols ps ca =
     res_bind (cs_GetTime cols) (\<lambda>ts. res_bind (sum_columns fconv cols (AccumSumNames ca)) (\<lambda>sums. res_bind (input_rows ts ps sums) (\<lambda>rows.
       case MyCD ca of
         None \<Rightarrow> if rows = [] then Inr ca else Inl (Panic ''invalid memory address or nil pointer dereference'')
       | Some cd \<Rightarrow> Inr (accum_rows loc ops fconv cd rows None ca))))"

definition TickCandler_Accum :: "location \<Rightarrow> float_ops \<Rightarrow> float_conv \<Rightarrow> ColumnSeries \<Rightarrow> Candler \<Rightarrow> Candler result" where
  "TickCandler_Accum loc ops fconv cols ca = res_bind (cs_Len cols) (\<lambda>n.
     if n = 0 then Inl (Err ''Empty input to Accum'')
     else res_bind (GetAverageColumnFloat32 ops fconv cols (GetMappedColumns (cdArgs ca) ''CandlePrice'')) (\<lambda>price.
       accum_prices loc ops fconv cols (map tick price) ca))"

definition CandleCandler_Accum :: "location \<Rightarrow> float_ops \<Rightarrow> float_conv \<Rightarrow> ColumnSeries \<Rightarrow> Candler \<Rightarrow> Candler result" where
  "CandleCandler_Accum loc ops fconv cols ca = res_bind (cs_Len cols) (\<lambda>n.
     if n = 0 then Inl (Err ''Empty input to Accum'')
     else
       let col = (\<lambda>name. GetAverageColumnFloat32 ops fconv cols (GetMappedColumns (cdArgs ca) name))
       in res_bind (col ''Open'') (\<lambda>open. res_bind (col ''High'') (\<lambda>high. res_bind (col ''Low'') (\<lambda>low. res_bind (col ''Close'') (\<lambda>cls.
            accum_prices loc ops fconv cols
              (map (\<lambda>(o', h, l, c). \<lparr>pOpen = o', pHigh = h, pLow = l, pClose = c\<rparr>) (zip open (zip high (zip low cls)))) ca)))))"

definition candle_shapes :: "string list \<Rightarrow> string list \<Rightarrow> DataShape list" where
  "candle_shapes sumNames avgNames =
     \<lparr>dsName = ''Epoch'', dsType = INT64\<rparr> # map (\<lambda>n. \<lparr>dsName = n, dsType = FLOAT32\<rparr>) [''Open'', ''High'', ''Low'', ''Close''] @
     map (\<lambda>n. \<lparr>dsName = n @ ''_SUM'', dsType = FLOAT64\<rparr>) sumNames @ map (\<lambda>n. \<lparr>dsName = n @ ''_AVG'', dsType = FLOAT64\<rparr>) avgNames"

definition Candler_Output :: "float_ops \<Rightarrow> Candler \<Rightarrow> ColumnSeries result" where
  "Candler_Output ops ca =
     (let tsa = sort (map fst (CMap ca));
          dataBuf = concat (map (\<lambda>tkey. SerializeToRowData ops (SumNames ca) (AvgNames ca) (the (map_of (CMap ca) tkey))) tsa)
      in rows_ToColumnSeries (rows_SetCandleAttributes OHLC (NewRows (candle_shapes (SumNames ca) (AvgNames ca)) dataBuf)))"

section \<open>Properties\<close>

text \<open>The candle that the rows of one window give.\<close>

definition window_rows :: "CandleDuration \<Rightarrow> instant \<Rightarrow> input_row list \<Rightarrow> input_row list" where
  "window_rows cd k rows = filter (\<lambda>r. Truncate UTC cd (iTime r) = k) rows"

definition candles_ok :: "CandleDuration \<Rightarrow> Candler \<Rightarrow> bool" where
  "candles_ok cd ca \<longleftrightarrow> (\<forall>k c. map_of (CMap ca) k = Some c \<longrightarrow> StartTime c = k \<and> cDuration c = cd)"

definition candle_at :: "CandleDuration \<Rightarrow> Candler \<Rightarrow> instant \<Rightarrow> Candle" where
  "candle_at cd ca k = (case map_of (CMap ca) k of Some c \<Rightarrow> c | None \<Rightarrow> NewCandle UTC k cd (SumNames ca) (AvgNames ca))"

lemma update_prices_keeps [simp]: "StartTime (update_prices ops ts p c) = StartTime c" "cDuration (update_prices ops ts p c) = cDuration c"
  by (auto simp: update_prices_def Let_def)

lemma first_price_keeps [simp]: "StartTime (first_price ts p c) = StartTime c" "cDuration (first_price ts p c) = cDuration c"
  by (simp_all add: first_price_def)

lemma add_row_keeps [simp]: "StartTime (add_row loc ops fconv r c) = StartTime c" "cDuration (add_row loc ops fconv r c) = cDuration c"
  by (simp_all add: add_row_def add_sums_def AddCandle_def)

lemma NewCandle_start: "plain_candle cd \<Longrightarrow> StartTime (NewCandle UTC (Truncate UTC cd t) cd s a) = Truncate UTC cd t"
  "cDuration (NewCandle loc k cd s a) = cd"
  by (simp_all add: NewCandle_def Let_def Truncate_idem)

text \<open>The candle that \<^verbatim>\<open>GetCandle\<close> finds or makes is the one of the window, also when it is the candle of the row before.\<close>

lemma GetCandle_at:
  assumes "candles_ok cd ca"
  shows "\<exists>ca'. GetCandle UTC cd t cndl ca = (Truncate UTC cd t, ca') \<and> map_of (CMap ca') (Truncate UTC cd t) = Some (candle_at cd ca (Truncate UTC cd t))
    \<and> (\<forall>k. k \<noteq> Truncate UTC cd t \<longrightarrow> map_of (CMap ca') k = map_of (CMap ca) k) \<and> SumNames ca' = SumNames ca \<and> AvgNames ca' = AvgNames ca"
proof (cases "\<exists>k c. cndl = Some k \<and> map_of (CMap ca) k = Some c \<and> StartTime c = Truncate UTC cd t")
  case True
  then obtain k c where k: "cndl = Some k" "map_of (CMap ca) k = Some c" "StartTime c = Truncate UTC cd t" by blast
  then have "k = Truncate UTC cd t" using assms by (auto simp: candles_ok_def)
  with k show ?thesis by (auto simp: GetCandle_def Let_def candle_at_def)
next
  case False
  then have "GetCandle UTC cd t cndl ca = (Truncate UTC cd t, if map_of (CMap ca) (Truncate UTC cd t) = None
      then ca\<lparr>CMap := AList.update (Truncate UTC cd t) (NewCandle UTC (Truncate UTC cd t) cd (SumNames ca) (AvgNames ca)) (CMap ca)\<rparr> else ca)"
    by (auto simp: GetCandle_def Let_def split: option.splits)
  then show ?thesis by (auto simp: candle_at_def update_conv')
qed

text \<open>Every window has the candle of its own rows, in the order in which they came.\<close>

lemma accum_rows_windows:
  assumes "plain_candle cd" "candles_ok cd ca"
  shows "map_of (CMap (accum_rows UTC ops fconv cd rows cndl ca)) k =
    (if window_rows cd k rows = [] then map_of (CMap ca) k else Some (fold (add_row UTC ops fconv) (window_rows cd k rows) (candle_at cd ca k)))"
  using assms(2)
proof (induction rows arbitrary: cndl ca)
  case (Cons r rows)
  let ?t = "Truncate UTC cd (iTime r)"
  obtain ca' where ca': "GetCandle UTC cd (iTime r) cndl ca = (?t, ca')" "map_of (CMap ca') ?t = Some (candle_at cd ca ?t)"
    "\<And>k. k \<noteq> ?t \<Longrightarrow> map_of (CMap ca') k = map_of (CMap ca) k" "SumNames ca' = SumNames ca" "AvgNames ca' = AvgNames ca"
    using GetCandle_at [OF Cons.prems] by blast
  let ?ca = "ca'\<lparr>CMap := AList.update ?t (add_row UTC ops fconv r (candle_at cd ca ?t)) (CMap ca')\<rparr>"
  have m: "map_of (CMap ?ca) k = (if k = ?t then Some (add_row UTC ops fconv r (candle_at cd ca ?t)) else map_of (CMap ca) k)" for k
    using ca'(3) by (simp add: update_conv')
  have "StartTime (candle_at cd ca ?t) = ?t" "cDuration (candle_at cd ca ?t) = cd"
    using Cons.prems NewCandle_start(1) [OF assms(1)] by (auto simp: candle_at_def candles_ok_def NewCandle_start(2) split: option.splits)
  then have ok: "candles_ok cd ?ca" using Cons.prems m by (auto simp: candles_ok_def split: if_splits)
  have "candle_at cd ?ca k = (if k = ?t then add_row UTC ops fconv r (candle_at cd ca ?t) else candle_at cd ca k)"
    using ca'(4,5) m [of k] by (simp add: candle_at_def cong: option.case_cong)
  then show ?case using Cons.IH [OF ok, of "Some ?t"] ca'(1,2) m by (auto simp: window_rows_def)
qed (simp add: window_rows_def)

text \<open>The rows that a candle shows: the first, the earliest, the latest and the extremes so far.\<close>

interpretation earliest: value_order "\<lambda>a b. iTime a < iTime b"
  by unfold_locales auto

interpretation latest: value_order "\<lambda>a b. iTime b < iTime a"
  by unfold_locales auto

definition depicts :: "Candle \<Rightarrow> input_row \<Rightarrow> input_row \<Rightarrow> bytes \<Rightarrow> bytes \<Rightarrow> bool" where
  "depicts c o' l h w \<longleftrightarrow> OpenTime c = Some (iTime o') \<and> cOpen (EOHLC c) = pOpen (iPrices o') \<and> CloseTime c = Some (iTime l) \<and>
     cClose (EOHLC c) = pClose (iPrices l) \<and> cHigh (EOHLC c) = h \<and> cLow (EOHLC c) = w"

lemma depicts_row:
  assumes "depicts c o' l h w" "candle_IsWithin UTC c (iTime r)"
  shows "depicts (add_row UTC ops fconv r c) (if iTime r < iTime o' then r else o') (if iTime l < iTime r then r else l)
    (if less32 ops h (pHigh (iPrices r)) then pHigh (iPrices r) else h) (if less32 ops (pLow (iPrices r)) w then pLow (iPrices r) else w)"
  using assms by (auto simp: depicts_def add_row_def add_sums_def AddCandle_def first_price_def update_prices_def Let_def)

lemma cEpoch_row: "cEpoch (EOHLC (add_row loc ops fconv r c)) = cEpoch (EOHLC c)"
  by (simp add: add_row_def add_sums_def AddCandle_def first_price_def update_prices_def Let_def)

lemma cEpoch_fold: "cEpoch (EOHLC (fold (add_row loc ops fconv) rs c)) = cEpoch (EOHLC c)"
  by (induction rs arbitrary: c) (simp_all add: cEpoch_row)

lemma depicts_fold:
  assumes "depicts c o' l h w" "\<forall>r \<in> set rs. candle_IsWithin UTC c (iTime r)"
  shows "depicts (fold (add_row UTC ops fconv) rs c) (scan (\<lambda>a b. iTime a < iTime b) o' rs) (scan (\<lambda>a b. iTime b < iTime a) l rs)
    (scan (\<lambda>v m. less32 ops m v) h (map (pHigh \<circ> iPrices) rs)) (scan (less32 ops) w (map (pLow \<circ> iPrices) rs))"
  using assms
proof (induction rs arbitrary: c o' l h w)
  case (Cons r rs)
  have "\<forall>r' \<in> set rs. candle_IsWithin UTC (add_row UTC ops fconv r c) (iTime r')" using Cons.prems(2) by (simp add: candle_IsWithin_def)
  from Cons.IH [OF depicts_row [OF Cons.prems(1)] this] Cons.prems(2) show ?case by simp
qed simp

lemma depicts_first:
  assumes "value_order (less32 ops)" "OpenTime c = None" "candle_IsWithin UTC c (iTime r)"
  shows "depicts (add_row UTC ops fconv r c) r r (pHigh (iPrices r)) (pLow (iPrices r))"
  using assms(2,3) value_order.irrefl [OF assms(1)]
  by (auto simp: depicts_def add_row_def add_sums_def AddCandle_def first_price_def update_prices_def Let_def)

text \<open>
  C15: After a candler has taken its rows, in any order, there is a candle for exactly the windows with rows. Its epoch is the start of the window, its open and
  its close are those of an earliest and of a latest row of the window, and its high and its low are the extremes of the rows of the window.
\<close>

theorem candles_of_windows:
  assumes cd: "plain_candle cd" and ord: "value_order (less32 ops)" and new: "CMap ca = []"
  shows "case map_of (CMap (accum_rows UTC ops fconv cd rows None ca)) k of
      None \<Rightarrow> window_rows cd k rows = []
    | Some c \<Rightarrow> cEpoch (EOHLC c) = Unix k \<and>
        (\<exists>o' \<in> set (window_rows cd k rows). cOpen (EOHLC c) = pOpen (iPrices o') \<and> (\<forall>r \<in> set (window_rows cd k rows). iTime o' \<le> iTime r)) \<and>
        (\<exists>l \<in> set (window_rows cd k rows). cClose (EOHLC c) = pClose (iPrices l) \<and> (\<forall>r \<in> set (window_rows cd k rows). iTime r \<le> iTime l)) \<and>
        (\<exists>h \<in> set (window_rows cd k rows). cHigh (EOHLC c) = pHigh (iPrices h) \<and>
          (\<forall>r \<in> set (window_rows cd k rows). \<not> less32 ops (pHigh (iPrices h)) (pHigh (iPrices r)))) \<and>
        (\<exists>w \<in> set (window_rows cd k rows). cLow (EOHLC c) = pLow (iPrices w) \<and>
          (\<forall>r \<in> set (window_rows cd k rows). \<not> less32 ops (pLow (iPrices r)) (pLow (iPrices w))))"
proof (cases "window_rows cd k rows")
  case Nil
  then show ?thesis using accum_rows_windows [OF cd, of ca ops fconv rows None k] new by (simp add: candles_ok_def)
next
  case (Cons r rs)
  let ?n = "NewCandle UTC k cd (SumNames ca) (AvgNames ca)" and ?m = "add_row UTC ops fconv r (NewCandle UTC k cd (SumNames ca) (AvgNames ca))"
  let ?c = "fold (add_row UTC ops fconv) rs ?m"
  have c: "map_of (CMap (accum_rows UTC ops fconv cd rows None ca)) k = Some ?c"
    using accum_rows_windows [OF cd, of ca ops fconv rows None k] new Cons by (simp add: candles_ok_def candle_at_def)
  have t: "\<forall>x \<in> set (r # rs). Truncate UTC cd (iTime x) = k" unfolding Cons [symmetric] by (simp add: window_rows_def)
  then have k: "Truncate UTC cd k = k" using Truncate_idem [OF cd] by auto
  have w: "\<forall>x \<in> set (r # rs). candle_IsWithin UTC ?n (iTime x)" "\<forall>x \<in> set rs. candle_IsWithin UTC ?m (iTime x)"
    using t k IsWithin_Truncate [OF cd, of _ k] by (simp_all add: candle_IsWithin_def NewCandle_def Let_def)
  have "depicts ?m r r (pHigh (iPrices r)) (pLow (iPrices r))"
    by (rule depicts_first [OF ord]) (use w(1) in \<open>simp_all add: NewCandle_def Let_def\<close>)
  note s = depicts_fold [OF this w(2), of ops fconv]
  have e: "cEpoch (EOHLC ?c) = Unix k" using k by (simp add: cEpoch_fold cEpoch_row NewCandle_def Let_def)
  note f = earliest.scan_best [of r rs] latest.scan_best [of r rs]
    value_order.scan_best [OF value_order_dual [OF ord], of "pHigh (iPrices r)" "map (pHigh \<circ> iPrices) rs"]
    value_order.scan_best [OF ord, of "pLow (iPrices r)" "map (pLow \<circ> iPrices) rs"]
  have "\<exists>h \<in> set (r # rs). cHigh (EOHLC ?c) = pHigh (iPrices h) \<and> (\<forall>x \<in> set (r # rs). \<not> less32 ops (pHigh (iPrices h)) (pHigh (iPrices x)))"
    using s f(3) by (auto simp: depicts_def)
  moreover have "\<exists>v \<in> set (r # rs). cLow (EOHLC ?c) = pLow (iPrices v) \<and> (\<forall>x \<in> set (r # rs). \<not> less32 ops (pLow (iPrices x)) (pLow (iPrices v)))"
    using s f(4) by (auto simp: depicts_def)
  moreover have "\<exists>o' \<in> set (r # rs). cOpen (EOHLC ?c) = pOpen (iPrices o') \<and> (\<forall>x \<in> set (r # rs). iTime o' \<le> iTime x)"
    using s f(1) by (intro bexI [of _ "scan (\<lambda>a b. iTime a < iTime b) r rs"]) (auto simp: depicts_def not_less)
  moreover have "\<exists>l \<in> set (r # rs). cClose (EOHLC ?c) = pClose (iPrices l) \<and> (\<forall>x \<in> set (r # rs). iTime x \<le> iTime l)"
    using s f(2) by (intro bexI [of _ "scan (\<lambda>a b. iTime b < iTime a) r rs"]) (auto simp: depicts_def not_less)
  ultimately show ?thesis using c e Cons by simp
qed

definition tick_row :: "instant \<Rightarrow> bytes \<Rightarrow> input_row" where
  "tick_row t p = \<lparr>iTime = t, iPrices = tick p, iSums = []\<rparr>"

definition minute_ticks :: "input_row list" where
  "minute_ticks = [tick_row (70 * Second) [5, 0, 0, 0], tick_row (65 * Second) [9, 0, 0, 0], tick_row (130 * Second) [1, 0, 0, 0]]"

definition one_minute :: CandleDuration where
  "one_minute = the (CandleDurationFromString ''1Min'')"

theorem candles_of_windows_witness:
  "\<exists>c. map_of (CMap (accum_rows UTC bit_ops (\<lambda>_ _ b. b) one_minute minute_ticks None (NewCandler [] []))) (60 * Second) = Some c \<and>
     cEpoch (EOHLC c) = 60 \<and> cOpen (EOHLC c) = [9, 0, 0, 0] \<and> cClose (EOHLC c) = [5, 0, 0, 0]"
proof -
  have cd: "plain_candle one_minute" by code_simp
  have w: "window_rows one_minute (60 * Second) minute_ticks = [tick_row (70 * Second) [5, 0, 0, 0], tick_row (65 * Second) [9, 0, 0, 0]]"
    by code_simp
  have t: "iTime (tick_row a p) = a" "iPrices (tick_row a p) = tick p" for a p by (simp_all add: tick_row_def)
  have "CMap (NewCandler [] []) = []" "Unix (60 * Second) = 60" by code_simp+
  with candles_of_windows [OF cd bit_order, where ca = "NewCandler [] []" and fconv = "\<lambda>_ _ b. b" and rows = minute_ticks and k = "60 * Second"] w
  show ?thesis by (auto simp: t tick_def split: option.splits)
qed

end
