(* ===== verification/AggCalls.thy ===== *)
theory AggCalls
  imports Candler
begin

text \<open>
  Calls of aggregate functions by name: the registry (\<^verbatim>\<open>sqlparser/registry.go\<close>), the steps of a call that a query runs, and the function calls that a
  request gives as strings (\<^verbatim>\<open>frontend/query.go\<close>).
\<close>

section \<open>The registry\<close>

text \<open>An aggregate by its dynamic type. Gap keeps its argument map only to hand it to the caller.\<close>

datatype AggInterface =
    CountA Count
  | AvgA Avg
  | MaxA Extreme
  | MinA Extreme
  | GapA ArgumentMap Gap
  | TickCandlerA Candler
  | CandleCandlerA Candler

definition sum_avg_columns :: "DataShape list" where
  "sum_avg_columns = [\<lparr>dsName = ''Sum'', dsType = FLOAT32\<rparr>, \<lparr>dsName = ''Avg'', dsType = FLOAT32\<rparr>]"

definition tick_required :: "DataShape list" where
  "tick_required = [\<lparr>dsName = ''CandlePrice'', dsType = FLOAT32\<rparr>]"

definition candle_required :: "DataShape list" where
  "candle_required = map (\<lambda>n. \<lparr>dsName = n, dsType = FLOAT32\<rparr>) [''Open'', ''High'', ''Low'', ''Close'']"

definition TickCandler_New :: Candler where
  "TickCandler_New = NewCandler tick_required sum_avg_columns"

definition CandleCandler_New :: Candler where
  "CandleCandler_New = NewCandler candle_required sum_avg_columns"

definition NewGap :: Gap where
  "NewGap = \<lparr>BigGapIdxs = [], gInput = None, avgGapIntervalSeconds = 0\<rparr>"

definition AggRegistry :: "(string \<times> AggInterface) list" where
  "AggRegistry =
     [(''TickCandler'', TickCandlerA TickCandler_New), (''tickcandler'', TickCandlerA TickCandler_New),
      (''CandleCandler'', CandleCandlerA CandleCandler_New), (''candlecandler'', CandleCandlerA CandleCandler_New),
      (''Count'', CountA Count_New), (''count'', CountA Count_New), (''Min'', MinA Extreme_New), (''min'', MinA Extreme_New),
      (''Max'', MaxA Extreme_New), (''max'', MaxA Extreme_New), (''Avg'', AvgA Avg_New), (''avg'', AvgA Avg_New),
      (''Gap'', GapA (NewArgumentMap [] []) NewGap), (''gap'', GapA (NewArgumentMap [] []) NewGap)]"

text \<open>The argument map that \<^verbatim>\<open>New\<close> returns is the one of the aggregate.\<close>

fun agg_args :: "AggInterface \<Rightarrow> ArgumentMap" where
  "agg_args (CountA a) = caArgs a" | "agg_args (AvgA a) = avArgs a" | "agg_args (MaxA a) = exArgs a" | "agg_args (MinA a) = exArgs a"
| "agg_args (GapA am _) = am" | "agg_args (TickCandlerA a) = cdArgs a" | "agg_args (CandleCandlerA a) = cdArgs a"

fun set_args :: "ArgumentMap \<Rightarrow> AggInterface \<Rightarrow> AggInterface" where
  "set_args am (CountA a) = CountA (a\<lparr>caArgs := am\<rparr>)" | "set_args am (AvgA a) = AvgA (a\<lparr>avArgs := am\<rparr>)"
| "set_args am (MaxA a) = MaxA (a\<lparr>exArgs := am\<rparr>)" | "set_args am (MinA a) = MinA (a\<lparr>exArgs := am\<rparr>)"
| "set_args am (GapA _ g) = GapA am g" | "set_args am (TickCandlerA a) = TickCandlerA (a\<lparr>cdArgs := am\<rparr>)"
| "set_args am (CandleCandlerA a) = CandleCandlerA (a\<lparr>cdArgs := am\<rparr>)"

fun GetInitArgs :: "AggInterface \<Rightarrow> DataShape list" where
  "GetInitArgs (TickCandlerA _) = [\<lparr>dsName = ''Timeframe'', dsType = STRING\<rparr>]"
| "GetInitArgs (CandleCandlerA _) = [\<lparr>dsName = ''Timeframe'', dsType = STRING\<rparr>]"
| "GetInitArgs _ = []"

text \<open>What the aggregates need: the zone, the operations of floats, the functions of gonum, the clock, and the order in which Go visits a map of names.\<close>

record agg_env =
  aLoc :: location
  aOps :: float_ops
  aFconv :: float_conv
  aGonum :: gonum
  aNow :: int
  aNames :: "string list \<Rightarrow> string list"

fun agg_Init :: "agg_env \<Rightarrow> init_arg list \<Rightarrow> AggInterface \<Rightarrow> AggInterface result" where
  "agg_Init env args (CountA a) = res_bind (Count_Init a) (\<lambda>a. Inr (CountA a))"
| "agg_Init env args (AvgA a) = res_bind (Avg_Init a) (\<lambda>a. Inr (AvgA a))"
| "agg_Init env args (MaxA a) = res_bind (Extreme_Init a) (\<lambda>a. Inr (MaxA a))"
| "agg_Init env args (MinA a) = res_bind (Extreme_Init a) (\<lambda>a. Inr (MinA a))"
| "agg_Init env args (GapA am g) = res_bind (Gap_Init args) (\<lambda>g. Inr (GapA am g))"
| "agg_Init env args (TickCandlerA a) = res_bind (Candler_Init (aNames env) args a) (\<lambda>a. Inr (TickCandlerA a))"
| "agg_Init env args (CandleCandlerA a) = res_bind (Candler_Init (aNames env) args a) (\<lambda>a. Inr (CandleCandlerA a))"

fun agg_Accum :: "agg_env \<Rightarrow> ColumnSeries \<Rightarrow> AggInterface \<Rightarrow> AggInterface result" where
  "agg_Accum env cols (CountA a) = res_bind (Count_Accum cols a) (\<lambda>a. Inr (CountA a))"
| "agg_Accum env cols (AvgA a) = res_bind (Avg_Accum (aOps env) (aFconv env) cols a) (\<lambda>a. Inr (AvgA a))"
| "agg_Accum env cols (MaxA a) = res_bind (Max_Accum (aOps env) (aFconv env) cols a) (\<lambda>a. Inr (MaxA a))"
| "agg_Accum env cols (MinA a) = res_bind (Min_Accum (aOps env) (aFconv env) cols a) (\<lambda>a. Inr (MinA a))"
| "agg_Accum env cols (GapA am g) = res_bind (Gap_Accum (aOps env) (aFconv env) (aGonum env) cols g) (\<lambda>g. Inr (GapA am g))"
| "agg_Accum env cols (TickCandlerA a) = res_bind (TickCandler_Accum (aLoc env) (aOps env) (aFconv env) cols a) (\<lambda>a. Inr (TickCandlerA a))"
| "agg_Accum env cols (CandleCandlerA a) = res_bind (CandleCandler_Accum (aLoc env) (aOps env) (aFconv env) cols a) (\<lambda>a. Inr (CandleCandlerA a))"

fun agg_Output :: "agg_env \<Rightarrow> AggInterface \<Rightarrow> ColumnSeries result" where
  "agg_Output env (CountA a) = Inr (Count_Output (aNow env) a)"
| "agg_Output env (AvgA a) = Inr (Avg_Output (aOps env) (aNow env) a)"
| "agg_Output env (MaxA a) = Inr (Max_Output (aNow env) a)"
| "agg_Output env (MinA a) = Inr (Min_Output (aNow env) a)"
| "agg_Output env (GapA _ g) = Gap_Output g"
| "agg_Output env (TickCandlerA a) = Candler_Output (aOps env) a"
| "agg_Output env (CandleCandlerA a) = Candler_Output (aOps env) a"

section \<open>One call\<close>

definition find_aggregate :: "string \<Rightarrow> AggInterface result" where
  "find_aggregate aggName = (case map_of AggRegistry (ToLower aggName) of
      None \<Rightarrow> Inl (Err ''No function in the UDA Registry'')
    | Some agg \<Rightarrow> Inr agg)"

definition prepare_call :: "string list \<Rightarrow> AggInterface \<Rightarrow> AggInterface result" where
  "prepare_call ids agg = (case PrepareArguments ids (agg_args agg) of
      (am, None) \<Rightarrow> Inr (set_args am agg)
    | (_, Some (Panic e)) \<Rightarrow> Inl (Panic e)
    | (_, Some _) \<Rightarrow> Inl (Err ''Argument mapping error''))"

text \<open>
  The list of literals is the only argument of \<^verbatim>\<open>Init\<close>, whose error is dropped. The aggregate is then as it was, but for a gap, which is reset
  before the arguments are looked at.
\<close>

fun after_failed_Init :: "AggInterface \<Rightarrow> AggInterface" where
  "after_failed_Init (GapA am _) = GapA am Gap_Reset"
| "after_failed_Init agg = agg"

definition run_prepared :: "agg_env \<Rightarrow> string list \<Rightarrow> ColumnSeries \<Rightarrow> AggInterface \<Rightarrow> ColumnSeries result" where
  "run_prepared env initList cols agg =
     (if length initList < length (GetInitArgs agg) then Inl (Err ''Not enough init arguments'')
      else
        let initialised = (case agg_Init env [InitStrings initList] agg of
              Inl (Panic e) \<Rightarrow> Inl (Panic e)
            | Inl _ \<Rightarrow> Inr (after_failed_Init agg)
            | Inr agg \<Rightarrow> Inr agg)
        in res_bind initialised (\<lambda>agg. res_bind (agg_Accum env cols agg) (agg_Output env)))"

section \<open>Function calls as strings\<close>

definition trim_spaces :: "string \<Rightarrow> string" where
  "trim_spaces s = rev (dropWhile (\<lambda>c. c = CHR '' '') (rev (dropWhile (\<lambda>c. c = CHR '' '') s)))"

definition quote :: char where "quote = CHR 0x27"

function parse_literals :: "string \<Rightarrow> string list \<Rightarrow> string \<Rightarrow> (string \<times> string list) result" where
  "parse_literals newCall literalList call =
     (if quote \<notin> set call then Inr (newCall @ call, literalList)
      else
        let rest = tl (dropWhile (\<lambda>c. c \<noteq> quote) call)
        in if quote \<notin> set rest then Inl (Err ''unclosed literal'')
           else parse_literals (newCall @ takeWhile (\<lambda>c. c \<noteq> quote) call) (literalList @ [takeWhile (\<lambda>c. c \<noteq> quote) rest])
             (tl (dropWhile (\<lambda>c. c \<noteq> quote) rest)))"
  by pat_completeness auto
termination
proof (relation "measure (\<lambda>(_, _, call). length call)", simp, clarsimp)
  fix call :: string
  assume "quote \<in> set (tl (dropWhile (\<lambda>c. c \<noteq> quote) call))"
  then have "0 < length (tl (dropWhile (\<lambda>c. c \<noteq> quote) call))" by (cases "tl (dropWhile (\<lambda>c. c \<noteq> quote) call)") auto
  moreover have "length (dropWhile (\<lambda>c. c \<noteq> quote) call) \<le> length call" by (rule length_dropWhile_le)
  moreover have "length (dropWhile (\<lambda>c. c \<noteq> quote) (tl (dropWhile (\<lambda>c. c \<noteq> quote) call))) \<le> length (tl (dropWhile (\<lambda>c. c \<noteq> quote) call))"
    by (rule length_dropWhile_le)
  ultimately show "length (dropWhile (\<lambda>c. c \<noteq> quote) (tl (dropWhile (\<lambda>c. c \<noteq> quote) call))) - Suc 0 < length call" by simp
qed

declare parse_literals.simps [simp del]

definition parseFunctionCall :: "string \<Rightarrow> (string \<times> string list \<times> string list) result" where
  "parseFunctionCall call =
     (let call = trim_spaces call
      in case (index_of (CHR ''('') call, index_of (CHR '')'') (rev call)) of
           (Some left, Some r) \<Rightarrow>
             let right = length call - 1 - r; funcName = trim_spaces (take left call)
             in res_bind (go_slice (int left + 1) (int right) call) (\<lambda>call. res_bind (parse_literals [] [] call) (\<lambda>(newCall, literalList).
               Inr (funcName, literalList, filter (\<lambda>p. p \<noteq> []) (map trim_spaces (Split newCall '','')))))
         | _ \<Rightarrow> Inl (Err ''unable to parse function call''))"

text \<open>A chain of calls: each gets the result of the one before.\<close>

fun runAggFunctions :: "agg_env \<Rightarrow> string list \<Rightarrow> ColumnSeries \<Rightarrow> ColumnSeries option \<Rightarrow> ColumnSeries option result" where
  "runAggFunctions env [] csInput cs = Inr cs"
| "runAggFunctions env (call # callChain) csInput cs =
     (let csInput = (case cs of None \<Rightarrow> csInput | Some c \<Rightarrow> c)
      in res_bind (parseFunctionCall call) (\<lambda>(aggName, literalList, parameterList).
        res_bind (find_aggregate aggName) (\<lambda>agg. res_bind (prepare_call parameterList agg) (\<lambda>agg.
          res_bind (run_prepared env literalList csInput agg) (\<lambda>out. runAggFunctions env callChain csInput (Some out))))))"

section \<open>Calls are parsed back\<close>

text \<open>A call with literals and parameters in any order.\<close>

datatype written_arg = WLiteral string | WParam string

fun arg_text :: "written_arg \<Rightarrow> string" where
  "arg_text (WLiteral l) = quote # l @ [quote]" | "arg_text (WParam p) = p"

fun bare_text :: "written_arg \<Rightarrow> string" where
  "bare_text (WLiteral l) = []" | "bare_text (WParam p) = p"

definition literals_of :: "written_arg list \<Rightarrow> string list" where
  "literals_of args = concat (map (\<lambda>a. case a of WLiteral l \<Rightarrow> [l] | WParam _ \<Rightarrow> []) args)"

definition params_of :: "written_arg list \<Rightarrow> string list" where
  "params_of args = concat (map (\<lambda>a. case a of WParam p \<Rightarrow> [p] | WLiteral _ \<Rightarrow> []) args)"

definition call_text :: "string \<Rightarrow> written_arg list \<Rightarrow> string" where
  "call_text name args = name @ ''('' @ join_with '', '' (map arg_text args) @ '')''"

definition trimmed :: "string \<Rightarrow> bool" where
  "trimmed s \<longleftrightarrow> s \<noteq> [] \<and> hd s \<noteq> CHR '' '' \<and> last s \<noteq> CHR '' ''"

fun arg_ok :: "written_arg \<Rightarrow> bool" where
  "arg_ok (WLiteral l) \<longleftrightarrow> quote \<notin> set l"
| "arg_ok (WParam p) \<longleftrightarrow> trimmed p \<and> quote \<notin> set p \<and> CHR '','' \<notin> set p"

lemma trim_trimmed: "trimmed s \<Longrightarrow> trim_spaces s = s" "trimmed s \<Longrightarrow> trim_spaces (CHR '' '' # s) = s"
proof -
  assume s: "trimmed s"
  then have "dropWhile (\<lambda>c. c = CHR '' '') s = s" by (cases s) (auto simp: trimmed_def)
  moreover have "dropWhile (\<lambda>c. c = CHR '' '') (rev s) = rev s"
    using s by (cases "rev s") (auto simp: trimmed_def dropWhile_eq_self_iff hd_rev)
  ultimately show "trim_spaces s = s" "trim_spaces (CHR '' '' # s) = s" by (simp_all add: trim_spaces_def)
qed

lemma takeWhile_quote: "quote \<notin> set pre \<Longrightarrow> takeWhile (\<lambda>c. c \<noteq> quote) (pre @ quote # rest) = pre"
    "quote \<notin> set pre \<Longrightarrow> dropWhile (\<lambda>c. c \<noteq> quote) (pre @ quote # rest) = quote # rest"
  by (induction pre) auto

lemma parse_literal: "quote \<notin> set pre \<Longrightarrow> quote \<notin> set l \<Longrightarrow>
    parse_literals acc ls (pre @ quote # l @ quote # rest) = parse_literals (acc @ pre) (ls @ [l]) rest"
  by (subst parse_literals.simps) (simp add: takeWhile_quote)

lemma parse_bare: "quote \<notin> set pre \<Longrightarrow> parse_literals acc ls (pre @ rest) = parse_literals (acc @ pre) ls rest"
proof -
  assume pre: "quote \<notin> set pre"
  have "takeWhile (\<lambda>c. c \<noteq> quote) (pre @ rest) = pre @ takeWhile (\<lambda>c. c \<noteq> quote) rest"
    "dropWhile (\<lambda>c. c \<noteq> quote) (pre @ rest) = dropWhile (\<lambda>c. c \<noteq> quote) rest"
    using pre by (auto intro!: takeWhile_append2 dropWhile_append2)
  with pre show ?thesis by (subst (1 2) parse_literals.simps) (simp add: Let_def)
qed

lemma quote_plain [simp]: "quote \<noteq> CHR '' ''" "quote \<noteq> CHR '',''"
  by (simp_all add: quote_def)

lemma parse_args:
  "list_all arg_ok args \<Longrightarrow> parse_literals acc ls (join_with '', '' (map arg_text args)) = Inr (acc @ join_with '', '' (map bare_text args), ls @ literals_of args)"
proof (induction args arbitrary: acc ls rule: induct_list012)
  case 1
  show ?case by (subst parse_literals.simps) (simp add: literals_of_def)
next
  case (2 a)
  have e: "parse_literals acc ls [] = Inr (acc, ls)" for acc ls by (subst parse_literals.simps) simp
  show ?case
  proof (cases a)
    case (WLiteral l)
    then show ?thesis using 2 parse_literal [of "[]" l acc ls "[]"] by (simp add: literals_of_def e)
  next
    case (WParam p)
    then show ?thesis using 2 parse_bare [of p acc ls "[]"] by (simp add: literals_of_def e)
  qed
next
  case (3 a b args)
  let ?rest = "join_with '', '' (map arg_text (b # args))"
  have IH: "parse_literals acc ls ?rest = Inr (acc @ join_with '', '' (map bare_text (b # args)), ls @ literals_of (b # args))" for acc ls
    using 3 by simp
  have sep: "parse_literals acc ls ('', '' @ ?rest) = parse_literals (acc @ '', '') ls ?rest" for acc ls
    by (rule parse_bare) simp
  show ?case
  proof (cases a)
    case (WLiteral l)
    then show ?thesis using 3(3) parse_literal [of "[]" l acc ls "'', '' @ ?rest"] sep IH by (simp add: literals_of_def)
  next
    case (WParam p)
    then show ?thesis using 3(3) parse_bare [of p acc ls "'', '' @ ?rest"] sep IH by (simp add: literals_of_def)
  qed
qed

lemma join_prefix: "c # join_with s (x # xs) = join_with s ((c # x) # xs)"
  by (cases xs) auto

lemma join_comma: "join_with '', '' (x # xs) = join_with '','' (x # map (\<lambda>y. CHR '' '' # y) xs)"
proof (induction xs arbitrary: x)
  case (Cons y ys)
  have "join_with '', '' (x # y # ys) = x @ '','' @ (CHR '' '' # join_with '', '' (y # ys))" by simp
  also have "\<dots> = x @ '','' @ join_with '','' ((CHR '' '' # y) # map (\<lambda>y. CHR '' '' # y) ys)"
    unfolding Cons.IH [of y] join_prefix ..
  finally show ?case by simp
qed simp

lemma bare_params:
  assumes "list_all arg_ok args"
  shows "filter (\<lambda>p. p \<noteq> []) (map trim_spaces (Split (join_with '', '' (map bare_text args)) '','')) = params_of args"
proof (cases args)
  case Nil
  have "trim_spaces [] = []" by (simp add: trim_spaces_def)
  then show ?thesis using Nil by (simp add: params_of_def)
next
  case (Cons a rest)
  have bare: "CHR '','' \<notin> set (bare_text a)" if "arg_ok a" for a using that by (cases a) auto
  have trim: "filter (\<lambda>p. p \<noteq> []) [trim_spaces (bare_text a)] = params_of [a]"
    "filter (\<lambda>p. p \<noteq> []) [trim_spaces (CHR '' '' # bare_text a)] = params_of [a]" if "arg_ok a" for a
    using that by (cases a; simp add: params_of_def trim_trimmed; simp add: trim_spaces_def trimmed_def)+
  have all: "filter (\<lambda>p. p \<noteq> []) (map trim_spaces (map (\<lambda>y. CHR '' '' # y) (map bare_text as))) = params_of as" if "list_all arg_ok as" for as
    using that
  proof (induction as)
    case (Cons b as)
    then show ?case using trim(2) [of b] by (auto simp: params_of_def split: if_splits)
  qed (simp add: params_of_def)
  have "Split (join_with '', '' (map bare_text args)) '','' = bare_text a # map (\<lambda>y. CHR '' '' # y) (map bare_text rest)"
    unfolding Cons list.map join_comma using assms Cons by (intro Split_join) (auto simp: bare list_all_iff)
  then show ?thesis using assms trim(1) [of a] all [of rest] Cons by (auto simp: params_of_def split: if_splits)
qed

text \<open>A call that is written with a name, literals in quotes and parameters is taken apart into these, in order.\<close>

theorem function_call_roundtrip:
  assumes "trimmed name" "CHR ''('' \<notin> set name" "list_all arg_ok args"
  shows "parseFunctionCall (call_text name args) = Inr (name, literals_of args, params_of args)"
proof -
  let ?body = "join_with '', '' (map arg_text args)"
  have "trimmed (call_text name args)" using assms(1) by (auto simp: call_text_def trimmed_def)
  then have t: "trim_spaces (call_text name args) = call_text name args" by (rule trim_trimmed)
  have "index_of c (xs @ c # ys) = Some (length xs)" if "c \<notin> set xs" for c :: char and xs ys
    using that by (induction xs) auto
  from this [of "CHR ''(''" name] assms(2) have l: "index_of (CHR ''('') (call_text name args) = Some (length name)" by (simp add: call_text_def)
  have r: "index_of (CHR '')'') (rev (call_text name args)) = Some 0" by (simp add: call_text_def)
  have s: "go_slice (int (length name) + 1) (int (length (call_text name args) - 1 - 0)) (call_text name args) = Inr ?body"
    using go_slice_nat [of "length name + 1" "length name + 1 + length ?body" "call_text name args"] by (simp add: call_text_def add.commute)
  have n: "trim_spaces (take (length name) (call_text name args)) = name" using trim_trimmed(1) [OF assms(1)] by (simp add: call_text_def)
  show ?thesis unfolding parseFunctionCall_def t l r Let_def option.case prod.case s n res_bind_simps
    using parse_args [OF assms(3), of "[]" "[]"] bare_params [OF assms(3)] by simp
qed

theorem function_call_roundtrip_witness:
  "parseFunctionCall (call_text ''candleCandler'' [WLiteral ''1Min'', WParam ''Price'', WParam ''Sum::Volume'']) =
     Inr (''candleCandler'', [''1Min''], [''Price'', ''Sum::Volume''])"
proof -
  let ?args = "[WLiteral ''1Min'', WParam ''Price'', WParam ''Sum::Volume'']"
  have "trimmed ''candleCandler''" "CHR ''('' \<notin> set ''candleCandler''" "list_all arg_ok ?args" by code_simp+
  from function_call_roundtrip [OF this] show ?thesis by (simp add: literals_of_def params_of_def)
qed

section \<open>A wrong timeframe\<close>

text \<open>What accumulating gives without a duration, when it succeeds with one.\<close>

lemma accum_prices_without_duration:
  assumes "accum_prices loc ops fconv cols ps ca = Inr ca'" "CMap ca' \<noteq> []" "CMap ca = []"
    and "MyCD ca0 = None" "AccumSumNames ca0 = []"
  shows "accum_prices loc ops fconv cols ps ca0 = Inl (Panic ''invalid memory address or nil pointer dereference'')"
proof -
  obtain ts sums rows where r: "cs_GetTime cols = Inr ts" "input_rows ts ps sums = Inr rows"
    "(case MyCD ca of None \<Rightarrow> if rows = [] then Inr ca else Inl (Panic ''invalid memory address or nil pointer dereference'')
      | Some cd \<Rightarrow> Inr (accum_rows loc ops fconv cd rows None ca)) = Inr ca'"
    using assms(1) by (auto simp: accum_prices_def res_bind_Inr)
  from r(3) assms(2,3) have "rows \<noteq> []" by (cases rows) (auto split: option.splits)
  with r(2) have "ts \<noteq> []" "\<not> length ps < length ts" by (auto simp: input_rows_def split: if_splits)
  then show ?thesis using r(1) assms(4,5) by (simp add: accum_prices_def sum_columns_def input_rows_def)
qed

text \<open>
  A tick candler whose timeframe can not be parsed: the error of \<^verbatim>\<open>Init\<close> is dropped, and the data for which the same call with a good timeframe gives candles
  makes the server dereference a null pointer.
\<close>

theorem bad_timeframe_panics:
  assumes "agg_Init env [InitStrings [good]] (TickCandlerA (TickCandler_New\<lparr>cdArgs := am\<rparr>)) = Inr (TickCandlerA ca)"
    and "agg_Accum env cols (TickCandlerA ca) = Inr (TickCandlerA ca')" "CMap ca' \<noteq> []"
    and "CandleDurationFromString bad = None"
  shows "run_prepared env [bad] cols (TickCandlerA (TickCandler_New\<lparr>cdArgs := am\<rparr>)) = Inl (Panic ''invalid memory address or nil pointer dereference'')"
proof -
  let ?new = "TickCandler_New\<lparr>cdArgs := am\<rparr>"
  have new: "MyCD ?new = None" "AccumSumNames ?new = []" by (simp_all add: TickCandler_New_def NewCandler_def)
  have ca: "cdArgs ca = am" "CMap ca = []"
    using assms(1) by (auto simp: Candler_Init_def Let_def res_bind_Inr split: option.splits)
  from assms(2) obtain n price where n: "cs_Len cols = Inr n" "n \<noteq> 0"
      "GetAverageColumnFloat32 (aOps env) (aFconv env) cols (GetMappedColumns am ''CandlePrice'') = Inr price"
      "accum_prices (aLoc env) (aOps env) (aFconv env) cols (map tick price) ca = Inr ca'"
    by (auto simp: TickCandler_Accum_def res_bind_Inr ca(1) split: if_splits)
  have "agg_Accum env cols (TickCandlerA ?new) = Inl (Panic ''invalid memory address or nil pointer dereference'')"
    using n(1-3) accum_prices_without_duration [OF n(4) assms(3) ca(2) new] by (simp add: TickCandler_Accum_def)
  moreover have "agg_Init env [InitStrings [bad]] (TickCandlerA ?new) = Inl (Err ''No suitable timeframe provided'')"
    using assms(4) by (simp add: Candler_Init_def init_string_def)
  ultimately show ?thesis by (simp add: run_prepared_def)
qed

text \<open>One tick with a timeframe of a minute gives a candle, and with one that is no timeframe it panics.\<close>

definition plain_gonum :: gonum where
  "plain_gonum = \<lparr>SubTo = (\<lambda>xs _. xs), big_scores = (\<lambda>_. [])\<rparr>"

definition plain_env :: agg_env where
  "plain_env = \<lparr>aLoc = UTC, aOps = bit_ops, aFconv = (\<lambda>_ _ b. b), aGonum = plain_gonum, aNow = 0, aNames = (\<lambda>names. names)\<rparr>"

definition tick_args :: ArgumentMap where
  "tick_args = fst (PrepareArguments [''Price''] (cdArgs TickCandler_New))"

definition tick_series :: ColumnSeries where
  "tick_series = fst (AddColumn ''Price'' \<lparr>ckind = KFloat32, celems = [[1, 0, 0, 0]]\<rparr>
     (fst (AddColumn ''Epoch'' \<lparr>ckind = KInt64, celems = [le_bytes 8 60]\<rparr> NewColumnSeries)))"

fun tick_candler :: "AggInterface result \<Rightarrow> Candler option" where
  "tick_candler (Inr (TickCandlerA ca)) = Some ca" | "tick_candler _ = None"

theorem bad_timeframe_panics_witness:
  "run_prepared plain_env [''often''] tick_series (TickCandlerA (TickCandler_New\<lparr>cdArgs := tick_args\<rparr>)) =
     Inl (Panic ''invalid memory address or nil pointer dereference'')"
proof -
  let ?agg = "TickCandlerA (TickCandler_New\<lparr>cdArgs := tick_args\<rparr>)"
  have "case tick_candler (agg_Init plain_env [InitStrings [''1Min'']] ?agg) of None \<Rightarrow> False
    | Some ca \<Rightarrow> (case tick_candler (agg_Accum plain_env tick_series (TickCandlerA ca)) of None \<Rightarrow> False | Some ca' \<Rightarrow> \<not> List.null (CMap ca'))"
    by code_simp
  then obtain ca ca' where "agg_Init plain_env [InitStrings [''1Min'']] ?agg = Inr (TickCandlerA ca)"
    "agg_Accum plain_env tick_series (TickCandlerA ca) = Inr (TickCandlerA ca')" "CMap ca' \<noteq> []"
    by (auto elim!: tick_candler.elims split: option.splits)
  moreover have "CandleDurationFromString ''often'' = None" by code_simp
  ultimately show ?thesis by (rule bad_timeframe_panics)
qed

end
