(* ===== verification/AggAccum.thy ===== *)
theory AggAccum
  imports Aggregates Runs Rows
begin

text \<open>
  The aggregation of bars to longer bars (\<^verbatim>\<open>contrib/ondiskagg/aggtrigger\<close>): the functions on columns, the accumulators that apply
  them to slices, and \<^verbatim>\<open>aggregate\<close>, which cuts the rows at the borders of candle windows. The functions exist once for
  every element type; here the type is the kind of the column. A slice never reaches behind the length of its column: the end is at
  most the number of times.
\<close>

section \<open>Functions\<close>

definition fn_first :: "bytes list \<Rightarrow> bytes result" where
  "fn_first values = (case values of [] \<Rightarrow> Inl index_panic | v # _ \<Rightarrow> Inr v)"

definition fn_last :: "bytes list \<Rightarrow> bytes result" where
  "fn_last values = (if values = [] then Inl index_panic else Inr (last values))"

definition fn_max :: "float_ops \<Rightarrow> kind \<Rightarrow> bytes list \<Rightarrow> bytes result" where
  "fn_max ops k values = (case values of [] \<Rightarrow> Inl index_panic | v # vs \<Rightarrow> Inr (scan (\<lambda>val m. go_less ops k m val) v vs))"

definition fn_min :: "float_ops \<Rightarrow> kind \<Rightarrow> bytes list \<Rightarrow> bytes result" where
  "fn_min ops k values = (case values of [] \<Rightarrow> Inl index_panic | v # vs \<Rightarrow> Inr (scan (go_less ops k) v vs))"

text \<open>The checks of a sum: none for \<^verbatim>\<open>float32\<close> and unsigned numbers; for signed numbers a subtraction that itself wraps around.\<close>

definition max_signed :: "kind \<Rightarrow> int" where
  "max_signed k = 2 ^ (8 * kind_size k - 1) - 1"

definition to_kind :: "kind \<Rightarrow> int \<Rightarrow> bytes" where
  "to_kind k i = le_bytes (kind_size k) i"

definition sum_step :: "float_ops \<Rightarrow> kind \<Rightarrow> bytes \<Rightarrow> bytes \<Rightarrow> bytes result" where
  "sum_step ops k s val =
     (if k = KFloat32 then Inr (add32 ops s val)
      else if k = KFloat64 then
        (if less64 ops (sub64 ops (of_int64 ops 2147483647) val) s then Inl (Panic ''integer overflow'') else Inr (add64 ops s val))
      else if signed_kind k \<and> elem_int k s > elem_int k (to_kind k (max_signed k - elem_int k val)) then Inl (Panic ''integer overflow'')
      else Inr (to_kind k (elem_int k s + elem_int k val)))"

fun sum_from :: "float_ops \<Rightarrow> kind \<Rightarrow> bytes \<Rightarrow> bytes list \<Rightarrow> bytes result" where
  "sum_from ops k s [] = Inr s"
| "sum_from ops k s (val # values) = res_bind (sum_step ops k s val) (\<lambda>s. sum_from ops k s values)"

definition fn_sum :: "float_ops \<Rightarrow> kind \<Rightarrow> bytes list \<Rightarrow> bytes result" where
  "fn_sum ops k values = sum_from ops k (zero_value k) values"

section \<open>Accumulators: \<^verbatim>\<open>accum.go\<close>\<close>

record accumParam =
  inputName :: string
  funcName :: string
  outputName :: string

datatype accum_fn = FnFirst | FnMax | FnMin | FnLast | FnSum

text \<open>An accumulator with no function is one of an unknown name; a missing accumulator is the nil that a column of another type or a missing column gives.\<close>

record accumulator =
  ivalues :: column
  iout :: "bytes list"
  ifunc :: "accum_fn option"

definition fn_named :: "string \<Rightarrow> accum_fn option" where
  "fn_named name = map_of [(''first'', FnFirst), (''max'', FnMax), (''min'', FnMin), (''last'', FnLast), (''sum'', FnSum)] name"

definition newAccumulator :: "ColumnSeries \<Rightarrow> accumParam \<Rightarrow> accumulator option" where
  "newAccumulator cs param =
     (let c = column_or_nil cs (inputName param)
      in case fn_named (funcName param) of
           None \<Rightarrow> Some \<lparr>ivalues = c, iout = [], ifunc = None\<rparr>
         | Some f \<Rightarrow> if int_kind (ckind c) \<or> float_kind (ckind c) then Some \<lparr>ivalues = c, iout = [], ifunc = Some f\<rparr> else None)"

definition newAccumGroup :: "ColumnSeries \<Rightarrow> accumParam list \<Rightarrow> accumulator option list" where
  "newAccumGroup cs params = map (newAccumulator cs) params"

definition call_fn :: "float_ops \<Rightarrow> accum_fn \<Rightarrow> kind \<Rightarrow> bytes list \<Rightarrow> bytes result" where
  "call_fn ops f k values = (case f of
     FnFirst \<Rightarrow> fn_first values | FnMax \<Rightarrow> fn_max ops k values | FnMin \<Rightarrow> fn_min ops k values | FnLast \<Rightarrow> fn_last values
   | FnSum \<Rightarrow> fn_sum ops k values)"

definition nil_accumulator :: go_err where
  "nil_accumulator = Panic ''invalid memory address or nil pointer dereference''"

definition accumulator_apply :: "float_ops \<Rightarrow> nat \<Rightarrow> nat \<Rightarrow> accumulator option \<Rightarrow> accumulator option result" where
  "accumulator_apply ops start end ac = (case ac of
      None \<Rightarrow> Inl nil_accumulator
    | Some ac \<Rightarrow> (case ifunc ac of
        None \<Rightarrow> Inl (Panic ''cannot apply'')
      | Some f \<Rightarrow>
          if end < start \<or> length (celems (ivalues ac)) < end then Inl (Panic ''slice bounds out of range'')
          else res_bind (call_fn ops f (ckind (ivalues ac)) (drop start (take end (celems (ivalues ac)))))
            (\<lambda>v. Inr (Some (ac\<lparr>iout := iout ac @ [v]\<rparr>)))))"

definition group_apply :: "float_ops \<Rightarrow> nat \<Rightarrow> nat \<Rightarrow> accumulator option list \<Rightarrow> accumulator option list result" where
  "group_apply ops start end ag = res_map (accumulator_apply ops start end) ag"

definition accum_addColumns :: "(accumParam \<times> accumulator option) list \<Rightarrow> ColumnSeries \<Rightarrow> ColumnSeries result" where
  "accum_addColumns pas cs =
     (if None \<in> snd ` set pas then Inl nil_accumulator
      else Inr (fold (\<lambda>(p, ac) cs. case ac of None \<Rightarrow> cs
        | Some ac \<Rightarrow> fst (AddColumn (outputName p) \<lparr>ckind = ckind (ivalues ac), celems = iout ac\<rparr> cs)) pas cs))"

section \<open>\<^verbatim>\<open>aggregate\<close>\<close>

definition agg_params :: "ColumnSeries \<Rightarrow> accumParam list" where
  "agg_params cs =
     [\<lparr>inputName = ''Open'', funcName = ''first'', outputName = ''Open''\<rparr>, \<lparr>inputName = ''High'', funcName = ''max'', outputName = ''High''\<rparr>,
      \<lparr>inputName = ''Low'', funcName = ''min'', outputName = ''Low''\<rparr>, \<lparr>inputName = ''Close'', funcName = ''last'', outputName = ''Close''\<rparr>] @
     (if Exists ''Volume'' cs then [\<lparr>inputName = ''Volume'', funcName = ''sum'', outputName = ''Volume''\<rparr>] else [])"

text \<open>The loop over the times; \<open>i\<close> is the index of the next one.\<close>

fun agg_loop :: "location \<Rightarrow> float_ops \<Rightarrow> CandleDuration \<Rightarrow> instant list \<Rightarrow> nat \<Rightarrow> instant \<Rightarrow> nat \<Rightarrow> int list \<Rightarrow> accumulator option list
    \<Rightarrow> (int list \<times> accumulator option list) result" where
  "agg_loop loc ops cd [] i groupKey groupStart outEpoch ag =
     res_bind (group_apply ops groupStart i ag) (\<lambda>ag. Inr (outEpoch @ [Unix groupKey], ag))"
| "agg_loop loc ops cd (t # ts) i groupKey groupStart outEpoch ag =
     (if \<not> IsWithin loc cd t groupKey
      then res_bind (group_apply ops groupStart i ag) (agg_loop loc ops cd ts (Suc i) (Truncate loc cd t) i (outEpoch @ [Unix groupKey]))
      else agg_loop loc ops cd ts (Suc i) groupKey groupStart outEpoch ag)"

definition aggregate :: "location \<Rightarrow> float_ops \<Rightarrow> ColumnSeries \<Rightarrow> TimeBucketKey \<Rightarrow> ColumnSeries result" where
  "aggregate loc ops cs tbk =
     res_bind (GetItemInCategory tbk ''Timeframe'') (\<lambda>tf.
       let params = agg_params cs; ag = newAccumGroup cs params
       in res_bind (cs_GetTime cs) (\<lambda>ts. case (ts, CandleDurationFromString tf) of
            ([], _) \<Rightarrow> Inl index_panic
          | (_, None) \<Rightarrow> Inl nil_accumulator
          | (t # _, Some cd) \<Rightarrow>
              res_bind (agg_loop loc ops cd ts 0 (Truncate loc cd t) 0 [] ag) (\<lambda>(outEpoch, ag).
                accum_addColumns (zip params ag) (fst (AddColumn ''Epoch'' \<lparr>ckind = KInt64, celems = map (le_bytes 8) outEpoch\<rparr> NewColumnSeries)))))"

section \<open>Windows\<close>

fun apply_runs :: "float_ops \<Rightarrow> nat list list \<Rightarrow> accumulator option list \<Rightarrow> accumulator option list result" where
  "apply_runs ops [] ag = Inr ag"
| "apply_runs ops (g # gs) ag = res_bind (group_apply ops (hd g) (Suc (last g)) ag) (apply_runs ops gs)"

text \<open>The rows of one window, by their indices.\<close>

definition windows :: "CandleDuration \<Rightarrow> instant list \<Rightarrow> nat \<Rightarrow> nat list list" where
  "windows cd ts start = runs (\<lambda>i. Truncate UTC cd (ts ! i)) [start..<length ts]"

definition starts :: "CandleDuration \<Rightarrow> instant list \<Rightarrow> nat list list \<Rightarrow> instant list" where
  "starts cd ts gs = map (\<lambda>g. Truncate UTC cd (ts ! hd g)) gs"

lemma res_bind_assoc: "res_bind (res_bind r f) g = res_bind r (\<lambda>x. res_bind (f x) g)"
  by (cases r) simp_all

lemma agg_loop_windows:
  assumes cd: "plain_candle cd"
  shows "rest = drop i ts \<Longrightarrow> i \<le> length ts \<Longrightarrow> start < i \<Longrightarrow> \<forall>j \<in> {start..<i}. Truncate UTC cd (ts ! j) = key \<Longrightarrow>
    agg_loop UTC ops cd rest i key start out ag =
      res_bind (apply_runs ops (windows cd ts start) ag) (\<lambda>ag. Inr (out @ map Unix (starts cd ts (windows cd ts start)), ag))"
proof (induction rest arbitrary: i start key out ag)
  case Nil
  then have "i = length ts" by simp
  moreover have "windows cd ts start = [[start..<length ts]]"
    unfolding windows_def using Nil(3,4) \<open>i = length ts\<close> by (intro runs_single [where a = key]) auto
  moreover have "Suc (length ts - Suc 0) = length ts" using Nil(3) \<open>i = length ts\<close> by simp
  ultimately show ?case using Nil(3,4) by (simp add: starts_def res_bind_assoc)
next
  case (Cons t rest)
  have lt: "i < length ts" using Cons.prems(1) drop_all [of ts i] by (cases "i < length ts") auto
  then have "ts ! i # drop (Suc i) ts = t # rest" using Cons.prems(1) by (simp only: Cons_nth_drop_Suc)
  then have i: "i < length ts" "t = ts ! i" "rest = drop (Suc i) ts" using lt by auto
  have key: "key = Truncate UTC cd (ts ! start)" using Cons.prems(3,4) by simp
  have w: "IsWithin UTC cd t key \<longleftrightarrow> Truncate UTC cd t = key" using IsWithin_Truncate [OF cd, of t "ts ! start"] key by simp
  show ?case
  proof (cases "Truncate UTC cd t = key")
    case True
    then have "\<forall>j \<in> {start..<Suc i}. Truncate UTC cd (ts ! j) = key" using Cons.prems(4) i(2) by (auto simp: less_Suc_eq)
    from Cons.IH [OF i(3) _ _ this] i(1) Cons.prems(3) w True show ?thesis by simp
  next
    case False
    have "[start..<length ts] = [start..<i] @ i # [Suc i..<length ts]"
      using Cons.prems(3) i(1) by (metis le_add_diff_inverse less_imp_le upt_add_eq_append upt_conv_Cons)
    moreover have "runs (\<lambda>i. Truncate UTC cd (ts ! i)) ([start..<i] @ i # [Suc i..<length ts]) =
        [start..<i] # runs (\<lambda>i. Truncate UTC cd (ts ! i)) (i # [Suc i..<length ts])"
      using Cons.prems(3,4) False i(2) by (intro runs_open [where a = key]) auto
    ultimately have g: "windows cd ts start = [start..<i] # windows cd ts i" using i(1) by (simp add: windows_def upt_conv_Cons)
    have IH: "agg_loop UTC ops cd rest (Suc i) (Truncate UTC cd t) i (out @ [Unix key]) ag =
        res_bind (apply_runs ops (windows cd ts i) ag) (\<lambda>ag. Inr (out @ [Unix key] @ map Unix (starts cd ts (windows cd ts i)), ag))" for ag
      using Cons.IH [OF i(3), of i "Truncate UTC cd t"] i by simp
    show ?thesis using w False g Cons.prems(3) IH key by (cases "group_apply ops start i ag") (simp_all add: starts_def)
  qed
qed

text \<open>A window is an interval of indices, and the slice that an accumulator takes has its values.\<close>

lemma window_upt:
  assumes "g \<in> set (windows cd ts 0)"
  shows "g = [hd g..<Suc (last g)] \<and> hd g \<le> last g \<and> last g < length ts"
proof -
  obtain gs gs' where gs: "windows cd ts 0 = gs @ g # gs'" using split_list [OF assms] by blast
  have ne: "g \<noteq> []" using runs_member assms unfolding windows_def by blast
  have c: "[0..<length ts] = concat gs @ g @ concat gs'"
    using concat_runs [of "\<lambda>i. Truncate UTC cd (ts ! i)" "[0..<length ts]"] gs by (simp add: windows_def)
  let ?a = "length (concat gs)" and ?b = "length (concat gs) + length g"
  have le: "?b \<le> length ts" using arg_cong [OF c, of length] by simp
  have "g = take (length g) (drop ?a [0..<length ts])" unfolding c by simp
  then have g: "g = [?a..<?b]" using le by (simp add: take_upt)
  have "?a < ?b" using ne by simp
  then have "hd [?a..<?b] = ?a" "last [?a..<?b] = ?b - 1" by simp_all
  with g have "hd g = ?a" "last g = ?b - 1" by argo+
  moreover from this have "Suc (last g) = ?b" using \<open>?a < ?b\<close> by linarith
  ultimately show ?thesis using g \<open>?a < ?b\<close> le by (metis Suc_le_lessD less_Suc_eq_le)
qed

lemma window_slice:
  assumes "g \<in> set (windows cd ts 0)" "length vs = length ts"
  shows "drop (hd g) (take (Suc (last g)) vs) = map ((!) vs) g"
proof -
  note w = window_upt [OF assms(1)]
  have "map ((!) vs) [hd g..<Suc (last g)] = drop (hd g) (map ((!) vs) [0..<Suc (last g)])" by (simp only: drop_map drop_upt) simp
  also have "map ((!) vs) [0..<Suc (last g)] = take (Suc (last g)) vs" using w assms(2)
    by (intro nth_equalityI) (simp_all only: length_map length_take length_upt nth_map nth_upt nth_take, simp_all)
  finally show ?thesis using w by metis
qed

text \<open>What a parameter gives for a window.\<close>

definition param_value :: "float_ops \<Rightarrow> ColumnSeries \<Rightarrow> accumParam \<Rightarrow> nat list \<Rightarrow> bytes result" where
  "param_value ops cs p g = (case fn_named (funcName p) of
      None \<Rightarrow> Inl (Panic ''cannot apply'')
    | Some f \<Rightarrow> call_fn ops f (ckind (column_or_nil cs (inputName p))) (map ((!) (celems (column_or_nil cs (inputName p)))) g))"

definition param_ok :: "float_ops \<Rightarrow> ColumnSeries \<Rightarrow> nat list list \<Rightarrow> nat \<Rightarrow> accumParam \<Rightarrow> bool" where
  "param_ok ops cs gs n p \<longleftrightarrow>
     (let c = column_or_nil cs (inputName p)
      in (int_kind (ckind c) \<or> float_kind (ckind c)) \<and> length (celems c) = n \<and> (\<forall>g \<in> set gs. is_ok (param_value ops cs p g)))"

definition with_out :: "ColumnSeries \<Rightarrow> accumParam \<Rightarrow> bytes list \<Rightarrow> accumulator option" where
  "with_out cs p vs = Some \<lparr>ivalues = column_or_nil cs (inputName p), iout = vs, ifunc = fn_named (funcName p)\<rparr>"

lemma apply_window:
  assumes "g \<in> set (windows cd ts 0)" "param_ok ops cs (windows cd ts 0) (length ts) p"
  shows "accumulator_apply ops (hd g) (Suc (last g)) (with_out cs p vs) = Inr (with_out cs p (vs @ [projr (param_value ops cs p g)]))"
proof -
  have l: "length (celems (column_or_nil cs (inputName p))) = length ts" using assms(2) by (auto simp: param_ok_def Let_def)
  have "is_ok (param_value ops cs p g)" using assms by (auto simp: param_ok_def Let_def)
  then obtain v where "param_value ops cs p g = Inr v" by (auto elim: is_ok.elims)
  moreover have "\<not> Suc (last g) < hd g" "\<not> length ts < Suc (last g)" using window_upt [OF assms(1)] by linarith+
  ultimately show ?thesis using window_slice [OF assms(1) l] l by (simp add: accumulator_apply_def with_out_def param_value_def split: option.splits)
qed

lemma apply_runs_windows:
  assumes "set gs \<subseteq> set (windows cd ts 0)" "\<forall>p \<in> set ps. param_ok ops cs (windows cd ts 0) (length ts) p"
  shows "apply_runs ops gs (map (\<lambda>p. with_out cs p (vs p)) ps) = Inr (map (\<lambda>p. with_out cs p (vs p @ map (projr \<circ> param_value ops cs p) gs)) ps)"
  using assms(1)
proof (induction gs arbitrary: vs)
  case (Cons g gs)
  have "group_apply ops (hd g) (Suc (last g)) (map (\<lambda>p. with_out cs p (vs p)) ps) =
      Inr (map (\<lambda>p. with_out cs p (vs p @ [projr (param_value ops cs p g)])) ps)"
    unfolding group_apply_def using apply_window [of g cd ts ops cs] assms(2) Cons.prems by (induction ps) simp_all
  then show ?case using Cons.IH [of "\<lambda>p. vs p @ [projr (param_value ops cs p g)]"] Cons.prems by simp
qed simp

lemma Truncate_mono: "plain_candle cd \<Longrightarrow> t \<le> s \<Longrightarrow> Truncate UTC cd t \<le> Truncate UTC cd s"
proof -
  assume cd: "plain_candle cd" and "t \<le> s"
  have w: "0 < window_length cd" using cd by (auto simp: window_length_def plain_candle_def)
  have "t - (t + c) mod d = (t + c) div d * d - c" for t c d :: int using minus_mod_eq_div_mult [of "t + c" d] by linarith
  then show ?thesis using w \<open>t \<le> s\<close> by (simp add: Truncate_floor [OF cd] zdiv_mono1)
qed

lemma starts_strict: "plain_candle cd \<Longrightarrow> sorted ts \<Longrightarrow> sorted_wrt (<) (starts cd ts (windows cd ts 0))"
proof -
  assume "plain_candle cd" "sorted ts"
  then have "sorted (map (\<lambda>i. Truncate UTC cd (ts ! i)) [0..<length ts])"
    by (auto simp: sorted_iff_nth_mono intro!: Truncate_mono)
  from runs_strict [OF this] show ?thesis by (simp add: starts_def windows_def comp_def)
qed

text \<open>Columns added under new names.\<close>

lemma fold_AddColumn:
  assumes "distinct (map fst ncs)" "\<forall>n \<in> fst ` set ncs. \<not> Exists n cs"
  shows "map_of (columns (fold (\<lambda>(n, c) cs. fst (AddColumn n c cs)) ncs cs)) n =
    (case map_of ncs n of Some c \<Rightarrow> Some c | None \<Rightarrow> map_of (columns cs) n)"
  using assms
proof (induction ncs arbitrary: cs)
  case (Cons nc ncs)
  obtain m c where nc: "nc = (m, c)" by fastforce
  have new: "\<not> Exists m cs" using Cons.prems(2) nc by simp
  have cols: "columns (fst (AddColumn m c cs)) = AList.update m c (columns cs)" using new by (simp add: AddColumn_def)
  have "\<forall>n \<in> fst ` set ncs. \<not> Exists n (fst (AddColumn m c cs))"
    using Cons.prems nc cols by (auto simp: Exists_def update_conv' image_iff)
  moreover have "map_of ncs m = None" using Cons.prems(1) nc by (simp add: map_of_eq_None_iff)
  ultimately show ?case using Cons.IH Cons.prems(1) nc cols by (cases "n = m") (simp_all add: update_conv' split: option.split)
qed simp

text \<open>
  The bars of a series: numeric columns of the length of the times, and volumes whose sums do not run over.
\<close>

definition bars_ok :: "float_ops \<Rightarrow> ColumnSeries \<Rightarrow> CandleDuration \<Rightarrow> instant list \<Rightarrow> bool" where
  "bars_ok ops cs cd ts \<longleftrightarrow>
     (\<forall>p \<in> set (agg_params cs). (let c = column_or_nil cs (inputName p) in (int_kind (ckind c) \<or> float_kind (ckind c)) \<and> length (celems c) = length ts)) \<and>
     (let c = column_or_nil cs ''Volume''
      in Exists ''Volume'' cs \<longrightarrow> (\<forall>g \<in> set (windows cd ts 0). is_ok (fn_sum ops (ckind c) (map ((!) (celems c)) g))))"

lemma fn_named_simps [simp]:
  "fn_named ''first'' = Some FnFirst" "fn_named ''max'' = Some FnMax" "fn_named ''min'' = Some FnMin" "fn_named ''last'' = Some FnLast"
  "fn_named ''sum'' = Some FnSum"
  by (simp_all add: fn_named_def)

lemma price_fn_ok: "f \<noteq> FnSum \<Longrightarrow> vs \<noteq> [] \<Longrightarrow> is_ok (call_fn ops f k vs)"
  by (cases vs; cases f) (simp_all add: call_fn_def fn_first_def fn_last_def fn_max_def fn_min_def)

lemma agg_param_cases:
  "p \<in> set (agg_params cs) \<Longrightarrow> (\<exists>f. f \<noteq> FnSum \<and> fn_named (funcName p) = Some f) \<or>
     inputName p = ''Volume'' \<and> fn_named (funcName p) = Some FnSum \<and> Exists ''Volume'' cs"
  by (auto simp: agg_params_def split: if_splits)

lemma bars_param_ok:
  assumes "bars_ok ops cs cd ts" "p \<in> set (agg_params cs)"
  shows "param_ok ops cs (windows cd ts 0) (length ts) p"
proof -
  have "is_ok (param_value ops cs p g)" if g: "g \<in> set (windows cd ts 0)" for g
  proof -
    have "g \<noteq> []" using g runs_member unfolding windows_def by blast
    with agg_param_cases [OF assms(2)] show ?thesis
    proof (elim disjE exE conjE)
      assume "inputName p = ''Volume''" "fn_named (funcName p) = Some FnSum" "Exists ''Volume'' cs"
      then show ?thesis using assms(1) g by (simp add: param_value_def call_fn_def bars_ok_def Let_def)
    qed (simp add: param_value_def price_fn_ok)
  qed
  then show ?thesis using assms by (simp add: param_ok_def bars_ok_def Let_def)
qed

lemma is_ok_projr: "is_ok r \<Longrightarrow> Inr (projr r) = r"
  by (cases r) simp_all

lemma aggregate_loop:
  assumes "plain_candle cd" "bars_ok ops cs cd ts" "ts = t # rest"
  shows "agg_loop UTC ops cd ts 0 (Truncate UTC cd t) 0 [] (newAccumGroup cs (agg_params cs)) =
    Inr (map Unix (starts cd ts (windows cd ts 0)),
      map (\<lambda>p. with_out cs p (map (projr \<circ> param_value ops cs p) (windows cd ts 0))) (agg_params cs))"
proof -
  have "newAccumulator cs p = with_out cs p []" if "p \<in> set (agg_params cs)" for p
    using agg_param_cases [OF that] assms(2) that by (auto simp: newAccumulator_def with_out_def bars_ok_def Let_def)
  then have new: "newAccumGroup cs (agg_params cs) = map (\<lambda>p. with_out cs p []) (agg_params cs)" by (simp add: newAccumGroup_def)
  have first: "agg_loop UTC ops cd ts 0 (Truncate UTC cd t) 0 [] ag = agg_loop UTC ops cd rest 1 (Truncate UTC cd t) 0 [] ag" for ag
    using assms(3) IsWithin_Truncate [OF assms(1), of t t] by simp
  have "agg_loop UTC ops cd rest 1 (Truncate UTC cd t) 0 [] ag =
      res_bind (apply_runs ops (windows cd ts 0) ag) (\<lambda>ag. Inr (map Unix (starts cd ts (windows cd ts 0)), ag))" for ag
    using agg_loop_windows [OF assms(1), of rest 1 ts 0 "Truncate UTC cd t" ops "[]" ag] assms(3) by simp
  then show ?thesis unfolding first new using apply_runs_windows [of "windows cd ts 0" cd ts "agg_params cs" ops cs "\<lambda>_. []"]
      bars_param_ok [OF assms(2)] by simp
qed


text \<open>Three bars of a minute; the first two are in one window of five minutes.\<close>

definition minute_bars :: ColumnSeries where
  "minute_bars =
     (let col = (\<lambda>xs. \<lparr>ckind = KInt32, celems = map (le_bytes 4) xs\<rparr>)
      in \<lparr>columns = [(''Epoch'', \<lparr>ckind = KInt64, celems = map (le_bytes 8) [60, 240, 300]\<rparr>), (''Open'', col [5, 6, 7]), (''High'', col [9, 8, 7]),
           (''Low'', col [4, 3, 7]), (''Close'', col [6, 7, 7])],
         orderedNames = [''Epoch'', ''Open'', ''High'', ''Low'', ''Close''], candleAttributes = 0, nameIncrement = []\<rparr>)"


section \<open>Sums of volumes\<close>

lemma elem_int_to_kind:
  assumes "signed_kind k" "- (2 ^ (8 * kind_size k - 1)) \<le> i" "i \<le> max_signed k"
  shows "elem_int k (to_kind k i) = i"
proof -
  have "i mod 256 ^ kind_size k = take_bit (8 * kind_size k) i" by (simp add: take_bit_eq_mod power_mult)
  moreover have "0 < kind_size k" using assms(1) by (auto simp: signed_kind_def)
  then have "\<not> 8 * kind_size k \<le> 8 * kind_size k - 1" by linarith
  moreover have "signed_take_bit (8 * kind_size k - 1) i = i" using assms(2,3)
    by (intro signed_take_bit_int_eq_self) (auto simp: max_signed_def)
  ultimately show ?thesis using assms(1)
    by (simp add: elem_int_def to_kind_def le_uint_le_bytes signed_take_bit_take_bit)
qed

lemma elem_int_bounds:
  assumes "signed_kind k"
  shows "- (2 ^ (8 * kind_size k - 1)) \<le> elem_int k b" "elem_int k b \<le> max_signed k"
  using assms signed_take_bit_int_greater_eq_minus_exp [of "8 * kind_size k - 1" "le_uint b"]
    signed_take_bit_int_less_exp [of "8 * kind_size k - 1" "le_uint b"]
  by (simp_all add: elem_int_def max_signed_def)

lemma sum_from_exact:
  assumes "signed_kind k" "0 \<le> elem_int k s" "\<forall>v \<in> set vs. 0 \<le> elem_int k v" "s = to_kind k (elem_int k s)"
  defines "tot \<equiv> elem_int k s + sum_list (map (elem_int k) vs)"
  shows "sum_from ops k s vs = (if tot \<le> max_signed k then Inr (to_kind k tot) else Inl (Panic ''integer overflow''))"
  using assms(2-4) unfolding tot_def
proof (induction vs arbitrary: s)
  case Nil
  then show ?case using elem_int_bounds [OF assms(1)] by simp
next
  case (Cons v vs)
  have v: "0 \<le> elem_int k v" "0 \<le> sum_list (map (elem_int k) vs)" using Cons.prems(2) sum_list_nonneg [of "map (elem_int k) vs"] by auto
  have m: "elem_int k (to_kind k (max_signed k - elem_int k v)) = max_signed k - elem_int k v"
    using v(1) elem_int_bounds [OF assms(1), of v] by (intro elem_int_to_kind [OF assms(1)]) (auto simp: max_signed_def)
  have f: "k \<noteq> KFloat32" "k \<noteq> KFloat64" using assms(1) by (auto simp: signed_kind_def)
  show ?case
  proof (cases "elem_int k s + elem_int k v \<le> max_signed k")
    case True
    then have e: "elem_int k (to_kind k (elem_int k s + elem_int k v)) = elem_int k s + elem_int k v"
      using v(1) Cons.prems(1) by (intro elem_int_to_kind [OF assms(1)]) (auto intro: order_trans [of _ 0])
    have "sum_step ops k s v = Inr (to_kind k (elem_int k s + elem_int k v))" using True m f by (simp add: sum_step_def)
    then show ?thesis using Cons.IH [of "to_kind k (elem_int k s + elem_int k v)"] e v Cons.prems(1,2) by (simp add: add.assoc)
  next
    case False
    then show ?thesis using m f v assms(1) by (simp add: sum_step_def)
  qed
qed

text \<open>
  C31: The sum of non-negative signed integers is exact as long as it fits the width of the column, at every width, and the function panics in every other
  case; but it also panics on any single negative value, because the subtraction of its overflow check wraps around.
\<close>

theorem volume_sum_checked:
  assumes "signed_kind k"
  shows "(list_all (\<lambda>v. 0 \<le> elem_int k v) vs \<longrightarrow> fn_sum ops k vs =
      (if sum_list (map (elem_int k) vs) \<le> max_signed k then Inr (to_kind k (sum_list (map (elem_int k) vs))) else Inl (Panic ''integer overflow''))) \<and>
    (elem_int k v < 0 \<longrightarrow> fn_sum ops k (v # vs) = Inl (Panic ''integer overflow''))"
proof -
  have z: "zero_value k = to_kind k 0" 
  proof -
    have "replicate n 0 = le_bytes n 0" for n by (induction n) simp_all
    then show ?thesis by (simp add: zero_value_def to_kind_def)
  qed
  have e: "elem_int k (to_kind k 0) = 0" by (rule elem_int_to_kind [OF assms]) (simp_all add: max_signed_def)
  have "fn_sum ops k (v # vs) = Inl (Panic ''integer overflow'')" if v: "elem_int k v < 0"
  proof -
    let ?m = "max_signed k - elem_int k v"
    have k: "0 < kind_size k" using assms by (auto simp: signed_kind_def)
    have p: "(2 :: int) * 2 ^ (8 * kind_size k - 1) = 256 ^ kind_size k" using k by (simp add: power_mult flip: power_Suc)
    have "to_kind k ?m = to_kind k (?m - 256 ^ kind_size k)" unfolding to_kind_def
      using le_bytes_mod [of "kind_size k" ?m] le_bytes_mod [of "kind_size k" "?m - 256 ^ kind_size k"] by simp
    also have "elem_int k \<dots> = ?m - 256 ^ kind_size k"
      using v elem_int_bounds [OF assms, of v] p by (intro elem_int_to_kind [OF assms]) (auto simp: max_signed_def)
    finally have "elem_int k (to_kind k ?m) < 0" using v elem_int_bounds [OF assms, of v] p by (simp add: max_signed_def)
    moreover have "k \<noteq> KFloat32" "k \<noteq> KFloat64" using assms by (auto simp: signed_kind_def)
    ultimately show ?thesis using assms z e by (simp add: fn_sum_def sum_step_def)
  qed
  then show ?thesis using sum_from_exact [OF assms, of "to_kind k 0" vs ops] z e by (simp add: fn_sum_def list_all_iff)
qed

theorem volume_sum_checked_witness:
  "fn_sum bit_ops KInt32 [le_bytes 4 2147483647, le_bytes 4 1] = Inl (Panic ''integer overflow'') \<and>
   fn_sum bit_ops KInt32 [le_bytes 4 (- 1)] = Inl (Panic ''integer overflow'')"
proof -
  have e: "elem_int KInt32 (le_bytes 4 2147483647) = 2147483647" "elem_int KInt32 (le_bytes 4 1) = 1" "elem_int KInt32 (le_bytes 4 (- 1)) = - 1"
    "signed_kind KInt32" "max_signed KInt32 = 2147483647" by code_simp+
  then show ?thesis
    using volume_sum_checked [OF e(4), of "[le_bytes 4 2147483647, le_bytes 4 1]" bit_ops] volume_sum_checked [OF e(4), of "[]" bit_ops "le_bytes 4 (- 1)"]
    by simp
qed

end
