(* ===== verification/Calendar.thy ===== *)
theory Calendar
  imports Timeframe
begin

text \<open>
  The market calendar (\<^verbatim>\<open>contrib/calendar/calendar.go\<close>), which filters bars by market hours: the Julian day number that is the key of
  special days, a calendar from its description, market days, opening hours and closing times. The zone of a calendar and the zone of the
  instant that is asked for are arguments. Numbers of a time of day are within 64 bits.
\<close>

section \<open>Model\<close>

datatype MarketState = Closed | EarlyClose

record Time =
  hour :: int
  minute :: int
  second :: int

record Calendar =
  days :: "(int \<times> MarketState) list"
  tz :: location
  openTime :: Time
  closeTime :: Time
  earlyCloseTime :: Time

record calendarJson =
  NonTradingDays :: "string list"
  EarlyCloses :: "string list"
  cjTimezone :: string
  cjOpenTime :: string
  cjCloseTime :: string
  cjEarlyCloseTime :: string

text \<open>The formula of \<^verbatim>\<open>jd\<close>, with the division of Go, which rounds towards zero.\<close>

definition jd_of :: "int \<times> int \<times> int \<Rightarrow> int" where
  "jd_of ymd = (case ymd of (i, j, k) \<Rightarrow>
     k - 32075 + 1461 * (i + 4800 + (j - 14) sdiv 12) sdiv 4 + 367 * (j - 2 - (j - 14) sdiv 12 * 12) sdiv 12
       - 3 * ((i + 4900 + (j - 14) sdiv 12) sdiv 100) sdiv 4)"

definition jd :: "location \<Rightarrow> instant \<Rightarrow> int" where
  "jd loc t = jd_of (civil loc t)"

definition atoi_value :: "string \<Rightarrow> int" where
  "atoi_value s = (case ParseInt s 64 of None \<Rightarrow> 0 | Some n \<Rightarrow> n)"

definition ParseTime :: "string \<Rightarrow> Time result" where
  "ParseTime tstr = (case Split tstr '':'' of
      h # m # s # _ \<Rightarrow> Inr \<lparr>hour = atoi_value h, minute = atoi_value m, second = atoi_value s\<rparr>
    | _ \<Rightarrow> Inl (Panic ''index out of range''))"

text \<open>
  \<^verbatim>\<open>time.Parse("2006-01-02", s)\<close>: four, two and two digits, a month and a day of this month. An error gives the zero time, the first day of year 1.
\<close>

definition date_number :: "string \<Rightarrow> int" where
  "date_number ds = foldl (\<lambda>n c. 10 * n + (case digit_val c of Some d \<Rightarrow> int d | None \<Rightarrow> 0)) 0 ds"

definition parse_date :: "string \<Rightarrow> instant" where
  "parse_date s =
     (let y = date_number (take 4 s); m = date_number (take 2 (drop 5 s)); d = date_number (drop 8 s)
      in if length s = 10 \<and> s ! 4 = CHR ''-'' \<and> s ! 7 = CHR ''-'' \<and> list_all is_digit (take 4 s @ take 2 (drop 5 s) @ drop 8 s) \<and>
           1 \<le> m \<and> m \<le> 12 \<and> 1 \<le> d \<and> d \<le> month_lengths (leap y) ! nat (m - 1)
         then midnight UTC y m d else - 719162 * Day)"

text \<open>\<^verbatim>\<open>New\<close> on the fields that \<^verbatim>\<open>json.Unmarshal\<close> has read; \<open>load\<close> is \<^verbatim>\<open>time.LoadLocation\<close>.\<close>

definition mark_days :: "MarketState \<Rightarrow> string list \<Rightarrow> (int \<times> MarketState) list \<Rightarrow> (int \<times> MarketState) list" where
  "mark_days state = fold (\<lambda>dateString. AList.update (jd UTC (parse_date dateString)) state)"

definition Calendar_New :: "(string \<Rightarrow> location) \<Rightarrow> calendarJson \<Rightarrow> Calendar result" where
  "Calendar_New load cmap =
     res_bind (ParseTime (cjOpenTime cmap)) (\<lambda>ot. res_bind (ParseTime (cjCloseTime cmap)) (\<lambda>ct. res_bind (ParseTime (cjEarlyCloseTime cmap)) (\<lambda>et.
       Inr \<lparr>days = mark_days EarlyClose (EarlyCloses cmap) (mark_days Closed (NonTradingDays cmap) []),
         tz = load (cjTimezone cmap), openTime = ot, closeTime = ct, earlyCloseTime = et\<rparr>)))"

text \<open>Day 0 is a Monday; Sunday is 0.\<close>

definition Weekday :: "location \<Rightarrow> instant \<Rightarrow> int" where
  "Weekday loc t = (local_day loc t + 1) mod 7"

definition weekend :: "location \<Rightarrow> instant \<Rightarrow> bool" where
  "weekend loc t \<longleftrightarrow> Weekday loc t = 6 \<or> Weekday loc t = 0"

definition IsMarketDay :: "location \<Rightarrow> Calendar \<Rightarrow> instant \<Rightarrow> bool" where
  "IsMarketDay loc cal t =
     (if weekend loc t then False
      else case map_of (days cal) (jd loc t) of Some state \<Rightarrow> state \<noteq> Closed | None \<Rightarrow> True)"

text \<open>\<^verbatim>\<open>time.Date\<close> of a date and a time of day in the zone of the calendar.\<close>

definition time_on :: "location \<Rightarrow> int \<times> int \<times> int \<Rightarrow> Time \<Rightarrow> instant" where
  "time_on loc ymd ot = (case ymd of (y, m, d) \<Rightarrow>
     wall_to_unix loc ((days_before_year y - 719162 + days_before_month (leap y) m + d - 1) * 86400 + hour ot * 3600 + minute ot * 60 + second ot) * Second)"

definition IsMarketOpen :: "location \<Rightarrow> Calendar \<Rightarrow> instant \<Rightarrow> bool" where
  "IsMarketOpen loc cal t =
     (if weekend loc t then False
      else
        let open = time_on (tz cal) (civil loc t) (openTime cal)
        in case map_of (days cal) (jd loc t) of
             Some EarlyClose \<Rightarrow> let close = time_on (tz cal) (civil loc t) (earlyCloseTime cal) in \<not> (t < open \<or> t = close \<or> close < t)
           | Some Closed \<Rightarrow> False
           | None \<Rightarrow> let close = time_on (tz cal) (civil loc t) (closeTime cal) in \<not> (t < open \<or> t = close \<or> close < t))"

definition EpochIsMarketOpen :: "Calendar \<Rightarrow> int \<Rightarrow> bool" where
  "EpochIsMarketOpen cal epoch = IsMarketOpen (tz cal) cal (unix_time epoch 0)"

text \<open>The last statement of \<^verbatim>\<open>MarketClose\<close> returns nil and so drops the value of the named result.\<close>

definition MarketClose :: "location \<Rightarrow> Calendar \<Rightarrow> instant \<Rightarrow> instant option" where
  "MarketClose loc cal t =
     (let mktClose = (case map_of (days cal) (jd loc t) of
            Some EarlyClose \<Rightarrow> Some (time_on (tz cal) (civil loc t) (earlyCloseTime cal))
          | Some Closed \<Rightarrow> None
          | None \<Rightarrow> None)
      in None)"

definition EpochMarketClose :: "Calendar \<Rightarrow> int \<Rightarrow> instant option" where
  "EpochMarketClose cal epoch = MarketClose (tz cal) cal (unix_time epoch 0)"

definition Tz :: "Calendar \<Rightarrow> location" where "Tz cal = tz cal"

section \<open>The day number\<close>

lemma three_quarters: "3 * (c + 49) div 4 = c - c div 4 + (36 :: int)"
proof -
  have "3 * (4 * q + r + 49) div 4 = 3 * q + (3 * r + 147) div 4" for q r :: int by (simp add: algebra_simps)
  from this [of "c div 4" "c mod 4"] have "3 * (c + 49) div 4 = 3 * (c div 4) + (3 * (c mod 4) + 147) div 4" by simp
  moreover have "c mod 4 \<in> {0, 1, 2, 3}" using pos_mod_bound [of 4 c] pos_mod_sign [of 4 c] by (simp add: insert_iff) linarith
  ultimately show ?thesis using div_mult_mod_eq [of c 4] by auto
qed

lemma year_part: "1461 * (y + 4800) div 4 - 3 * ((y + 4900) div 100) div 4 = days_before_year (y + 1) + (1753164 :: int)"
proof -
  have "1461 * (y + 4800) = y + 4 * (365 * y + 1753200)" by simp
  then have "1461 * (y + 4800) div 4 = 365 * y + y div 4 + 1753200" by (simp only: div_mult_self2)
  moreover have "(y + 4900) div 100 = y div 100 + 49" "y div 400 = y div 100 div 4" by (simp_all add: zdiv_zmult2_eq)
  ultimately show ?thesis using three_quarters [of "y div 100"] by (simp add: days_before_year_def)
qed

lemma month_part:
  assumes "1 \<le> m" "m \<le> (12 :: int)"
  shows "(m - 14) sdiv 12 = (if m \<le> 2 then - 1 else 0)"
    "367 * (m - 2 - (m - 14) sdiv 12 * 12) sdiv 12 = days_before_month lp m + (if m \<le> 2 then 336 else if lp then - 30 else - 29)"
proof -
  have "list_all (\<lambda>m. (m - 14) sdiv 12 = (if m \<le> 2 then - 1 else 0) \<and> (\<forall>lp.
     367 * (m - 2 - (m - 14) sdiv 12 * 12) sdiv 12 = days_before_month lp m + (if m \<le> 2 then 336 else if lp then - 30 else - 29))) [1..12]"
    by code_simp
  moreover have "m \<in> set [1..12]" using assms by simp
  ultimately show "(m - 14) sdiv 12 = (if m \<le> 2 then - 1 else 0)"
    "367 * (m - 2 - (m - 14) sdiv 12 * 12) sdiv 12 = days_before_month lp m + (if m \<le> 2 then 336 else if lp then - 30 else - 29)"
    unfolding list_all_iff by blast+
qed

text \<open>The formula of \<^verbatim>\<open>jd\<close> is the count of days.\<close>

lemma jd_of_day:
  assumes "0 \<le> y" "1 \<le> m" "m \<le> 12"
  shows "jd_of (y, m, d) = days_before_year y + days_before_month (leap y) m + d - 1 + 1721426"
proof -
  have s: "1461 * z sdiv 4 = 1461 * z div 4" "z sdiv 100 = z div 100" "3 * (z div 100) sdiv 4 = 3 * (z div 100) div 4" if "0 \<le> z" for z :: int
    using that by (simp_all add: sdiv_nonneg)
  have n: "days_before_year (y + 1) = days_before_year y + (if leap y then 366 else 365)" using days_in_year [of y] by simp
  have p: "1461 * (z + 4800) sdiv 4 - 3 * ((z + 4900) sdiv 100) sdiv 4 = days_before_year (z + 1) + 1753164" if "- 1 \<le> z" for z
    using that year_part [of z] s(1) [of "z + 4800"] s(2,3) [of "z + 4900"] by simp
  show ?thesis using p [of "y - 1"] p [of y] n assms(1) month_part(2) [OF assms(2,3), of "leap y"]
    by (simp add: jd_of_def month_part(1) [OF assms(2,3)] split: if_splits)
qed

section \<open>Market days\<close>

text \<open>A day number is the Julian day number of the day on the wall clock.\<close>

lemma jd_day:
  assumes "0 \<le> Year loc t"
  shows "jd loc t = local_day loc t + 1721426"
proof -
  obtain y m d where c: "civil loc t = (y, m, d)" by (metis prod_cases3)
  then have "0 \<le> y" using assms by (auto simp: Year_def civil_def split: prod.splits)
  from jd_of_day [OF this civil_correct(2,3) [OF c]] civil_correct(1) [OF c] c show ?thesis by (simp add: jd_def)
qed

lemma jd_same_date: "0 \<le> Year loc t \<Longrightarrow> 0 \<le> Year loc' u \<Longrightarrow> jd loc t = jd loc' u \<longleftrightarrow> civil loc t = civil loc' u"
  using jd_day [of loc t] jd_day [of loc' u] by (auto simp: jd_def) (simp add: civil_def)

lemma Year_nonneg:
  assumes "days_before_year 0 \<le> local_day loc t"
  shows "0 \<le> Year loc t"
proof (rule ccontr)
  assume n: "\<not> 0 \<le> Year loc t"
  obtain y r where yr: "year_yday (local_day loc t) = (y, r)" by fastforce
  note c = year_yday_correct [OF yr]
  have "y + 1 \<le> 0" using n yr by (simp add: Year_def)
  with days_before_year_mono [OF this] days_in_year [of y] c assms show False by simp
qed

lemma date_number_nonneg: "0 \<le> date_number ds"
  unfolding date_number_def by (induction ds rule: rev_induct) (auto split: option.split)

lemma parse_date_year: "0 \<le> Year UTC (parse_date s)"
proof -
  have m: "0 \<le> days_before_month lp m" for lp m
    unfolding days_before_month_def by (rule sum_list_nonneg) (auto simp: month_lengths_def dest!: in_set_takeD)
  have "days_before_year 0 \<le> local_day UTC (midnight UTC (date_number ds) mo d)" if "1 \<le> d" for ds mo d
    using that days_before_year_mono [of 0 "date_number ds"] date_number_nonneg [of ds] m [of "leap (date_number ds)" mo]
    by (simp add: midnight_def date_day_UTC local_day_UTC)
  then have "days_before_year 0 \<le> local_day UTC (parse_date s)"
    by (simp add: parse_date_def Let_def local_day_UTC days_before_year_def)
  then show ?thesis by (rule Year_nonneg)
qed

lemma map_of_mark_days:
  "map_of (mark_days st ss m) k = (if k \<in> (\<lambda>s. jd UTC (parse_date s)) ` set ss then Some st else map_of m k)"
  unfolding mark_days_def by (induction ss arbitrary: m) (auto simp: update_conv')

definition named_dates :: "string list \<Rightarrow> (int \<times> int \<times> int) set" where
  "named_dates ss = (\<lambda>s. civil UTC (parse_date s)) ` set ss"

lemma named_date_iff: "0 \<le> Year loc t \<Longrightarrow> jd loc t \<in> (\<lambda>s. jd UTC (parse_date s)) ` set ss \<longleftrightarrow> civil loc t \<in> named_dates ss"
  by (auto simp: named_dates_def image_iff jd_same_date parse_date_year)

text \<open>
  C30: The calendar made from its description has as market days exactly the days from Monday to Friday whose civil date, in the zone of the instant,
  is not among the listed non-trading days, unless it is listed as a day of early close; and the market is open on market days only. The key of
  a day, the closed formula of \<^verbatim>\<open>jd\<close> in truncating divisions, tells dates of all zones from year 0 on apart.
\<close>

theorem market_days:
  assumes "Calendar_New load cj = Inr cal" "0 \<le> Year loc t"
  shows "(IsMarketDay loc cal t \<longleftrightarrow> \<not> weekend loc t \<and>
      (civil loc t \<in> named_dates (EarlyCloses cj) \<or> civil loc t \<notin> named_dates (NonTradingDays cj))) \<and>
    (IsMarketOpen loc cal t \<longrightarrow> IsMarketDay loc cal t)"
proof -
  have "days cal = mark_days EarlyClose (EarlyCloses cj) (mark_days Closed (NonTradingDays cj) [])"
    using assms(1) by (auto simp: Calendar_New_def res_bind_Inr)
  then show ?thesis using named_date_iff [OF assms(2)]
    by (auto simp: IsMarketDay_def IsMarketOpen_def map_of_mark_days Let_def split: option.splits MarketState.splits)
qed

definition christmas :: calendarJson where
  "christmas = \<lparr>NonTradingDays = [''2018-12-25''], EarlyCloses = [''2018-12-24''], cjTimezone = ''UTC'', cjOpenTime = ''09:30:00'',
     cjCloseTime = ''16:00:00'', cjEarlyCloseTime = ''13:00:00''\<rparr>"

theorem market_days_witness:
  "\<exists>cal. Calendar_New (\<lambda>_. UTC) christmas = Inr cal \<and> \<not> IsMarketDay UTC cal (unix_time 1545739200 0) \<and> IsMarketDay UTC cal (unix_time 1545652800 0)"
proof -
  have "Split (cjOpenTime christmas) '':'' = [''09'', ''30'', ''00'']" "Split (cjCloseTime christmas) '':'' = [''16'', ''00'', ''00'']"
    "Split (cjEarlyCloseTime christmas) '':'' = [''13'', ''00'', ''00'']" by code_simp+
  then obtain cal where cal: "Calendar_New (\<lambda>_. UTC) christmas = Inr cal" by (simp add: Calendar_New_def ParseTime_def)
  have "0 \<le> Year UTC (unix_time 1545739200 0)" "0 \<le> Year UTC (unix_time 1545652800 0)" by code_simp+
  note m = this [THEN market_days [OF cal]]
  have "civil UTC (unix_time 1545739200 0) = (2018, 12, 25)" "civil UTC (unix_time 1545652800 0) = (2018, 12, 24)"
    "\<not> weekend UTC (unix_time 1545652800 0)" by code_simp+
  moreover have "date_number ''2018'' = 2018" by code_simp
  moreover have "parse_date ''2018-12-24'' = unix_time 1545609600 0" by code_simp
  moreover have "parse_date ''2018-12-25'' = unix_time 1545696000 0" by code_simp
  moreover have "civil UTC (unix_time 1545609600 0) = (2018, 12, 24)" "civil UTC (unix_time 1545696000 0) = (2018, 12, 25)" by code_simp+
  moreover have "named_dates (EarlyCloses christmas) = {(2018, 12, 24)}" "named_dates (NonTradingDays christmas) = {(2018, 12, 25)}"
    using calculation by (simp_all add: named_dates_def christmas_def)
  ultimately show ?thesis using cal m by auto
qed

text \<open>\<^verbatim>\<open>MarketClose\<close> never gives a time, on market days neither.\<close>

lemma market_close_never: "MarketClose loc cal t = None \<and> EpochMarketClose cal epoch = None"
  by (simp add: MarketClose_def EpochMarketClose_def)

text \<open>The market is closed at its closing time: the hours of a usual day are the half-open interval from the opening to the closing time.\<close>

lemma open_hours:
  assumes "IsMarketOpen loc cal t" "map_of (days cal) (jd loc t) = None"
  shows "time_on (tz cal) (civil loc t) (openTime cal) \<le> t \<and> t < time_on (tz cal) (civil loc t) (closeTime cal)"
  using assms by (auto simp: IsMarketOpen_def Let_def split: if_splits)

end
