(* ===== verification/AggTrigger.thy ===== *)
theory AggTrigger
  imports AggAccum Calendar Planner Reader Writer
begin

text \<open>
  The on-disk aggregation trigger: records as triggers get them (\<^verbatim>\<open>plugins/trigger/trigger.go\<close>), the bounds of its timeframes
  (\<^verbatim>\<open>util.go\<close>), its cache, the aggregates of one destination and \<^verbatim>\<open>Fire\<close> (\<^verbatim>\<open>contrib/ondiskagg/aggtrigger\<close>). Reading the bars goes through
  the planner and the reader, writing the aggregates through the writer.
\<close>

section \<open>\<^verbatim>\<open>plugins/trigger\<close>\<close>

type_synonym Record = bytes

definition slice_panic :: go_err where
  "slice_panic = Panic ''slice bounds out of range''"

definition record_Index :: "Record \<Rightarrow> int result" where
  "record_Index r = (if length r < 8 then Inl slice_panic else Inr (ToInt64 (take 8 r)))"

definition record_Payload :: "Record \<Rightarrow> bytes result" where
  "record_Payload r = (if length r < 8 then Inl slice_panic else Inr (drop 8 r))"

text \<open>The bytes of one column; those of the epoch are the time of the index.\<close>

definition record_cell :: "location \<Rightarrow> DataShape \<Rightarrow> nat \<Rightarrow> int \<Rightarrow> int \<Rightarrow> Record \<Rightarrow> bytes result" where
  "record_cell loc s index tf year r =
     (let slc = take (Size (dsType s)) (drop index r)
      in if length r < index + Size (dsType s) then Inl slice_panic
         else if EqualFold (dsName s) ''Epoch'' then
           (if length slc < 8 then Inl index_panic else Inr (le_bytes 8 (Unix (IndexToTime loc (ToInt64 slc) tf year))))
         else Inr slc)"

fun record_columns :: "location \<Rightarrow> int \<Rightarrow> int \<Rightarrow> Record list \<Rightarrow> DataShape list \<Rightarrow> nat \<Rightarrow> ColumnSeries \<Rightarrow> ColumnSeries result" where
  "record_columns loc tf year records [] index cs = Inr cs"
| "record_columns loc tf year records (s # ds) index cs =
     res_bind (res_map (record_cell loc s index tf year) records) (\<lambda>cells.
       record_columns loc tf year records ds (index + Size (dsType s))
         (fst (AddColumn (dsName s) (case ConvertByteSliceInto (dsType s) (concat cells) of Some c \<Rightarrow> c | None \<Rightarrow> nil_column) cs)))"

definition RecordsToColumnSeries :: "location \<Rightarrow> DataShape list \<Rightarrow> int \<Rightarrow> int \<Rightarrow> Record list \<Rightarrow> ColumnSeries result" where
  "RecordsToColumnSeries loc ds tf year records = record_columns loc tf year records ds 0 NewColumnSeries"

section \<open>\<^verbatim>\<open>util.go\<close>\<close>

text \<open>
  The loops keep a pointer to the loop variable, and in this version of Go all rounds of a loop share the variable: the only address there is
  is that of the variable, \<open>set\<close> tells whether the pointer has it, and what it points to is the present value of the variable.
\<close>

fun bound_loop :: "(Timeframe \<Rightarrow> Timeframe \<Rightarrow> bool) \<Rightarrow> Timeframe list \<Rightarrow> Timeframe option \<Rightarrow> bool \<Rightarrow> Timeframe option" where
  "bound_loop better [] t isset = (if isset then t else None)"
| "bound_loop better (x # xs) t isset =
     (let t = Some x
      in if \<not> isset then bound_loop better xs t True
         else if better x (the t) then bound_loop better xs t True
         else bound_loop better xs t isset)"

definition UpperBound :: "Timeframe list \<Rightarrow> Timeframe option" where
  "UpperBound tfs = bound_loop (\<lambda>t tf. tfDuration t > tfDuration tf) tfs None False"

definition LowerBound :: "Timeframe list \<Rightarrow> Timeframe option" where
  "LowerBound tfs = bound_loop (\<lambda>t tf. tfDuration t < tfDuration tf) tfs None False"

section \<open>The trigger\<close>

record AggTriggerConfig =
  Destinations :: "string list"
  Filter :: string

record cachedAgg =
  ccs :: ColumnSeries
  ctail :: instant
  chead :: instant

record OnDiskAggTrigger =
  destinations :: "Timeframe list"
  filter_by :: string
  aggCache :: "(string \<times> cachedAgg) list"

text \<open>The fatal error of an unknown destination ends the process.\<close>

definition NewTrigger :: "AggTriggerConfig \<Rightarrow> OnDiskAggTrigger result" where
  "NewTrigger config =
     (if Destinations config = [] then Inl (Err ''plugin load error'')
      else
        let flt = (if Filter config \<noteq> '''' \<and> Filter config \<noteq> ''nasdaq'' then '''' else Filter config)
        in res_bind (res_map (\<lambda>dest. case TimeframeFromString dest of None \<Rightarrow> Inl (Panic ''invalid destination'') | Some tf \<Rightarrow> Inr tf)
               (Destinations config)) (\<lambda>tfs. Inr \<lparr>destinations = tfs, filter_by = flt, aggCache = []\<rparr>))"

definition cache_Valid :: "cachedAgg \<Rightarrow> instant \<Rightarrow> instant \<Rightarrow> bool" where
  "cache_Valid c tail head \<longleftrightarrow> Unix tail \<ge> Unix (ctail c) \<and> Unix head \<le> Unix (chead c)"

text \<open>
  \<^verbatim>\<open>writeAggregates\<close> up to the write: the map that is written, if any, and the entry that the deferred function stores, after an error or a panic
  too. The calendar is that of the NASDAQ and \<open>zoned\<close> tells whether the configured zone is the calendar's. The error of the slice for the
  cache is dropped; the series of a failed slice, which would be partly sliced, stands here unsliced.
\<close>

definition window_end :: "location \<Rightarrow> CandleDuration \<Rightarrow> instant \<Rightarrow> int" where
  "window_end loc window tail = Unix (Ceil loc window tail - Second)"

definition cache_entry :: "location \<Rightarrow> CandleDuration \<Rightarrow> ColumnSeries \<Rightarrow> instant \<Rightarrow> cachedAgg" where
  "cache_entry loc window cs tail =
     (let t = Truncate loc window tail; end = window_end loc window tail
      in \<lparr>ccs = (case SliceColumnSeriesByEpoch (Some (Unix t)) (Some end) cs of Inr slc \<Rightarrow> slc | Inl _ \<Rightarrow> cs), ctail = t, chead = unix_time end 0\<rparr>)"

definition aggregates_of :: "location \<Rightarrow> float_ops \<Rightarrow> Calendar \<Rightarrow> bool \<Rightarrow> TimeBucketKey \<Rightarrow> ColumnSeries \<Rightarrow> Timeframe \<Rightarrow> instant \<Rightarrow> instant
    \<Rightarrow> OnDiskAggTrigger \<Rightarrow> ColumnSeriesMap option result \<times> cachedAgg option" where
  "aggregates_of loc ops nasdaq zoned aggTbk cs dest head tail s =
     (case CandleDurationFromString (tfString dest) of
        None \<Rightarrow> (Inl nil_pointer, None)
      | Some window \<Rightarrow>
          let start = Unix (Truncate loc window head); end = window_end loc window tail
          in case res_bind (SliceColumnSeriesByEpoch (Some start) (Some end) cs) (\<lambda>slc. res_bind (GetEpoch slc) (\<lambda>epochs. Inr (slc, epochs))) of
               Inl e \<Rightarrow> (Inl e, None)
             | Inr (slc, epochs) \<Rightarrow>
                 if epochs = [] then (Inr None, None)
                 else
                   let applyingFilter = (filter_by s = ''nasdaq'' \<and> Duration window \<ge> Day \<and> zoned)
                   in case UpperBound (destinations s) of
                        None \<Rightarrow> (Inl nil_pointer, None)
                      | Some upper \<Rightarrow>
                          (if applyingFilter
                           then res_bind (ApplyTimeQual (EpochIsMarketOpen nasdaq) slc) (\<lambda>tqSlc. res_bind (GetEpoch tqSlc) (\<lambda>epochs.
                             if epochs = [] then Inr (Some NewColumnSeriesMap)
                             else res_bind (aggregate loc ops tqSlc aggTbk) (\<lambda>agg. Inr (Some (AddColumnSeries aggTbk agg NewColumnSeriesMap)))))
                           else res_bind (aggregate loc ops slc aggTbk) (\<lambda>agg. Inr (Some (AddColumnSeries aggTbk agg NewColumnSeriesMap))),
                           if tfDuration dest = tfDuration upper then Some (cache_entry loc window cs tail) else None))"

section \<open>Reading and writing\<close>

text \<open>What the calls into the engine need: zone, tick arithmetic, conversions, instance, clock, caller, codec and float operations.\<close>

record trigger_env =
  tLoc :: location
  tTicks :: interval_ticks
  tFconv :: float_conv
  tInst :: InstanceMetadata
  tOrder :: "path list \<Rightarrow> path list"
  tNow :: int
  tRequester :: nat
  tOps :: float_ops
  tNasdaq :: Calendar
  tZoned :: bool
  tCodec :: "codec option"
  tTicksTime :: ticks_time

definition writeAggregates :: "trigger_env \<Rightarrow> TimeBucketKey \<Rightarrow> TimeBucketKey \<Rightarrow> ColumnSeries \<Rightarrow> Timeframe \<Rightarrow> instant \<Rightarrow> instant
    \<Rightarrow> engine \<times> OnDiskAggTrigger \<Rightarrow> (engine \<times> OnDiskAggTrigger) \<times> go_err option" where
  "writeAggregates env aggTbk baseTbk cs dest head tail es = (case es of (e, s) \<Rightarrow>
     (case aggregates_of (tLoc env) (tOps env) (tNasdaq env) (tZoned env) aggTbk cs dest head tail s of (res, entry) \<Rightarrow>
        let s = (case entry of None \<Rightarrow> s | Some c \<Rightarrow> s\<lparr>aggCache := AList.update (key_String baseTbk) c (aggCache s)\<rparr>)
        in case res of
             Inl err \<Rightarrow> ((e, s), Some err)
           | Inr None \<Rightarrow> ((e, s), None)
           | Inr (Some csm) \<Rightarrow>
               (case WriteCSM (tLoc env) (tTicks env) (tFconv env) (tInst env) (tOrder env) (tNow env) (tRequester env) csm False e of
                  (e, err) \<Rightarrow> ((e, s), err))))"

text \<open>\<^verbatim>\<open>write\<close>: all destinations, up to the first error.\<close>

fun agg_write :: "trigger_env \<Rightarrow> TimeBucketKey \<Rightarrow> ColumnSeries \<Rightarrow> instant \<Rightarrow> instant \<Rightarrow> string list \<Rightarrow> Timeframe list
    \<Rightarrow> engine \<times> OnDiskAggTrigger \<Rightarrow> (engine \<times> OnDiskAggTrigger) \<times> go_err option" where
  "agg_write env tbk cs tail head elements [] es = (es, None)"
| "agg_write env tbk cs tail head elements (dest # dests) es =
     (if length elements < 3 then (es, Some index_panic)
      else
        let aggTbk = NewTimeBucketKeyFromString (elements ! 0 @ ''/'' @ tfString dest @ ''/'' @ elements ! 2)
        in case writeAggregates env aggTbk tbk cs dest head tail es of
             (es, Some err) \<Rightarrow> (es, Some err)
           | (es, None) \<Rightarrow> agg_write env tbk cs tail head elements dests es)"

text \<open>\<^verbatim>\<open>query\<close>; \<open>None\<close> is a parse or a read that does not end.\<close>

definition agg_query :: "trigger_env \<Rightarrow> TimeBucketKey \<Rightarrow> CandleDuration \<Rightarrow> instant \<Rightarrow> instant \<Rightarrow> engine \<times> hints
    \<Rightarrow> (ColumnSeriesMap result \<times> engine \<times> hints) option" where
  "agg_query env tbk window head tail eh = (case eh of (e, h) \<Rightarrow>
     let loc = tLoc env; t = refill (eFiles e) [] (eTree e)
     in case AddTargetKey tbk (NewQuery loc (eRoot e)) of
          Inl err \<Rightarrow> Some (Inl err, e, h)
        | Inr q \<Rightarrow>
            (case Parse loc t (SetRange loc (Unix (Truncate loc window head)) (window_end loc window tail) q) (eHeap e) of
               None \<Rightarrow> None
             | Some (Inl err, hp) \<Rightarrow> Some (Inl err, e\<lparr>eHeap := hp\<rparr>, h)
             | Some (Inr parsed, hp) \<Rightarrow>
                 (case NewReader loc (disk_of t) h parsed of
                    Inl err \<Rightarrow> Some (Inl err, e\<lparr>eHeap := hp\<rparr>, h)
                  | Inr scanner \<Rightarrow>
                      (case reader_Read loc (disk_of t) (tCodec env) (tTicksTime env) scanner h of
                         None \<Rightarrow> None
                       | Some (Inl err) \<Rightarrow> Some (Inl err, e\<lparr>eHeap := hp\<rparr>, h)
                       | Some (Inr (csm, h)) \<Rightarrow> Some (Inr csm, e\<lparr>eHeap := hp\<rparr>, h)))))"

section \<open>\<^verbatim>\<open>Fire\<close>\<close>

record fired =
  fElements :: "string list"
  fTf :: Timeframe
  fYear :: int
  fTbk :: TimeBucketKey
  fHead :: instant
  fTail :: instant

text \<open>The first part: path, timeframe, year, key and the times of the first and the last record. A wrong year text gives year 0.\<close>

definition fire_args :: "location \<Rightarrow> string \<Rightarrow> Record list \<Rightarrow> fired result" where
  "fire_args loc keyPath records =
     (let elements = Split keyPath ''/''
      in res_bind (go_nth elements 1) (\<lambda>el.
           let year = to_int16 (atoi_value (replace_first (last elements) ''.bin''));
               tbk = NewTimeBucketKey (join_with ''/'' (butlast elements)) []
           in if records = [] then Inl index_panic
              else res_bind (record_Index (hd records)) (\<lambda>i. res_bind (record_Index (last records)) (\<lambda>j.
                case NewTimeframe (TfString el) of
                  None \<Rightarrow> Inl nil_pointer
                | Some tf \<Rightarrow> Inr \<lparr>fElements = elements, fTf = tf, fYear = year, fTbk = tbk,
                    fHead = IndexToTime loc i (tfDuration tf) year, fTail = IndexToTime loc j (tfDuration tf) year\<rparr>))))"

text \<open>The second part: the bars from the cache, if it has an entry that is valid; the entry is dropped otherwise.\<close>

definition cached_bars :: "location \<Rightarrow> fired \<Rightarrow> Record list \<Rightarrow> OnDiskAggTrigger \<Rightarrow> OnDiskAggTrigger \<times> ColumnSeries option result" where
  "cached_bars loc f records s =
     (case map_of (aggCache s) (key_String (fTbk f)) of
        None \<Rightarrow> (s, Inr None)
      | Some c \<Rightarrow>
          if \<not> cache_Valid c (fTail f) (fHead f) then (s\<lparr>aggCache := AList.delete (key_String (fTbk f)) (aggCache s)\<rparr>, Inr None)
          else (s, res_bind (RecordsToColumnSeries loc (cs_GetDataShapes (ccs c)) (tfDuration (fTf f)) (fYear f) records) (\<lambda>cs.
            res_bind (ColumnSeriesUnion cs (ccs c)) (\<lambda>u. Inr (Some u)))))"

definition fire_query :: "trigger_env \<Rightarrow> fired \<Rightarrow> CandleDuration \<Rightarrow> hints \<Rightarrow> engine \<times> OnDiskAggTrigger
    \<Rightarrow> ((engine \<times> OnDiskAggTrigger) \<times> hints \<times> go_err option) option" where
  "fire_query env f window h es = (case es of (e, s) \<Rightarrow>
     (case agg_query env (fTbk f) window (fHead f) (fTail f) (e, h) of
        None \<Rightarrow> None
      | Some (Inl err, e, h) \<Rightarrow> Some ((e, s), h, Some err)
      | Some (Inr csm, e, h) \<Rightarrow>
          (case map_of csm (fTbk f) of
             None \<Rightarrow> Some ((e, s), h, None)
           | Some cs \<Rightarrow>
               (case agg_write env (fTbk f) cs (fTail f) (fHead f) (fElements f) (destinations s) (e, s) of (es, err) \<Rightarrow> Some (es, h, err)))))"

definition Fire :: "trigger_env \<Rightarrow> string \<Rightarrow> Record list \<Rightarrow> hints \<Rightarrow> engine \<times> OnDiskAggTrigger
    \<Rightarrow> ((engine \<times> OnDiskAggTrigger) \<times> hints \<times> go_err option) option" where
  "Fire env keyPath records h es = (case es of (e, s) \<Rightarrow>
     (case fire_args (tLoc env) keyPath records of
        Inl err \<Rightarrow> Some (es, h, Some err)
      | Inr f \<Rightarrow>
          (case UpperBound (destinations s) of
             None \<Rightarrow> Some (es, h, Some nil_pointer)
           | Some upper \<Rightarrow>
               (case cached_bars (tLoc env) f records s of
                  (s, Inl err) \<Rightarrow> Some ((e, s), h, Some err)
                | (s, Inr (Some cs)) \<Rightarrow>
                    (case agg_write env (fTbk f) cs (fTail f) (fHead f) (fElements f) (destinations s) (e, s) of (es, err) \<Rightarrow> Some (es, h, err))
                | (s, Inr None) \<Rightarrow>
                    (case CandleDurationFromString (tfString upper) of
                       None \<Rightarrow> Some ((e, s), h, Some nil_pointer)
                     | Some window \<Rightarrow> fire_query env f window h (e, s))))))"

section \<open>Properties\<close>

text \<open>Both bounds are the last timeframe of the configuration, whatever the durations.\<close>

lemma bound_loop_last: "bound_loop better xs t isset = (if xs = [] then (if isset then t else None) else Some (last xs))"
  by (induction xs arbitrary: t isset) (simp_all add: Let_def)

lemma bounds_are_last: "UpperBound (tfs @ [tf]) = Some tf \<and> LowerBound (tfs @ [tf]) = Some tf"
  by (simp add: UpperBound_def LowerBound_def bound_loop_last)

text \<open>An entry counts as valid for records that start before its first window, although the other bars of their window are not in it.\<close>

lemma valid_for_older_records:
  assumes "Unix head < Unix (ctail c)" "Unix (ctail c) \<le> Unix tail" "Unix (ctail c) \<le> Unix (chead c)"
    and "map_of (aggCache s) (key_String (fTbk f)) = Some c" "fHead f = head" "fTail f = tail"
  shows "cached_bars loc f records s =
    (s, res_bind (RecordsToColumnSeries loc (cs_GetDataShapes (ccs c)) (tfDuration (fTf f)) (fYear f) records) (\<lambda>cs.
      res_bind (ColumnSeriesUnion cs (ccs c)) (\<lambda>u. Inr (Some u))))"
  using assms by (simp add: cached_bars_def cache_Valid_def)

text \<open>
  Bars of a second: the end of a window is taken as its last second, and the slice keeps what is before the end, so that the bar of the last second of a minute is
  not in the bar of the minute.
\<close>

definition second_bars :: ColumnSeries where
  "second_bars = \<lparr>columns = [(''Epoch'', \<lparr>ckind = KInt64, celems = map (le_bytes 8) [57, 58, 59]\<rparr>)], orderedNames = [''Epoch''], candleAttributes = 0, nameIncrement = []\<rparr>"

lemma last_second_dropped:
  "window_end UTC (the (CandleDurationFromString ''1Min'')) (unix_time 59 0) = 59 \<and>
   res_bind (SliceColumnSeriesByEpoch (Some 0) (Some 59) second_bars) GetEpoch = Inr [57, 58]"
proof -
  have "window_end UTC (the (CandleDurationFromString ''1Min'')) (unix_time 59 0) = 59" by code_simp
  moreover have "res_bind (SliceColumnSeriesByEpoch (Some 0) (Some 59) second_bars) GetEpoch = Inr [57, 58]" by code_simp
  ultimately show ?thesis by blast
qed

text \<open>The rows of a union whose left series has no epoch of its own.\<close>

lemma union_entries_covered:
  assumes "set lep \<subseteq> set rep"
  shows "union_entries lep rep = union_entries [] rep \<and> (\<forall>(e, i, r) \<in> set (union_entries [] rep). r)"
proof -
  have s: "set lep \<union> set rep = set rep" using assms by blast
  have r: "union_row lep rep e = union_row [] rep e \<and> snd (union_row [] rep e)" if "e \<in> set rep" for e
    using that last_pos_None [of rep e] by (auto simp: union_row_def split: option.split)
  then show ?thesis unfolding union_entries_eq s by (auto simp: case_prod_beta)
qed

lemma append_rows_right: "\<forall>(e, i, r) \<in> set es. r \<Longrightarrow> append_rows left right es out = append_rows left' right es out"
proof (induction es arbitrary: out)
  case (Cons x es)
  obtain e i where "x = (e, i, True)" using Cons.prems by (cases x) auto
  moreover have "append_rows left right es = append_rows left' right es" using Cons by (intro ext) simp
  ultimately show ?case by simp
qed simp


text \<open>The bar of the second minute of 1970 is cached with open price 5 and written again with 6 and with 7.\<close>

definition stale_trigger :: OnDiskAggTrigger where
  "stale_trigger = \<lparr>destinations = [], filter_by = '''', aggCache = [(key_String (NewTimeBucketKey ''AAPL/1Min/OHLC'' []),
     \<lparr>ccs = \<lparr>columns = [(''Epoch'', \<lparr>ckind = KInt64, celems = [le_bytes 8 60]\<rparr>), (''Open'', \<lparr>ckind = KInt32, celems = [le_bytes 4 5]\<rparr>)],
        orderedNames = [''Epoch'', ''Open''], candleAttributes = 0, nameIncrement = []\<rparr>, ctail = 0, chead = unix_time 299 0\<rparr>)]\<rparr>"

definition second_minute :: fired where
  "second_minute = \<lparr>fElements = [], fTf = \<lparr>tfString = ''1Min'', tfDuration = Minute\<rparr>, fYear = 1970, fTbk = NewTimeBucketKey ''AAPL/1Min/OHLC'' [],
     fHead = unix_time 60 0, fTail = unix_time 60 0\<rparr>"

definition open_record :: "int \<Rightarrow> Record" where
  "open_record p = le_bytes 8 2 @ le_bytes 4 p"


end
