(* ===== verification/Numpy.thy ===== *)
theory Numpy
  imports Rows
begin

text \<open>
  The form in which series travel between client and server (\<^verbatim>\<open>utils/io/numpy.go\<close>): the columns of all series behind one another as bytes,
  with the place of every series. The field with the data shapes is not sent; the receiver builds it from the names of the types.
\<close>

section \<open>Model\<close>

fun typeMap :: "EnumElementType \<Rightarrow> string option" where
  "typeMap BYTE = Some ''i1''" | "typeMap INT16 = Some ''i2''" | "typeMap INT32 = Some ''i4''" | "typeMap INT64 = Some ''i8''"
| "typeMap UINT8 = Some ''u1''" | "typeMap UINT16 = Some ''u2''" | "typeMap UINT32 = Some ''u4''" | "typeMap UINT64 = Some ''u8''"
| "typeMap FLOAT32 = Some ''f4''" | "typeMap FLOAT64 = Some ''f8''"
| "typeMap _ = None"

definition typeStrMap :: "string \<Rightarrow> EnumElementType option" where
  "typeStrMap s = find (\<lambda>e. typeMap e = Some s) element_types"

record NumpyDataset =
  ColumnTypes :: "string list"
  ColumnNames :: "string list"
  ColumnData :: "bytes list"
  ndLength :: int
  dataShapes :: "DataShape list"

text \<open>One column of \<^verbatim>\<open>NewNumpyDataset\<close>: the bytes of the column, then its type.\<close>

definition dataset_column :: "ColumnSeries \<Rightarrow> string \<times> DataShape \<Rightarrow> (string \<times> string \<times> bytes) result" where
  "dataset_column cs p = (case p of (name, shape) \<Rightarrow> (case cs_GetColumn name cs of
      None \<Rightarrow> Inl (Panic ''reflect: call of reflect.Value.Type on zero Value'')
    | Some c \<Rightarrow> (case typeMap (dsType shape) of
        None \<Rightarrow> Inl (Err ''unsupported type'')
      | Some t \<Rightarrow> Inr (t, name, CastToByteSlice c))))"

definition NewNumpyDataset :: "ColumnSeries \<Rightarrow> NumpyDataset result" where
  "NewNumpyDataset cs = res_bind (cs_Len cs) (\<lambda>n.
     res_bind (res_map (dataset_column cs) (zip (GetColumnNames cs) (cs_GetDataShapes cs))) (\<lambda>cols.
       Inr \<lparr>ColumnTypes = map fst cols, ColumnNames = map (fst \<circ> snd) cols, ColumnData = map (snd \<circ> snd) cols,
            ndLength = int n, dataShapes = cs_GetDataShapes cs\<rparr>))"

definition buildDataShapes :: "('a NumpyDataset_scheme) \<Rightarrow> DataShape list result" where
  "buildDataShapes nds =
     res_bind (res_map (\<lambda>s. case typeStrMap s of None \<Rightarrow> Inl (Err ''unsupported type string'') | Some t \<Rightarrow> Inr t) (ColumnTypes nds))
       (NewDataShapeVector (ColumnNames nds))"

text \<open>The part of one column; the multiplications wrap around, and the bounds of the slice are checked.\<close>

definition dataset_part :: "bytes list \<Rightarrow> int \<Rightarrow> int \<Rightarrow> nat \<times> DataShape \<Rightarrow> column result" where
  "dataset_part datas startIndex len p = (case p of (i, shape) \<Rightarrow>
     (let size = int (Size (dsType shape)); start = to_int64 (startIndex * size); stop = to_int64 (start + to_int64 (len * size))
      in res_bind (go_nth datas i) (\<lambda>colData. res_bind (go_slice start stop colData) (\<lambda>part.
        Inr (case ConvertByteSliceInto (dsType shape) part of Some c \<Rightarrow> c | None \<Rightarrow> nil_column)))))"

text \<open>
  \<^verbatim>\<open>ToColumnSeries\<close>, with the place of the series or for the whole. The dataset keeps the shapes that are built.
\<close>

definition ToColumnSeries_at :: "(int \<times> int) option \<Rightarrow> ('a NumpyDataset_scheme) \<Rightarrow> (ColumnSeries \<times> 'a NumpyDataset_scheme) result" where
  "ToColumnSeries_at options nds =
     (let (startIndex, len) = (case options of Some p \<Rightarrow> p | None \<Rightarrow> (0, ndLength nds))
      in res_bind (go_nth (ColumnData nds) 0) (\<lambda>first.
        if first = [] then Inr (NewColumnSeries, nds)
        else res_bind (if dataShapes nds = [] then buildDataShapes nds else Inr (dataShapes nds)) (\<lambda>shapes.
          res_bind (res_map (dataset_part (ColumnData nds) startIndex len) (enumerate 0 shapes)) (\<lambda>cols.
            Inr (fold (\<lambda>(s, c) cs. fst (AddColumn (dsName s) c cs)) (zip shapes cols) NewColumnSeries, nds\<lparr>dataShapes := shapes\<rparr>)))))"

section \<open>Several series\<close>

record NumpyMultiDataset = NumpyDataset +
  StartIndex :: "(string \<times> int) list"
  Lengths :: "(string \<times> int) list"

definition NewNumpyMultiDataset :: "NumpyDataset \<Rightarrow> TimeBucketKey \<Rightarrow> NumpyMultiDataset" where
  "NewNumpyMultiDataset nds tbk =
     \<lparr>ColumnTypes = ColumnTypes nds, ColumnNames = ColumnNames nds, ColumnData = ColumnData nds, ndLength = ndLength nds,
      dataShapes = dataShapes nds, StartIndex = [(key_String tbk, 0)], Lengths = [(key_String tbk, ndLength nds)]\<rparr>"

fun series_from :: "(string \<times> int) list \<Rightarrow> NumpyMultiDataset \<Rightarrow> ColumnSeriesMap \<Rightarrow> ColumnSeriesMap result" where
  "series_from [] nmds csm = Inr csm"
| "series_from ((tbkStr, idx) # rest) nmds csm =
     (let len = (case map_of (Lengths nmds) tbkStr of None \<Rightarrow> 0 | Some n \<Rightarrow> n)
      in res_bind (if 0 < len then ToColumnSeries_at (Some (idx, len)) nmds else Inr (NewColumnSeries, nmds)) (\<lambda>(cs, nmds).
        series_from rest nmds (AddColumnSeries (NewTimeBucketKeyFromString tbkStr) cs csm)))"

definition nmds_ToColumnSeriesMap :: "NumpyMultiDataset \<Rightarrow> ColumnSeriesMap result" where
  "nmds_ToColumnSeriesMap nmds = series_from (StartIndex nmds) nmds NewColumnSeriesMap"

text \<open>\<^verbatim>\<open>Append\<close> compares the number and the names of the columns, not their types.\<close>

definition same_names :: "string list \<Rightarrow> string list \<Rightarrow> bool result" where
  "same_names names colSeriesNames =
     (case find (\<lambda>(i, name). length colSeriesNames \<le> i \<or> name \<noteq> colSeriesNames ! i) (enumerate 0 names) of
        None \<Rightarrow> Inr True
      | Some (i, _) \<Rightarrow> if length colSeriesNames \<le> i then Inl (Panic ''index out of range'') else Inr False)"

definition Append :: "ColumnSeries \<Rightarrow> TimeBucketKey \<Rightarrow> NumpyMultiDataset \<Rightarrow> NumpyMultiDataset result" where
  "Append cs tbk nmds =
     (if length (ColumnData nmds) \<noteq> GetNumColumns cs then Inl (Err ''Length of columns mismatch with NumpyMultiDataset'')
      else res_bind (same_names (ColumnNames nmds) (GetColumnNames cs)) (\<lambda>same.
        if \<not> same then Inl (Err ''Data shape mismatch of ColumnSeries and NumpyMultiDataset'')
        else res_bind (cs_Len cs) (\<lambda>n.
          res_bind (res_map (\<lambda>name. case cs_GetColumn name cs of
              None \<Rightarrow> Inl (Panic ''reflect: call of reflect.Value.Type on zero Value'') | Some c \<Rightarrow> Inr (CastToByteSlice c)) (GetColumnNames cs))
            (\<lambda>buffers. Inr (nmds\<lparr>StartIndex := AList.update (key_String tbk) (ndLength nmds) (StartIndex nmds),
               Lengths := AList.update (key_String tbk) (int n) (Lengths nmds), ndLength := to_int64 (ndLength nmds + int n),
               ColumnData := map (\<lambda>(d, b). d @ b) (zip (ColumnData nmds) buffers)\<rparr>)))))"

text \<open>
  The loop of a query that puts all series of the result into one dataset. The error of \<^verbatim>\<open>Append\<close> is dropped, and the series with it; a
  panic is not.
\<close>

fun pack_series :: "ColumnSeriesMap \<Rightarrow> NumpyMultiDataset option \<Rightarrow> NumpyMultiDataset option result" where
  "pack_series [] nmds = Inr nmds"
| "pack_series ((tbk, cs) # csm) nmds = res_bind (NewNumpyDataset cs) (\<lambda>nds.
     case nmds of
       None \<Rightarrow> pack_series csm (Some (NewNumpyMultiDataset nds tbk))
     | Some m \<Rightarrow> (case Append cs tbk m of
         Inr m \<Rightarrow> pack_series csm (Some m)
       | Inl (Err _) \<Rightarrow> pack_series csm (Some m)
       | Inl e \<Rightarrow> Inl e))"

text \<open>What the other side receives.\<close>

definition received :: "NumpyMultiDataset \<Rightarrow> NumpyMultiDataset" where
  "received nmds = nmds\<lparr>dataShapes := []\<rparr>"

section \<open>What the dataset holds\<close>

definition row_count :: "ColumnSeries \<Rightarrow> nat" where
  "row_count cs = length (epochs_of cs)"

definition col_data :: "ColumnSeries \<Rightarrow> nat \<Rightarrow> bytes" where
  "col_data cs j = concat (celems (snd (named cs ! j)))"

fun starts :: "nat \<Rightarrow> ColumnSeriesMap \<Rightarrow> (string \<times> int) list" where
  "starts s [] = []"
| "starts s ((k, cs) # kcs) = (key_String k, int s) # starts (s + row_count cs) kcs"

definition total_rows :: "ColumnSeriesMap \<Rightarrow> nat" where
  "total_rows kcs = sum_list (map (row_count \<circ> snd) kcs)"

text \<open>The dataset of series that all have the shapes \<open>shs\<close>.\<close>

definition packed :: "DataShape list \<Rightarrow> ColumnSeriesMap \<Rightarrow> NumpyMultiDataset" where
  "packed shs kcs =
     \<lparr>ColumnTypes = map (the \<circ> typeMap \<circ> dsType) shs, ColumnNames = map dsName shs,
      ColumnData = map (\<lambda>j. concat (map (\<lambda>(_, cs). col_data cs j) kcs)) [0..<length shs],
      ndLength = int (total_rows kcs), dataShapes = shs, StartIndex = starts 0 kcs,
      Lengths = map (\<lambda>(k, cs). (key_String k, int (row_count cs))) kcs\<rparr>"

lemma total_rows_snoc: "total_rows (kcs @ [(k, cs)]) = total_rows kcs + row_count cs"
  by (simp add: total_rows_def)

text \<open>Series that can be put into one dataset.\<close>

definition packable :: "DataShape list \<Rightarrow> ColumnSeriesMap \<Rightarrow> bool" where
  "packable shs kcs \<longleftrightarrow> (\<forall>(k, cs) \<in> set kcs. plain_series cs \<and> cs_GetDataShapes cs = shs \<and> 0 < row_count cs \<and> NewTimeBucketKeyFromString (Key k) = k)
     \<and> distinct (map fst kcs) \<and> 8 * int (total_rows kcs) < 2 ^ 63"

lemma plain_types: "plain_kind k \<Longrightarrow> \<exists>t. typeMap (GetElementType k) = Some t \<and> typeStrMap t = Some (GetElementType k)"
  unfolding plain_kind_def by (auto simp: GetElementType_def element_types_def typeStrMap_def)

lemma plain_convert: "plain_kind k \<Longrightarrow> ConvertByteSliceInto (GetElementType k) bs = Some (SwapSliceByte bs k)"
  unfolding plain_kind_def by (auto simp: GetElementType_def element_types_def ConvertByteSliceInto_def)

lemma plain_size: "plain_kind k \<Longrightarrow> kind_size k \<le> 8"
  unfolding plain_kind_def by auto

lemma named_nth:
  assumes "plain_series cs" "j < length (named cs)"
  shows "cs_GetColumn (fst (named cs ! j)) cs = Some (snd (named cs ! j))" "plain_kind (ckind (snd (named cs ! j)))"
    "col_ok (snd (named cs ! j))" "length (celems (snd (named cs ! j))) = row_count cs"
proof -
  obtain nm c where nc: "named cs ! j = (nm, c)" by (cases "named cs ! j")
  with assms(2) have mem: "(nm, c) \<in> set (named cs)" using nth_mem by metis
  from named_table [OF assms(1)] mem show p: "plain_kind (ckind (snd (named cs ! j)))" "col_ok (snd (named cs ! j))"
      "length (celems (snd (named cs ! j))) = row_count cs"
    by (auto simp: table_ok_def nc row_count_def)
  show "cs_GetColumn (fst (named cs ! j)) cs = Some (snd (named cs ! j))"
    using named_lookup [OF assms(1) mem] plain_type(3) [OF p(1)] by (simp add: nc cs_GetColumn_def GetByName_def)
qed

lemma names_named: "orderedNames cs = map fst (named cs)"
  by (simp add: named_def comp_def)

lemma length_col_data: "plain_series cs \<Longrightarrow> j < length (named cs) \<Longrightarrow>
    length (col_data cs j) = row_count cs * kind_size (ckind (snd (named cs ! j)))"
  using named_nth [of cs j] by (simp add: col_data_def length_col_bytes)

lemma plain_Len: "plain_series cs \<Longrightarrow> cs_Len cs = Inr (row_count cs)"
proof -
  assume cs: "plain_series cs"
  then have ne: "0 < length (named cs)" by (auto simp: plain_series_def named_def)
  then have o: "orderedNames cs = fst (named cs ! 0) # tl (orderedNames cs)"
    by (cases "orderedNames cs") (simp_all add: named_def)
  show ?thesis using named_nth [OF cs ne] by (subst cs_Len_def, subst o) (simp add: cs_GetColumn_def)
qed

text \<open>The bytes of all columns of a series.\<close>

lemma cast_named:
  assumes "plain_series cs"
  shows "res_map (\<lambda>name. case cs_GetColumn name cs of None \<Rightarrow> Inl e | Some c \<Rightarrow> Inr (CastToByteSlice c)) (orderedNames cs)
    = Inr (map (col_data cs) [0..<length (named cs)])"
proof -
  have "res_map (\<lambda>name. case cs_GetColumn name cs of None \<Rightarrow> Inl e | Some c \<Rightarrow> Inr (CastToByteSlice c)) (map fst (named cs))
    = Inr (map (\<lambda>name. CastToByteSlice (the (cs_GetColumn name cs))) (map fst (named cs)))"
    by (rule res_map_Inr) (auto simp: in_set_conv_nth dest!: named_nth(1) [OF assms])
  moreover have "map (\<lambda>name. CastToByteSlice (the (cs_GetColumn name cs))) (map fst (named cs)) = map (col_data cs) [0..<length (named cs)]"
    by (rule nth_equalityI) (auto simp: named_nth [OF assms] CastToByteSlice_ok col_data_def)
  ultimately show ?thesis by (simp only: names_named)
qed

text \<open>Packing one series, and one more.\<close>

lemma NewNumpyDataset_plain:
  assumes "plain_series cs"
  shows "NewNumpyDataset cs = Inr \<lparr>ColumnTypes = map (the \<circ> typeMap \<circ> dsType) (cs_GetDataShapes cs), ColumnNames = map dsName (cs_GetDataShapes cs),
    ColumnData = map (col_data cs) [0..<length (cs_GetDataShapes cs)], ndLength = int (row_count cs), dataShapes = cs_GetDataShapes cs\<rparr>"
proof -
  let ?f = "\<lambda>nc :: string \<times> column. (the (typeMap (GetElementType (ckind (snd nc)))), fst nc, concat (celems (snd nc)))"
  have z: "zip (map fst (named cs)) (map shape_of (named cs)) = map (\<lambda>nc. (fst nc, shape_of nc)) (named cs)"
    by (rule nth_equalityI) auto
  have "dataset_column cs (fst nc, shape_of nc) = Inr (?f nc)" if nc: "nc \<in> set (named cs)" for nc
  proof -
    obtain j where j: "j < length (named cs)" "nc = named cs ! j" using nc by (auto simp: in_set_conv_nth)
    from named_nth [OF assms j(1)] plain_types [of "ckind (snd nc)"] show ?thesis
      by (auto simp: j(2) dataset_column_def shape_of_def CastToByteSlice_ok)
  qed
  then have m: "res_map (\<lambda>nc. dataset_column cs (fst nc, shape_of nc)) (named cs) = Inr (map ?f (named cs))"
    by (rule res_map_Inr)
  have rm: "res_map g (map h xs) = res_map (\<lambda>x. g (h x)) xs" for g :: "'b \<Rightarrow> 'c result" and h :: "'a \<Rightarrow> 'b" and xs
    by (induction xs) simp_all
  have d: "map (\<lambda>nc. concat (celems (snd nc))) (named cs) = map (col_data cs) [0..<length (named cs)]"
    by (rule nth_equalityI) (auto simp: col_data_def)
  show ?thesis
    unfolding NewNumpyDataset_def plain_Len [OF assms] GetColumnNames_def names_named named_shapes z rm m res_bind_simps
    by (simp add: comp_def shape_of_def d)
qed

lemma same_names_self: "same_names ns ns = Inr True"
proof -
  have "find (\<lambda>(i, name). length ns \<le> i \<or> name \<noteq> ns ! i) (enumerate 0 ns) = None"
    by (auto simp: find_None_iff in_set_conv_nth nth_enumerate_eq)
  then show ?thesis by (simp add: same_names_def)
qed

lemma starts_snoc: "starts s (kcs @ [(k, cs)]) = starts s kcs @ [(key_String k, int (s + total_rows kcs))]"
  by (induction kcs arbitrary: s) (auto simp: total_rows_def)

lemma fst_starts: "map fst (starts s kcs) = map (key_String \<circ> fst) kcs"
  by (induction kcs arbitrary: s) auto

lemma update_fresh: "k \<notin> fst ` set al \<Longrightarrow> AList.update k v al = al @ [(k, v)]"
  by (induction al) auto

lemma Append_packed:
  assumes cs: "plain_series cs" "cs_GetDataShapes cs = shs" and k: "k \<notin> fst ` set kcs" and b: "int (total_rows kcs + row_count cs) < 2 ^ 63"
  shows "Append cs k (packed shs kcs) = Inr (packed shs (kcs @ [(k, cs)]))"
proof -
  have ne: "orderedNames cs \<noteq> []" using cs(1) by (simp add: plain_series_def)
  have shs: "length shs = length (named cs)" "map dsName shs = orderedNames cs"
    using cs(2) [symmetric] by (simp_all add: named_shapes names_named comp_def shape_of_def)
  have key: "key_String k \<notin> fst ` set (starts 0 kcs)" "key_String k \<notin> fst ` set (map (\<lambda>(k, cs). (key_String k, int (row_count cs))) kcs)"
  proof -
    have "key_String k \<notin> (key_String \<circ> fst) ` set kcs" using k by (auto simp: key_String_def image_iff)
    moreover have "fst ` set (starts 0 kcs) = (key_String \<circ> fst) ` set kcs" using fst_starts [of 0 kcs] by (metis list.set_map)
    ultimately show "key_String k \<notin> fst ` set (starts 0 kcs)" "key_String k \<notin> fst ` set (map (\<lambda>(k, cs). (key_String k, int (row_count cs))) kcs)"
      by (auto simp: image_iff)
  qed
  have data: "map (\<lambda>(d, b). d @ b) (zip (ColumnData (packed shs kcs)) (map (col_data cs) [0..<length (named cs)])) = ColumnData (packed shs (kcs @ [(k, cs)]))"
    by (rule nth_equalityI) (auto simp: packed_def shs(1))
  have n: "length (ColumnData (packed shs kcs)) = GetNumColumns cs"
    using ne by (simp add: packed_def shs(1) GetNumColumns_def cs_IsEmpty_def names_named)
  have len: "to_int64 (int (total_rows kcs) + int (row_count cs)) = int (total_rows (kcs @ [(k, cs)]))"
    using b to_int_id(4) [of "int (total_rows kcs) + int (row_count cs)"] by (simp add: total_rows_def)
  have names: "ColumnNames (packed shs kcs) = orderedNames cs" by (simp add: packed_def shs(2))
  show ?thesis
    unfolding Append_def n names GetColumnNames_def same_names_self plain_Len [OF cs(1)] cast_named [OF cs(1)] res_bind_simps data
    using key by (simp add: packed_def update_fresh starts_snoc) (use len in \<open>simp add: total_rows_def\<close>)
qed

lemma pack_packed:
  assumes "\<forall>(k, cs) \<in> set rest. plain_series cs \<and> cs_GetDataShapes cs = shs" "distinct (map fst (kcs @ rest))"
    "int (total_rows (kcs @ rest)) < 2 ^ 63"
  shows "pack_series rest (Some (packed shs kcs)) = Inr (Some (packed shs (kcs @ rest)))"
  using assms
proof (induction rest arbitrary: kcs)
  case (Cons p rest)
  obtain k cs where p: "p = (k, cs)" by (cases p)
  have "int (total_rows kcs + row_count cs) < 2 ^ 63" using Cons.prems(3) by (simp add: p total_rows_def)
  then have "Append cs k (packed shs kcs) = Inr (packed shs (kcs @ [(k, cs)]))"
    using Cons.prems p by (intro Append_packed) auto
  moreover have "is_ok (NewNumpyDataset cs)" using Cons.prems(1) p by (auto simp: NewNumpyDataset_plain)
  ultimately show ?case using Cons.IH [of "kcs @ [(k, cs)]"] Cons.prems p by (auto elim!: is_ok.elims)
qed simp

section \<open>What is read back\<close>

definition restored :: "ColumnSeries \<Rightarrow> ColumnSeries" where
  "restored cs = \<lparr>columns = named cs, orderedNames = orderedNames cs, candleAttributes = 0, nameIncrement = []\<rparr>"

lemma add_fresh_columns:
  assumes "distinct (map dsName ss)" "length cols = length ss" "fst ` set (columns cs) \<inter> dsName ` set ss = {}"
  shows "fold (\<lambda>(s, c) cs. fst (AddColumn (dsName s) c cs)) (zip ss cols) cs
    = cs\<lparr>columns := columns cs @ zip (map dsName ss) cols, orderedNames := orderedNames cs @ map dsName ss\<rparr>"
  using assms
proof (induction ss arbitrary: cols cs)
  case (Cons s ss)
  obtain c cols' where c: "cols = c # cols'" using Cons.prems(2) by (cases cols) auto
  have s: "dsName s \<notin> fst ` set (columns cs)" using Cons.prems(3) by auto
  then have "AddColumn (dsName s) c cs = (cs\<lparr>orderedNames := orderedNames cs @ [dsName s], columns := columns cs @ [(dsName s, c)]\<rparr>, dsName s)"
    using AddColumn_fresh [of "dsName s" cs c] by (simp add: update_fresh Exists_keys keys_def)
  then show ?case using Cons.IH [of cols' "cs\<lparr>orderedNames := orderedNames cs @ [dsName s], columns := columns cs @ [(dsName s, c)]\<rparr>"] Cons.prems
    by (auto simp: c)
qed simp

lemma add_series_fresh:
  assumes "key \<notin> fst ` set csm" "distinct ns" "columns cs = map (\<lambda>n. (n, f n)) ns" "orderedNames cs = ns"
    "candleAttributes cs = 0" "nameIncrement cs = []" "ns \<noteq> []"
  shows "AddColumnSeries key cs csm = csm @ [(key, cs)]"
proof -
  let ?part = "\<lambda>ms. \<lparr>columns = map (\<lambda>n. (n, f n)) ms, orderedNames = ms, candleAttributes = 0, nameIncrement = []\<rparr>"
  have get: "column_or_nil cs n = f n" if "n \<in> set ns" for n
    using that assms(3) by (simp add: column_or_nil_def map_of_map_restrict)
  have "fold (\<lambda>name. csm_AddColumn key name (column_or_nil cs name)) (take (Suc i) ns) csm = csm @ [(key, ?part (take (Suc i) ns))]"
    if "i < length ns" for i
    using that
  proof (induction i)
    case 0
    then obtain n ns' where ns: "ns = n # ns'" by (cases ns) auto
    have "map_of csm key = None" using assms(1) by (simp add: map_of_eq_None_iff)
    then show ?case using assms(1) get [of n]
      by (simp add: ns csm_AddColumn_def NewColumnSeries_def AddColumn_def Exists_def update_fresh)
  next
    case (Suc i)
    have key: "map_of (csm @ [(key, v)]) key = Some v" "AList.update key w (csm @ [(key, v)]) = csm @ [(key, w)]" for v w :: ColumnSeries
      using assms(1) by (induction csm) auto
    have fresh: "ns ! Suc i \<notin> set (take (Suc i) ns)" using assms(2) Suc.prems
      by (metis append_Cons distinct_append id_take_nth_drop not_distinct_conv_prefix take_Suc_conv_app_nth)
    then have "ns ! Suc i \<notin> fst ` set (map (\<lambda>n. (n, f n)) (take (Suc i) ns))" by auto
    then have "AddColumn (ns ! Suc i) (f (ns ! Suc i)) (?part (take (Suc i) ns)) = (?part (take (Suc (Suc i)) ns), ns ! Suc i)"
      using AddColumn_fresh [of "ns ! Suc i" "?part (take (Suc i) ns)"] Suc.prems
      by (auto simp: Exists_keys keys_def update_fresh take_Suc_conv_app_nth image_iff)
    then show ?case using Suc get [of "ns ! Suc i"] by (simp add: take_Suc_conv_app_nth [of "Suc i"] csm_AddColumn_def key del: map_of_append)
  qed
  from this [of "length ns - 1"] assms show ?thesis by (simp add: AddColumnSeries_def)
qed

lemma data_of_series:
  assumes "\<forall>(k, cs) \<in> set (pre @ (k, cs) # post). plain_series cs \<and> cs_GetDataShapes cs = shs" "j < length shs"
    and "8 * int (total_rows (pre @ (k, cs) # post)) < 2 ^ 63"
  shows "dataset_part (ColumnData (packed shs (pre @ (k, cs) # post))) (int (total_rows pre)) (int (row_count cs)) (j, shs ! j)
    = Inr (snd (named cs ! j))"
proof -
  let ?c = "snd (named cs ! j)" and ?n = "total_rows pre"
  let ?w = "kind_size (ckind ?c)"
  have cs: "plain_series cs" "cs_GetDataShapes cs = shs" using assms(1) by auto
  have j: "j < length (named cs)" "shs ! j = shape_of (named cs ! j)" using assms(2) cs(2) [symmetric] by (simp_all add: named_shapes)
  note c = named_nth [OF cs(1) j(1)]
  have w: "int (Size (dsType (shs ! j))) = int ?w" by (simp add: j(2) shape_of_def plain_type [OF c(2)])
  have same: "kind_size (ckind (snd (named ds ! j))) = ?w" if "(l, ds) \<in> set pre" for l ds
  proof -
    have ds: "plain_series ds" "cs_GetDataShapes ds = shs" using assms(1) that by auto
    then have jd: "j < length (named ds)" "shs ! j = shape_of (named ds ! j)" using assms(2) ds(2) [symmetric] by (simp_all add: named_shapes)
    have "GetElementType (ckind (snd (named ds ! j))) = GetElementType (ckind ?c)" using jd(2) j(2) by (simp add: shape_of_def)
    with plain_type(1) [OF named_nth(2) [OF ds(1) jd(1)]] plain_type(1) [OF c(2)] show ?thesis by simp
  qed
  have "\<forall>(l, ds) \<in> set pre. plain_series ds \<and> cs_GetDataShapes ds = shs" using assms(1) by auto
  with same have "length (concat (map (\<lambda>(_, ds). col_data ds j) pre)) = ?n * ?w"
  proof (induction pre)
    case (Cons p pre)
    obtain l ds where p: "p = (l, ds)" by (cases p)
    have "plain_series ds" "cs_GetDataShapes ds = shs" using Cons.prems(2) p by auto
    then have "length (col_data ds j) = row_count ds * ?w"
      using length_col_data [of ds j] Cons.prems(1) [of l ds] assms(2) by (auto simp: p named_shapes)
    moreover have "length (concat (map (\<lambda>(_, ds). col_data ds j) pre)) = total_rows pre * ?w"
      using Cons.prems by (intro Cons.IH) auto
    ultimately show ?case by (simp add: p total_rows_def algebra_simps)
  qed (simp add: total_rows_def)
  moreover have "length (col_data cs j) = row_count cs * ?w" using length_col_data [OF cs(1) j(1)] .
  moreover have data: "ColumnData (packed shs (pre @ (k, cs) # post)) ! j
      = concat (map (\<lambda>(_, ds). col_data ds j) pre) @ col_data cs j @ concat (map (\<lambda>(_, ds). col_data ds j) post)"
    using assms(2) by (simp add: packed_def)
  ultimately have slice: "go_slice (int (?n * ?w)) (int (?n * ?w + row_count cs * ?w)) (ColumnData (packed shs (pre @ (k, cs) # post)) ! j)
      = Inr (col_data cs j)"
    by (subst go_slice_nat) (simp_all add: data)
  have bound: "int (?n * ?w + row_count cs * ?w) < 2 ^ 63"
  proof -
    have "(?n + row_count cs) * ?w \<le> total_rows (pre @ (k, cs) # post) * 8"
      using plain_size [OF c(2)] by (intro mult_mono) (simp_all add: total_rows_def)
    then have "int (?n * ?w + row_count cs * ?w) \<le> 8 * int (total_rows (pre @ (k, cs) # post))" by (simp add: algebra_simps flip: of_nat_mult)
    with assms(3) show ?thesis by linarith
  qed
  have t: "to_int64 (int x) = int x" if "x \<le> ?n * ?w + row_count cs * ?w" for x
    using bound that by (subst to_int_id(4)) linarith+
  have wrap: "to_int64 (int ?n * int ?w) = int (?n * ?w)" "to_int64 (int (row_count cs) * int ?w) = int (row_count cs * ?w)"
      "to_int64 (int (?n * ?w) + int (row_count cs * ?w)) = int (?n * ?w + row_count cs * ?w)"
    using t [of "?n * ?w"] t [of "row_count cs * ?w"] t [of "?n * ?w + row_count cs * ?w"]
    unfolding of_nat_mult of_nat_add by simp_all
  have conv: "ConvertByteSliceInto (dsType (shs ! j)) (col_data cs j) = Some ?c"
    using SwapSliceByte_Cast [OF c(3)] plain_type(2) [OF c(2)] CastToByteSlice_ok [OF c(3)]
    by (simp add: j(2) shape_of_def plain_convert [OF c(2)] col_data_def)
  have nth: "go_nth (ColumnData (packed shs (pre @ (k, cs) # post))) j = Inr (ColumnData (packed shs (pre @ (k, cs) # post)) ! j)"
    using assms(2) by (simp add: go_nth_def packed_def)
  show ?thesis unfolding dataset_part_def prod.case Let_def w wrap nth res_bind_simps slice conv by simp
qed

lemma buildDataShapes_packed:
  assumes "plain_series cs" "cs_GetDataShapes cs = shs"
  shows "buildDataShapes ((packed shs kcs)\<lparr>dataShapes := d\<rparr>) = Inr shs"
proof -
  have types: "typeStrMap (the (typeMap (dsType s))) = Some (dsType s)" if s: "s \<in> set shs" for s
  proof -
    obtain j where j: "j < length (named cs)" "s = shape_of (named cs ! j)"
      using s assms(2) by (auto simp: named_shapes in_set_conv_nth)
    from plain_types [OF named_nth(2) [OF assms(1) j(1)]] show ?thesis by (auto simp: j(2) shape_of_def)
  qed
  have "res_map (\<lambda>s. case typeStrMap s of None \<Rightarrow> Inl (Err ''unsupported type string'') | Some t \<Rightarrow> Inr t) (map (the \<circ> typeMap \<circ> dsType) ss)
      = Inr (map dsType ss)" if "set ss \<subseteq> set shs" for ss
    using that by (induction ss) (auto simp: types)
  moreover have "map (\<lambda>(n, t). \<lparr>dsName = n, dsType = t\<rparr>) (zip (map dsName shs) (map dsType shs)) = shs"
    by (rule nth_equalityI) auto
  ultimately show ?thesis by (simp add: buildDataShapes_def packed_def NewDataShapeVector_def)
qed

lemma series_at:
  assumes all: "\<forall>(k, cs) \<in> set (pre @ (k, cs) # post). plain_series cs \<and> cs_GetDataShapes cs = shs"
    and b: "8 * int (total_rows (pre @ (k, cs) # post)) < 2 ^ 63" "0 < row_count cs" and d: "d \<in> {[], shs}"
  shows "ToColumnSeries_at (Some (int (total_rows pre), int (row_count cs))) ((packed shs (pre @ (k, cs) # post))\<lparr>dataShapes := d\<rparr>)
    = Inr (restored cs, (packed shs (pre @ (k, cs) # post))\<lparr>dataShapes := shs\<rparr>)"
proof -
  let ?kcs = "pre @ (k, cs) # post"
  have cs: "plain_series cs" "cs_GetDataShapes cs = shs" using all by auto
  have named: "map shape_of (named cs) = shs" using cs(2) by (simp add: named_shapes)
  have ne: "shs \<noteq> []" using cs(1) by (auto simp: plain_series_def named_shapes named_def simp flip: cs(2))
  have first: "go_nth (ColumnData (packed shs ?kcs)) 0 = Inr (ColumnData (packed shs ?kcs) ! 0)" "ColumnData (packed shs ?kcs) ! 0 \<noteq> []"
  proof -
    have j: "0 < length (named cs)" using ne named by auto
    have "0 < row_count cs * kind_size (ckind (snd (named cs ! 0)))"
      using b(2) plain_type(2) [OF named_nth(2) [OF cs(1) j]] by simp
    then have "col_data cs 0 \<noteq> []" by (simp flip: length_greater_0_conv add: length_col_data [OF cs(1) j])
    then show "go_nth (ColumnData (packed shs ?kcs)) 0 = Inr (ColumnData (packed shs ?kcs) ! 0)" "ColumnData (packed shs ?kcs) ! 0 \<noteq> []"
      using ne by (simp_all add: go_nth_def packed_def)
  qed
  have "res_map (dataset_part (ColumnData (packed shs ?kcs)) (int (total_rows pre)) (int (row_count cs))) (enumerate 0 shs)
      = Inr (map (\<lambda>p. snd (named cs ! fst p)) (enumerate 0 shs))"
    by (rule res_map_Inr) (auto simp: in_set_conv_nth nth_enumerate_eq data_of_series [OF all _ b(1)])
  moreover have "map (\<lambda>p. snd (named cs ! fst p)) (enumerate 0 shs) = map snd (named cs)"
    using named by (intro nth_equalityI) (auto simp: nth_enumerate_eq simp flip: named)
  ultimately have cols: "res_map (dataset_part (ColumnData (packed shs ?kcs)) (int (total_rows pre)) (int (row_count cs))) (enumerate 0 shs)
      = Inr (map snd (named cs))" by simp
  have names: "map dsName shs = map fst (named cs)" by (simp flip: named add: comp_def shape_of_def)
  have l: "length (map snd (named cs)) = length shs" by (simp flip: named)
  have "fold (\<lambda>(s, c) cs. fst (AddColumn (dsName s) c cs)) (zip shs (map snd (named cs))) NewColumnSeries
      = NewColumnSeries\<lparr>columns := columns NewColumnSeries @ zip (map dsName shs) (map snd (named cs)),
          orderedNames := orderedNames NewColumnSeries @ map dsName shs\<rparr>"
    using l by (intro add_fresh_columns) (simp_all add: names named_distinct [OF cs(1)] NewColumnSeries_def)
  then have "fold (\<lambda>(s, c) cs. fst (AddColumn (dsName s) c cs)) (zip shs (map snd (named cs))) NewColumnSeries = restored cs"
    unfolding names zip_map_fst_snd restored_def names_named [of cs] by (simp add: NewColumnSeries_def)
  then show ?thesis using d ne buildDataShapes_packed [OF cs] by (auto simp: ToColumnSeries_at_def first cols)
qed

lemma unpack:
  assumes "packable shs (pre @ post)" "d \<in> {[], shs}" "map fst csm = map fst pre"
  shows "series_from (starts (total_rows pre) post) ((packed shs (pre @ post))\<lparr>dataShapes := d\<rparr>) csm
    = Inr (csm @ map (\<lambda>(k, cs). (k, restored cs)) post)"
  using assms
proof (induction post arbitrary: pre d csm)
  case (Cons p post)
  obtain k cs where p: "p = (k, cs)" by (cases p)
  let ?m = "packed shs (pre @ (k, cs) # post)"
  have pk: "packable shs (pre @ (k, cs) # post)" using Cons.prems(1) p by simp
  then have cs: "plain_series cs" "0 < row_count cs" "NewTimeBucketKeyFromString (key_String k) = k" "8 * int (total_rows (pre @ (k, cs) # post)) < 2 ^ 63"
    and all: "\<forall>(k, cs) \<in> set (pre @ (k, cs) # post). plain_series cs \<and> cs_GetDataShapes cs = shs"
    and dist: "distinct (map fst (pre @ (k, cs) # post))"
    unfolding packable_def by (auto simp: key_String_def)
  have "map fst (Lengths ?m) = map key_String (map fst (pre @ (k, cs) # post))" by (simp add: packed_def comp_def split_beta)
  moreover have "inj key_String" by (auto simp: inj_def key_String_def)
  ultimately have dk: "distinct (map fst (Lengths ?m))" using dist by (simp only: distinct_map [of key_String]) (meson inj_on_subset subset_UNIV)
  have len: "map_of (Lengths ?m) (key_String k) = Some (int (row_count cs))"
    using dk by (intro map_of_is_SomeI) (auto simp: packed_def)
  have at: "ToColumnSeries_at (Some (int (total_rows pre), int (row_count cs))) (?m\<lparr>dataShapes := d\<rparr>) = Inr (restored cs, ?m\<lparr>dataShapes := shs\<rparr>)"
    using series_at [OF all cs(4) cs(2) Cons.prems(2)] .
  have add: "AddColumnSeries k (restored cs) csm = csm @ [(k, restored cs)]"
  proof (rule add_series_fresh)
    show "k \<notin> fst ` set csm" using dist Cons.prems(3) by (metis (no_types, lifting) disjoint_iff distinct_append fst_conv list.set_intros(1) list.set_map list.simps(9) map_append)
    show "columns (restored cs) = map (\<lambda>n. (n, column_or_nil cs n)) (orderedNames cs)" by (simp add: restored_def named_def)
    show "distinct (orderedNames cs)" using named_distinct [OF cs(1)] by (simp add: names_named)
  qed (use cs(1) in \<open>simp_all add: restored_def plain_series_def\<close>)
  have "series_from (starts (total_rows (pre @ [(k, cs)])) post) ((packed shs ((pre @ [(k, cs)]) @ post))\<lparr>dataShapes := shs\<rparr>) (csm @ [(k, restored cs)])
      = Inr ((csm @ [(k, restored cs)]) @ map (\<lambda>(k, cs). (k, restored cs)) post)"
    using pk Cons.prems(3) by (intro Cons.IH) simp_all
  then show ?case using cs(2,3) by (simp add: p len at add total_rows_snoc)
qed simp

text \<open>
  C25: Series of the same columns and types, at least one row each, under different keys: packing them into one dataset succeeds, and the receiver, who gets
  the dataset without its data shapes, reads back for every key a series with the same columns in the same order.
\<close>

theorem dataset_roundtrip:
  assumes "packable shs kcs" "kcs \<noteq> []"
  shows "\<exists>nmds csm. pack_series kcs None = Inr (Some nmds) \<and> nmds_ToColumnSeriesMap (received nmds) = Inr csm \<and> map fst csm = map fst kcs \<and>
    (\<forall>(k, cs) \<in> set kcs. \<exists>cs'. map_of csm k = Some cs' \<and> orderedNames cs' = orderedNames cs \<and> map_of (columns cs') = map_of (columns cs))"
proof -
  obtain k cs rest where kcs: "kcs = (k, cs) # rest" using assms(2) by (cases kcs) auto
  have p: "plain_series cs" "cs_GetDataShapes cs = shs" using assms(1) by (auto simp: packable_def kcs)
  have one: "NewNumpyMultiDataset nds k = packed shs [(k, cs)]" if "NewNumpyDataset cs = Inr nds" for nds
    using that by (auto simp: NewNumpyDataset_plain [OF p(1)] p(2) NewNumpyMultiDataset_def packed_def total_rows_def)
  have "pack_series rest (Some (packed shs [(k, cs)])) = Inr (Some (packed shs ([(k, cs)] @ rest)))"
    using assms(1) by (intro pack_packed) (auto simp: packable_def kcs)
  then have packed: "pack_series kcs None = Inr (Some (packed shs kcs))"
    using one by (auto simp: kcs NewNumpyDataset_plain [OF p(1)])
  have restored: "map_of (columns (restored cs)) = map_of (columns cs)" if "plain_series cs" for cs
  proof
    fix n
    have "dom (map_of (columns cs)) = set (orderedNames cs)"
      using that by (auto simp: plain_series_def series_ok_def keys_def dom_map_of_conv_image_fst)
    then show "map_of (columns (restored cs)) n = map_of (columns cs) n"
      by (cases "map_of (columns cs) n") (auto simp: restored_def named_def map_of_map_restrict restrict_map_def column_or_nil_def
          simp flip: domIff)
  qed
  have "nmds_ToColumnSeriesMap (received (packed shs kcs)) = Inr (map (\<lambda>(k, cs). (k, restored cs)) kcs)"
    using unpack [of shs "[]" kcs "[]" "[]"] assms(1)
    by (simp add: nmds_ToColumnSeriesMap_def received_def NewColumnSeriesMap_def total_rows_def) (simp add: packed_def)
  moreover have "map_of (map (\<lambda>(k, cs). (k, restored cs)) kcs) l = Some (restored c)" if "(l, c) \<in> set kcs" for l c
    using that assms(1) by (simp add: packable_def map_of_map)
  moreover have "plain_series c" if "(l, c) \<in> set kcs" for l c using that assms(1) by (auto simp: packable_def)
  moreover have "orderedNames (restored c) = orderedNames c" for c by (simp add: restored_def)
  ultimately show ?thesis using packed by (auto simp: restored split_beta comp_def)
qed

definition two_series :: ColumnSeriesMap where
  "two_series = [(NewTimeBucketKey ''AAPL/1Min/TICK'' [], sample_series), (NewTimeBucketKey ''TSLA/1Min/TICK'' [], sample_series)]"

lemma two_packable: "packable (cs_GetDataShapes sample_series) two_series"
proof -
  have "row_count sample_series = 3" by (simp add: row_count_def sample_epochs)
  moreover have "NewTimeBucketKeyFromString (Key (NewTimeBucketKey ''AAPL/1Min/TICK'' [])) = NewTimeBucketKey ''AAPL/1Min/TICK'' []"
    "NewTimeBucketKeyFromString (Key (NewTimeBucketKey ''TSLA/1Min/TICK'' [])) = NewTimeBucketKey ''TSLA/1Min/TICK'' []"
    "NewTimeBucketKey ''AAPL/1Min/TICK'' [] \<noteq> NewTimeBucketKey ''TSLA/1Min/TICK'' []"
    by code_simp+
  ultimately show ?thesis using sample_plain by (simp add: packable_def two_series_def total_rows_def)
qed

theorem dataset_roundtrip_witness:
  "\<exists>nmds csm cs. pack_series two_series None = Inr (Some nmds) \<and> nmds_ToColumnSeriesMap (received nmds) = Inr csm
     \<and> map_of csm (NewTimeBucketKey ''TSLA/1Min/TICK'' []) = Some cs \<and> map_of (columns cs) = map_of (columns sample_series)"
  using dataset_roundtrip [OF two_packable] by (auto simp: two_series_def)

text \<open>
  A series with other columns than the first one of the result is left out of the answer, and the query succeeds without it.
\<close>

theorem other_columns_left_out:
  assumes "is_ok (NewNumpyDataset cs)" "length (ColumnData m) \<noteq> GetNumColumns cs \<or> same_names (ColumnNames m) (GetColumnNames cs) = Inr False"
  shows "pack_series ((tbk, cs) # csm) (Some m) = pack_series csm (Some m)"
  using assms by (auto simp: Append_def elim!: is_ok.elims)

end
