(* ===== verification/Predicates.thy ===== *)
theory Predicates
  imports Aggregates
begin

text \<open>
  Static predicates of queries (\<^verbatim>\<open>sqlparser/selectrelation.go\<close>), the comparison of values (\<^verbatim>\<open>utils/io/generics.go\<close>) and the part of the statement
  builder that collects predicates from a \<^verbatim>\<open>WHERE\<close> expression (\<^verbatim>\<open>sqlparser/executablestatement.go\<close>). Values are literals, of the types \<^verbatim>\<open>int64\<close>,
  \<^verbatim>\<open>float64\<close>, \<^verbatim>\<open>bool\<close> or \<^verbatim>\<open>string\<close>; a \<^verbatim>\<open>nil\<close> interface is \<open>None\<close>. The operations of floats are an argument, and so is \<^verbatim>\<open>time.Parse\<close>.
\<close>

section \<open>Comparing values\<close>

definition numeric_datum :: "datum \<Rightarrow> bool" where
  "numeric_datum d \<longleftrightarrow> datum_kind d \<in> {KInt32, KInt64, KFloat32, KFloat64}"

definition GetValueAsFloat64 :: "float_conv \<Rightarrow> datum option \<Rightarrow> bytes result" where
  "GetValueAsFloat64 fconv v = (case v of
      Some d \<Rightarrow> if numeric_datum d then Inr (convert_elem fconv (datum_kind d) KFloat64 (DataToByteSlice d)) else Inl (Err ''Not a float'')
    | None \<Rightarrow> Inl (Err ''Not a float''))"

definition GetValueAsInt64 :: "float_conv \<Rightarrow> datum option \<Rightarrow> bytes result" where
  "GetValueAsInt64 fconv v = (case v of
      Some d \<Rightarrow> if numeric_datum d then Inr (convert_elem fconv (datum_kind d) KInt64 (DataToByteSlice d)) else Inl (Err ''Not an int'')
    | None \<Rightarrow> Inl (Err ''Not an int''))"

text \<open>Equality in Go; \<open><=\<close> on floats is not the negation of \<open>>\<close>, because of \<^verbatim>\<open>NaN\<close>.\<close>

definition go_eq :: "float_ops \<Rightarrow> kind \<Rightarrow> bytes \<Rightarrow> bytes \<Rightarrow> bool" where
  "go_eq ops k a b \<longleftrightarrow> (if k = KFloat32 then eq32 ops a b else if k = KFloat64 then eq64 ops a b else elem_int k a = elem_int k b)"

definition go_le :: "float_ops \<Rightarrow> kind \<Rightarrow> bytes \<Rightarrow> bytes \<Rightarrow> bool" where
  "go_le ops k a b \<longleftrightarrow> go_less ops k a b \<or> go_eq ops k a b"

definition go_compare :: "float_ops \<Rightarrow> kind \<Rightarrow> ComparisonOperatorEnum \<Rightarrow> bytes \<Rightarrow> bytes \<Rightarrow> bool option" where
  "go_compare ops k c l r = (case c of
      LT \<Rightarrow> Some (go_less ops k l r) | LTE \<Rightarrow> Some (go_le ops k l r)
    | GT \<Rightarrow> Some (go_less ops k r l) | GTE \<Rightarrow> Some (go_le ops k r l) | _ \<Rightarrow> None)"

text \<open>\<^verbatim>\<open>reflect.DeepEqual\<close>: values of one type, floats by their own equality.\<close>

definition deep_equal :: "float_ops \<Rightarrow> datum \<Rightarrow> datum \<Rightarrow> bool" where
  "deep_equal ops a b \<longleftrightarrow> datum_kind a = datum_kind b \<and>
     (if float_kind (datum_kind a) then go_eq ops (datum_kind a) (DataToByteSlice a) (DataToByteSlice b) else a = b)"

definition int_comparison :: "float_ops \<Rightarrow> float_conv \<Rightarrow> datum option \<Rightarrow> datum option \<Rightarrow> ComparisonOperatorEnum \<Rightarrow> bool result" where
  "int_comparison ops fconv left right c = (case GetValueAsInt64 fconv left of
      Inl _ \<Rightarrow> Inr False
    | Inr l \<Rightarrow> (case GetValueAsInt64 fconv right of
        Inl _ \<Rightarrow> Inl (Err ''Left and right values do not match'')
      | Inr r \<Rightarrow> Inr (case go_compare ops KInt64 c l r of Some b \<Rightarrow> b | None \<Rightarrow> False)))"

text \<open>
  \<^verbatim>\<open>GenericComparison\<close>: all numbers are compared as floats, so that the comparison as integers never decides.
\<close>

definition GenericComparison :: "float_ops \<Rightarrow> float_conv \<Rightarrow> datum option \<Rightarrow> datum option \<Rightarrow> ComparisonOperatorEnum \<Rightarrow> bool result" where
  "GenericComparison ops fconv left right c =
     (case (left, right) of
        (Some a, Some b) \<Rightarrow>
          if c = EQ then Inr (deep_equal ops a b)
          else if c = NEQ then Inr (\<not> deep_equal ops a b)
          else (case GetValueAsFloat64 fconv left of
              Inr l \<Rightarrow> (case GetValueAsFloat64 fconv right of
                  Inl _ \<Rightarrow> Inl (Err ''Left and right values do not match'')
                | Inr r \<Rightarrow> (case go_compare ops KFloat64 c l r of Some b \<Rightarrow> Inr b | None \<Rightarrow> int_comparison ops fconv left right c))
            | Inl _ \<Rightarrow> int_comparison ops fconv left right c)
      | _ \<Rightarrow> Inl (Err ''nil comparison value''))"

section \<open>Static predicates\<close>

unbundle bit_operations_syntax

type_synonym StaticPredicateContentsEnum = "16 word"

definition INLIST :: StaticPredicateContentsEnum where "INLIST = 2"
definition MINBOUND :: StaticPredicateContentsEnum where "MINBOUND = 4"
definition INCLUSIVEMIN :: StaticPredicateContentsEnum where "INCLUSIVEMIN = 8"
definition MAXBOUND :: StaticPredicateContentsEnum where "MAXBOUND = 16"
definition INCLUSIVEMAX :: StaticPredicateContentsEnum where "INCLUSIVEMAX = 32"
definition EQUALITY :: StaticPredicateContentsEnum where "EQUALITY = 64"
definition LIKEPATTERN :: StaticPredicateContentsEnum where "LIKEPATTERN = 128"

definition sp_AddOption :: "StaticPredicateContentsEnum \<Rightarrow> StaticPredicateContentsEnum \<Rightarrow> StaticPredicateContentsEnum" where
  "sp_AddOption option cat = cat OR option"

definition sp_DelOption :: "StaticPredicateContentsEnum \<Rightarrow> StaticPredicateContentsEnum \<Rightarrow> StaticPredicateContentsEnum" where
  "sp_DelOption option cat = cat AND NOT option"

definition sp_IsSet :: "StaticPredicateContentsEnum list \<Rightarrow> StaticPredicateContentsEnum \<Rightarrow> bool" where
  "sp_IsSet checkOption cat \<longleftrightarrow> list_all (\<lambda>co. cat AND co = co) checkOption"

definition sp_AnySet :: "StaticPredicateContentsEnum list \<Rightarrow> StaticPredicateContentsEnum \<Rightarrow> bool" where
  "sp_AnySet checkOption cat \<longleftrightarrow> list_ex (\<lambda>co. cat AND co = co) checkOption"

text \<open>Of the column reference only the name is used.\<close>

record StaticPredicate =
  spColumn :: string
  inlist :: "datum list"
  spMin :: "datum option"
  spMax :: "datum option"
  spEqual :: "datum option"
  likePattern :: string
  likeEsc :: string
  ContentsEnum :: StaticPredicateContentsEnum

abbreviation has :: "StaticPredicate \<Rightarrow> StaticPredicateContentsEnum \<Rightarrow> bool" where
  "has sp option \<equiv> sp_IsSet [option] (ContentsEnum sp)"

abbreviation add_option :: "StaticPredicateContentsEnum \<Rightarrow> StaticPredicate \<Rightarrow> StaticPredicate" where
  "add_option option sp \<equiv> sp\<lparr>ContentsEnum := sp_AddOption option (ContentsEnum sp)\<rparr>"

definition NewStaticPredicate :: "string \<Rightarrow> StaticPredicate" where
  "NewStaticPredicate column =
     \<lparr>spColumn = column, inlist = [], spMin = None, spMax = None, spEqual = None, likePattern = [], likeEsc = [], ContentsEnum = 0\<rparr>"

text \<open>The error of the comparison is dropped.\<close>

definition IsFalse :: "float_ops \<Rightarrow> float_conv \<Rightarrow> StaticPredicate \<Rightarrow> bool" where
  "IsFalse ops fconv sp = (case GenericComparison ops fconv (spMin sp) (spMax sp) GT of Inl _ \<Rightarrow> False | Inr match \<Rightarrow> match)"

definition SetMin :: "datum option \<Rightarrow> bool \<Rightarrow> StaticPredicate \<Rightarrow> StaticPredicate" where
  "SetMin newMin inclusive sp =
     (let sp = add_option MINBOUND (sp\<lparr>spMin := newMin\<rparr>) in if inclusive then add_option INCLUSIVEMIN sp else sp)"

definition SetMax :: "datum option \<Rightarrow> bool \<Rightarrow> StaticPredicate \<Rightarrow> StaticPredicate" where
  "SetMax newMax inclusive sp =
     (let sp = add_option MAXBOUND (sp\<lparr>spMax := newMax\<rparr>) in if inclusive then add_option INCLUSIVEMAX sp else sp)"

definition SetEqual :: "datum option \<Rightarrow> StaticPredicate \<Rightarrow> StaticPredicate" where
  "SetEqual newEQ sp = add_option EQUALITY (sp\<lparr>spEqual := newEQ\<rparr>)"

definition SetLike :: "string \<Rightarrow> string \<Rightarrow> StaticPredicate \<Rightarrow> StaticPredicate" where
  "SetLike pattern esc sp = add_option LIKEPATTERN (sp\<lparr>likePattern := pattern, likeEsc := esc\<rparr>)"

definition SetInlist :: "datum list \<Rightarrow> StaticPredicate \<Rightarrow> StaticPredicate" where
  "SetInlist l sp = add_option INLIST (sp\<lparr>inlist := l\<rparr>)"

text \<open>A bound that is already there is replaced when the new value does not lie within it.\<close>

definition AddComparison :: "float_ops \<Rightarrow> float_conv \<Rightarrow> ComparisonOperatorEnum \<Rightarrow> datum option \<Rightarrow> StaticPredicate \<Rightarrow> StaticPredicate \<times> go_err option" where
  "AddComparison ops fconv c val sp =
     (if c = EQ then (add_option EQUALITY (sp\<lparr>spEqual := val\<rparr>), None)
      else if c = LT \<or> c = LTE then
        (if spMax sp = None then (SetMax val (c = LTE) sp, None)
         else case GenericComparison ops fconv val (spMax sp) c of
             Inl e \<Rightarrow> (sp, Some e)
           | Inr isWithin \<Rightarrow> (if \<not> isWithin then SetMax val (c = LTE) sp else sp, None))
      else if c = GT \<or> c = GTE then
        (if spMin sp = None then (SetMin val (c = GTE) sp, None)
         else case GenericComparison ops fconv val (spMin sp) c of
             Inl e \<Rightarrow> (sp, Some e)
           | Inr isWithin \<Rightarrow> (if \<not> isWithin then SetMin val (c = GTE) sp else sp, None))
      else (sp, None))"

text \<open>A group maps the names of columns to predicates.\<close>

type_synonym StaticPredicateGroup = "(string \<times> StaticPredicate) list"

definition NewStaticPredicateGroup :: StaticPredicateGroup where "NewStaticPredicateGroup = []"

definition spg_Add :: "string \<Rightarrow> StaticPredicateGroup \<Rightarrow> StaticPredicateGroup \<times> StaticPredicate" where
  "spg_Add column spg = (case map_of spg column of
      Some sp \<Rightarrow> (spg, sp)
    | None \<Rightarrow> (AList.update column (NewStaticPredicate column) spg, NewStaticPredicate column))"

definition spg_AddComparison :: "float_ops \<Rightarrow> float_conv \<Rightarrow> string \<Rightarrow> ComparisonOperatorEnum \<Rightarrow> datum option \<Rightarrow> StaticPredicateGroup \<Rightarrow> StaticPredicateGroup" where
  "spg_AddComparison ops fconv column c val spg =
     (case spg_Add column spg of (spg, sp) \<Rightarrow> AList.update column (fst (AddComparison ops fconv c val sp)) spg)"

text \<open>\<^verbatim>\<open>Merge\<close> of a predicate that is not \<^verbatim>\<open>nil\<close>: what it does to the predicate of the group. The errors of the comparisons are dropped.\<close>

definition merge_into :: "float_ops \<Rightarrow> float_conv \<Rightarrow> StaticPredicate \<Rightarrow> StaticPredicate \<Rightarrow> StaticPredicate" where
  "merge_into ops fconv sp tgtSP =
     (let tgtSP = (if has sp MINBOUND then
            let t = add_option MINBOUND tgtSP
            in if has sp INCLUSIVEMIN then fst (AddComparison ops fconv GTE (spMin sp) (add_option INCLUSIVEMIN t))
               else fst (AddComparison ops fconv GT (spMin sp) t)
          else tgtSP);
          tgtSP = (if has sp MAXBOUND then
            let t = add_option MAXBOUND tgtSP
            in if has sp INCLUSIVEMAX then fst (AddComparison ops fconv LTE (spMax sp) (add_option INCLUSIVEMAX t))
               else fst (AddComparison ops fconv LT (spMax sp) t)
          else tgtSP);
          tgtSP = (if has sp EQUALITY then fst (AddComparison ops fconv EQ (spEqual sp) (add_option EQUALITY tgtSP)) else tgtSP);
          tgtSP = (if has sp LIKEPATTERN then SetLike (likePattern sp) (likeEsc sp) (add_option LIKEPATTERN tgtSP) else tgtSP)
      in if has sp INLIST then (add_option INLIST tgtSP)\<lparr>inlist := inlist tgtSP @ inlist sp\<rparr> else tgtSP)"

definition Merge :: "float_ops \<Rightarrow> float_conv \<Rightarrow> StaticPredicate \<Rightarrow> StaticPredicateGroup \<Rightarrow> StaticPredicateGroup" where
  "Merge ops fconv sp spg =
     (case spg_Add (spColumn sp) spg of (spg, tgtSP) \<Rightarrow> AList.update (spColumn sp) (merge_into ops fconv sp tgtSP) spg)"

section \<open>Removing rows\<close>

text \<open>The value of a bound at the type of a column; a bound that is no number counts as zero.\<close>

definition or_zero :: "kind \<Rightarrow> bytes result \<Rightarrow> bytes" where
  "or_zero k r = (case r of Inl _ \<Rightarrow> zero_value k | Inr b \<Rightarrow> b)"

definition bound_of :: "float_conv \<Rightarrow> kind \<Rightarrow> datum option \<Rightarrow> bytes" where
  "bound_of fconv k v =
     (if float_kind k then convert_elem fconv KFloat64 k (or_zero KFloat64 (GetValueAsFloat64 fconv v))
      else convert_elem fconv KInt64 k (or_zero KInt64 (GetValueAsInt64 fconv v)))"

definition removes :: "float_ops \<Rightarrow> float_conv \<Rightarrow> StaticPredicate \<Rightarrow> kind \<Rightarrow> bytes \<Rightarrow> bool" where
  "removes ops fconv sp k v \<longleftrightarrow>
     has sp EQUALITY \<and> \<not> go_eq ops k v (bound_of fconv k (spEqual sp)) \<or>
     has sp MINBOUND \<and> (if has sp INCLUSIVEMIN then go_less ops k v (bound_of fconv k (spMin sp)) else go_le ops k v (bound_of fconv k (spMin sp))) \<or>
     has sp MAXBOUND \<and> (if has sp INCLUSIVEMAX then go_less ops k (bound_of fconv k (spMax sp)) v else go_le ops k (bound_of fconv k (spMax sp)) v)"

definition filtered_kind :: "kind \<Rightarrow> bool" where
  "filtered_kind k \<longleftrightarrow> k \<in> {KFloat32, KFloat64, KInt32, KInt64}"

text \<open>The bitmap has a place for every row of the first column; a longer column makes the loop panic at a row to remove.\<close>

definition mark :: "float_ops \<Rightarrow> float_conv \<Rightarrow> StaticPredicate \<Rightarrow> column \<Rightarrow> bool list \<Rightarrow> bool list result" where
  "mark ops fconv sp col removalBitmap =
     (if filtered_kind (ckind col) then
        let rs = map (removes ops fconv sp (ckind col)) (celems col)
        in if list_ex (\<lambda>r. r) (drop (length removalBitmap) rs) then Inl index_panic
           else Inr (map (\<lambda>(i, b). b \<or> i < length rs \<and> rs ! i) (enumerate 0 removalBitmap))
      else Inr removalBitmap)"

fun mark_columns :: "float_ops \<Rightarrow> float_conv \<Rightarrow> StaticPredicateGroup \<Rightarrow> ColumnSeries \<Rightarrow> string list \<Rightarrow> bool list \<Rightarrow> bool list result" where
  "mark_columns ops fconv spg cs [] removalBitmap = Inr removalBitmap"
| "mark_columns ops fconv spg cs (name # names) removalBitmap =
     (case (map_of spg name, cs_GetColumn name cs) of
        (Some sp, Some col) \<Rightarrow> res_bind (mark ops fconv sp col removalBitmap) (mark_columns ops fconv spg cs names)
      | _ \<Rightarrow> mark_columns ops fconv spg cs names removalBitmap)"

definition apply_predicates :: "float_ops \<Rightarrow> float_conv \<Rightarrow> StaticPredicateGroup \<Rightarrow> ColumnSeries \<Rightarrow> ColumnSeries result" where
  "apply_predicates ops fconv spg cs = res_bind (cs_Len cs) (\<lambda>totalLength.
     res_bind (mark_columns ops fconv spg cs (GetColumnNames cs) (replicate totalLength False)) (\<lambda>removalBitmap. RestrictViaBitmap removalBitmap cs))"

section \<open>Expressions\<close>

text \<open>
  The nodes of the statement tree that the visitor handles; the generated parser builds them. A literal whose text is out of range is a \<^verbatim>\<open>nil\<close> node.
\<close>

datatype PrimaryExpressionEnum = NULL_LITERAL | STRING_LITERAL | BINARY_LITERAL | DECIMAL_LITERAL | INTEGER_LITERAL | BOOLEAN_LITERAL

datatype BinaryOperatorEnum = AND_OP | OR_OP

datatype PrimaryExpressionParse =
    LiteralP PrimaryExpressionEnum "datum option"
  | ColumnReferenceP string
  | FunctionCallP string bool "ExpressionParse list"
  | ParenthesizedP ExpressionParse
  | OtherP
  | NilP
and ValueExpressionParse = PrimaryV PrimaryExpressionParse | OtherV
and ExpressionParse = ValueE ValueExpressionParse | BooleanE BooleanExpressionParse
and BooleanExpressionParse =
    BinaryB BinaryOperatorEnum BooleanExpressionParse ExpressionParse
  | DefaultB ValueExpressionParse PredicateParse
  | LiteralB bool
and PredicateParse =
    ComparisonParse ComparisonOperatorEnum ValueExpressionParse
  | BetweenParse bool ValueExpressionParse ValueExpressionParse
  | QuantifiedComparisonParse
  | OtherPredicateParse

record Literal =
  litValue :: "datum option"
  litType :: PrimaryExpressionEnum

datatype call_arg = IdArg string | LitArg Literal

record FunctionCallReference =
  fcName :: string
  IsAsterisk :: bool
  fcArgs :: "call_arg list"

definition GetIDs :: "FunctionCallReference \<Rightarrow> string list" where
  "GetIDs fc = concat (map (\<lambda>a. case a of IdArg n \<Rightarrow> [n] | LitArg _ \<Rightarrow> []) (fcArgs fc))"

definition GetLiterals :: "FunctionCallReference \<Rightarrow> Literal list" where
  "GetLiterals fc = concat (map (\<lambda>a. case a of LitArg l \<Rightarrow> [l] | IdArg _ \<Rightarrow> []) (fcArgs fc))"

text \<open>Layouts of \<^verbatim>\<open>time.Parse\<close>, tried in this order; the parameter gives the seconds of the instant.\<close>

type_synonym time_parse = "string \<Rightarrow> string \<Rightarrow> int option"

definition date_formats :: "string list" where
  "date_formats = [''2006-01-02-15:04:05 MST'', ''2006-01-02-15:04:05'', ''2006-01-02-15:04'', ''2006-01-02'']"

fun try_formats :: "time_parse \<Rightarrow> string \<Rightarrow> string list \<Rightarrow> int option" where
  "try_formats tp v [] = None"
| "try_formats tp v (f # fs) = (case tp f v of Some t \<Rightarrow> Some t | None \<Rightarrow> try_formats tp v fs)"

definition CoerceToNumeric :: "time_parse \<Rightarrow> Literal \<Rightarrow> Literal result" where
  "CoerceToNumeric tp literal = (case litType literal of
      STRING_LITERAL \<Rightarrow> (case litValue literal of
          Some (Str v) \<Rightarrow> res_bind (go_slice 1 (int (length v) - 1) v) (\<lambda>v. case try_formats tp v date_formats of
              None \<Rightarrow> Inl (Err ''Unable to convert string to date'')
            | Some t \<Rightarrow> Inr \<lparr>litValue = Some (Int64 t), litType = INTEGER_LITERAL\<rparr>)
        | _ \<Rightarrow> Inl (Panic ''interface conversion''))
    | NULL_LITERAL \<Rightarrow> Inl (Err ''Unable to convert NULL to a numeric'')
    | _ \<Rightarrow> Inr literal)"

text \<open>What visiting a node gives, other than an error.\<close>

datatype visited = VNil | VLiteral Literal | VColumn string | VFunction FunctionCallReference

definition nil_visit :: go_err where
  "nil_visit = Panic ''invalid memory address or nil pointer dereference''"

text \<open>A bound of a predicate: any other value than a literal, an error too, is refused; a panic is not caught.\<close>

definition literal_of :: "time_parse \<Rightarrow> (visited \<times> 's) result \<Rightarrow> (datum option \<times> 's) result" where
  "literal_of tp r = (case r of
      Inr (VLiteral l, s) \<Rightarrow> res_bind (CoerceToNumeric tp l) (\<lambda>l. Inr (litValue l, s))
    | Inl (Panic e) \<Rightarrow> Inl (Panic e)
    | _ \<Rightarrow> Inl (Err ''Dynamic predicate bounds not supported''))"

definition call_arg_of :: "(visited \<times> 's) result \<Rightarrow> (call_arg \<times> 's) result" where
  "call_arg_of r = (case r of
      Inr (VColumn n, s) \<Rightarrow> Inr (IdArg n, s)
    | Inr (VLiteral l, s) \<Rightarrow> Inr (LitArg l, s)
    | Inl (Panic e) \<Rightarrow> Inl (Panic e)
    | _ \<Rightarrow> Inl (Err ''Error parsing column ref''))"

section \<open>The visitor\<close>

text \<open>
  Every function returns what the visit gives and the group of predicates afterwards. \<^verbatim>\<open>pendingSP\<close> is the argument of \<open>visit_predicate\<close>: it is set before a
  predicate is visited and used by that visit only.
\<close>

primrec visit_primary :: "float_ops \<Rightarrow> float_conv \<Rightarrow> time_parse \<Rightarrow> PrimaryExpressionParse \<Rightarrow> StaticPredicateGroup \<Rightarrow> (visited \<times> StaticPredicateGroup) result"
  and visit_args :: "float_ops \<Rightarrow> float_conv \<Rightarrow> time_parse \<Rightarrow> ExpressionParse list \<Rightarrow> StaticPredicateGroup \<Rightarrow> (call_arg list \<times> StaticPredicateGroup) result"
  and visit_value :: "float_ops \<Rightarrow> float_conv \<Rightarrow> time_parse \<Rightarrow> ValueExpressionParse \<Rightarrow> StaticPredicateGroup \<Rightarrow> (visited \<times> StaticPredicateGroup) result"
  and visit_expression :: "float_ops \<Rightarrow> float_conv \<Rightarrow> time_parse \<Rightarrow> ExpressionParse \<Rightarrow> StaticPredicateGroup \<Rightarrow> (visited \<times> StaticPredicateGroup) result"
  and visit_boolean :: "float_ops \<Rightarrow> float_conv \<Rightarrow> time_parse \<Rightarrow> BooleanExpressionParse \<Rightarrow> StaticPredicateGroup \<Rightarrow> (visited \<times> StaticPredicateGroup) result"
  and visit_predicate :: "float_ops \<Rightarrow> float_conv \<Rightarrow> time_parse \<Rightarrow> PredicateParse \<Rightarrow> StaticPredicate \<Rightarrow> StaticPredicateGroup
    \<Rightarrow> (StaticPredicate \<times> StaticPredicateGroup) result" where
  "visit_primary ops fconv tp (LiteralP t v) spg = Inr (VLiteral \<lparr>litValue = v, litType = t\<rparr>, spg)"
| "visit_primary ops fconv tp (ColumnReferenceP n) spg = Inr (VColumn n, spg)"
| "visit_primary ops fconv tp (FunctionCallP n asterisk es) spg =
     (if asterisk then Inr (VFunction \<lparr>fcName = n, IsAsterisk = True, fcArgs = []\<rparr>, spg)
      else res_bind (visit_args ops fconv tp es spg) (\<lambda>(args, spg). Inr (VFunction \<lparr>fcName = n, IsAsterisk = False, fcArgs = args\<rparr>, spg)))"
| "visit_primary ops fconv tp (ParenthesizedP e) spg = visit_expression ops fconv tp e spg"
| "visit_primary ops fconv tp OtherP spg = Inl (Err ''Unsupported primary expression found'')"
| "visit_primary ops fconv tp NilP spg = Inl nil_visit"
| "visit_args ops fconv tp [] spg = Inr ([], spg)"
| "visit_args ops fconv tp (e # es) spg =
     res_bind (call_arg_of (visit_expression ops fconv tp e spg)) (\<lambda>(a, spg). res_bind (visit_args ops fconv tp es spg) (\<lambda>(args, spg). Inr (a # args, spg)))"
| "visit_value ops fconv tp (PrimaryV p) spg = visit_primary ops fconv tp p spg"
| "visit_value ops fconv tp OtherV spg = Inl (Err ''Only Primary Expressions supported'')"
| "visit_expression ops fconv tp (ValueE v) spg = visit_value ops fconv tp v spg"
| "visit_expression ops fconv tp (BooleanE b) spg = visit_boolean ops fconv tp b spg"
| "visit_boolean ops fconv tp (DefaultB v p) spg =
     res_bind (visit_value ops fconv tp v spg) (\<lambda>(r, spg). case r of
         VNil \<Rightarrow> Inr (VNil, spg)
       | VColumn n \<Rightarrow> res_bind (visit_predicate ops fconv tp p (NewStaticPredicate n) spg) (\<lambda>(sp, spg). Inr (VNil, Merge ops fconv sp spg))
       | _ \<Rightarrow> Inl (Err ''Unknown type''))"
| "visit_boolean ops fconv tp (BinaryB operator l r) spg =
     res_bind (visit_boolean ops fconv tp l spg) (\<lambda>(_, spg). res_bind (visit_expression ops fconv tp r spg) (\<lambda>(v, spg). case v of
         VNil \<Rightarrow> Inr (VNil, spg)
       | VColumn n \<Rightarrow> Inl nil_visit
       | _ \<Rightarrow> Inl (Err ''Unknown type'')))"
| "visit_boolean ops fconv tp (LiteralB b) spg = Inl nil_visit"
| "visit_predicate ops fconv tp (ComparisonParse c v) sp spg =
     res_bind (literal_of tp (visit_value ops fconv tp v spg)) (\<lambda>(lit, spg). Inr (fst (AddComparison ops fconv c lit sp), spg))"
| "visit_predicate ops fconv tp (BetweenParse isNot lower upper) sp spg =
     res_bind (literal_of tp (visit_value ops fconv tp lower spg)) (\<lambda>(lo, spg).
       let sp = fst (AddComparison ops fconv (if isNot then LTE else GT) lo sp)
       in res_bind (literal_of tp (visit_value ops fconv tp upper spg)) (\<lambda>(hi, spg).
         Inr (fst (AddComparison ops fconv (if isNot then GTE else LT) hi sp), spg)))"
| "visit_predicate ops fconv tp QuantifiedComparisonParse sp spg = Inl (Err ''Quantified Comparisons (ALL/ANY/SOME) not supported'')"
| "visit_predicate ops fconv tp OtherPredicateParse sp spg = Inl (Err ''Unsupported predicate type, only static types are supported'')"

text \<open>\<^verbatim>\<open>GetPendingStaticPredicateGroup\<close> is the group of the statement being built, which is new.\<close>

definition where_predicates :: "float_ops \<Rightarrow> float_conv \<Rightarrow> time_parse \<Rightarrow> BooleanExpressionParse \<Rightarrow> StaticPredicateGroup result" where
  "where_predicates ops fconv tp b = res_bind (visit_boolean ops fconv tp b NewStaticPredicateGroup) (\<lambda>(_, spg). Inr spg)"

end
