(* ===== verification/WhereLaws.thy ===== *)
theory WhereLaws
  imports Predicates SeriesLaws
begin

text \<open>
  What the predicates collected from a \<^verbatim>\<open>WHERE\<close> expression accept: exactly the rows that satisfy a conjunction of comparisons, as long as it has no two bounds
  of one side for a column; the weaker of the two bounds otherwise.
\<close>

section \<open>The options of a predicate\<close>

definition options :: "StaticPredicateContentsEnum set" where
  "options = {INLIST, MINBOUND, INCLUSIVEMIN, MAXBOUND, INCLUSIVEMAX, EQUALITY, LIKEPATTERN}"

lemmas option_defs = INLIST_def MINBOUND_def INCLUSIVEMIN_def MAXBOUND_def INCLUSIVEMAX_def EQUALITY_def LIKEPATTERN_def

lemma option_power: "op1 \<in> options \<Longrightarrow> \<exists>n < 8. op1 = 2 ^ n"
proof -
  have "INLIST = 2 ^ 1" "MINBOUND = 2 ^ 2" "INCLUSIVEMIN = 2 ^ 3" "MAXBOUND = 2 ^ 4" "INCLUSIVEMAX = 2 ^ 5" "EQUALITY = 2 ^ 6" "LIKEPATTERN = 2 ^ 7"
    by (simp_all add: option_defs)
  moreover assume "op1 \<in> options"
  ultimately show ?thesis unfolding options_def by (auto intro: exI [of _ 1] exI [of _ 2] exI [of _ 3] exI [of _ 4] exI [of _ 5] exI [of _ 6] exI [of _ 7])
qed

lemma set_iff_bit: "n < 16 \<Longrightarrow> sp_IsSet [2 ^ n] cat \<longleftrightarrow> bit cat n"
  by (auto simp: sp_IsSet_def bit_eq_iff [where ?'a = "16 word"] bit_simps)

lemma power_eq_iff16: "m < 16 \<Longrightarrow> n < 16 \<Longrightarrow> (2 ^ m :: 16 word) = 2 ^ n \<longleftrightarrow> m = n"
  by (auto simp: bit_eq_iff [where ?'a = "16 word"] bit_simps)

lemma set_after_add: "op1 \<in> options \<Longrightarrow> op2 \<in> options \<Longrightarrow> sp_IsSet [op1] (sp_AddOption op2 cat) \<longleftrightarrow> op1 = op2 \<or> sp_IsSet [op1] cat"
  using option_power [of op1] option_power [of op2]
  by (auto simp: set_iff_bit sp_AddOption_def bit_simps power_eq_iff16)

lemma set_in_none: "op1 \<in> options \<Longrightarrow> \<not> sp_IsSet [op1] 0"
  using option_power [of op1] by (auto simp: set_iff_bit)

lemma options_distinct: "distinct [INLIST, MINBOUND, INCLUSIVEMIN, MAXBOUND, INCLUSIVEMAX, EQUALITY, LIKEPATTERN]"
  by (simp add: option_defs)

lemma options_in [simp]: "INLIST \<in> options" "MINBOUND \<in> options" "INCLUSIVEMIN \<in> options" "MAXBOUND \<in> options" "INCLUSIVEMAX \<in> options"
    "EQUALITY \<in> options" "LIKEPATTERN \<in> options"
  by (simp_all add: options_def)

section \<open>The bounds that a predicate stands for\<close>

text \<open>A bound is a number and whether it is itself allowed.\<close>

type_synonym bound = "bool \<times> int"

definition represents :: "StaticPredicate \<Rightarrow> bound option \<Rightarrow> bound option \<Rightarrow> int option \<Rightarrow> bool" where
  "represents sp lo hi eq \<longleftrightarrow>
     spMin sp = map_option (\<lambda>(_, x). Int64 x) lo \<and> has sp MINBOUND = (lo \<noteq> None) \<and> has sp INCLUSIVEMIN = (\<exists>x. lo = Some (True, x)) \<and>
     spMax sp = map_option (\<lambda>(_, x). Int64 x) hi \<and> has sp MAXBOUND = (hi \<noteq> None) \<and> has sp INCLUSIVEMAX = (\<exists>x. hi = Some (True, x)) \<and>
     spEqual sp = map_option Int64 eq \<and> has sp EQUALITY = (eq \<noteq> None) \<and> \<not> has sp LIKEPATTERN \<and> \<not> has sp INLIST"

definition over_low :: "bound option \<Rightarrow> int \<Rightarrow> bool" where
  "over_low lo v \<longleftrightarrow> (case lo of None \<Rightarrow> True | Some (incl, x) \<Rightarrow> if incl then x \<le> v else x < v)"

definition under_high :: "bound option \<Rightarrow> int \<Rightarrow> bool" where
  "under_high hi v \<longleftrightarrow> (case hi of None \<Rightarrow> True | Some (incl, x) \<Rightarrow> if incl then v \<le> x else v < x)"

definition int64 :: "int \<Rightarrow> bool" where
  "int64 x \<longleftrightarrow> - (2 ^ 63) \<le> x \<and> x < 2 ^ 63"

definition bound_ok :: "bound option \<Rightarrow> bool" where
  "bound_ok b \<longleftrightarrow> (case b of None \<Rightarrow> True | Some (_, x) \<Rightarrow> int64 x)"

lemma elem_int64: "int64 x \<Longrightarrow> elem_int KInt64 (le_bytes 8 x) = x"
proof -
  assume x: "int64 x"
  have "x mod 256 ^ 8 = take_bit 64 x" by (simp add: take_bit_eq_mod)
  moreover have "signed_take_bit 63 (take_bit 64 x) = signed_take_bit 63 x" by (simp add: signed_take_bit_take_bit)
  moreover have "signed_take_bit 63 x = x" using x by (intro signed_take_bit_int_eq_self) (auto simp: int64_def)
  ultimately show ?thesis by (simp add: elem_int_def signed_kind_def le_uint_le_bytes del: le_bytes.simps)
qed

lemma bound_int64: "bound_of fconv KInt64 (Some (Int64 x)) = le_bytes 8 x"
  by (simp add: bound_of_def float_kind_def GetValueAsInt64_def numeric_datum_def or_zero_def convert_elem_def)

text \<open>What a predicate keeps of a column of 64-bit integers.\<close>

lemma keeps_int64:
  assumes "represents sp lo hi eq" "bound_ok lo" "bound_ok hi" "\<forall>x. eq = Some x \<longrightarrow> int64 x"
  shows "\<not> removes ops fconv sp KInt64 b \<longleftrightarrow>
    over_low lo (elem_int KInt64 b) \<and> under_high hi (elem_int KInt64 b) \<and> (\<forall>x. eq = Some x \<longrightarrow> elem_int KInt64 b = x)"
proof -
  let ?v = "elem_int KInt64 b"
  have lo: "(if has sp INCLUSIVEMIN then go_less ops KInt64 b (bound_of fconv KInt64 (spMin sp)) else go_le ops KInt64 b (bound_of fconv KInt64 (spMin sp)))
      \<longleftrightarrow> \<not> over_low lo ?v" if "lo \<noteq> None"
    using that assms(1,2) by (auto simp: represents_def over_low_def bound_ok_def bound_int64 go_less_def go_int_less_def go_le_def go_eq_def elem_int64
        simp del: le_bytes.simps)
  have hi: "(if has sp INCLUSIVEMAX then go_less ops KInt64 (bound_of fconv KInt64 (spMax sp)) b else go_le ops KInt64 (bound_of fconv KInt64 (spMax sp)) b)
      \<longleftrightarrow> \<not> under_high hi ?v" if "hi \<noteq> None"
    using that assms(1,3) by (auto simp: represents_def under_high_def bound_ok_def bound_int64 go_less_def go_int_less_def go_le_def go_eq_def elem_int64
        simp del: le_bytes.simps)
  have eq: "go_eq ops KInt64 b (bound_of fconv KInt64 (spEqual sp)) \<longleftrightarrow> eq = Some ?v" if "eq \<noteq> None"
    using that assms(1,4) by (auto simp: represents_def bound_int64 go_eq_def elem_int64 simp del: le_bytes.simps)
  have "over_low None ?v" "under_high None ?v" by (simp_all add: over_low_def under_high_def)
  with lo hi eq show ?thesis using assms(1) unfolding removes_def represents_def by (cases lo; cases hi; cases eq) auto
qed

section \<open>Merging one comparison\<close>

definition single :: "float_ops \<Rightarrow> float_conv \<Rightarrow> string \<times> ComparisonOperatorEnum \<times> int \<Rightarrow> StaticPredicate" where
  "single ops fconv p = (case p of (n, c, x) \<Rightarrow> fst (AddComparison ops fconv c (Some (Int64 x)) (NewStaticPredicate n)))"

lemma numeral_options: "(2 :: StaticPredicateContentsEnum) \<in> options" "(4 :: StaticPredicateContentsEnum) \<in> options" "(8 :: StaticPredicateContentsEnum) \<in> options"
    "(16 :: StaticPredicateContentsEnum) \<in> options" "(32 :: StaticPredicateContentsEnum) \<in> options" "(64 :: StaticPredicateContentsEnum) \<in> options"
    "(128 :: StaticPredicateContentsEnum) \<in> options"
  by (simp_all add: options_def option_defs)

lemmas option_simps = option_defs set_after_add set_in_none numeral_options

lemma represents_new: "represents (NewStaticPredicate n) None None None"
  by (simp add: represents_def NewStaticPredicate_def option_simps)

lemma single_lower:
  assumes "c = GT \<or> c = GTE"
  shows "represents (single ops fconv (n, c, x)) (Some (c = GTE, x)) None None" "spColumn (single ops fconv (n, c, x)) = n"
  using assms by (auto simp: single_def AddComparison_def NewStaticPredicate_def SetMin_def represents_def option_simps)

lemma single_upper:
  assumes "c = LT \<or> c = LTE"
  shows "represents (single ops fconv (n, c, x)) None (Some (c = LTE, x)) None" "spColumn (single ops fconv (n, c, x)) = n"
  using assms by (auto simp: single_def AddComparison_def NewStaticPredicate_def SetMax_def represents_def option_simps)

lemma single_equal: "represents (single ops fconv (n, EQ, x)) None None (Some x)" "spColumn (single ops fconv (n, EQ, x)) = n"
  by (simp_all add: single_def AddComparison_def NewStaticPredicate_def represents_def option_simps)

text \<open>A first bound of a side is taken over.\<close>

lemma merge_lower:
  assumes "represents sp (Some (i, x)) None None" "represents tgt None hi eq"
  shows "represents (merge_into ops fconv sp tgt) (Some (i, x)) hi eq"
  using assms by (cases i) (auto simp: merge_into_def represents_def Let_def AddComparison_def SetMin_def option_simps)

lemma merge_upper:
  assumes "represents sp None (Some (i, x)) None" "represents tgt lo None eq"
  shows "represents (merge_into ops fconv sp tgt) lo (Some (i, x)) eq"
  using assms by (cases i) (auto simp: merge_into_def represents_def Let_def AddComparison_def SetMax_def option_simps)

lemma merge_equal:
  assumes "represents sp None None (Some x)" "represents tgt lo hi eq"
  shows "represents (merge_into ops fconv sp tgt) lo hi (Some x)"
  using assms by (auto simp: merge_into_def represents_def Let_def AddComparison_def option_simps)

text \<open>A second bound: floats compare the values of small integers as these.\<close>

definition exact_floats :: "float_ops \<Rightarrow> float_conv \<Rightarrow> bool" where
  "exact_floats ops fconv \<longleftrightarrow> (\<forall>a b. \<bar>a\<bar> \<le> 2 ^ 53 \<and> \<bar>b\<bar> \<le> 2 ^ 53 \<longrightarrow>
     (less64 ops (fconv KInt64 KFloat64 (le_bytes 8 a)) (fconv KInt64 KFloat64 (le_bytes 8 b)) \<longleftrightarrow> a < b) \<and>
     (eq64 ops (fconv KInt64 KFloat64 (le_bytes 8 a)) (fconv KInt64 KFloat64 (le_bytes 8 b)) \<longleftrightarrow> a = b))"

lemma GenericComparison_exact:
  assumes "exact_floats ops fconv" "\<bar>a\<bar> \<le> 2 ^ 53" "\<bar>b\<bar> \<le> 2 ^ 53"
  shows "GenericComparison ops fconv (Some (Int64 a)) (Some (Int64 b)) GT = Inr (b < a)" "GenericComparison ops fconv (Some (Int64 a)) (Some (Int64 b)) GTE = Inr (b \<le> a)"
    "GenericComparison ops fconv (Some (Int64 a)) (Some (Int64 b)) LT = Inr (a < b)" "GenericComparison ops fconv (Some (Int64 a)) (Some (Int64 b)) LTE = Inr (a \<le> b)"
  using assms by (auto simp: GenericComparison_def GetValueAsFloat64_def numeric_datum_def convert_elem_def int_kind_def signed_kind_def go_compare_def go_less_def go_le_def
      go_eq_def exact_floats_def simp del: le_bytes.simps)

lemma merge_second_lower:
  assumes "exact_floats ops fconv" "\<bar>a\<bar> \<le> 2 ^ 53" "\<bar>b\<bar> \<le> 2 ^ 53"
    and "represents sp (Some (j, b)) None None" "represents tgt (Some (i, a)) hi eq"
  shows "represents (merge_into ops fconv sp tgt) (Some (i \<or> j, min a b)) hi eq"
  using assms(4,5)
  by (cases i; cases j) (auto simp: merge_into_def represents_def Let_def AddComparison_def SetMin_def option_simps min_def
      GenericComparison_exact [OF assms(1-3)] GenericComparison_exact [OF assms(1,3,2)])

section \<open>Conjunctions of comparisons\<close>

type_synonym comparison = "string \<times> ComparisonOperatorEnum \<times> int"

definition comparison_parse :: "comparison \<Rightarrow> BooleanExpressionParse" where
  "comparison_parse p = (case p of (n, c, x) \<Rightarrow>
     DefaultB (PrimaryV (ColumnReferenceP n)) (ComparisonParse c (PrimaryV (LiteralP INTEGER_LITERAL (Some (Int64 x))))))"

text \<open>Trees for comparisons of columns with integers, joined by \<^verbatim>\<open>AND\<close>, with and without parentheses.\<close>

inductive conj_expr :: "BooleanExpressionParse \<Rightarrow> comparison list \<Rightarrow> bool" where
  one: "conj_expr (comparison_parse p) [p]"
| both: "conj_expr l xs \<Longrightarrow> conj_expr r ys \<Longrightarrow> conj_expr (BinaryB AND_OP l (BooleanE r)) (xs @ ys)"
| paren: "conj_expr l xs \<Longrightarrow> conj_expr r ys \<Longrightarrow> conj_expr (BinaryB AND_OP l (ValueE (PrimaryV (ParenthesizedP (BooleanE r))))) (xs @ ys)"

lemma visit_conj:
  "conj_expr b xs \<Longrightarrow> visit_boolean ops fconv tp b spg = Inr (VNil, fold (\<lambda>p. Merge ops fconv (single ops fconv p)) xs spg)"
proof (induction b xs arbitrary: spg rule: conj_expr.induct)
  case (one p)
  then show ?case by (cases p) (simp add: comparison_parse_def literal_of_def CoerceToNumeric_def single_def)
qed simp_all

fun holds :: "ComparisonOperatorEnum \<Rightarrow> int \<Rightarrow> int \<Rightarrow> bool" where
  "holds EQ x v \<longleftrightarrow> v = x" | "holds NEQ x v \<longleftrightarrow> v \<noteq> x" | "holds LT x v \<longleftrightarrow> v < x" | "holds LTE x v \<longleftrightarrow> v \<le> x"
| "holds GT x v \<longleftrightarrow> x < v" | "holds GTE x v \<longleftrightarrow> x \<le> v" | "holds NOOP x v \<longleftrightarrow> True"

text \<open>The side of a column that a comparison bounds; a list with one comparison for each side.\<close>

fun side :: "ComparisonOperatorEnum \<Rightarrow> nat" where
  "side EQ = 0" | "side LT = 1" | "side LTE = 1" | "side GT = 2" | "side GTE = 2" | "side NEQ = 3" | "side NOOP = 3"

definition one_per_side :: "comparison list \<Rightarrow> bool" where
  "one_per_side xs \<longleftrightarrow> distinct (map (\<lambda>(n, c, x). (n, side c)) xs) \<and> (\<forall>(n, c, x) \<in> set xs. side c < 3 \<and> int64 x)"

text \<open>The group knows the bounds of the comparisons for every column.\<close>

definition on_side :: "comparison list \<Rightarrow> string \<Rightarrow> nat \<Rightarrow> (ComparisonOperatorEnum \<times> int) option" where
  "on_side xs n s = map_option snd (find (\<lambda>p. fst p = n \<and> side (fst (snd p)) = s) xs)"

definition low_of :: "comparison list \<Rightarrow> string \<Rightarrow> bound option" where
  "low_of xs n = map_option (\<lambda>(c, x). (c = GTE, x)) (on_side xs n 2)"

definition high_of :: "comparison list \<Rightarrow> string \<Rightarrow> bound option" where
  "high_of xs n = map_option (\<lambda>(c, x). (c = LTE, x)) (on_side xs n 1)"

definition equal_of :: "comparison list \<Rightarrow> string \<Rightarrow> int option" where
  "equal_of xs n = map_option snd (on_side xs n 0)"

definition group_of :: "StaticPredicateGroup \<Rightarrow> comparison list \<Rightarrow> bool" where
  "group_of spg xs \<longleftrightarrow> (\<forall>n. case map_of spg n of
      None \<Rightarrow> n \<notin> fst ` set xs
    | Some sp \<Rightarrow> represents sp (low_of xs n) (high_of xs n) (equal_of xs n))"

lemma find_snoc: "find P (xs @ [x]) = (case find P xs of Some y \<Rightarrow> Some y | None \<Rightarrow> if P x then Some x else None)"
  by (induction xs) auto

lemma on_side_snoc: "on_side (xs @ [(m, c, x)]) n s = (case on_side xs n s of Some y \<Rightarrow> Some y | None \<Rightarrow> if m = n \<and> side c = s then Some (c, x) else None)"
  by (auto simp: on_side_def find_snoc split: option.splits)

lemma on_side_new: "one_per_side (xs @ [(n, c, x)]) \<Longrightarrow> on_side xs n (side c) = None"
  by (force simp: one_per_side_def on_side_def find_None_iff)

lemma on_side_other: "n \<notin> fst ` set xs \<Longrightarrow> on_side xs n s = None"
  by (auto simp: on_side_def find_None_iff image_iff)

lemma on_side_Some: "on_side xs n s = Some (c, x) \<Longrightarrow> (n, c, x) \<in> set xs \<and> side c = s"
  by (auto simp: on_side_def find_Some_iff) (metis fst_conv nth_mem snd_conv)+

lemma side_iff: "side c = 2 \<longleftrightarrow> c = GT \<or> c = GTE" "side c = Suc 0 \<longleftrightarrow> c = LT \<or> c = LTE" "side c = 0 \<longleftrightarrow> c = EQ"
  by (cases c; simp)+

lemma side_cases: "side c < 3 \<Longrightarrow> c = EQ \<or> (c = LT \<or> c = LTE) \<or> (c = GT \<or> c = GTE)"
  by (cases c) auto

lemma group_at: "group_of spg xs \<Longrightarrow> case map_of spg n of
      None \<Rightarrow> n \<notin> fst ` set xs
    | Some sp \<Rightarrow> represents sp (low_of xs n) (high_of xs n) (equal_of xs n)"
  by (simp add: group_of_def)

lemma spg_Add_group:
  assumes "group_of spg xs" "spg_Add n spg = (spg', tgt)"
  shows "represents tgt (low_of xs n) (high_of xs n) (equal_of xs n)" "m \<noteq> n \<Longrightarrow> map_of spg' m = map_of spg m"
proof -
  show "represents tgt (low_of xs n) (high_of xs n) (equal_of xs n)"
  proof (cases "map_of spg n")
    case None
    then have "n \<notin> fst ` set xs" using group_at [OF assms(1), of n] by simp
    then show ?thesis using None assms(2) represents_new [of n] by (auto simp: spg_Add_def low_of_def high_of_def equal_of_def on_side_other)
  next
    case (Some sp)
    then show ?thesis using group_at [OF assms(1), of n] assms(2) by (simp add: spg_Add_def)
  qed
  show "m \<noteq> n \<Longrightarrow> map_of spg' m = map_of spg m" using assms(2) by (auto simp: spg_Add_def update_conv' split: option.splits)
qed

lemmas merge_one =
  merge_equal [OF single_equal(1)]
  merge_upper [OF single_upper(1) [of LT], simplified] merge_upper [OF single_upper(1) [of LTE], simplified]
  merge_lower [OF single_lower(1) [of GT], simplified] merge_lower [OF single_lower(1) [of GTE], simplified]

lemma merge_side:
  assumes o: "one_per_side (xs @ [(n, c, x)])" and tgt: "represents tgt (low_of xs n) (high_of xs n) (equal_of xs n)"
  shows "represents (merge_into ops fconv (single ops fconv (n, c, x)) tgt)
    (low_of (xs @ [(n, c, x)]) n) (high_of (xs @ [(n, c, x)]) n) (equal_of (xs @ [(n, c, x)]) n)"
proof -
  have "side c < 3" using o by (auto simp: one_per_side_def)
  then show ?thesis using tgt on_side_new [OF o]
    by (cases c) (auto simp: low_of_def high_of_def equal_of_def on_side_snoc split: option.splits intro: merge_one)
qed

lemma Merge_group:
  assumes g: "group_of spg xs" and o: "one_per_side (xs @ [(n, c, x)])"
  shows "group_of (Merge ops fconv (single ops fconv (n, c, x)) spg) (xs @ [(n, c, x)])"
proof -
  let ?sp = "single ops fconv (n, c, x)" and ?ys = "xs @ [(n, c, x)]"
  have "side c < 3" using o by (auto simp: one_per_side_def)
  from side_cases [OF this] have col: "spColumn ?sp = n" using single_lower(2) single_upper(2) single_equal(2) by metis
  obtain spg' tgt where add: "spg_Add n spg = (spg', tgt)" by (cases "spg_Add n spg")
  note tgt = spg_Add_group [OF g add]
  show ?thesis unfolding group_of_def
  proof
    fix m
    show "case map_of (Merge ops fconv ?sp spg) m of None \<Rightarrow> m \<notin> fst ` set ?ys
        | Some sp \<Rightarrow> represents sp (low_of ?ys m) (high_of ?ys m) (equal_of ?ys m)"
    proof (cases "m = n")
      case True
      then show ?thesis using merge_side [OF o tgt(1)] by (simp add: Merge_def col add update_conv')
    next
      case False
      then have "low_of ?ys m = low_of xs m" "high_of ?ys m = high_of xs m" "equal_of ?ys m = equal_of xs m"
        by (auto simp: low_of_def high_of_def equal_of_def on_side_snoc split: option.splits)
      moreover have "map_of (Merge ops fconv ?sp spg) m = map_of spg m" using False tgt(2) by (simp add: Merge_def col add update_conv')
      ultimately show ?thesis using group_at [OF g, of m] False by (auto split: option.splits)
    qed
  qed
qed

lemma where_group:
  assumes "one_per_side xs"
  shows "group_of (fold (\<lambda>p. Merge ops fconv (single ops fconv p)) xs []) xs"
  using assms
proof (induction xs rule: rev_induct)
  case (snoc p xs)
  obtain n c x where p: "p = (n, c, x)" by (cases p)
  have "one_per_side xs" using snoc.prems by (auto simp: one_per_side_def)
  with snoc Merge_group [of _ xs n c x] show ?case by (simp add: p)
qed (simp add: group_of_def)

text \<open>The bounds of a column accept what all comparisons of the column accept.\<close>

lemma on_side_one:
  assumes "one_per_side xs" "(n, c, x) \<in> set xs"
  shows "on_side xs n (side c) = Some (c, x)"
proof -
  obtain d y where f: "on_side xs n (side c) = Some (d, y)"
    using assms(2) by (cases "on_side xs n (side c)") (auto simp: on_side_def find_None_iff)
  moreover have "inj_on (\<lambda>(n, c, x). (n, side c)) (set xs)" using assms(1) by (simp add: one_per_side_def distinct_map)
  ultimately have "(n, d, y) = (n, c, x)" using assms(2) on_side_Some [OF f] by (intro inj_onD [where f = "\<lambda>(n, c, x). (n, side c)"]) auto
  with f show ?thesis by simp
qed

lemma bounds_hold:
  assumes "one_per_side xs"
  shows "over_low (low_of xs n) v \<and> under_high (high_of xs n) v \<and> (\<forall>x. equal_of xs n = Some x \<longrightarrow> v = x) \<longleftrightarrow> (\<forall>(m, c, x) \<in> set xs. m = n \<longrightarrow> holds c x v)"
    (is "?l \<longleftrightarrow> ?r")
proof
  assume l: ?l
  show ?r
  proof clarify
    fix c x
    assume m: "(n, c, x) \<in> set xs"
    from on_side_one [OF assms m] l show "holds c x v" using m assms
      by (cases c) (auto simp: low_of_def high_of_def equal_of_def over_low_def under_high_def one_per_side_def)
  qed
next
  assume r: ?r
  have h: "holds c x v \<and> side c = s" if "on_side xs n s = Some (c, x)" for s c x using r on_side_Some [OF that] by auto
  have "over_low (low_of xs n) v"
    by (cases "on_side xs n 2") (use h [of 2] in \<open>auto simp: low_of_def over_low_def side_iff\<close>)
  moreover have "under_high (high_of xs n) v"
    by (cases "on_side xs n 1") (use h [of 1] in \<open>auto simp: high_of_def under_high_def side_iff\<close>)
  moreover have "\<forall>x. equal_of xs n = Some x \<longrightarrow> v = x"
    by (cases "on_side xs n 0") (use h [of 0] in \<open>auto simp: equal_of_def side_iff\<close>)
  ultimately show ?l by blast
qed

section \<open>The rows that are kept\<close>

definition select_rows :: "nat list \<Rightarrow> column \<Rightarrow> column" where
  "select_rows is c = c\<lparr>celems := map (\<lambda>i. celems c ! i) is\<rparr>"

definition removed :: "float_ops \<Rightarrow> float_conv \<Rightarrow> StaticPredicateGroup \<Rightarrow> ColumnSeries \<Rightarrow> string \<Rightarrow> nat \<Rightarrow> bool" where
  "removed ops fconv spg cs name i \<longleftrightarrow> (case (map_of spg name, cs_GetColumn name cs) of
      (Some sp, Some col) \<Rightarrow> filtered_kind (ckind col) \<and> removes ops fconv sp (ckind col) (celems col ! i)
    | _ \<Rightarrow> False)"

lemma GetColumn_in: "cs_GetColumn name cs = Some col \<Longrightarrow> (name, col) \<in> set (columns cs)"
  by (auto simp: cs_GetColumn_def GetByName_def split: option.splits if_splits dest: map_of_SomeD)

lemma mark_rows:
  assumes "rows_ok cs (length bm)"
  shows "mark_columns ops fconv spg cs names bm = Inr (map (\<lambda>i. bm ! i \<or> (\<exists>name \<in> set names. removed ops fconv spg cs name i)) [0..<length bm])"
  using assms
proof (induction names arbitrary: bm)
  case Nil
  show ?case by (simp add: map_nth)
next
  case (Cons name names)
  show ?case
  proof (cases "map_of spg name = None \<or> cs_GetColumn name cs = None")
    case True
    then have "removed ops fconv spg cs name i = False" for i by (auto simp: removed_def split: option.splits)
    with True Cons.IH [OF Cons.prems] show ?thesis by (auto split: option.splits)
  next
    case False
    then obtain sp col where s: "map_of spg name = Some sp" "cs_GetColumn name cs = Some col" by auto
    have l: "length (celems col) = length bm" using GetColumn_in [OF s(2)] Cons.prems by (auto simp: rows_ok_def)
    let ?bm = "map (\<lambda>i. bm ! i \<or> removed ops fconv spg cs name i) [0..<length bm]"
    have m: "mark ops fconv sp col bm = Inr ?bm"
      using l by (auto simp: mark_def Let_def removed_def s intro!: nth_equalityI simp: nth_enumerate_eq)
    have "mark_columns ops fconv spg cs names ?bm
        = Inr (map (\<lambda>i. ?bm ! i \<or> (\<exists>name \<in> set names. removed ops fconv spg cs name i)) [0..<length bm])"
      using Cons.IH [of ?bm] Cons.prems by simp
    then show ?thesis by (simp add: s m)
  qed
qed

lemma bitmap_select:
  assumes "length (celems c) = length bm"
  shows "bitmap_column bm c = Inr (select_rows (filter (\<lambda>i. \<not> bm ! i) [0..<length bm]) c)"
proof -
  have "res_map (go_nth (celems c)) (filter (\<lambda>i. \<not> bm ! i) [0..<length bm]) = Inr (map (\<lambda>i. celems c ! i) (filter (\<lambda>i. \<not> bm ! i) [0..<length bm]))"
    by (rule res_map_Inr) (auto simp: go_nth_def assms)
  then show ?thesis by (simp add: bitmap_column_def select_rows_def)
qed

lemma Replace_moves:
  assumes "series_ok cs" "orderedNames cs = n # ns"
  shows "\<exists>cs'. Replace n c cs = Inr cs' \<and> series_ok cs' \<and> orderedNames cs' = ns @ [n] \<and> map_of (columns cs') = (map_of (columns cs))(n \<mapsto> c)"
proof -
  have n: "Exists n cs" "n \<notin> set ns" using assms by (auto simp: Exists_keys series_ok_def distinct_map)
  then obtain r where r: "Remove n cs = Inr r" by (simp add: Remove_def)
  note ok = Remove_ok [OF assms(1) r]
  have names: "orderedNames r = ns" using ok assms(2) n(2) by (auto intro!: filter_True)
  have "\<not> Exists n r" using ok by (simp add: Exists_keys)
  then have cs': "Replace n c cs = Inr (r\<lparr>orderedNames := ns @ [n], columns := AList.update n c (columns r)\<rparr>)"
    by (simp add: Replace_def r AddColumn_fresh names)
  moreover have "series_ok (r\<lparr>orderedNames := ns @ [n], columns := AList.update n c (columns r)\<rparr>)" using Replace_ok [OF assms(1) cs'] .
  moreover have "map_of (AList.update n c (columns r)) = (map_of (columns cs))(n \<mapsto> c)"
    using ok by (auto simp: update_conv' delete_conv')
  ultimately show ?thesis by simp
qed

lemma restrict_moves:
  assumes "series_ok cs" "orderedNames cs = rest @ done"
    and "\<forall>n \<in> set rest. \<exists>c. map_of (columns cs) n = Some c \<and> number_kind (ckind c) \<and> length (celems c) = length bm"
  defines "is \<equiv> filter (\<lambda>i. \<not> bm ! i) [0..<length bm]"
  shows "\<exists>cs'. restrict_names bm rest cs = Inr cs' \<and> orderedNames cs' = done @ rest \<and>
    (\<forall>n. map_of (columns cs') n = (if n \<in> set rest then map_option (select_rows is) (map_of (columns cs) n) else map_of (columns cs) n))"
  using assms(1-3)
proof (induction rest arbitrary: cs "done")
  case (Cons n rest)
  obtain c where c: "map_of (columns cs) n = Some c" "number_kind (ckind c)" "length (celems c) = length bm" using Cons.prems(3) by auto
  obtain r where r: "Replace n (select_rows is c) cs = Inr r" "series_ok r" "orderedNames r = rest @ done @ [n]"
      "map_of (columns r) = (map_of (columns cs))(n \<mapsto> select_rows is c)"
    using Replace_moves [OF Cons.prems(1), of n "rest @ done"] Cons.prems(2) by fastforce
  have "distinct (map ToLower (orderedNames cs))" using Cons.prems(1) by (simp add: series_ok_def)
  then have n: "n \<notin> set rest" using Cons.prems(2) by auto
  have "\<forall>m \<in> set rest. \<exists>c. map_of (columns r) m = Some c \<and> number_kind (ckind c) \<and> length (celems c) = length bm"
    using Cons.prems(3) n r(4) by auto
  from Cons.IH [OF r(2,3) this] obtain cs' where cs': "restrict_names bm rest r = Inr cs'" "orderedNames cs' = (done @ [n]) @ rest"
      "\<forall>m. map_of (columns cs') m = (if m \<in> set rest then map_option (select_rows is) (map_of (columns r) m) else map_of (columns r) m)"
    by auto
  have "restrict_names bm (n # rest) cs = Inr cs'"
    using c(1,2) cs'(1) r(1) by (simp add: bitmap_select [OF c(3)] is_def)
  moreover have "map_of (columns cs') m = (if m \<in> set (n # rest) then map_option (select_rows is) (map_of (columns cs) m) else map_of (columns cs) m)" for m
    using cs'(3) n r(4) c(1) by simp
  ultimately show ?case using cs'(2) by auto
qed simp

definition value_at :: "ColumnSeries \<Rightarrow> string \<Rightarrow> nat \<Rightarrow> int" where
  "value_at cs n i = elem_int KInt64 (celems (column_or_nil cs n) ! i)"

text \<open>The series of a query: every column is numeric and has a value for every row.\<close>

definition numeric_rows :: "ColumnSeries \<Rightarrow> nat \<Rightarrow> bool" where
  "numeric_rows cs r \<longleftrightarrow> series_ok cs \<and> orderedNames cs \<noteq> [] \<and> (\<forall>(n, c) \<in> set (columns cs). number_kind (ckind c) \<and> length (celems c) = r)"

lemma numeric_column:
  assumes "numeric_rows cs r" "n \<in> set (orderedNames cs)"
  obtains c where "map_of (columns cs) n = Some c" "cs_GetColumn n cs = Some c" "column_or_nil cs n = c" "number_kind (ckind c)" "length (celems c) = r"
proof -
  obtain c where c: "map_of (columns cs) n = Some c"
    using assms by (auto simp: numeric_rows_def series_ok_def keys_def)
  have k: "number_kind (ckind c)" "length (celems c) = r" using assms(1) map_of_SomeD [OF c] by (auto simp: numeric_rows_def)
  then have "ckind c \<noteq> KInvalid" by (auto simp: number_kind_def int_kind_def signed_kind_def float_kind_def)
  with c k that show thesis by (simp add: cs_GetColumn_def GetByName_def column_or_nil_def)
qed

lemma numeric_names: "numeric_rows cs r \<Longrightarrow> map_of (columns cs) n = None \<longleftrightarrow> n \<notin> set (orderedNames cs)"
  by (simp add: numeric_rows_def series_ok_def keys_def map_of_eq_None_iff)

lemma restrict_all:
  assumes "numeric_rows cs (length bm)"
  shows "\<exists>cs'. RestrictViaBitmap bm cs = Inr cs' \<and> orderedNames cs' = orderedNames cs \<and>
    (\<forall>n. map_of (columns cs') n = map_option (select_rows (filter (\<lambda>i. \<not> bm ! i) [0..<length bm])) (map_of (columns cs) n))"
proof -
  have "\<exists>c. map_of (columns cs) n = Some c \<and> number_kind (ckind c) \<and> length (celems c) = length bm" if "n \<in> set (orderedNames cs)" for n
    using numeric_column [OF assms that] by metis
  moreover have "series_ok cs" using assms by (simp add: numeric_rows_def)
  ultimately obtain cs' where cs': "RestrictViaBitmap bm cs = Inr cs'" "orderedNames cs' = orderedNames cs"
      "\<forall>n. map_of (columns cs') n = (if n \<in> set (orderedNames cs)
        then map_option (select_rows (filter (\<lambda>i. \<not> bm ! i) [0..<length bm])) (map_of (columns cs) n) else map_of (columns cs) n)"
    using restrict_moves [of cs "orderedNames cs" "[]" bm] by (auto simp: RestrictViaBitmap_def)
  have "map_of (columns cs') n = map_option (select_rows (filter (\<lambda>i. \<not> bm ! i) [0..<length bm])) (map_of (columns cs) n)" for n
    using cs'(3) numeric_names [OF assms, of n] by auto
  with cs'(1,2) show ?thesis by blast
qed

lemma removed_iff:
  assumes "one_per_side xs" "group_of spg xs" "numeric_rows cs r" "n \<in> set (orderedNames cs)" "\<forall>(m, c, x) \<in> set xs. col_kind cs m = KInt64"
  shows "removed ops fconv spg cs n i \<longleftrightarrow> \<not> (\<forall>(m, c, x) \<in> set xs. m = n \<longrightarrow> holds c x (value_at cs n i))"
proof -
  obtain col where col: "map_of (columns cs) n = Some col" "cs_GetColumn n cs = Some col" "column_or_nil cs n = col"
    using numeric_column [OF assms(3,4)] by metis
  show ?thesis
  proof (cases "n \<in> fst ` set xs")
    case False
    have "\<not> removes ops fconv sp k v" if "map_of spg n = Some sp" for sp k v
      using group_at [OF assms(2), of n] that False by (auto simp: low_of_def high_of_def equal_of_def on_side_other represents_def removes_def)
    then have "\<not> removed ops fconv spg cs n i" by (auto simp: removed_def split: option.splits)
    moreover have "m \<noteq> n" if "(m, c, x) \<in> set xs" for m c x using False that by force
    ultimately show ?thesis by blast
  next
    case True
    then have k: "ckind col = KInt64" using assms(5) col(1) by (auto simp: col_kind_def)
    obtain sp where sp: "map_of spg n = Some sp" "represents sp (low_of xs n) (high_of xs n) (equal_of xs n)"
      using group_at [OF assms(2), of n] True by (cases "map_of spg n") auto
    have "bound_ok (low_of xs n)" "bound_ok (high_of xs n)" "\<forall>x. equal_of xs n = Some x \<longrightarrow> int64 x"
      using assms(1) by (auto simp: bound_ok_def low_of_def high_of_def equal_of_def one_per_side_def split: option.splits dest!: on_side_Some)
    from keeps_int64 [OF sp(2) this] have "\<not> removes ops fconv sp KInt64 (celems col ! i) \<longleftrightarrow>
        (\<forall>(m, c, x) \<in> set xs. m = n \<longrightarrow> holds c x (elem_int KInt64 (celems col ! i)))"
      using bounds_hold [OF assms(1)] by simp
    then have "removes ops fconv sp KInt64 (celems col ! i) \<longleftrightarrow> \<not> (\<forall>(m, c, x) \<in> set xs. m = n \<longrightarrow> holds c x (value_at cs n i))"
      unfolding value_at_def col(3) by blast
    then show ?thesis by (simp add: removed_def sp(1) col(2) k filtered_kind_def)
  qed
qed

text \<open>
  C16: For a \<^verbatim>\<open>WHERE\<close> expression that joins comparisons of integer columns with integers by \<^verbatim>\<open>AND\<close>, with at most one equality, one lower and one upper
  bound for a column, the predicates that the visitor collects remove exactly the rows that fail a comparison, from all columns, and keep the order of rows and columns.
\<close>

theorem where_rows:
  assumes "conj_expr b xs" "one_per_side xs" "numeric_rows cs r" "\<forall>(n, c, x) \<in> set xs. col_kind cs n = KInt64"
  shows "\<exists>spg cs'. where_predicates ops fconv tp b = Inr spg \<and> apply_predicates ops fconv spg cs = Inr cs' \<and> orderedNames cs' = orderedNames cs \<and>
    (\<forall>name. map_of (columns cs') name =
       map_option (select_rows (filter (\<lambda>i. \<forall>(n, c, x) \<in> set xs. holds c x (value_at cs n i)) [0..<r])) (map_of (columns cs) name))"
proof -
  let ?spg = "fold (\<lambda>p. Merge ops fconv (single ops fconv p)) xs []"
  have w: "where_predicates ops fconv tp b = Inr ?spg"
    by (simp add: where_predicates_def visit_conj [OF assms(1)] NewStaticPredicateGroup_def)
  note g = where_group [OF assms(2), of ops fconv]
  have ok: "series_ok cs" using assms(3) by (simp add: numeric_rows_def)
  have len: "cs_Len cs = Inr r"
  proof -
    obtain n ns where n: "orderedNames cs = n # ns" using assms(3) by (cases "orderedNames cs") (auto simp: numeric_rows_def)
    then obtain c where "cs_GetColumn n cs = Some c" "length (celems c) = r" using numeric_column [OF assms(3), of n] by auto
    then show ?thesis by (simp add: cs_Len_def n cs_GetColumn_def)
  qed
  have rows: "rows_ok cs r" using assms(3)
    by (fastforce simp: rows_ok_def numeric_rows_def number_kind_def int_kind_def signed_kind_def float_kind_def)
  define bm where "bm = map (\<lambda>i. \<exists>name \<in> set (orderedNames cs). removed ops fconv ?spg cs name i) [0..<r]"
  have mark: "mark_columns ops fconv ?spg cs (GetColumnNames cs) (replicate r False) = Inr bm"
    using mark_rows [of cs "replicate r False"] rows by (simp add: GetColumnNames_def bm_def)
  have names: "n \<in> set (orderedNames cs)" if "(n, c, x) \<in> set xs" for n c x
    using assms(4) that numeric_names [OF assms(3), of n] by (auto simp: col_kind_def split: option.splits)
  have "bm ! i \<longleftrightarrow> \<not> (\<forall>(n, c, x) \<in> set xs. holds c x (value_at cs n i))" if "i < r" for i
    using that names removed_iff [OF assms(2) g assms(3) _ assms(4)] by (auto simp: bm_def split_beta)
  then have sel: "filter (\<lambda>i. \<not> bm ! i) [0..<length bm] = filter (\<lambda>i. \<forall>(n, c, x) \<in> set xs. holds c x (value_at cs n i)) [0..<r]"
    by (intro filter_cong) (auto simp: bm_def)
  obtain cs' where "RestrictViaBitmap bm cs = Inr cs'" "orderedNames cs' = orderedNames cs"
      "\<forall>n. map_of (columns cs') n = map_option (select_rows (filter (\<lambda>i. \<not> bm ! i) [0..<length bm])) (map_of (columns cs) n)"
    using restrict_all [of cs bm] assms(3) by (auto simp: bm_def)
  with w len mark sel show ?thesis by (auto simp: apply_predicates_def)
qed

definition trades :: ColumnSeries where
  "trades = \<lparr>columns = [(''Epoch'', \<lparr>ckind = KInt64, celems = map (le_bytes 8) [10, 20, 30, 40]\<rparr>),
     (''Size'', \<lparr>ckind = KInt64, celems = map (le_bytes 8) [5, 1, 7, 9]\<rparr>)], orderedNames = [''Epoch'', ''Size''], candleAttributes = 0, nameIncrement = []\<rparr>"

definition trades_where :: BooleanExpressionParse where
  "trades_where = BinaryB AND_OP (comparison_parse (''Epoch'', GTE, 10))
     (ValueE (PrimaryV (ParenthesizedP (BooleanE (BinaryB AND_OP (comparison_parse (''Epoch'', LT, 40)) (BooleanE (comparison_parse (''Size'', GT, 4))))))))"

theorem where_rows_witness:
  "\<exists>spg cs'. where_predicates bit_ops (\<lambda>_ _ b. b) (\<lambda>_ _. None) trades_where = Inr spg \<and> apply_predicates bit_ops (\<lambda>_ _ b. b) spg trades = Inr cs'
     \<and> map_of (columns cs') ''Size'' = Some \<lparr>ckind = KInt64, celems = [le_bytes 8 5, le_bytes 8 7]\<rparr>"
proof -
  let ?xs = "[(''Epoch'', GTE, 10), (''Epoch'', LT, 40), (''Size'', GT, 4)]"
  have c: "conj_expr trades_where ([(''Epoch'', GTE, 10)] @ [(''Epoch'', LT, 40)] @ [(''Size'', GT, 4)])"
    unfolding trades_where_def by (intro conj_expr.intros)
  have o: "one_per_side ?xs" by (simp add: one_per_side_def int64_def)
  have n: "numeric_rows trades 4" by code_simp
  have k: "\<forall>(n, c, x) \<in> set ?xs. col_kind trades n = KInt64" by code_simp
  have f: "filter (\<lambda>i. \<forall>(n, c, x) \<in> set ?xs. holds c x (value_at trades n i)) [0..<4] = [0, 2]" by code_simp
  have r: "map_option (select_rows [0, 2]) (map_of (columns trades) ''Size'') = Some \<lparr>ckind = KInt64, celems = [le_bytes 8 5, le_bytes 8 7]\<rparr>" by code_simp
  from where_rows [OF c _ n, of bit_ops "\<lambda>_ _ b. b" "\<lambda>_ _. None"] o k show ?thesis
    unfolding append.simps f using r by metis
qed

text \<open>
  C34: Two lower bounds for a column that are joined by \<^verbatim>\<open>AND\<close> accept the values that the weaker one of them accepts, and the bound itself when either of them is
  inclusive; so a conjunction can accept values that neither of its parts does.
\<close>

theorem second_bound_widens:
  assumes "exact_floats ops fconv" "\<bar>a\<bar> \<le> 2 ^ 53" "\<bar>b\<bar> \<le> 2 ^ 53" "c \<in> {GT, GTE}" "d \<in> {GT, GTE}"
  shows "\<exists>sp. where_predicates ops fconv tp (BinaryB AND_OP (comparison_parse (n, c, a)) (BooleanE (comparison_parse (n, d, b)))) = Inr [(n, sp)] \<and>
    (\<forall>v. \<not> removes ops fconv sp KInt64 v \<longleftrightarrow> (if c = GTE \<or> d = GTE then min a b \<le> elem_int KInt64 v else min a b < elem_int KInt64 v))"
proof -
  let ?one = "merge_into ops fconv (single ops fconv (n, c, a)) (NewStaticPredicate n)"
  let ?two = "merge_into ops fconv (single ops fconv (n, d, b)) ?one"
  have cd: "c = GT \<or> c = GTE" "d = GT \<or> d = GTE" using assms(4,5) by auto
  have w: "where_predicates ops fconv tp (BinaryB AND_OP (comparison_parse (n, c, a)) (BooleanE (comparison_parse (n, d, b)))) = Inr [(n, ?two)]"
    using single_lower(2) [OF cd(1)] single_lower(2) [OF cd(2)]
    by (simp add: where_predicates_def visit_conj [OF conj_expr.one] NewStaticPredicateGroup_def Merge_def spg_Add_def)
  have "represents ?one (Some (c = GTE, a)) None None"
    using merge_lower [OF single_lower(1) [OF cd(1)] represents_new] .
  then have "represents ?two (Some (c = GTE \<or> d = GTE, min a b)) None None"
    by (rule merge_second_lower [OF assms(1-3) single_lower(1) [OF cd(2)]])
  moreover have "int64 (min a b)" using assms(2,3) by (auto simp: int64_def min_def)
  ultimately have "\<not> removes ops fconv ?two KInt64 v \<longleftrightarrow> (if c = GTE \<or> d = GTE then min a b \<le> elem_int KInt64 v else min a b < elem_int KInt64 v)" for v
    using keeps_int64 [of ?two "Some (c = GTE \<or> d = GTE, min a b)" None None] by (simp add: bound_ok_def over_low_def under_high_def)
  with w show ?thesis by blast
qed

text \<open>Integers as their own floats.\<close>

definition int_ops :: float_ops where
  "int_ops = bit_ops\<lparr>less64 := go_int_less KInt64, eq64 := (\<lambda>a b. elem_int KInt64 a = elem_int KInt64 b)\<rparr>"

lemma int_ops_exact: "exact_floats int_ops (\<lambda>_ _ b. b)"
proof -
  have "int64 a" if "\<bar>a\<bar> \<le> 2 ^ 53" for a using that by (auto simp: int64_def abs_le_iff)
  then show ?thesis by (auto simp: exact_floats_def int_ops_def go_int_less_def elem_int64 simp del: le_bytes.simps)
qed

theorem second_bound_widens_witness:
  "\<exists>sp. where_predicates int_ops (\<lambda>_ _ b. b) (\<lambda>_ _. None)
       (BinaryB AND_OP (comparison_parse (''Size'', GT, 1)) (BooleanE (comparison_parse (''Size'', GTE, 5)))) = Inr [(''Size'', sp)]
     \<and> \<not> removes int_ops (\<lambda>_ _ b. b) sp KInt64 (le_bytes 8 1)"
proof -
  have "elem_int KInt64 (le_bytes 8 1) = 1" by (rule elem_int64) (simp add: int64_def)
  then show ?thesis
    using second_bound_widens [OF int_ops_exact, of 1 5 GT GTE "\<lambda>_ _. None" "''Size''"] by (auto simp del: le_bytes.simps)
qed

text \<open>\<^verbatim>\<open>OR\<close> is collected like \<^verbatim>\<open>AND\<close>, and a comparison by \<^verbatim>\<open><>\<close> is dropped.\<close>

theorem or_collected_as_and: "where_predicates ops fconv tp (BinaryB OR_OP l r) = where_predicates ops fconv tp (BinaryB AND_OP l r)"
  by (simp add: where_predicates_def)

theorem unequal_ignored:
  "where_predicates ops fconv tp (comparison_parse (n, NEQ, x)) = Inr [(n, sp)] \<Longrightarrow> \<not> removes ops fconv sp k v"
  by (auto simp: where_predicates_def comparison_parse_def literal_of_def CoerceToNumeric_def AddComparison_def NewStaticPredicateGroup_def Merge_def
      spg_Add_def merge_into_def NewStaticPredicate_def removes_def Let_def option_simps)

end
