(* ===== verification/Spec2Isabelle.thy ===== *)
theory Spec2Isabelle
  imports Faults Progress Reader Planner WriteLaws AggCalls AggTrigger Numpy WhereLaws
begin

text \<open>
  A verification of MarketStore, a database server for financial time series written in Go. Paths below are relative to the root of the
  repository.

  \<^bold>\<open>The program.\<close> A time bucket is a directory \<^verbatim>\<open>Symbol/Timeframe/AttributeGroup\<close> with one data file for each year. A year file has a header and
  one slot for every interval of the year; a slot holds a record, or for variable-length data the place of all records of its interval. A
  client's write becomes commands in a channel. A background writer takes them as a transaction group, logs the group, and writes it to
  the primary files; a checkpoint synchronizes the files and lets the log forget the groups. On the next start the logs of earlier processes are
  replayed. A query is parsed over the catalog, which mirrors the directory tree, into year files and a range; a scanner reads them into
  columns. Aggregate functions run over the columns, and triggers get the records that were written.

  \<^bold>\<open>Theories and sources.\<close>

  \<^item> Foundations. \<open>Prelude\<close>: results and errors of Go, conversions between its integer types with their wrap-around, slices, files; the collections
    \<open>go_int\<close> and \<open>file_simps\<close>. \<open>GoStrings\<close>, \<open>GoTime\<close>, \<open>FileTree\<close>: the parts of the standard library that the code uses (strings and paths, instants and
    the calendar with time zones, the tree of files). \<open>Bytes\<close>, \<open>Md5\<close>: \<^verbatim>\<open>utils/io/serializer.go\<close>, the readers of \<^verbatim>\<open>byteconversions.go\<close>, the checksum of the log.
    \<open>Runs\<close>: lists cut into runs of equal keys, a specification that two components share.
  \<^item> Data model. \<open>Datatypes\<close>: \<^verbatim>\<open>utils/io/datatypes.go\<close>. \<open>TimeIndex\<close>: \<^verbatim>\<open>timeindex.go\<close>. \<open>Metadata\<close>: \<^verbatim>\<open>metadata.go\<close>, \<^verbatim>\<open>datashape.go\<close>, the header of a
    year file. \<open>Timeframe\<close>: \<^verbatim>\<open>utils/timeframe.go\<close>. \<open>Keys\<close>: \<^verbatim>\<open>keytypes.go\<close>. \<open>Generics\<close>: \<^verbatim>\<open>generics.go\<close>. \<open>Series\<close>, \<open>SeriesLaws\<close>: \<^verbatim>\<open>columnseries.go\<close> and
    \<^verbatim>\<open>generatedMethods.go\<close>. \<open>Rows\<close>: \<^verbatim>\<open>rowseries.go\<close>. \<open>Numpy\<close>: \<^verbatim>\<open>numpy.go\<close>, the form in which series are sent.
  \<^item> Primary files. \<open>BufFile\<close>: \<^verbatim>\<open>executor/buffile\<close>. \<open>Primary\<close>: the writes of \<^verbatim>\<open>executor/writer.go\<close> to a file, \<^verbatim>\<open>timsort.go\<close>, \<^verbatim>\<open>writePrimary\<close> of \<^verbatim>\<open>wal.go\<close>.
  \<^item> Log. \<open>WalFile\<close>: the log file and its messages, \<^verbatim>\<open>executor/wal.go\<close> and \<^verbatim>\<open>messages.go\<close>. \<open>Flush\<close>: \<^verbatim>\<open>cache.go\<close>, \<^verbatim>\<open>written.go\<close>, \<^verbatim>\<open>flushToWAL\<close>, \<^verbatim>\<open>createCheckpoint\<close>,
    \<^verbatim>\<open>SyncWAL\<close>, \<^verbatim>\<open>RequestFlush\<close>. \<open>Replay\<close>: \<^verbatim>\<open>Replay\<close> and the cleanup at the start. \<open>LogFormat\<close>, \<open>TxnGroups\<close>, \<open>Live\<close>, \<open>Recovery\<close>, \<open>Progress\<close>,
    \<open>Faults\<close>: their laws.
  \<^item> Catalog and writes. \<open>Catalog\<close>, \<open>CatalogLaws\<close>, \<open>CatalogAdd\<close>: \<^verbatim>\<open>catalog/catalog.go\<close>. \<open>Writer\<close>, \<open>WriteLaws\<close>: \<^verbatim>\<open>Writer\<close> and \<^verbatim>\<open>WriteCSM\<close> of \<^verbatim>\<open>executor/writer.go\<close>.
  \<^item> Queries. \<open>Query\<close>, \<open>Planner\<close>: \<^verbatim>\<open>planner/planner.go\<close>. \<open>Scanner\<close>, \<open>ScanLaws\<close>: \<^verbatim>\<open>executor/scanner.go\<close> and \<^verbatim>\<open>readhint\<close>. \<open>ReadVariable\<close>: \<^verbatim>\<open>readvariable.go\<close> and
    \<^verbatim>\<open>rewriteBuffer.c\<close>. \<open>Reader\<close>: the reader, and \<^verbatim>\<open>delete.go\<close>. \<open>Predicates\<close>, \<open>WhereLaws\<close>: the predicates of
    \<^verbatim>\<open>WHERE\<close> expressions, \<^verbatim>\<open>sqlparser/selectrelation.go\<close> and the visitors of \<^verbatim>\<open>executablestatement.go\<close>.
  \<^item> Aggregation. \<open>ArgMap\<close>: \<^verbatim>\<open>utils/functions\<close>. \<open>Aggregates\<close>: \<^verbatim>\<open>uda\<close>. \<open>Candler\<close>: \<^verbatim>\<open>contrib/candler\<close>. \<open>AggCalls\<close>: the registry
    \<^verbatim>\<open>sqlparser/registry.go\<close> and the chain of function calls of \<^verbatim>\<open>frontend/query.go\<close>. \<open>Calendar\<close>: \<^verbatim>\<open>contrib/calendar\<close>. \<open>AggAccum\<close>, \<open>AggTrigger\<close>:
    \<^verbatim>\<open>contrib/ondiskagg\<close> and the records of \<^verbatim>\<open>plugins/trigger\<close>.

  \<^bold>\<open>State and operations.\<close> A struct is a record with the fields of the source, a method a function that takes the record and returns it changed. An
  operation that can fail returns \<open>Inl\<close> of an error or of a panic, or the changed state together with an optional error where the code goes on with a
  state that was changed in part. Pointers that may be nil are options. The catalog, whose nodes are shared, is a heap of nodes with references. The
  files are a map from paths to bytes; the storage has the view of the processes and that of the medium. Go's maps are association lists, and where the
  order in which Go visits a map matters it is an argument, any permutation. Integers are numbers with the conversion to their width written out where it can
  matter. The state of an engine with tree, catalog, log, queue and primary files is \<open>engine\<close> of theory \<open>Writer\<close>; \<open>sync_state\<close> of \<open>Flush\<close> is the part the background writer
  changes, and \<open>live_step\<close> of \<open>Live\<close> is the step relation of the running server.

  \<^bold>\<open>What is shown.\<close>

  \<^item> Durability. Every step of the server keeps an invariant of log and files (\<open>Live\<close>); after a crash at any moment, with a torn message at the end of the log, the next
    start leaves exactly the files that the crashed process had, and for fixed-length records from any mixture of old and new bytes; after a checkpoint nothing is
    replayed. Both ways to write a group, from the queue and from the log, implement the same contract (\<open>TxnGroups\<close>). A request for a flush is
    not lost and is answered (\<open>Progress\<close>). \<open>Faults\<close> has the states from which recovery fails.
  \<^item> Files. The buffered file refines the plain file; an indirect write refines insertion into the sorted bucket of a slot; the sort is stable; slots and times
    correspond and lie inside the file; the header is read back.
  \<^item> Data. The names and columns of a series stay in step; rows and columns convert back, and so do series and datasets; union and slices are what they are said to be.
  \<^item> Catalog and queries. Loading mirrors the tree, adding a bucket keeps the mirror, parsing finds exactly the matching files; the commands of a
    write are those of its runs of rows and leave each slot with the last row; forward and backward scans return the first and the last records; the predicates of a
    conjunction remove exactly the rows that fail it.
  \<^item> Aggregation. Candles, and the bars of the trigger, are those of the rows of each window; market days are those of the calendar's description; sums and extremes.
  \<^item> Errors. The theorems of kind error, and lemmas beside them, show inputs for which the code does not do what it means to.

  \<^bold>\<open>Interfaces.\<close> Locales state contracts between components: \<open>write_at_closer\<close> (a file with positioned writes, interpreted on the plain and on the buffered file, with
  the client's lemmas on sequences of writes), \<open>ordered_set\<close> (interpreted on \<^verbatim>\<open>AnySet\<close>), \<open>item_access\<close> (on bucket keys) and \<open>value_order\<close> (comparisons under which a
  scan finds an extreme, interpreted on the integers of every width and on the times of rows; for floats it is a hypothesis, which holds when no value is a NaN).

  \<^bold>\<open>Loops.\<close> Loops are recursive functions with termination proofs. Three loops are partial functions to an option, with theorems that they return:
  the backward scan (\<open>backward_loop\<close>), the walk over a heap of directories (\<open>recurse\<close>) and the collection of files (\<open>getFileList\<close>), for which the forest of directory nodes is
  the reason. No fuel is used.

  \<^bold>\<open>Arguments of the model.\<close> Code outside the sources is an argument: the compression codec, the conversions between and operations of floating-point numbers (\<open>float_conv\<close>,
  \<open>float_ops\<close>), the functions of gonum, the computation of ticks in double precision (\<open>interval_ticks\<close>, \<open>ticks_time\<close>), the zone of an instance, the clock, \<^verbatim>\<open>time.Parse\<close> for the
  dates of a query, and the order of Go's maps. Theorems that need a law of an argument have it as a hypothesis, with a witness.

  \<^bold>\<open>Not modelled.\<close> The SQL parser (\<^verbatim>\<open>sqlparser/parser\<close>, \<^verbatim>\<open>sqlparsetree.go\<close>): it is generated by ANTLR, and the statement tree is built from the classes of the
  ANTLR run time, which is not in the sources. The RPC server, client and stream (the rest of \<^verbatim>\<open>frontend\<close>) and the feeder plugins (\<^verbatim>\<open>contrib\<close>): handlers of HTTP,
  websockets and messages of external services on external packages, which call the modelled read and write paths. The command line, configuration, logging
  and statistics. Matching of trigger keys by regular expressions and the loading of plugins. The interleaving inside one call: locks order whole
  calls, and steps of the server are atomic. The candle windows of weeks, months and years are modelled, but the theorems on windows are for seconds to days in UTC.
\<close>

end
